(* ===== verification/Eve_Prelude.thy ===== *)
theory Eve_Prelude
  imports Main "HOL-Library.Word" "HOL-Library.Monad_Syntax"
begin

text \<open>
  The vocabulary shared by every component of the Eve kernel model.

  \<^item> Machine types: \<open>u8\<close>, \<open>u16\<close>, \<open>u32\<close>, \<open>u64\<close> are words of their width, \<open>i32\<close> is a 32 bit
    word read with \<open>sint\<close>; \<open>usize\<close> is a natural number whose limit \<open>USIZE_MAX\<close> is written out
    wherever the source calls a checked or saturating operation (64 bit targets).
  \<^item> Byte buffers are lists of \<open>u8\<close>. \<open>slice xs a b\<close> is \<open>&xs[a..b]\<close>; \<open>put_at\<close> is
    \<open>copy_from_slice\<close> into \<open>out[a..]\<close>, with the out-of-range panic as \<open>None\<close> in \<open>write_at\<close>.
  \<^item> Fixed small arrays \<open>[u8; 4]\<close> and \<open>[u8; 6]\<close> are the datatypes \<open>ipv4\<close> and \<open>mac\<close>.
  \<^item> Big and little endian conversion of 16, 32 and 64 bit words, with their round trips.
  \<^item> The collection \<open>bytes_simps\<close> of facts that evaluate byte-level code.
\<close>

unbundle bit_operations_syntax

named_theorems bytes_simps \<open>evaluation of byte-level helpers\<close>

section \<open>Machine types\<close>

type_synonym u8 = "8 word"
type_synonym u16 = "16 word"
type_synonym u32 = "32 word"
type_synonym u64 = "64 word"
type_synonym i32 = "32 word"
type_synonym usize = nat
type_synonym bytes = "u8 list"

datatype ipv4 = IPv4 u8 u8 u8 u8
datatype mac = MAC u8 u8 u8 u8 u8 u8

fun octets :: "ipv4 \<Rightarrow> bytes" where
  "octets (IPv4 a b c d) = [a, b, c, d]"

fun mac_bytes :: "mac \<Rightarrow> bytes" where
  "mac_bytes (MAC a b c d e f) = [a, b, c, d, e, f]"

text \<open>The limit is an integer so that comparing with it evaluates on binary numerals.\<close>

definition USIZE_MAX :: int where
  "USIZE_MAX = 0xFFFFFFFFFFFFFFFF"

text \<open>Rust's \<open>checked_mul\<close>, \<open>checked_add\<close> and \<open>saturating_add\<close> on \<open>usize\<close>.\<close>

definition checked_mul :: "usize \<Rightarrow> usize \<Rightarrow> usize option" where
  "checked_mul a b = (if int a * int b \<le> USIZE_MAX then Some (a * b) else None)"

definition checked_add :: "usize \<Rightarrow> usize \<Rightarrow> usize option" where
  "checked_add a b = (if int a + int b \<le> USIZE_MAX then Some (a + b) else None)"

definition saturating_add :: "usize \<Rightarrow> usize \<Rightarrow> usize" where
  "saturating_add a b = (if int a + int b \<le> USIZE_MAX then a + b else nat USIZE_MAX)"

lemma saturating_add_le: "saturating_add a b \<le> k \<longleftrightarrow> a + b \<le> k" if "int k < USIZE_MAX"
  using that by (auto simp: saturating_add_def USIZE_MAX_def)

lemma less_saturating_add: "k < saturating_add a b \<longleftrightarrow> k < a + b" if "int k < USIZE_MAX"
  using that by (auto simp: saturating_add_def USIZE_MAX_def)

text \<open>Saturating arithmetic at a word's width.\<close>

definition sat_add :: "'a::len word \<Rightarrow> 'a word \<Rightarrow> 'a word" where
  "sat_add a b = (if unat a + unat b < 2 ^ LENGTH('a) then a + b else - 1)"

definition sat_mul :: "'a::len word \<Rightarrow> 'a word \<Rightarrow> 'a word" where
  "sat_mul a b = (if unat a * unat b < 2 ^ LENGTH('a) then a * b else - 1)"

definition sat_sub :: "'a::len word \<Rightarrow> 'a word \<Rightarrow> 'a word" where
  "sat_sub a b = (if b \<le> a then a - b else 0)"

lemma unat_sat_add: "unat (sat_add a b) = min (unat a + unat b) (2 ^ LENGTH('a) - 1)"
  for a b :: "'a::len word"
  by (auto simp: sat_add_def unat_word_ariths unsigned_minus_1_eq_mask mask_eq_exp_minus_1)

lemma unat_sat_sub: "unat (sat_sub a b) = unat a - unat b"
  for a b :: "'a::len word"
  by (auto simp: sat_sub_def unat_sub word_le_nat_alt)

section \<open>ASCII\<close>

abbreviation byte :: "char \<Rightarrow> u8" where
  "byte c \<equiv> of_char c"

definition ascii :: "string \<Rightarrow> bytes" where
  "ascii s = map of_char s"

lemma ascii_Nil [bytes_simps, simp]: "ascii '''' = []"
  by (simp add: ascii_def)

lemma ascii_Cons [bytes_simps]: "ascii (c # s) = byte c # ascii s"
  by (simp add: ascii_def)

lemma length_ascii [simp]: "length (ascii s) = length s"
  by (simp add: ascii_def)

definition is_ascii_digit :: "u8 \<Rightarrow> bool" where
  "is_ascii_digit c \<longleftrightarrow> 0x30 \<le> c \<and> c \<le> 0x39"

definition is_ascii_uppercase :: "u8 \<Rightarrow> bool" where
  "is_ascii_uppercase c \<longleftrightarrow> 0x41 \<le> c \<and> c \<le> 0x5A"

definition is_ascii_lowercase :: "u8 \<Rightarrow> bool" where
  "is_ascii_lowercase c \<longleftrightarrow> 0x61 \<le> c \<and> c \<le> 0x7A"

definition is_ascii_alpha :: "u8 \<Rightarrow> bool" where
  "is_ascii_alpha c \<longleftrightarrow> is_ascii_uppercase c \<or> is_ascii_lowercase c"

text \<open>\<open>u8::is_ascii_whitespace\<close>: space, tab, line feed, form feed, carriage return.\<close>

definition is_ascii_whitespace :: "u8 \<Rightarrow> bool" where
  "is_ascii_whitespace c \<longleftrightarrow> c = 0x20 \<or> c = 0x09 \<or> c = 0x0A \<or> c = 0x0C \<or> c = 0x0D"

definition to_ascii_lowercase :: "u8 \<Rightarrow> u8" where
  "to_ascii_lowercase c = (if is_ascii_uppercase c then c + 32 else c)"

lemmas ascii_class_defs [bytes_simps] =
  is_ascii_digit_def is_ascii_uppercase_def is_ascii_lowercase_def is_ascii_alpha_def
  is_ascii_whitespace_def to_ascii_lowercase_def

lemma to_ascii_lowercase_idem [simp]:
  "to_ascii_lowercase (to_ascii_lowercase c) = to_ascii_lowercase c"
proof (cases "is_ascii_uppercase c")
  case True
  then have "unat (c + 32) = unat c + 32" and "unat c \<le> 90" and "65 \<le> unat c"
    by (auto simp: is_ascii_uppercase_def word_le_nat_alt unat_word_ariths)
  then have "\<not> is_ascii_uppercase (c + 32)"
    by (simp add: is_ascii_uppercase_def word_le_nat_alt)
  with True show ?thesis by (simp add: to_ascii_lowercase_def)
qed (simp add: to_ascii_lowercase_def)

section \<open>Slices and in-place writes\<close>

definition slice :: "'a list \<Rightarrow> nat \<Rightarrow> nat \<Rightarrow> 'a list" where
  "slice xs a b = take (b - a) (drop a xs)"

definition put_at :: "'a list \<Rightarrow> nat \<Rightarrow> 'a list \<Rightarrow> 'a list" where
  "put_at out a src = take a out @ src @ drop (a + length src) out"

text \<open>\<open>out[a..a + src.len()].copy_from_slice(src)\<close>: \<open>None\<close> is the slice-index panic.\<close>

definition write_at :: "'a list \<Rightarrow> nat \<Rightarrow> 'a list \<Rightarrow> 'a list option" where
  "write_at out a src = (if a + length src \<le> length out then Some (put_at out a src) else None)"

text \<open>\<open>xs[i]\<close>: \<open>None\<close> is the index panic.\<close>

definition index :: "'a list \<Rightarrow> nat \<Rightarrow> 'a option" where
  "index xs i = (if i < length xs then Some (xs ! i) else None)"

text \<open>\<open>&xs[a..b]\<close>: \<open>None\<close> is the panic on \<open>a > b\<close> or \<open>b > xs.len()\<close>.\<close>

definition subslice :: "'a list \<Rightarrow> nat \<Rightarrow> nat \<Rightarrow> 'a list option" where
  "subslice xs a b = (if a \<le> b \<and> b \<le> length xs then Some (slice xs a b) else None)"

lemma index_Some [simp]: "i < length xs \<Longrightarrow> index xs i = Some (xs ! i)"
  by (simp add: index_def)

lemma subslice_Some [simp]: "a \<le> b \<Longrightarrow> b \<le> length xs \<Longrightarrow> subslice xs a b = Some (slice xs a b)"
  by (simp add: subslice_def)

lemma write_at_Some [simp]:
  "a + length src \<le> length out \<Longrightarrow> write_at out a src = Some (put_at out a src)"
  by (simp add: write_at_def)

lemma length_slice [simp]: "length (slice xs a b) = min (b - a) (length xs - a)"
  by (simp add: slice_def)

lemma nth_slice: "i < b - a \<Longrightarrow> a + i < length xs \<Longrightarrow> slice xs a b ! i = xs ! (a + i)"
  by (simp add: slice_def)

lemma slice_full [simp]: "slice xs 0 (length xs) = xs"
  by (simp add: slice_def)

lemma slice_from_0: "slice xs 0 n = take n xs"
  by (simp add: slice_def)

lemma slice_single: "a < length xs \<Longrightarrow> slice xs a (Suc a) = [xs ! a]"
  by (simp add: slice_def take_Suc_conv_app_nth)

lemma slice_append: "a \<le> b \<Longrightarrow> b \<le> c \<Longrightarrow> slice xs a b @ slice xs b c = slice xs a c"
proof -
  assume ab: "a \<le> b" and bc: "b \<le> c"
  have "slice xs b c = take (c - b) (drop (b - a) (drop a xs))"
    using ab by (simp add: slice_def)
  moreover have "take (b - a) (drop a xs) @ take (c - b) (drop (b - a) (drop a xs))
      = take ((b - a) + (c - b)) (drop a xs)"
    by (simp add: take_add)
  ultimately show ?thesis using ab bc by (simp add: slice_def)
qed

lemma slice_alt: "slice xs a b = drop a (take b xs)"
  by (simp add: slice_def drop_take)

lemma slice_middle: "length pre = i \<Longrightarrow> e = i + length xs \<Longrightarrow> slice (pre @ xs @ rest) i e = xs"
  by (simp add: slice_def)

lemma slice_update_beyond: "b \<le> n \<Longrightarrow> slice (xs[n := v]) a b = slice xs a b"
  by (simp add: slice_alt)

lemma take_take_append: "take n (take n xs @ ys) = take n (xs @ ys)"
  by (cases "n \<le> length xs") simp_all

lemma length_put_at [simp]:
  "a + length src \<le> length out \<Longrightarrow> length (put_at out a src) = length out"
  by (simp add: put_at_def)

lemma slice_put_at_same [simp]:
  "a + length src \<le> length out \<Longrightarrow> b = a + length src \<Longrightarrow> slice (put_at out a src) a b = src"
  by (simp add: slice_def put_at_def)

lemma slice_put_at_before [simp]:
  "b \<le> a \<Longrightarrow> a + length src \<le> length out \<Longrightarrow> slice (put_at out a src) c b = slice out c b"
proof -
  assume "b \<le> a" "a + length src \<le> length out"
  then have "take (b - c) (drop c (take a out)) = take (b - c) (drop c out)"
    by (simp add: drop_take min_def)
  with \<open>b \<le> a\<close> \<open>a + length src \<le> length out\<close> show ?thesis
    by (cases "c \<le> b") (simp_all add: slice_def put_at_def)
qed

lemma slice_put_at_after [simp]:
  "a + length src \<le> c \<Longrightarrow> a + length src \<le> length out \<Longrightarrow>
   slice (put_at out a src) c b = slice out c b"
  by (simp add: slice_def put_at_def)

lemma nth_put_at:
  "a + length src \<le> length out \<Longrightarrow> i < length out \<Longrightarrow>
   put_at out a src ! i = (if a \<le> i \<and> i < a + length src then src ! (i - a) else out ! i)"
  by (auto simp: put_at_def nth_append)

lemma take_put_at_ge [simp]:
  "n \<le> a \<Longrightarrow> a + length src \<le> length out \<Longrightarrow> take n (put_at out a src) = take n out"
  by (simp add: put_at_def)

text \<open>
  A buffer filled field by field: each entry is an offset and the bytes copied there. When the
  fields follow each other without a gap the buffer is their concatenation.
\<close>

definition put_fields :: "(nat \<times> 'a list) list \<Rightarrow> 'a list \<Rightarrow> 'a list" where
  "put_fields fs out = fold (\<lambda>(a, src) out. put_at out a src) fs out"

fun contiguous :: "nat \<Rightarrow> (nat \<times> 'a list) list \<Rightarrow> bool" where
  "contiguous a [] \<longleftrightarrow> True"
| "contiguous a ((b, src) # fs) \<longleftrightarrow> a = b \<and> contiguous (a + length src) fs"

lemma contiguous_append:
  "contiguous a (fs @ gs) \<longleftrightarrow> contiguous a fs \<and> contiguous (a + length (concat (map snd fs))) gs"
  by (induction fs arbitrary: a) (auto simp: add.assoc)

lemma contiguous_map:
  "(\<And>i. i < n \<Longrightarrow> length (f i) = k) \<Longrightarrow> contiguous a (map (\<lambda>i. (a + i * k, f i)) [0..<n])
    \<and> length (concat (map f [0..<n])) = n * k"
  by (induction n) (auto simp: contiguous_append o_def)

lemma put_fields_any:
  "contiguous (length pre) fs \<Longrightarrow> put_fields fs (pre @ rest)
    = pre @ concat (map snd fs) @ drop (length (concat (map snd fs))) rest"
proof (induction fs arbitrary: pre rest)
  case Nil
  then show ?case by (simp add: put_fields_def)
next
  case (Cons f fs)
  obtain src where f: "f = (length pre, src)" using Cons.prems by (cases f) auto
  have "put_at (pre @ rest) (length pre) src = (pre @ src) @ drop (length src) rest"
    by (simp add: put_at_def)
  with f Cons.IH [of "pre @ src" "drop (length src) rest"] Cons.prems show ?case
    by (simp add: put_fields_def add.commute)
qed

lemma put_fields_contiguous:
  "contiguous (length pre) fs \<Longrightarrow> put_fields fs (pre @ replicate n z)
    = pre @ concat (map snd fs) @ replicate (n - length (concat (map snd fs))) z"
  by (simp add: put_fields_any)

lemma contiguous_slice:
  "contiguous (length pre) fs \<Longrightarrow> (b, src) \<in> set fs \<Longrightarrow>
    slice (pre @ concat (map snd fs) @ post) b (b + length src) = src"
proof (induction fs arbitrary: pre)
  case (Cons f fs)
  obtain s where f: "f = (length pre, s)" using Cons.prems by (cases f) auto
  show ?case
  proof (cases "(b, src) = f")
    case True
    with f show ?thesis by (simp add: slice_def)
  next
    case False
    with f Cons.prems Cons.IH [of "pre @ s"] show ?thesis by auto
  qed
qed simp

text \<open>The first index whose element satisfies a predicate (\<open>iter().position\<close>).\<close>

fun position :: "('a \<Rightarrow> bool) \<Rightarrow> 'a list \<Rightarrow> nat option" where
  "position p [] = None"
| "position p (x # xs) = (if p x then Some 0 else map_option Suc (position p xs))"

lemma position_Some:
  "position p xs = Some i \<longleftrightarrow> i < length xs \<and> p (xs ! i) \<and> (\<forall>j<i. \<not> p (xs ! j))"
proof (induction xs arbitrary: i)
  case Nil
  then show ?case by simp
next
  case (Cons x xs)
  show ?case
  proof (cases "p x")
    case True
    then show ?thesis by (cases i) auto
  next
    case False
    with Cons.IH show ?thesis
      by (cases i) (auto simp: less_Suc_eq_0_disj)
  qed
qed

lemma position_None: "position p xs = None \<longleftrightarrow> (\<forall>x\<in>set xs. \<not> p x)"
  by (induction xs) auto

lemma position_less_length: "position p xs = Some i \<Longrightarrow> i < length xs"
  by (simp add: position_Some)

lemma position_takeWhile:
  "position p xs = Some i \<Longrightarrow> take i xs = takeWhile (\<lambda>x. \<not> p x) xs"
  by (induction xs arbitrary: i) (auto split: if_splits)

text \<open>\<open>slice::split\<close>: the pieces between the elements that satisfy \<open>p\<close>; never empty.\<close>

fun split_on :: "('a \<Rightarrow> bool) \<Rightarrow> 'a list \<Rightarrow> 'a list list" where
  "split_on p [] = [[]]"
| "split_on p (x # xs) =
     (if p x then [] # split_on p xs
      else (case split_on p xs of [] \<Rightarrow> [[x]] | y # ys \<Rightarrow> (x # y) # ys))"

lemma split_on_not_Nil [simp]: "split_on p xs \<noteq> []"
  by (induction xs) (auto split: list.splits)

lemma split_on_no [simp]: "\<forall>x\<in>set xs. \<not> p x \<Longrightarrow> split_on p xs = [xs]"
  by (induction xs) auto

lemma split_on_append [simp]:
  "\<forall>x\<in>set xs. \<not> p x \<Longrightarrow> p y \<Longrightarrow> split_on p (xs @ y # ys) = xs # split_on p ys"
  by (induction xs) auto

section \<open>Endianness\<close>

fun of_be16 :: "u8 \<Rightarrow> u8 \<Rightarrow> u16" where
  "of_be16 a b = push_bit 8 (ucast a) OR ucast b"

fun of_be32 :: "u8 \<Rightarrow> u8 \<Rightarrow> u8 \<Rightarrow> u8 \<Rightarrow> u32" where
  "of_be32 a b c d = push_bit 24 (ucast a) OR push_bit 16 (ucast b) OR push_bit 8 (ucast c) OR ucast d"

fun of_le16 :: "u8 \<Rightarrow> u8 \<Rightarrow> u16" where
  "of_le16 a b = of_be16 b a"

fun of_le32 :: "u8 \<Rightarrow> u8 \<Rightarrow> u8 \<Rightarrow> u8 \<Rightarrow> u32" where
  "of_le32 a b c d = of_be32 d c b a"

definition to_be16 :: "u16 \<Rightarrow> bytes" where
  "to_be16 w = [ucast (drop_bit 8 w), ucast w]"

definition to_be32 :: "u32 \<Rightarrow> bytes" where
  "to_be32 w = [ucast (drop_bit 24 w), ucast (drop_bit 16 w), ucast (drop_bit 8 w), ucast w]"

definition to_le16 :: "u16 \<Rightarrow> bytes" where
  "to_le16 w = [ucast w, ucast (drop_bit 8 w)]"

definition to_le32 :: "u32 \<Rightarrow> bytes" where
  "to_le32 w = [ucast w, ucast (drop_bit 8 w), ucast (drop_bit 16 w), ucast (drop_bit 24 w)]"

definition to_le64 :: "u64 \<Rightarrow> bytes" where
  "to_le64 w = map (\<lambda>i. ucast (drop_bit (8 * i) w)) [0..<8]"

fun of_le64 :: "bytes \<Rightarrow> u64" where
  "of_le64 [] = 0"
| "of_le64 (b # bs) = ucast b OR push_bit 8 (of_le64 bs)"

lemma length_to_bytes [simp]:
  "length (to_be16 w) = 2" "length (to_be32 v) = 4" "length (to_le16 w) = 2"
  "length (to_le32 v) = 4" "length (to_le64 q) = 8"
  by (simp_all add: to_be16_def to_be32_def to_le16_def to_le32_def to_le64_def)

lemma bit_u8_high [simp]: "8 \<le> n \<Longrightarrow> \<not> bit (b :: u8) n"
  using bit_imp_le_length [of b n] by auto

lemma unat_u8_less [simp]: "unat (b :: u8) < 256"
  using unsigned_less [of b] by simp

lemma unat_u8_le [simp]: "unat (b :: u8) \<le> 255"
  using unat_u8_less [of b] by linarith

lemma unat_of_nat_small: "n < 2 ^ LENGTH('a) \<Longrightarrow> unat (of_nat n :: 'a::len word) = n"
  by (simp add: unsigned_of_nat take_bit_nat_eq_self)

lemma unat_ucast_u8 [simp]:
  "unat (ucast (b :: u8) :: u16) = unat b" "unat (ucast (b :: u8) :: u32) = unat b"
  using unat_u8_less [of b]
  by (simp_all add: unsigned_ucast_eq take_bit_nat_eq_self less_trans [OF unat_u8_less])

lemma of_be16_to_be16 [simp]: "of_be16 (to_be16 w ! 0) (to_be16 w ! Suc 0) = w"
  by (rule bit_word_eqI) (auto simp: to_be16_def bit_simps)

lemma of_be16_bytes [simp]: "of_be16 (ucast (drop_bit 8 w)) (ucast w) = w"
  by (rule bit_word_eqI) (auto simp: bit_simps)

lemma of_be32_bytes [simp]:
  "of_be32 (ucast (drop_bit 24 w)) (ucast (drop_bit 16 w)) (ucast (drop_bit 8 w)) (ucast w) = w"
proof (rule bit_word_eqI)
  fix n assume "n < LENGTH(32)"
  then consider "n < 8" | "8 \<le> n \<and> n < 16" | "16 \<le> n \<and> n < 24" | "24 \<le> n \<and> n < 32"
    by fastforce
  then show "bit (of_be32 (ucast (drop_bit 24 w)) (ucast (drop_bit 16 w)) (ucast (drop_bit 8 w))
      (ucast w)) n = bit w n"
    by cases (auto simp: bit_simps)
qed

lemma to_be16_of_be16 [simp]: "to_be16 (of_be16 a b) = [a, b]"
  unfolding to_be16_def by simp (intro conjI bit_word_eqI; auto simp: bit_simps)

lemma to_be32_of_be32 [simp]: "to_be32 (of_be32 a b c d) = [a, b, c, d]"
  unfolding to_be32_def by simp (intro conjI bit_word_eqI; auto simp: bit_simps)

lemma to_le32_of_le32 [simp]: "to_le32 (of_le32 a b c d) = [a, b, c, d]"
  unfolding to_le32_def by simp (intro conjI bit_word_eqI; auto simp: bit_simps)

lemma unat_of_be16: "unat (of_be16 a b) = 256 * unat a + unat b"
proof -
  have disj: "(push_bit 8 (ucast a) :: u16) AND ucast b = 0"
    by (rule bit_word_eqI) (auto simp: bit_simps dest: bit_imp_le_length)
  have "unat (push_bit 8 (ucast a) :: u16) = 256 * unat a"
    by (simp add: push_bit_eq_mult unat_word_ariths)
  moreover have "256 * unat a + unat b < 65536"
    using unat_u8_less [of a] unat_u8_less [of b] by linarith
  moreover have "of_be16 a b = push_bit 8 (ucast a) + ucast b"
    using disj by (simp add: disjunctive_add_eq_or)
  ultimately show ?thesis by (simp add: unat_word_ariths)
qed

section \<open>Decimal numbers\<close>

text \<open>The canonical decimal representation, most significant digit first.\<close>

fun dec_of :: "nat \<Rightarrow> bytes" where
  "dec_of n = (if n < 10 then [0x30 + of_nat n] else dec_of (n div 10) @ [0x30 + of_nat (n mod 10)])"

declare dec_of.simps [simp del]

text \<open>
  The loop several modules share: write decimal digits downwards from index \<open>i\<close> of a scratch
  array while the number is not zero (\<open>i -= 1; tmp[i] = b'0' + n % 10; n /= 10\<close>).
\<close>

fun dec_fill :: "nat \<Rightarrow> 'a::len word \<Rightarrow> bytes \<Rightarrow> nat \<times> bytes" where
  "dec_fill 0 n tmp = (0, tmp)"
| "dec_fill (Suc i) n tmp =
     (if n = 0 then (Suc i, tmp) else dec_fill i (n div 10) (tmp[i := 0x30 + ucast (n mod 10)]))"

lemma dec_of_not_Nil [simp]: "dec_of n \<noteq> []"
  by (subst dec_of.simps) simp

lemma digit_of_nat:
  assumes "d < 10"
  shows "is_ascii_digit (0x30 + of_nat d)" and "unat ((0x30 + of_nat d) - 0x30 :: u8) = d"
proof -
  from assms have "d = 0 \<or> d = 1 \<or> d = 2 \<or> d = 3 \<or> d = 4 \<or> d = 5 \<or> d = 6 \<or> d = 7 \<or> d = 8 \<or> d = 9"
    by arith
  then show "is_ascii_digit (0x30 + of_nat d)" "unat ((0x30 + of_nat d) - 0x30 :: u8) = d"
    by (auto simp: is_ascii_digit_def)
qed

lemma dec_of_digits: "\<forall>c\<in>set (dec_of n). is_ascii_digit c"
proof (induction n rule: dec_of.induct)
  case (1 n)
  show ?case
  proof (cases "n < 10")
    case True
    then show ?thesis by (subst dec_of.simps) (simp add: digit_of_nat)
  next
    case False
    with "1.IH" show ?thesis
      by (subst dec_of.simps) (auto simp: digit_of_nat [of "n mod 10"])
  qed
qed

lemma length_dec_of_le: "n < 10 ^ Suc k \<Longrightarrow> length (dec_of n) \<le> Suc k"
proof (induction k arbitrary: n)
  case 0
  then show ?case by (subst dec_of.simps) simp
next
  case (Suc k)
  then have "n div 10 < 10 ^ Suc k" by (simp add: less_mult_imp_div_less)
  from Suc.IH [OF this] show ?case by (subst dec_of.simps) simp
qed

text \<open>Reading a digit string from the left with a number type that does not overflow.\<close>

definition dec_value :: "nat \<Rightarrow> bytes \<Rightarrow> nat" where
  "dec_value = foldl (\<lambda>v c. v * 10 + unat (c - 0x30))"

lemma dec_value_append: "dec_value v (xs @ ys) = dec_value (dec_value v xs) ys"
  by (simp add: dec_value_def)

lemma dec_value_ge: "v \<le> dec_value v cs"
proof (induction cs arbitrary: v)
  case Nil
  then show ?case by (simp add: dec_value_def)
next
  case (Cons c cs)
  have "v * 10 + unat (c - 0x30) \<le> dec_value (v * 10 + unat (c - 0x30)) cs" by (rule Cons.IH)
  then show ?case by (simp add: dec_value_def)
qed

lemma dec_value_dec_of [simp]: "dec_value 0 (dec_of n) = n"
proof (induction n rule: dec_of.induct)
  case (1 n)
  show ?case
  proof (cases "n < 10")
    case True
    then show ?thesis
      using digit_of_nat(2) [of n] by (subst dec_of.simps) (simp add: dec_value_def)
  next
    case False
    have "dec_value (n div 10) [0x30 + of_nat (n mod 10)] = n"
      using digit_of_nat(2) [of "n mod 10"] by (simp add: dec_value_def)
    with False "1.IH" show ?thesis
      by (subst dec_of.simps) (simp add: dec_value_append)
  qed
qed

lemma take_bit_ten: "take_bit LENGTH('a::len) (10::nat) = 10" if "3 < LENGTH('a)"
proof -
  have "(10::nat) < 2 ^ LENGTH('a)"
    using that power_increasing [of 4 "LENGTH('a)" "2::nat"] by simp
  then show ?thesis by (simp add: take_bit_nat_eq_self)
qed

lemma dec_digit_word:
  assumes "7 < LENGTH('a::len)"
  shows "(0x30 + ucast (n mod 10 :: 'a word) :: u8) = 0x30 + of_nat (unat n mod 10)"
proof -
  have "unat (n mod 10) = unat n mod 10"
    using assms by (simp add: unat_mod_distrib take_bit_ten)
  then show ?thesis by (metis of_nat_unat)
qed

text \<open>
  With enough room the loop leaves exactly the decimal digits between the returned index and the
  starting one, and touches nothing at or above the starting index.
\<close>

lemma dec_fill_correct:
  fixes n :: "'a::len word"
  assumes "unat n < 10 ^ i" "i \<le> length tmp" "7 < LENGTH('a)" "dec_fill i n tmp = (j, t)"
  shows "length t = length tmp \<and> j \<le> i \<and> drop i t = drop i tmp
    \<and> slice t j i = (if n = 0 then [] else dec_of (unat n))"
  using assms
proof (induction i arbitrary: n tmp j t)
  case 0
  then have "n = 0" by (simp add: unat_eq_zero)
  with 0 show ?case by (simp add: slice_def)
next
  case (Suc i)
  show ?case
  proof (cases "n = 0")
    case True
    with Suc.prems show ?thesis by (simp add: slice_def)
  next
    case False
    let ?d = "0x30 + of_nat (unat n mod 10) :: u8"
    have div10: "unat (n div 10) = unat n div 10"
      using Suc.prems(3) by (simp add: unat_div_distrib take_bit_ten)
    have small: "unat (n div 10) < 10 ^ i"
      using Suc.prems(1) by (simp add: div10 less_mult_imp_div_less mult.commute)
    have run: "dec_fill i (n div 10) (tmp[i := ?d]) = (j, t)"
      using Suc.prems(3,4) False by (simp add: dec_digit_word)
    have IH: "length t = length tmp \<and> j \<le> i \<and> drop i t = drop i (tmp[i := ?d])
      \<and> slice t j i = (if n div 10 = 0 then [] else dec_of (unat (n div 10)))"
      using Suc.IH [OF small _ Suc.prems(3) run] Suc.prems(2) by simp
    have drop_i: "drop i t = ?d # drop (Suc i) tmp"
      using IH Suc.prems(2) by (simp add: Cons_nth_drop_Suc [symmetric] drop_update_swap)
    then have ti: "t ! i = ?d" and rest: "drop (Suc i) t = drop (Suc i) tmp"
      using Suc.prems(2) IH by (metis hd_drop_conv_nth list.sel(1) Suc_le_lessD,
          metis drop_Suc tl_drop list.sel(3))
    have "slice t j (Suc i) = slice t j i @ [t ! i]"
      using IH Suc.prems(2) slice_append [of j i "Suc i" t] by (simp add: slice_single)
    also have "\<dots> = dec_of (unat n)"
    proof (cases "unat n < 10")
      case True
      then have "n div 10 = 0" by (simp add: div10 flip: unat_eq_zero)
      with IH ti True show ?thesis by (subst dec_of.simps) simp
    next
      case big: False
      then have "n div 10 \<noteq> 0" using div10 by (auto simp flip: unat_eq_zero)
      with IH ti big show ?thesis by (subst dec_of.simps) (simp add: div10)
    qed
    finally show ?thesis using IH rest False by simp
  qed
qed

end
