(* ===== verification/Eve_Virtio_Blk.thy ===== *)
theory Eve_Virtio_Blk
  imports Eve_Prelude
begin

text \<open>
  The VirtIO block driver, \<open>kernel/src/virtio_blk.rs\<close>: the queue pages shared with the device, the
  request header, \<open>read_sector\<close> and \<open>write_sector\<close>. The device is not part of the kernel: it is the
  parameter \<open>hw\<close>, which answers the read of the notify offset and the doorbell write; the answer
  to the doorbell is the content of the shared pages at each later poll of the driver and the new
  state of the device. What VirtIO promises about it is the locale \<open>virtio_device\<close>.

  The locale \<open>block_device\<close> is what the clients of the driver rely on; the driver on any conforming
  device provides it (\<open>virtio_device.driver\<close>), in particular on the executable reference device.
\<close>

section \<open>The shared pages and the driver state\<close>

abbreviation (input) "VIRTQ_DESC_F_NEXT \<equiv> 1 :: u16"
abbreviation (input) "VIRTQ_DESC_F_WRITE \<equiv> 2 :: u16"
abbreviation (input) "VIRTIO_BLK_T_IN \<equiv> 0 :: u32"
abbreviation (input) "VIRTIO_BLK_T_OUT \<equiv> 1 :: u32"
abbreviation (input) "VIRTIO_BLK_S_OK \<equiv> 0 :: u8"

record virtq_desc =
  desc_addr :: u64
  desc_len :: u32
  desc_flags :: u16
  desc_next :: u16

record blk_pages =
  pg_desc :: "virtq_desc list"
  avail_flags :: u16
  avail_idx :: u16
  avail_ring :: "u16 list"
  used_flags :: u16
  used_idx :: u16
  used_ring :: "(u32 \<times> u32) list"
  pg_req :: bytes
  pg_data :: bytes
  pg_status :: u8
  vq_last_seen :: u16

text \<open>
  \<open>pages_addr\<close> is the address of the pages; \<open>repr(C)\<close> fixes the offsets of the request, the data
  and the status byte: 4 descriptors of 16 bytes, the available ring of 134, two bytes of padding,
  the used ring of 520.
\<close>

record virtio_blk =
  vb_common :: u64
  vb_notify :: u64
  notify_mul :: u32
  device_cfg :: u64
  phys_skew :: "u64 option"
  qmask :: usize
  pages_addr :: u64
  vb_pages :: blk_pages
  capacity :: u64
  sector_size :: u32

definition REQ_OFFSET :: u64 where "REQ_OFFSET = 720"
definition DATA_OFFSET :: u64 where "DATA_OFFSET = 736"
definition STATUS_OFFSET :: u64 where "STATUS_OFFSET = 1248"

definition phys :: "virtio_blk \<Rightarrow> u64 \<Rightarrow> u64" where
  "phys b virt = (case phys_skew b of Some off \<Rightarrow> virt - off | None \<Rightarrow> virt)"

text \<open>The device: its notify offset register, and its reaction to the doorbell.\<close>

record 'd blk_hw =
  hw_notify_off :: "'d \<Rightarrow> u16"
  hw_kick :: "'d \<Rightarrow> u64 \<Rightarrow> blk_pages \<Rightarrow> (nat \<Rightarrow> blk_pages) \<times> 'd"

section \<open>Operations\<close>

definition fill_req_header :: "bytes \<Rightarrow> u32 \<Rightarrow> u64 \<Rightarrow> bytes" where
  "fill_req_header req typ sector =
     put_at (put_at (put_at req 0 (to_le32 typ)) 4 (to_le32 0)) 8 (to_le64 sector)"

text \<open>The three descriptors; \<open>dir\<close> is the write flag of the data descriptor.\<close>

definition fill_desc :: "virtio_blk \<Rightarrow> u16 \<Rightarrow> virtq_desc list \<Rightarrow> virtq_desc list" where
  "fill_desc b dir desc = desc[
     0 := \<lparr> desc_addr = phys b (pages_addr b + REQ_OFFSET), desc_len = 16,
            desc_flags = VIRTQ_DESC_F_NEXT, desc_next = 1 \<rparr>,
     1 := \<lparr> desc_addr = phys b (pages_addr b + DATA_OFFSET), desc_len = sector_size b,
            desc_flags = VIRTQ_DESC_F_NEXT OR dir, desc_next = 2 \<rparr>,
     2 := \<lparr> desc_addr = phys b (pages_addr b + STATUS_OFFSET), desc_len = 1,
            desc_flags = VIRTQ_DESC_F_WRITE, desc_next = 0 \<rparr>]"

definition push_avail :: "virtio_blk \<Rightarrow> blk_pages \<Rightarrow> blk_pages" where
  "push_avail b p =
     (let ai = avail_idx p; slot = unat ai AND qmask b
      in p\<lparr> avail_ring := (avail_ring p)[slot := 0], avail_idx := ai + 1 \<rparr>)"

text \<open>The doorbell address: \<open>notify + (qn as u32).wrapping_mul(notify_mul)\<close>.\<close>

definition doorbell :: "virtio_blk \<Rightarrow> u16 \<Rightarrow> u64" where
  "doorbell b qn = vb_notify b + ucast ((ucast qn :: u32) * notify_mul b)"

text \<open>The bounded poll of \<open>used.idx\<close>: at most \<open>n\<close> reads, the result is \<open>lu\<close> and the last tick.\<close>

fun poll_used :: "(nat \<Rightarrow> blk_pages) \<Rightarrow> u16 \<Rightarrow> nat \<Rightarrow> nat \<Rightarrow> u16 \<times> nat" where
  "poll_used mem lu t 0 = (lu, t)"
| "poll_used mem lu t (Suc n) =
     (let uidx = used_idx (mem t)
      in if uidx \<noteq> lu then (uidx, t) else poll_used mem lu (Suc t) n)"

text \<open>
  The part the two operations share: publish the chain, ring the doorbell, poll, and remember the
  used index. \<open>p\<close> has the request header, the data and the status already filled in.
\<close>

definition submit :: "'d blk_hw \<Rightarrow> virtio_blk \<Rightarrow> 'd \<Rightarrow> u16 \<Rightarrow> blk_pages \<Rightarrow> virtio_blk \<times> 'd" where
  "submit hw b d dir p =
     (let lu = vq_last_seen p;
          p = p\<lparr> pg_desc := fill_desc b dir (pg_desc p) \<rparr>;
          p = push_avail b p;
          qn = hw_notify_off hw d;
          (mem, d) = hw_kick hw d (doorbell b qn) p;
          (lu, t) = poll_used mem lu 0 2000000
      in (b\<lparr> vb_pages := (mem t)\<lparr> vq_last_seen := lu \<rparr> \<rparr>, d))"

definition read_sector ::
  "'d blk_hw \<Rightarrow> virtio_blk \<times> 'd \<Rightarrow> u64 \<Rightarrow> bytes \<Rightarrow> bool \<times> bytes \<times> virtio_blk \<times> 'd" where
  "read_sector hw st sector out =
     (let (b, d) = st; ss = unat (sector_size b)
      in if length out < ss \<or> capacity b \<le> sector then (False, out, b, d)
         else let p = vb_pages b;
                  p = p\<lparr> pg_req := fill_req_header (pg_req p) VIRTIO_BLK_T_IN sector, pg_status := 0xFF \<rparr>;
                  (b, d) = submit hw b d VIRTQ_DESC_F_WRITE p
              in if pg_status (vb_pages b) \<noteq> VIRTIO_BLK_S_OK then (False, out, b, d)
                 else (True, put_at out 0 (take ss (pg_data (vb_pages b))), b, d))"

definition write_sector ::
  "'d blk_hw \<Rightarrow> virtio_blk \<times> 'd \<Rightarrow> u64 \<Rightarrow> bytes \<Rightarrow> bool \<times> virtio_blk \<times> 'd" where
  "write_sector hw st sector data =
     (let (b, d) = st; ss = unat (sector_size b)
      in if length data < ss \<or> capacity b \<le> sector then (False, b, d)
         else let p = vb_pages b;
                  p = p\<lparr> pg_req := fill_req_header (pg_req p) VIRTIO_BLK_T_OUT sector,
                         pg_data := put_at (pg_data p) 0 (take ss data), pg_status := 0xFF \<rparr>;
                  (b, d) = submit hw b d 0 p
              in (pg_status (vb_pages b) = VIRTIO_BLK_S_OK, b, d))"

section \<open>The interface of a block device\<close>

text \<open>
  What a client may assume: sectors below the capacity can be read and written, a write changes
  exactly one sector, a sector out of range is refused without an effect.
\<close>

locale block_device =
  fixes rd :: "'s \<Rightarrow> u64 \<Rightarrow> bytes \<Rightarrow> bool \<times> bytes \<times> 's"
    and wr :: "'s \<Rightarrow> u64 \<Rightarrow> bytes \<Rightarrow> bool \<times> 's"
    and ok :: "'s \<Rightarrow> bool"
    and disk :: "'s \<Rightarrow> u64 \<Rightarrow> bytes"
    and cap :: "'s \<Rightarrow> u64"
  assumes rd_ok: "ok s \<Longrightarrow> sec < cap s \<Longrightarrow> length out = 512 \<Longrightarrow>
      \<exists>s'. rd s sec out = (True, disk s sec, s') \<and> ok s' \<and> disk s' = disk s \<and> cap s' = cap s"
    and rd_out_of_range: "ok s \<Longrightarrow> cap s \<le> sec \<Longrightarrow> rd s sec out = (False, out, s)"
    and wr_ok: "ok s \<Longrightarrow> sec < cap s \<Longrightarrow> length data = 512 \<Longrightarrow>
      \<exists>s'. wr s sec data = (True, s') \<and> ok s' \<and> disk s' = (disk s)(sec := data) \<and> cap s' = cap s"
    and wr_out_of_range: "ok s \<Longrightarrow> cap s \<le> sec \<Longrightarrow> wr s sec data = (False, s)"
    and length_disk: "ok s \<Longrightarrow> length (disk s sec) = 512"
begin

lemma rd_cases:
  assumes "ok s" "length out = 512"
  obtains (good) s' where "sec < cap s" "rd s sec out = (True, disk s sec, s')"
      "ok s'" "disk s' = disk s" "cap s' = cap s"
  | (bad) "cap s \<le> sec" "rd s sec out = (False, out, s)"
proof (cases "sec < cap s")
  case True
  then show thesis using rd_ok [OF assms(1) _ assms(2)] good by blast
next
  case False
  then show thesis using rd_out_of_range [OF assms(1)] bad by (simp add: not_less)
qed

lemma wr_cases:
  assumes "ok s" "length data = 512"
  obtains (good) s' where "sec < cap s" "wr s sec data = (True, s')"
      "ok s'" "disk s' = (disk s)(sec := data)" "cap s' = cap s"
  | (bad) "cap s \<le> sec" "wr s sec data = (False, s)"
proof (cases "sec < cap s")
  case True
  then show thesis using wr_ok [OF assms(1) _ assms(2)] good by blast
next
  case False
  then show thesis using wr_out_of_range [OF assms(1)] bad by (simp add: not_less)
qed

text \<open>A sector that was just written reads back as written.\<close>

lemma rd_wr:
  assumes "ok s" "sec < cap s" "length data = 512" "length out = 512" "wr s sec data = (b, s')"
  obtains s'' where "b" "rd s' sec out = (True, data, s'')" "ok s''"
    "disk s'' = (disk s)(sec := data)" "cap s'' = cap s"
proof -
  from wr_ok [OF assms(1-3)] assms(5) have s': "b" "ok s'" "disk s' = (disk s)(sec := data)" "cap s' = cap s"
    by auto
  from rd_ok [OF s'(2) _ assms(4), of sec] s' assms(2) that show thesis by force
qed

end

section \<open>What VirtIO promises\<close>

text \<open>The request chain a conforming device serves.\<close>

definition request_chain :: "virtio_blk \<Rightarrow> blk_pages \<Rightarrow> u32 \<Rightarrow> u64 \<Rightarrow> bool" where
  "request_chain b p typ sector \<longleftrightarrow>
     (avail_ring p ! (unat (avail_idx p - 1) AND qmask b)) = 0
     \<and> pg_desc p ! 0 = \<lparr> desc_addr = phys b (pages_addr b + REQ_OFFSET), desc_len = 16,
          desc_flags = VIRTQ_DESC_F_NEXT, desc_next = 1 \<rparr>
     \<and> pg_desc p ! 1 = \<lparr> desc_addr = phys b (pages_addr b + DATA_OFFSET), desc_len = 512,
          desc_flags = (if typ = VIRTIO_BLK_T_IN then VIRTQ_DESC_F_NEXT OR VIRTQ_DESC_F_WRITE else VIRTQ_DESC_F_NEXT),
          desc_next = 2 \<rparr>
     \<and> pg_desc p ! 2 = \<lparr> desc_addr = phys b (pages_addr b + STATUS_OFFSET), desc_len = 1,
          desc_flags = VIRTQ_DESC_F_WRITE, desc_next = 0 \<rparr>
     \<and> pg_req p = to_le32 typ @ to_le32 0 @ to_le64 sector
     \<and> length (pg_data p) = 512"

text \<open>
  The driver's invariant: the shapes of the shared arrays, one outstanding request at most, so
  that the used index seen last is the device's.
\<close>

definition blk_wf :: "virtio_blk \<Rightarrow> bool" where
  "blk_wf b \<longleftrightarrow> length (pg_desc (vb_pages b)) = 4 \<and> length (avail_ring (vb_pages b)) = 64
     \<and> length (pg_req (vb_pages b)) = 16 \<and> length (pg_data (vb_pages b)) = 512
     \<and> qmask b < 64 \<and> sector_size b = 512 \<and> used_idx (vb_pages b) = vq_last_seen (vb_pages b)"

text \<open>
  A conforming device, VirtIO 1.0 sections 2.6 and 5.2.6: it serves a well-formed chain within the
  driver's poll budget, writes only what it may write, then increments the used index.
\<close>

locale virtio_device =
  fixes hw :: "'d blk_hw"
    and sectors :: "'d \<Rightarrow> u64 \<Rightarrow> bytes"
  assumes serves_in: "request_chain b p VIRTIO_BLK_T_IN sector \<Longrightarrow> sector < capacity b \<Longrightarrow>
      hw_kick hw d (doorbell b (hw_notify_off hw d)) p = (mem, d') \<Longrightarrow>
      sectors d' = sectors d \<and> (\<exists>t<2000000. (\<forall>k<t. used_idx (mem k) = used_idx p)
        \<and> (\<exists>ring. mem t = p\<lparr> used_idx := used_idx p + 1, used_ring := ring, pg_status := VIRTIO_BLK_S_OK,
             pg_data := sectors d sector \<rparr>))"
    and serves_out: "request_chain b p VIRTIO_BLK_T_OUT sector \<Longrightarrow> sector < capacity b \<Longrightarrow>
      hw_kick hw d (doorbell b (hw_notify_off hw d)) p = (mem, d') \<Longrightarrow>
      sectors d' = (sectors d)(sector := pg_data p) \<and> (\<exists>t<2000000. (\<forall>k<t. used_idx (mem k) = used_idx p)
        \<and> (\<exists>ring. mem t = p\<lparr> used_idx := used_idx p + 1, used_ring := ring, pg_status := VIRTIO_BLK_S_OK \<rparr>))"
    and length_sectors: "length (sectors d s) = 512"

lemma poll_used_found:
  "(\<forall>k<t. used_idx (mem (i + k)) = lu) \<Longrightarrow> used_idx (mem (i + t)) \<noteq> lu \<Longrightarrow> t < n \<Longrightarrow>
   poll_used mem lu i n = (used_idx (mem (i + t)), i + t)"
proof (induction n arbitrary: i t)
  case (Suc n)
  show ?case
  proof (cases t)
    case 0
    with Suc.prems show ?thesis by simp
  next
    case (Suc t')
    have "used_idx (mem i) = lu" using Suc.prems(1) \<open>t = Suc t'\<close> by (metis add_0_right zero_less_Suc)
    moreover have "poll_used mem lu (Suc i) n = (used_idx (mem (Suc i + t')), Suc i + t')"
    proof (rule Suc.IH)
      show "\<forall>k<t'. used_idx (mem (Suc i + k)) = lu"
        using Suc.prems(1) \<open>t = Suc t'\<close> by (metis Suc_less_eq add_Suc_shift)
    qed (use Suc.prems \<open>t = Suc t'\<close> in simp_all)
    ultimately show ?thesis using \<open>t = Suc t'\<close> by simp
  qed
qed simp

lemma fill_req_header_eq:
  "length req = 16 \<Longrightarrow> fill_req_header req typ sector = to_le32 typ @ to_le32 0 @ to_le64 sector"
  by (simp add: fill_req_header_def put_at_def)

lemma slot_bound: "q < 64 \<Longrightarrow> n AND q < (64 :: nat)"
  by (simp add: and_nat_def AND_upper2'' nat_less_iff)

context virtio_device
begin

text \<open>One served request: the pages after the poll, and the driver's invariant again.\<close>

lemma submit_served:
  assumes b: "blk_wf b"
    and p: "p = vb_pages b\<lparr> pg_req := to_le32 ty @ to_le32 0 @ to_le64 sector, pg_data := data, pg_status := st \<rparr>"
    and data: "length data = 512" and range: "sector < capacity b"
    and kind: "ty = 0 \<and> dir = 2 \<or> ty = 1 \<and> dir = 0"
  obtains b' d' where "submit hw b d dir p = (b', d')" "blk_wf b'" "capacity b' = capacity b"
    "pg_status (vb_pages b') = 0"
    "pg_data (vb_pages b') = (if ty = 0 then sectors d sector else data)"
    "sectors d' = (if ty = 0 then sectors d else (sectors d)(sector := data))"
proof -
  note result = that
  let ?p = "push_avail b (p\<lparr> pg_desc := fill_desc b dir (pg_desc p) \<rparr>)"
  obtain mem d' where kick: "hw_kick hw d (doorbell b (hw_notify_off hw d)) ?p = (mem, d')" by fastforce
  have chain: "request_chain b ?p ty sector"
    using b kind data slot_bound [of "qmask b" "unat (avail_idx (vb_pages b))"]
    by (auto simp: request_chain_def push_avail_def fill_desc_def p blk_wf_def Let_def)
  have fin: thesis if t: "t < 2000000" "\<forall>k<t. used_idx (mem k) = used_idx ?p"
    and mem: "mem t = ?p\<lparr> used_idx := used_idx ?p + 1, used_ring := ring, pg_status := 0, pg_data := dat \<rparr>"
    and dat: "dat = (if ty = 0 then sectors d sector else data)"
    and sec: "sectors d' = (if ty = 0 then sectors d else (sectors d)(sector := data))" for t ring dat
  proof -
    have u: "used_idx ?p = vq_last_seen p" "vq_last_seen p = used_idx p"
      using b by (simp_all add: push_avail_def p blk_wf_def Let_def)
    have "poll_used mem (vq_last_seen p) 0 2000000 = (used_idx (mem (0 + t)), 0 + t)"
      by (rule poll_used_found) (use t u mem in simp_all)
    then have sub: "submit hw b d dir p
        = (b\<lparr> vb_pages := (mem t)\<lparr> vq_last_seen := used_idx (mem t) \<rparr> \<rparr>, d')"
      using kick by (simp add: submit_def Let_def)
    have "length dat = 512" using dat data length_sectors by simp
    then show thesis
      using b sec dat mem sub by (intro result [OF sub])
        (simp_all add: blk_wf_def push_avail_def p fill_desc_def Let_def)
  qed
  from kind show thesis
  proof
    assume "ty = 0 \<and> dir = 2"
    with serves_in [OF _ range kick] chain fin show thesis by fastforce
  next
    assume "ty = 1 \<and> dir = 0"
    moreover have "pg_data ?p = data" by (simp add: push_avail_def p Let_def)
    ultimately show thesis using serves_out [OF _ range kick] chain fin [where dat = data] by fastforce
  qed
qed

lemma read_sector_ok:
  assumes "blk_wf b" "sector < capacity b" "length out = 512"
  obtains b' d' where "read_sector hw (b, d) sector out = (True, sectors d sector, b', d')"
    "blk_wf b'" "capacity b' = capacity b" "sectors d' = sectors d"
proof -
  let ?p = "vb_pages b\<lparr> pg_req := to_le32 0 @ to_le32 0 @ to_le64 sector, pg_data := pg_data (vb_pages b),
    pg_status := 0xFF \<rparr>"
  have len: "length (pg_data (vb_pages b)) = 512" "length (pg_req (vb_pages b)) = 16" "sector_size b = 512"
    using assms(1) by (simp_all add: blk_wf_def)
  obtain b' d' where sub: "submit hw b d 2 ?p = (b', d')" "blk_wf b'" "capacity b' = capacity b"
      "pg_status (vb_pages b') = 0" "pg_data (vb_pages b') = sectors d sector" "sectors d' = sectors d"
    by (rule submit_served [OF assms(1) refl len(1) assms(2), where ty = 0 and dir = 2 and d = d and st = "0xFF"]) auto
  have "read_sector hw (b, d) sector out = (True, sectors d sector, b', d')"
    using assms sub len by (simp add: read_sector_def Let_def fill_req_header_eq length_sectors put_at_def not_le)
  with sub that show thesis by blast
qed

lemma write_sector_ok:
  assumes "blk_wf b" "sector < capacity b" "length data = 512"
  obtains b' d' where "write_sector hw (b, d) sector data = (True, b', d')"
    "blk_wf b'" "capacity b' = capacity b" "sectors d' = (sectors d)(sector := data)"
proof -
  let ?p = "vb_pages b\<lparr> pg_req := to_le32 1 @ to_le32 0 @ to_le64 sector, pg_data := data, pg_status := 0xFF \<rparr>"
  have len: "length (pg_data (vb_pages b)) = 512" "length (pg_req (vb_pages b)) = 16" "sector_size b = 512"
    using assms(1) by (simp_all add: blk_wf_def)
  obtain b' d' where sub: "submit hw b d 0 ?p = (b', d')" "blk_wf b'" "capacity b' = capacity b"
      "pg_status (vb_pages b') = 0" "sectors d' = (sectors d)(sector := data)"
    by (rule submit_served [OF assms(1) refl assms(3,2), where ty = 1 and dir = 0 and d = d and st = "0xFF"]) auto
  have "write_sector hw (b, d) sector data = (True, b', d')"
    using assms sub len by (simp add: write_sector_def Let_def fill_req_header_eq put_at_def not_le)
  with sub that show thesis by blast
qed

end

text \<open>The driver on a conforming device is a block device in the sense of its clients.\<close>

sublocale virtio_device \<subseteq> driver: block_device "read_sector hw" "write_sector hw"
  "\<lambda>st. blk_wf (fst st)" "\<lambda>st. sectors (snd st)" "\<lambda>st. capacity (fst st)"
proof
  fix st :: "virtio_blk \<times> 'd" and sec out data
  assume wf: "blk_wf (fst st)"
  show "sec < capacity (fst st) \<Longrightarrow> length out = 512 \<Longrightarrow>
      \<exists>s'. read_sector hw st sec out = (True, sectors (snd st) sec, s') \<and> blk_wf (fst s')
        \<and> sectors (snd s') = sectors (snd st) \<and> capacity (fst s') = capacity (fst st)"
    by (rule read_sector_ok [OF wf, where d = "snd st"]) (auto intro!: exI)
  show "sec < capacity (fst st) \<Longrightarrow> length data = 512 \<Longrightarrow>
      \<exists>s'. write_sector hw st sec data = (True, s') \<and> blk_wf (fst s')
        \<and> sectors (snd s') = (sectors (snd st))(sec := data) \<and> capacity (fst s') = capacity (fst st)"
    by (rule write_sector_ok [OF wf, where d = "snd st"]) (auto intro!: exI)
  show "capacity (fst st) \<le> sec \<Longrightarrow> read_sector hw st sec out = (False, out, st)"
    by (cases st) (simp add: read_sector_def Let_def)
  show "capacity (fst st) \<le> sec \<Longrightarrow> write_sector hw st sec data = (False, st)"
    by (cases st) (simp add: write_sector_def Let_def)
  show "length (sectors (snd st) sec) = 512" by (rule length_sectors)
qed

context virtio_device
begin

lemma driver_block_device:
  "block_device (read_sector hw) (write_sector hw) (\<lambda>st. blk_wf (fst st))
     (\<lambda>st. sectors (snd st)) (\<lambda>st. capacity (fst st))"
  by (rule driver.block_device_axioms)

end

lemma virtio_block_device:
  "virtio_device hw sectors \<Longrightarrow> block_device (read_sector hw) (write_sector hw) (\<lambda>st. blk_wf (fst st))
     (\<lambda>st. sectors (snd st)) (\<lambda>st. capacity (fst st))"
  by (rule virtio_device.driver_block_device)

section \<open>A reference device\<close>

text \<open>
  An executable device that serves every chain at the third poll: it decodes the request header,
  keeps its sectors as a function and pads them to 512 bytes.
\<close>

definition pad512 :: "bytes \<Rightarrow> bytes" where
  "pad512 xs = take 512 (xs @ replicate 512 0)"

definition ref_sectors :: "(u64 \<Rightarrow> bytes) \<Rightarrow> u64 \<Rightarrow> bytes" where
  "ref_sectors d s = pad512 (d s)"

definition ref_hw :: "(u64 \<Rightarrow> bytes) blk_hw" where
  "ref_hw = \<lparr> hw_notify_off = (\<lambda>_. 0), hw_kick = (\<lambda>d _ p.
     let typ = of_le32 (pg_req p ! 0) (pg_req p ! 1) (pg_req p ! 2) (pg_req p ! 3);
         sector = of_le64 (drop 8 (pg_req p));
         done = p\<lparr> used_idx := used_idx p + 1, pg_status := VIRTIO_BLK_S_OK \<rparr>
     in if typ = VIRTIO_BLK_T_IN
        then (\<lambda>t. if t < 3 then p else done\<lparr> pg_data := pad512 (d sector) \<rparr>, d)
        else (\<lambda>t. if t < 3 then p else done, d(sector := pg_data p))) \<rparr>"

lemma of_le64_to_le64 [simp]: "of_le64 (to_le64 w) = w"
proof -
  have "of_le64 (map (\<lambda>i. ucast (drop_bit (8 * i) w)) [k..<8]) = drop_bit (8 * k) w" if "k \<le> 8" for k
    using that
  proof (induction rule: inc_induct)
    case base
    then show ?case by (simp add: bit_eq_iff bit_simps bit_imp_le_length)
  next
    case (step k)
    have "ucast (ucast (drop_bit (8 * k) w) :: u8) OR push_bit 8 (drop_bit (8 * Suc k) w) = drop_bit (8 * k) w"
    proof (rule bit_word_eqI)
      fix n
      have "8 \<le> n \<Longrightarrow> 8 + 8 * k + (n - 8) = 8 * k + n" by simp
      then show "bit (ucast (ucast (drop_bit (8 * k) w) :: u8) OR push_bit 8 (drop_bit (8 * Suc k) w)) n
          = bit (drop_bit (8 * k) w) n"
        by (cases "8 \<le> n") (auto simp: bit_simps dest: bit_imp_le_length)
    qed
    with step show ?case by (simp add: upt_conv_Cons)
  qed
  from this [of 0] show ?thesis by (simp add: to_le64_def)
qed

lemma length_pad512 [simp]: "length (pad512 xs) = 512"
  by (simp add: pad512_def)

lemma pad512_id: "length xs = 512 \<Longrightarrow> pad512 xs = xs"
  by (simp add: pad512_def)

lemma request_chain_header:
  assumes "request_chain b p typ sector"
  shows "of_le32 (pg_req p ! 0) (pg_req p ! 1) (pg_req p ! 2) (pg_req p ! 3) = typ"
    "of_le64 (drop 8 (pg_req p)) = sector" "length (pg_data p) = 512"
  using assms by (simp_all add: request_chain_def to_le32_def del: of_be32.simps)

lemma ref_serves_in:
  assumes req: "request_chain b p 0 sector" and kick: "hw_kick ref_hw d addr p = (mem, d')"
  shows "ref_sectors d' = ref_sectors d \<and> (\<exists>t<2000000. (\<forall>k<t. used_idx (mem k) = used_idx p)
        \<and> (\<exists>ring. mem t = p\<lparr> used_idx := used_idx p + 1, used_ring := ring, pg_status := 0,
             pg_data := ref_sectors d sector \<rparr>))"
proof -
  have "mem = (\<lambda>t. if t < 3 then p else p\<lparr> used_idx := used_idx p + 1, pg_status := 0,
      pg_data := pad512 (d sector) \<rparr>)" "d' = d"
    using kick request_chain_header [OF req] by (auto simp: ref_hw_def Let_def)
  then show ?thesis
    by (intro conjI exI [of _ 3] exI [of _ "used_ring p"]) (simp_all add: ref_sectors_def)
qed

lemma ref_serves_out:
  assumes req: "request_chain b p 1 sector" and kick: "hw_kick ref_hw d addr p = (mem, d')"
  shows "ref_sectors d' = (ref_sectors d)(sector := pg_data p) \<and>
      (\<exists>t<2000000. (\<forall>k<t. used_idx (mem k) = used_idx p)
        \<and> (\<exists>ring. mem t = p\<lparr> used_idx := used_idx p + 1, used_ring := ring, pg_status := 0 \<rparr>))"
proof -
  have "mem = (\<lambda>t. if t < 3 then p else p\<lparr> used_idx := used_idx p + 1, pg_status := 0 \<rparr>)"
      "d' = d(sector := pg_data p)"
    using kick request_chain_header [OF req] by (auto simp: ref_hw_def Let_def)
  then show ?thesis using request_chain_header(3) [OF req]
    by (intro conjI exI [of _ 3] exI [of _ "used_ring p"]) (auto simp: ref_sectors_def pad512_id)
qed

interpretation ref_dev: virtio_device ref_hw ref_sectors
  by unfold_locales (erule ref_serves_in, assumption, erule ref_serves_out, assumption, simp add: ref_sectors_def)

text \<open>A driver state right after initialisation, for a disk of four sectors.\<close>

definition ref_blk :: virtio_blk where
  "ref_blk = \<lparr> vb_common = 0, vb_notify = 0x3000, notify_mul = 4, device_cfg = 0x4000, phys_skew = None,
     qmask = 63, pages_addr = 0x10000,
     vb_pages = \<lparr> pg_desc = replicate 4 \<lparr> desc_addr = 0, desc_len = 0, desc_flags = 0, desc_next = 0 \<rparr>,
       avail_flags = 0, avail_idx = 0, avail_ring = replicate 64 0, used_flags = 0, used_idx = 0,
       used_ring = replicate 64 (0, 0), pg_req = replicate 16 0, pg_data = replicate 512 0, pg_status = 0,
       vq_last_seen = 0 \<rparr>,
     capacity = 4, sector_size = 512 \<rparr>"

lemma ref_blk_wf: "blk_wf ref_blk" "capacity ref_blk = 4"
  by (simp_all add: blk_wf_def ref_blk_def)



text \<open>
  A device that never answers cannot make a read or write succeed: if the status byte is left at
  the driver's marker \<open>0xFF\<close> at every poll, both operations return false after the bounded poll and the
  caller's buffer is unchanged.
\<close>

theorem sector_no_answer:
  assumes dead: "\<And>d a p t. pg_status (fst (hw_kick hw d a p) t) = pg_status p"
  shows "fst (read_sector hw (b, d) sec out) = False \<and> fst (snd (read_sector hw (b, d) sec out)) = out
    \<and> fst (write_sector hw (b, d) sec data) = False"
proof -
  have st: "pg_status (vb_pages (fst (submit hw b d dir p))) = pg_status p" for dir p
    using dead by (simp add: submit_def push_avail_def Let_def split_beta)
  show ?thesis by (simp add: read_sector_def write_sector_def Let_def split_beta st)
qed

theorem sector_no_answer_witness:
  "fst (read_sector \<lparr> hw_notify_off = (\<lambda>_. 0), hw_kick = (\<lambda>d a p. (\<lambda>t. p, d)) \<rparr> (ref_blk, ()) 1 (replicate 512 1)) = False
    \<and> fst (snd (read_sector \<lparr> hw_notify_off = (\<lambda>_. 0), hw_kick = (\<lambda>d a p. (\<lambda>t. p, d)) \<rparr> (ref_blk, ()) 1 (replicate 512 1))) = replicate 512 1
    \<and> fst (write_sector \<lparr> hw_notify_off = (\<lambda>_. 0), hw_kick = (\<lambda>d a p. (\<lambda>t. p, d)) \<rparr> (ref_blk, ()) 1 (replicate 512 1)) = False"
  by (rule sector_no_answer) simp

end
