(* ===== verification/Eve_Settings.thy ===== *)
theory Eve_Settings
  imports Eve_Prelude
begin

text \<open>
  The in-memory device preferences, \<open>kernel/src/settings.rs\<close>: the enumerations with their
  \<open>next\<close> and \<open>label\<close> operations, the platform capability presets, the \<open>DeviceSettings\<close> record
  with its defaults, and the pure operations on it. The cursor presets of \<open>cursor_emoji.rs\<close> the
  settings row cycles through are here as well. The lemmas show that every cycling control visits
  all its values and comes back, and that the settings invariant holds at boot and is kept.
\<close>

section \<open>Enumerations\<close>

datatype input_backend = Ps2Usb | UefiInput | SerialAnsi

definition input_backend_label :: "input_backend \<Rightarrow> bytes" where
  "input_backend_label b = (case b of
     Ps2Usb \<Rightarrow> ascii ''PS2+USB'' | UefiInput \<Rightarrow> ascii ''UEFI INPUT'' | SerialAnsi \<Rightarrow> ascii ''SERIAL ANSI'')"

datatype usb_parity = Operational | CompatFallback | Unsupported

definition usb_parity_label :: "usb_parity \<Rightarrow> bytes" where
  "usb_parity_label p = (case p of
     Operational \<Rightarrow> ascii ''USB OP'' | CompatFallback \<Rightarrow> ascii ''USB COMPAT'' | Unsupported \<Rightarrow> ascii ''USB UNSUP'')"

record platform_caps =
  pc_input_backend :: input_backend
  pc_usb_parity :: usb_parity
  wifi_detect_only :: bool
  wifi_operational :: bool
  net_stack_supported :: bool
  net_probe_gated :: bool
  settings_persist_supported :: bool

definition caps_x86_persist :: "bool \<Rightarrow> platform_caps" where
  "caps_x86_persist persist = \<lparr> pc_input_backend = Ps2Usb, pc_usb_parity = CompatFallback,
     wifi_detect_only = True, wifi_operational = False, net_stack_supported = True,
     net_probe_gated = False, settings_persist_supported = persist \<rparr>"

definition caps_x86 :: platform_caps where
  "caps_x86 = caps_x86_persist False"

definition caps_arm_uefi :: "bool \<Rightarrow> platform_caps" where
  "caps_arm_uefi probe_gated = \<lparr> pc_input_backend = UefiInput, pc_usb_parity = Unsupported,
     wifi_detect_only = True, wifi_operational = False, net_stack_supported = True,
     net_probe_gated = probe_gated, settings_persist_supported = True \<rparr>"

definition caps_rpi :: platform_caps where
  "caps_rpi = \<lparr> pc_input_backend = SerialAnsi, pc_usb_parity = Unsupported,
     wifi_detect_only = True, wifi_operational = False, net_stack_supported = False,
     net_probe_gated = True, settings_persist_supported = False \<rparr>"

definition wifi_mode_label :: "platform_caps \<Rightarrow> bytes" where
  "wifi_mode_label c = (if wifi_operational c then ascii ''WIFI RUN''
     else if wifi_detect_only c then ascii ''WIFI DETECT'' else ascii ''WIFI UNSUP'')"

definition net_mode_label :: "platform_caps \<Rightarrow> bytes" where
  "net_mode_label c = (if \<not> net_stack_supported c then ascii ''NET UNSUP''
     else if net_probe_gated c then ascii ''NET PROBE-OFF'' else ascii ''NET READY'')"

definition persist_label :: "platform_caps \<Rightarrow> bytes" where
  "persist_label c = (if settings_persist_supported c then ascii ''PERSIST ON'' else ascii ''PERSIST VOL'')"

datatype display_theme = Light | Dark

fun display_theme_next :: "display_theme \<Rightarrow> display_theme" where
  "display_theme_next Light = Dark"
| "display_theme_next Dark = Light"

fun display_theme_label :: "display_theme \<Rightarrow> bytes" where
  "display_theme_label Light = ascii ''LIGHT''"
| "display_theme_label Dark = ascii ''DARK''"

datatype screen = EpilepsyWarning | CaliforniaAgeNotice | Browser | Settings | DiskInstall | Log

datatype disk_install_phase = Idle | Running | Done | Failed

datatype nic_choice = Virtio | Rtl8139 | E1000 | Pcnet | Off

fun nic_next :: "nic_choice \<Rightarrow> nic_choice" where
  "nic_next Virtio = Rtl8139"
| "nic_next Rtl8139 = E1000"
| "nic_next E1000 = Pcnet"
| "nic_next Pcnet = Off"
| "nic_next Off = Virtio"

datatype ip_config = Slirp | Dhcp | Static

fun ip_config_next :: "ip_config \<Rightarrow> ip_config" where
  "ip_config_next Dhcp = Slirp"
| "ip_config_next Slirp = Static"
| "ip_config_next Static = Dhcp"

fun ip_config_label :: "ip_config \<Rightarrow> bytes" where
  "ip_config_label Slirp = ascii ''SLIRP''"
| "ip_config_label Dhcp = ascii ''DHCP''"
| "ip_config_label Static = ascii ''STATIC''"

datatype wifi_security = Open | Wpa2Psk | Wpa3Sae

fun wifi_security_next :: "wifi_security \<Rightarrow> wifi_security" where
  "wifi_security_next Open = Wpa2Psk"
| "wifi_security_next Wpa2Psk = Wpa3Sae"
| "wifi_security_next Wpa3Sae = Open"

fun wifi_security_label :: "wifi_security \<Rightarrow> bytes" where
  "wifi_security_label Open = ascii ''OPEN''"
| "wifi_security_label Wpa2Psk = ascii ''WPA2 PSK''"
| "wifi_security_label Wpa3Sae = ascii ''WPA3 SAE''"

text \<open>The \<open>as u8\<close> casts: the discriminant is the position in the declaration.\<close>

fun nic_u8 :: "nic_choice \<Rightarrow> u8" where
  "nic_u8 Virtio = 0" | "nic_u8 Rtl8139 = 1" | "nic_u8 E1000 = 2" | "nic_u8 Pcnet = 3" | "nic_u8 Off = 4"

fun ip_config_u8 :: "ip_config \<Rightarrow> u8" where
  "ip_config_u8 Slirp = 0" | "ip_config_u8 Dhcp = 1" | "ip_config_u8 Static = 2"

fun wifi_security_u8 :: "wifi_security \<Rightarrow> u8" where
  "wifi_security_u8 Open = 0" | "wifi_security_u8 Wpa2Psk = 1" | "wifi_security_u8 Wpa3Sae = 2"

section \<open>The settings record\<close>

definition DEFAULT_HOME_URL :: bytes where
  "DEFAULT_HOME_URL = ascii ''https://alexanderdfox.github.io/TempleOSWebShrine/''"

abbreviation (input) "PERSIST_HOME_URL_CAP \<equiv> 120 :: nat"
abbreviation (input) "PERSIST_BOOKMARK_SLOTS \<equiv> 8 :: nat"
abbreviation (input) "PERSIST_BOOKMARK_URL_CAP \<equiv> 30 :: nat"

record device_settings =
  display_theme :: display_theme
  display_pref_width :: u16
  display_pref_height :: u16
  display_use_custom_resolution :: bool
  wifi_enabled :: bool
  nic :: nic_choice
  internet_stack_enabled :: bool
  ip_config :: ip_config
  static_ip :: ipv4
  static_gw :: ipv4
  static_dns :: ipv4
  usb_polling_enabled :: bool
  cursor_emoji_preset :: u8
  bluetooth_enabled :: bool
  midi_enabled :: bool
  midi_usb_enabled :: bool
  midi_channel :: u8
  browser_script_runtime_enabled :: bool
  home_url :: bytes
  home_url_len :: u8
  bookmark_url :: "bytes list"
  bookmark_len :: bytes
  wifi_ssid :: bytes
  wifi_ssid_len :: usize
  wifi_psk :: bytes
  wifi_psk_len :: usize
  wifi_sec :: wifi_security

definition device_settings_new :: device_settings where
  "device_settings_new = \<lparr>
     display_theme = Light, display_pref_width = 0, display_pref_height = 0,
     display_use_custom_resolution = False, wifi_enabled = True, nic = Virtio,
     internet_stack_enabled = True, ip_config = Slirp,
     static_ip = IPv4 192 168 1 100, static_gw = IPv4 192 168 1 1, static_dns = IPv4 8 8 8 8,
     usb_polling_enabled = True, cursor_emoji_preset = 0, bluetooth_enabled = False,
     midi_enabled = True, midi_usb_enabled = False, midi_channel = 1,
     browser_script_runtime_enabled = False,
     home_url = put_at (replicate PERSIST_HOME_URL_CAP 0) 0 (take PERSIST_HOME_URL_CAP DEFAULT_HOME_URL),
     home_url_len = of_nat (min (length DEFAULT_HOME_URL) PERSIST_HOME_URL_CAP),
     bookmark_url = replicate PERSIST_BOOKMARK_SLOTS (replicate PERSIST_BOOKMARK_URL_CAP 0),
     bookmark_len = replicate PERSIST_BOOKMARK_SLOTS 0,
     wifi_ssid = replicate 32 0, wifi_ssid_len = 0, wifi_psk = replicate 64 0, wifi_psk_len = 0,
     wifi_sec = Wpa2Psk \<rparr>"

definition toggle_midi_channel :: "device_settings \<Rightarrow> device_settings" where
  "toggle_midi_channel s = s\<lparr> midi_channel := (if 16 \<le> midi_channel s then 1 else midi_channel s + 1) \<rparr>"

definition SPRITE_STYLES :: nat where
  "SPRITE_STYLES = 8"

definition next_preset :: "u8 \<Rightarrow> u8" where
  "next_preset p = of_nat ((unat p + 1) mod SPRITE_STYLES)"

definition cursor_label :: "u8 \<Rightarrow> bytes" where
  "cursor_label preset = (let i = unat preset mod SPRITE_STYLES in
     if i = 0 then ascii ''POINTER'' else if i = 1 then ascii ''SMILE''
     else if i = 2 then ascii ''HEART'' else if i = 3 then ascii ''STAR''
     else if i = 4 then ascii ''ROCKET'' else if i = 5 then ascii ''CAT''
     else if i = 6 then ascii ''THUMBS'' else ascii ''RAINBOW'')"

definition next_cursor_emoji_preset :: "device_settings \<Rightarrow> device_settings" where
  "next_cursor_emoji_preset s = s\<lparr> cursor_emoji_preset := next_preset (cursor_emoji_preset s) \<rparr>"

text \<open>The address part of the fingerprint: \<open>wrapping_shl\<close> and \<open>wrapping_add\<close> on \<open>u32\<close>.\<close>

fun octets_u32 :: "ipv4 \<Rightarrow> u32" where
  "octets_u32 (IPv4 a b c d) =
     push_bit 8 (push_bit 8 (push_bit 8 (ucast a) + ucast b) + ucast c) + ucast d"

definition ip_settings_tag :: "device_settings \<Rightarrow> u32" where
  "ip_settings_tag s =
     (let h = ucast (ip_config_u8 (ip_config s))
      in if ip_config s = Static
         then h XOR octets_u32 (static_ip s) XOR octets_u32 (static_gw s) * 0x9E3779B1
                XOR octets_u32 (static_dns s) * 0x85EBCA6B
         else h)"

section \<open>The settings invariant\<close>

definition settings_wf :: "device_settings \<Rightarrow> bool" where
  "settings_wf s \<longleftrightarrow> 1 \<le> midi_channel s \<and> midi_channel s \<le> 16
     \<and> length (home_url s) = 120 \<and> 0 < home_url_len s \<and> home_url_len s \<le> 120
     \<and> length (bookmark_url s) = 8 \<and> (\<forall>u\<in>set (bookmark_url s). length u = 30)
     \<and> length (bookmark_len s) = 8 \<and> (\<forall>n\<in>set (bookmark_len s). n \<le> 30)
     \<and> length (wifi_ssid s) = 32 \<and> wifi_ssid_len s \<le> 32
     \<and> length (wifi_psk s) = 64 \<and> wifi_psk_len s \<le> 64"

lemma length_DEFAULT_HOME_URL: "length DEFAULT_HOME_URL = 50"
  by (simp add: DEFAULT_HOME_URL_def)

lemma settings_wf_new: "settings_wf device_settings_new"
  by (simp add: settings_wf_def device_settings_new_def length_DEFAULT_HOME_URL)

lemma settings_wf_toggle_midi:
  assumes "settings_wf s"
  shows "settings_wf (toggle_midi_channel s)"
proof -
  have "1 \<le> midi_channel s + 1 \<and> midi_channel s + 1 \<le> 16" if "\<not> 16 \<le> midi_channel s"
    using that by (auto simp: word_le_nat_alt unat_word_ariths)
  with assms show ?thesis by (auto simp: settings_wf_def toggle_midi_channel_def)
qed

lemma settings_wf_cursor: "settings_wf s \<Longrightarrow> settings_wf (next_cursor_emoji_preset s)"
  by (simp add: settings_wf_def next_cursor_emoji_preset_def)

text \<open>The two cycling bytes, and the steps as updates of one field.\<close>

definition midi_step :: "u8 \<Rightarrow> u8" where
  "midi_step c = (if 16 \<le> c then 1 else c + 1)"

lemma toggle_midi_pow: "(toggle_midi_channel ^^ n) s = s\<lparr> midi_channel := (midi_step ^^ n) (midi_channel s) \<rparr>"
  by (induction n) (simp_all add: toggle_midi_channel_def midi_step_def)

lemma next_cursor_pow:
  "(next_cursor_emoji_preset ^^ n) s = s\<lparr> cursor_emoji_preset := (next_preset ^^ n) (cursor_emoji_preset s) \<rparr>"
  by (induction n) (simp_all add: next_cursor_emoji_preset_def)

lemma midi_step_cycle: "k < 16 \<Longrightarrow> (midi_step ^^ n) (of_nat (Suc k)) = of_nat (Suc ((k + n) mod 16))"
proof (induction n)
  case (Suc n)
  have "midi_step (of_nat (Suc m)) = of_nat (Suc (Suc m mod 16))" if "m < 16" for m
  proof (cases "m = 15")
    case False
    with that have "unat (of_nat (Suc m) :: u8) = Suc m" "Suc m < 16"
      by (simp_all only: unsigned_of_nat) (simp_all add: take_bit_nat_eq_self)
    then show ?thesis by (simp add: midi_step_def word_le_nat_alt del: of_nat_Suc) simp
  qed (simp add: midi_step_def)
  from this [of "(k + n) mod 16"] Suc show ?case by (simp add: mod_Suc_eq del: of_nat_Suc)
qed simp

lemma midi_step_16: "1 \<le> c \<Longrightarrow> c \<le> 16 \<Longrightarrow> (midi_step ^^ 16) c = c"
proof -
  assume "1 \<le> c" "c \<le> 16"
  then have c: "unat c - 1 < 16" "Suc (unat c - 1) = unat c" by (auto simp: word_le_nat_alt)
  from midi_step_cycle [OF c(1), of 16] show ?thesis unfolding c(2) using c(1)
    by (simp only: mod_add_self2 mod_less c(2) of_nat_unat ucast_id)
qed

lemma next_preset_cycle: "k < 8 \<Longrightarrow> (next_preset ^^ n) (of_nat k) = of_nat ((k + n) mod 8)"
proof (induction n)
  case (Suc n)
  have "(k + n) mod 8 < 256" by (rule less_trans [OF mod_less_divisor]) simp_all
  then have "unat (of_nat ((k + n) mod 8) :: u8) = (k + n) mod 8"
    by (simp add: unsigned_of_nat take_bit_nat_eq_self)
  with Suc show ?case by (simp add: next_preset_def SPRITE_STYLES_def mod_Suc_eq)
qed simp

lemma next_preset_8: "c < 8 \<Longrightarrow> (next_preset ^^ 8) c = c"
proof -
  assume "c < 8"
  then have c: "unat c < 8" by (simp add: word_less_nat_alt)
  from next_preset_cycle [OF c, of 8] c show ?thesis
    by (simp only: mod_add_self2 mod_less of_nat_unat ucast_id)
qed

lemma next_preset_less: "next_preset c < 8"
  by (simp add: next_preset_def SPRITE_STYLES_def word_less_nat_alt unsigned_of_nat take_bit_nat_eq_self
      less_trans [OF mod_less_divisor])

text \<open>
  The cycling controls of the settings screen: from any state reached from the boot defaults
  by pressing the MIDI channel and cursor preset rows, the settings are well formed, sixteen
  presses of the channel row and eight of the preset row give back the channel and the preset.
\<close>

theorem settings_cycle:
  assumes "settings_wf s" "cursor_emoji_preset s < 8"
  shows "settings_wf (toggle_midi_channel s) \<and> settings_wf (next_cursor_emoji_preset s)
    \<and> (toggle_midi_channel ^^ 16) s = s \<and> (next_cursor_emoji_preset ^^ 8) s = s
    \<and> cursor_emoji_preset (next_cursor_emoji_preset s) < 8"
proof (intro conjI)
  show "settings_wf (toggle_midi_channel s)" by (rule settings_wf_toggle_midi [OF assms(1)])
  show "settings_wf (next_cursor_emoji_preset s)" by (rule settings_wf_cursor [OF assms(1)])
  have "1 \<le> midi_channel s" "midi_channel s \<le> 16" using assms(1) by (simp_all add: settings_wf_def)
  then have "(midi_step ^^ 16) (midi_channel s) = midi_channel s" by (rule midi_step_16)
  then show "(toggle_midi_channel ^^ 16) s = s" unfolding toggle_midi_pow by (simp only:) simp
  have "(next_preset ^^ 8) (cursor_emoji_preset s) = cursor_emoji_preset s"
    by (rule next_preset_8 [OF assms(2)])
  then show "(next_cursor_emoji_preset ^^ 8) s = s" unfolding next_cursor_pow by (simp only:) simp
  show "cursor_emoji_preset (next_cursor_emoji_preset s) < 8"
    by (simp add: next_cursor_emoji_preset_def next_preset_less)
qed

theorem settings_cycle_witness:
  "settings_wf (toggle_midi_channel device_settings_new)
    \<and> settings_wf (next_cursor_emoji_preset device_settings_new)
    \<and> (toggle_midi_channel ^^ 16) device_settings_new = device_settings_new
    \<and> (next_cursor_emoji_preset ^^ 8) device_settings_new = device_settings_new
    \<and> cursor_emoji_preset (next_cursor_emoji_preset device_settings_new) < 8"
  by (rule settings_cycle [OF settings_wf_new]) (simp add: device_settings_new_def)

section \<open>The fingerprint of the address settings\<close>

lemma octets_u32_be: "octets_u32 (IPv4 a b c d) = of_be32 a b c d"
proof -
  have 1: "push_bit 8 (ucast a) + ucast b = (push_bit 8 (ucast a) OR ucast b :: u32)"
    by (rule disjunctive_add_eq_or) (rule bit_word_eqI, auto simp: bit_simps)
  have 2: "push_bit 8 (x OR ucast b) + ucast c = (push_bit 8 (x OR ucast b) OR ucast c :: u32)" for x :: u32
    by (rule disjunctive_add_eq_or) (rule bit_word_eqI, auto simp: bit_simps)
  have 3: "push_bit 8 (x OR ucast c) + ucast d = (push_bit 8 (x OR ucast c) OR ucast d :: u32)" for x :: u32
    by (rule disjunctive_add_eq_or) (rule bit_word_eqI, auto simp: bit_simps)
  show ?thesis unfolding octets_u32.simps 1 2 3 of_be32.simps
    by (simp add: push_bit_or or.assoc)
qed

lemma octets_u32_inj: "octets_u32 x = octets_u32 y \<longleftrightarrow> x = y"
proof
  assume eq: "octets_u32 x = octets_u32 y"
  show "x = y"
  proof (cases x; cases y)
    fix a b c d a' b' c' d' assume xy: "x = IPv4 a b c d" "y = IPv4 a' b' c' d'"
    with eq have "to_be32 (of_be32 a b c d) = to_be32 (of_be32 a' b' c' d')" 
      by (simp only: octets_u32_be)
    with xy show ?thesis by (simp only: to_be32_of_be32) simp
  qed
qed simp

lemma mult_unit_inj: "x * k = y * k \<longleftrightarrow> x = y" if "k * inv = 1" for x y k inv :: u32
proof
  assume "x * k = y * k"
  then have "x * (k * inv) = y * (k * inv)" by (simp only: mult.assoc [symmetric])
  then show "x = y" by (simp only: that mult_1_right)
qed simp

lemma xor_left_inj: "(a XOR x = a XOR y) \<longleftrightarrow> x = y" for a x y :: u32
  by (metis xor.assoc xor_self_eq xor.left_neutral)

lemma xor_right_inj: "(x XOR a = y XOR a) \<longleftrightarrow> x = y" for a x y :: u32
  by (metis xor.commute xor_left_inj)

text \<open>
  In static mode the fingerprint notices every edit of one of the three addresses: if two
  settings differ in exactly the guest address, exactly the gateway or exactly the name server,
  their tags differ, so \<open>sync_ip_from_settings\<close> applies the edit.
\<close>

theorem ip_settings_tag_edit:
  assumes "ip_config s = Static"
  shows "(ip_settings_tag (s\<lparr>static_ip := a\<rparr>) = ip_settings_tag s) = (a = static_ip s)
    \<and> (ip_settings_tag (s\<lparr>static_gw := a\<rparr>) = ip_settings_tag s) = (a = static_gw s)
    \<and> (ip_settings_tag (s\<lparr>static_dns := a\<rparr>) = ip_settings_tag s) = (a = static_dns s)"
proof -
  have 1: "x * 0x9E3779B1 = y * 0x9E3779B1 \<longleftrightarrow> x = y" for x y :: u32
    by (rule mult_unit_inj [where inv = "0xE8B2F51"]) simp
  have 2: "x * 0x85EBCA6B = y * 0x85EBCA6B \<longleftrightarrow> x = y" for x y :: u32
    by (rule mult_unit_inj [where inv = "0xA5CB9243"]) simp
  show ?thesis using assms
    by (simp add: ip_settings_tag_def Let_def xor_left_inj xor_right_inj 1 2 octets_u32_inj)
qed

theorem ip_settings_tag_edit_witness:
  "ip_settings_tag (device_settings_new\<lparr>ip_config := Static, static_gw := IPv4 192 168 1 254\<rparr>)
     \<noteq> ip_settings_tag (device_settings_new\<lparr>ip_config := Static\<rparr>)"
  using ip_settings_tag_edit [of "device_settings_new\<lparr>ip_config := Static\<rparr>" "IPv4 192 168 1 254"]
  by (simp add: device_settings_new_def)

end
