(* ===== verification/Eve_Persist.thy ===== *)
theory Eve_Persist
  imports Eve_Settings
begin

text \<open>
  The settings blob, \<open>kernel/src/settings_persist.rs\<close>: \<open>encode\<close>, the legacy 28 byte and the current
  512 byte decoders, and \<open>decode_merge\<close>. A \<open>&mut\<close> settings argument is returned updated, next to
  the boolean result. The lemmas give the layout of the blob, the round trip through it, the
  settings invariant after decoding any accepted blob, and that the checksum catches every change
  of a single byte.
\<close>

section \<open>Encoding\<close>

definition BLOB_LEN :: nat where
  "BLOB_LEN = 512"

definition MAGIC_V1 :: bytes where
  "MAGIC_V1 = ascii ''EVS1''"

definition MAGIC_V2 :: bytes where
  "MAGIC_V2 = ascii ''EVS2''"

definition checksum :: "bytes \<Rightarrow> u32" where
  "checksum payload = foldl (\<lambda>c b. c * 31 + ucast b) 0x5F370E41 payload"

definition flag_byte :: "device_settings \<Rightarrow> u8" where
  "flag_byte s =
     (if internet_stack_enabled s then 1 else 0) OR (if wifi_enabled s then 2 else 0)
     OR (if usb_polling_enabled s then 4 else 0) OR (if bluetooth_enabled s then 8 else 0)
     OR (if midi_enabled s then 16 else 0) OR (if midi_usb_enabled s then 32 else 0)
     OR (if browser_script_runtime_enabled s then 64 else 0)"

text \<open>The assignments to \<open>out\<close> in the order of the code, each with its offset.\<close>

definition encode_fields :: "device_settings \<Rightarrow> (nat \<times> bytes) list" where
  "encode_fields s =
     [(0, MAGIC_V2), (4, [2]), (5, [case display_theme s of Light \<Rightarrow> 0 | Dark \<Rightarrow> 1]),
      (6, to_le16 (display_pref_width s)), (8, to_le16 (display_pref_height s)),
      (10, [if display_use_custom_resolution s then 1 else 0]),
      (11, [nic_u8 (nic s)]), (12, [ip_config_u8 (ip_config s)]),
      (13, octets (static_ip s)), (17, octets (static_gw s)), (21, octets (static_dns s)),
      (25, [flag_byte s]), (26, [max (min (midi_channel s) 16) 1]), (27, [cursor_emoji_preset s]),
      (28, [of_nat (min (wifi_ssid_len s) 32)]), (29, [of_nat (min (wifi_psk_len s) 64)]),
      (30, [wifi_security_u8 (wifi_sec s)]), (31, [0]),
      (32, wifi_ssid s), (64, take 64 (wifi_psk s)),
      (128, [of_nat (min (unat (home_url_len s)) PERSIST_HOME_URL_CAP)]), (129, home_url s)]
     @ map (\<lambda>i. (249 + i, [min (bookmark_len s ! i) 30])) [0..<PERSIST_BOOKMARK_SLOTS]
     @ map (\<lambda>i. (257 + i * PERSIST_BOOKMARK_URL_CAP, bookmark_url s ! i)) [0..<PERSIST_BOOKMARK_SLOTS]"

definition encode :: "device_settings \<Rightarrow> bytes" where
  "encode s =
     (let out = put_fields (encode_fields s) (replicate BLOB_LEN 0);
          c = checksum (slice out 0 508)
      in put_at out 508 (to_le32 c))"

section \<open>Decoding\<close>

definition read_ipv4 :: "bytes \<Rightarrow> nat \<Rightarrow> ipv4" where
  "read_ipv4 data i = IPv4 (data ! i) (data ! (i + 1)) (data ! (i + 2)) (data ! (i + 3))"

definition read_le32 :: "bytes \<Rightarrow> nat \<Rightarrow> u32" where
  "read_le32 data i = of_le32 (data ! i) (data ! (i + 1)) (data ! (i + 2)) (data ! (i + 3))"

definition decode_v1_display_only :: "device_settings \<Rightarrow> bytes \<Rightarrow> bool \<times> device_settings" where
  "decode_v1_display_only s data =
     (if length data < 28 then (False, s)
      else if slice data 0 4 \<noteq> MAGIC_V1 then (False, s)
      else if data ! 4 \<noteq> 1 then (False, s)
      else if checksum (slice data 0 24) \<noteq> read_le32 data 24 then (False, s)
      else (True, s\<lparr> display_theme := (if data ! 5 = 1 then Dark else Light),
             display_pref_width := of_le16 (data ! 6) (data ! 7),
             display_pref_height := of_le16 (data ! 8) (data ! 9),
             display_use_custom_resolution := (data ! 10 AND 1 \<noteq> 0) \<rparr>))"

definition nic_of_u8 :: "u8 \<Rightarrow> nic_choice" where
  "nic_of_u8 b = (if b = 0 then Virtio else if b = 1 then Rtl8139 else if b = 2 then E1000
     else if b = 3 then Pcnet else Off)"

definition ip_config_of_u8 :: "u8 \<Rightarrow> ip_config" where
  "ip_config_of_u8 b = (if b = 0 then Slirp else if b = 1 then Dhcp else Static)"

definition wifi_security_of_u8 :: "u8 \<Rightarrow> wifi_security" where
  "wifi_security_of_u8 b = (if b = 1 then Wpa2Psk else if b = 2 then Wpa3Sae else Open)"

text \<open>The home page fields: an empty saved URL is replaced by the default one.\<close>

definition decode_home :: "bytes \<Rightarrow> bytes \<times> u8" where
  "decode_home data =
     (let hl = min (unat (data ! 128)) PERSIST_HOME_URL_CAP;
          url = slice data 129 (129 + PERSIST_HOME_URL_CAP)
      in if hl = 0 then
           (let n = min (length DEFAULT_HOME_URL) PERSIST_HOME_URL_CAP
            in (put_at url 0 (take n DEFAULT_HOME_URL), of_nat n))
         else (url, of_nat hl))"

definition decode_v2_fields :: "device_settings \<Rightarrow> bytes \<Rightarrow> device_settings" where
  "decode_v2_fields s data =
     s\<lparr> display_theme := (if data ! 5 = 1 then Dark else Light),
        display_pref_width := of_le16 (data ! 6) (data ! 7),
        display_pref_height := of_le16 (data ! 8) (data ! 9),
        display_use_custom_resolution := (data ! 10 AND 1 \<noteq> 0),
        nic := nic_of_u8 (data ! 11), ip_config := ip_config_of_u8 (data ! 12),
        static_ip := read_ipv4 data 13, static_gw := read_ipv4 data 17,
        static_dns := read_ipv4 data 21,
        internet_stack_enabled := (data ! 25 AND 1 \<noteq> 0), wifi_enabled := (data ! 25 AND 2 \<noteq> 0),
        usb_polling_enabled := (data ! 25 AND 4 \<noteq> 0), bluetooth_enabled := (data ! 25 AND 8 \<noteq> 0),
        midi_enabled := (data ! 25 AND 16 \<noteq> 0), midi_usb_enabled := (data ! 25 AND 32 \<noteq> 0),
        browser_script_runtime_enabled := (data ! 25 AND 64 \<noteq> 0),
        midi_channel := min (max (data ! 26) 1) 16, cursor_emoji_preset := data ! 27,
        wifi_ssid_len := min (unat (data ! 28)) 32, wifi_psk_len := min (unat (data ! 29)) 64,
        wifi_sec := wifi_security_of_u8 (data ! 30),
        wifi_ssid := slice data 32 64, wifi_psk := slice data 64 128,
        home_url := fst (decode_home data), home_url_len := snd (decode_home data),
        bookmark_len := map (\<lambda>i. min (data ! (249 + i)) 30) [0..<PERSIST_BOOKMARK_SLOTS],
        bookmark_url := map (\<lambda>i. slice data (257 + i * PERSIST_BOOKMARK_URL_CAP)
             (257 + i * PERSIST_BOOKMARK_URL_CAP + PERSIST_BOOKMARK_URL_CAP)) [0..<PERSIST_BOOKMARK_SLOTS] \<rparr>"

definition decode_v2 :: "device_settings \<Rightarrow> bytes \<Rightarrow> bool \<times> device_settings" where
  "decode_v2 s data =
     (if length data < BLOB_LEN then (False, s)
      else if slice data 0 4 \<noteq> MAGIC_V2 then (False, s)
      else if data ! 4 \<noteq> 2 then (False, s)
      else if checksum (slice data 0 508) \<noteq> read_le32 data 508 then (False, s)
      else (True, decode_v2_fields s data))"

definition decode_merge :: "device_settings \<Rightarrow> bytes \<Rightarrow> bool \<times> device_settings" where
  "decode_merge s data =
     (if 4 \<le> length data \<and> slice data 0 4 = MAGIC_V2 then decode_v2 s data
      else decode_v1_display_only s data)"

section \<open>Layout of the blob\<close>

lemma length_magic [simp]: "length MAGIC_V1 = 4" "length MAGIC_V2 = 4" "MAGIC_V1 \<noteq> MAGIC_V2"
  by (simp_all add: MAGIC_V1_def MAGIC_V2_def ascii_def)

lemma length_octets [simp]: "length (octets a) = 4"
  by (cases a) simp

text \<open>The lengths the arrays of the settings have by their types.\<close>

definition settings_shape :: "device_settings \<Rightarrow> bool" where
  "settings_shape s \<longleftrightarrow> length (home_url s) = 120
     \<and> length (bookmark_url s) = 8 \<and> (\<forall>u\<in>set (bookmark_url s). length u = 30)
     \<and> length (bookmark_len s) = 8 \<and> length (wifi_ssid s) = 32 \<and> length (wifi_psk s) = 64"

lemma settings_wf_shape: "settings_wf s \<Longrightarrow> settings_shape s"
  by (simp add: settings_wf_def settings_shape_def)

lemma encode_fields_layout:
  assumes "settings_shape s"
  shows "contiguous 0 (encode_fields s) \<and> length (concat (map snd (encode_fields s))) = 497"
proof -
  have "contiguous 249 (map (\<lambda>i. (249 + i * 1, [min (bookmark_len s ! i) 30])) [0..<8])
      \<and> length (concat (map (\<lambda>i. [min (bookmark_len s ! i) 30]) [0..<8])) = 8 * 1"
    by (rule contiguous_map) simp
  moreover have "contiguous 257 (map (\<lambda>i. (257 + i * 30, bookmark_url s ! i)) [0..<8])
      \<and> length (concat (map (\<lambda>i. bookmark_url s ! i) [0..<8])) = 8 * 30"
    by (rule contiguous_map) (use assms in \<open>simp add: settings_shape_def\<close>)
  ultimately show ?thesis using assms
    by (simp add: encode_fields_def contiguous_append settings_shape_def o_def)
qed

definition payload :: "device_settings \<Rightarrow> bytes" where
  "payload s = concat (map snd (encode_fields s)) @ replicate 11 0"

lemma length_payload [simp]: "settings_shape s \<Longrightarrow> length (payload s) = 508"
  using encode_fields_layout [of s] by (simp add: payload_def)

lemma encode_eq: "settings_shape s \<Longrightarrow> encode s = payload s @ to_le32 (checksum (payload s))"
proof -
  assume s: "settings_shape s"
  have "put_fields (encode_fields s) (replicate 512 0) = concat (map snd (encode_fields s)) @ replicate 15 0"
    using put_fields_contiguous [of "[]" "encode_fields s" 512 0] encode_fields_layout [OF s] by simp
  also have "\<dots> = payload s @ replicate 4 0"
    by (simp add: payload_def flip: replicate_add)
  finally have out: "put_fields (encode_fields s) (replicate 512 0) = payload s @ replicate 4 0" .
  show ?thesis unfolding encode_def BLOB_LEN_def out Let_def
    using length_payload [OF s] by (simp add: slice_def put_at_def)
qed

lemma length_encode [simp]: "settings_shape s \<Longrightarrow> length (encode s) = 512"
  by (simp add: encode_eq)

lemma encode_slice:
  assumes "settings_shape s" "(b, src) \<in> set (encode_fields s)" "e = b + length src"
  shows "slice (encode s) b e = src"
  using contiguous_slice [of "[]" "encode_fields s" b src] encode_fields_layout [OF assms(1)] assms
  by (simp add: encode_eq payload_def)

lemma encode_nth:
  assumes "settings_shape s" "(b, src) \<in> set (encode_fields s)" "j < length src"
  shows "encode s ! (b + j) = src ! j"
proof -
  have sl: "slice (encode s) b (b + length src) = src" by (rule encode_slice [OF assms(1,2) refl])
  then have "length src = min (length src) (512 - b)"
    using assms(1) by (metis length_slice length_encode diff_add_inverse)
  then have "b + j < 512" using assms(3) by linarith
  with nth_slice [of j "b + length src" b "encode s"] sl assms show ?thesis by simp
qed

lemma encode_byte:
  assumes "settings_shape s" "(b, [v]) \<in> set (encode_fields s)"
  shows "encode s ! b = v"
  using encode_nth [OF assms, of 0] by simp

lemma encode_ipv4:
  assumes "settings_shape s" "(b, octets a) \<in> set (encode_fields s)"
  shows "read_ipv4 (encode s) b = a"
  using encode_nth [OF assms, of 0] encode_nth [OF assms, of 1]
    encode_nth [OF assms, of 2] encode_nth [OF assms, of 3]
  by (cases a) (simp add: read_ipv4_def)

lemma encode_le16:
  assumes "settings_shape s" "(b, to_le16 w) \<in> set (encode_fields s)" "b' = Suc b"
  shows "of_le16 (encode s ! b) (encode s ! b') = w"
  using encode_nth [OF assms(1,2), of 0] encode_nth [OF assms(1,2), of 1] assms(3)
  by (simp add: to_le16_def del: of_be16.simps)

lemma flag_bits:
  "flag_byte s AND 1 \<noteq> 0 \<longleftrightarrow> internet_stack_enabled s" "flag_byte s AND 2 \<noteq> 0 \<longleftrightarrow> wifi_enabled s"
  "flag_byte s AND 4 \<noteq> 0 \<longleftrightarrow> usb_polling_enabled s" "flag_byte s AND 8 \<noteq> 0 \<longleftrightarrow> bluetooth_enabled s"
  "flag_byte s AND 16 \<noteq> 0 \<longleftrightarrow> midi_enabled s" "flag_byte s AND 32 \<noteq> 0 \<longleftrightarrow> midi_usb_enabled s"
  "flag_byte s AND 64 \<noteq> 0 \<longleftrightarrow> browser_script_runtime_enabled s"
  by (auto simp: flag_byte_def split: if_splits)

lemma enum_roundtrip [simp]:
  "nic_of_u8 (nic_u8 n) = n" "ip_config_of_u8 (ip_config_u8 c) = c"
  "wifi_security_of_u8 (wifi_security_u8 w) = w"
proof -
  show "nic_of_u8 (nic_u8 n) = n" by (cases n) (simp_all add: nic_of_u8_def)
  show "ip_config_of_u8 (ip_config_u8 c) = c" by (cases c) (simp_all add: ip_config_of_u8_def)
  show "wifi_security_of_u8 (wifi_security_u8 w) = w"
    by (cases w) (simp_all add: wifi_security_of_u8_def)
qed

lemma encode_bookmark_len: "i < 8 \<Longrightarrow> (249 + i, [min (bookmark_len s ! i) 30]) \<in> set (encode_fields s)"
  by (simp add: encode_fields_def image_iff)

lemma encode_bookmark_url: "i < 8 \<Longrightarrow> (257 + i * 30, bookmark_url s ! i) \<in> set (encode_fields s)"
  by (simp add: encode_fields_def image_iff)

lemma decode_home_encode:
  assumes "settings_wf s"
  shows "decode_home (encode s) = (home_url s, home_url_len s)"
proof -
  have shape: "settings_shape s" by (rule settings_wf_shape [OF assms])
  have "encode s ! 128 = of_nat (min (unat (home_url_len s)) 120)"
    by (rule encode_byte [OF shape]) (simp add: encode_fields_def)
  moreover have "unat (home_url_len s) \<le> 120" "0 < unat (home_url_len s)"
    using assms by (auto simp: settings_wf_def word_le_nat_alt word_less_nat_alt)
  moreover have "slice (encode s) 129 249 = home_url s"
    by (rule encode_slice [OF shape]) (use assms in \<open>simp_all add: encode_fields_def settings_wf_def\<close>)
  ultimately show ?thesis by (simp add: decode_home_def Let_def)
qed


lemma decode_bookmarks_encode:
  assumes "settings_wf s"
  shows "map (\<lambda>i. min (encode s ! (249 + i)) 30) [0..<8] = bookmark_len s"
    and "map (\<lambda>i. slice (encode s) (257 + i * 30) (257 + i * 30 + 30)) [0..<8] = bookmark_url s"
proof -
  have shape: "settings_shape s" by (rule settings_wf_shape [OF assms])
  have len: "length (bookmark_len s) = 8" "length (bookmark_url s) = 8"
    using assms by (auto simp: settings_wf_def)
  have small: "bookmark_len s ! i \<le> 30" "length (bookmark_url s ! i) = 30" if "i < 8" for i
    using assms that by (auto simp: settings_wf_def)
  show "map (\<lambda>i. min (encode s ! (249 + i)) 30) [0..<8] = bookmark_len s"
    by (rule nth_equalityI)
      (use len small encode_byte [OF shape encode_bookmark_len] in \<open>auto simp: min_def\<close>)
  show "map (\<lambda>i. slice (encode s) (257 + i * 30) (257 + i * 30 + 30)) [0..<8] = bookmark_url s"
    by (rule nth_equalityI)
      (use len small encode_slice [OF shape encode_bookmark_url] in auto)
qed

lemma encode_reads:
  assumes "settings_shape s"
  shows "encode s ! 4 = 2"
    "encode s ! 5 = (case display_theme s of Light \<Rightarrow> 0 | Dark \<Rightarrow> 1)"
    "encode s ! 10 = (if display_use_custom_resolution s then 1 else 0)"
    "encode s ! 11 = nic_u8 (nic s)" "encode s ! 12 = ip_config_u8 (ip_config s)"
    "encode s ! 25 = flag_byte s" "encode s ! 26 = max (min (midi_channel s) 16) 1"
    "encode s ! 27 = cursor_emoji_preset s"
    "encode s ! 28 = of_nat (min (wifi_ssid_len s) 32)"
    "encode s ! 29 = of_nat (min (wifi_psk_len s) 64)"
    "encode s ! 30 = wifi_security_u8 (wifi_sec s)"
    "of_le16 (encode s ! 6) (encode s ! 7) = display_pref_width s"
    "of_le16 (encode s ! 8) (encode s ! 9) = display_pref_height s"
    "read_ipv4 (encode s) 13 = static_ip s" "read_ipv4 (encode s) 17 = static_gw s"
    "read_ipv4 (encode s) 21 = static_dns s"
    "slice (encode s) 0 4 = MAGIC_V2"
    "slice (encode s) 32 64 = wifi_ssid s" "slice (encode s) 64 128 = wifi_psk s"
  using assms
  by (intro encode_byte encode_le16 encode_ipv4 encode_slice;
      simp add: encode_fields_def settings_shape_def)+

lemma decode_fields_encode:
  assumes "settings_wf s"
  shows "decode_v2_fields t (encode s) = s"
proof -
  note shape = settings_wf_shape [OF assms]
  have lens: "min (unat (of_nat (min (wifi_ssid_len s) 32) :: u8)) 32 = wifi_ssid_len s"
      "min (unat (of_nat (min (wifi_psk_len s) 64) :: u8)) 64 = wifi_psk_len s"
    using assms by (auto simp: settings_wf_def unsigned_of_nat take_bit_nat_eq_self)
  have chan: "min (max (max (min (midi_channel s) 16) 1) 1) 16 = midi_channel s"
    using assms by (auto simp: settings_wf_def min_def max_def)
  have theme: "(if (case display_theme s of Light \<Rightarrow> 0 | Dark \<Rightarrow> 1) = (1::u8) then Dark else Light)
      = display_theme s"
    by (cases "display_theme s") simp_all
  show ?thesis
    unfolding decode_v2_fields_def encode_reads [OF shape] decode_home_encode [OF assms]
      decode_bookmarks_encode [OF assms] flag_bits lens chan theme enum_roundtrip
    by simp
qed

lemma encode_checksum:
  assumes "settings_shape s"
  shows "slice (encode s) 0 508 = payload s" "read_le32 (encode s) 508 = checksum (payload s)"
  using assms
  by (simp add: encode_eq slice_def)
    (use assms in \<open>simp add: encode_eq read_le32_def nth_append to_le32_def del: of_be32.simps\<close>)

lemma encode_accepted:
  assumes "settings_shape s"
  shows "decode_merge t (encode s) = (True, decode_v2_fields t (encode s))"
  using assms encode_reads [OF assms] encode_checksum [OF assms]
  by (simp add: decode_merge_def decode_v2_def BLOB_LEN_def)

text \<open>
  C1. Saving and loading the settings is the identity: for well-formed settings \<open>s\<close> the blob has 512
  bytes and decoding it over any other settings is accepted and gives back exactly \<open>s\<close>.
\<close>

theorem decode_encode:
  assumes "settings_wf s"
  shows "length (encode s) = BLOB_LEN \<and> decode_merge t (encode s) = (True, s)"
  using assms settings_wf_shape [OF assms]
  by (simp add: encode_accepted decode_fields_encode BLOB_LEN_def)

theorem decode_encode_witness:
  "length (encode device_settings_new) = BLOB_LEN
    \<and> decode_merge (device_settings_new\<lparr>nic := Off\<rparr>) (encode device_settings_new)
      = (True, device_settings_new)"
  by (rule decode_encode [OF settings_wf_new])

section \<open>Loading arbitrary blobs\<close>

lemma decode_home_wf:
  assumes "512 \<le> length data" "decode_home data = (url, n)"
  shows "length url = 120 \<and> 0 < n \<and> n \<le> 120"
proof (cases "min (unat (data ! 128)) 120 = 0")
  case True
  with assms show ?thesis
    by (auto simp: decode_home_def length_DEFAULT_HOME_URL)
next
  case False
  then have "decode_home data = (slice data 129 249, of_nat (min (unat (data ! 128)) 120))"
    by (auto simp: decode_home_def Let_def)
  with assms(2) have url: "url = slice data 129 249" and n: "n = of_nat (min (unat (data ! 128)) 120)"
    by simp_all
  have "unat n = min (unat (data ! 128)) 120"
    unfolding n by (simp add: unsigned_of_nat take_bit_nat_eq_self min_def)
  with False url assms(1) show ?thesis by (auto simp: word_le_nat_alt word_less_nat_alt)
qed

lemma decode_v2_fields_wf:
  assumes "512 \<le> length data"
  shows "settings_wf (decode_v2_fields t data)"
proof -
  obtain url n where home: "decode_home data = (url, n)" by fastforce
  have "length url = 120 \<and> 0 < n \<and> n \<le> 120" by (rule decode_home_wf [OF assms home])
  with assms home show ?thesis by (auto simp: settings_wf_def decode_v2_fields_def)
qed

text \<open>
  Loading keeps the settings invariant: whatever bytes are found, the settings after
  \<open>decode_merge\<close> are well formed, unchanged when the blob is refused, and every legacy blob changes
  the display settings only.
\<close>

theorem decode_merge_wf:
  assumes "settings_wf t" "decode_merge t data = (ok, s)"
  shows "settings_wf s \<and> (ok = False \<longrightarrow> s = t)
    \<and> (slice data 0 4 \<noteq> MAGIC_V2 \<longrightarrow> s = t\<lparr> display_theme := display_theme s,
        display_pref_width := display_pref_width s, display_pref_height := display_pref_height s,
        display_use_custom_resolution := display_use_custom_resolution s \<rparr>)"
proof (cases "4 \<le> length data \<and> slice data 0 4 = MAGIC_V2")
  case True
  with assms have "decode_v2 t data = (ok, s)" by (simp add: decode_merge_def)
  then show ?thesis using assms(1) True
    by (auto simp: decode_v2_def BLOB_LEN_def decode_v2_fields_wf split: if_splits)
next
  case False
  with assms have "decode_v1_display_only t data = (ok, s)" by (simp add: decode_merge_def)
  then show ?thesis using assms(1)
    by (auto simp: decode_v1_display_only_def settings_wf_def split: if_splits)
qed

theorem decode_merge_wf_witness:
  "settings_wf (snd (decode_merge device_settings_new (ascii ''EVS1'')))"
  using decode_merge_wf [OF settings_wf_new surjective_pairing] by blast

section \<open>Corruption\<close>

lemma checksum_step_inj: "c * 31 = c' * 31 \<longleftrightarrow> c = c'" for c c' :: u32
  by (rule mult_unit_inj [where inv = "0xBDEF7BDF"]) simp

lemma checksum_inj:
  "foldl (\<lambda>c b. c * 31 + ucast (b::u8)) c xs = foldl (\<lambda>c b. c * 31 + ucast b) c' xs \<longleftrightarrow> c = (c'::u32)"
  by (induction xs arbitrary: c c') (simp_all add: checksum_step_inj)

lemma ucast_u8_u32_inj: "(ucast (a::u8) :: u32) = ucast b \<longleftrightarrow> a = b"
  by (metis unat_ucast_u8(2) word_unat_eq_iff)

lemma checksum_update:
  assumes "i < length xs" "v \<noteq> xs ! i"
  shows "checksum (xs[i := v]) \<noteq> checksum xs"
proof -
  have "xs = take i xs @ xs ! i # drop (Suc i) xs" using assms(1) by (rule id_take_nth_drop)
  then obtain as b bs where xs: "xs = as @ b # bs" "length as = i"
    using assms(1) by (metis length_take min.absorb4)
  with assms(2) show ?thesis
    by (auto simp: checksum_def checksum_inj ucast_u8_u32_inj)
qed

lemma read_le32_inj:
  "read_le32 xs k = read_le32 ys k \<longleftrightarrow> (\<forall>j<4. xs ! (k + j) = ys ! (k + j))"
proof
  assume "read_le32 xs k = read_le32 ys k"
  then have "to_le32 (read_le32 xs k) = to_le32 (read_le32 ys k)" by simp
  then show "\<forall>j<4. xs ! (k + j) = ys ! (k + j)"
    by (simp add: read_le32_def numeral_eq_Suc All_less_Suc del: of_le32.simps)
next
  assume "\<forall>j<4. xs ! (k + j) = ys ! (k + j)"
  then show "read_le32 xs k = read_le32 ys k"
    using spec [of _ 0] by (simp add: read_le32_def numeral_eq_Suc All_less_Suc)
qed

text \<open>
  C31. The blob detects every change of one byte: if any of the 512 bytes of an encoded blob is
  replaced by a different value, it is refused and the settings are left as they were.
\<close>

theorem decode_detects_corruption:
  assumes "settings_shape s" "i < 512" "v \<noteq> encode s ! i"
  shows "decode_merge t ((encode s)[i := v]) = (False, t)"
proof -
  let ?d = "(encode s)[i := v]"
  note reads = encode_reads [OF assms(1)] and sum = encode_checksum [OF assms(1)]
  have len: "length ?d = 512" using assms(1) by simp
  consider "i < 4" | "4 \<le> i \<and> i < 508" | "508 \<le> i" by linarith
  then show ?thesis
  proof cases
    case 1
    then have "slice ?d 0 4 ! i \<noteq> slice (encode s) 0 4 ! i"
      using assms by (simp add: slice_def)
    then have "slice ?d 0 4 \<noteq> MAGIC_V2" using reads(17) by auto
    moreover have "?d ! 4 = 2" using 1 reads(1) by simp
    ultimately show ?thesis by (simp add: decode_merge_def decode_v1_display_only_def)
  next
    case 2
    then have "slice ?d 0 508 = (payload s)[i := v]"
      using sum(1) by (simp add: slice_def take_update_swap)
    moreover have "v \<noteq> payload s ! i"
      using 2 assms by (simp add: encode_eq nth_append)
    ultimately have "checksum (slice ?d 0 508) \<noteq> checksum (payload s)"
      using 2 assms(1) by (simp add: checksum_update)
    moreover have "read_le32 ?d 508 = checksum (payload s)"
      using 2 sum(2) by (simp add: read_le32_def)
    moreover have "slice ?d 0 4 = MAGIC_V2"
      using 2 reads(17) by (simp add: slice_def)
    ultimately show ?thesis using len by (simp add: decode_merge_def decode_v2_def)
  next
    case 3
    then have "slice ?d 0 508 = payload s" "slice ?d 0 4 = MAGIC_V2"
      using sum(1) reads(17) by (simp_all add: slice_def)
    moreover have "read_le32 ?d 508 \<noteq> read_le32 (encode s) 508"
      unfolding read_le32_inj using 3 assms by (auto intro!: exI [of _ "i - 508"])
    ultimately show ?thesis using len sum(2) by (simp add: decode_merge_def decode_v2_def)
  qed
qed

theorem decode_detects_corruption_witness:
  "decode_merge device_settings_new ((encode device_settings_new)[4 := 3]) = (False, device_settings_new)"
proof (rule decode_detects_corruption)
  show shape: "settings_shape device_settings_new" by (rule settings_wf_shape [OF settings_wf_new])
  show "(3::u8) \<noteq> encode device_settings_new ! 4" by (simp add: encode_reads [OF shape])
qed simp

end
