(* ===== verification/Eve_Gpt.thy ===== *)
theory Eve_Gpt
  imports Eve_Virtio_Blk Eve_Persist
begin

text \<open>
  The clients of the block driver that keep data on disk: the settings sector
  (\<open>settings_persist_disk.rs\<close>) and the boot flags of a cloned disk (\<open>gpt_boot_patch.rs\<close>). Both take the
  sector operations \<open>rd\<close> and \<open>wr\<close> as arguments, in the place of the \<open>&mut VirtioBlk\<close> they call, with
  its \<open>capacity\<close> and \<open>sector_size\<close>; their lemmas are proved once, for every \<open>block_device\<close>.
\<close>

section \<open>The settings sector\<close>

type_synonym 's rd_fn = "'s \<Rightarrow> u64 \<Rightarrow> bytes \<Rightarrow> bool \<times> bytes \<times> 's"
type_synonym 's wr_fn = "'s \<Rightarrow> u64 \<Rightarrow> bytes \<Rightarrow> bool \<times> 's"

definition disk_load :: "'s rd_fn \<Rightarrow> u64 \<Rightarrow> 's \<Rightarrow> device_settings \<Rightarrow> bool \<times> device_settings \<times> 's" where
  "disk_load rd blk_capacity s settings =
     (if blk_capacity = 0 then (False, settings, s)
      else let lba = blk_capacity - 1;
               (good, sector, s) = rd s lba (replicate 512 0)
           in if \<not> good then (False, settings, s)
              else let (merged, settings) = decode_merge settings sector in (merged, settings, s))"

definition disk_save :: "'s wr_fn \<Rightarrow> u64 \<Rightarrow> 's \<Rightarrow> device_settings \<Rightarrow> bool \<times> 's" where
  "disk_save wr blk_capacity s settings =
     (if blk_capacity = 0 then (False, s)
      else let lba = blk_capacity - 1 in wr s lba (encode settings))"

section \<open>Boot flags\<close>

definition SIG_EFI_PART :: bytes where
  "SIG_EFI_PART = ascii ''EFI PART''"

definition GPT_ATTR_BOOT_MASK :: u64 where
  "GPT_ATTR_BOOT_MASK = push_bit 0 1 OR push_bit 2 1"

definition crc32_bit :: "u32 \<Rightarrow> u32" where
  "crc32_bit crc = (if crc AND 1 \<noteq> 0 then drop_bit 1 crc XOR 0xEDB88320 else drop_bit 1 crc)"

definition crc32_update :: "u32 \<Rightarrow> bytes \<Rightarrow> u32" where
  "crc32_update crc data = foldl (\<lambda>crc b. (crc32_bit ^^ 8) (crc XOR ucast b)) crc data"

definition crc32_finish :: "u32 \<Rightarrow> u32" where
  "crc32_finish crc = NOT crc"

definition read_u32_le :: "bytes \<Rightarrow> nat \<Rightarrow> u32 option" where
  "read_u32_le buf off = (if off + 4 \<le> length buf then Some (read_le32 buf off) else None)"

definition read_u64_le :: "bytes \<Rightarrow> nat \<Rightarrow> u64 option" where
  "read_u64_le buf off = (if off + 8 \<le> length buf then Some (of_le64 (slice buf off (off + 8))) else None)"

definition write_u32_le :: "bytes \<Rightarrow> nat \<Rightarrow> u32 \<Rightarrow> bytes" where
  "write_u32_le buf off v = (if off + 4 \<le> length buf then put_at buf off (to_le32 v) else buf)"

definition write_u64_le :: "bytes \<Rightarrow> nat \<Rightarrow> u64 \<Rightarrow> bytes" where
  "write_u64_le buf off v = (if off + 8 \<le> length buf then put_at buf off (to_le64 v) else buf)"

text \<open>
  The loop of \<open>crc_partition_bytes\<close>; it ends because each round moves \<open>pos\<close> on by at least one byte.
  The result is the running value, \<open>None\<close> when a sector cannot be read.
\<close>

function crc_loop :: "'s rd_fn \<Rightarrow> u64 \<Rightarrow> nat \<Rightarrow> u32 \<Rightarrow> nat \<Rightarrow> bytes \<Rightarrow> 's \<Rightarrow> u32 option \<times> bytes \<times> 's" where
  "crc_loop rd entry_lba total_bytes crc pos buf s =
     (if pos < total_bytes then
        let lba = entry_lba + of_nat (pos div 512);
            off = pos mod 512;
            (good, buf, s) = rd s lba buf
        in if \<not> good then (None, buf, s)
           else let chunk = min (512 - off) (total_bytes - pos)
                in crc_loop rd entry_lba total_bytes (crc32_update crc (slice buf off (off + chunk)))
                     (pos + chunk) buf s
      else (Some crc, buf, s))"
  by pat_completeness auto
termination
proof (relation "measure (\<lambda>(rd, entry_lba, total_bytes, crc, pos, buf, s). total_bytes - pos)")
  fix pos total :: nat and chunk off
  assume "pos < total" "off = pos mod 512" "chunk = min (512 - off) (total - pos)"
  moreover have "pos mod 512 < 512" by simp
  ultimately have "0 < chunk" by (metis diff_is_0_eq min_less_iff_conj not_le zero_less_diff)
qed (auto simp: min_def)

declare crc_loop.simps [simp del]

definition crc_partition_bytes ::
  "'s rd_fn \<Rightarrow> 's \<Rightarrow> u64 \<Rightarrow> nat \<Rightarrow> bytes \<Rightarrow> u32 option \<times> bytes \<times> 's" where
  "crc_partition_bytes rd s entry_lba total_bytes buf =
     (let (crc, buf, s) = crc_loop rd entry_lba total_bytes 0xFFFFFFFF 0 buf s
      in (map_option crc32_finish crc, buf, s))"

text \<open>The header checks before the first disk access: size, first entry sector, array bytes.\<close>

definition gpt_header :: "bytes \<Rightarrow> (nat \<times> u64 \<times> nat) option" where
  "gpt_header hdr =
     (if slice hdr 0 8 \<noteq> SIG_EFI_PART then None
      else do {
        hdr_size \<leftarrow> map_option unat (read_u32_le hdr 0x0C);
        if hdr_size < 92 \<or> 512 < hdr_size then None else do {
          my_lba \<leftarrow> read_u64_le hdr 0x18;
          if my_lba \<noteq> 1 then None else do {
            entry_lba \<leftarrow> read_u64_le hdr 0x48;
            num_entries \<leftarrow> read_u32_le hdr 0x50;
            entry_size \<leftarrow> read_u32_le hdr 0x54;
            if num_entries = 0 \<or> entry_size < 128 \<or> 4096 < entry_size then None else do {
              total_bytes \<leftarrow> checked_mul (unat num_entries) (unat entry_size);
              if 2 * 1024 * 1024 < int total_bytes then None
              else Some (hdr_size, entry_lba, total_bytes) } } } })"

text \<open>The header rewrite: the entry array checksum, then the header's own over its first bytes.\<close>

definition gpt_header_crc :: "bytes \<Rightarrow> nat \<Rightarrow> u32" where
  "gpt_header_crc hdr hdr_size =
     (let tmp = put_at (replicate 128 0) 0 (take hdr_size hdr);
          tmp = put_at tmp 0x10 [0, 0, 0, 0]
      in crc32_finish (crc32_update 0xFFFFFFFF (take hdr_size tmp)))"

definition try_patch_gpt :: "'s rd_fn \<Rightarrow> 's wr_fn \<Rightarrow> 's \<Rightarrow> bytes \<Rightarrow> bytes \<Rightarrow> bool \<times> 's" where
  "try_patch_gpt rd wr s hdr ent =
     (case gpt_header hdr of None \<Rightarrow> (False, s)
      | Some (hdr_size, entry_lba, total_bytes) \<Rightarrow>
        let (good, ent, s) = rd s entry_lba ent
        in if \<not> good then (False, s)
           else if list_all (\<lambda>b. b = 0) (slice ent 0 16) then (False, s)
           else let cur = (case read_u64_le ent 48 of Some v \<Rightarrow> v | None \<Rightarrow> 0);
                    new_attrs = cur OR GPT_ATTR_BOOT_MASK
                in if new_attrs = cur then (True, s)
                   else let ent = write_u64_le ent 48 new_attrs;
                            (good, s) = wr s entry_lba ent
                        in if \<not> good then (False, s)
                           else case crc_partition_bytes rd s entry_lba total_bytes ent of
                               (None, ent, s) \<Rightarrow> (False, s)
                             | (Some part_crc, ent, s) \<Rightarrow>
                               let (good, hdr, s) = rd s 1 hdr
                               in if \<not> good then (False, s)
                                  else let hdr = write_u32_le hdr 0x58 part_crc;
                                           hdr = write_u32_le hdr 0x10 0
                                       in if 128 < hdr_size then (False, s)
                                          else let hdr = write_u32_le hdr 0x10 (gpt_header_crc hdr hdr_size)
                                               in wr s 1 hdr)"

definition try_patch_mbr :: "'s rd_fn \<Rightarrow> 's wr_fn \<Rightarrow> 's \<Rightarrow> bytes \<Rightarrow> bool \<times> 's" where
  "try_patch_mbr rd wr s buf =
     (let (good, buf, s) = rd s 0 buf
      in if \<not> good then (False, s)
         else if buf ! 510 \<noteq> 0x55 \<or> buf ! 511 \<noteq> 0xAA then (False, s)
         else if buf ! 0x1C2 = 0xEE then (False, s)
         else let buf = fold (\<lambda>i buf. buf[0x1BE + i * 16 := 0]) [0..<4] buf;
                  buf = buf[0x1BE := 0x80]
              in wr s 0 buf)"

definition patch_install_target_boot :: "'s rd_fn \<Rightarrow> 's wr_fn \<Rightarrow> u32 \<Rightarrow> 's \<Rightarrow> bool \<times> 's" where
  "patch_install_target_boot rd wr blk_sector_size s =
     (if blk_sector_size \<noteq> 512 then (False, s)
      else let (good, hdr, s) = rd s 1 (replicate 512 0)
           in if \<not> good then (False, s)
              else if slice hdr 0 8 = SIG_EFI_PART
              then try_patch_gpt rd wr s hdr (replicate 512 0)
              else try_patch_mbr rd wr s hdr)"

section \<open>Reading and writing little-endian fields\<close>

lemma read_le32_put_at [simp]:
  "off + 4 \<le> length buf \<Longrightarrow> read_le32 (put_at buf off (to_le32 v)) off = v"
  by (simp add: read_le32_def nth_put_at to_le32_def del: of_be32.simps)

lemma read_le32_put_at_other:
  "off + 4 \<le> length buf \<Longrightarrow> o' + 4 \<le> length buf \<Longrightarrow> o' + 4 \<le> off \<or> off + 4 \<le> o' \<Longrightarrow>
    length src = 4 \<Longrightarrow> read_le32 (put_at buf off src) o' = read_le32 buf o'"
  by (auto simp: read_le32_def nth_put_at)

lemma read_u64_le_write [simp]:
  "off + 8 \<le> length buf \<Longrightarrow> read_u64_le (write_u64_le buf off v) off = Some v"
  by (simp add: read_u64_le_def write_u64_le_def)

lemma length_write_le [simp]:
  "length (write_u32_le buf off v) = length buf" "length (write_u64_le buf off w) = length buf"
  by (simp_all add: write_u32_le_def write_u64_le_def)

lemma crc32_update_append: "crc32_update c (xs @ ys) = crc32_update (crc32_update c xs) ys"
  by (simp add: crc32_update_def)

section \<open>The clients on any block device\<close>

text \<open>The bytes of the sectors from \<open>lba\<close> on, and the checksum of a byte string.\<close>

definition disk_bytes :: "(u64 \<Rightarrow> bytes) \<Rightarrow> u64 \<Rightarrow> nat \<Rightarrow> bytes" where
  "disk_bytes dsk lba n = concat (map (\<lambda>i. dsk (lba + of_nat i)) [0..<n])"

definition crc32 :: "bytes \<Rightarrow> u32" where
  "crc32 data = crc32_finish (crc32_update 0xFFFFFFFF data)"

text \<open>The checksum of the entry array, and the two sectors the GPT patch writes.\<close>

definition array_crc :: "(u64 \<Rightarrow> bytes) \<Rightarrow> u64 \<Rightarrow> nat \<Rightarrow> u32" where
  "array_crc dsk lba n = crc32 (take n (disk_bytes dsk lba ((n + 511) div 512)))"

definition entry_attrs :: "bytes \<Rightarrow> u64" where
  "entry_attrs ent = of_le64 (slice ent 48 56)"

definition patched_entry :: "bytes \<Rightarrow> bytes" where
  "patched_entry ent = put_at ent 48 (to_le64 (entry_attrs ent OR GPT_ATTR_BOOT_MASK))"

definition patched_header :: "(u64 \<Rightarrow> bytes) \<Rightarrow> nat \<Rightarrow> u64 \<Rightarrow> nat \<Rightarrow> bytes" where
  "patched_header dsk hs lba n =
     (let h = put_at (put_at (dsk 1) 0x58 (to_le32 (array_crc dsk lba n))) 0x10 (to_le32 0)
      in put_at h 0x10 (to_le32 (gpt_header_crc h hs)))"

text \<open>
  A disk the patch has work to do on: a header that passes the checks, its entry array in range
  and behind the header, a used first entry without the boot bits.
\<close>

definition gpt_patchable :: "(u64 \<Rightarrow> bytes) \<Rightarrow> u64 \<Rightarrow> nat \<Rightarrow> u64 \<Rightarrow> nat \<Rightarrow> bool" where
  "gpt_patchable dsk c hs lba n \<longleftrightarrow> gpt_header (dsk 1) = Some (hs, lba, n) \<and> 1 < c \<and> 2 \<le> lba
     \<and> unat lba + (n + 511) div 512 \<le> unat c
     \<and> \<not> list_all (\<lambda>b. b = 0) (slice (dsk lba) 0 16)
     \<and> entry_attrs (dsk lba) OR GPT_ATTR_BOOT_MASK \<noteq> entry_attrs (dsk lba)"

text \<open>A range of sectors that exists on a disk.\<close>

definition in_range :: "u64 \<Rightarrow> u64 \<Rightarrow> nat \<Rightarrow> bool" where
  "in_range c lba n \<longleftrightarrow> unat lba + (n + 511) div 512 \<le> unat c"

lemma in_range_less:
  assumes "in_range c lba n" "512 * i < n"
  shows "lba + of_nat i < c" "unat (lba + of_nat i) = unat lba + i"
proof -
  have "i < (n + 511) div 512" using assms(2) by linarith
  with assms(1) have lt: "unat lba + i < unat c" by (simp add: in_range_def)
  moreover have "unat c < 2 ^ LENGTH(64)" by (rule unsigned_less)
  ultimately have "unat (of_nat i :: u64) = i" "unat lba + i < 2 ^ LENGTH(64)"
    by (auto simp: unsigned_of_nat take_bit_nat_eq_self)
  then show "unat (lba + of_nat i) = unat lba + i" by (simp add: unat_word_ariths)
  with lt show "lba + of_nat i < c" by (simp add: word_less_nat_alt)
qed

lemma gpt_header_size: "gpt_header hdr = Some (hs, lba, n) \<Longrightarrow> 92 \<le> hs \<and> 0 < n \<and> slice hdr 0 8 = SIG_EFI_PART"
  by (auto simp: gpt_header_def checked_mul_def unat_gt_0 word_less_nat_alt word_le_nat_alt
      split: if_splits bind_splits option.splits)

lemma disk_bytes_split:
  "i < n \<Longrightarrow> disk_bytes dsk lba n = disk_bytes dsk lba i @ dsk (lba + of_nat i)
     @ concat (map (\<lambda>i. dsk (lba + of_nat i)) [Suc i..<n])"
  unfolding disk_bytes_def using upt_add_eq_append [of 0 i "n - i"] by (simp add: upt_conv_Cons)

context block_device
begin

lemma length_disk_bytes: "ok s \<Longrightarrow> length (disk_bytes (disk s) lba n) = 512 * n"
  by (induction n) (simp_all add: disk_bytes_def length_disk)

text \<open>One sector of the array, cut to the bytes that belong to it.\<close>

lemma drop_disk_bytes:
  assumes "ok s" "512 * i < n"
  shows "drop (512 * i) (take n (disk_bytes (disk s) lba ((n + 511) div 512)))
    = take (min 512 (n - 512 * i)) (disk s (lba + of_nat i))
      @ drop (512 * Suc i) (take n (disk_bytes (disk s) lba ((n + 511) div 512)))"
proof -
  let ?rest = "concat (map (\<lambda>i. disk s (lba + of_nat i)) [Suc i..<(n + 511) div 512])"
  have "i < (n + 511) div 512" using assms(2) by linarith
  from disk_bytes_split [OF this, of "disk s" lba]
  have B: "disk_bytes (disk s) lba ((n + 511) div 512)
      = disk_bytes (disk s) lba i @ disk s (lba + of_nat i) @ ?rest" .
  show ?thesis unfolding B using assms
    by (simp add: length_disk_bytes length_disk min_def)
qed

text \<open>The checksum loop from a sector boundary on reads exactly the rest of the array.\<close>

lemma crc_loop_ok:
  assumes "in_range (cap s) lba n" "ok s" "length buf = 512"
  shows "\<exists>buf' s'. crc_loop rd lba n crc (min (512 * i) n) buf s
      = (Some (crc32_update crc (drop (512 * i) (take n (disk_bytes (disk s) lba ((n + 511) div 512))))), buf', s')
      \<and> ok s' \<and> disk s' = disk s \<and> cap s' = cap s"
  using assms
proof (induction "n - 512 * i" arbitrary: i s crc buf rule: less_induct)
  case less
  show ?case
  proof (cases "512 * i < n")
    case False
    then show ?thesis using less.prems by (subst crc_loop.simps) (simp add: crc32_update_def)
  next
    case True
    let ?sec = "disk s (lba + of_nat i)" and ?c = "min 512 (n - 512 * i)"
    from rd_ok [OF less.prems(2) in_range_less(1) [OF less.prems(1) True] less.prems(3)]
    obtain s1 where rd1: "rd s (lba + of_nat i) buf = (True, ?sec, s1)"
      and s1: "ok s1" "disk s1 = disk s" "cap s1 = cap s" by blast
    have "slice ?sec 0 ?c = take ?c ?sec" by (simp add: slice_def)
    moreover have "min (512 * i) n + ?c = min (512 * Suc i) n" using True by (auto simp: min_def)
    moreover have "min (512 * i) n = 512 * i" using True by simp
    ultimately have step: "crc_loop rd lba n crc (min (512 * i) n) buf s
        = crc_loop rd lba n (crc32_update crc (take ?c ?sec)) (min (512 * Suc i) n) ?sec s1"
      using True rd1 by (subst crc_loop.simps) (simp add: Let_def)
    have "\<exists>buf' s'. crc_loop rd lba n (crc32_update crc (take ?c ?sec)) (min (512 * Suc i) n) ?sec s1
        = (Some (crc32_update (crc32_update crc (take ?c ?sec)) (drop (512 * Suc i)
             (take n (disk_bytes (disk s1) lba ((n + 511) div 512))))), buf', s')
        \<and> ok s' \<and> disk s' = disk s1 \<and> cap s' = cap s1"
      by (rule less.hyps) (use True s1 less.prems length_disk in auto)
    with step s1 show ?thesis
      unfolding drop_disk_bytes [OF less.prems(2) True] by (simp add: crc32_update_append)
  qed
qed

lemma crc_partition_ok:
  assumes "in_range (cap s) lba n" "ok s" "length buf = 512"
  obtains buf' s' where "crc_partition_bytes rd s lba n buf
      = (Some (array_crc (disk s) lba n), buf', s')"
    "ok s'" "disk s' = disk s" "cap s' = cap s"
  using crc_loop_ok [OF assms, of "0xFFFFFFFF" 0] that
  by (auto simp: crc_partition_bytes_def crc32_def array_crc_def)

text \<open>Saving the settings and loading them again.\<close>

lemma disk_save_load:
  assumes "ok s" "cap s \<noteq> 0" "settings_wf st"
  obtains s1 s2 where "disk_save wr (cap s) s st = (True, s1)"
    "disk_load rd (cap s) s1 t = (True, st, s2)" "disk s2 = (disk s)(cap s - 1 := encode st)" "ok s2"
proof -
  have "0 < unat (cap s)" using assms(2) by (simp add: unat_gt_0)
  moreover from this have "unat (cap s - 1) = unat (cap s) - unat (1 :: u64)"
    by (intro unat_sub) (simp add: word_le_nat_alt)
  ultimately have last: "cap s - 1 < cap s" by (simp add: word_less_nat_alt)
  obtain s1 where w: "wr s (cap s - 1) (encode st) = (True, s1)" by (metis wr_ok [OF assms(1) last] length_encode settings_wf_shape [OF assms(3)])
  from rd_wr [OF assms(1) last _ _ w, of "replicate 512 0"] settings_wf_shape [OF assms(3)]
  obtain s2 where "rd s1 (cap s - 1) (replicate 512 0) = (True, encode st, s2)" "ok s2"
      "disk s2 = (disk s)(cap s - 1 := encode st)"
    by auto
  with w that assms show thesis
    by (simp add: disk_save_def disk_load_def Let_def encode_accepted decode_fields_encode settings_wf_shape)
qed

text \<open>
  The GPT patch on a header that passes the checks, with the array in range and away from the
  header: the entry is written and the array checksum computed before the header size is looked
  at again.
\<close>

lemma try_patch_gpt_upto:
  assumes "ok s" "gpt_patchable (disk s) (cap s) hs lba n" "length ent = 512"
  obtains s' where "try_patch_gpt rd wr s (disk s 1) ent
      = (if 128 < hs then (False, s') else wr s' 1 (patched_header (disk s') hs lba n))"
    "ok s'" "cap s' = cap s" "disk s' = (disk s)(lba := patched_entry (disk s lba))"
proof -
  let ?dsk = "(disk s)(lba := patched_entry (disk s lba))"
  have hdr: "gpt_header (disk s 1) = Some (hs, lba, n)" and c1: "1 < cap s" and "2 \<le> lba"
    and ir: "in_range (cap s) lba n"
    and used: "\<not> list_all (\<lambda>b. b = 0) (slice (disk s lba) 0 16)"
    and attr: "entry_attrs (disk s lba) OR GPT_ATTR_BOOT_MASK \<noteq> entry_attrs (disk s lba)"
    using assms(2) by (simp_all add: gpt_patchable_def in_range_def)
  have lba: "lba < cap s" "lba \<noteq> 1"
    using in_range_less [OF ir, of 0] gpt_header_size [OF hdr] \<open>2 \<le> lba\<close> by (auto simp: word_le_nat_alt)
  obtain s1 where r1: "rd s lba ent = (True, disk s lba, s1)" and s1: "ok s1" "disk s1 = disk s" "cap s1 = cap s"
    using rd_ok [OF assms(1) lba(1) assms(3)] by blast
  have e: "read_u64_le (disk s lba) 48 = Some (entry_attrs (disk s lba))"
      "write_u64_le (disk s lba) 48 (entry_attrs (disk s lba) OR GPT_ATTR_BOOT_MASK) = patched_entry (disk s lba)"
      "length (patched_entry (disk s lba)) = 512"
    using length_disk [OF assms(1), of lba]
    by (simp_all add: read_u64_le_def write_u64_le_def patched_entry_def entry_attrs_def)
  obtain s2 where w2: "wr s1 lba (patched_entry (disk s lba)) = (True, s2)"
      and s2: "ok s2" "disk s2 = ?dsk" "cap s2 = cap s"
    using wr_ok [OF s1(1) _ e(3), of lba] lba s1 by auto
  have "in_range (cap s2) lba n" using ir s2(3) by simp
  from crc_partition_ok [OF this s2(1) e(3)] obtain buf s3
    where c3: "crc_partition_bytes rd s2 lba n (patched_entry (disk s lba)) = (Some (array_crc ?dsk lba n), buf, s3)"
      and s3: "ok s3" "disk s3 = ?dsk" "cap s3 = cap s"
    unfolding s2(2,3) by blast
  have d1: "?dsk 1 = disk s 1" using lba(2) by simp
  note len1 = length_disk [OF assms(1), of 1]
  obtain s4 where r4: "rd s3 1 (disk s 1) = (True, disk s 1, s4)" and s4: "ok s4" "disk s4 = ?dsk" "cap s4 = cap s"
    using rd_ok [OF s3(1) _ len1, of 1] s3 d1 c1 by auto
  have h: "write_u32_le (write_u32_le (write_u32_le (disk s 1) 0x58 (array_crc ?dsk lba n)) 0x10 0) 0x10
      (gpt_header_crc (write_u32_le (write_u32_le (disk s 1) 0x58 (array_crc ?dsk lba n)) 0x10 0) hs)
      = patched_header (disk s4) hs lba n"
    using len1 d1 by (simp add: write_u32_le_def patched_header_def s4(2) Let_def)
  have "try_patch_gpt rd wr s (disk s 1) ent
      = (if 128 < hs then (False, s4) else wr s4 1 (patched_header (disk s4) hs lba n))"
    using hdr used attr r1 e w2 c3 r4 h by (simp add: try_patch_gpt_def Let_def)
  with s4 that show thesis by blast
qed

text \<open>The whole patch, from the first read of the header.\<close>

lemma patch_gpt_upto:
  assumes "ok s" "gpt_patchable (disk s) (cap s) hs lba n"
  obtains s' where "patch_install_target_boot rd wr 512 s
      = (if 128 < hs then (False, s') else wr s' 1 (patched_header (disk s') hs lba n))"
    "ok s'" "cap s' = cap s" "disk s' = (disk s)(lba := patched_entry (disk s lba))"
proof -
  have hdr: "gpt_header (disk s 1) = Some (hs, lba, n)" "1 < cap s"
    using assms(2) by (simp_all add: gpt_patchable_def)
  obtain s1 where r1: "rd s 1 (replicate 512 0) = (True, disk s 1, s1)"
      and s1: "ok s1" "disk s1 = disk s" "cap s1 = cap s"
    using rd_ok [OF assms(1) hdr(2), of "replicate 512 0"] by auto
  from assms(2) s1 have "gpt_patchable (disk s1) (cap s1) hs lba n" by simp
  from try_patch_gpt_upto [OF s1(1) this, of "replicate 512 0"] obtain s'
    where "try_patch_gpt rd wr s1 (disk s 1) (replicate 512 0)
        = (if 128 < hs then (False, s') else wr s' 1 (patched_header (disk s') hs lba n))"
      "ok s'" "cap s' = cap s" "disk s' = (disk s)(lba := patched_entry (disk s lba))"
    unfolding s1(2,3) by auto
  with r1 gpt_header_size [OF hdr(1)] that show thesis
    by (simp add: patch_install_target_boot_def Let_def)
qed

text \<open>What the clients can change at all, whatever is on the disk and whichever call fails.\<close>

lemma rd_frame:
  assumes "ok s" "length out = 512" "rd s sec out = (g, out', s')"
  shows "ok s' \<and> disk s' = disk s \<and> cap s' = cap s \<and> length out' = 512"
  using assms by (cases rule: rd_cases [OF assms(1,2), of sec]) (auto simp: length_disk)

lemma wr_frame:
  assumes "ok s" "length data = 512" "wr s sec data = (g, s')"
  shows "ok s' \<and> cap s' = cap s \<and> (\<forall>i. disk s' i \<noteq> disk s i \<longrightarrow> i = sec)"
  using assms by (cases rule: wr_cases [OF assms(1,2), of sec]) auto

lemma crc_loop_frame:
  "crc_loop rd lba n crc pos buf s = (r, buf', s') \<Longrightarrow> ok s \<Longrightarrow> length buf = 512 \<Longrightarrow>
    ok s' \<and> disk s' = disk s \<and> cap s' = cap s \<and> length buf' = 512"
proof (induction "n - pos" arbitrary: crc pos buf s r buf' s' rule: less_induct)
  case less
  show ?case
  proof (cases "pos < n")
    case False
    with less.prems show ?thesis by (subst (asm) crc_loop.simps) simp
  next
    case True
    obtain g b1 s1 where r1: "rd s (lba + of_nat (pos div 512)) buf = (g, b1, s1)" by (metis prod_cases3)
    note f1 = rd_frame [OF less.prems(2,3) r1]
    let ?c = "min (512 - pos mod 512) (n - pos)"
    have "0 < ?c" using True by simp
    with True have smaller: "n - (pos + ?c) < n - pos" by linarith
    from less.prems(1) r1 True f1 less.hyps [OF smaller] show ?thesis
      by (subst (asm) crc_loop.simps) (auto simp: Let_def split: if_splits)
  qed
qed

lemma try_patch_gpt_frame:
  assumes "ok s" "length hdr = 512" "length ent = 512" "try_patch_gpt rd wr s hdr ent = (r, s')"
  shows "ok s' \<and> cap s' = cap s \<and> (\<forall>i. disk s' i \<noteq> disk s i \<longrightarrow> i = 1 \<or> (\<exists>hs n. gpt_header hdr = Some (hs, i, n)))"
proof (cases "gpt_header hdr")
  case None
  then show ?thesis using assms by (simp add: try_patch_gpt_def)
next
  case (Some h)
  obtain hs lba n where h: "h = (hs, lba, n)" by (cases h) auto
  obtain g1 e1 s1 where r1: "rd s lba ent = (g1, e1, s1)" by (metis prod_cases3)
  note f1 = rd_frame [OF assms(1,3) r1]
  let ?cur = "case read_u64_le e1 48 of Some v \<Rightarrow> v | None \<Rightarrow> 0"
  let ?e = "write_u64_le e1 48 (?cur OR GPT_ATTR_BOOT_MASK)"
  obtain g2 s2 where w2: "wr s1 lba ?e = (g2, s2)" by fastforce
  have f2: "ok s2 \<and> cap s2 = cap s \<and> (\<forall>i. disk s2 i \<noteq> disk s i \<longrightarrow> i = lba)"
    using wr_frame [OF _ _ w2] f1 by simp
  obtain c3 e3 s3 where c3: "crc_partition_bytes rd s2 lba n ?e = (c3, e3, s3)" by (metis prod_cases3)
  obtain cr er sr where cr: "crc_loop rd lba n 0xFFFFFFFF 0 ?e s2 = (cr, er, sr)" by (metis prod_cases3)
  have "length ?e = 512" using f1 by simp
  with crc_loop_frame [OF cr] f2 have "ok sr \<and> disk sr = disk s2 \<and> cap sr = cap s" by simp
  moreover have "s3 = sr" using c3 unfolding crc_partition_bytes_def cr by simp
  ultimately have f3: "ok s3 \<and> cap s3 = cap s \<and> disk s3 = disk s2" by simp
  obtain g4 h4 s4 where r4: "rd s3 1 hdr = (g4, h4, s4)" by (metis prod_cases3)
  have f4: "ok s4 \<and> disk s4 = disk s2 \<and> cap s4 = cap s \<and> length h4 = 512"
    using rd_frame [OF _ assms(2) r4] f3 by simp
  let ?h = "write_u32_le (write_u32_le h4 0x58 (the c3)) 0x10 0"
  obtain g5 s5 where w5: "wr s4 1 (write_u32_le ?h 0x10 (gpt_header_crc ?h hs)) = (g5, s5)" by fastforce
  have f5: "ok s5 \<and> cap s5 = cap s \<and> (\<forall>i. disk s5 i \<noteq> disk s2 i \<longrightarrow> i = 1)"
    using wr_frame [OF _ _ w5] f4 by simp
  have "s' \<in> {s1, s2, s3, s4, s5}"
    using assms(4) Some h r1 w2 c3 r4 w5
    by (auto simp: try_patch_gpt_def Let_def split: if_splits option.splits)
  moreover have "\<forall>i. disk s5 i \<noteq> disk s i \<longrightarrow> i = 1 \<or> i = lba" using f2 f5 by metis
  ultimately show ?thesis using f1 f2 f3 f4 f5 Some h by auto
qed

lemma try_patch_mbr_frame:
  assumes "ok s" "length buf = 512" "try_patch_mbr rd wr s buf = (r, s')"
  shows "ok s' \<and> cap s' = cap s \<and> (\<forall>i. disk s' i \<noteq> disk s i \<longrightarrow> i = 0)"
proof -
  obtain g b1 s1 where r1: "rd s 0 buf = (g, b1, s1)" by (metis prod_cases3)
  note f1 = rd_frame [OF assms(1,2) r1]
  let ?b = "(fold (\<lambda>i buf. buf[0x1BE + i * 16 := 0]) [0..<4] b1)[0x1BE := 0x80]"
  obtain g2 s2 where w2: "wr s1 0 ?b = (g2, s2)" by fastforce
  have "length ?b = 512" using f1 by (simp add: upt_rec)
  from wr_frame [OF _ this w2] f1
  have f2: "ok s2 \<and> cap s2 = cap s \<and> (\<forall>i. disk s2 i \<noteq> disk s i \<longrightarrow> i = 0)" by simp
  have "s' \<in> {s1, s2}"
    using assms(3) r1 w2 by (auto simp: try_patch_mbr_def Let_def split: if_splits)
  then show ?thesis using f1 f2 by auto
qed

lemma patch_frame:
  assumes "ok s" "patch_install_target_boot rd wr ss s = (r, s')"
  shows "ok s' \<and> cap s' = cap s \<and> (\<forall>i. disk s' i \<noteq> disk s i \<longrightarrow>
    (if slice (disk s 1) 0 8 = SIG_EFI_PART then i = 1 \<or> (\<exists>hs n. gpt_header (disk s 1) = Some (hs, i, n)) else i = 0))"
proof -
  obtain g h1 s1 where r1: "rd s 1 (replicate 512 0) = (g, h1, s1)" by (metis prod_cases3)
  have f1: "ok s1 \<and> disk s1 = disk s \<and> cap s1 = cap s \<and> length h1 = 512"
    using rd_frame [OF assms(1) _ r1] by simp
  have h1: "g \<Longrightarrow> h1 = disk s 1"
    using r1 by (cases rule: rd_cases [OF assms(1), of "replicate 512 0" 1]) auto
  show ?thesis
    using assms r1 f1 h1 try_patch_gpt_frame [of s1 "disk s 1" "replicate 512 0" r s']
      try_patch_mbr_frame [of s1 "disk s 1" r s']
    by (auto simp: patch_install_target_boot_def Let_def split: if_splits)
qed

end
section \<open>Checksums of the patched disk\<close>

text \<open>Both GPT checksums, as a reader of the disk verifies them.\<close>

definition gpt_crc_ok :: "(u64 \<Rightarrow> bytes) \<Rightarrow> nat \<Rightarrow> u64 \<Rightarrow> nat \<Rightarrow> bool" where
  "gpt_crc_ok dsk hs lba n \<longleftrightarrow>
     read_u32_le (dsk 1) 0x58 = Some (array_crc dsk lba n)
     \<and> read_u32_le (dsk 1) 0x10 = Some (crc32 (put_at (take hs (dsk 1)) 0x10 [0, 0, 0, 0]))"

lemma gpt_header_crc_eq:
  assumes "length h = 512" "92 \<le> hs" "hs \<le> 128" "length x = 4"
  shows "gpt_header_crc h hs = crc32 (put_at (take hs (put_at h 0x10 x)) 0x10 [0, 0, 0, 0])"
proof -
  obtain k where hs: "hs = 20 + k" using assms(2) le_Suc_ex [of 20 hs] by auto
  have four: "take (4 + k) (a # b # c # d # ys) = a # b # c # d # take k ys" for a b c d :: u8 and ys
    by (simp add: numeral_eq_Suc)
  have "take hs (put_at (put_at (replicate 128 0) 0 (take hs h)) 0x10 [0, 0, 0, 0])
      = put_at (take hs (put_at h 0x10 x)) 0x10 [0, 0, 0, 0]"
    using assms by (auto simp: hs put_at_def drop_take four)
  then show ?thesis by (simp add: gpt_header_crc_def crc32_def)
qed

lemma disk_bytes_other:
  assumes "in_range c lba n" "2 \<le> lba"
  shows "disk_bytes (dsk(1 := x)) lba ((n + 511) div 512) = disk_bytes dsk lba ((n + 511) div 512)"
proof -
  have "lba + of_nat i \<noteq> 1" if "i < (n + 511) div 512" for i
  proof -
    have "512 * i < n" using that by linarith
    from in_range_less(2) [OF assms(1) this] have "unat (lba + of_nat i) = unat lba + i" .
    moreover have "2 \<le> unat lba" using assms(2) by (simp add: word_le_nat_alt)
    ultimately have "unat (lba + of_nat i) \<noteq> unat (1 :: u64)" by simp
    then show ?thesis by metis
  qed
  then show ?thesis by (auto simp: disk_bytes_def intro!: arg_cong [of _ _ concat] map_cong)
qed

lemma array_crc_other: "in_range c lba n \<Longrightarrow> 2 \<le> lba \<Longrightarrow> array_crc (dsk(1 := x)) lba n = array_crc dsk lba n"
  by (simp only: array_crc_def disk_bytes_other)

lemma length_patched_header [simp]: "length (dsk 1) = 512 \<Longrightarrow> length (patched_header dsk hs lba n) = 512"
  by (simp add: patched_header_def Let_def)

lemma patched_header_crc_ok:
  assumes "length (dsk 1) = 512" "92 \<le> hs" "hs \<le> 128" "in_range c lba n" "2 \<le> lba"
  shows "gpt_crc_ok (dsk(1 := patched_header dsk hs lba n)) hs lba n"
proof -
  let ?h = "put_at (put_at (dsk 1) 0x58 (to_le32 (array_crc dsk lba n))) 0x10 (to_le32 0)"
  let ?hc = "gpt_header_crc ?h hs"
  have len: "length ?h = 512" using assms(1) by simp
  from gpt_header_crc_eq [OF this assms(2,3), of "to_le32 ?hc"]
  have hc: "?hc = crc32 (put_at (take hs (put_at ?h 0x10 (to_le32 ?hc))) 0x10 [0, 0, 0, 0])" by simp
  have "read_u32_le (put_at ?h 0x10 (to_le32 ?hc)) 0x10 = Some ?hc"
    "read_u32_le (put_at ?h 0x10 (to_le32 ?hc)) 0x58 = Some (array_crc dsk lba n)"
    using assms(1) len by (simp_all add: read_u32_le_def read_le32_put_at_other)
  then show ?thesis
    unfolding gpt_crc_ok_def array_crc_other [OF assms(4,5)] fun_upd_same patched_header_def Let_def
    using hc by simp
qed

section \<open>Properties\<close>

text \<open>
  Settings survive on disk: with a conforming VirtIO device of non-zero capacity, \<open>save\<close> of
  well-formed settings succeeds and a following \<open>load\<close> over any other settings returns exactly the
  saved ones; of all sectors only the last one has changed.
\<close>

theorem settings_disk_roundtrip:
  assumes "virtio_device hw sectors" "blk_wf b" "capacity b \<noteq> 0" "settings_wf st"
  shows "\<exists>s1 s2. disk_save (write_sector hw) (capacity b) (b, d) st = (True, s1)
    \<and> disk_load (read_sector hw) (capacity b) s1 t = (True, st, s2)
    \<and> sectors (snd s2) = (sectors d)(capacity b - 1 := encode st)"
  by (rule block_device.disk_save_load [OF virtio_block_device [OF assms(1)], of "(b, d)" st t])
    (use assms in auto)

theorem settings_disk_roundtrip_witness:
  "\<exists>s1 s2. disk_save (write_sector ref_hw) (capacity ref_blk) (ref_blk, \<lambda>_. []) device_settings_new = (True, s1)
    \<and> disk_load (read_sector ref_hw) (capacity ref_blk) s1 (device_settings_new\<lparr>nic := Off\<rparr>)
        = (True, device_settings_new, s2)
    \<and> ref_sectors (snd s2) = (ref_sectors (\<lambda>_. []))(capacity ref_blk - 1 := encode device_settings_new)"
  by (rule settings_disk_roundtrip [OF ref_dev.virtio_device_axioms ref_blk_wf(1) _ settings_wf_new])
    (simp add: ref_blk_wf)


text \<open>A small GPT disk: a 92 byte header at sector 1 and one entry of 128 bytes at sector 2.\<close>

definition ref_gpt :: "u64 \<Rightarrow> bytes" where
  "ref_gpt i =
     (if i = 1 then put_fields [(0, SIG_EFI_PART), (0x0C, to_le32 92), (0x18, to_le64 1), (0x48, to_le64 2),
          (0x50, to_le32 1), (0x54, to_le32 128)] (replicate 512 0)
      else if i = 2 then (replicate 512 0)[0 := 1] else [])"

lemma ref_gpt_header: "gpt_header (ref_sectors ref_gpt 1) = Some (92, 2, 128)"
  by code_simp

lemma ref_gpt_patchable: "gpt_patchable (ref_sectors ref_gpt) 4 92 2 128"
  by (simp add: gpt_patchable_def ref_gpt_header) code_simp



text \<open>The same disk with a header size of 200.\<close>

definition ref_gpt_large :: "u64 \<Rightarrow> bytes" where
  "ref_gpt_large i = (if i = 1 then put_at (ref_gpt 1) 0x0C (to_le32 200) else ref_gpt i)"

lemma ref_gpt_large_patchable: "gpt_patchable (ref_sectors ref_gpt_large) 4 200 2 128"
  unfolding gpt_patchable_def by code_simp


end
