(* ===== verification/Eve_Install.thy ===== *)
theory Eve_Install
  imports Eve_Gpt
begin

text \<open>
  The disk install state machine of the main loop (\<open>main.rs\<close>, the block guarded by
  \<open>disk_pair_ready\<close>): a start request checks the disks, then every pass of the loop copies up to 32
  sectors from the first VirtIO disk to the second and, when all are copied, sets the boot flags.
  The two disks are given by their sector operations, capacity and sector size. The lemmas are
  proved for any two block devices; the properties are about two VirtIO disks.
\<close>

section \<open>State and operations\<close>

record install_state =
  install_phase :: disk_install_phase
  install_cur :: u64
  install_total :: u64
  install_err :: bytes
  install_err_len :: usize
  install_start_request :: bool
  install_content_dirty :: bool

definition install_fail :: "bytes \<Rightarrow> install_state \<Rightarrow> install_state" where
  "install_fail msg st =
     (let n = min (length msg) (length (install_err st))
      in st\<lparr> install_err := put_at (install_err st) 0 (take n msg), install_err_len := n,
             install_phase := Failed \<rparr>)"

definition install_start :: "u32 \<Rightarrow> u64 \<Rightarrow> u32 \<Rightarrow> u64 \<Rightarrow> install_state \<Rightarrow> install_state" where
  "install_start src_ss src_cap dst_ss dst_cap st =
     (if \<not> install_start_request st then st
      else let st = st\<lparr> install_start_request := False \<rparr>
           in if install_phase st \<noteq> Idle then st
              else let st = (if src_ss \<noteq> 512 \<or> dst_ss \<noteq> 512 then install_fail (ascii ''NEED 512 BYTE SECTORS'') st
                     else let t = min src_cap dst_cap
                          in if t = 0 then install_fail (ascii ''ZERO CAPACITY'') st
                             else st\<lparr> install_phase := Running, install_cur := 0, install_total := t \<rparr>)
                   in st\<lparr> install_content_dirty := True \<rparr>)"

text \<open>The copy loop of one pass; the flag of the result is \<open>io_fail\<close>.\<close>

fun install_loop ::
  "'s rd_fn \<Rightarrow> 't rd_fn \<Rightarrow> 't wr_fn \<Rightarrow> ('t \<Rightarrow> u32) \<Rightarrow> nat \<Rightarrow> install_state \<Rightarrow> 's \<Rightarrow> 't \<Rightarrow> bytes
    \<Rightarrow> install_state \<times> 's \<times> 't \<times> bytes \<times> bool" where
  "install_loop src_rd dst_rd dst_wr dst_ss 0 st s d sb = (st, s, d, sb, False)"
| "install_loop src_rd dst_rd dst_wr dst_ss (Suc n) st s d sb =
     (if install_total st \<le> install_cur st then
        let (_, d) = patch_install_target_boot dst_rd dst_wr (dst_ss d) d
        in (st\<lparr> install_phase := Done \<rparr>, s, d, sb, False)
      else let (good, sb, s) = src_rd s (install_cur st) sb
           in if \<not> good then (st, s, d, sb, True)
              else let (good, d) = dst_wr d (install_cur st) sb
                   in if \<not> good then (st, s, d, sb, True)
                      else install_loop src_rd dst_rd dst_wr dst_ss n
                             (st\<lparr> install_cur := install_cur st + 1 \<rparr>) s d sb)"

definition install_tick ::
  "'s rd_fn \<Rightarrow> ('s \<Rightarrow> u32) \<Rightarrow> ('s \<Rightarrow> u64) \<Rightarrow> 't rd_fn \<Rightarrow> 't wr_fn \<Rightarrow> ('t \<Rightarrow> u32) \<Rightarrow> ('t \<Rightarrow> u64)
    \<Rightarrow> install_state \<times> 's \<times> 't \<times> bytes \<Rightarrow> install_state \<times> 's \<times> 't \<times> bytes" where
  "install_tick src_rd src_ss src_cap dst_rd dst_wr dst_ss dst_cap = (\<lambda>(st, s, d, sb).
     let st = install_start (src_ss s) (src_cap s) (dst_ss d) (dst_cap d) st
     in if install_phase st \<noteq> Running then (st, s, d, sb)
        else let (st, s, d, sb, io_fail) = install_loop src_rd dst_rd dst_wr dst_ss 32 st s d sb;
                 st = (if io_fail then install_fail (ascii ''DISK READ OR WRITE FAILED'') st else st)
             in (st\<lparr> install_content_dirty := True \<rparr>, s, d, sb))"

section \<open>Two block devices\<close>

text \<open>The destination while the first \<open>k\<close> sectors have been copied.\<close>

definition cloned :: "(u64 \<Rightarrow> bytes) \<Rightarrow> (u64 \<Rightarrow> bytes) \<Rightarrow> nat \<Rightarrow> u64 \<Rightarrow> bytes" where
  "cloned S D k i = (if unat i < k then S i else D i)"

lemma cloned_0 [simp]: "cloned S D 0 = D"
  by (simp add: cloned_def fun_eq_iff)

lemma cloned_Suc: "(cloned S D (unat c))(c := S c) = cloned S D (Suc (unat c))"
  by (auto simp: cloned_def fun_eq_iff less_Suc_eq word_unat_eq_iff [symmetric])

text \<open>The boot flag patch changes the header and first entry sector of a GPT disk, else sector 0.\<close>

definition boot_sector :: "(u64 \<Rightarrow> bytes) \<Rightarrow> u64 \<Rightarrow> bool" where
  "boot_sector dsk i \<longleftrightarrow> (if slice (dsk 1) 0 8 = SIG_EFI_PART
     then i = 1 \<or> (\<exists>hs n. gpt_header (dsk 1) = Some (hs, i, n)) else i = 0)"

text \<open>The end of an installation of \<open>t\<close> sectors of the source \<open>S\<close> over the destination \<open>D\<close>.\<close>

definition installed ::
  "(u64 \<Rightarrow> bytes) \<Rightarrow> (u64 \<Rightarrow> bytes) \<Rightarrow> u64 \<Rightarrow> install_state \<Rightarrow> (u64 \<Rightarrow> bytes) \<Rightarrow> (u64 \<Rightarrow> bytes) \<Rightarrow> bool" where
  "installed S D t st src dst \<longleftrightarrow> install_phase st = Done \<and> src = S
     \<and> (\<forall>i. dst i \<noteq> cloned S D (unat t) i \<longrightarrow> boot_sector (cloned S D (unat t)) i)"

locale disk_pair =
  src: block_device rd_s wr_s ok_s disk_s cap_s + dst: block_device rd_d wr_d ok_d disk_d cap_d
  for rd_s :: "'s rd_fn" and wr_s and ok_s and disk_s and cap_s
    and rd_d :: "'t rd_fn" and wr_d and ok_d and disk_d and cap_d +
  fixes ss_s :: "'s \<Rightarrow> u32" and ss_d :: "'t \<Rightarrow> u32"
  assumes ss_512: "ok_s s \<Longrightarrow> ss_s s = 512" "ok_d d \<Longrightarrow> ss_d d = 512"
begin

text \<open>A copy in progress: \<open>S\<close> is the source, \<open>D\<close> the destination before the copy.\<close>

definition copying :: "(u64 \<Rightarrow> bytes) \<Rightarrow> (u64 \<Rightarrow> bytes) \<Rightarrow> install_state \<Rightarrow> 's \<Rightarrow> 't \<Rightarrow> bytes \<Rightarrow> bool" where
  "copying S D st s d sb \<longleftrightarrow> ok_s s \<and> ok_d d \<and> disk_s s = S \<and> length sb = 512
     \<and> install_phase st = Running \<and> install_cur st \<le> install_total st
     \<and> install_total st \<le> cap_s s \<and> install_total st \<le> cap_d d
     \<and> disk_d d = cloned S D (unat (install_cur st))"

lemma install_step:
  assumes "copying S D st s d sb" "install_cur st < install_total st"
  obtains s1 d1 where "rd_s s (install_cur st) sb = (True, S (install_cur st), s1)"
    "wr_d d (install_cur st) (S (install_cur st)) = (True, d1)"
    "copying S D (st\<lparr> install_cur := install_cur st + 1 \<rparr>) s1 d1 (S (install_cur st))"
    "unat (install_cur st + 1) = Suc (unat (install_cur st))"
proof -
  let ?c = "install_cur st"
  have ok: "ok_s s" "ok_d d" "disk_s s = S" "length sb = 512" "?c < cap_s s" "?c < cap_d d"
      "disk_d d = cloned S D (unat ?c)"
    using assms by (auto simp: copying_def)
  obtain s1 where r: "rd_s s ?c sb = (True, S ?c, s1)" "ok_s s1" "disk_s s1 = S" "cap_s s1 = cap_s s"
    using src.rd_ok [OF ok(1,5,4)] ok(3) by auto
  have len: "length (S ?c) = 512" using src.length_disk [OF ok(1), of ?c] ok(3) by simp
  obtain d1 where w: "wr_d d ?c (S ?c) = (True, d1)" "ok_d d1" "cap_d d1 = cap_d d"
      "disk_d d1 = (cloned S D (unat ?c))(?c := S ?c)"
    using dst.wr_ok [OF ok(2,6) len] ok(7) by auto
  have "unat ?c < unat (install_total st)" using assms(2) by (simp add: word_less_nat_alt)
  moreover have "unat (install_total st) < 2 ^ LENGTH(64)" by (rule unsigned_less)
  ultimately have u: "unat (?c + 1) = Suc (unat ?c)" by (simp add: unat_word_ariths)
  have "?c + 1 \<le> install_total st" using assms(2) u by (simp add: word_le_nat_alt word_less_nat_alt)
  then have "copying S D (st\<lparr> install_cur := ?c + 1 \<rparr>) s1 d1 (S ?c)"
    using assms r w len u by (simp add: copying_def cloned_Suc)
  with r w u that show thesis by blast
qed

lemma install_finish:
  assumes "copying S D st s d sb" "\<not> install_cur st < install_total st"
    "patch_install_target_boot rd_d wr_d (ss_d d) d = (r, d')"
  shows "installed S D (install_total st) (st\<lparr> install_phase := Done \<rparr>) (disk_s s) (disk_d d')"
proof -
  have "install_cur st = install_total st" using assms by (simp add: copying_def)
  with assms(1) have d: "disk_d d = cloned S D (unat (install_total st))" "ok_d d" "disk_s s = S"
    by (simp_all add: copying_def)
  from dst.patch_frame [OF d(2) assms(3)] show ?thesis
    unfolding installed_def boot_sector_def d(1,3) by simp
qed

lemma install_loop_ok:
  assumes "copying S D st s d sb" "install_loop rd_s rd_d wr_d ss_d n st s d sb = (st', s', d', sb', fail)"
  shows "\<not> fail \<and> install_start_request st' = install_start_request st \<and> install_total st' = install_total st
    \<and> (if unat (install_total st) - unat (install_cur st) < n
       then installed S D (install_total st) st' (disk_s s') (disk_d d')
       else copying S D st' s' d' sb' \<and> unat (install_cur st') = unat (install_cur st) + n)"
  using assms
proof (induction n arbitrary: st s d sb)
  case 0
  then show ?case by simp
next
  case (Suc n)
  show ?case
  proof (cases "install_cur st < install_total st")
    case True
    then obtain s1 d1 where step: "rd_s s (install_cur st) sb = (True, S (install_cur st), s1)"
      "wr_d d (install_cur st) (S (install_cur st)) = (True, d1)"
      "copying S D (st\<lparr> install_cur := install_cur st + 1 \<rparr>) s1 d1 (S (install_cur st))"
      "unat (install_cur st + 1) = Suc (unat (install_cur st))"
      by (rule install_step [OF Suc.prems(1)])
    have loop: "install_loop rd_s rd_d wr_d ss_d n (st\<lparr> install_cur := install_cur st + 1 \<rparr>) s1 d1
        (S (install_cur st)) = (st', s', d', sb', fail)"
      using Suc.prems(2) step(1,2) linorder_not_le [THEN iffD2, OF True] by simp
    have "unat (install_cur st) < unat (install_total st)" using True by (simp add: word_less_nat_alt)
    then have "unat (install_total st) - Suc (unat (install_cur st)) < n
        \<longleftrightarrow> unat (install_total st) - unat (install_cur st) < Suc n"
      by linarith
    with Suc.IH [OF step(3) loop] step(4) show ?thesis by (auto split: if_splits)
  next
    case False
    obtain r dp where p: "patch_install_target_boot rd_d wr_d (ss_d d) d = (r, dp)" by fastforce
    have "unat (install_total st) - unat (install_cur st) = 0"
      using False by (simp add: word_less_nat_alt)
    with install_finish [OF Suc.prems(1) False p] Suc.prems(2) linorder_not_less [THEN iffD1, OF False] p
    show ?thesis by auto
  qed
qed

text \<open>One pass of the main loop during a copy.\<close>

lemma install_tick_ok:
  assumes "copying S D st s d sb" "\<not> install_start_request st"
    "install_tick rd_s ss_s cap_s rd_d wr_d ss_d cap_d (st, s, d, sb) = (st', s', d', sb')"
  shows "\<not> install_start_request st' \<and> install_total st' = install_total st
    \<and> (if unat (install_total st) - unat (install_cur st) < 32
       then installed S D (install_total st) st' (disk_s s') (disk_d d')
       else copying S D st' s' d' sb' \<and> unat (install_cur st') = unat (install_cur st) + 32)"
proof -
  obtain st1 s1 d1 sb1 fail where loop: "install_loop rd_s rd_d wr_d ss_d 32 st s d sb = (st1, s1, d1, sb1, fail)"
    by (metis prod_cases5)
  have run: "install_phase st = Running" using assms(1) by (simp add: copying_def)
  note res = install_loop_ok [OF assms(1) loop]
  with assms run loop have "st' = st1\<lparr> install_content_dirty := True \<rparr>" "s' = s1" "d' = d1" "sb' = sb1"
    by (simp_all add: install_tick_def install_start_def)
  with res assms(2) show ?thesis by (auto simp: installed_def copying_def)
qed

text \<open>Enough passes finish the installation.\<close>

lemma install_ticks_finish:
  assumes "copying S D st s d sb" "\<not> install_start_request st"
    "k = (unat (install_total st) - unat (install_cur st)) div 32 + 1"
    "((install_tick rd_s ss_s cap_s rd_d wr_d ss_d cap_d) ^^ k) (st, s, d, sb) = (st', s', d', sb')"
  shows "installed S D (install_total st) st' (disk_s s') (disk_d d')"
  using assms
proof (induction "unat (install_total st) - unat (install_cur st)" arbitrary: k st s d sb rule: less_induct)
  case less
  let ?tick = "install_tick rd_s ss_s cap_s rd_d wr_d ss_d cap_d"
  let ?m = "unat (install_total st) - unat (install_cur st)"
  obtain st1 s1 d1 sb1 where t: "?tick (st, s, d, sb) = (st1, s1, d1, sb1)" by (metis prod_cases4)
  note one = install_tick_ok [OF less.prems(1,2) t]
  show ?case
  proof (cases "?m < 32")
    case True
    with less.prems(3,4) t one show ?thesis by simp
  next
    case False
    with one have c: "copying S D st1 s1 d1 sb1" "unat (install_cur st1) = unat (install_cur st) + 32"
        "\<not> install_start_request st1" "install_total st1 = install_total st" by auto
    have "k = Suc ((?m - 32) div 32 + 1)" using False less.prems(3) by (simp add: le_div_geq)
    with less.prems(4) t have rest: "(?tick ^^ ((?m - 32) div 32 + 1)) (st1, s1, d1, sb1) = (st', s', d', sb')"
      by (simp del: funpow.simps add: funpow_Suc_right)
    have "installed S D (install_total st1) st' (disk_s s') (disk_d d')"
      by (rule less.hyps [OF _ c(1,3) _ rest]) (use False c in auto)
    with c(4) show ?thesis by simp
  qed
qed

end

section \<open>Two VirtIO disks\<close>

lemma virtio_disk_pair:
  assumes "virtio_device hw1 sec1" "virtio_device hw2 sec2"
  shows "disk_pair (read_sector hw1) (write_sector hw1) (\<lambda>s. blk_wf (fst s)) (\<lambda>s. sec1 (snd s)) (\<lambda>s. capacity (fst s))
    (read_sector hw2) (write_sector hw2) (\<lambda>s. blk_wf (fst s)) (\<lambda>s. sec2 (snd s)) (\<lambda>s. capacity (fst s))
    (\<lambda>s. sector_size (fst s)) (\<lambda>s. sector_size (fst s))"
  by (rule disk_pair.intro [OF virtio_block_device [OF assms(1)] virtio_block_device [OF assms(2)]])
    (unfold_locales, simp_all add: blk_wf_def)

interpretation ref_pair: disk_pair "read_sector ref_hw" "write_sector ref_hw" "\<lambda>s. blk_wf (fst s)"
  "\<lambda>s. ref_sectors (snd s)" "\<lambda>s. capacity (fst s)" "read_sector ref_hw" "write_sector ref_hw" "\<lambda>s. blk_wf (fst s)"
  "\<lambda>s. ref_sectors (snd s)" "\<lambda>s. capacity (fst s)" "\<lambda>s. sector_size (fst s)" "\<lambda>s. sector_size (fst s)"
  by (rule virtio_disk_pair [OF ref_dev.virtio_device_axioms ref_dev.virtio_device_axioms])

text \<open>The pass of the main loop on two VirtIO disks.\<close>

definition virtio_install_tick ::
  "'d blk_hw \<Rightarrow> 'e blk_hw \<Rightarrow> install_state \<times> (virtio_blk \<times> 'd) \<times> (virtio_blk \<times> 'e) \<times> bytes
    \<Rightarrow> install_state \<times> (virtio_blk \<times> 'd) \<times> (virtio_blk \<times> 'e) \<times> bytes" where
  "virtio_install_tick hw1 hw2 = install_tick (read_sector hw1) (\<lambda>s. sector_size (fst s)) (\<lambda>s. capacity (fst s))
     (read_sector hw2) (write_sector hw2) (\<lambda>s. sector_size (fst s)) (\<lambda>s. capacity (fst s))"


text \<open>An idle installer with a pending start request.\<close>

definition ref_install :: install_state where
  "ref_install = \<lparr> install_phase = Idle, install_cur = 0, install_total = 0, install_err = replicate 56 0,
     install_err_len = 0, install_start_request = True, install_content_dirty = False \<rparr>"


end
