(* ===== verification/Eve_Log.thy ===== *)
theory Eve_Log
  imports Eve_Prelude
begin

text \<open>
  The diagnostic log: the ring of recent lines (\<open>log_buffer.rs\<close>) and the functions that format a
  line for it and for the serial port (\<open>diag_log.rs\<close>). The statics are the fields of one record;
  \<open>serial_out\<close> is the sequence of bytes handed to \<open>serial::put_byte\<close> (whether the UART accepts a
  byte is hardware). The ring refines the list of the last 512 lines; the locale \<open>line_log\<close> is
  that contract, and the formatting functions are proved against it.
\<close>

section \<open>The ring of lines\<close>

abbreviation (input) "LOG_CAP \<equiv> 512 :: nat"
abbreviation (input) "LOG_LINE \<equiv> 120 :: nat"

record log_state =
  LINES :: "bytes list"
  LENS :: bytes
  BEGIN :: usize
  LEN :: usize
  DIRTY :: bool
  serial_out :: bytes

definition log_init :: log_state where
  "log_init = \<lparr> LINES = replicate LOG_CAP (replicate LOG_LINE 0), LENS = replicate LOG_CAP 0,
     BEGIN = 0, LEN = 0, DIRTY = False, serial_out = [] \<rparr>"

definition blank_control :: "u8 \<Rightarrow> u8" where
  "blank_control c = (if c = 0x0A \<or> c = 0x0D \<or> c < 32 then 0x20 else c)"

definition push_line :: "bytes \<Rightarrow> log_state \<Rightarrow> log_state" where
  "push_line msg s =
     (let n = min (length msg) LOG_LINE;
          buf = put_at (replicate LOG_LINE 0) 0 (map (\<lambda>i. blank_control (msg ! i)) [0..<n]);
          (pos, s) = (if LEN s < LOG_CAP
             then ((BEGIN s + LEN s) mod LOG_CAP, s\<lparr> LEN := LEN s + 1 \<rparr>)
             else (BEGIN s, s\<lparr> BEGIN := (BEGIN s + 1) mod LOG_CAP \<rparr>))
      in s\<lparr> LINES := (LINES s)[pos := buf], LENS := (LENS s)[pos := of_nat n], DIRTY := True \<rparr>)"

definition log_count :: "log_state \<Rightarrow> usize" where
  "log_count s = LEN s"

definition line_at :: "log_state \<Rightarrow> usize \<Rightarrow> bytes option" where
  "line_at s i =
     (if LEN s \<le> i then None
      else let idx = (BEGIN s + i) mod LOG_CAP; n = unat (LENS s ! idx)
           in Some (take n (LINES s ! idx)))"

definition take_dirty :: "log_state \<Rightarrow> bool \<times> log_state" where
  "take_dirty s = (DIRTY s, s\<lparr> DIRTY := False \<rparr>)"

section \<open>Formatting\<close>

definition LOG_PREFIX :: bytes where
  "LOG_PREFIX = ascii ''[EVE] ''"

definition serial_put_byte :: "u8 \<Rightarrow> log_state \<Rightarrow> log_state" where
  "serial_put_byte b s = s\<lparr> serial_out := serial_out s @ [b] \<rparr>"

definition serial_puts :: "bytes \<Rightarrow> log_state \<Rightarrow> log_state" where
  "serial_puts bs s = fold (\<lambda>b s. serial_put_byte b (if b = 0x0A then serial_put_byte 0x0D s else s)) bs s"

text \<open>
  The digit loop with the test at the end, from index \<open>k\<close> of the buffer; \<open>None\<close> is the underflow of
  the index, which three digits of a byte never reach.
\<close>

fun dec_do :: "nat \<Rightarrow> u8 \<Rightarrow> bytes \<Rightarrow> (nat \<times> bytes) option" where
  "dec_do 0 v buf = None"
| "dec_do (Suc k) v buf =
     (let buf = buf[k := 0x30 + v mod 10]; v = v div 10
      in if v = 0 then Some (k, buf) else dec_do k v buf)"

definition u8_dec :: "u8 \<Rightarrow> bytes" where
  "u8_dec v = (case dec_do 3 v (replicate 3 0) of Some (k, buf) \<Rightarrow> drop k buf | None \<Rightarrow> [])"

definition u32_dec :: "u32 \<Rightarrow> bytes" where
  "u32_dec v = (if v = 0 then [0x30] else let (i, buf) = dec_fill 10 v (replicate 10 0) in drop i buf)"

definition put_u8_dec :: "u8 \<Rightarrow> log_state \<Rightarrow> log_state" where
  "put_u8_dec v = serial_puts (u8_dec v)"

definition put_u32_dec :: "u32 \<Rightarrow> log_state \<Rightarrow> log_state" where
  "put_u32_dec v s = (if v = 0 then serial_put_byte 0x30 s else serial_puts (u32_dec v) s)"

text \<open>The local buffer of a line: the array and the number of bytes used.\<close>

type_synonym store = "bytes \<times> usize"

definition append_store :: "u8 \<Rightarrow> store \<Rightarrow> store" where
  "append_store b = (\<lambda>(st, n). if n < length st then (st[n := b], n + 1) else (st, n))"

definition append_store_slice :: "bytes \<Rightarrow> store \<Rightarrow> store" where
  "append_store_slice s = fold (\<lambda>b. append_store (blank_control b)) s"

definition append_u8_dec :: "u8 \<Rightarrow> store \<Rightarrow> store" where
  "append_u8_dec v = append_store_slice (u8_dec v)"

definition append_u32_dec :: "u32 \<Rightarrow> store \<Rightarrow> store" where
  "append_u32_dec v st = (if v = 0 then append_store 0x30 st else append_store_slice (u32_dec v) st)"

definition store_new :: store where
  "store_new = (replicate 120 0, 0)"

definition push_store :: "store \<Rightarrow> log_state \<Rightarrow> log_state" where
  "push_store st = push_line (take (snd st) (fst st))"

definition log_line :: "bytes \<Rightarrow> log_state \<Rightarrow> log_state" where
  "log_line msg s =
     (let s = serial_puts [0x0A] (serial_puts msg (serial_puts LOG_PREFIX s));
          st = append_store_slice msg (append_store_slice LOG_PREFIX store_new)
      in push_store st s)"

definition log_line2 :: "bytes \<Rightarrow> bytes \<Rightarrow> log_state \<Rightarrow> log_state" where
  "log_line2 a b s =
     (let s = serial_puts [0x0A] (serial_puts b (serial_puts a (serial_puts LOG_PREFIX s)));
          st = append_store_slice b (append_store_slice a (append_store_slice LOG_PREFIX store_new))
      in push_store st s)"

definition log_err_msg :: "bytes \<Rightarrow> log_state \<Rightarrow> log_state" where
  "log_err_msg msg s =
     (let n = min (length msg) 120;
          s = serial_puts [0x0A] (serial_puts (take n msg) (serial_puts (ascii ''err '') (serial_puts LOG_PREFIX s)));
          st = append_store_slice (take n msg) (append_store_slice (ascii ''err '')
                 (append_store_slice LOG_PREFIX store_new))
      in push_store st s)"

definition HEX :: bytes where
  "HEX = ascii ''0123456789ABCDEF''"

definition log_mac :: "mac \<Rightarrow> log_state \<Rightarrow> log_state" where
  "log_mac m s =
     (let s = serial_puts (ascii ''mac '') (serial_puts LOG_PREFIX s);
          st = append_store_slice (ascii ''mac '') (append_store_slice LOG_PREFIX store_new);
          (s, st) = fold (\<lambda>(i, b) (s, st).
              let (s, st) = (if 0 < i then (serial_put_byte (byte CHR '':'') s, append_store (byte CHR '':'') st)
                             else (s, st));
                  hi = HEX ! unat (drop_bit 4 b); lo = HEX ! unat (b AND 0xF)
              in (serial_put_byte lo (serial_put_byte hi s), append_store lo (append_store hi st)))
            (enumerate 0 (mac_bytes m)) (s, st)
      in push_store st (serial_puts [0x0A] s))"

definition log_ipv4 :: "bytes \<Rightarrow> ipv4 \<Rightarrow> log_state \<Rightarrow> log_state" where
  "log_ipv4 label a s =
     (let (a0, a1, a2, a3) = (case a of IPv4 a b c d \<Rightarrow> (a, b, c, d));
          s = serial_puts label (serial_puts LOG_PREFIX s);
          s = put_u8_dec a1 (serial_put_byte (byte CHR ''.'') (put_u8_dec a0 s));
          s = put_u8_dec a3 (serial_put_byte (byte CHR ''.'') (put_u8_dec a2 (serial_put_byte (byte CHR ''.'') s)));
          st = append_store_slice label (append_store_slice LOG_PREFIX store_new);
          st = fold (\<lambda>(i, v) st. append_u8_dec v (if 0 < i then append_store (byte CHR ''.'') st else st))
                 (enumerate 0 (octets a)) st
      in push_store st (serial_puts [0x0A] s))"

definition log_fb_wh :: "u32 \<Rightarrow> u32 \<Rightarrow> log_state \<Rightarrow> log_state" where
  "log_fb_wh w h s =
     (let s = put_u32_dec w (serial_puts (ascii ''fb '') (serial_puts LOG_PREFIX s));
          s = serial_puts [0x0A] (put_u32_dec h (serial_put_byte (byte CHR ''x'') s));
          st = append_store_slice (ascii ''fb '') (append_store_slice LOG_PREFIX store_new);
          st = append_u32_dec h (append_store (byte CHR ''x'') (append_u32_dec w st))
      in push_store st s)"

definition log_fetch_host :: "bytes \<Rightarrow> bool \<Rightarrow> log_state \<Rightarrow> log_state" where
  "log_fetch_host host tls s =
     (let scheme = (if tls then ascii ''fetch https://'' else ascii ''fetch http://'');
          n = min (length host) 80;
          s = serial_puts [0x0A] (serial_puts (take n host) (serial_puts scheme (serial_puts LOG_PREFIX s)));
          st = append_store_slice (take n host) (append_store_slice scheme (append_store_slice LOG_PREFIX store_new))
      in push_store st s)"

section \<open>The contract of a line log\<close>

text \<open>The last \<open>n\<close> elements of a list.\<close>

definition keep_last :: "nat \<Rightarrow> 'a list \<Rightarrow> 'a list" where
  "keep_last n xs = drop (length xs - n) xs"

lemma keep_last_keep_last: "keep_last n (keep_last n xs @ ys) = keep_last n (xs @ ys)"
proof (cases "n \<le> length xs")
  case True
  then have "length xs + length ys - n = (length xs - n) + length ys" by simp
  with True show ?thesis
    by (cases "length ys \<le> n") (simp_all add: keep_last_def add.commute)
qed (simp add: keep_last_def)

text \<open>What a stored line is: at most 120 bytes, control characters as spaces.\<close>

definition clean :: "bytes \<Rightarrow> bytes" where
  "clean msg = take 120 (map blank_control msg)"

locale line_log =
  fixes push :: "bytes \<Rightarrow> 's \<Rightarrow> 's"
    and lines_of :: "'s \<Rightarrow> bytes list"
    and ok :: "'s \<Rightarrow> bool"
  assumes push_ok: "ok s \<Longrightarrow> ok (push msg s)"
    and push_lines: "ok s \<Longrightarrow> lines_of (push msg s) = keep_last 512 (lines_of s @ [clean msg])"
begin

lemma push_many:
  "ok s \<Longrightarrow> ok (fold push msgs s) \<and> keep_last 512 (lines_of (fold push msgs s))
     = keep_last 512 (lines_of s @ map clean msgs)"
proof (induction msgs arbitrary: s)
  case (Cons m msgs)
  with Cons.IH [OF push_ok [OF Cons.prems]] show ?case
    by (simp add: push_lines keep_last_keep_last)
qed simp

end

section \<open>The ring implements it\<close>

definition log_ok :: "log_state \<Rightarrow> bool" where
  "log_ok s \<longleftrightarrow> length (LINES s) = 512 \<and> length (LENS s) = 512 \<and> BEGIN s < 512 \<and> LEN s \<le> 512
     \<and> (LEN s < 512 \<longrightarrow> BEGIN s = 0) \<and> (\<forall>l\<in>set (LINES s). length l = 120) \<and> (\<forall>n\<in>set (LENS s). n \<le> 120)"

definition slot :: "log_state \<Rightarrow> nat \<Rightarrow> bytes" where
  "slot s idx = take (unat (LENS s ! idx)) (LINES s ! idx)"

definition log_lines :: "log_state \<Rightarrow> bytes list" where
  "log_lines s = map (\<lambda>i. slot s ((BEGIN s + i) mod 512)) [0..<LEN s]"

lemma log_ok_init: "log_ok log_init" "log_lines log_init = []"
  by (simp_all add: log_ok_def log_init_def log_lines_def)

lemma line_at_eq: "line_at s i = (if i < log_count s then Some (log_lines s ! i) else None)"
  by (simp add: line_at_def log_count_def log_lines_def slot_def Let_def)

lemma push_line_buf:
  "put_at (replicate 120 0) 0 (map (\<lambda>i. blank_control (msg ! i)) [0..<min (length msg) 120])
    = clean msg @ replicate (120 - length (clean msg)) 0"
proof -
  have "map (\<lambda>i. blank_control (msg ! i)) [0..<min (length msg) 120] = clean msg"
    by (rule nth_equalityI) (simp_all add: clean_def)
  then show ?thesis by (simp add: put_at_def)
qed

lemma length_clean_le [simp]: "length (clean msg) \<le> 120"
  by (simp add: clean_def)

lemma unat_length_clean [simp]: "unat (of_nat (length (clean msg)) :: u8) = length (clean msg)"
  by (rule unat_of_nat_small) (rule le_less_trans [OF length_clean_le], simp)

lemma push_line_eq:
  assumes "log_ok s"
  shows "push_line msg s = s\<lparr>
     LINES := (LINES s)[(BEGIN s + LEN s) mod 512 := clean msg @ replicate (120 - length (clean msg)) 0],
     LENS := (LENS s)[(BEGIN s + LEN s) mod 512 := of_nat (length (clean msg))],
     BEGIN := (if LEN s < 512 then BEGIN s else (BEGIN s + 1) mod 512),
     LEN := (if LEN s < 512 then LEN s + 1 else LEN s), DIRTY := True \<rparr>"
proof -
  have "min (length msg) 120 = length (clean msg)" by (simp add: clean_def)
  moreover have "\<not> LEN s < 512 \<Longrightarrow> (BEGIN s + LEN s) mod 512 = BEGIN s"
    using assms by (simp add: log_ok_def)
  ultimately show ?thesis
    unfolding push_line_def Let_def push_line_buf by (simp split: prod.splits if_splits)
qed

lemma slot_push_line:
  assumes "log_ok s" "idx < 512"
  shows "slot (push_line msg s) idx = (if idx = (BEGIN s + LEN s) mod 512 then clean msg else slot s idx)"
  using assms by (simp add: push_line_eq slot_def log_ok_def)

lemma log_ok_push_line:
  assumes "log_ok s"
  shows "log_ok (push_line msg s)"
proof -
  have "of_nat (length (clean msg)) \<le> (120 :: u8)"
    by (simp add: word_le_nat_alt)
  with assms show ?thesis
    by (auto simp: push_line_eq log_ok_def dest!: subsetD [OF set_update_subset_insert])
qed

lemma length_log_lines [simp]: "length (log_lines s) = LEN s"
  by (simp add: log_lines_def)

lemma log_lines_push_line:
  assumes "log_ok s"
  shows "log_lines (push_line msg s) = keep_last 512 (log_lines s @ [clean msg])"
proof (cases "LEN s < 512")
  case True
  then have b: "BEGIN s = 0" using assms by (simp add: log_ok_def)
  have "log_lines (push_line msg s) = map (\<lambda>i. slot (push_line msg s) (i mod 512)) [0..<Suc (LEN s)]"
    unfolding log_lines_def using True b by (simp add: push_line_eq [OF assms])
  also have "\<dots> = log_lines s @ [clean msg]"
    using True b by (auto simp: slot_push_line [OF assms] log_lines_def)
  finally show ?thesis using True by (simp add: keep_last_def)
next
  case False
  then have len: "LEN s = 512" and b: "BEGIN s < 512" using assms by (simp_all add: log_ok_def)
  have "log_lines (push_line msg s) = drop 1 (log_lines s) @ [clean msg]"
  proof (rule nth_equalityI)
    fix i assume "i < length (log_lines (push_line msg s))"
    then have i: "i < 512" using len by (simp add: push_line_eq [OF assms])
    have "log_lines (push_line msg s) ! i = slot (push_line msg s) ((BEGIN s + 1 + i) mod 512)"
      using i len unfolding log_lines_def by (simp add: push_line_eq [OF assms] mod_add_left_eq)
    also have "\<dots> = (if i = 511 then clean msg else slot s ((BEGIN s + 1 + i) mod 512))"
    proof -
      have "(BEGIN s + 1 + i) mod 512 = BEGIN s \<longleftrightarrow> i = 511"
        using i b by (auto simp: mod_if)
      then show ?thesis using len b by (simp add: slot_push_line [OF assms])
    qed
    also have "\<dots> = (drop 1 (log_lines s) @ [clean msg]) ! i"
      using i len by (auto simp: nth_append log_lines_def)
    finally show "log_lines (push_line msg s) ! i = (drop 1 (log_lines s) @ [clean msg]) ! i" .
  qed (use len in \<open>simp add: push_line_eq [OF assms]\<close>)
  then show ?thesis using len by (simp add: keep_last_def)
qed

interpretation ring: line_log push_line log_lines log_ok
  by unfold_locales (simp_all add: log_ok_push_line log_lines_push_line)

text \<open>
  C30. The ring refines the list of the last 512 lines: after any sequence of pushes on a log in a
  good state, \<open>line_at\<close> returns line by line the newest 512 of all lines, each cut to 120 bytes
  with control characters blanked, and \<open>None\<close> past the end.
\<close>

theorem log_history:
  assumes "log_ok s" "log_lines s = []"
  shows "(\<forall>i. line_at (fold push_line msgs s) i
      = (if i < min (length msgs) 512 then Some (keep_last 512 (map clean msgs) ! i) else None))
    \<and> log_ok (fold push_line msgs s)"
proof -
  have ok: "log_ok (fold push_line msgs s)"
    and last: "keep_last 512 (log_lines (fold push_line msgs s)) = keep_last 512 (map clean msgs)"
    using ring.push_many [OF assms(1), of msgs] assms(2) by simp_all
  have "LEN (fold push_line msgs s) \<le> 512" using ok by (simp add: log_ok_def)
  with last have lines: "log_lines (fold push_line msgs s) = keep_last 512 (map clean msgs)"
    by (simp add: keep_last_def)
  then have "LEN (fold push_line msgs s) = min (length msgs) 512"
    by (metis (no_types) keep_last_def length_log_lines length_map length_drop diff_diff_cancel diff_le_self
        min_def nat_le_linear diff_is_0_eq diff_zero)
  with ok lines show ?thesis by (simp add: line_at_eq log_count_def)
qed

theorem log_history_witness:
  "(\<forall>i. line_at (fold push_line [[0x41, 0x0A], [0x42]] log_init) i
      = (if i < min (length [[0x41, 0x0A], [0x42 :: u8]]) 512
         then Some (keep_last 512 (map clean [[0x41, 0x0A], [0x42]]) ! i) else None))
    \<and> log_ok (fold push_line [[0x41, 0x0A], [0x42]] log_init)"
  by (rule log_history [OF log_ok_init])

section \<open>Formatted lines\<close>

lemma dec_do_fill:
  "v \<noteq> 0 \<Longrightarrow> unat v < 10 ^ k \<Longrightarrow> dec_do k v buf = Some (dec_fill k v buf)"
proof (induction k arbitrary: v buf)
  case 0
  then show ?case by (simp add: unat_eq_zero)
next
  case (Suc k)
  have zero: "dec_fill k (0 :: u8) b = (k, b)" for b by (cases k) simp_all
  have "unat (v div 10) < 10 ^ k"
    using Suc.prems(2) by (simp add: unat_div_distrib less_mult_imp_div_less mult.commute)
  with Suc show ?case by (simp add: Let_def zero)
qed

lemma drop_dec_fill:
  fixes n :: "'a::len word"
  assumes "unat n < 10 ^ k" "n \<noteq> 0" "7 < LENGTH('a)" "dec_fill k n (replicate k 0) = (i, buf)"
  shows "drop i buf = dec_of (unat n)"
  using dec_fill_correct [OF assms(1) _ assms(3,4)] assms(2) by (auto simp: slice_def)

lemma u8_dec_eq: "u8_dec v = dec_of (unat v)"
proof (cases "v = 0")
  case True
  then show ?thesis by (simp add: u8_dec_def numeral_3_eq_3 dec_of.simps [of 0])
next
  case False
  obtain i buf where f: "dec_fill 3 v (replicate 3 0) = (i, buf)" by fastforce
  have small: "unat v < 10 ^ 3" by (rule less_trans [OF unat_u8_less]) simp
  from drop_dec_fill [OF small False _ f] dec_do_fill [OF False small, of "replicate 3 0"] f
  show ?thesis by (simp add: u8_dec_def)
qed

lemma u32_dec_eq: "u32_dec v = dec_of (unat v)"
proof (cases "v = 0")
  case True
  then show ?thesis by (simp add: u32_dec_def dec_of.simps [of 0])
next
  case False
  obtain i buf where f: "dec_fill 10 v (replicate 10 0) = (i, buf)" by fastforce
  have "unat v < 2 ^ LENGTH(32)" by (rule unsigned_less)
  then have small: "unat v < 10 ^ 10" by simp
  from drop_dec_fill [OF small False _ f] f False show ?thesis by (simp add: u32_dec_def)
qed

text \<open>The local buffer as the text it holds.\<close>

definition store_ok :: "store \<Rightarrow> bool" where
  "store_ok st \<longleftrightarrow> length (fst st) = 120 \<and> snd st \<le> 120"

definition store_text :: "store \<Rightarrow> bytes" where
  "store_text st = take (snd st) (fst st)"

lemma store_append [simp]:
  assumes "store_ok st"
  shows "store_ok (append_store b st)" "store_text (append_store b st) = take 120 (store_text st @ [b])"
  using assms by (auto simp: append_store_def store_ok_def store_text_def take_Suc_conv_app_nth split: prod.splits)

lemma store_append_slice [simp]:
  assumes "store_ok st"
  shows "store_ok (append_store_slice s st)
    \<and> store_text (append_store_slice s st) = take 120 (store_text st @ map blank_control s)"
  using assms
proof (induction s arbitrary: st)
  case Nil
  then show ?case by (auto simp: append_store_slice_def store_text_def store_ok_def)
next
  case (Cons b s)
  have "append_store_slice (b # s) st = append_store_slice s (append_store (blank_control b) st)"
    by (simp add: append_store_slice_def)
  moreover have "take 120 (take 120 (store_text st @ [blank_control b]) @ map blank_control s)
      = take 120 (store_text st @ map blank_control (b # s))"
    unfolding take_take_append by simp
  ultimately show ?case
    using Cons.IH [of "append_store (blank_control b) st"] Cons.prems by (simp only: store_append)
qed

lemma store_new_ok [simp]: "store_ok store_new" "store_text store_new = []"
  by (simp_all add: store_new_def store_ok_def store_text_def)

lemma blank_control_idem [simp]: "blank_control (blank_control c) = blank_control c"
  by (simp add: blank_control_def)

lemma blank_control_digits [simp]: "map blank_control (dec_of n) = dec_of n"
proof (rule map_idI)
  fix c assume "c \<in> set (dec_of n)"
  then have "is_ascii_digit c" using dec_of_digits by blast
  then show "blank_control c = c" by (auto simp: blank_control_def is_ascii_digit_def word_less_nat_alt word_le_nat_alt)
qed

text \<open>
  A store built from pieces holds the concatenation of the pieces, cut to 120 bytes; \<open>holds\<close> lets
  the pieces be appended one at a time.
\<close>

definition holds :: "store \<Rightarrow> bytes \<Rightarrow> bool" where
  "holds st t \<longleftrightarrow> store_ok st \<and> store_text st = take 120 t"

lemma holds_new: "holds store_new []"
  by (simp add: holds_def)

lemma holds_append: "holds st t \<Longrightarrow> holds (append_store b st) (t @ [b])"
  unfolding holds_def by (simp only: store_append take_take_append)

lemma holds_append_slice: "holds st t \<Longrightarrow> holds (append_store_slice s st) (t @ map blank_control s)"
  unfolding holds_def by (simp only: store_append_slice take_take_append)

lemma holds_u8_dec: "holds st t \<Longrightarrow> holds (append_u8_dec v st) (t @ dec_of (unat v))"
  using holds_append_slice [of st t "u8_dec v"] by (simp add: append_u8_dec_def u8_dec_eq)

lemma holds_u32_dec: "holds st t \<Longrightarrow> holds (append_u32_dec v st) (t @ dec_of (unat v))"
  using holds_append_slice [of st t "u32_dec v"] holds_append [of st t "0x30"]
  by (auto simp: append_u32_dec_def u32_dec_eq dec_of.simps [of 0])

lemmas holds_intros = holds_append_slice holds_append holds_u8_dec holds_u32_dec holds_new

lemma serial_frame [simp]:
  "log_lines (serial_put_byte b s) = log_lines s" "log_ok (serial_put_byte b s) = log_ok s"
  by (simp_all add: serial_put_byte_def log_lines_def log_ok_def slot_def)

lemma serial_puts_frame [simp]:
  "log_lines (serial_puts bs s) = log_lines s" "log_ok (serial_puts bs s) = log_ok s"
  by (induction bs arbitrary: s) (simp_all add: serial_puts_def)

lemma put_dec_frame [simp]:
  "log_lines (put_u8_dec v s) = log_lines s" "log_ok (put_u8_dec v s) = log_ok s"
  "log_lines (put_u32_dec w s) = log_lines s" "log_ok (put_u32_dec w s) = log_ok s"
  by (simp_all add: put_u8_dec_def put_u32_dec_def)

lemma push_store_lines:
  assumes "log_ok s" "holds st t" "map blank_control t = t"
  shows "log_lines (push_store st s) = keep_last 512 (log_lines s @ [take 120 t])" "log_ok (push_store st s)"
proof -
  have "take (snd st) (fst st) = take 120 t" using assms(2) by (simp add: holds_def store_text_def)
  moreover have "clean (take 120 t) = take 120 t" using assms(3) by (simp add: clean_def take_map [symmetric])
  ultimately show "log_lines (push_store st s) = keep_last 512 (log_lines s @ [take 120 t])" "log_ok (push_store st s)"
    using assms(1) by (simp_all add: push_store_def ring.push_lines ring.push_ok)
qed

lemma blank_prefix [simp]:
  "map blank_control LOG_PREFIX = LOG_PREFIX" "map blank_control (ascii ''err '') = ascii ''err ''"
  "map blank_control (ascii ''mac '') = ascii ''mac ''" "map blank_control (ascii ''fb '') = ascii ''fb ''"
  "map blank_control (ascii ''fetch https://'') = ascii ''fetch https://''"
  "map blank_control (ascii ''fetch http://'') = ascii ''fetch http://''"
  by (simp_all add: LOG_PREFIX_def bytes_simps blank_control_def)

lemma log_line_text:
  assumes "log_ok s"
  shows "log_lines (log_line msg s) = keep_last 512 (log_lines s @ [take 120 (LOG_PREFIX @ map blank_control msg)])"
proof -
  have "holds (append_store_slice msg (append_store_slice LOG_PREFIX store_new))
      (([] @ map blank_control LOG_PREFIX) @ map blank_control msg)"
    by (intro holds_intros)
  from push_store_lines(1) [OF _ this] assms show ?thesis by (simp add: log_line_def Let_def o_def)
qed

lemma log_line2_text:
  assumes "log_ok s"
  shows "log_lines (log_line2 a b s)
    = keep_last 512 (log_lines s @ [take 120 (LOG_PREFIX @ map blank_control a @ map blank_control b)])"
proof -
  have "holds (append_store_slice b (append_store_slice a (append_store_slice LOG_PREFIX store_new)))
      ((([] @ map blank_control LOG_PREFIX) @ map blank_control a) @ map blank_control b)"
    by (intro holds_intros)
  from push_store_lines(1) [OF _ this] assms show ?thesis by (simp add: log_line2_def Let_def o_def)
qed

lemma log_err_msg_text:
  assumes "log_ok s"
  shows "log_lines (log_err_msg msg s)
    = keep_last 512 (log_lines s @ [take 120 (LOG_PREFIX @ ascii ''err '' @ map blank_control msg)])"
proof -
  let ?m = "take (min (length msg) 120) msg"
  have m: "?m = take 120 msg" by (simp add: min_def)
  have cut: "take 120 (xs @ ys @ take 120 zs) = take 120 (xs @ ys @ zs)" for xs ys zs :: bytes
    by simp
  have "holds (append_store_slice ?m (append_store_slice (ascii ''err '') (append_store_slice LOG_PREFIX store_new)))
      ((([] @ map blank_control LOG_PREFIX) @ map blank_control (ascii ''err '')) @ map blank_control ?m)"
    by (intro holds_intros)
  from push_store_lines(1) [OF _ this] assms cut [of LOG_PREFIX "ascii ''err ''" "map blank_control msg"] show ?thesis
    unfolding log_err_msg_def Let_def m by (simp add: o_def take_map del: take_append take_take)
qed

lemma log_fetch_host_text:
  assumes "log_ok s"
  shows "log_lines (log_fetch_host host tls s) = keep_last 512 (log_lines s @ [take 120 (LOG_PREFIX
      @ (if tls then ascii ''fetch https://'' else ascii ''fetch http://'') @ map blank_control (take 80 host))])"
proof -
  let ?m = "take (min (length host) 80) host" and ?sch = "if tls then ascii ''fetch https://'' else ascii ''fetch http://''"
  have m: "?m = take 80 host" by (simp add: min_def)
  have "holds (append_store_slice ?m (append_store_slice ?sch (append_store_slice LOG_PREFIX store_new)))
      ((([] @ map blank_control LOG_PREFIX) @ map blank_control ?sch) @ map blank_control ?m)"
    by (intro holds_intros)
  from push_store_lines(1) [OF _ this] assms show ?thesis
    unfolding log_fetch_host_def Let_def m by (cases tls) (simp_all add: o_def)
qed

lemma log_fb_wh_text:
  assumes "log_ok s"
  shows "log_lines (log_fb_wh w h s) = keep_last 512 (log_lines s @ [take 120 (LOG_PREFIX @ ascii ''fb ''
      @ dec_of (unat w) @ byte CHR ''x'' # dec_of (unat h))])"
proof -
  have "holds (append_u32_dec h (append_store (byte CHR ''x'') (append_u32_dec w
        (append_store_slice (ascii ''fb '') (append_store_slice LOG_PREFIX store_new)))))
      ((((([] @ map blank_control LOG_PREFIX) @ map blank_control (ascii ''fb '')) @ dec_of (unat w))
        @ [byte CHR ''x'']) @ dec_of (unat h))"
    by (intro holds_intros)
  from push_store_lines(1) [OF _ this] assms show ?thesis
    by (simp add: log_fb_wh_def Let_def blank_control_def [of 120])
qed

definition dotted :: "ipv4 \<Rightarrow> bytes" where
  "dotted a = (case a of IPv4 p q r t \<Rightarrow> dec_of (unat p) @ byte CHR ''.'' # dec_of (unat q) @ byte CHR ''.''
     # dec_of (unat r) @ byte CHR ''.'' # dec_of (unat t))"

lemma log_ipv4_text:
  assumes "log_ok s"
  shows "log_lines (log_ipv4 label a s) = keep_last 512 (log_lines s
    @ [take 120 (LOG_PREFIX @ map blank_control label @ dotted a)])"
proof (cases a)
  case (IPv4 p q r t)
  let ?d = "append_store (byte CHR ''.'')"
  have "holds (append_u8_dec t (?d (append_u8_dec r (?d (append_u8_dec q (?d (append_u8_dec p
        (append_store_slice label (append_store_slice LOG_PREFIX store_new)))))))))
      ((((((((([] @ map blank_control LOG_PREFIX) @ map blank_control label) @ dec_of (unat p)) @ [byte CHR ''.''])
        @ dec_of (unat q)) @ [byte CHR ''.'']) @ dec_of (unat r)) @ [byte CHR ''.'']) @ dec_of (unat t))"
    by (intro holds_intros)
  from push_store_lines(1) [OF _ this] assms IPv4 show ?thesis
    by (simp add: log_ipv4_def Let_def dotted_def o_def blank_control_def [of 46])
qed

text \<open>
  The formatted lines: each logging function adds exactly one line to the ring, the prefix
  followed by its text (an IPv4 address in dotted decimal, a frame buffer size as two decimal
  numbers, a host after its scheme, an error message), cut to 120 bytes.
\<close>

theorem log_formats:
  assumes "log_ok s"
  shows "log_lines (log_line msg s) = keep_last 512 (log_lines s @ [take 120 (LOG_PREFIX @ map blank_control msg)])
    \<and> log_lines (log_line2 msg b s)
        = keep_last 512 (log_lines s @ [take 120 (LOG_PREFIX @ map blank_control msg @ map blank_control b)])
    \<and> log_lines (log_err_msg msg s)
        = keep_last 512 (log_lines s @ [take 120 (LOG_PREFIX @ ascii ''err '' @ map blank_control msg)])
    \<and> log_lines (log_fetch_host msg tls s) = keep_last 512 (log_lines s @ [take 120 (LOG_PREFIX
        @ (if tls then ascii ''fetch https://'' else ascii ''fetch http://'') @ map blank_control (take 80 msg))])
    \<and> log_lines (log_fb_wh w h s) = keep_last 512 (log_lines s @ [take 120 (LOG_PREFIX @ ascii ''fb ''
        @ dec_of (unat w) @ byte CHR ''x'' # dec_of (unat h))])
    \<and> log_lines (log_ipv4 msg a s) = keep_last 512 (log_lines s
        @ [take 120 (LOG_PREFIX @ map blank_control msg @ dotted a)])"
  by (intro conjI log_line_text log_line2_text log_err_msg_text log_fetch_host_text log_fb_wh_text
      log_ipv4_text assms)

theorem log_formats_witness:
  "log_lines (log_ipv4 (ascii ''gw '') (IPv4 10 0 2 2) log_init)
    = keep_last 512 (log_lines log_init @ [take 120 (LOG_PREFIX @ map blank_control (ascii ''gw '') @ dotted (IPv4 10 0 2 2))])"
  using log_formats [OF log_ok_init(1)] by blast

end
