(* ===== verification/Eve_Script.thy ===== *)
theory Eve_Script
  imports Eve_Prelude "HOL-Library.Signed_Division"
begin

text \<open>
  The script machine of the browser, \<open>kernel/src/script_runtime.rs\<close>: instructions, the stack machine
  over decoded instructions (\<open>run\<close>) and over bytecode (\<open>run_bytes\<close>), the decoder, and
  \<open>run_page_eve_script\<close>, which finds a hex-encoded program in a page. The \<open>HostApi\<close> trait is a record
  of operations on a host state. The lemmas show that the stack never leaves its bounds, that the
  machine over bytecode runs assembled programs like the machine over instructions, that it
  evaluates compiled expressions, and that a program embedded in a page is found and run.
\<close>

section \<open>Instructions, host and machine\<close>

datatype op = PushI32 i32 | Add | Sub | Mul | Div | CallHost u8 | Ret

datatype vm_error = BadOpcode | TruncatedImm | StepLimit

record 'h host_api =
  timer_set :: "'h \<Rightarrow> u32 \<Rightarrow> i32 \<times> 'h"
  fetch_start :: "'h \<Rightarrow> i32 \<Rightarrow> i32 \<times> 'h"
  storage_get :: "'h \<Rightarrow> i32 \<Rightarrow> i32 \<times> 'h"
  storage_set :: "'h \<Rightarrow> i32 \<Rightarrow> i32 \<Rightarrow> i32 \<times> 'h"

definition null_host :: "unit host_api" where
  "null_host = \<lparr> timer_set = (\<lambda>h _. (- 1, h)), fetch_start = (\<lambda>h _. (- 1, h)),
     storage_get = (\<lambda>h _. (- 1, h)), storage_set = (\<lambda>h _ _. (- 1, h)) \<rparr>"

record vm =
  stack :: "i32 list"
  sp :: usize
  pc :: usize
  step_limit :: usize

definition vm_new :: vm where
  "vm_new = \<lparr> stack = replicate 64 0, sp = 0, pc = 0, step_limit = 4096 \<rparr>"

definition vm_reset :: "vm \<Rightarrow> vm" where
  "vm_reset m = m\<lparr> sp := 0, pc := 0 \<rparr>"

definition set_step_limit :: "usize \<Rightarrow> vm \<Rightarrow> vm" where
  "set_step_limit n m = m\<lparr> step_limit := max n 1 \<rparr>"

definition vm_push :: "i32 \<Rightarrow> vm \<Rightarrow> vm" where
  "vm_push v m = (if sp m < length (stack m) then m\<lparr> stack := (stack m)[sp m := v], sp := sp m + 1 \<rparr> else m)"

definition vm_pop :: "vm \<Rightarrow> i32 \<times> vm" where
  "vm_pop m = (if sp m = 0 then (0, m) else let k = sp m - 1 in (stack m ! k, m\<lparr> sp := k \<rparr>))"

definition binop :: "(i32 \<Rightarrow> i32 \<Rightarrow> i32) \<Rightarrow> vm \<Rightarrow> vm" where
  "binop f m = (let (b, m) = vm_pop m; (a, m) = vm_pop m in vm_push (f a b) m)"

text \<open>\<open>i32::wrapping_div\<close>: division toward zero; the one overflow, the least number by -1, wraps.\<close>

definition wrapping_div :: "i32 \<Rightarrow> i32 \<Rightarrow> i32" where
  "wrapping_div a b = word_of_int (sint a sdiv sint b)"

definition vm_div :: "i32 \<Rightarrow> i32 \<Rightarrow> i32" where
  "vm_div a b = (if b = 0 then 0 else wrapping_div a b)"

text \<open>\<open>x.max(0) as u32\<close> of a signed number.\<close>

definition clamp_u32 :: "i32 \<Rightarrow> u32" where
  "clamp_u32 x = (if sint x < 0 then 0 else x)"

definition call_host :: "'h host_api \<Rightarrow> u8 \<Rightarrow> vm \<Rightarrow> 'h \<Rightarrow> vm \<times> 'h" where
  "call_host host cid m h =
     (let (ret, m, h) =
        (if cid = 0 then let (ms, m) = vm_pop m; (r, h) = timer_set host h (clamp_u32 ms) in (r, m, h)
         else if cid = 1 then let (url_id, m) = vm_pop m; (r, h) = fetch_start host h url_id in (r, m, h)
         else if cid = 2 then let (key_id, m) = vm_pop m; (r, h) = storage_get host h key_id in (r, m, h)
         else if cid = 3 then let (value_id, m) = vm_pop m; (key_id, m) = vm_pop m;
                                 (r, h) = storage_set host h key_id value_id in (r, m, h)
         else (- 1, m, h))
      in (vm_push ret m, h))"

text \<open>One instruction; the first component is the returned value of \<open>Ret\<close>.\<close>

fun exec_one :: "'h host_api \<Rightarrow> op \<Rightarrow> vm \<Rightarrow> 'h \<Rightarrow> i32 option \<times> vm \<times> 'h" where
  "exec_one host (PushI32 v) m h = (None, vm_push v m, h)"
| "exec_one host Add m h = (None, binop (+) m, h)"
| "exec_one host Sub m h = (None, binop (-) m, h)"
| "exec_one host Mul m h = (None, binop (*) m, h)"
| "exec_one host Div m h = (None, (let (b, m) = vm_pop m; (a, m) = vm_pop m in vm_push (vm_div a b) m), h)"
| "exec_one host (CallHost cid) m h = (let (m, h) = call_host host cid m h in (None, m, h))"
| "exec_one host Ret m h = (let (r, m) = vm_pop m in (Some r, m, h))"

lemma pc_push_pop [simp]: "pc (vm_push v m) = pc m" "pc (snd (vm_pop m)) = pc m"
  by (simp_all add: vm_push_def vm_pop_def Let_def)

lemma pc_binop [simp]: "pc (binop f m) = pc m"
  by (simp add: binop_def split_beta Let_def)

lemma pc_call_host [simp]: "pc (fst (call_host host cid m h)) = pc m"
  by (simp add: call_host_def split_beta Let_def)

lemma pc_exec_one [simp]: "pc (fst (snd (exec_one host p m h))) = pc m"
  by (cases p) (simp_all add: split_beta Let_def)

text \<open>The loop of \<open>run\<close>; the program counter grows with every round.\<close>

function run_loop :: "'h host_api \<Rightarrow> op list \<Rightarrow> nat \<Rightarrow> vm \<Rightarrow> 'h \<Rightarrow> i32 \<times> vm \<times> 'h" where
  "run_loop host code steps m h =
     (if pc m < length code then
        let steps = saturating_add steps 1
        in if step_limit m < steps then (0, m, h)
           else let r = exec_one host (code ! pc m) (m\<lparr> pc := pc m + 1 \<rparr>) h
                in case fst r of
                     Some v \<Rightarrow> (v, snd r)
                   | None \<Rightarrow> run_loop host code steps (fst (snd r)) (snd (snd r))
      else (0, m, h))"
  by pat_completeness auto
termination
  by (relation "measure (\<lambda>(host, code, steps, m, h). length code - pc m)") (simp_all add: split_beta)

declare run_loop.simps [simp del]

definition run :: "'h host_api \<Rightarrow> op list \<Rightarrow> vm \<Rightarrow> 'h \<Rightarrow> i32 \<times> vm \<times> 'h" where
  "run host code m h = run_loop host code 0 (vm_reset m) h"

text \<open>The decoder: the new program counter, and the instruction or the error.\<close>

definition decode_op :: "bytes \<Rightarrow> usize \<Rightarrow> usize \<times> (vm_error + op)" where
  "decode_op code k =
     (if length code \<le> k then (k, Inl BadOpcode)
      else let b = code ! k; k = k + 1
           in if b = 0x01 then
                if length code < saturating_add k 4 then (k, Inl TruncatedImm)
                else (k + 4, Inr (PushI32 (of_le32 (code ! k) (code ! (k + 1)) (code ! (k + 2)) (code ! (k + 3)))))
              else if b = 0x02 then (k, Inr Add)
              else if b = 0x03 then (k, Inr Sub)
              else if b = 0x04 then (k, Inr Mul)
              else if b = 0x05 then (k, Inr Div)
              else if b = 0x06 then
                if length code \<le> k then (k, Inl TruncatedImm) else (k + 1, Inr (CallHost (code ! k)))
              else if b = 0x07 then (k, Inr Ret)
              else (k, Inl BadOpcode))"

lemma decode_op_grows: "k < length code \<Longrightarrow> k < fst (decode_op code k)"
  by (simp add: decode_op_def Let_def)

function run_bytes_loop :: "'h host_api \<Rightarrow> bytes \<Rightarrow> nat \<Rightarrow> vm \<Rightarrow> 'h \<Rightarrow> (vm_error + i32) \<times> vm \<times> 'h" where
  "run_bytes_loop host code steps m h =
     (if pc m < length code then
        let steps = saturating_add steps 1
        in if step_limit m < steps then (Inl StepLimit, m, h)
           else let d = decode_op code (pc m);
                    m1 = m\<lparr> pc := fst d \<rparr>
                in case snd d of
                     Inl e \<Rightarrow> (Inl e, m1, h)
                   | Inr p \<Rightarrow> let r = exec_one host p m1 h
                              in case fst r of
                                   Some v \<Rightarrow> (Inr v, snd r)
                                 | None \<Rightarrow> run_bytes_loop host code steps (fst (snd r)) (snd (snd r))
      else (Inr 0, m, h))"
  by pat_completeness auto
termination
  by (relation "measure (\<lambda>(host, code, steps, m, h). length code - pc m)")
    (simp_all add: split_beta diff_less_mono2 decode_op_grows)

declare run_bytes_loop.simps [simp del]

definition run_bytes :: "'h host_api \<Rightarrow> bytes \<Rightarrow> vm \<Rightarrow> 'h \<Rightarrow> (vm_error + i32) \<times> vm \<times> 'h" where
  "run_bytes host code m h = run_bytes_loop host code 0 (vm_reset m) h"

section \<open>Programs in pages\<close>

definition script_lower :: "u8 \<Rightarrow> u8" where
  "script_lower b = (if is_ascii_uppercase b then b + 32 else b)"

fun match_ci_at :: "bytes \<Rightarrow> bytes \<Rightarrow> bool" where
  "match_ci_at hay [] = True"
| "match_ci_at [] (n # ns) = False"
| "match_ci_at (c # hay) (n # ns) = (script_lower c = script_lower n \<and> match_ci_at hay ns)"

text \<open>The first index at which the needle matches; the window must fit in the rest of the text.\<close>

fun find_ci_from :: "nat \<Rightarrow> bytes \<Rightarrow> bytes \<Rightarrow> nat option" where
  "find_ci_from i [] needle = None"
| "find_ci_from i (c # hay) needle =
     (if match_ci_at (c # hay) needle then Some i else find_ci_from (Suc i) hay needle)"

definition find_ci :: "bytes \<Rightarrow> bytes \<Rightarrow> nat option" where
  "find_ci hay needle = (if needle = [] \<or> length hay < length needle then None else find_ci_from 0 hay needle)"

definition hex_nybble :: "u8 \<Rightarrow> u8 option" where
  "hex_nybble b =
     (if byte CHR ''0'' \<le> b \<and> b \<le> byte CHR ''9'' then Some (b - byte CHR ''0'')
      else if byte CHR ''a'' \<le> b \<and> b \<le> byte CHR ''f'' then Some (b - byte CHR ''a'' + 10)
      else if byte CHR ''A'' \<le> b \<and> b \<le> byte CHR ''F'' then Some (b - byte CHR ''A'' + 10)
      else None)"

definition is_script_space :: "u8 \<Rightarrow> bool" where
  "is_script_space b \<longleftrightarrow> b = 0x20 \<or> b = 0x09 \<or> b = 0x0D \<or> b = 0x0A"

text \<open>The loop over hex pairs; \<open>room\<close> is what is left of the 256 byte code array.\<close>

fun hex_pairs :: "nat \<Rightarrow> bytes \<Rightarrow> bytes" where
  "hex_pairs (Suc room) (a # b # rest) =
     (case hex_nybble a of None \<Rightarrow> [] | Some hi \<Rightarrow>
       (case hex_nybble b of None \<Rightarrow> [] | Some lo \<Rightarrow> (push_bit 4 hi OR lo) # hex_pairs room rest))"
| "hex_pairs room rest = []"

definition run_page_eve_script :: "bytes \<Rightarrow> bool \<Rightarrow> (vm_error + i32) option" where
  "run_page_eve_script raw enabled =
     (if \<not> enabled then None
      else let marker = ascii ''eve-script:''
           in case find_ci raw marker of
                None \<Rightarrow> None
              | Some at \<Rightarrow>
                let code = hex_pairs 256 (dropWhile is_script_space (drop (at + length marker) raw))
                in if code = [] then Some (Inl TruncatedImm)
                   else Some (fst (run_bytes null_host code vm_new ())))"

section \<open>The stack stays in bounds\<close>

definition vm_wf :: "vm \<Rightarrow> bool" where
  "vm_wf m \<longleftrightarrow> length (stack m) = 64 \<and> sp m \<le> 64"

text \<open>The values on the stack, the top first.\<close>

definition vm_values :: "vm \<Rightarrow> i32 list" where
  "vm_values m = rev (take (sp m) (stack m))"

lemma vm_wf_pc [simp]: "vm_wf (m\<lparr> pc := k \<rparr>) = vm_wf m" "vm_values (m\<lparr> pc := k \<rparr>) = vm_values m"
  by (simp_all add: vm_wf_def vm_values_def)

lemma vm_wf_new [simp]: "vm_wf vm_new" "vm_wf m \<Longrightarrow> vm_wf (vm_reset m)" "vm_values (vm_reset m) = []"
  by (simp_all add: vm_wf_def vm_new_def vm_reset_def vm_values_def)

lemma vm_wf_push_pop [simp]:
  "vm_wf m \<Longrightarrow> vm_wf (vm_push v m)" "vm_wf m \<Longrightarrow> vm_wf (snd (vm_pop m))"
  by (auto simp: vm_wf_def vm_push_def vm_pop_def Let_def)

lemma vm_wf_exec_one: "vm_wf m \<Longrightarrow> vm_wf (fst (snd (exec_one host p m h)))"
  by (cases p) (simp_all add: binop_def call_host_def split_beta Let_def)

lemma vm_values_push:
  "vm_wf m \<Longrightarrow> vm_values (vm_push v m) = (if length (vm_values m) < 64 then v # vm_values m else vm_values m)"
  by (auto simp: vm_wf_def vm_push_def vm_values_def take_Suc_conv_app_nth min_def)

lemma length_vm_values: "vm_wf m \<Longrightarrow> length (vm_values m) = sp m"
  by (simp add: vm_wf_def vm_values_def)

lemma vm_values_pop:
  assumes "vm_wf m"
  shows "fst (vm_pop m) = (case vm_values m of [] \<Rightarrow> 0 | v # _ \<Rightarrow> v)"
    and "vm_values (snd (vm_pop m)) = tl (vm_values m)"
proof -
  have "vm_pop m = (hd (vm_values m), m\<lparr> sp := sp m - 1 \<rparr>)" "vm_values m = stack m ! (sp m - 1) # rev (take (sp m - 1) (stack m))"
    if "sp m \<noteq> 0"
    using that assms by (cases "sp m"; simp add: vm_wf_def vm_values_def vm_pop_def Let_def take_Suc_conv_app_nth)+
  then show "fst (vm_pop m) = (case vm_values m of [] \<Rightarrow> 0 | v # _ \<Rightarrow> v)"
      and "vm_values (snd (vm_pop m)) = tl (vm_values m)"
    by (cases "sp m = 0"; simp add: vm_pop_def vm_values_def)+
qed

text \<open>The effect of an instruction on the list of values; the new top is dropped on a full stack.\<close>

definition push_val :: "i32 \<Rightarrow> i32 list \<Rightarrow> i32 list" where
  "push_val v vs = (if length vs < 64 then v # vs else vs)"

definition top_val :: "i32 list \<Rightarrow> i32" where
  "top_val vs = (case vs of [] \<Rightarrow> 0 | v # _ \<Rightarrow> v)"

fun exec_vals :: "'h host_api \<Rightarrow> op \<Rightarrow> i32 list \<Rightarrow> 'h \<Rightarrow> i32 option \<times> i32 list \<times> 'h" where
  "exec_vals host (PushI32 v) vs h = (None, push_val v vs, h)"
| "exec_vals host Add vs h = (None, push_val (top_val (tl vs) + top_val vs) (tl (tl vs)), h)"
| "exec_vals host Sub vs h = (None, push_val (top_val (tl vs) - top_val vs) (tl (tl vs)), h)"
| "exec_vals host Mul vs h = (None, push_val (top_val (tl vs) * top_val vs) (tl (tl vs)), h)"
| "exec_vals host Div vs h = (None, push_val (vm_div (top_val (tl vs)) (top_val vs)) (tl (tl vs)), h)"
| "exec_vals host (CallHost cid) vs h =
     (if cid = 0 then (case timer_set host h (clamp_u32 (top_val vs)) of (r, h) \<Rightarrow> (None, push_val r (tl vs), h))
      else if cid = 1 then (case fetch_start host h (top_val vs) of (r, h) \<Rightarrow> (None, push_val r (tl vs), h))
      else if cid = 2 then (case storage_get host h (top_val vs) of (r, h) \<Rightarrow> (None, push_val r (tl vs), h))
      else if cid = 3 then (case storage_set host h (top_val (tl vs)) (top_val vs) of (r, h)
             \<Rightarrow> (None, push_val r (tl (tl vs)), h))
      else (None, push_val (- 1) vs, h))"
| "exec_vals host Ret vs h = (Some (top_val vs), tl vs, h)"

lemma exec_one_vals:
  assumes "vm_wf m"
  shows "fst (exec_one host p m h) = fst (exec_vals host p (vm_values m) h)"
    and "vm_values (fst (snd (exec_one host p m h))) = fst (snd (exec_vals host p (vm_values m) h))"
    and "snd (snd (exec_one host p m h)) = snd (snd (exec_vals host p (vm_values m) h))"
  using assms
  by (cases p; simp add: binop_def call_host_def split_beta Let_def vm_values_push vm_values_pop
      push_val_def top_val_def)+

lemma exec_one_limit [simp]: "step_limit (fst (snd (exec_one host p m h))) = step_limit m"
  by (cases p) (simp_all add: binop_def call_host_def split_beta Let_def vm_push_def vm_pop_def)

section \<open>Bytecode runs like instructions\<close>

fun assemble1 :: "op \<Rightarrow> bytes" where
  "assemble1 (PushI32 v) = 0x01 # to_le32 v"
| "assemble1 Add = [0x02]"
| "assemble1 Sub = [0x03]"
| "assemble1 Mul = [0x04]"
| "assemble1 Div = [0x05]"
| "assemble1 (CallHost cid) = [0x06, cid]"
| "assemble1 Ret = [0x07]"

definition assemble :: "op list \<Rightarrow> bytes" where
  "assemble ops = concat (map assemble1 ops)"

lemma assemble1_not_Nil [simp]: "assemble1 p \<noteq> []"
  by (cases p) simp_all

lemma decode_assemble:
  assumes "int (length pre) + 5 \<le> USIZE_MAX"
  shows "decode_op (pre @ assemble1 p @ rest) (length pre) = (length pre + length (assemble1 p), Inr p)"
proof -
  have "saturating_add (Suc (length pre)) 4 = length pre + 5"
    using assms by (simp add: saturating_add_def)
  then show ?thesis
    by (cases p) (simp_all add: decode_op_def nth_append to_le32_def Let_def del: of_be32.simps)
qed

text \<open>The two machines side by side; they differ in the program counter only.\<close>

lemma run_loop_bytes:
  assumes "vm_wf m" "vm_wf m'" "vm_values m' = vm_values m" "step_limit m' = step_limit m"
    "pc m = length pre" "pc m' = length (assemble pre)" "steps + length ops \<le> step_limit m"
    "int (length (assemble (pre @ ops))) + 5 \<le> USIZE_MAX" "int (step_limit m) < USIZE_MAX"
  shows "fst (run_bytes_loop host (assemble (pre @ ops)) steps m' h) = Inr (fst (run_loop host (pre @ ops) steps m h))
    \<and> snd (snd (run_bytes_loop host (assemble (pre @ ops)) steps m' h)) = snd (snd (run_loop host (pre @ ops) steps m h))"
  using assms
proof (induction ops arbitrary: pre steps m m' h)
  case Nil
  then show ?case
    by (simp add: run_loop.simps [of host pre] run_bytes_loop.simps [of host "assemble pre"])
next
  case (Cons p ops)
  let ?code = "assemble (pre @ p # ops)"
  have code: "?code = assemble pre @ assemble1 p @ assemble ops" by (simp add: assemble_def)
  have sat: "saturating_add steps 1 = steps + 1"
    using Cons.prems(7,9) by (simp add: saturating_add_def)
  have dec: "decode_op ?code (pc m') = (length (assemble pre) + length (assemble1 p), Inr p)"
    unfolding code Cons.prems(6) by (rule decode_assemble) (use Cons.prems(8) in \<open>simp add: code\<close>)
  let ?k = "length (assemble pre) + length (assemble1 p)"
  let ?m = "m\<lparr> pc := pc m + 1 \<rparr>" and ?m' = "m'\<lparr> pc := ?k \<rparr>"
  let ?r = "exec_one host p ?m h" and ?r' = "exec_one host p ?m' h"
  have wf: "vm_wf ?m" "vm_wf ?m'" "vm_values ?m' = vm_values ?m" using Cons.prems by simp_all
  have same: "fst ?r' = fst ?r" "snd (snd ?r') = snd (snd ?r)"
      "vm_values (fst (snd ?r')) = vm_values (fst (snd ?r))"
    using exec_one_vals [OF wf(1), of host p h] exec_one_vals [OF wf(2), of host p h] wf(3) by simp_all
  have step: "run_loop host (pre @ p # ops) steps m h = (case fst ?r of Some v \<Rightarrow> (v, snd ?r)
      | None \<Rightarrow> run_loop host (pre @ p # ops) (steps + 1) (fst (snd ?r)) (snd (snd ?r)))"
    using Cons.prems(5,7) sat by (subst run_loop.simps) (simp add: Let_def cong: option.case_cong)
  have "pc m' < length ?code" using Cons.prems(6) by (simp add: code)
  then have step': "run_bytes_loop host ?code steps m' h = (case fst ?r' of Some v \<Rightarrow> (Inr v, snd ?r')
      | None \<Rightarrow> run_bytes_loop host ?code (steps + 1) (fst (snd ?r')) (snd (snd ?r')))"
    using Cons.prems(4,7) sat by (subst run_bytes_loop.simps) (simp add: Let_def dec cong: option.case_cong)
  show ?case
  proof (cases "fst ?r")
    case (Some v)
    then show ?thesis using same unfolding step step' by simp
  next
    case None
    have "fst (run_bytes_loop host (assemble ((pre @ [p]) @ ops)) (steps + 1) (fst (snd ?r')) (snd (snd ?r)))
        = Inr (fst (run_loop host ((pre @ [p]) @ ops) (steps + 1) (fst (snd ?r)) (snd (snd ?r))))
      \<and> snd (snd (run_bytes_loop host (assemble ((pre @ [p]) @ ops)) (steps + 1) (fst (snd ?r')) (snd (snd ?r))))
        = snd (snd (run_loop host ((pre @ [p]) @ ops) (steps + 1) (fst (snd ?r)) (snd (snd ?r))))"
      by (rule Cons.IH) (use Cons.prems wf same in \<open>simp_all add: vm_wf_exec_one assemble_def\<close>)
    with None same show ?thesis unfolding step step' by simp
  qed
qed



section \<open>Expressions\<close>

text \<open>Arithmetic expressions, their value on \<open>i32\<close>, the code in postfix order and the stack it needs.\<close>

datatype expr = Lit i32 | Plus expr expr | Minus expr expr | Times expr expr | Over expr expr

fun eval :: "expr \<Rightarrow> i32" where
  "eval (Lit v) = v"
| "eval (Plus a b) = eval a + eval b"
| "eval (Minus a b) = eval a - eval b"
| "eval (Times a b) = eval a * eval b"
| "eval (Over a b) = vm_div (eval a) (eval b)"

fun postfix :: "expr \<Rightarrow> op list" where
  "postfix (Lit v) = [PushI32 v]"
| "postfix (Plus a b) = postfix a @ postfix b @ [Add]"
| "postfix (Minus a b) = postfix a @ postfix b @ [Sub]"
| "postfix (Times a b) = postfix a @ postfix b @ [Mul]"
| "postfix (Over a b) = postfix a @ postfix b @ [Div]"

fun depth :: "expr \<Rightarrow> nat" where
  "depth (Lit v) = 1"
| "depth (Plus a b) = max (depth a) (Suc (depth b))"
| "depth (Minus a b) = max (depth a) (Suc (depth b))"
| "depth (Times a b) = max (depth a) (Suc (depth b))"
| "depth (Over a b) = max (depth a) (Suc (depth b))"

lemma depth_pos [simp]: "0 < depth e"
  by (induction e) (simp_all add: less_max_iff_disj)

text \<open>A run of instructions none of which is \<open>Ret\<close>, on the list of values.\<close>

fun exec_many :: "'h host_api \<Rightarrow> op list \<Rightarrow> i32 list \<Rightarrow> 'h \<Rightarrow> i32 list \<times> 'h" where
  "exec_many host [] vs h = (vs, h)"
| "exec_many host (p # ps) vs h =
     (case exec_vals host p vs h of (_, vs, h) \<Rightarrow> exec_many host ps vs h)"

lemma exec_many_append:
  "exec_many host (ps @ qs) vs h = (case exec_many host ps vs h of (vs, h) \<Rightarrow> exec_many host qs vs h)"
  by (induction ps arbitrary: vs h) (simp_all split: prod.splits)

lemma exec_many_postfix:
  "length vs + depth e \<le> 64 \<Longrightarrow> exec_many host (postfix e) vs h = (eval e # vs, h)"
proof (induction e arbitrary: vs)
  case (Lit v)
  then show ?case by (simp add: push_val_def)
qed (simp_all add: exec_many_append push_val_def top_val_def)

lemma run_loop_prefix:
  assumes "Ret \<notin> set ops" "vm_wf m" "pc m = length pre" "steps + length ops \<le> step_limit m"
    "int (step_limit m) < USIZE_MAX"
  shows "\<exists>m'. run_loop host (pre @ ops @ rest) steps m h
      = run_loop host (pre @ ops @ rest) (steps + length ops) m' (snd (exec_many host ops (vm_values m) h))
    \<and> vm_wf m' \<and> pc m' = length pre + length ops \<and> step_limit m' = step_limit m
    \<and> vm_values m' = fst (exec_many host ops (vm_values m) h)"
  using assms
proof (induction ops arbitrary: pre steps m h)
  case Nil
  then show ?case by auto
next
  case (Cons p ops)
  let ?m = "m\<lparr> pc := pc m + 1 \<rparr>"
  let ?r = "exec_one host p ?m h"
  have sat: "saturating_add steps 1 = steps + 1"
    using Cons.prems(4,5) by (simp add: saturating_add_def)
  have wf: "vm_wf ?m" using Cons.prems(2) by simp
  have "p \<noteq> Ret" using Cons.prems(1) by auto
  then have none: "fst ?r = None" by (cases p) (simp_all add: split_beta Let_def)
  have step: "run_loop host (pre @ (p # ops) @ rest) steps m h
      = run_loop host ((pre @ [p]) @ ops @ rest) (steps + 1) (fst (snd ?r)) (snd (snd ?r))"
    using Cons.prems(3,4) sat none by (subst run_loop.simps) (simp add: Let_def)
  have vals: "exec_vals host p (vm_values m) h = (None, vm_values (fst (snd ?r)), snd (snd ?r))"
    using exec_one_vals [OF wf, of host p h] none by (simp add: prod_eq_iff)
  from Cons.IH [of "fst (snd ?r)" "pre @ [p]" "steps + 1" "snd (snd ?r)"] Cons.prems wf vals
  show ?case unfolding step by (simp add: vm_wf_exec_one)
qed

lemma Ret_postfix [simp]: "Ret \<notin> set (postfix e)"
  by (induction e) simp_all

text \<open>
  The machine evaluates expressions: the postfix code of any expression over the four operations
  that needs at most 64 stack slots, followed by \<open>Ret\<close>, returns the value of the expression in
  wrapping 32 bit arithmetic (a division by zero counts as 0), for any host and from any
  machine state.
\<close>

theorem run_postfix:
  assumes "vm_wf m" "depth e \<le> 64" "length (postfix e) < step_limit m" "int (step_limit m) < USIZE_MAX"
  shows "fst (run host (postfix e @ [Ret]) m h) = eval e"
proof -
  let ?m = "vm_reset m"
  have m: "vm_wf ?m" "pc ?m = 0" "step_limit ?m = step_limit m" "vm_values ?m = []"
    using assms(1) by (simp_all add: vm_reset_def vm_wf_def vm_values_def)
  have many: "exec_many host (postfix e) [] h = ([eval e], h)"
    using exec_many_postfix [of "[]" e host h] assms(2) by simp
  obtain m' where loop: "run_loop host (postfix e @ [Ret]) 0 ?m h
        = run_loop host (postfix e @ [Ret]) (length (postfix e)) m' h"
      and m': "vm_wf m'" "pc m' = length (postfix e)" "step_limit m' = step_limit m" "vm_values m' = [eval e]"
    using run_loop_prefix [of "postfix e" ?m "[]" 0 host "[Ret]" h] m assms many by auto
  have sat: "saturating_add (length (postfix e)) 1 = length (postfix e) + 1"
    using assms(3,4) by (simp add: saturating_add_def)
  have "fst (exec_one host Ret (m'\<lparr> pc := pc m' + 1 \<rparr>) h) = Some (eval e)"
    using exec_one_vals(1) [of "m'\<lparr> pc := pc m' + 1 \<rparr>" host Ret h] m' by (simp add: top_val_def)
  then have "fst (run_loop host (postfix e @ [Ret]) (length (postfix e)) m' h) = eval e"
    using m' assms(3) sat by (subst run_loop.simps) (simp add: Let_def)
  with loop show ?thesis by (simp add: run_def)
qed

theorem run_postfix_witness:
  "fst (run null_host (postfix (Times (Plus (Lit 2) (Lit 3)) (Lit 8)) @ [Ret]) vm_new ())
    = eval (Times (Plus (Lit 2) (Lit 3)) (Lit 8))"
  by (rule run_postfix) (simp_all add: vm_new_def USIZE_MAX_def vm_wf_def)

section \<open>Programs found in pages\<close>

definition hex_digit :: "u8 \<Rightarrow> u8" where
  "hex_digit n = (if n < 10 then byte CHR ''0'' + n else byte CHR ''a'' + (n - 10))"

definition to_hex :: "bytes \<Rightarrow> bytes" where
  "to_hex code = concat (map (\<lambda>b. [hex_digit (drop_bit 4 b), hex_digit (b AND 0xF)]) code)"

lemma hex_nybble_digit: "n < 16 \<Longrightarrow> hex_nybble (hex_digit n) = Some n"
proof -
  assume "n < 16"
  then have "unat n < 16" by (simp add: word_less_nat_alt)
  then have "unat n \<in> set [0..<16]" by simp
  moreover have "list_all (\<lambda>k. hex_nybble (hex_digit (of_nat k)) = Some (of_nat k)) [0..<16]" by code_simp
  ultimately have "hex_nybble (hex_digit (of_nat (unat n))) = Some (of_nat (unat n))" by (simp only: list_all_iff)
  then show ?thesis by simp
qed

lemma nybbles: "drop_bit 4 b < (16 :: u8)" "b AND 0xF < (16 :: u8)" "push_bit 4 (drop_bit 4 b) OR (b AND 0xF) = b"
proof -
  have "unat (drop_bit 4 b) = unat b div 16" by (simp add: drop_bit_eq_div unat_div_distrib)
  moreover have "unat b div 16 < 16" using unat_u8_le [of b] by linarith
  ultimately show "drop_bit 4 b < 16" by (simp add: word_less_nat_alt)
  show "b AND 0xF < 16" by (rule le_less_trans [OF word_and_le1]) simp
  have "b AND 0xF = take_bit 4 b" by (simp add: take_bit_eq_mask mask_eq_exp_minus_1)
  then show "push_bit 4 (drop_bit 4 b) OR (b AND 0xF) = b"
    by (simp only:) (rule bit_word_eqI, auto simp: bit_simps)
qed

lemma hex_pairs_to_hex:
  assumes "length code \<le> room" "rest = [] \<or> hex_nybble (hd rest) = None"
  shows "hex_pairs room (to_hex code @ rest) = code"
  using assms(1)
proof (induction code arbitrary: room)
  case Nil
  from assms(2) show ?case
    by (cases "(room, rest)" rule: hex_pairs.cases) (auto simp: to_hex_def)
next
  case (Cons b code)
  then obtain room' where "room = Suc room'" by (cases room) auto
  with Cons show ?case by (simp add: to_hex_def hex_nybble_digit nybbles)
qed

lemma dropWhile_spaces:
  "\<forall>c\<in>set ws. is_script_space c \<Longrightarrow> code \<noteq> [] \<Longrightarrow> dropWhile is_script_space (ws @ to_hex code @ rest) = to_hex code @ rest"
proof -
  assume ws: "\<forall>c\<in>set ws. is_script_space c" and "code \<noteq> []"
  then obtain b bs where code: "code = b # bs" by (cases code) auto
  have "\<not> is_script_space (hex_digit (drop_bit 4 b))"
    using hex_nybble_digit [OF nybbles(1) [of b]]
    by (auto simp: is_script_space_def hex_nybble_def)
  with ws show ?thesis by (simp add: code to_hex_def dropWhile_append2)
qed

text \<open>
  A program embedded in a page is run: if the marker \<open>eve-script:\<close> is first found at \<open>at\<close> and is
  followed by white space, the hex digits of the bytecode of 1 to 256 bytes and something that
  is not a hex digit, then \<open>run_page_eve_script\<close> returns what the byte machine returns for that code
  on a fresh machine; with the runtime disabled nothing is run.
\<close>

theorem run_page_finds_program:
  assumes "find_ci raw (ascii ''eve-script:'') = Some at" "drop (at + 11) raw = ws @ to_hex code @ rest"
    "\<forall>c\<in>set ws. is_script_space c" "code \<noteq> []" "length code \<le> 256"
    "rest = [] \<or> hex_nybble (hd rest) = None"
  shows "run_page_eve_script raw True = Some (fst (run_bytes null_host code vm_new ()))
    \<and> run_page_eve_script raw False = None"
proof -
  have len: "length (ascii ''eve-script:'') = 11" by simp
  have code: "hex_pairs 256 (dropWhile is_script_space (drop (at + 11) raw)) = code"
    unfolding assms(2) dropWhile_spaces [OF assms(3,4)] by (rule hex_pairs_to_hex [OF assms(5,6)])
  show ?thesis unfolding run_page_eve_script_def Let_def len assms(1) option.case code
    using assms(4) by simp
qed

theorem run_page_finds_program_witness:
  "run_page_eve_script (ascii ''<p>Eve-Script: 010500000007</p>'') True
      = Some (fst (run_bytes null_host (assemble [PushI32 5, Ret]) vm_new ()))
    \<and> run_page_eve_script (ascii ''<p>Eve-Script: 010500000007</p>'') False = None"
  by (rule run_page_finds_program [where at = 3 and ws = "[0x20]" and rest = "ascii ''</p>''"]) code_simp+

end
