(* ===== verification/Eve_Dom.thy ===== *)
theory Eve_Dom
  imports Eve_Prelude
begin

text \<open>
  The text tree of the browser, \<open>kernel/src/dom.rs\<close>: a node arena with sibling links, a text arena
  and \<open>build_text_dom\<close>. The walk along the sibling links may in principle not end; it is a partial
  function into \<open>option\<close>, and the lemmas show that it ends on every tree the builder makes. The
  result is compared with a reference that splits the text at its line feeds.
\<close>

section \<open>Nodes and trees\<close>

datatype node_kind = Element | Text

record style_hints =
  display_none :: bool
  indent_spaces :: u8

definition style_hints_new :: style_hints where
  "style_hints_new = \<lparr> display_none = False, indent_spaces = 0 \<rparr>"

record dom_node =
  node_kind :: node_kind
  node_parent :: "u16 option"
  first_child :: "u16 option"
  next_sibling :: "u16 option"
  text_start :: u16
  node_text_len :: u16
  node_style :: style_hints

definition dom_node_empty :: dom_node where
  "dom_node_empty = \<lparr> node_kind = Element, node_parent = None, first_child = None, next_sibling = None,
     text_start = 0, node_text_len = 0, node_style = style_hints_new \<rparr>"

abbreviation (input) "DOM_MAX_NODES \<equiv> 512 :: nat"
abbreviation (input) "DOM_TEXT_ARENA \<equiv> 8192 :: nat"

record dom_tree =
  dom_nodes :: "dom_node list"
  node_count :: usize
  dom_text :: bytes
  dom_text_len :: usize

definition dom_tree_new :: dom_tree where
  "dom_tree_new = \<lparr> dom_nodes = replicate DOM_MAX_NODES dom_node_empty, node_count = 0,
     dom_text = replicate DOM_TEXT_ARENA 0, dom_text_len = 0 \<rparr>"

definition dom_reset :: "dom_tree \<Rightarrow> dom_tree" where
  "dom_reset t = t\<lparr> node_count := 0, dom_text_len := 0 \<rparr>"

section \<open>Building\<close>

text \<open>The walk to the last sibling.\<close>

partial_function (option) last_sibling :: "dom_node list \<Rightarrow> nat \<Rightarrow> nat option" where
  "last_sibling nodes n =
     (case next_sibling (nodes ! n) of None \<Rightarrow> Some n | Some nx \<Rightarrow> last_sibling nodes (unat nx))"

declare last_sibling.simps [code]

definition text_node :: "usize \<Rightarrow> usize \<Rightarrow> dom_node" where
  "text_node start len = \<lparr> node_kind = Text, node_parent = Some 0, first_child = None, next_sibling = None,
     text_start = of_nat (min start 65535), node_text_len = of_nat (min len 65535), node_style = style_hints_new \<rparr>"

definition push_text_node :: "dom_tree \<Rightarrow> usize \<Rightarrow> usize \<Rightarrow> dom_tree option" where
  "push_text_node t start len =
     (if length (dom_nodes t) \<le> node_count t then Some t
      else let idx = node_count t;
               nodes = (dom_nodes t)[idx := text_node start len];
               t = t\<lparr> node_count := node_count t + 1, dom_nodes := nodes \<rparr>
           in case first_child (nodes ! 0) of
                None \<Rightarrow> Some (t\<lparr> dom_nodes := nodes[0 := (nodes ! 0)\<lparr> first_child := Some (of_nat idx) \<rparr>] \<rparr>)
              | Some c \<Rightarrow> map_option (\<lambda>n. t\<lparr> dom_nodes := nodes[n := (nodes ! n)\<lparr> next_sibling := Some (of_nat idx) \<rparr>] \<rparr>)
                    (last_sibling nodes (unat c)))"

text \<open>One byte of the page; the second component is \<open>cur_text_start\<close>.\<close>

definition dom_byte :: "u8 \<Rightarrow> dom_tree \<times> usize \<Rightarrow> (dom_tree \<times> usize) option" where
  "dom_byte b = (\<lambda>(t, cur).
     if b = byte CHR ''<'' \<or> b = 0x0D then Some (t, cur)
     else if b = 0x0A then
       (if cur < dom_text_len t
        then map_option (\<lambda>t. (t, dom_text_len t)) (push_text_node t cur (dom_text_len t - cur))
        else Some (t, dom_text_len t))
     else if dom_text_len t < length (dom_text t)
     then Some (t\<lparr> dom_text := (dom_text t)[dom_text_len t := b], dom_text_len := dom_text_len t + 1 \<rparr>, cur)
     else Some (t, cur))"

fun dom_bytes :: "bytes \<Rightarrow> dom_tree \<times> usize \<Rightarrow> (dom_tree \<times> usize) option" where
  "dom_bytes [] s = Some s"
| "dom_bytes (b # bs) s = (case dom_byte b s of None \<Rightarrow> None | Some s \<Rightarrow> dom_bytes bs s)"

definition build_text_dom :: "bytes \<Rightarrow> dom_tree \<Rightarrow> dom_tree option" where
  "build_text_dom raw out =
     (let t = dom_reset out;
          t = (if node_count t < length (dom_nodes t)
               then t\<lparr> dom_nodes := (dom_nodes t)[0 := dom_node_empty], node_count := 1 \<rparr> else t)
      in case dom_bytes raw (t, dom_text_len t) of
           None \<Rightarrow> None
         | Some (t, cur) \<Rightarrow>
             if cur < dom_text_len t then push_text_node t cur (dom_text_len t - cur) else Some t)"

section \<open>Well-formed trees\<close>

text \<open>The arenas have their sizes; the nodes 1 to \<open>node_count - 1\<close> are the children of the root in order.\<close>

definition child_ok :: "dom_tree \<Rightarrow> nat \<Rightarrow> bool" where
  "child_ok t i \<longleftrightarrow> node_kind (dom_nodes t ! i) = Text \<and> node_parent (dom_nodes t ! i) = Some 0
     \<and> first_child (dom_nodes t ! i) = None
     \<and> next_sibling (dom_nodes t ! i) = (if Suc i < node_count t then Some (of_nat (Suc i)) else None)
     \<and> unat (text_start (dom_nodes t ! i)) + unat (node_text_len (dom_nodes t ! i)) \<le> dom_text_len t"

definition dom_wf :: "dom_tree \<Rightarrow> bool" where
  "dom_wf t \<longleftrightarrow> length (dom_nodes t) = 512 \<and> length (dom_text t) = 8192 \<and> dom_text_len t \<le> 8192
     \<and> 1 \<le> node_count t \<and> node_count t \<le> 512
     \<and> first_child (dom_nodes t ! 0) = (if 1 < node_count t then Some 1 else None)
     \<and> (\<forall>i. 1 \<le> i \<and> i < node_count t \<longrightarrow> child_ok t i)"

definition node_text :: "dom_tree \<Rightarrow> nat \<Rightarrow> bytes" where
  "node_text t i = (let n = dom_nodes t ! i; a = unat (text_start n)
     in slice (dom_text t) a (a + unat (node_text_len n)))"

definition dom_texts :: "dom_tree \<Rightarrow> bytes list" where
  "dom_texts t = map (node_text t) [1..<node_count t]"

lemma unat_u16_small: "n \<le> 8192 \<Longrightarrow> unat (of_nat (min n 65535) :: u16) = n"
  by (simp add: unat_of_nat_small)

lemma unat_u16_idx: "n \<le> 512 \<Longrightarrow> unat (of_nat n :: u16) = n"
  by (rule unat_of_nat_small) simp

text \<open>On a chain of consecutive nodes the walk ends at the last one.\<close>

lemma last_sibling_chain:
  assumes "\<forall>i. n \<le> i \<and> i < z \<longrightarrow> next_sibling (nodes ! i) = Some (of_nat (Suc i))"
    "next_sibling (nodes ! z) = None" "n \<le> z" "z \<le> 512"
  shows "last_sibling nodes n = Some z"
  using assms(3,1)
proof (induction rule: inc_induct)
  case base
  then show ?case using assms(2) by (simp add: last_sibling.simps)
next
  case (step n)
  then have "last_sibling nodes (Suc n) = Some z" by simp
  moreover have "unat (of_nat (Suc n) :: u16) = Suc n" using step.hyps assms(4) by (intro unat_u16_idx) simp
  moreover have "next_sibling (nodes ! n) = Some (of_nat (Suc n))" using step by simp
  ultimately show ?case by (subst last_sibling.simps) (simp del: of_nat_Suc)
qed

lemma push_text_node_full: "node_count t = 512 \<Longrightarrow> dom_wf t \<Longrightarrow> push_text_node t start len = Some t"
  by (simp add: push_text_node_def dom_wf_def)

text \<open>The new node is linked behind the last child.\<close>

definition linked :: "dom_tree \<Rightarrow> usize \<Rightarrow> usize \<Rightarrow> dom_tree" where
  "linked t start len =
     (let c = node_count t; nodes = (dom_nodes t)[c := text_node start len]
      in t\<lparr> node_count := c + 1, dom_nodes := (if c = 1
             then nodes[0 := (nodes ! 0)\<lparr> first_child := Some 1 \<rparr>]
             else nodes[c - 1 := (nodes ! (c - 1))\<lparr> next_sibling := Some (of_nat c) \<rparr>]) \<rparr>)"

lemma push_text_node_room:
  assumes "dom_wf t" "node_count t < 512"
  shows "push_text_node t start len = Some (linked t start len)"
proof -
  let ?c = "node_count t" and ?nodes = "(dom_nodes t)[node_count t := text_node start len]"
  have c: "1 \<le> ?c" "length (dom_nodes t) = 512"
      "first_child (dom_nodes t ! 0) = (if 1 < ?c then Some 1 else None)"
    using assms(1) by (simp_all add: dom_wf_def)
  show ?thesis
  proof (cases "?c = 1")
    case True
    with assms(2) c show ?thesis by (simp add: push_text_node_def linked_def Let_def)
  next
    case False
    have next_sib: "next_sibling (dom_nodes t ! i) = (if Suc i < ?c then Some (of_nat (Suc i)) else None)"
      if "1 \<le> i" "i < ?c" for i
      using assms(1) that by (simp add: dom_wf_def child_ok_def)
    have "last_sibling ?nodes 1 = Some (?c - 1)"
    proof (rule last_sibling_chain)
      show "\<forall>i. 1 \<le> i \<and> i < ?c - 1 \<longrightarrow> next_sibling (?nodes ! i) = Some (of_nat (Suc i))"
        using next_sib by auto
      show "next_sibling (?nodes ! (?c - 1)) = None" using next_sib [of "?c - 1"] c False by simp
    qed (use False c assms(2) in auto)
    with False assms(2) c show ?thesis by (simp add: push_text_node_def linked_def Let_def)
  qed
qed

lemma linked_child:
  assumes "dom_wf t" "node_count t < 512" "start + len = dom_text_len t" "1 \<le> i" "i \<le> node_count t"
  shows "child_ok (linked t start len) i"
    and "node_text (linked t start len) i
      = (if i = node_count t then slice (dom_text t) start (start + len) else node_text t i)"
proof -
  let ?c = "node_count t"
  have wf: "1 \<le> ?c" "length (dom_nodes t) = 512" "dom_text_len t \<le> 8192" using assms(1) by (simp_all add: dom_wf_def)
  have small: "unat (of_nat (min start 65535) :: u16) = start" "unat (of_nat (min len 65535) :: u16) = len"
    using assms(3) wf(3) by (intro unat_u16_small; simp)+
  have old: "child_ok t j" if "1 \<le> j" "j < ?c" for j using assms(1) that by (simp add: dom_wf_def)
  have node: "dom_nodes (linked t start len) ! i = (if i = ?c then text_node start len
      else if Suc i = ?c then (dom_nodes t ! i)\<lparr> next_sibling := Some (of_nat ?c) \<rparr> else dom_nodes t ! i)"
    using assms(2,4,5) wf by (auto simp: linked_def Let_def nth_list_update)
  have cnt: "node_count (linked t start len) = ?c + 1" "dom_text (linked t start len) = dom_text t"
      "dom_text_len (linked t start len) = dom_text_len t"
    by (simp_all add: linked_def Let_def)
  show "child_ok (linked t start len) i"
    using old [of i] assms(3-5) small by (auto simp: child_ok_def node cnt text_node_def simp del: of_nat_Suc)
  show "node_text (linked t start len) i
      = (if i = ?c then slice (dom_text t) start (start + len) else node_text t i)"
    using small by (simp add: node_text_def node cnt text_node_def Let_def)
qed

lemma linked_wf:
  assumes "dom_wf t" "node_count t < 512" "start + len = dom_text_len t"
  shows "dom_wf (linked t start len)"
    and "dom_texts (linked t start len) = dom_texts t @ [slice (dom_text t) start (start + len)]"
    and "dom_text (linked t start len) = dom_text t" "dom_text_len (linked t start len) = dom_text_len t"
    and "node_count (linked t start len) = Suc (node_count t)"
proof -
  let ?c = "node_count t"
  have wf: "1 \<le> ?c" "length (dom_nodes t) = 512" using assms(1) by (simp_all add: dom_wf_def)
  show eqs: "dom_text (linked t start len) = dom_text t" "dom_text_len (linked t start len) = dom_text_len t"
      "node_count (linked t start len) = Suc ?c"
    by (simp_all add: linked_def Let_def)
  have root: "first_child (dom_nodes (linked t start len) ! 0) = Some 1"
    using assms(1,2) wf by (auto simp: linked_def Let_def dom_wf_def nth_list_update)
  have len: "length (dom_nodes (linked t start len)) = 512" using wf by (simp add: linked_def Let_def)
  show "dom_wf (linked t start len)"
    using assms(1,2) root len linked_child(1) [OF assms] by (simp add: dom_wf_def eqs)
  show "dom_texts (linked t start len) = dom_texts t @ [slice (dom_text t) start (start + len)]"
    using wf linked_child(2) [OF assms] by (simp add: dom_texts_def eqs)
qed

text \<open>Pushing the text since \<open>start\<close> adds one child unless the arena is full.\<close>

lemma push_text_node_ok:
  assumes "dom_wf t" "start \<le> dom_text_len t"
  obtains t' where "push_text_node t start (dom_text_len t - start) = Some t'" "dom_wf t'"
    "dom_texts t' = take 511 (dom_texts t @ [slice (dom_text t) start (dom_text_len t)])"
    "dom_text t' = dom_text t" "dom_text_len t' = dom_text_len t"
proof (cases "node_count t < 512")
  case True
  have "length (dom_texts t) < 511" using True assms(1) by (auto simp: dom_texts_def dom_wf_def)
  with that [OF push_text_node_room [OF assms(1) True]] linked_wf [OF assms(1) True, of start "dom_text_len t - start"] assms(2)
  show thesis by simp
next
  case False
  then have c: "node_count t = 512" using assms(1) by (simp add: dom_wf_def)
  then have "length (dom_texts t) = 511" by (simp add: dom_texts_def)
  with that [OF push_text_node_full [OF c assms(1)] assms(1)] show thesis by simp
qed

section \<open>The builder against its reference\<close>

text \<open>The lines of a page: line feeds separate, carriage returns and left angle brackets vanish.\<close>

definition page_text :: "bytes \<Rightarrow> bytes" where
  "page_text raw = filter (\<lambda>b. b \<noteq> byte CHR ''<'' \<and> b \<noteq> 0x0D) raw"

definition page_lines :: "bytes \<Rightarrow> bytes list" where
  "page_lines raw = filter (\<lambda>l. l \<noteq> []) (split_on (\<lambda>b. b = 0x0A) (page_text raw))"

text \<open>Lines found so far: \<open>ls\<close> finished ones and the open one \<open>p\<close>.\<close>

definition flush :: "bytes list \<Rightarrow> bytes \<Rightarrow> bytes list" where
  "flush ls p = (if p = [] then ls else ls @ [p])"

lemma flush_simps [simp]: "flush ls [] = ls" "p \<noteq> [] \<Longrightarrow> flush ls p = ls @ [p]"
  by (simp_all add: flush_def)

fun gather_lines :: "bytes list \<Rightarrow> bytes \<Rightarrow> bytes \<Rightarrow> bytes list" where
  "gather_lines ls p [] = flush ls p"
| "gather_lines ls p (b # bs) =
     (if b = byte CHR ''<'' \<or> b = 0x0D then gather_lines ls p bs
      else if b = 0x0A then gather_lines (flush ls p) [] bs
      else gather_lines ls (p @ [b]) bs)"

lemma gather_lines_eq:
  "gather_lines ls p raw = ls @ filter (\<lambda>l. l \<noteq> [])
     (case split_on (\<lambda>b. b = 0x0A) (page_text raw) of [] \<Rightarrow> [] | l # rest \<Rightarrow> (p @ l) # rest)"
proof (induction raw arbitrary: ls p)
  case Nil
  then show ?case by (simp add: page_text_def flush_def)
next
  case (Cons b raw)
  then show ?case by (auto simp: page_text_def flush_def split: list.splits)
qed

lemma page_lines_gather: "page_lines raw = gather_lines [] [] raw"
  by (simp add: gather_lines_eq page_lines_def split: list.splits)

text \<open>The state of the builder in the middle of a page.\<close>

definition building :: "dom_tree \<Rightarrow> usize \<Rightarrow> bytes list \<Rightarrow> bytes \<Rightarrow> bool" where
  "building t cur ls p \<longleftrightarrow> dom_wf t \<and> cur \<le> dom_text_len t \<and> slice (dom_text t) cur (dom_text_len t) = p
     \<and> dom_texts t = take 511 ls"

lemma building_push:
  assumes "building t cur ls p" "cur < dom_text_len t"
  obtains t' where "push_text_node t cur (dom_text_len t - cur) = Some t'"
    "building t' (dom_text_len t') (ls @ [p]) []" "dom_text_len t' = dom_text_len t" "p \<noteq> []"
proof -
  have t: "dom_wf t" "cur \<le> dom_text_len t" "slice (dom_text t) cur (dom_text_len t) = p" "dom_texts t = take 511 ls"
    using assms(1) by (simp_all add: building_def)
  obtain t' where t': "push_text_node t cur (dom_text_len t - cur) = Some t'" "dom_wf t'"
      "dom_texts t' = take 511 (dom_texts t @ [slice (dom_text t) cur (dom_text_len t)])"
      "dom_text t' = dom_text t" "dom_text_len t' = dom_text_len t"
    by (rule push_text_node_ok [OF t(1,2)])
  have "take 511 (take 511 ls @ [p]) = take 511 (ls @ [p])" by (rule take_take_append)
  with t t' have "building t' (dom_text_len t') (ls @ [p]) []" by (simp add: building_def slice_def)
  moreover have "length p = dom_text_len t - cur"
    using t(1) unfolding t(3) [symmetric] by (auto simp: dom_wf_def min_def)
  then have "p \<noteq> []" using assms(2) by auto
  ultimately show thesis using that t' by blast
qed

lemma building_char:
  assumes "building t cur ls p" "dom_text_len t < 8192"
  shows "building (t\<lparr> dom_text := (dom_text t)[dom_text_len t := b], dom_text_len := dom_text_len t + 1 \<rparr>) cur ls (p @ [b])"
proof -
  let ?n = "dom_text_len t"
  let ?t = "t\<lparr> dom_text := (dom_text t)[?n := b], dom_text_len := ?n + 1 \<rparr>"
  have t: "dom_wf t" "cur \<le> ?n" "slice (dom_text t) cur ?n = p" "dom_texts t = take 511 ls" "length (dom_text t) = 8192"
    using assms(1) by (simp_all add: building_def dom_wf_def)
  have keep: "slice ((dom_text t)[?n := b]) a c = slice (dom_text t) a c" if "c \<le> ?n" for a c
    using that by (rule slice_update_beyond)
  have "node_text ?t i = node_text t i" if "1 \<le> i" "i < node_count t" for i
  proof -
    have "child_ok t i" using t(1) that by (simp add: dom_wf_def)
    then have "unat (text_start (dom_nodes t ! i)) + unat (node_text_len (dom_nodes t ! i)) \<le> ?n"
      by (simp add: child_ok_def)
    then show ?thesis by (simp add: node_text_def Let_def keep)
  qed
  then have texts: "dom_texts ?t = dom_texts t" by (simp add: dom_texts_def)
  have "dom_wf ?t" using t(1) assms(2) by (auto simp: dom_wf_def child_ok_def)
  moreover have "slice ((dom_text t)[?n := b]) cur (Suc ?n) = p @ [b]"
  proof -
    have "slice ((dom_text t)[?n := b]) cur (Suc ?n)
        = slice ((dom_text t)[?n := b]) cur ?n @ slice ((dom_text t)[?n := b]) ?n (Suc ?n)"
      using t(2) by (simp add: slice_append)
    then show ?thesis using t(3,5) assms(2) by (simp add: keep slice_single)
  qed
  ultimately show ?thesis using t(2,4) texts by (simp add: building_def)
qed

lemma dom_bytes_ok:
  assumes "building t cur ls p" "dom_text_len t + length (page_text raw) \<le> 8192"
  shows "\<exists>t' cur' ls' p'. dom_bytes raw (t, cur) = Some (t', cur') \<and> building t' cur' ls' p'
    \<and> gather_lines ls p raw = flush ls' p'"
  using assms
proof (induction raw arbitrary: t cur ls p)
  case Nil
  then show ?case by fastforce
next
  case (Cons b raw)
  consider (skip) "b = 0x3C \<or> b = 0x0D" | (line) "b = 0x0A" | (char) "b \<noteq> 0x3C" "b \<noteq> 0x0D" "b \<noteq> 0x0A" by blast
  then show ?case
  proof cases
    case skip
    with Cons.IH [OF Cons.prems(1)] Cons.prems(2) show ?thesis by (auto simp: dom_byte_def page_text_def)
  next
    case line
    show ?thesis
    proof (cases "cur < dom_text_len t")
      case True
      obtain t' where t': "push_text_node t cur (dom_text_len t - cur) = Some t'"
          "building t' (dom_text_len t') (ls @ [p]) []" "dom_text_len t' = dom_text_len t" "p \<noteq> []"
        by (rule building_push [OF Cons.prems(1) True])
      with Cons.IH [OF t'(2)] Cons.prems(2) line True show ?thesis by (auto simp: dom_byte_def page_text_def)
    next
      case False
      with Cons.prems(1) have "p = []" "building t (dom_text_len t) ls []"
        by (auto simp: building_def slice_def)
      with Cons.IH [of t "dom_text_len t" ls "[]"] Cons.prems(2) line False show ?thesis
        by (auto simp: dom_byte_def page_text_def)
    qed
  next
    case char
    with Cons.prems have room: "dom_text_len t < 8192" "length (dom_text t) = 8192"
      by (auto simp: page_text_def building_def dom_wf_def)
    from Cons.IH [OF building_char [OF Cons.prems(1) room(1), of b]] Cons.prems(2) char room
    show ?thesis by (auto simp: dom_byte_def page_text_def)
  qed
qed

text \<open>
  \<open>build_text_dom\<close> terminates and builds the tree of the page's lines: for every page whose text
  fits the 8192 byte arena and every previous content of the tree, the result is well formed
  (consecutive children of the root, linked in order), and the texts of its nodes are the first
  511 non-empty lines.
\<close>

theorem build_text_dom_lines:
  assumes "length (page_text raw) \<le> 8192" "length (dom_nodes out) = 512" "length (dom_text out) = 8192"
  shows "\<exists>t. build_text_dom raw out = Some t \<and> dom_wf t \<and> dom_texts t = take 511 (page_lines raw)"
proof -
  let ?t = "(dom_reset out)\<lparr> dom_nodes := (dom_nodes out)[0 := dom_node_empty], node_count := 1 \<rparr>"
  have start: "building ?t 0 [] []" and zero: "dom_text_len ?t = 0"
    using assms by (simp_all add: building_def dom_wf_def dom_reset_def dom_texts_def slice_def dom_node_empty_def)
  obtain t cur ls p where run: "dom_bytes raw (?t, 0) = Some (t, cur)" "building t cur ls p"
      "page_lines raw = flush ls p"
    using dom_bytes_ok [OF start, of raw] assms(1) zero by (auto simp: page_lines_gather)
  have build: "build_text_dom raw out
      = (if cur < dom_text_len t then push_text_node t cur (dom_text_len t - cur) else Some t)"
    using assms(2) run(1) by (simp add: build_text_dom_def Let_def dom_reset_def)
  show ?thesis
  proof (cases "cur < dom_text_len t")
    case True
    obtain t' where "push_text_node t cur (dom_text_len t - cur) = Some t'"
        "building t' (dom_text_len t') (ls @ [p]) []" "p \<noteq> []"
      by (rule building_push [OF run(2) True])
    with True build run(3) show ?thesis by (simp add: building_def)
  next
    case False
    with run(2) have "p = []" by (auto simp: building_def slice_def)
    with False build run(2,3) show ?thesis by (simp add: building_def)
  qed
qed

theorem build_text_dom_lines_witness:
  "\<exists>t. build_text_dom (ascii ''ab'' @ [0x0D, 0x0A, 0x0A] @ ascii ''<c'') dom_tree_new = Some t \<and> dom_wf t
    \<and> dom_texts t = take 511 (page_lines (ascii ''ab'' @ [0x0D, 0x0A, 0x0A] @ ascii ''<c''))"
  by (rule build_text_dom_lines) (simp_all add: page_text_def dom_tree_new_def bytes_simps)

end
