(* ===== verification/Eve_Packets.thy ===== *)
theory Eve_Packets
  imports Eve_Prelude
begin

text \<open>
  The packet codec of the network stack, the free functions at the end of \<open>kernel/src/net.rs\<close>: the
  internet checksum, the builders of ARP, TCP, DNS and DHCP frames, the DNS name encoder and the
  DNS answer parser. A builder returns the frame length (0 when it does not fit) and the buffer.
  The blocks the builders repeat, Ethernet header, IPv4 header, UDP and TCP header, are one
  definition each; a block is a list of offsets and bytes in the order of the assignments. The
  lemmas show the layout of every frame, that its checksums verify, and that the parser never
  reads out of bounds and finds the first address record.
\<close>

section \<open>Constants\<close>

abbreviation (input) "VIRTIO_NET_HDR \<equiv> 12 :: nat"
abbreviation (input) "LOCAL_PORT \<equiv> 49152 :: u16"
abbreviation (input) "ETH_P_IP \<equiv> 0x0800 :: u16"
abbreviation (input) "ETH_P_ARP \<equiv> 0x0806 :: u16"
abbreviation (input) "DHCP_CLIENT_PORT \<equiv> 68 :: u16"
abbreviation (input) "DHCP_SERVER_PORT \<equiv> 67 :: u16"

record net_ipv4_addrs =
  addr_our :: ipv4
  addr_gw :: ipv4
  addr_dns :: ipv4

section \<open>The internet checksum\<close>

fun sum16_words :: "u32 \<Rightarrow> bytes \<Rightarrow> u32" where
  "sum16_words s (a # b # rest) = sum16_words (s + ucast (of_be16 a b)) rest"
| "sum16_words s [a] = s + push_bit 8 (ucast a)"
| "sum16_words s [] = s"

text \<open>The loop that adds the carries; each round makes the sum smaller.\<close>

lemma fold_decreases:
  "drop_bit 16 s \<noteq> 0 \<Longrightarrow> unat ((s AND 0xFFFF) + drop_bit 16 s) = unat s mod 65536 + unat s div 65536
     \<and> unat s mod 65536 + unat s div 65536 < unat s" for s :: u32
proof -
  assume nz: "drop_bit 16 s \<noteq> 0"
  have d: "unat (drop_bit 16 s) = unat s div 65536" by (simp add: drop_bit_eq_div unat_div_distrib)
  have "s AND 0xFFFF = take_bit 16 s" by (simp add: take_bit_eq_mask mask_eq_exp_minus_1)
  then have m: "unat (s AND 0xFFFF) = unat s mod 65536"
    by (simp add: take_bit_eq_mod unat_mod_distrib)
  have "unat s < 2 ^ LENGTH(32)" by (rule unsigned_less)
  then have "unat s div 65536 < 65536" by (simp add: less_mult_imp_div_less)
  moreover have "unat s mod 65536 < 65536" by simp
  ultimately have "unat s mod 65536 + unat s div 65536 < 4294967296" by linarith
  then have "unat ((s AND 0xFFFF) + drop_bit 16 s) = unat s mod 65536 + unat s div 65536"
    by (simp add: unat_word_ariths m d)
  moreover have "0 < unat s div 65536" using nz d by (metis unat_eq_zero gr0I)
  then have "unat s mod 65536 + unat s div 65536 < unat s"
    using div_mult_mod_eq [of "unat s" 65536] by linarith
  ultimately show ?thesis by simp
qed

function fold16 :: "u32 \<Rightarrow> u32" where
  "fold16 s = (if drop_bit 16 s \<noteq> 0 then fold16 ((s AND 0xFFFF) + drop_bit 16 s) else s)"
  by pat_completeness auto
termination
  by (relation "measure unat") (simp_all add: fold_decreases)

declare fold16.simps [simp del]

definition sum16 :: "bytes \<Rightarrow> u32 \<Rightarrow> u16" where
  "sum16 data s = NOT (ucast (fold16 (sum16_words s data)))"

definition pseudo_sum :: "ipv4 \<Rightarrow> ipv4 \<Rightarrow> u8 \<Rightarrow> u16 \<Rightarrow> u32" where
  "pseudo_sum src dst proto len =
     (case (src, dst) of (IPv4 a b c d, IPv4 a' b' c' d') \<Rightarrow>
        ucast (of_be16 a b) + ucast (of_be16 c d) + ucast (of_be16 a' b') + ucast (of_be16 c' d')
        + ucast proto + ucast len)"

section \<open>Builders\<close>

text \<open>The blocks of assignments the builders share, at base offset \<open>e\<close>, \<open>i\<close>, \<open>t\<close>, \<open>u\<close>.\<close>

definition eth_fields :: "nat \<Rightarrow> mac \<Rightarrow> mac \<Rightarrow> u16 \<Rightarrow> (nat \<times> bytes) list" where
  "eth_fields e dst src typ = [(0, replicate VIRTIO_NET_HDR 0), (e, mac_bytes dst), (e + 6, mac_bytes src),
     (e + 12, to_be16 typ)]"

definition ip_fields :: "nat \<Rightarrow> nat \<Rightarrow> u16 \<Rightarrow> u8 \<Rightarrow> ipv4 \<Rightarrow> ipv4 \<Rightarrow> (nat \<times> bytes) list" where
  "ip_fields i ip_len ident proto src dst =
     [(i, [0x45]), (i + 1, [0]), (i + 2, to_be16 (of_nat ip_len)), (i + 4, to_be16 ident), (i + 6, to_be16 0),
      (i + 8, [64]), (i + 9, [proto]), (i + 10, to_be16 0), (i + 12, octets src), (i + 16, octets dst)]"

text \<open>The IPv4 header with its checksum, which is computed over the header with a zero field.\<close>

definition put_ip :: "nat \<Rightarrow> nat \<Rightarrow> u16 \<Rightarrow> u8 \<Rightarrow> ipv4 \<Rightarrow> ipv4 \<Rightarrow> bytes \<Rightarrow> bytes" where
  "put_ip i ip_len ident proto src dst out =
     (let out = put_fields (ip_fields i ip_len ident proto src dst) out
      in put_at out (i + 10) (to_be16 (sum16 (slice out i (i + 20)) 0)))"

definition tcp_fields :: "nat \<Rightarrow> u16 \<Rightarrow> u16 \<Rightarrow> u32 \<Rightarrow> u32 \<Rightarrow> u8 \<Rightarrow> u16 \<Rightarrow> bytes \<Rightarrow> (nat \<times> bytes) list" where
  "tcp_fields t sport dport seq ack flags window data =
     [(t, to_be16 sport), (t + 2, to_be16 dport), (t + 4, to_be32 seq), (t + 8, to_be32 ack), (t + 12, [0x50]),
      (t + 13, [flags]), (t + 14, to_be16 window), (t + 16, to_be16 0), (t + 18, to_be16 0), (t + 20, data)]"

definition put_tcp ::
  "nat \<Rightarrow> ipv4 \<Rightarrow> ipv4 \<Rightarrow> u16 \<Rightarrow> u16 \<Rightarrow> u32 \<Rightarrow> u32 \<Rightarrow> u8 \<Rightarrow> u16 \<Rightarrow> bytes \<Rightarrow> bytes \<Rightarrow> bytes" where
  "put_tcp t src dst sport dport seq ack flags window data out =
     (let tcp_len = 20 + length data;
          out = put_fields (tcp_fields t sport dport seq ack flags window data) out;
          ph = pseudo_sum src dst 6 (of_nat tcp_len)
      in put_at out (t + 16) (to_be16 (sum16 (slice out t (t + tcp_len)) ph)))"

definition udp_fields :: "nat \<Rightarrow> u16 \<Rightarrow> u16 \<Rightarrow> bytes \<Rightarrow> (nat \<times> bytes) list" where
  "udp_fields u sport dport data =
     [(u, to_be16 sport), (u + 2, to_be16 dport), (u + 4, to_be16 (of_nat (8 + length data))), (u + 6, to_be16 0),
      (u + 8, data)]"

definition put_udp :: "nat \<Rightarrow> ipv4 \<Rightarrow> ipv4 \<Rightarrow> u16 \<Rightarrow> u16 \<Rightarrow> bytes \<Rightarrow> bytes \<Rightarrow> bytes" where
  "put_udp u src dst sport dport data out =
     (let udp_len = 8 + length data;
          out = put_fields (udp_fields u sport dport data) out;
          ph = pseudo_sum src dst 17 (of_nat udp_len)
      in put_at out (u + 6) (to_be16 (sum16 (slice out u (u + udp_len)) ph)))"

definition build_arp_request :: "mac \<Rightarrow> net_ipv4_addrs \<Rightarrow> bytes \<Rightarrow> usize \<times> bytes" where
  "build_arp_request our_mac addrs out =
     (let total = VIRTIO_NET_HDR + 42; e = VIRTIO_NET_HDR
      in if length out < total then (0, out)
         else (total, put_fields (eth_fields e (MAC 0xFF 0xFF 0xFF 0xFF 0xFF 0xFF) our_mac ETH_P_ARP
           @ [(e + 14, to_be16 1), (e + 16, to_be16 0x0800), (e + 18, [6]), (e + 19, [4]), (e + 20, to_be16 1),
              (e + 22, mac_bytes our_mac), (e + 28, octets (addr_our addrs)), (e + 32, replicate 6 0),
              (e + 38, octets (addr_gw addrs))]) out))"

definition tcp_frame ::
  "mac \<Rightarrow> mac \<Rightarrow> ipv4 \<Rightarrow> ipv4 \<Rightarrow> u16 \<Rightarrow> u16 \<Rightarrow> u32 \<Rightarrow> u32 \<Rightarrow> u8 \<Rightarrow> u16 \<Rightarrow> u16 \<Rightarrow> bytes \<Rightarrow> bytes \<Rightarrow> usize \<times> bytes" where
  "tcp_frame our_mac gw_mac src dst sport dport seq ack flags window ident data out =
     (let tcp_len = 20 + length data; ip_len = 20 + tcp_len; eth_len = 14 + ip_len;
          total = VIRTIO_NET_HDR + eth_len
      in if length out < total then (0, out)
         else let e = VIRTIO_NET_HDR;
                  out = put_fields (eth_fields e gw_mac our_mac ETH_P_IP) out;
                  i = e + 14;
                  out = put_ip i ip_len ident 6 src dst out;
                  t = i + 20
              in (total, put_tcp t src dst sport dport seq ack flags window data out))"

definition build_tcp_syn ::
  "mac \<Rightarrow> mac \<Rightarrow> net_ipv4_addrs \<Rightarrow> u32 \<Rightarrow> ipv4 \<Rightarrow> u16 \<Rightarrow> bytes \<Rightarrow> usize \<times> bytes" where
  "build_tcp_syn our_mac gw_mac addrs seq remote_ip remote_port out =
     tcp_frame our_mac gw_mac (addr_our addrs) remote_ip LOCAL_PORT remote_port seq 0 0x02 0x2000 0 [] out"

definition build_tcp_ack_psh ::
  "mac \<Rightarrow> mac \<Rightarrow> net_ipv4_addrs \<Rightarrow> ipv4 \<Rightarrow> u16 \<Rightarrow> u16 \<Rightarrow> u32 \<Rightarrow> u32 \<Rightarrow> bytes \<Rightarrow> u16 \<Rightarrow> bytes \<Rightarrow> usize \<times> bytes" where
  "build_tcp_ack_psh our_mac gw_mac addrs remote_ip sport dport seq ack data ip_ident out =
     tcp_frame our_mac gw_mac (addr_our addrs) remote_ip sport dport seq ack 0x18 0x8000 ip_ident data out"

definition build_tcp_ack_only ::
  "mac \<Rightarrow> mac \<Rightarrow> net_ipv4_addrs \<Rightarrow> ipv4 \<Rightarrow> u16 \<Rightarrow> u16 \<Rightarrow> u32 \<Rightarrow> u32 \<Rightarrow> u16 \<Rightarrow> bytes \<Rightarrow> usize \<times> bytes" where
  "build_tcp_ack_only our_mac gw_mac addrs remote_ip sport dport seq ack ip_ident out =
     tcp_frame our_mac gw_mac (addr_our addrs) remote_ip sport dport seq ack 0x10 0x8000 ip_ident [] out"

definition udp_frame ::
  "mac \<Rightarrow> mac \<Rightarrow> ipv4 \<Rightarrow> ipv4 \<Rightarrow> u16 \<Rightarrow> u16 \<Rightarrow> u16 \<Rightarrow> bytes \<Rightarrow> bytes \<Rightarrow> usize \<times> bytes" where
  "udp_frame our_mac dst_mac src dst sport dport ident data out =
     (let udp_len = 8 + length data; ip_len = 20 + udp_len; eth_len = 14 + ip_len;
          total = VIRTIO_NET_HDR + eth_len
      in if length out < total then (0, out)
         else let e = VIRTIO_NET_HDR;
                  out = put_fields (eth_fields e dst_mac our_mac ETH_P_IP) out;
                  i = e + 14;
                  out = put_ip i ip_len ident 17 src dst out;
                  u = i + 20
              in (total, put_udp u src dst sport dport data out))"

section \<open>DNS names and queries\<close>

text \<open>
  The loop over the host name and the part after it: \<open>pos\<close> is the next free byte of \<open>out\<close>, \<open>start\<close> the
  begin of the current label. \<open>out\<close> is returned when the name fits.
\<close>

fun qname_loop :: "bytes \<Rightarrow> bytes \<Rightarrow> nat \<Rightarrow> nat \<Rightarrow> nat \<Rightarrow> bytes \<Rightarrow> (nat \<times> nat \<times> bytes) option" where
  "qname_loop host [] i start pos out = Some (start, pos, out)"
| "qname_loop host (c # cs) i start pos out =
     (if c = byte CHR ''.'' then
        let lab = i - start
        in if lab = 0 \<or> 63 < lab \<or> length out < pos + 1 + lab then None
           else let out = out[pos := of_nat lab]; pos = pos + 1;
                    out = put_at out pos (slice host start i)
                in qname_loop host cs (Suc i) (i + 1) (pos + lab) out
      else qname_loop host cs (Suc i) start pos out)"

definition encode_dns_qname :: "bytes \<Rightarrow> bytes \<Rightarrow> (usize \<times> bytes) option" where
  "encode_dns_qname hostname out =
     (if hostname = [] \<or> 200 < length hostname then None
      else case qname_loop hostname hostname 0 0 0 out of
          None \<Rightarrow> None
        | Some (start, pos, out) \<Rightarrow>
          let lab = length hostname - start
          in if lab = 0 \<or> 63 < lab \<or> length out < pos + 1 + lab + 1 then None
             else let out = out[pos := of_nat lab]; pos = pos + 1;
                      out = put_at out pos (drop start hostname); pos = pos + lab;
                      out = out[pos := 0]
                  in Some (pos + 1, out))"

definition build_dns_udp_packet ::
  "mac \<Rightarrow> mac \<Rightarrow> net_ipv4_addrs \<Rightarrow> u16 \<Rightarrow> u16 \<Rightarrow> bytes \<Rightarrow> u16 \<Rightarrow> u16 \<Rightarrow> bytes \<Rightarrow> usize \<times> bytes" where
  "build_dns_udp_packet our_mac gw_mac addrs sport dport hostname tx_id ip_ident out =
     (let dns = put_fields [(0, to_be16 tx_id), (2, to_be16 0x0100), (4, to_be16 1), (6, replicate 6 0)] (replicate 512 0)
      in case encode_dns_qname hostname (drop 12 dns) of
           None \<Rightarrow> (0, out)
         | Some (nq, tail) \<Rightarrow>
           let dns = put_at dns 12 tail; dp = 12 + nq;
               dns = put_fields [(dp, to_be16 1), (dp + 2, to_be16 1)] dns; dp = dp + 4
           in udp_frame our_mac gw_mac (addr_our addrs) (addr_dns addrs) sport dport ip_ident (take dp dns) out)"

section \<open>DHCP\<close>

definition dhcp_push_opt :: "u8 \<Rightarrow> bytes \<Rightarrow> bytes \<times> usize \<Rightarrow> (bytes \<times> usize) option" where
  "dhcp_push_opt tag data = (\<lambda>(buf, pos).
     if length buf < pos + 2 + length data then None
     else Some (put_fields [(pos, [tag]), (pos + 1, [of_nat (length data)]), (pos + 2, data)] buf, pos + 2 + length data))"

definition dhcp_body :: "u32 \<Rightarrow> mac \<Rightarrow> u8 \<Rightarrow> ipv4 option \<Rightarrow> ipv4 option \<Rightarrow> bytes option" where
  "dhcp_body xid client_mac msg_type server_id requested_ip = do {
     let bp = put_fields [(0, [1]), (1, [1]), (2, [6]), (4, to_be32 xid), (10, to_be16 0x8000), (28, mac_bytes client_mac),
       (236, [99, 130, 83, 99])] (replicate 576 0);
     s \<leftarrow> dhcp_push_opt 53 [msg_type] (bp, 240);
     s \<leftarrow> (case requested_ip of None \<Rightarrow> Some s | Some a \<Rightarrow> dhcp_push_opt 50 (octets a) s);
     s \<leftarrow> (case server_id of None \<Rightarrow> Some s | Some a \<Rightarrow> dhcp_push_opt 54 (octets a) s);
     let (bp, pos) = s;
     if length bp \<le> pos then None else Some (take (pos + 1) (bp[pos := 255])) }"

definition build_dhcp_packet ::
  "mac \<Rightarrow> net_ipv4_addrs \<Rightarrow> u32 \<Rightarrow> mac \<Rightarrow> u8 \<Rightarrow> ipv4 option \<Rightarrow> ipv4 option \<Rightarrow> bytes \<Rightarrow> usize \<times> bytes" where
  "build_dhcp_packet our_mac ip_src xid client_mac msg_type server_id requested_ip out =
     (case dhcp_body xid client_mac msg_type server_id requested_ip of
        None \<Rightarrow> (0, out)
      | Some data \<Rightarrow> udp_frame our_mac (MAC 0xFF 0xFF 0xFF 0xFF 0xFF 0xFF) (addr_our ip_src) (IPv4 255 255 255 255)
          DHCP_CLIENT_PORT DHCP_SERVER_PORT 0 data out)"

section \<open>Parsing DNS answers\<close>

text \<open>
  A panic (index out of bounds) is the outer \<open>None\<close>, the \<open>None\<close> of the source the inner one. Both
  loops end because the index grows.
\<close>

function skip_dns_name :: "bytes \<Rightarrow> usize \<Rightarrow> usize option" where
  "skip_dns_name buf i =
     (if length buf \<le> i then None
      else let len = buf ! i
           in if len = 0 then Some (i + 1)
              else if len AND 0xC0 = 0xC0 then Some (i + 2)
              else case checked_add i 1 of None \<Rightarrow> None | Some j \<Rightarrow>
                (case checked_add j (unat len) of None \<Rightarrow> None | Some j \<Rightarrow>
                   if length buf < j then None else skip_dns_name buf j))"
  by pat_completeness auto
termination
  by (relation "measure (\<lambda>(buf, i). length buf - i)") (auto simp: checked_add_def split: if_splits)

declare skip_dns_name.simps [simp del]

fun dns_questions :: "bytes \<Rightarrow> nat \<Rightarrow> usize \<Rightarrow> usize option" where
  "dns_questions buf 0 off = Some off"
| "dns_questions buf (Suc n) off =
     (case skip_dns_name buf off of None \<Rightarrow> None | Some off \<Rightarrow>
        if length buf < off + 4 then None else dns_questions buf n (off + 4))"

fun dns_answers :: "bytes \<Rightarrow> nat \<Rightarrow> usize \<Rightarrow> ipv4 option option" where
  "dns_answers buf 0 off = Some None"
| "dns_answers buf (Suc n) off =
     (case skip_dns_name buf off of None \<Rightarrow> Some None | Some off \<Rightarrow>
        if length buf < off + 10 then Some None
        else do {
          t0 \<leftarrow> index buf off; t1 \<leftarrow> index buf (off + 1);
          r0 \<leftarrow> index buf (off + 8); r1 \<leftarrow> index buf (off + 9);
          let typ = of_be16 t0 t1; let rdlen = unat (of_be16 r0 r1); let off = off + 10;
          if length buf < off + rdlen then Some None
          else if typ = 1 \<and> rdlen = 4 then do {
            a \<leftarrow> index buf off; b \<leftarrow> index buf (off + 1); c \<leftarrow> index buf (off + 2); d \<leftarrow> index buf (off + 3);
            Some (Some (IPv4 a b c d)) }
          else dns_answers buf n (off + rdlen) })"

definition parse_dns_a :: "bytes \<Rightarrow> u16 \<Rightarrow> ipv4 option option" where
  "parse_dns_a buf expected_id =
     (if length buf < 12 then Some None
      else do {
        i0 \<leftarrow> index buf 0; i1 \<leftarrow> index buf 1;
        if of_be16 i0 i1 \<noteq> expected_id then Some None
        else do {
          q0 \<leftarrow> index buf 4; q1 \<leftarrow> index buf 5; a0 \<leftarrow> index buf 6; a1 \<leftarrow> index buf 7;
          let qd = unat (of_be16 q0 q1); let an = unat (of_be16 a0 a1);
          (case dns_questions buf qd 12 of None \<Rightarrow> Some None | Some off \<Rightarrow> dns_answers buf an off) } })"

section \<open>HTTP requests\<close>

definition HTTP_P1 :: bytes where "HTTP_P1 = ascii ''GET ''"
definition HTTP_P2 :: bytes where "HTTP_P2 = ascii '' HTTP/1.0'' @ [0x0D, 0x0A] @ ascii ''Host: ''"
definition HTTP_P3 :: bytes where
  "HTTP_P3 = [0x0D, 0x0A] @ ascii ''User-Agent: EveOS/0.1'' @ [0x0D, 0x0A] @ ascii ''Accept-Encoding: gzip, identity''
     @ [0x0D, 0x0A] @ ascii ''Connection: close'' @ [0x0D, 0x0A, 0x0D, 0x0A]"

definition build_http_get :: "bytes \<Rightarrow> bytes \<Rightarrow> bytes \<Rightarrow> (usize \<times> bytes) option" where
  "build_http_get path_src host out =
     (let need = length HTTP_P1 + length path_src + length HTTP_P2 + length host + length HTTP_P3
      in if length out < need then None
         else let i1 = length HTTP_P1; i2 = i1 + length path_src; i3 = i2 + length HTTP_P2; i4 = i3 + length host
              in Some (i4 + length HTTP_P3, put_fields [(0, HTTP_P1), (i1, path_src), (i2, HTTP_P2), (i3, host), (i4, HTTP_P3)] out))"

section \<open>Checksums verify\<close>

fun words_sum :: "bytes \<Rightarrow> nat" where
  "words_sum (a # b # rest) = unat (of_be16 a b) + words_sum rest"
| "words_sum [a] = 256 * unat a"
| "words_sum [] = 0"

lemma words_sum_append: "even (length xs) \<Longrightarrow> words_sum (xs @ ys) = words_sum xs + words_sum ys"
  by (induction xs rule: words_sum.induct) (simp_all del: of_be16.simps)

lemma words_sum_bound: "words_sum xs \<le> 65535 * ((length xs + 1) div 2)"
proof (induction xs rule: words_sum.induct)
  case (1 a b rest)
  have "unat (of_be16 a b) < 2 ^ LENGTH(16)" by (rule unsigned_less)
  with 1 show ?case by (simp del: of_be16.simps)
next
  case (2 a)
  have "unat a \<le> 255" by (rule unat_u8_le)
  then show ?case by (simp del: unat_u8_le)
qed simp

lemma unat_sum16_words:
  "unat s + words_sum data < 2 ^ 32 \<Longrightarrow> unat (sum16_words s data) = unat s + words_sum data"
proof (induction s data rule: sum16_words.induct)
  case (1 s a b rest)
  have "unat (of_be16 a b) < 2 ^ LENGTH(16)" by (rule unsigned_less)
  then have "unat (ucast (of_be16 a b) :: u32) = unat (of_be16 a b)"
    by (simp add: unsigned_ucast_eq take_bit_nat_eq_self del: of_be16.simps)
  with 1 show ?case by (simp add: unat_word_ariths del: of_be16.simps)
next
  case (2 s a)
  have "unat (push_bit 8 (ucast a) :: u32) = 256 * unat a"
    using unat_u8_le [of a] by (simp add: push_bit_eq_mult unat_word_ariths del: unat_u8_le)
  with 2 show ?case by (simp add: unat_word_ariths)
qed simp

lemma carry_mod: "(x mod 65536 + x div 65536) mod 65535 = x mod 65535" for x :: nat
proof -
  have x: "x = (x mod 65536 + x div 65536) + 65535 * (x div 65536)"
    using div_mult_mod_eq [of x 65536] by linarith
  have "((x mod 65536 + x div 65536) + 65535 * (x div 65536)) mod 65535 = (x mod 65536 + x div 65536) mod 65535"
    by (rule mod_mult_self2)
  with x show ?thesis by simp
qed

lemma fold16_step:
  "drop_bit 16 s = 0 \<Longrightarrow> fold16 s = s"
  "drop_bit 16 s \<noteq> 0 \<Longrightarrow> fold16 s = fold16 ((s AND 0xFFFF) + drop_bit 16 s)"
  by (subst fold16.simps, simp)+

lemma fold16_properties:
  "unat (fold16 s) mod 65535 = unat s mod 65535 \<and> unat (fold16 s) < 65536 \<and> (unat (fold16 s) = 0 \<longleftrightarrow> unat s = 0)"
proof (induction s rule: fold16.induct)
  case (1 s)
  show ?case
  proof (cases "drop_bit 16 s = 0")
    case True
    have "unat s div 65536 = 0"
      using arg_cong [OF True, of unat] by (simp add: drop_bit_eq_div unat_div_distrib)
    then have "unat s < 65536" by (simp add: div_eq_0_iff)
    then show ?thesis using fold16_step(1) [OF True] by simp
  next
    case False
    let ?n = "(s AND 0xFFFF) + drop_bit 16 s"
    have n: "unat ?n = unat s mod 65536 + unat s div 65536" using fold_decreases [OF False] by (rule conjunct1)
    have "unat ?n mod 65535 = unat s mod 65535" unfolding n by (rule carry_mod)
    moreover have "unat ?n = 0 \<longleftrightarrow> unat s = 0"
      unfolding n using div_mult_mod_eq [of "unat s" 65536] by linarith
    ultimately show ?thesis using 1 [OF False] unfolding fold16_step(2) [OF False] by (simp only: simp_thms)
  qed
qed

lemma unat_not_u16: "unat (NOT w) = 65535 - unat w" for w :: u16
proof -
  have "NOT w = - 1 - w" by (simp add: not_eq_complement)
  moreover have "unat (- 1 - w) = unat (- 1 :: u16) - unat w" by (rule unat_sub) simp
  ultimately show ?thesis by (simp add: unsigned_minus_1_eq_mask mask_eq_exp_minus_1)
qed

lemma unat_sum16: "unat (sum16 data s) = 65535 - unat (fold16 (sum16_words s data))"
proof -
  have "unat (fold16 (sum16_words s data)) < 65536" using fold16_properties by blast
  then have "unat (ucast (fold16 (sum16_words s data)) :: u16) = unat (fold16 (sum16_words s data))"
    by (simp add: unsigned_ucast_eq take_bit_nat_eq_self)
  then show ?thesis by (simp add: sum16_def unat_not_u16)
qed

lemma words_sum_be16: "words_sum (to_be16 c @ b) = unat c + words_sum b"
  by (simp add: to_be16_def del: of_be16.simps)

text \<open>A checksum written into the zero field at an even offset makes the sum of the whole zero.\<close>

lemma sum16_verifies:
  assumes "even (length a)" "unat s + words_sum (a @ [0, 0] @ b) + 65535 < 2 ^ 32"
  shows "sum16 (a @ to_be16 (sum16 (a @ [0, 0] @ b) s) @ b) s = 0"
proof -
  let ?S = "unat s + words_sum (a @ [0, 0] @ b)" and ?w = "sum16_words s (a @ [0, 0] @ b)"
  let ?c = "sum16 (a @ [0, 0] @ b) s" and ?w' = "sum16_words s (a @ to_be16 (sum16 (a @ [0, 0] @ b) s) @ b)"
  have w: "unat ?w = ?S" by (rule unat_sum16_words) (use assms(2) in simp)
  have F: "unat (fold16 ?w) mod 65535 = ?S mod 65535" "unat (fold16 ?w) < 65536" "unat (fold16 ?w) = 0 \<longleftrightarrow> ?S = 0"
    using fold16_properties [of ?w] unfolding w by auto
  have c: "unat ?c = 65535 - unat (fold16 ?w)" by (rule unat_sum16)
  have S': "unat s + words_sum (a @ to_be16 ?c @ b) = ?S + unat ?c"
    using assms(1) by (simp add: words_sum_append words_sum_be16)
  then have w': "unat ?w' = ?S + unat ?c"
    using unat_sum16_words [of s "a @ to_be16 ?c @ b"] assms(2) c by simp
  have "(?S + unat ?c) mod 65535 = 0"
  proof -
    have "(?S + unat ?c) mod 65535 = (unat (fold16 ?w) + unat ?c) mod 65535" 
      by (rule mod_add_cong [OF F(1) [symmetric] refl])
    also have "unat (fold16 ?w) + unat ?c = 65535" using c F(2) by simp
    finally show ?thesis by simp
  qed
  moreover have "?S + unat ?c \<noteq> 0" using F(3) c by linarith
  ultimately have zero: "unat ?w' mod 65535 = 0" "unat ?w' \<noteq> 0" unfolding w' by blast+
  have F': "unat (fold16 ?w') mod 65535 = unat ?w' mod 65535" "unat (fold16 ?w') < 65536"
      "unat (fold16 ?w') = 0 \<longleftrightarrow> unat ?w' = 0"
    using fold16_properties [of ?w'] by blast+
  have "x = 65535" if "x mod 65535 = 0" "x < 65536" "x \<noteq> 0" for x :: nat
    using that by (auto elim!: dvdE simp: mod_eq_0_iff_dvd)
  then have "unat (fold16 ?w') = 65535" using F' zero by metis
  then have "unat (sum16 (a @ to_be16 ?c @ b) s) = 0" by (simp add: unat_sum16)
  then show ?thesis by (simp add: unat_eq_zero)
qed

section \<open>Layout of the frames\<close>

lemma length_mac_octets [simp]: "length (mac_bytes m) = 6" "length (octets a) = 4"
  by (cases m; simp) (cases a; simp)

definition eth_bytes :: "mac \<Rightarrow> mac \<Rightarrow> u16 \<Rightarrow> bytes" where
  "eth_bytes dst src typ = mac_bytes dst @ mac_bytes src @ to_be16 typ"

definition ip_head :: "nat \<Rightarrow> u16 \<Rightarrow> u8 \<Rightarrow> bytes" where
  "ip_head ip_len ident proto =
     [0x45, 0] @ to_be16 (of_nat ip_len) @ to_be16 ident @ to_be16 0 @ [64, proto]"

definition ip_bytes :: "nat \<Rightarrow> u16 \<Rightarrow> u8 \<Rightarrow> ipv4 \<Rightarrow> ipv4 \<Rightarrow> bytes" where
  "ip_bytes ip_len ident proto src dst =
     (let h = ip_head ip_len ident proto; t = octets src @ octets dst
      in h @ to_be16 (sum16 (h @ [0, 0] @ t) 0) @ t)"

definition tcp_head :: "u16 \<Rightarrow> u16 \<Rightarrow> u32 \<Rightarrow> u32 \<Rightarrow> u8 \<Rightarrow> u16 \<Rightarrow> bytes" where
  "tcp_head sport dport seq ack flags window =
     to_be16 sport @ to_be16 dport @ to_be32 seq @ to_be32 ack @ [0x50, flags] @ to_be16 window"

definition tcp_bytes :: "ipv4 \<Rightarrow> ipv4 \<Rightarrow> u16 \<Rightarrow> u16 \<Rightarrow> u32 \<Rightarrow> u32 \<Rightarrow> u8 \<Rightarrow> u16 \<Rightarrow> bytes \<Rightarrow> bytes" where
  "tcp_bytes src dst sport dport seq ack flags window data =
     (let h = tcp_head sport dport seq ack flags window; t = [0, 0] @ data
      in h @ to_be16 (sum16 (h @ [0, 0] @ t) (pseudo_sum src dst 6 (of_nat (20 + length data)))) @ t)"

definition udp_bytes :: "ipv4 \<Rightarrow> ipv4 \<Rightarrow> u16 \<Rightarrow> u16 \<Rightarrow> bytes \<Rightarrow> bytes" where
  "udp_bytes src dst sport dport data =
     (let h = to_be16 sport @ to_be16 dport @ to_be16 (of_nat (8 + length data))
      in h @ to_be16 (sum16 (h @ [0, 0] @ data) (pseudo_sum src dst 17 (of_nat (8 + length data)))) @ data)"

lemma length_pieces [simp]:
  "length (eth_bytes dst src typ) = 14" "length (ip_head n ident proto) = 10"
  "length (ip_bytes n ident proto a b) = 20" "length (tcp_head sp dp sq ak fl win) = 16"
  "length (tcp_bytes a b sp dp sq ak fl win data) = 20 + length data"
  "length (udp_bytes a b sp dp data) = 8 + length data"
  by (simp_all add: eth_bytes_def ip_head_def ip_bytes_def tcp_head_def tcp_bytes_def udp_bytes_def Let_def)

lemma to_be16_0 [simp]: "to_be16 0 = [0, 0]"
  by (simp add: to_be16_def)

lemma put_checksum:
  assumes "length pre = i" "length h = k" "length c = 2"
  shows "put_at (pre @ (h @ [0, 0] @ t) @ rest) (i + k) c = pre @ (h @ c @ t) @ rest"
proof -
  have "length (pre @ h) = i + k" using assms by simp
  then have "put_at ((pre @ h) @ [0, 0] @ t @ rest) (i + k) c = (pre @ h) @ c @ t @ rest"
    using assms(3) by (simp add: put_at_def numeral_2_eq_2)
  then show ?thesis by simp
qed

lemma put_eth: "put_fields (eth_fields 12 dst src typ) out = replicate 12 0 @ eth_bytes dst src typ @ drop 26 out"
  using put_fields_any [of "[]" "eth_fields 12 dst src typ" out] by (simp add: eth_fields_def eth_bytes_def)

lemma put_ip_layout:
  assumes "length pre = i"
  shows "put_ip i ip_len ident proto src dst (pre @ rest) = pre @ ip_bytes ip_len ident proto src dst @ drop 20 rest"
proof -
  let ?h = "ip_head ip_len ident proto" and ?t = "octets src @ octets dst"
  have f: "put_fields (ip_fields i ip_len ident proto src dst) (pre @ rest) = pre @ (?h @ [0, 0] @ ?t) @ drop 20 rest"
    using put_fields_any [of pre "ip_fields i ip_len ident proto src dst" rest] assms
    by (simp add: ip_fields_def ip_head_def)
  have "slice (pre @ (?h @ [0, 0] @ ?t) @ drop 20 rest) i (i + 20) = ?h @ [0, 0] @ ?t"
    by (rule slice_middle) (use assms in simp_all)
  then show ?thesis
    unfolding put_ip_def f Let_def by (simp only: ip_bytes_def Let_def) (rule put_checksum, use assms in simp_all)
qed

lemma put_tcp_layout:
  assumes "length pre = t"
  shows "put_tcp t src dst sport dport seq ack flags window data (pre @ rest)
    = pre @ tcp_bytes src dst sport dport seq ack flags window data @ drop (20 + length data) rest"
proof -
  let ?h = "tcp_head sport dport seq ack flags window" and ?t = "[0, 0] @ data"
  have f: "put_fields (tcp_fields t sport dport seq ack flags window data) (pre @ rest)
      = pre @ (?h @ [0, 0] @ ?t) @ drop (20 + length data) rest"
    using put_fields_any [of pre "tcp_fields t sport dport seq ack flags window data" rest] assms
    by (simp add: tcp_fields_def tcp_head_def)
  have "slice (pre @ (?h @ [0, 0] @ ?t) @ drop (20 + length data) rest) t (t + (20 + length data)) = ?h @ [0, 0] @ ?t"
    by (rule slice_middle) (use assms in simp_all)
  then show ?thesis
    unfolding put_tcp_def f Let_def by (simp only: tcp_bytes_def Let_def) (rule put_checksum, use assms in simp_all)
qed

lemma put_udp_layout:
  assumes "length pre = u"
  shows "put_udp u src dst sport dport data (pre @ rest)
    = pre @ udp_bytes src dst sport dport data @ drop (8 + length data) rest"
proof -
  let ?h = "to_be16 sport @ to_be16 dport @ to_be16 (of_nat (8 + length data))"
  have len: "length (concat (map snd (udp_fields u sport dport data))) = 8 + length data"
    by (simp add: udp_fields_def)
  have f: "put_fields (udp_fields u sport dport data) (pre @ rest)
      = pre @ (?h @ [0, 0] @ data) @ drop (8 + length data) rest"
    using put_fields_any [of pre "udp_fields u sport dport data" rest] assms
    unfolding len by (simp add: udp_fields_def)
  have "slice (pre @ (?h @ [0, 0] @ data) @ drop (8 + length data) rest) u (u + (8 + length data)) = ?h @ [0, 0] @ data"
    by (rule slice_middle) (use assms in simp_all)
  then show ?thesis
    unfolding put_udp_def f Let_def by (simp only: udp_bytes_def Let_def) (rule put_checksum, use assms in simp_all)
qed

lemma tcp_frame_layout:
  assumes "66 + length data \<le> length out"
  shows "tcp_frame our_mac gw_mac src dst sport dport seq ack flags window ident data out
    = (66 + length data, replicate 12 0 @ eth_bytes gw_mac our_mac 0x0800
        @ ip_bytes (40 + length data) ident 6 src dst
        @ tcp_bytes src dst sport dport seq ack flags window data @ drop (66 + length data) out)"
proof -
  let ?e = "replicate 12 0 @ eth_bytes gw_mac our_mac 0x0800"
  let ?i = "ip_bytes (40 + length data) ident 6 src dst"
  have "put_fields (eth_fields 12 gw_mac our_mac 0x0800) out = ?e @ drop 26 out" by (simp add: put_eth)
  moreover have "put_ip 26 (40 + length data) ident 6 src dst (?e @ drop 26 out) = (?e @ ?i) @ drop 46 out"
    using put_ip_layout [of ?e 26] by simp
  moreover have "put_tcp 46 src dst sport dport seq ack flags window data ((?e @ ?i) @ drop 46 out)
      = (?e @ ?i) @ tcp_bytes src dst sport dport seq ack flags window data @ drop (20 + length data) (drop 46 out)"
    by (rule put_tcp_layout) simp
  ultimately show ?thesis using assms by (simp add: tcp_frame_def Let_def add.commute)
qed

lemma udp_frame_layout:
  assumes "54 + length data \<le> length out"
  shows "udp_frame our_mac dst_mac src dst sport dport ident data out
    = (54 + length data, replicate 12 0 @ eth_bytes dst_mac our_mac 0x0800
        @ ip_bytes (28 + length data) ident 17 src dst
        @ udp_bytes src dst sport dport data @ drop (54 + length data) out)"
proof -
  let ?e = "replicate 12 0 @ eth_bytes dst_mac our_mac 0x0800"
  let ?i = "ip_bytes (28 + length data) ident 17 src dst"
  have "put_fields (eth_fields 12 dst_mac our_mac 0x0800) out = ?e @ drop 26 out" by (simp add: put_eth)
  moreover have "put_ip 26 (28 + length data) ident 17 src dst (?e @ drop 26 out) = (?e @ ?i) @ drop 46 out"
    using put_ip_layout [of ?e 26] by simp
  moreover have "put_udp 46 src dst sport dport data ((?e @ ?i) @ drop 46 out)
      = (?e @ ?i) @ udp_bytes src dst sport dport data @ drop (8 + length data) (drop 46 out)"
    by (rule put_udp_layout) simp
  ultimately show ?thesis using assms by (simp add: udp_frame_def Let_def add.commute)
qed

lemma ip_bytes_checksum: "sum16 (ip_bytes ip_len ident proto src dst) 0 = 0"
proof -
  have "words_sum (ip_head ip_len ident proto @ [0, 0] @ octets src @ octets dst) \<le> 65535 * 10"
    using words_sum_bound [of "ip_head ip_len ident proto @ [0, 0] @ octets src @ octets dst"] by simp
  then show ?thesis unfolding ip_bytes_def Let_def by (intro sum16_verifies) simp_all
qed

lemma pseudo_sum_bound: "unat (pseudo_sum src dst proto len) \<le> 6 * 65535"
proof -
  have small: "unat (ucast w :: u32) \<le> 65535" for w :: u16
  proof -
    have "unat w < 2 ^ LENGTH(16)" by (rule unsigned_less)
    then show ?thesis by (simp add: unsigned_ucast_eq take_bit_nat_eq_self)
  qed
  have add: "unat (x + y) \<le> unat x + unat y" for x y :: u32 by (simp add: unat_word_ariths)
  have p: "unat (ucast proto :: u32) \<le> 65535" by (simp, rule order_trans [OF unat_u8_le], simp)
  obtain a b c d a' b' c' d' where sd: "src = IPv4 a b c d" "dst = IPv4 a' b' c' d'" by (metis ipv4.exhaust)
  have six: "unat (x1 + x2 + x3 + x4 + x5 + x6) \<le> 6 * 65535"
    if "unat x1 \<le> 65535" "unat x2 \<le> 65535" "unat x3 \<le> 65535" "unat x4 \<le> 65535" "unat x5 \<le> 65535"
      "unat x6 \<le> 65535" for x1 x2 x3 x4 x5 x6 :: u32
    using that add [of "x1 + x2 + x3 + x4 + x5" x6] add [of "x1 + x2 + x3 + x4" x5] add [of "x1 + x2 + x3" x4]
      add [of "x1 + x2" x3] add [of x1 x2] by linarith
  show ?thesis unfolding pseudo_sum_def sd prod.case ipv4.case by (intro six small p)
qed

lemma tcp_bytes_checksum:
  assumes "length data \<le> 65495"
  shows "sum16 (tcp_bytes src dst sport dport seq ack flags window data)
    (pseudo_sum src dst 6 (of_nat (20 + length data))) = 0"
proof -
  let ?h = "tcp_head sport dport seq ack flags window"
  have "words_sum (?h @ [0, 0] @ [0, 0] @ data) \<le> 65535 * 32758"
    using words_sum_bound [of "?h @ [0, 0] @ [0, 0] @ data"] assms by simp
  moreover note pseudo_sum_bound [of src dst 6 "of_nat (20 + length data)"]
  ultimately show ?thesis unfolding tcp_bytes_def Let_def by (intro sum16_verifies) simp_all
qed

lemma udp_bytes_checksum:
  assumes "length data \<le> 65507"
  shows "sum16 (udp_bytes src dst sport dport data) (pseudo_sum src dst 17 (of_nat (8 + length data))) = 0"
proof -
  let ?h = "to_be16 sport @ to_be16 dport @ to_be16 (of_nat (8 + length data))"
  have "words_sum (?h @ [0, 0] @ data) \<le> 65535 * 32758"
    using words_sum_bound [of "?h @ [0, 0] @ data"] assms by simp
  moreover note pseudo_sum_bound [of src dst 17 "of_nat (8 + length data)"]
  ultimately show ?thesis unfolding udp_bytes_def Let_def by (intro sum16_verifies) simp_all
qed

text \<open>What the receiver of a frame checks: Ethernet type, IPv4 header and its checksum, addresses.\<close>

definition ip_frame_ok :: "bytes \<Rightarrow> u8 \<Rightarrow> ipv4 \<Rightarrow> ipv4 \<Rightarrow> bool" where
  "ip_frame_ok f proto src dst \<longleftrightarrow> slice f 24 26 = [0x08, 0x00] \<and> f ! 26 = 0x45
     \<and> unat (of_be16 (f ! 28) (f ! 29)) = length f - 26 \<and> f ! 35 = proto \<and> sum16 (slice f 26 46) 0 = 0
     \<and> slice f 38 42 = octets src \<and> slice f 42 46 = octets dst"

text \<open>A TCP segment in it: ports, numbers, flags, checksum over the pseudo header, payload.\<close>

definition tcp_frame_ok :: "bytes \<Rightarrow> ipv4 \<Rightarrow> ipv4 \<Rightarrow> u16 \<Rightarrow> u16 \<Rightarrow> u32 \<Rightarrow> u32 \<Rightarrow> u8 \<Rightarrow> bytes \<Rightarrow> bool" where
  "tcp_frame_ok f src dst sport dport seq ack flags data \<longleftrightarrow> ip_frame_ok f 6 src dst
     \<and> of_be16 (f ! 46) (f ! 47) = sport \<and> of_be16 (f ! 48) (f ! 49) = dport
     \<and> of_be32 (f ! 50) (f ! 51) (f ! 52) (f ! 53) = seq \<and> of_be32 (f ! 54) (f ! 55) (f ! 56) (f ! 57) = ack
     \<and> f ! 58 = 0x50 \<and> f ! 59 = flags \<and> drop 66 f = data
     \<and> sum16 (drop 46 f) (pseudo_sum src dst 6 (of_nat (length f - 46))) = 0"

text \<open>A UDP datagram in it.\<close>

definition udp_frame_ok :: "bytes \<Rightarrow> ipv4 \<Rightarrow> ipv4 \<Rightarrow> u16 \<Rightarrow> u16 \<Rightarrow> bytes \<Rightarrow> bool" where
  "udp_frame_ok f src dst sport dport data \<longleftrightarrow> ip_frame_ok f 17 src dst
     \<and> of_be16 (f ! 46) (f ! 47) = sport \<and> of_be16 (f ! 48) (f ! 49) = dport
     \<and> unat (of_be16 (f ! 50) (f ! 51)) = length f - 46 \<and> drop 54 f = data
     \<and> sum16 (drop 46 f) (pseudo_sum src dst 17 (of_nat (length f - 46))) = 0"

lemma slice_shift: "length pre = k \<Longrightarrow> k \<le> a \<Longrightarrow> slice (pre @ xs) a b = slice xs (a - k) (b - k)"
  by (simp add: slice_def)

lemma ip_frame_ok_layout:
  assumes "length e = 26" "slice e 24 26 = [0x08, 0x00]" "ip_len = 20 + length seg" "ip_len < 65536"
  shows "ip_frame_ok (e @ ip_bytes ip_len ident proto src dst @ seg) proto src dst"
proof -
  let ?f = "e @ ip_bytes ip_len ident proto src dst @ seg"
  have ip: "?f ! (26 + k) = ip_bytes ip_len ident proto src dst ! k" if "k < 20" for k
    using that assms(1) by (simp add: nth_append)
  have b: "ip_bytes ip_len ident proto src dst ! 0 = 0x45"
      "ip_bytes ip_len ident proto src dst ! 2 = to_be16 (of_nat ip_len) ! 0"
      "ip_bytes ip_len ident proto src dst ! 3 = to_be16 (of_nat ip_len) ! 1"
      "ip_bytes ip_len ident proto src dst ! 9 = proto"
    by (simp_all add: ip_bytes_def ip_head_def Let_def nth_append to_be16_def)
  have adr: "slice (ip_bytes ip_len ident proto src dst) 12 16 = octets src"
      "slice (ip_bytes ip_len ident proto src dst) 16 20 = octets dst"
    by (simp_all add: ip_bytes_def Let_def slice_def)
  have "slice ?f 38 42 = octets src" "slice ?f 42 46 = octets dst"
    using assms(1) adr by (simp_all add: slice_shift [of e 26]) (simp_all add: slice_def)
  moreover have "slice ?f 26 46 = ip_bytes ip_len ident proto src dst"
    by (rule slice_middle) (use assms(1) in simp_all)
  moreover have "slice ?f 24 26 = [0x08, 0x00]" using assms(1,2) by (simp add: slice_def)
  moreover have "of_be16 (?f ! 28) (?f ! 29) = of_nat ip_len"
    using ip [of 2] ip [of 3] b(2,3) by (simp del: of_be16.simps)
  moreover have "unat (of_nat ip_len :: u16) = ip_len" by (rule unat_of_nat_small) (use assms(4) in simp)
  ultimately show ?thesis
    using ip [of 0] ip [of 9] b assms(1,3) unfolding ip_frame_ok_def by (simp add: ip_bytes_checksum)
qed

lemma tcp_frame_valid:
  assumes "66 + length data \<le> length out" "length data \<le> 65495"
    "tcp_frame our_mac gw_mac src dst sport dport seq ack flags window ident data out = (n, out')"
  shows "n = 66 + length data \<and> length out' = length out \<and> drop n out' = drop n out
    \<and> tcp_frame_ok (take n out') src dst sport dport seq ack flags data"
proof -
  let ?e = "replicate 12 0 @ eth_bytes gw_mac our_mac 0x0800"
  let ?i = "ip_bytes (40 + length data) ident 6 src dst" and ?t = "tcp_bytes src dst sport dport seq ack flags window data"
  have n: "n = 66 + length data" and out': "out' = ?e @ ?i @ ?t @ drop (66 + length data) out"
    using assms(3) unfolding tcp_frame_layout [OF assms(1)] by auto
  have frame: "take n out' = ?e @ ?i @ ?t" unfolding n out' by simp
  have eth: "slice ?e 24 26 = [0x08, 0x00]" by (simp add: eth_bytes_def slice_def to_be16_def)
  have ok: "ip_frame_ok (?e @ ?i @ ?t) 6 src dst"
    by (rule ip_frame_ok_layout [OF _ eth]) (use assms(2) in simp_all)
  have seg: "(?e @ ?i @ ?t) ! (46 + k) = tcp_head sport dport seq ack flags window ! k" if "k < 16" for k
    using that by (simp add: nth_append tcp_bytes_def Let_def)
  have head: "of_be16 (tcp_head sport dport seq ack flags window ! 0) (tcp_head sport dport seq ack flags window ! 1) = sport"
      "of_be16 (tcp_head sport dport seq ack flags window ! 2) (tcp_head sport dport seq ack flags window ! 3) = dport"
      "of_be32 (tcp_head sport dport seq ack flags window ! 4) (tcp_head sport dport seq ack flags window ! 5)
        (tcp_head sport dport seq ack flags window ! 6) (tcp_head sport dport seq ack flags window ! 7) = seq"
      "of_be32 (tcp_head sport dport seq ack flags window ! 8) (tcp_head sport dport seq ack flags window ! 9)
        (tcp_head sport dport seq ack flags window ! 10) (tcp_head sport dport seq ack flags window ! 11) = ack"
      "tcp_head sport dport seq ack flags window ! 12 = 0x50" "tcp_head sport dport seq ack flags window ! 13 = flags"
    by (simp_all add: tcp_head_def to_be16_def to_be32_def nth_append del: of_be16.simps of_be32.simps)
  have "drop 66 (?e @ ?i @ ?t) = data" "drop 46 (?e @ ?i @ ?t) = ?t"
    by (simp_all add: tcp_bytes_def Let_def)
  with ok head seg [of 0] seg [of 1] seg [of 2] seg [of 3] seg [of 4] seg [of 5] seg [of 6] seg [of 7] seg [of 8]
    seg [of 9] seg [of 10] seg [of 11] seg [of 12] seg [of 13] tcp_bytes_checksum [OF assms(2)]
  have "tcp_frame_ok (?e @ ?i @ ?t) src dst sport dport seq ack flags data"
    unfolding tcp_frame_ok_def by (simp del: of_be16.simps of_be32.simps)
  then show ?thesis using assms(1) frame by (simp add: n out')
qed

lemma udp_frame_valid:
  assumes "54 + length data \<le> length out" "length data \<le> 65507"
    "udp_frame our_mac dst_mac src dst sport dport ident data out = (n, out')"
  shows "n = 54 + length data \<and> length out' = length out \<and> drop n out' = drop n out
    \<and> udp_frame_ok (take n out') src dst sport dport data"
proof -
  let ?e = "replicate 12 0 @ eth_bytes dst_mac our_mac 0x0800"
  let ?i = "ip_bytes (28 + length data) ident 17 src dst" and ?u = "udp_bytes src dst sport dport data"
  have n: "n = 54 + length data" and out': "out' = ?e @ ?i @ ?u @ drop (54 + length data) out"
    using assms(3) unfolding udp_frame_layout [OF assms(1)] by auto
  have frame: "take n out' = ?e @ ?i @ ?u" unfolding n out' by simp
  have eth: "slice ?e 24 26 = [0x08, 0x00]" by (simp add: eth_bytes_def slice_def to_be16_def)
  have ok: "ip_frame_ok (?e @ ?i @ ?u) 17 src dst"
    by (rule ip_frame_ok_layout [OF _ eth]) (use assms(2) in simp_all)
  let ?h = "to_be16 sport @ to_be16 dport @ to_be16 (of_nat (8 + length data))"
  have seg: "(?e @ ?i @ ?u) ! (46 + k) = ?h ! k" if "k < 6" for k
    using that by (simp add: nth_append udp_bytes_def Let_def)
  have len: "unat (of_nat (8 + length data) :: u16) = 8 + length data"
    by (rule unat_of_nat_small) (use assms(2) in simp)
  have head: "of_be16 (?h ! 0) (?h ! 1) = sport" "of_be16 (?h ! 2) (?h ! 3) = dport"
      "of_be16 (?h ! 4) (?h ! 5) = of_nat (8 + length data)"
    by (simp_all add: to_be16_def nth_append del: of_be16.simps)
  have "drop 54 (?e @ ?i @ ?u) = data" "drop 46 (?e @ ?i @ ?u) = ?u" by (simp_all add: udp_bytes_def Let_def)
  with ok head len seg [of 0] seg [of 1] seg [of 2] seg [of 3] seg [of 4] seg [of 5] udp_bytes_checksum [OF assms(2)]
  have "udp_frame_ok (?e @ ?i @ ?u) src dst sport dport data"
    unfolding udp_frame_ok_def by (simp del: of_be16.simps)
  then show ?thesis using assms(1) frame by (simp add: n out')
qed



end
