(* ===== verification/Eve_Dns.thy ===== *)
theory Eve_Dns
  imports Eve_Packets
begin

text \<open>
  What the DNS and DHCP code of \<open>net.rs\<close> puts on the wire and reads from it (the definitions are in
  \<open>Eve_Packets\<close>): the encoder produces the label form of a host name exactly for the encodable
  names, the query and DHCP frames are valid UDP datagrams, the answer parser is free of panics
  on every input and returns the first address record of every well-formed answer.
\<close>

section \<open>Names\<close>

definition dns_labels :: "bytes \<Rightarrow> bytes list" where
  "dns_labels host = split_on (\<lambda>b. b = 0x2E) host"

definition label_wire :: "bytes \<Rightarrow> bytes" where
  "label_wire l = of_nat (length l) # l"

definition qname_wire :: "bytes list \<Rightarrow> bytes" where
  "qname_wire ls = concat (map label_wire ls) @ [0]"

definition label_ok :: "bytes \<Rightarrow> bool" where
  "label_ok l \<longleftrightarrow> l \<noteq> [] \<and> length l \<le> 63"

definition qname_finish :: "bytes \<Rightarrow> (nat \<times> nat \<times> bytes) option \<Rightarrow> (usize \<times> bytes) option" where
  "qname_finish hostname r = (case r of None \<Rightarrow> None
     | Some (start, pos, out) \<Rightarrow>
       let lab = length hostname - start
       in if lab = 0 \<or> 63 < lab \<or> length out < pos + 1 + lab + 1 then None
          else let out = out[pos := of_nat lab]; pos = pos + 1;
                   out = put_at out pos (drop start hostname); pos = pos + lab;
                   out = out[pos := 0]
               in Some (pos + 1, out))"

lemma encode_dns_qname_eq:
  "encode_dns_qname host out = (if host = [] \<or> 200 < length host then None
     else qname_finish host (qname_loop host host 0 0 0 out))"
  by (simp add: encode_dns_qname_def qname_finish_def)

lemma put_label:
  assumes "length l < length rest"
  shows "put_at ((W @ rest)[length W := b]) (Suc (length W)) l = (W @ b # l) @ drop (Suc (length l)) rest"
proof (cases rest)
  case (Cons r rest')
  then show ?thesis by (simp add: put_at_def list_update_append)
qed (use assms in simp)

lemma length_qname_wire: "length (qname_wire ls) = length (concat ls) + length ls + 1"
  by (induction ls) (auto simp: qname_wire_def label_wire_def)

lemma length_split_on: "length (concat (split_on p xs)) + length (split_on p xs) = length xs + 1"
  by (induction xs) (auto split: list.splits)

lemma length_qname_wire_split: "length (qname_wire (split_on p xs)) = length xs + 2"
  using length_split_on [of p xs] by (simp add: length_qname_wire)

lemma qname_loop_eq:
  assumes "\<forall>x\<in>set seg. x \<noteq> 0x2E" "length W = length pre"
  shows "qname_finish (pre @ seg @ bs)
      (qname_loop (pre @ seg @ bs) bs (length pre + length seg) (length pre) (length W) (W @ rest))
    = (if list_all label_ok (split_on (\<lambda>b. b = 0x2E) (seg @ bs)) \<and> length seg + length bs + 2 \<le> length rest
       then Some (length pre + length seg + length bs + 2,
         W @ qname_wire (split_on (\<lambda>b. b = 0x2E) (seg @ bs)) @ drop (length seg + length bs + 2) rest)
       else None)"
  using assms
proof (induction bs arbitrary: pre seg W rest)
  case Nil
  show ?case
  proof (cases "label_ok seg \<and> length seg + 2 \<le> length rest")
    case True
    then have room: "length seg < length rest" by simp
    have "drop (Suc (length seg)) rest \<noteq> []" using True by simp
    then obtain r rs where rs: "drop (Suc (length seg)) rest = r # rs" by (cases "drop (Suc (length seg)) rest") auto
    then have "rs = drop (length seg + 2) rest" by (metis drop_Suc tl_drop list.sel(3) add_2_eq_Suc')
    moreover have "((W @ of_nat (length seg) # seg) @ r # rs)[Suc (length pre) + length seg := 0]
        = W @ (of_nat (length seg) # seg) @ 0 # rs"
      using Nil.prems(2) by (simp add: list_update_append)
    ultimately show ?thesis
      using True Nil.prems put_label [OF room, of W "of_nat (length seg)"] rs
      by (simp add: qname_finish_def Let_def label_ok_def qname_wire_def label_wire_def)
  next
    case False
    with Nil.prems show ?thesis by (auto simp: qname_finish_def Let_def label_ok_def)
  qed
next
  case (Cons b bs)
  have piece: "slice (pre @ seg @ c # bs) (length pre) (length pre + length seg) = seg" for c by (simp add: slice_def)
  show ?case
  proof (cases "b = 0x2E")
    case dot: True
    have sp: "split_on (\<lambda>b. b = 0x2E) (seg @ b # bs) = seg # split_on (\<lambda>b. b = 0x2E) bs"
      using dot Cons.prems(1) by simp
    show ?thesis
    proof (cases "label_ok seg \<and> length seg < length rest")
      case True
      let ?W = "W @ of_nat (length seg) # seg" and ?pre = "pre @ seg @ [b]"
      have step: "qname_loop (pre @ seg @ b # bs) (b # bs) (length pre + length seg) (length pre) (length W) (W @ rest)
          = qname_loop (?pre @ [] @ bs) bs (length ?pre + length ([] :: bytes)) (length ?pre) (length ?W) (?W @ drop (Suc (length seg)) rest)"
        using True dot Cons.prems(2) put_label [of seg rest W "of_nat (length seg)"]
        by (simp add: piece [simplified] label_ok_def Let_def)
      have "length ?W = length ?pre" using Cons.prems(2) by simp
      from Cons.IH [of "[]" ?W ?pre "drop (Suc (length seg)) rest", OF _ this]
      show ?thesis unfolding step sp using True by (auto simp: qname_wire_def label_wire_def add.commute)
    next
      case False
      then show ?thesis using dot Cons.prems(2) sp by (auto simp: qname_finish_def Let_def label_ok_def)
    qed
  next
    case False
    from Cons.IH [of "seg @ [b]" W pre rest] Cons.prems False show ?thesis by simp
  qed
qed

text \<open>
  The DNS name encoder accepts exactly the encodable host names, those of 1 to 200 bytes whose
  dot-separated labels have 1 to 63 bytes each, if the output has room, and writes their label
  form: each label after its length, then the root label. It returns the number of bytes
  written and does not touch the rest of the buffer.
\<close>

theorem encode_dns_qname_spec:
  "encode_dns_qname host out =
     (if length host \<le> 200 \<and> list_all label_ok (dns_labels host) \<and> length host + 2 \<le> length out
      then Some (length host + 2, qname_wire (dns_labels host) @ drop (length host + 2) out) else None)"
proof -
  have "\<not> list_all label_ok (dns_labels [])" by (simp add: dns_labels_def label_ok_def)
  with qname_loop_eq [of "[]" "[]" "[]" host out] show ?thesis
    by (auto simp: encode_dns_qname_eq dns_labels_def)
qed

section \<open>Query and DHCP frames\<close>

definition dns_query :: "u16 \<Rightarrow> bytes \<Rightarrow> bytes" where
  "dns_query tx_id host = to_be16 tx_id @ [1, 0, 0, 1] @ replicate 6 0 @ qname_wire (dns_labels host) @ [0, 1, 0, 1]"

definition dns_encodable :: "bytes \<Rightarrow> bool" where
  "dns_encodable host \<longleftrightarrow> length host \<le> 200 \<and> list_all label_ok (dns_labels host)"

lemma length_dns_query: "length (dns_query tx_id host) = length host + 18"
  by (simp add: dns_query_def dns_labels_def length_qname_wire_split)

lemma dns_header: "put_fields [(0, to_be16 tx_id), (2, to_be16 0x0100), (4, to_be16 1), (6, replicate 6 0)] (replicate 512 0)
    = (to_be16 tx_id @ [1, 0, 0, 1] @ replicate 6 0) @ replicate 500 0"
proof -
  have b: "to_be16 0x0100 = [1, 0]" "to_be16 1 = [0, 1]" by code_simp+
  show ?thesis
    using put_fields_any [of "[]" "[(0, to_be16 tx_id), (2, to_be16 0x0100), (4, to_be16 1), (6, replicate 6 0)]" "replicate 512 0"]
    unfolding b by simp
qed

lemma build_dns_udp_packet_eq:
  "build_dns_udp_packet our_mac gw_mac addrs sport dport host tx_id ip_ident out =
     (if dns_encodable host then udp_frame our_mac gw_mac (addr_our addrs) (addr_dns addrs) sport dport ip_ident
        (dns_query tx_id host) out else (0, out))"
proof (cases "dns_encodable host")
  case True
  let ?h = "to_be16 tx_id @ [1, 0, 0, 1] @ replicate 6 0" and ?q = "qname_wire (dns_labels host)"
  have q: "length ?q = length host + 2" by (simp add: dns_labels_def length_qname_wire_split)
  have enc: "encode_dns_qname host (replicate 500 0) = Some (length host + 2, ?q @ replicate (498 - length host) 0)"
    using True by (simp add: encode_dns_qname_spec dns_encodable_def)
  have len: "length host \<le> 200" using True by (simp add: dns_encodable_def)
  have b: "to_be16 1 = [0, 1]" by code_simp
  let ?dp = "12 + (length host + 2)"
  have put: "put_at (?h @ replicate 500 0) 12 (?q @ replicate (498 - length host) 0)
      = (?h @ ?q) @ replicate (498 - length host) 0"
    using len q by (simp add: put_at_def)
  have "put_fields [(?dp, to_be16 1), (?dp + 2, to_be16 1)] ((?h @ ?q) @ replicate (498 - length host) 0)
      = (?h @ ?q) @ [0, 1, 0, 1] @ drop 4 (replicate (498 - length host) 0)"
    using put_fields_any [of "?h @ ?q" "[(?dp, to_be16 1), (?dp + 2, to_be16 1)]" "replicate (498 - length host) 0"] q
    unfolding b by simp
  moreover have "take (?dp + 4) (put_fields [(?dp, to_be16 1), (?dp + 2, to_be16 1)] ((?h @ ?q) @ replicate (498 - length host) 0))
      = dns_query tx_id host"
  proof -
    have "take (?dp + 4) (dns_query tx_id host @ z) = dns_query tx_id host" for z by (simp add: length_dns_query)
    then have "take (?dp + 4) ((?h @ ?q) @ [0, 1, 0, 1] @ z) = dns_query tx_id host" for z by (simp add: dns_query_def)
    then show ?thesis by (simp only: calculation)
  qed
  ultimately show ?thesis using True enc put
    by (simp only: build_dns_udp_packet_def dns_header Let_def) simp
next
  case False
  then have "encode_dns_qname host (replicate 500 0) = None" by (auto simp: encode_dns_qname_spec dns_encodable_def)
  with False show ?thesis by (simp add: build_dns_udp_packet_def Let_def dns_header)
qed

definition dhcp_opt :: "u8 \<Rightarrow> ipv4 option \<Rightarrow> bytes" where
  "dhcp_opt tag a = (case a of None \<Rightarrow> [] | Some a \<Rightarrow> [tag, 4] @ octets a)"

definition dhcp_message :: "u32 \<Rightarrow> mac \<Rightarrow> u8 \<Rightarrow> ipv4 option \<Rightarrow> ipv4 option \<Rightarrow> bytes" where
  "dhcp_message xid client_mac msg_type server_id requested_ip =
     [1, 1, 6, 0] @ to_be32 xid @ [0, 0, 0x80, 0] @ replicate 16 0 @ mac_bytes client_mac @ replicate 202 0
     @ [99, 130, 83, 99] @ [53, 1, msg_type] @ dhcp_opt 50 requested_ip @ dhcp_opt 54 server_id @ [255]"

lemma length_dhcp_opt: "length (dhcp_opt tag a) = (if a = None then 0 else 6)"
  by (simp add: dhcp_opt_def split: option.splits)

lemma dhcp_push_opt_append:
  assumes "length pre = pos" "2 + length data \<le> length rest"
  shows "dhcp_push_opt tag data (pre @ rest, pos)
    = Some ((pre @ [tag, of_nat (length data)] @ data) @ drop (2 + length data) rest, pos + 2 + length data)"
  using assms put_fields_any [of pre "[(pos, [tag]), (pos + 1, [of_nat (length data)]), (pos + 2, data)]" rest]
  by (simp add: dhcp_push_opt_def)

lemma dhcp_push_optional:
  assumes "length pre = pos" "6 \<le> length rest"
  shows "(case a of None \<Rightarrow> Some (pre @ rest, pos) | Some a \<Rightarrow> dhcp_push_opt tag (octets a) (pre @ rest, pos))
    = Some ((pre @ dhcp_opt tag a) @ drop (length (dhcp_opt tag a)) rest, pos + length (dhcp_opt tag a))"
  using assms dhcp_push_opt_append [OF assms(1), of "octets _" rest tag]
  by (auto simp: dhcp_opt_def split: option.splits)

lemma dhcp_end: "length xs = pos \<Longrightarrow> take (pos + 1) ((xs @ replicate (Suc m) z)[pos := e]) = xs @ [e]"
  by (auto simp: list_update_length)

lemma dhcp_body_eq:
  "dhcp_body xid client_mac msg_type server_id requested_ip
    = Some (dhcp_message xid client_mac msg_type server_id requested_ip)"
proof -
  let ?h = "[1, 1, 6, 0] @ to_be32 xid @ [0, 0, 0x80, 0] @ replicate 16 0 @ mac_bytes client_mac @ replicate 202 0
     @ [99, 130, 83, 99]" and ?t = "[53, 1, msg_type]"
  let ?r = "dhcp_opt 50 requested_ip" and ?s = "dhcp_opt 54 server_id"
  have b: "to_be16 0x8000 = [0x80, 0]" by code_simp
  have h: "put_fields [(0, [1]), (1, [1]), (2, [6]), (4, to_be32 xid), (10, to_be16 0x8000), (28, mac_bytes client_mac),
       (236, [99, 130, 83, 99])] (replicate 576 0) = ?h @ replicate 336 0"
    unfolding b by (simp add: put_fields_def put_at_def numeral_2_eq_2)
  let ?b = "?h @ ?t"
  have 1: "dhcp_push_opt 53 [msg_type] (?h @ replicate 336 0, 240) = Some (?b @ replicate 333 0, 243)"
    using dhcp_push_opt_append [of ?h 240 "[msg_type]" "replicate 336 0" 53] by simp
  have 2: "(case requested_ip of None \<Rightarrow> Some (?b @ replicate 333 0, 243)
      | Some a \<Rightarrow> dhcp_push_opt 50 (octets a) (?b @ replicate 333 0, 243))
      = Some ((?b @ ?r) @ replicate (333 - length ?r) 0, 243 + length ?r)"
    using dhcp_push_optional [of ?b 243 "replicate 333 0" 50 requested_ip] by simp
  have 3: "(case server_id of None \<Rightarrow> Some ((?b @ ?r) @ replicate (333 - length ?r) 0, 243 + length ?r)
      | Some a \<Rightarrow> dhcp_push_opt 54 (octets a) ((?b @ ?r) @ replicate (333 - length ?r) 0, 243 + length ?r))
      = Some ((?b @ ?r @ ?s) @ replicate (333 - length ?r - length ?s) 0, 243 + length ?r + length ?s)"
    using dhcp_push_optional [of "?b @ ?r" "243 + length ?r" "replicate (333 - length ?r) 0" 54 server_id]
    by (simp add: length_dhcp_opt)
  have "0 < 333 - length ?r - length ?s" by (simp add: length_dhcp_opt)
  then obtain m where m: "333 - length ?r - length ?s = Suc m" by (metis gr0_implies_Suc)
  have len: "length (?b @ ?r @ ?s) = 243 + length ?r + length ?s" by simp
  have room: "\<not> length ((?b @ ?r @ ?s) @ replicate (Suc m) 0) \<le> 243 + length ?r + length ?s" by simp
  show ?thesis
    by (simp only: dhcp_body_def Let_def h 1 2 3 m bind.bind_lunit prod.case room if_False dhcp_end [OF len])
      (simp add: dhcp_message_def)
qed

lemma udp_frame_total:
  assumes "length data \<le> 65507" "k = 54 + length data"
  shows "let (n, out') = udp_frame our_mac dst_mac src dst sport dport ident data out
    in if k \<le> length out
       then n = k \<and> drop n out' = drop n out \<and> udp_frame_ok (take n out') src dst sport dport data
       else n = 0 \<and> out' = out"
proof (cases "k \<le> length out")
  case True
  obtain n out' where r: "udp_frame our_mac dst_mac src dst sport dport ident data out = (n, out')" by fastforce
  from udp_frame_valid [OF _ assms(1) r] True assms(2) show ?thesis by (auto simp: r)
qed (use assms(2) in \<open>simp add: udp_frame_def\<close>)

text \<open>
  The UDP frames of the stack are valid. A DNS query for an encodable name is one question for the
  IN A record of that name, a DHCP message carries the fixed BOOTP part, the magic cookie and
  the message type, requested address and server options in this order; each goes out in a frame
  that passes the receiver's checks including both checksums. Names that cannot be
  encoded and buffers without room give length 0 and leave the buffer alone.
\<close>

theorem udp_builders_valid:
  "(let (n, out') = build_dns_udp_packet our_mac gw_mac addrs sport dport host tx_id ident out
    in if dns_encodable host \<and> 72 + length host \<le> length out
       then n = 72 + length host \<and> drop n out' = drop n out
         \<and> udp_frame_ok (take n out') (addr_our addrs) (addr_dns addrs) sport dport (dns_query tx_id host)
       else n = 0 \<and> out' = out)
   \<and> (let data = dhcp_message xid client_mac msg_type server_id requested_ip;
         (n, out') = build_dhcp_packet our_mac addrs xid client_mac msg_type server_id requested_ip out
    in if 54 + length data \<le> length out
       then n = 54 + length data \<and> drop n out' = drop n out
         \<and> udp_frame_ok (take n out') (addr_our addrs) (IPv4 255 255 255 255) 68 67 data
       else n = 0 \<and> out' = out)"
proof -
  have dns: "length (dns_query tx_id host) \<le> 65507" if "dns_encodable host"
    using that by (simp add: length_dns_query dns_encodable_def)
  have dhcp: "length (dhcp_message xid client_mac msg_type server_id requested_ip) \<le> 65507"
    by (simp add: dhcp_message_def length_dhcp_opt)
  show ?thesis
    unfolding build_dns_udp_packet_eq build_dhcp_packet_def dhcp_body_eq option.case
    using dns udp_frame_total [OF dhcp refl] udp_frame_total [of "dns_query tx_id host" "72 + length host"]
    by (cases "dns_encodable host") (simp_all add: Let_def length_dns_query)
qed

section \<open>Reading answers\<close>

lemma dns_answers_total: "\<exists>r. dns_answers buf n off = Some r"
  by (induction n arbitrary: off) (auto simp: index_def Let_def split: option.split)

text \<open>
  The DNS answer parser never indexes out of bounds: on every datagram, whatever its counts and
  lengths say, it returns an address or no address and does not panic.
\<close>

theorem parse_dns_a_total: "parse_dns_a buf expected_id \<noteq> None"
  using dns_answers_total by (auto simp: parse_dns_a_def index_def split: option.split)

text \<open>Names on the wire: labels that end in the root label or in a compression pointer.\<close>

inductive dns_name :: "bytes \<Rightarrow> bool" where
  root: "dns_name [0]"
| pointer: "b AND 0xC0 = 0xC0 \<Longrightarrow> dns_name [b, x]"
| label: "label_ok l \<Longrightarrow> dns_name n \<Longrightarrow> dns_name (label_wire l @ n)"

lemma label_length: "label_ok l \<Longrightarrow> unat (of_nat (length l) :: u8) = length l
    \<and> (of_nat (length l) :: u8) \<noteq> 0 \<and> (of_nat (length l) :: u8) AND 0xC0 \<noteq> 0xC0"
proof -
  assume ok: "label_ok l"
  let ?b = "of_nat (length l) :: u8"
  have u: "unat ?b = length l" by (rule unat_of_nat_small) (use ok in \<open>simp add: label_ok_def\<close>)
  then have "?b \<noteq> 0" using ok by (auto simp: label_ok_def)
  moreover have "take_bit 6 ?b = ?b"
  proof -
    have "length l < 2 ^ 6" using ok by (simp add: label_ok_def)
    then have "take_bit 6 (length l) = length l" by (simp only: take_bit_nat_eq_self)
    then show ?thesis by (simp add: take_bit_word_eq_self take_bit_of_nat flip: of_nat_take_bit)
  qed
  then have "?b AND 0xC0 = take_bit 6 ?b AND 0xC0" by simp
  then have "?b AND 0xC0 = 0" by (simp add: take_bit_eq_mask and.assoc mask_eq_exp_minus_1)
  ultimately show ?thesis using u by simp
qed

lemma skip_dns_name_wire:
  assumes "dns_name n" "length (pre @ n @ post) < 2 ^ 64"
  shows "skip_dns_name (pre @ n @ post) (length pre) = Some (length pre + length n)"
  using assms
proof (induction n arbitrary: pre rule: dns_name.induct)
  case root
  show ?case by (subst skip_dns_name.simps) (simp add: nth_append)
next
  case (pointer b x)
  then have "b \<noteq> 0" by auto
  with pointer show ?case by (subst skip_dns_name.simps) (simp add: nth_append)
next
  case (label l n)
  let ?buf = "pre @ (label_wire l @ n) @ post"
  have "?buf = (pre @ label_wire l) @ n @ post" by simp
  then have ih: "skip_dns_name ?buf (length pre + Suc (length l)) = Some (length pre + Suc (length l) + length n)"
    using label.IH [of "pre @ label_wire l"] label.prems by (simp add: label_wire_def)
  have "?buf ! length pre = of_nat (length l)" by (simp add: label_wire_def)
  then show ?case
    using label_length [OF label.hyps(1)] label.prems ih
    by (subst skip_dns_name.simps) (simp add: label_wire_def checked_add_def USIZE_MAX_def)
qed

record dns_rr =
  rr_name :: bytes
  rr_type :: u16
  rr_class :: u16
  rr_ttl :: u32
  rr_data :: bytes

definition rr_wire :: "dns_rr \<Rightarrow> bytes" where
  "rr_wire r = rr_name r @ to_be16 (rr_type r) @ to_be16 (rr_class r) @ to_be32 (rr_ttl r)
     @ to_be16 (of_nat (length (rr_data r))) @ rr_data r"

definition rr_ok :: "dns_rr \<Rightarrow> bool" where
  "rr_ok r \<longleftrightarrow> dns_name (rr_name r) \<and> length (rr_data r) < 65536"

definition rr_is_a :: "dns_rr \<Rightarrow> bool" where
  "rr_is_a r \<longleftrightarrow> rr_type r = 1 \<and> length (rr_data r) = 4"

fun ipv4_of :: "bytes \<Rightarrow> ipv4" where
  "ipv4_of ds = IPv4 (ds ! 0) (ds ! 1) (ds ! 2) (ds ! 3)"

definition first_a :: "dns_rr list \<Rightarrow> ipv4 option" where
  "first_a rrs = map_option (\<lambda>r. ipv4_of (rr_data r)) (find rr_is_a rrs)"

definition question_wire :: "bytes \<times> u16 \<times> u16 \<Rightarrow> bytes" where
  "question_wire = (\<lambda>(n, t, c). n @ to_be16 t @ to_be16 c)"

definition dns_answer :: "u16 \<Rightarrow> u16 \<Rightarrow> (bytes \<times> u16 \<times> u16) list \<Rightarrow> dns_rr list \<Rightarrow> u32 \<Rightarrow> bytes \<Rightarrow> bytes" where
  "dns_answer ident flags qs rrs counts trailer = to_be16 ident @ to_be16 flags @ to_be16 (of_nat (length qs))
     @ to_be16 (of_nat (length rrs)) @ to_be32 counts @ concat (map question_wire qs) @ concat (map rr_wire rrs) @ trailer"

lemma dns_questions_wire:
  assumes "list_all (\<lambda>q. dns_name (fst q)) qs" "length (pre @ concat (map question_wire qs) @ post) < 2 ^ 64"
  shows "dns_questions (pre @ concat (map question_wire qs) @ post) (length qs) (length pre)
    = Some (length pre + length (concat (map question_wire qs)))"
  using assms
proof (induction qs arbitrary: pre)
  case (Cons q qs)
  obtain n t c where q: "q = (n, t, c)" by (metis surj_pair)
  have w: "question_wire q = n @ to_be16 t @ to_be16 c" by (simp add: question_wire_def q)
  have "skip_dns_name (pre @ n @ (to_be16 t @ to_be16 c @ concat (map question_wire qs) @ post)) (length pre)
      = Some (length pre + length n)"
    by (rule skip_dns_name_wire) (use Cons.prems q w in simp_all)
  with Cons.IH [of "pre @ question_wire q"] Cons.prems q w show ?case by (simp add: add.assoc)
qed simp

lemma rr_head:
  assumes "buf = pre @ rr_wire r @ post" "rr_ok r" "off = length pre + length (rr_name r)"
  shows "of_be16 (buf ! off) (buf ! (off + 1)) = rr_type r"
    "unat (of_be16 (buf ! (off + 8)) (buf ! (off + 9))) = length (rr_data r)"
    "length (rr_data r) = 4 \<Longrightarrow>
      IPv4 (buf ! (off + 10)) (buf ! (off + 11)) (buf ! (off + 12)) (buf ! (off + 13)) = ipv4_of (rr_data r)"
    "length buf = off + 10 + length (rr_data r) + length post"
proof -
  have b: "buf = (pre @ rr_name r) @ (to_be16 (rr_type r) @ to_be16 (rr_class r) @ to_be32 (rr_ttl r)
      @ to_be16 (of_nat (length (rr_data r)))) @ rr_data r @ post"
    using assms(1) by (simp add: rr_wire_def)
  have n: "buf ! (off + j) = ((to_be16 (rr_type r) @ to_be16 (rr_class r) @ to_be32 (rr_ttl r)
      @ to_be16 (of_nat (length (rr_data r)))) @ rr_data r @ post) ! j" for j
    unfolding b using assms(3) by (simp add: nth_append)
  show "of_be16 (buf ! off) (buf ! (off + 1)) = rr_type r"
    using n [of 0] n [of 1] by (simp add: to_be16_def del: of_be16.simps)
  have "of_be16 (buf ! (off + 8)) (buf ! (off + 9)) = of_nat (length (rr_data r))"
    using n [of 8] n [of 9] by (simp add: to_be16_def to_be32_def nth_append del: of_be16.simps)
  moreover have "unat (of_nat (length (rr_data r)) :: u16) = length (rr_data r)"
    by (rule unat_of_nat_small) (use assms(2) in \<open>simp add: rr_ok_def\<close>)
  ultimately show "unat (of_be16 (buf ! (off + 8)) (buf ! (off + 9))) = length (rr_data r)" by simp
  show "length (rr_data r) = 4 \<Longrightarrow>
      IPv4 (buf ! (off + 10)) (buf ! (off + 11)) (buf ! (off + 12)) (buf ! (off + 13)) = ipv4_of (rr_data r)"
    using n [of 10] n [of 11] n [of 12] n [of 13] by (simp add: nth_append)
  show "length buf = off + 10 + length (rr_data r) + length post" unfolding b using assms(3) by simp
qed

lemma dns_answers_step:
  assumes "skip_dns_name buf i = Some off" "off + 10 + rdlen \<le> length buf"
    "of_be16 (buf ! off) (buf ! (off + 1)) = t" "unat (of_be16 (buf ! (off + 8)) (buf ! (off + 9))) = rdlen"
  shows "dns_answers buf (Suc n) i = (if t = 1 \<and> rdlen = 4
    then Some (Some (IPv4 (buf ! (off + 10)) (buf ! (off + 11)) (buf ! (off + 12)) (buf ! (off + 13))))
    else dns_answers buf n (off + 10 + rdlen))"
  using assms by (simp add: index_def Let_def add.commute del: of_be16.simps)

lemma dns_answers_wire:
  assumes "list_all rr_ok rrs" "length (pre @ concat (map rr_wire rrs) @ post) < 2 ^ 64"
  shows "dns_answers (pre @ concat (map rr_wire rrs) @ post) (length rrs) (length pre) = Some (first_a rrs)"
  using assms
proof (induction rrs arbitrary: pre)
  case (Cons r rrs)
  let ?post = "concat (map rr_wire rrs) @ post" and ?off = "length pre + length (rr_name r)"
  let ?buf = "pre @ rr_wire r @ ?post"
  have ok: "rr_ok r" using Cons.prems by simp
  note h = rr_head [where pre = pre and post = ?post and r = r, OF refl ok refl]
  have sk: "skip_dns_name ?buf (length pre) = Some ?off"
  proof -
    have b: "?buf = pre @ rr_name r @ drop (length (rr_name r)) (rr_wire r) @ ?post" by (simp add: rr_wire_def)
    show ?thesis using ok Cons.prems(2) unfolding list.map concat.simps append_assoc b
      by (intro skip_dns_name_wire) (simp_all add: rr_ok_def)
  qed
  have ih: "dns_answers ?buf (length rrs) (?off + 10 + length (rr_data r)) = Some (first_a rrs)"
  proof -
    have "length (rr_wire r) = length (rr_name r) + 10 + length (rr_data r)" by (simp add: rr_wire_def)
    with Cons.IH [of "pre @ rr_wire r"] Cons.prems show ?thesis by (simp add: add.assoc)
  qed
  have fit: "?off + 10 + length (rr_data r) \<le> length ?buf" unfolding h(4) by simp
  have "dns_answers ?buf (Suc (length rrs)) (length pre)
      = (if rr_is_a r then Some (Some (ipv4_of (rr_data r))) else Some (first_a rrs))"
    unfolding dns_answers_step [OF sk fit h(1,2)] ih
    using h(3) by (simp only: rr_is_a_def split: if_split) blast
  then show ?case by (simp add: first_a_def del: dns_answers.simps)
qed (simp add: first_a_def)

text \<open>
  C28. The DNS parser reads well-formed answers correctly: for a message with the expected identifier,
  any questions and any records whose names are labels ended by the root label or a
  compression pointer, it returns the address of the first A record with four octets of data, and
  no address when there is none; a message with another identifier is ignored.
\<close>

theorem parse_dns_a_answer:
  assumes "list_all (\<lambda>q. dns_name (fst q)) qs" "list_all rr_ok rrs" "length qs < 65536" "length rrs < 65536"
    "length (dns_answer ident flags qs rrs counts trailer) < 2 ^ 64"
  shows "parse_dns_a (dns_answer ident flags qs rrs counts trailer) expected
    = Some (if expected = ident then first_a rrs else None)"
proof -
  let ?h = "to_be16 ident @ to_be16 flags @ to_be16 (of_nat (length qs)) @ to_be16 (of_nat (length rrs)) @ to_be32 counts"
  let ?q = "concat (map question_wire qs)" and ?r = "concat (map rr_wire rrs)"
  let ?b = "dns_answer ident flags qs rrs counts trailer"
  have b: "?b = ?h @ ?q @ ?r @ trailer" "?b = (?h @ ?q) @ ?r @ trailer" "length ?h = 12" by (simp_all add: dns_answer_def)
  have q: "dns_questions ?b (length qs) 12 = Some (12 + length ?q)"
    using dns_questions_wire [of qs ?h "?r @ trailer"] assms(1,5) unfolding b(1) b(3) by simp
  have r: "dns_answers ?b (length rrs) (12 + length ?q) = Some (first_a rrs)"
    using dns_answers_wire [of rrs "?h @ ?q" trailer] assms(2,5) unfolding b(2) b(3) by simp
  have "of_be16 (?b ! 0) (?b ! 1) = ident" "of_be16 (?b ! 4) (?b ! 5) = of_nat (length qs)"
      "of_be16 (?b ! 6) (?b ! 7) = of_nat (length rrs)" "12 \<le> length ?b"
    by (simp_all add: dns_answer_def to_be16_def nth_append del: of_be16.simps)
  moreover have "unat (of_nat (length qs) :: u16) = length qs" "unat (of_nat (length rrs) :: u16) = length rrs"
    by (rule unat_of_nat_small, use assms(3,4) in simp)+
  ultimately show ?thesis
    using q r b(3) by (auto simp: parse_dns_a_def index_def Let_def del: of_be16.simps)
qed

theorem parse_dns_a_answer_witness:
  "parse_dns_a (dns_answer 7 0x8180 [([1, 0x61, 0], 1, 1)]
      [\<lparr> rr_name = [0xC0, 12], rr_type = 5, rr_class = 1, rr_ttl = 60, rr_data = [1, 0x62, 0] \<rparr>,
       \<lparr> rr_name = [1, 0x62, 0], rr_type = 1, rr_class = 1, rr_ttl = 60, rr_data = [93, 184, 216, 34] \<rparr>] 0 []) 7
    = Some (Some (IPv4 93 184 216 34))"
proof -
  have l: "dns_name ([1, c, 0])" for c
    using dns_name.label [of "[c]" "[0]"] dns_name.root by (simp add: label_ok_def label_wire_def)
  have p: "dns_name [0xC0, 12]" by (rule dns_name.pointer) simp
  from parse_dns_a_answer [where ident = 7 and flags = "0x8180" and counts = 0 and trailer = "[]" and expected = 7
      and qs = "[([1, 0x61, 0], 1, 1)]" and rrs = "[\<lparr> rr_name = [0xC0, 12], rr_type = 5, rr_class = 1, rr_ttl = 60, rr_data = [1, 0x62, 0] \<rparr>,
       \<lparr> rr_name = [1, 0x62, 0], rr_type = 1, rr_class = 1, rr_ttl = 60, rr_data = [93, 184, 216, 34] \<rparr>]"] l p
  show ?thesis by (simp add: rr_ok_def dns_answer_def question_wire_def rr_wire_def first_a_def rr_is_a_def)
qed

end
