(* ===== verification/Eve_Http.thy ===== *)
theory Eve_Http
  imports Eve_Packets
begin

text \<open>
  Reading an HTTP response, the header functions of \<open>kernel/src/net.rs\<close>: the end of the header block,
  \<open>Transfer-Encoding\<close>, \<open>Content-Length\<close> and \<open>Content-Encoding\<close>, the size line of a chunk, the
  deflate stream inside a gzip member. The three header scans share a loop over the lines of
  the block; \<open>http_lines\<close> is the sequence of lines that loop visits. The lemmas give each parser its
  meaning on what a server writes: numbers printed in decimal and hexadecimal are read back, header
  lists are found under any letter case, the payload of every well-formed gzip member is found.
\<close>

section \<open>Header block\<close>

text \<open>\<open>windows(n).position(|w| w == pat)\<close> for a pattern of length \<open>n\<close>.\<close>

fun find_window :: "bytes \<Rightarrow> bytes \<Rightarrow> usize option" where
  "find_window pat [] = None"
| "find_window pat (b # bs) =
     (if take (length pat) (b # bs) = pat then Some 0 else map_option Suc (find_window pat bs))"

definition find_http_header_end :: "bytes \<Rightarrow> (usize \<times> usize) option" where
  "find_http_header_end buf =
     (case find_window [0x0D, 0x0A, 0x0D, 0x0A] buf of
        Some pos \<Rightarrow> Some (pos, 4)
      | None \<Rightarrow> (case find_window [0x0A, 0x0A] buf of Some pos \<Rightarrow> Some (pos, 2) | None \<Rightarrow> None))"

definition line_starts_with_ci :: "bytes \<Rightarrow> bytes \<Rightarrow> bool" where
  "line_starts_with_ci line prefix \<longleftrightarrow> length prefix \<le> length line
     \<and> list_all2 (\<lambda>a b. to_ascii_lowercase a = b) (take (length prefix) line) prefix"

abbreviation is_blank :: "u8 \<Rightarrow> bool" where
  "is_blank b \<equiv> b = 0x20 \<or> b = 0x09"

definition trim_front_blanks :: "bytes \<Rightarrow> bytes" where
  "trim_front_blanks p = dropWhile is_blank p"

definition trim_back_blanks :: "bytes \<Rightarrow> bytes" where
  "trim_back_blanks p = rev (dropWhile is_blank (rev p))"

definition trim_http_line_prefix :: "bytes \<Rightarrow> bytes \<Rightarrow> bytes option" where
  "trim_http_line_prefix line prefix =
     (if line_starts_with_ci line prefix then Some (trim_front_blanks (drop (length prefix) line)) else None)"

text \<open>The lines of the header block: up to each line feed, without a carriage return before it.\<close>

definition strip_cr :: "bytes \<Rightarrow> bytes" where
  "strip_cr line = (if line \<noteq> [] \<and> last line = 0x0D then butlast line else line)"

function http_lines :: "bytes \<Rightarrow> bytes list" where
  "http_lines headers =
     (if headers = [] then []
      else case position (\<lambda>b. b = 0x0A) headers of
          None \<Rightarrow> [strip_cr headers]
        | Some p \<Rightarrow> strip_cr (take p headers) # http_lines (drop (p + 1) headers))"
  by pat_completeness auto
termination
  by (relation "measure length") (auto dest: position_less_length)

declare http_lines.simps [simp del]

definition lists_chunked :: "bytes \<Rightarrow> bool" where
  "lists_chunked te = list_ex
     (\<lambda>part. line_starts_with_ci (trim_back_blanks (trim_front_blanks part)) (ascii ''chunked''))
     (split_on (\<lambda>b. b = 0x2C) te)"

definition response_headers_chunked :: "bytes \<Rightarrow> bool" where
  "response_headers_chunked headers =
     list_ex (\<lambda>line. case trim_http_line_prefix line (ascii ''transfer-encoding:'') of
         None \<Rightarrow> False | Some te \<Rightarrow> lists_chunked te) (http_lines headers)"

fun decimal_loop :: "usize \<Rightarrow> bytes \<Rightarrow> usize option" where
  "decimal_loop v [] = Some v"
| "decimal_loop v (c # cs) =
     (if is_blank c then Some v
      else if \<not> is_ascii_digit c then None
      else do { m \<leftarrow> checked_mul v 10; v \<leftarrow> checked_add m (unat (c - 0x30)); decimal_loop v cs })"

definition parse_usize_decimal :: "bytes \<Rightarrow> usize option" where
  "parse_usize_decimal s = (let s = trim_front_blanks s in if s = [] then None else decimal_loop 0 s)"

definition chunk_digit :: "u8 \<Rightarrow> usize option" where
  "chunk_digit b =
     (if 0x30 \<le> b \<and> b \<le> 0x39 then Some (unat (b - 0x30))
      else if 0x61 \<le> b \<and> b \<le> 0x66 then Some (unat (b - 0x61 + 10))
      else if 0x41 \<le> b \<and> b \<le> 0x46 then Some (unat (b - 0x41 + 10))
      else None)"

fun chunk_size_loop :: "usize \<Rightarrow> bytes \<Rightarrow> usize option" where
  "chunk_size_loop sz [] = Some sz"
| "chunk_size_loop sz (b # bs) =
     (if b = 0x3B \<or> is_blank b then Some sz
      else do { d \<leftarrow> chunk_digit b; m \<leftarrow> checked_mul sz 16; sz \<leftarrow> checked_add m d; chunk_size_loop sz bs })"

definition parse_chunk_size_line :: "bytes \<Rightarrow> usize option" where
  "parse_chunk_size_line line = chunk_size_loop 0 (strip_cr line)"

fun first_content_length :: "bytes list \<Rightarrow> usize option" where
  "first_content_length [] = None"
| "first_content_length (line # lines) =
     (case trim_http_line_prefix line (ascii ''content-length:'') of
        Some v \<Rightarrow> (case parse_usize_decimal v of Some n \<Rightarrow> Some n | None \<Rightarrow> first_content_length lines)
      | None \<Rightarrow> first_content_length lines)"

definition parse_content_length :: "bytes \<Rightarrow> usize option" where
  "parse_content_length headers = first_content_length (http_lines headers)"

section \<open>Content codings\<close>

datatype body_layer = Identity | Gzip | DeflateZlib | Brotli

definition token_bytes_ci_eq :: "bytes \<Rightarrow> bytes \<Rightarrow> bool" where
  "token_bytes_ci_eq token expect \<longleftrightarrow> length token = length expect
     \<and> list_all2 (\<lambda>a b. to_ascii_lowercase a = b) token expect"

text \<open>One element of the list, without blanks and without parameters after a semicolon.\<close>

definition coding_token :: "bytes \<Rightarrow> bytes" where
  "coding_token raw_part =
     (let p = trim_back_blanks (trim_front_blanks raw_part);
          p = (case position (\<lambda>b. b = 0x3B) p of Some semi \<Rightarrow> take semi p | None \<Rightarrow> p)
      in trim_back_blanks (trim_front_blanks p))"

text \<open>\<open>Inr None\<close> is the \<open>continue\<close> of the loop, \<open>Inl\<close> its error.\<close>

definition coding_layer :: "bytes \<Rightarrow> unit + body_layer option" where
  "coding_layer p =
     (if p = [] then Inr None
      else if token_bytes_ci_eq p (ascii ''gzip'') \<or> token_bytes_ci_eq p (ascii ''x-gzip'') then Inr (Some Gzip)
      else if token_bytes_ci_eq p (ascii ''deflate'') then Inr (Some DeflateZlib)
      else if token_bytes_ci_eq p (ascii ''br'') then Inr (Some Brotli)
      else if token_bytes_ci_eq p (ascii ''identity'') \<or> token_bytes_ci_eq p (ascii ''compress'') then Inr None
      else Inl ())"

fun coding_parts :: "bytes list \<Rightarrow> body_layer list \<times> usize \<Rightarrow> unit + body_layer list \<times> usize" where
  "coding_parts [] acc = Inr acc"
| "coding_parts (raw # parts) (layers, count) =
     (case coding_layer (coding_token raw) of
        Inl _ \<Rightarrow> Inl ()
      | Inr None \<Rightarrow> coding_parts parts (layers, count)
      | Inr (Some layer) \<Rightarrow> if length layers \<le> count then Inl ()
          else coding_parts parts (layers[count := layer], count + 1))"

fun coding_lines :: "bytes list \<Rightarrow> body_layer list \<times> usize \<Rightarrow> unit + body_layer list \<times> usize" where
  "coding_lines [] acc = Inr acc"
| "coding_lines (line # lines) acc =
     (case trim_http_line_prefix line (ascii ''content-encoding:'') of
        None \<Rightarrow> coding_lines lines acc
      | Some v \<Rightarrow> (case coding_parts (split_on (\<lambda>b. b = 0x2C) v) acc of
          Inl _ \<Rightarrow> Inl () | Inr acc \<Rightarrow> coding_lines lines acc))"

definition parse_content_encoding_layers :: "bytes \<Rightarrow> unit + body_layer list \<times> u8" where
  "parse_content_encoding_layers headers =
     (case coding_lines (http_lines headers) (replicate 4 Identity, 0) of
        Inl _ \<Rightarrow> Inl () | Inr (layers, count) \<Rightarrow> Inr (layers, of_nat count))"

section \<open>Bodies\<close>

definition body_starts_like_html :: "bytes \<Rightarrow> bool" where
  "body_starts_like_html buf =
     (case dropWhile (\<lambda>b. b = 0x20 \<or> b = 0x09 \<or> b = 0x0D \<or> b = 0x0A) buf of [] \<Rightarrow> False | b # _ \<Rightarrow> b = 0x3C)"

text \<open>
  The deflate stream of a gzip member. A panic is the outer \<open>None\<close>, the \<open>None\<close> of the source the
  inner one; \<open>skip_zero\<close> is the loop over a zero-terminated field.
\<close>

definition skip_zero :: "bytes \<Rightarrow> usize \<Rightarrow> usize option" where
  "skip_zero gzip i = map_option (\<lambda>p. i + p + 1) (position (\<lambda>b. b = 0) (drop i gzip))"

definition gzip_extra :: "bytes \<Rightarrow> u8 \<Rightarrow> usize \<Rightarrow> usize option option" where
  "gzip_extra gzip flg i =
     (if flg AND 4 \<noteq> 0 then
        if length gzip < i + 2 then Some None
        else do {
          a \<leftarrow> index gzip i; b \<leftarrow> index gzip (i + 1);
          Some (do { i \<leftarrow> checked_add i 2; i \<leftarrow> checked_add i (unat (of_le16 a b));
                if length gzip < i then None else Some i }) }
      else Some (Some i))"

definition gzip_body :: "bytes \<Rightarrow> u8 \<Rightarrow> usize \<Rightarrow> (usize \<times> usize) option" where
  "gzip_body gzip flg i = do {
     i \<leftarrow> (if flg AND 8 \<noteq> 0 then skip_zero gzip i else Some i);
     i \<leftarrow> (if flg AND 16 \<noteq> 0 then skip_zero gzip i else Some i);
     i \<leftarrow> (if flg AND 2 \<noteq> 0 then if length gzip < i + 2 then None else Some (i + 2) else Some i);
     let body_end = length gzip - 8;
     if body_end < i then None else Some (i, body_end) }"

definition gzip_deflate_payload :: "bytes \<Rightarrow> bytes option option" where
  "gzip_deflate_payload gzip =
     (if length gzip < 18 then Some None
      else do {
        g0 \<leftarrow> index gzip 0; g1 \<leftarrow> index gzip 1; g2 \<leftarrow> index gzip 2;
        if g0 \<noteq> 0x1F \<or> g1 \<noteq> 0x8B \<or> g2 \<noteq> 8 then Some None
        else do {
          flg \<leftarrow> index gzip 3;
          if flg AND 0xE0 \<noteq> 0 then Some None
          else do {
            r \<leftarrow> gzip_extra gzip flg 10;
            (case do { i \<leftarrow> r; gzip_body gzip flg i } of
               None \<Rightarrow> Some None
             | Some (i, body_end) \<Rightarrow> map_option Some (subslice gzip i body_end)) } } })"

section \<open>Lines and fields\<close>

lemma http_lines_Nil [simp]: "http_lines [] = []"
  by (simp add: http_lines.simps)

lemma position_eq_at: "\<forall>x\<in>set xs. \<not> p x \<Longrightarrow> p y \<Longrightarrow> position p (xs @ y # ys) = Some (length xs)"
  by (induction xs) auto

lemma http_lines_line:
  assumes "0x0A \<notin> set line"
  shows "http_lines (line @ 0x0A # rest) = strip_cr line # http_lines rest"
proof -
  have "position (\<lambda>b. b = 0x0A) (line @ 0x0A # rest) = Some (length line)"
    by (rule position_eq_at) (use assms in auto)
  then show ?thesis by (subst http_lines.simps) simp
qed

text \<open>What a server writes: a status line and fields, each ended by carriage return and line feed.\<close>

abbreviation (input) "crlf \<equiv> [0x0D, 0x0A] :: bytes"

definition field_line :: "bytes \<times> bytes \<Rightarrow> bytes" where
  "field_line = (\<lambda>(name, val). name @ 0x3A # 0x20 # val)"

definition response_head :: "bytes \<Rightarrow> (bytes \<times> bytes) list \<Rightarrow> bytes" where
  "response_head status flds = concat (map (\<lambda>l. l @ crlf) (status # map field_line flds)) @ crlf"

definition field_ok :: "bytes \<times> bytes \<Rightarrow> bool" where
  "field_ok = (\<lambda>(name, val). 0x3A \<notin> set name \<and> 0x0A \<notin> set name \<and> 0x0A \<notin> set val)"

definition status_ok :: "bytes \<Rightarrow> bool" where
  "status_ok status \<longleftrightarrow> 0x0A \<notin> set status \<and> take 4 status = ascii ''HTTP''"

lemma http_lines_crlf: "0x0A \<notin> set line \<Longrightarrow> http_lines (line @ crlf @ rest) = line # http_lines rest"
  using http_lines_line [of "line @ [0x0D]" rest] by (simp add: strip_cr_def)

lemma http_lines_crlfs:
  "\<forall>l\<in>set ls. 0x0A \<notin> set l \<Longrightarrow> http_lines (concat (map (\<lambda>l. l @ crlf) ls) @ rest) = ls @ http_lines rest"
  by (induction ls) (simp_all add: http_lines_crlf [simplified])

lemma http_lines_response_head:
  assumes "status_ok status" "list_all field_ok flds"
  shows "http_lines (response_head status flds) = status # map field_line flds @ [[]]"
proof -
  have "\<forall>l\<in>set (status # map field_line flds). 0x0A \<notin> set l"
    using assms by (auto simp: status_ok_def list_all_iff field_ok_def field_line_def)
  from http_lines_crlfs [OF this, of crlf] http_lines_crlf [of "[]" "[]"] show ?thesis
    by (simp add: response_head_def)
qed

text \<open>A lower case key with its colon is a prefix of a field line exactly when it is the field's name.\<close>

definition lower_eq :: "bytes \<Rightarrow> bytes \<Rightarrow> bool" where
  "lower_eq name key \<longleftrightarrow> map to_ascii_lowercase name = key"

lemma lower_colon: "to_ascii_lowercase a = 0x3A \<longleftrightarrow> a = 0x3A"
proof -
  have "to_ascii_lowercase a = 0x3A \<Longrightarrow> a = 0x3A"
  proof (cases "is_ascii_uppercase a")
    case True
    then have "unat (a + 32) = unat a + 32" "unat a \<ge> 65"
      by (auto simp: is_ascii_uppercase_def word_le_nat_alt unat_word_ariths)
    moreover assume "to_ascii_lowercase a = 0x3A"
    then have "a + 32 = 0x3A" using True by (simp add: to_ascii_lowercase_def)
    then have "unat (a + 32) = 58" by simp
    ultimately show ?thesis by simp
  qed (simp add: to_ascii_lowercase_def)
  then show ?thesis by (auto simp: to_ascii_lowercase_def is_ascii_uppercase_def)
qed

lemma field_line_prefix:
  assumes "0x3A \<notin> set name" "0x3A \<notin> set key"
  shows "line_starts_with_ci (name @ 0x3A # rest) (key @ [0x3A]) \<longleftrightarrow> lower_eq name key"
  using assms
proof (induction name arbitrary: key)
  case Nil
  then show ?case by (cases key) (auto simp: line_starts_with_ci_def lower_eq_def lower_colon)
next
  case (Cons a name)
  then show ?case
    by (cases key) (auto simp: line_starts_with_ci_def lower_eq_def lower_colon)
qed

text \<open>The values of the fields with a given name, in order.\<close>

definition field_values :: "bytes \<Rightarrow> (bytes \<times> bytes) list \<Rightarrow> bytes list" where
  "field_values key flds = map (\<lambda>(_, val). trim_front_blanks val) (filter (\<lambda>(name, _). lower_eq name key) flds)"

definition line_values :: "bytes \<Rightarrow> bytes list \<Rightarrow> bytes list" where
  "line_values prefix lines = List.map_filter (\<lambda>l. trim_http_line_prefix l prefix) lines"

lemma line_values_simps [simp]:
  "line_values prefix [] = []"
  "line_values prefix (l # ls) = (case trim_http_line_prefix l prefix of None \<Rightarrow> line_values prefix ls
     | Some v \<Rightarrow> v # line_values prefix ls)"
  "line_values prefix (ls @ ls') = line_values prefix ls @ line_values prefix ls'"
  by (simp_all add: line_values_def List.map_filter_def split: option.split)

lemma trim_field_line:
  assumes "field_ok f" "0x3A \<notin> set key"
  shows "trim_http_line_prefix (field_line f) (key @ [0x3A])
    = (if lower_eq (fst f) key then Some (trim_front_blanks (snd f)) else None)"
proof -
  obtain n v where f: "f = (n, v)" by fastforce
  have "lower_eq n key \<Longrightarrow> length n = length key" unfolding lower_eq_def by (metis length_map)
  then show ?thesis
    using assms field_line_prefix [of n key "0x20 # v"]
    by (simp add: f trim_http_line_prefix_def field_line_def field_ok_def trim_front_blanks_def)
qed

lemma line_values_fields:
  assumes "list_all field_ok flds" "0x3A \<notin> set key"
  shows "line_values (key @ [0x3A]) (map field_line flds) = field_values key flds"
  using assms by (induction flds) (auto simp: trim_field_line field_values_def)

lemma line_values_head:
  assumes "status_ok status" "list_all field_ok flds" "0x3A \<notin> set key" "key \<noteq> []" "hd key \<noteq> 0x68"
  shows "line_values (key @ [0x3A]) (http_lines (response_head status flds)) = field_values key flds"
proof -
  obtain k ks where k: "key = k # ks" "k \<noteq> 0x68" using assms(4,5) by (cases key) auto
  obtain rest where "status = 0x48 # rest"
    using assms(1) by (cases status) (auto simp: status_ok_def ascii_def)
  then have "trim_http_line_prefix status (key @ [0x3A]) = None"
    using k by (auto simp: trim_http_line_prefix_def line_starts_with_ci_def to_ascii_lowercase_def is_ascii_uppercase_def)
  moreover have "trim_http_line_prefix [] (key @ [0x3A]) = None"
    by (simp add: trim_http_line_prefix_def line_starts_with_ci_def)
  ultimately show ?thesis
    using assms(1-3) by (simp add: http_lines_response_head line_values_fields)
qed

lemma first_content_length_values:
  "first_content_length lines = (case filter (\<lambda>v. parse_usize_decimal v \<noteq> None) (line_values (ascii ''content-length:'') lines)
     of [] \<Rightarrow> None | v # _ \<Rightarrow> parse_usize_decimal v)"
  by (induction lines) (auto split: option.split)

lemma list_ex_line_values:
  "list_ex (\<lambda>l. case trim_http_line_prefix l prefix of None \<Rightarrow> False | Some v \<Rightarrow> p v) lines
    = list_ex p (line_values prefix lines)"
  by (induction lines) (auto split: option.split)

lemma coding_parts_append:
  "coding_parts (xs @ ys) acc = (case coding_parts xs acc of Inl _ \<Rightarrow> Inl () | Inr acc \<Rightarrow> coding_parts ys acc)"
  by (induction xs acc rule: coding_parts.induct) (auto split: sum.splits option.splits)

lemma coding_lines_values:
  "coding_lines lines acc = coding_parts (concat (map (split_on (\<lambda>b. b = 0x2C))
     (line_values (ascii ''content-encoding:'') lines))) acc"
  by (induction lines arbitrary: acc) (auto simp: coding_parts_append split: option.split sum.split)

lemma header_keys:
  "ascii ''transfer-encoding:'' = ascii ''transfer-encoding'' @ [0x3A]"
  "ascii ''content-length:'' = ascii ''content-length'' @ [0x3A]"
  "ascii ''content-encoding:'' = ascii ''content-encoding'' @ [0x3A]"
  by code_simp+

lemma header_keys_ok:
  "0x3A \<notin> set (ascii ''transfer-encoding'')" "hd (ascii ''transfer-encoding'') \<noteq> 0x68"
  "0x3A \<notin> set (ascii ''content-length'')" "hd (ascii ''content-length'') \<noteq> 0x68"
  "0x3A \<notin> set (ascii ''content-encoding'')" "hd (ascii ''content-encoding'') \<noteq> 0x68"
  "ascii (c # cs) \<noteq> []"
  by (code_simp, code_simp, code_simp, code_simp, code_simp, code_simp, simp add: ascii_def)

lemma head_values:
  assumes "status_ok status" "list_all field_ok flds"
  shows "line_values (ascii ''transfer-encoding:'') (http_lines (response_head status flds))
      = field_values (ascii ''transfer-encoding'') flds"
    "line_values (ascii ''content-length:'') (http_lines (response_head status flds))
      = field_values (ascii ''content-length'') flds"
    "line_values (ascii ''content-encoding:'') (http_lines (response_head status flds))
      = field_values (ascii ''content-encoding'') flds"
  unfolding header_keys using line_values_head [OF assms] header_keys_ok by simp_all

text \<open>
  The header scans see the fields a server wrote: for a status line and a list of fields, the
  response is chunked exactly when some transfer coding of some \<open>Transfer-Encoding\<close> field says so, the
  content length is the first \<open>Content-Length\<close> value that is a number, the layers are the codings
  of all \<open>Content-Encoding\<close> fields in order; names match under any letter case.
\<close>

theorem http_fields_read:
  assumes "status_ok status" "list_all field_ok flds"
  shows "response_headers_chunked (response_head status flds)
      = list_ex lists_chunked (field_values (ascii ''transfer-encoding'') flds)
    \<and> parse_content_length (response_head status flds)
      = (case filter (\<lambda>v. parse_usize_decimal v \<noteq> None) (field_values (ascii ''content-length'') flds)
         of [] \<Rightarrow> None | v # _ \<Rightarrow> parse_usize_decimal v)
    \<and> parse_content_encoding_layers (response_head status flds)
      = (case coding_parts (concat (map (split_on (\<lambda>b. b = 0x2C)) (field_values (ascii ''content-encoding'') flds)))
           (replicate 4 Identity, 0) of Inl _ \<Rightarrow> Inl () | Inr (layers, count) \<Rightarrow> Inr (layers, of_nat count))"
  unfolding response_headers_chunked_def list_ex_line_values parse_content_length_def first_content_length_values
    parse_content_encoding_layers_def coding_lines_values head_values [OF assms] by simp

theorem http_fields_read_witness:
  "parse_content_length (response_head (ascii ''HTTP/1.1 200 OK'')
     [(ascii ''CONTENT-length'', ascii ''x''), (ascii ''Content-Length'', ascii ''42'')]) = Some 42"
proof -
  let ?s = "ascii ''HTTP/1.1 200 OK''"
  let ?f = "[(ascii ''CONTENT-length'', ascii ''x''), (ascii ''Content-Length'', ascii ''42'')]"
  have ok: "status_ok ?s" "list_all field_ok ?f" by code_simp+
  have "(case filter (\<lambda>v. parse_usize_decimal v \<noteq> None) (field_values (ascii ''content-length'') ?f)
      of [] \<Rightarrow> None | v # _ \<Rightarrow> parse_usize_decimal v) = Some 42" by code_simp
  with http_fields_read [OF ok] show ?thesis by simp
qed

section \<open>Numbers\<close>

lemma digit_not_blank: "is_ascii_digit c \<Longrightarrow> \<not> is_blank c"
  by (auto simp: is_ascii_digit_def)

lemma decimal_loop_dec_of: "int n \<le> USIZE_MAX \<Longrightarrow> decimal_loop 0 (dec_of n @ rest) = decimal_loop n rest"
proof (induction n arbitrary: rest rule: dec_of.induct)
  case (1 n)
  show ?case
  proof (cases "n < 10")
    case True
    then show ?thesis
      using digit_of_nat [of n] digit_not_blank by (subst dec_of.simps) (simp add: checked_mul_def checked_add_def USIZE_MAX_def)
  next
    case False
    have fits: "int (n div 10) \<le> USIZE_MAX" "int (n div 10) * 10 \<le> USIZE_MAX"
        "int (n div 10 * 10) + int (n mod 10) \<le> USIZE_MAX"
    proof -
      have "int (n div 10 * 10) + int (n mod 10) = int n" unfolding of_nat_add [symmetric] by simp
      with "1.prems" show "int (n div 10 * 10) + int (n mod 10) \<le> USIZE_MAX" by (simp only:)
    qed (use "1.prems" in \<open>simp_all add: USIZE_MAX_def\<close>)
    have "decimal_loop (n div 10) ((0x30 + of_nat (n mod 10)) # rest) = decimal_loop n rest"
      using digit_of_nat [of "n mod 10"] digit_not_blank fits by (simp add: checked_mul_def checked_add_def)
    with "1.IH" [OF False fits(1)] False show ?thesis by (subst dec_of.simps) simp
  qed
qed

lemma parse_usize_decimal_dec_of:
  assumes "int n \<le> USIZE_MAX" "rest = [] \<or> is_blank (hd rest)"
  shows "parse_usize_decimal (dec_of n @ rest) = Some n"
proof -
  obtain c cs where c: "dec_of n = c # cs" by (cases "dec_of n") simp_all
  then have "\<not> is_blank c" using dec_of_digits [of n] digit_not_blank by simp
  then have "trim_front_blanks (dec_of n @ rest) = dec_of n @ rest" by (simp add: trim_front_blanks_def c)
  moreover have "decimal_loop n rest = Some n" using assms(2) by (cases rest) auto
  ultimately show ?thesis using assms(1) by (simp add: parse_usize_decimal_def decimal_loop_dec_of)
qed

text \<open>Hexadecimal numbers in lower or upper case.\<close>

definition hex_dig :: "bool \<Rightarrow> nat \<Rightarrow> u8" where
  "hex_dig up d = (if d < 10 then 0x30 else if up then 0x37 else 0x57) + of_nat d"

fun hex_of :: "bool \<Rightarrow> nat \<Rightarrow> bytes" where
  "hex_of up n = (if n < 16 then [hex_dig up n] else hex_of up (n div 16) @ [hex_dig up (n mod 16)])"

declare hex_of.simps [simp del]

lemma hex_dig_digit:
  assumes "d < 16"
  shows "chunk_digit (hex_dig up d) = Some d \<and> hex_dig up d \<notin> {0x3B, 0x20, 0x09, 0x0D, 0x0A}"
proof -
  have "list_all (\<lambda>d. \<forall>up. chunk_digit (hex_dig up d) = Some d \<and> hex_dig up d \<notin> {0x3B, 0x20, 0x09, 0x0D, 0x0A}) [0..<16]"
    by code_simp
  then show ?thesis using assms by (simp add: list_all_iff)
qed

lemma chunk_size_loop_hex_of: "int n \<le> USIZE_MAX \<Longrightarrow> chunk_size_loop 0 (hex_of up n @ rest) = chunk_size_loop n rest"
proof (induction up n arbitrary: rest rule: hex_of.induct)
  case (1 up n)
  show ?case
  proof (cases "n < 16")
    case True
    then show ?thesis
      using hex_dig_digit [of n up] by (subst hex_of.simps) (simp add: checked_mul_def checked_add_def USIZE_MAX_def)
  next
    case False
    have fits: "int (n div 16) \<le> USIZE_MAX" "int (n div 16) * 16 \<le> USIZE_MAX"
        "int (n div 16 * 16) + int (n mod 16) \<le> USIZE_MAX"
    proof -
      have "int (n div 16 * 16) + int (n mod 16) = int n" unfolding of_nat_add [symmetric] by simp
      with "1.prems" show "int (n div 16 * 16) + int (n mod 16) \<le> USIZE_MAX" by (simp only:)
    qed (use "1.prems" in \<open>simp_all add: USIZE_MAX_def\<close>)
    have "chunk_size_loop (n div 16) (hex_dig up (n mod 16) # rest) = chunk_size_loop n rest"
      using hex_dig_digit [of "n mod 16" up] fits by (simp add: checked_mul_def checked_add_def)
    with "1.IH" [OF False fits(1)] False show ?thesis by (subst hex_of.simps) simp
  qed
qed

lemma hex_of_chars: "\<forall>c\<in>set (hex_of up n). c \<notin> {0x3B, 0x20, 0x09, 0x0D, 0x0A}"
proof (induction up n rule: hex_of.induct)
  case (1 up n)
  then show ?case using hex_dig_digit [of n up] hex_dig_digit [of "n mod 16" up] by (subst hex_of.simps) auto
qed

lemma hex_of_not_Nil [simp]: "hex_of up n \<noteq> []"
  by (subst hex_of.simps) simp

lemma length_hex_of_le: "n < 16 ^ Suc k \<Longrightarrow> length (hex_of up n) \<le> Suc k"
proof (induction k arbitrary: n)
  case 0
  then show ?case by (subst hex_of.simps) simp
next
  case (Suc k)
  then have "n div 16 < 16 ^ Suc k" by (simp add: less_mult_imp_div_less)
  from Suc.IH [OF this] show ?case by (subst hex_of.simps) simp
qed

text \<open>
  Sizes are read back: a size line with a hexadecimal number in either case, followed by an
  optional extension or carriage return, is read as that number; a length in decimal, after blanks
  and before trailing blanks, is read as that number, for all numbers that fit \<open>usize\<close>.
\<close>

theorem http_sizes_read:
  assumes "int n \<le> USIZE_MAX"
  shows "parse_chunk_size_line (hex_of up n) = Some n \<and> parse_chunk_size_line (hex_of up n @ [0x0D]) = Some n
    \<and> parse_chunk_size_line (hex_of up n @ 0x3B # ext) = Some n
    \<and> parse_usize_decimal (replicate k 0x20 @ dec_of n @ replicate l 0x20) = Some n"
proof (intro conjI)
  have no_cr: "strip_cr (hex_of up n) = hex_of up n"
    using hex_of_chars [of up n] by (auto simp: strip_cr_def)
  show "parse_chunk_size_line (hex_of up n) = Some n"
    using chunk_size_loop_hex_of [OF assms, of up "[]"] no_cr by (simp add: parse_chunk_size_line_def)
  show "parse_chunk_size_line (hex_of up n @ [0x0D]) = Some n"
    using chunk_size_loop_hex_of [OF assms, of up "[]"] by (simp add: parse_chunk_size_line_def strip_cr_def)
  have "strip_cr (hex_of up n @ 0x3B # ext)
      = hex_of up n @ 0x3B # (if ext \<noteq> [] \<and> last ext = 0x0D then butlast ext else ext)"
    by (auto simp: strip_cr_def butlast_append)
  then show "parse_chunk_size_line (hex_of up n @ 0x3B # ext) = Some n"
    by (simp add: parse_chunk_size_line_def chunk_size_loop_hex_of [OF assms])
  have "trim_front_blanks (replicate k 0x20 @ xs) = trim_front_blanks xs" for xs
    by (induction k) (simp_all add: trim_front_blanks_def)
  then show "parse_usize_decimal (replicate k 0x20 @ dec_of n @ replicate l 0x20) = Some n"
    using parse_usize_decimal_dec_of [OF assms, of "replicate l 0x20"]
    by (cases l) (simp_all add: parse_usize_decimal_def)
qed

theorem http_sizes_read_witness: "parse_chunk_size_line (hex_of True 0x1A2F) = Some 0x1A2F"
  using http_sizes_read [where n = "0x1A2F" and up = True] by (simp add: USIZE_MAX_def)

section \<open>Codings\<close>

fun coding_name :: "body_layer \<Rightarrow> bytes" where
  "coding_name Identity = ascii ''identity''"
| "coding_name Gzip = ascii ''gzip''"
| "coding_name DeflateZlib = ascii ''deflate''"
| "coding_name Brotli = ascii ''br''"

fun coding_list :: "body_layer list \<Rightarrow> bytes" where
  "coding_list [] = []"
| "coding_list [l] = coding_name l"
| "coding_list (l # ls) = coding_name l @ 0x2C # 0x20 # coding_list ls"

definition layer_of :: "body_layer \<Rightarrow> body_layer option" where
  "layer_of l = (if l = Identity then None else Some l)"

lemma all_layers: "list_all p [Identity, Gzip, DeflateZlib, Brotli] \<Longrightarrow> p l"
  by (cases l) simp_all

lemma coding_token_name: "coding_token (coding_name l) = coding_name l"
  by (rule all_layers [of "\<lambda>l. coding_token (coding_name l) = coding_name l"]) code_simp

lemma coding_token_blank: "coding_token (0x20 # p) = coding_token p"
  by (simp add: coding_token_def trim_front_blanks_def)

lemma coding_layer_name: "coding_layer (coding_name l) = Inr (layer_of l)"
  by (rule all_layers [of "\<lambda>l. coding_layer (coding_name l) = Inr (layer_of l)"]) code_simp

lemma coding_name_comma: "0x2C \<notin> set (coding_name l)"
  by (rule all_layers [of "\<lambda>l. 0x2C \<notin> set (coding_name l)"]) code_simp

lemmas coding_name_layer = coding_token_name coding_token_blank coding_layer_name

lemma split_coding_list:
  "ls \<noteq> [] \<Longrightarrow> split_on (\<lambda>b. b = 0x2C) (coding_list ls)
     = coding_name (hd ls) # map (\<lambda>l. 0x20 # coding_name l) (tl ls)"
proof (induction ls rule: coding_list.induct)
  case (2 l)
  show ?case using coding_name_comma [of l] by (auto intro!: split_on_no)
next
  case (3 l l' ls)
  have no: "\<forall>x\<in>set (coding_name l). \<not> x = 0x2C" using coding_name_comma [of l] by auto
  have "split_on (\<lambda>b. b = 0x2C) (0x20 # xs) = (case split_on (\<lambda>b. b = 0x2C) xs of p # ps \<Rightarrow> (0x20 # p) # ps)"
    if "split_on (\<lambda>b. b = 0x2C) xs \<noteq> []" for xs :: bytes
    using that by (auto split: list.split)
  with 3 no show ?case by simp
qed simp

lemma coding_parts_layers:
  assumes "\<And>raw. raw \<in> set raws \<Longrightarrow> coding_layer (coding_token raw) = Inr (f raw)"
    "length layers = 4" "count \<le> 4"
  shows "coding_parts raws (layers, count) =
    (let fs = List.map_filter f raws
     in if count + length fs \<le> 4 then Inr (take count layers @ fs @ drop (count + length fs) layers, count + length fs) else Inl ())"
  using assms
proof (induction raws arbitrary: layers count)
  case (Cons raw raws)
  show ?case
  proof (cases "f raw")
    case None
    with Cons show ?thesis by (simp add: List.map_filter_def)
  next
    case (Some l)
    then show ?thesis
      using Cons.prems Cons.IH [of "layers[count := l]" "Suc count"]
      by (auto simp: List.map_filter_def Let_def take_Suc_conv_app_nth drop_update_cancel)
  qed
qed (simp add: List.map_filter_def)

lemma map_filter_layer_of: "List.map_filter layer_of ls = filter (\<lambda>l. l \<noteq> Identity) ls"
  by (induction ls) (simp_all add: List.map_filter_def layer_of_def)

text \<open>
  The \<open>Content-Encoding\<close> list is read back in header order: a comma-separated list of codings in a
  field of that name gives those codings without the identity ones, padded with identity to four
  layers; more than four layers are an error.
\<close>

theorem content_encoding_read:
  assumes "status_ok status" "list_all field_ok flds" "ls \<noteq> []"
    "field_values (ascii ''content-encoding'') flds = [coding_list ls]"
  shows "parse_content_encoding_layers (response_head status flds) =
    (let fs = filter (\<lambda>l. l \<noteq> Identity) ls
     in if length fs \<le> 4 then Inr (fs @ replicate (4 - length fs) Identity, of_nat (length fs)) else Inl ())"
proof -
  obtain l ls' where ls: "ls = l # ls'" using assms(3) by (cases ls) auto
  let ?raws = "coding_name l # map (\<lambda>l. 0x20 # coding_name l) ls'"
  have layer: "coding_layer (coding_token raw) = Inr (projr (coding_layer (coding_token raw)))" if "raw \<in> set ?raws" for raw
    using that by (auto simp: coding_name_layer)
  have "List.map_filter (\<lambda>raw. projr (coding_layer (coding_token raw))) ?raws = List.map_filter layer_of ls"
    unfolding ls by (simp add: List.map_filter_def coding_name_layer comp_def filter_map)
  then have "coding_parts ?raws (replicate 4 Identity, 0) =
    (let fs = filter (\<lambda>l. l \<noteq> Identity) ls
     in if length fs \<le> 4 then Inr (fs @ drop (length fs) (replicate 4 Identity), length fs) else Inl ())"
    using coding_parts_layers [where raws = ?raws and layers = "replicate 4 Identity" and count = 0, OF layer]
    by (simp add: map_filter_layer_of Let_def del: coding_parts.simps)
  moreover have "split_on (\<lambda>b. b = 0x2C) (coding_list ls) = ?raws" using split_coding_list [OF assms(3)] ls by simp
  ultimately show ?thesis
    unfolding parse_content_encoding_layers_def coding_lines_values head_values [OF assms(1,2)] assms(4)
    by (simp add: Let_def)
qed

theorem content_encoding_read_witness:
  "parse_content_encoding_layers (response_head (ascii ''HTTP/1.1 200 OK'')
     [(ascii ''Content-Encoding'', ascii ''gzip, identity, br'')]) = Inr ([Gzip, Brotli, Identity, Identity], 2)"
proof -
  let ?s = "ascii ''HTTP/1.1 200 OK''" and ?f = "[(ascii ''Content-Encoding'', ascii ''gzip, identity, br'')]"
  have ok: "status_ok ?s" "list_all field_ok ?f" by code_simp+
  have v: "field_values (ascii ''content-encoding'') ?f = [coding_list [Gzip, Identity, Brotli]]" by code_simp
  show ?thesis using content_encoding_read [OF ok _ v] by (simp add: Let_def numeral_2_eq_2)
qed

section \<open>Gzip members\<close>

record gzip_member =
  gz_flags :: u8
  gz_info :: bytes
  gz_extra :: bytes
  gz_name :: bytes
  gz_comment :: bytes
  gz_hcrc :: bytes
  gz_deflate :: bytes
  gz_trailer :: bytes

definition gz_ok :: "gzip_member \<Rightarrow> bool" where
  "gz_ok g \<longleftrightarrow> gz_flags g AND 0xE0 = 0 \<and> length (gz_info g) = 6 \<and> length (gz_extra g) < 65536 \<and> 0 \<notin> set (gz_name g)
     \<and> 0 \<notin> set (gz_comment g) \<and> length (gz_hcrc g) = 2 \<and> length (gz_trailer g) = 8"

definition gz_part :: "gzip_member \<Rightarrow> u8 \<Rightarrow> bytes \<Rightarrow> bytes" where
  "gz_part g fl part = (if gz_flags g AND fl \<noteq> 0 then part else [])"

definition gzip_wire :: "gzip_member \<Rightarrow> bytes" where
  "gzip_wire g = [0x1F, 0x8B, 8, gz_flags g] @ gz_info g
     @ gz_part g 4 (to_le16 (of_nat (length (gz_extra g))) @ gz_extra g) @ gz_part g 8 (gz_name g @ [0])
     @ gz_part g 16 (gz_comment g @ [0]) @ gz_part g 2 (gz_hcrc g) @ gz_deflate g @ gz_trailer g"

lemma skip_zero_field: "0 \<notin> set xs \<Longrightarrow> length pre = i \<Longrightarrow> skip_zero (pre @ (xs @ [0]) @ post) i = Some (i + length xs + 1)"
  using position_eq_at [of xs "\<lambda>b. b = 0" 0 post] by (auto simp: skip_zero_def)

lemma gz_skip_zero:
  assumes "0 \<notin> set xs" "length pre = i"
  shows "(if gz_flags g AND fl \<noteq> 0 then skip_zero (pre @ gz_part g fl (xs @ [0]) @ post) i else Some i)
    = Some (i + length (gz_part g fl (xs @ [0])))"
  using assms skip_zero_field [of xs pre i post] by (simp add: gz_part_def)

lemma of_le16_length: "n < 65536 \<Longrightarrow> unat (of_le16 (to_le16 (of_nat n) ! 0) (to_le16 (of_nat n) ! 1)) = n"
proof -
  assume n: "n < 65536"
  have "of_le16 (to_le16 w ! 0) (to_le16 w ! 1) = w" for w
    using of_be16_bytes [of w] by (simp add: to_le16_def)
  moreover have "unat (of_nat n :: u16) = n" by (rule unat_of_nat_small) (use n in simp)
  ultimately show ?thesis by (simp del: of_le16.simps)
qed

lemma gz_extra_skip:
  assumes "length (gz_extra g) < 65536" "length pre = i"
    "b = pre @ gz_part g 4 (to_le16 (of_nat (length (gz_extra g))) @ gz_extra g) @ post" "length b < 2 ^ 64"
  shows "gzip_extra b (gz_flags g) i
    = Some (Some (i + length (gz_part g 4 (to_le16 (of_nat (length (gz_extra g))) @ gz_extra g))))"
proof (cases "gz_flags g AND 4 \<noteq> 0")
  case True
  let ?l = "to_le16 (of_nat (length (gz_extra g)))"
  have b: "b = pre @ (?l @ gz_extra g) @ post" using assms(3) True by (simp add: gz_part_def)
  have n: "b ! i = ?l ! 0" "b ! (i + 1) = ?l ! 1" unfolding b using assms(2) by (simp_all add: nth_append to_le16_def)
  have len: "length b = i + 2 + length (gz_extra g) + length post" unfolding b using assms(2) by simp
  have "unat (of_le16 (b ! i) (b ! (i + 1))) = length (gz_extra g)" unfolding n by (rule of_le16_length [OF assms(1)])
  moreover have "checked_add i 2 = Some (i + 2)" "checked_add (i + 2) (length (gz_extra g)) = Some (i + 2 + length (gz_extra g))"
    using len assms(4) by (simp_all add: checked_add_def USIZE_MAX_def)
  ultimately show ?thesis
    using True len by (simp add: gzip_extra_def gz_part_def index_def del: of_le16.simps)
qed (simp add: gzip_extra_def gz_part_def)

lemma gzip_body_bound: "gzip_body gzip flg i = Some (j, e) \<Longrightarrow> j \<le> e \<and> e \<le> length gzip"
  unfolding gzip_body_def Let_def bind_eq_Some_conv by (auto split: if_splits)

text \<open>
  The deflate stream of every well-formed gzip member, with any combination of extra field, name,
  comment and header checksum, is the one between its header and its trailer; and
  on no input at all does the function index out of bounds.
\<close>

theorem gzip_payload_found:
  assumes "gz_ok g" "length (gzip_wire g) < 2 ^ 64"
  shows "gzip_deflate_payload (gzip_wire g) = Some (Some (gz_deflate g)) \<and> gzip_deflate_payload any \<noteq> None"
proof
  let ?h = "[0x1F, 0x8B, 8, gz_flags g] @ gz_info g"
  let ?x = "gz_part g 4 (to_le16 (of_nat (length (gz_extra g))) @ gz_extra g)"
  let ?n = "gz_part g 8 (gz_name g @ [0])" and ?c = "gz_part g 16 (gz_comment g @ [0])" and ?r = "gz_part g 2 (gz_hcrc g)"
  let ?b = "gzip_wire g" and ?d = "gz_deflate g" and ?t = "gz_trailer g"
  note ok = assms(1) [unfolded gz_ok_def]
  have b: "?b = ?h @ ?x @ ?n @ ?c @ ?r @ ?d @ ?t" "?b = (?h @ ?x) @ ?n @ ?c @ ?r @ ?d @ ?t"
      "?b = (?h @ ?x @ ?n) @ ?c @ ?r @ ?d @ ?t" "?b = (?h @ ?x @ ?n @ ?c @ ?r) @ ?d @ ?t"
    by (simp_all add: gzip_wire_def)
  have h: "length ?h = 10" "?b ! 0 = 0x1F" "?b ! 1 = 0x8B" "?b ! 2 = 8" "?b ! 3 = gz_flags g"
    using ok by (simp_all add: gzip_wire_def)
  define i where "i = 10 + length ?x + length ?n + length ?c + length ?r"
  have len: "length ?b = i + length ?d + 8" using ok by (simp add: gzip_wire_def i_def)
  have x: "gzip_extra ?b (gz_flags g) 10 = Some (Some (10 + length ?x))"
    by (rule gz_extra_skip [OF _ h(1) b(1) assms(2)]) (use ok in simp)
  have n: "(if gz_flags g AND 8 \<noteq> 0 then skip_zero ?b (10 + length ?x) else Some (10 + length ?x))
      = Some (10 + length ?x + length ?n)"
    unfolding b(2) by (rule gz_skip_zero) (use ok in simp_all)
  have c: "(if gz_flags g AND 16 \<noteq> 0 then skip_zero ?b (10 + length ?x + length ?n) else Some (10 + length ?x + length ?n))
      = Some (10 + length ?x + length ?n + length ?c)"
    unfolding b(3) by (rule gz_skip_zero) (use ok in simp_all)
  have r: "(if gz_flags g AND 2 \<noteq> 0 then if length ?b < 10 + length ?x + length ?n + length ?c + 2 then None
        else Some (10 + length ?x + length ?n + length ?c + 2) else Some (10 + length ?x + length ?n + length ?c)) = Some i"
    using len ok by (auto simp: i_def gz_part_def [of g 2])
  have "slice ?b i (length ?b - 8) = ?d" 
    unfolding len b(4) by (rule slice_middle) (use ok in \<open>simp_all add: i_def\<close>)
  then have "subslice ?b i (length ?b - 8) = Some ?d" using len by simp
  then show "gzip_deflate_payload ?b = Some (Some ?d)"
    using ok h len x n c r
    by (simp only: gzip_deflate_payload_def gzip_body_def) (simp add: index_def Let_def i_def)
  have total: "gzip_extra any flg 10 \<noteq> None" for flg by (simp add: gzip_extra_def index_def)
  show "gzip_deflate_payload any \<noteq> None"
    using total [of "any ! 3"] by (auto simp: gzip_deflate_payload_def index_def dest!: gzip_body_bound split: option.split bind_split)
qed

theorem gzip_payload_found_witness:
  "gzip_deflate_payload ([0x1F, 0x8B, 8, 12, 0, 0, 0, 0, 0, 3] @ [1, 0, 9] @ [0x61, 0] @ [3, 0] @ replicate 8 0) = Some (Some [3, 0])"
proof -
  let ?g = "\<lparr> gz_flags = 12, gz_info = [0, 0, 0, 0, 0, 3], gz_extra = [9], gz_name = [0x61], gz_comment = [],
    gz_hcrc = [0, 0], gz_deflate = [3, 0], gz_trailer = replicate 8 0 \<rparr>"
  have w: "gzip_wire ?g = [0x1F, 0x8B, 8, 12, 0, 0, 0, 0, 0, 3] @ [1, 0, 9] @ [0x61, 0] @ [3, 0] @ replicate 8 0"
    by (simp add: gzip_wire_def gz_part_def to_le16_def)
  have "gz_ok ?g" by (simp add: gz_ok_def)
  moreover have "length (gzip_wire ?g) < 2 ^ 64" unfolding w by simp
  ultimately show ?thesis using gzip_payload_found [of ?g] unfolding w by simp
qed

section \<open>Requests\<close>

lemma http_pieces:
  "HTTP_P1 @ path @ HTTP_P2 @ host @ HTTP_P3 = concat (map (\<lambda>l. l @ crlf) [ascii ''GET '' @ path @ ascii '' HTTP/1.0'',
     ascii ''Host: '' @ host, ascii ''User-Agent: EveOS/0.1'', ascii ''Accept-Encoding: gzip, identity'',
     ascii ''Connection: close'']) @ crlf"
  by (simp add: HTTP_P1_def HTTP_P2_def HTTP_P3_def)

text \<open>
  The request the stack sends is well-formed: when it fits the buffer, the bytes written are the
  request line with the path, the \<open>Host\<close> field with the host, the three fixed fields and an empty
  line, and nothing after them is touched; a path or host without a line feed cannot add lines. When it does not fit
  there is no request.
\<close>

theorem http_get_lines:
  assumes "0x0A \<notin> set path" "0x0A \<notin> set host"
  shows "case build_http_get path host out of
      None \<Rightarrow> length out < 100 + length path + length host
    | Some (n, out') \<Rightarrow> n = 100 + length path + length host \<and> n \<le> length out \<and> drop n out' = drop n out
        \<and> http_lines (take n out') = [ascii ''GET '' @ path @ ascii '' HTTP/1.0'', ascii ''Host: '' @ host,
            ascii ''User-Agent: EveOS/0.1'', ascii ''Accept-Encoding: gzip, identity'', ascii ''Connection: close'', []]"
proof -
  have len: "length HTTP_P1 = 4" "length HTTP_P2 = 17" "length HTTP_P3 = 79"
    by (simp_all add: HTTP_P1_def HTTP_P2_def HTTP_P3_def)
  let ?ls = "[ascii ''GET '' @ path @ ascii '' HTTP/1.0'', ascii ''Host: '' @ host, ascii ''User-Agent: EveOS/0.1'',
    ascii ''Accept-Encoding: gzip, identity'', ascii ''Connection: close'']"
  let ?r = "HTTP_P1 @ path @ HTTP_P2 @ host @ HTTP_P3"
  have "\<forall>l\<in>set ?ls. 0x0A \<notin> set l" using assms by (simp add: ascii_def)
  then have lines: "http_lines ?r = ?ls @ [[]]"
    unfolding http_pieces using http_lines_crlfs [of ?ls crlf] http_lines_crlf [of "[]" "[]"] by simp
  have "put_fields [(0, HTTP_P1), (4, path), (4 + length path, HTTP_P2), (21 + length path, host), (21 + length path + length host, HTTP_P3)] out
      = ?r @ drop (100 + length path + length host) out"
    using put_fields_any [of "[]" "[(0, HTTP_P1), (4, path), (4 + length path, HTTP_P2), (21 + length path, host),
      (21 + length path + length host, HTTP_P3)]" out]
    by (simp add: len ac_simps)
  with lines show ?thesis by (auto simp: build_http_get_def Let_def len ac_simps)
qed

theorem http_get_lines_witness:
  "case build_http_get (ascii ''/'') (ascii ''a.b'') (replicate 200 0) of
      None \<Rightarrow> False
    | Some (n, out') \<Rightarrow> n = 104 \<and> hd (http_lines (take n out')) = ascii ''GET / HTTP/1.0''"
proof -
  have p: "0x0A \<notin> set (ascii ''/'')" "0x0A \<notin> set (ascii ''a.b'')" by code_simp+
  show ?thesis using http_get_lines [OF p, of "replicate 200 0"] by (auto simp: ascii_def split: option.splits)
qed

end
