(* ===== verification/Eve_Url.thy ===== *)
theory Eve_Url
  imports Eve_Prelude
begin

text \<open>
  The URL parser of the browser fetcher, \<open>kernel/src/url.rs\<close>: \<open>parse_fetch_url\<close> and every helper
  it calls, one definition per function, with the fixed arrays of \<open>ParsedHttpUrl\<close> kept as lists
  of their declared lengths. The lemmas characterise \<open>parse_ipv4_host\<close> against a split-based
  reference, show that a parsed URL is well formed (buffer bounds, lengths, leading slash), and
  that every URL put together from a scheme, a host, an optional port and a path is accepted with
  exactly these parts.
\<close>

section \<open>The parsed URL\<close>

record parsed_http_url =
  https :: bool
  port :: u16
  ip :: ipv4
  needs_dns :: bool
  host_for_dns :: bytes
  host_for_dns_len :: usize
  host_header :: bytes
  host_header_len :: usize
  path :: bytes
  path_len :: usize

section \<open>Operations\<close>

definition eq_ci :: "u8 \<Rightarrow> u8 \<Rightarrow> bool" where
  "eq_ci a b \<longleftrightarrow> to_ascii_lowercase a = to_ascii_lowercase b"

text \<open>The shared loop of \<open>starts_with_http\<close> and \<open>starts_with_https\<close>.\<close>

definition strip_ci :: "bytes \<Rightarrow> bytes \<Rightarrow> bytes option" where
  "strip_ci p url =
     (if length url < length p then None
      else if \<forall>i<length p. eq_ci (url ! i) (p ! i) then Some (drop (length p) url) else None)"

definition starts_with_http :: "bytes \<Rightarrow> bytes option" where
  "starts_with_http url = strip_ci (ascii ''http://'') url"

definition starts_with_https :: "bytes \<Rightarrow> bytes option" where
  "starts_with_https url = strip_ci (ascii ''https://'') url"

fun parse_u8_loop :: "u16 \<Rightarrow> bytes \<Rightarrow> u16 option" where
  "parse_u8_loop v [] = Some v"
| "parse_u8_loop v (c # cs) =
     (if \<not> is_ascii_digit c then None
      else let v' = v * 10 + ucast (c - 0x30) in if 255 < v' then None else parse_u8_loop v' cs)"

definition parse_u8 :: "bytes \<Rightarrow> u8 option" where
  "parse_u8 s = (if s = [] \<or> 3 < length s then None else map_option ucast (parse_u8_loop 0 s))"

text \<open>The enumerated loop of \<open>parse_ipv4_host\<close>: \<open>parts\<close>, \<open>n\<close> and \<open>start\<close> are its variables.\<close>

fun ipv4_loop :: "bytes \<Rightarrow> bytes \<Rightarrow> nat \<Rightarrow> bytes \<Rightarrow> nat \<Rightarrow> nat \<Rightarrow> (bytes \<times> nat \<times> nat) option" where
  "ipv4_loop host [] i parts n start = Some (parts, n, start)"
| "ipv4_loop host (b # bs) i parts n start =
     (if b = byte CHR ''.'' then
        if 4 \<le> n then None
        else (case parse_u8 (slice host start i) of
            None \<Rightarrow> None
          | Some v \<Rightarrow> ipv4_loop host bs (Suc i) (parts[n := v]) (Suc n) (Suc i))
      else ipv4_loop host bs (Suc i) parts n start)"

definition parse_ipv4_host :: "bytes \<Rightarrow> ipv4 option" where
  "parse_ipv4_host host =
     (case ipv4_loop host host 0 [0, 0, 0, 0] 0 0 of
        None \<Rightarrow> None
      | Some (parts, n, start) \<Rightarrow>
          if n \<noteq> 3 then None
          else (case parse_u8 (drop start host) of
              None \<Rightarrow> None
            | Some v \<Rightarrow> (let parts = parts[3 := v]
                in Some (IPv4 (parts ! 0) (parts ! 1) (parts ! 2) (parts ! 3)))))"

text \<open>The two index loops of \<open>trim\<close>.\<close>

function trim_front :: "bytes \<Rightarrow> nat \<Rightarrow> nat \<Rightarrow> nat" where
  "trim_front url i j = (if i < j \<and> url ! i = 0x20 then trim_front url (Suc i) j else i)"
  by pat_completeness auto
termination
  by (relation "measure (\<lambda>(url, i, j). j - i)") auto

fun trim_back :: "bytes \<Rightarrow> nat \<Rightarrow> nat \<Rightarrow> nat" where
  "trim_back url i 0 = 0"
| "trim_back url i (Suc j) = (if i < Suc j \<and> url ! j = 0x20 then trim_back url i j else Suc j)"

declare trim_front.simps [simp del]

definition trim :: "bytes \<Rightarrow> bytes" where
  "trim url = (let i = trim_front url 0 (length url); j = trim_back url i (length url)
     in slice url i j)"

definition is_path_start :: "u8 \<Rightarrow> bool" where
  "is_path_start b \<longleftrightarrow> b = byte CHR ''/'' \<or> b = byte CHR ''?'' \<or> b = byte CHR ''#''"

text \<open>The decimal digits of a port other than the default one, built from the end of \<open>tmp\<close>.\<close>

definition port_digits :: "u16 \<Rightarrow> bytes" where
  "port_digits prt =
     (let tmp = replicate 16 0;
          (i, tmp) = (if prt = 0 then (15, tmp[15 := byte CHR ''0'']) else dec_fill 16 prt tmp)
      in drop i tmp)"

text \<open>One more byte is needed for the slash put before a query or fragment.\<close>

definition path_extra :: "bytes \<Rightarrow> usize" where
  "path_extra path_src =
     (if path_src \<noteq> [] \<and> (path_src ! 0 = byte CHR ''?'' \<or> path_src ! 0 = byte CHR ''#'') then 1 else 0)"

text \<open>The \<open>host_header\<close> array and its length, \<open>None\<close> when the text does not fit.\<close>

definition header_field :: "bytes \<Rightarrow> u16 \<Rightarrow> bool \<Rightarrow> (bytes \<times> usize) option" where
  "header_field host prt tls =
     (let hhdr = put_at (replicate 96 0) 0 host;
          default_port = (if tls then 443 else 80)
      in if prt \<noteq> default_port then
           (let ds = port_digits prt
            in if 95 < length host + 1 + length ds then None
               else Some (put_at (hhdr[length host := byte CHR '':'']) (length host + 1) ds,
                 length host + 1 + length ds))
         else Some (hhdr, length host))"

text \<open>The \<open>path\<close> array and its length.\<close>

definition path_field :: "bytes \<Rightarrow> bytes \<times> usize" where
  "path_field path_src =
     (if path_src = [] then ((replicate 160 0)[0 := byte CHR ''/''], 1)
      else if path_src ! 0 = byte CHR ''?'' \<or> path_src ! 0 = byte CHR ''#''
      then (put_at ((replicate 160 0)[0 := byte CHR ''/'']) 1 path_src, length path_src + 1)
      else (put_at (replicate 160 0) 0 path_src, length path_src))"

definition finish_parse :: "bytes \<Rightarrow> u16 \<Rightarrow> bytes \<Rightarrow> bool \<Rightarrow> parsed_http_url option" where
  "finish_parse host prt path_src tls =
     (if host = [] \<or> 95 < length host \<or> 159 < saturating_add (length path_src) (path_extra path_src)
      then None
      else case header_field host prt tls of
          None \<Rightarrow> None
        | Some (hhdr, hlen) \<Rightarrow>
          (let addr = (case parse_ipv4_host host of Some oct \<Rightarrow> oct | None \<Rightarrow> IPv4 0 0 0 0);
               (pth, plen) = path_field path_src
           in Some \<lparr> https = tls, port = prt, ip = addr, needs_dns = (addr = IPv4 0 0 0 0),
                host_for_dns = put_at (replicate 96 0) 0 host, host_for_dns_len = length host,
                host_header = hhdr, host_header_len = hlen, path = pth, path_len = plen \<rparr>))"

text \<open>The digit loop of the explicit port, over \<open>u32\<close>.\<close>

fun parse_port_loop :: "u32 \<Rightarrow> bytes \<Rightarrow> u32 option" where
  "parse_port_loop p [] = Some p"
| "parse_port_loop p (c # cs) =
     (if \<not> is_ascii_digit c then None
      else let p' = p * 10 + ucast (c - 0x30) in if 65535 < p' then None else parse_port_loop p' cs)"

text \<open>The end of the port text: the first byte after the colon that starts a path.\<close>

definition port_end :: "bytes \<Rightarrow> usize" where
  "port_end ps = (case position is_path_start ps of Some j \<Rightarrow> j | None \<Rightarrow> length ps)"

text \<open>The branch of an explicit port: \<open>ps\<close> is the text after the colon.\<close>

definition parse_port_part :: "bytes \<Rightarrow> bytes \<Rightarrow> bool \<Rightarrow> parsed_http_url option" where
  "parse_port_part host ps tls =
     (let pe = port_end ps
      in if pe = 0 then None
         else case parse_port_loop 0 (take pe ps) of
             None \<Rightarrow> None
           | Some p \<Rightarrow>
             (let after = drop pe ps
              in if after = [] then finish_parse host (ucast p) (ascii ''/'') tls
                 else if is_path_start (after ! 0) then finish_parse host (ucast p) after tls
                 else None))"

text \<open>
  The scan over \<open>rest\<close> stops at the first byte that starts a path (then \<open>host_end\<close> is its
  index) or at the first colon (then the port is parsed and the function returns).
\<close>

definition parse_host_port_path :: "bytes \<Rightarrow> u16 \<Rightarrow> bool \<Rightarrow> parsed_http_url option" where
  "parse_host_port_path rest default_port tls =
     (let stop = position (\<lambda>b. is_path_start b \<or> b = byte CHR '':'') rest
      in case stop of
        Some i \<Rightarrow>
          if rest ! i = byte CHR '':'' then parse_port_part (take i rest) (drop (i + 1) rest) tls
          else finish_parse (take i rest) default_port (drop i rest) tls
      | None \<Rightarrow> finish_parse rest default_port (ascii ''/'') tls)"

definition parse_fetch_url :: "bytes \<Rightarrow> parsed_http_url option" where
  "parse_fetch_url url0 =
     (let url = trim url0
      in case starts_with_https url of
          Some rest \<Rightarrow> parse_host_port_path rest 443 True
        | None \<Rightarrow> (case starts_with_http url of
            Some rest \<Rightarrow> parse_host_port_path rest 80 False
          | None \<Rightarrow> None))"

definition parse_http_url :: "bytes \<Rightarrow> parsed_http_url option" where
  "parse_http_url url =
     (case parse_fetch_url url of None \<Rightarrow> None | Some u \<Rightarrow> if https u then None else Some u)"

section \<open>Digit loops\<close>

lemma unat_digit_step:
  fixes v :: "'a::len word"
  assumes "is_ascii_digit c" "unat v * 10 + 9 < 2 ^ LENGTH('a)" "7 < LENGTH('a)"
  shows "unat (v * 10 + ucast (c - 0x30)) = unat v * 10 + unat (c - 0x30)"
proof -
  have d: "unat (c - 0x30) \<le> 9"
    using assms(1) by (auto simp: is_ascii_digit_def word_le_nat_alt unat_sub)
  have "unat (c - 0x30) < 2 ^ LENGTH('a)" using d assms(2) by linarith
  then have "unat (ucast (c - 0x30) :: 'a word) = unat (c - 0x30)"
    by (simp add: unsigned_ucast_eq take_bit_nat_eq_self)
  moreover have "unat (v * 10) = unat v * 10"
    using assms(2,3) by (simp add: unat_word_ariths take_bit_ten)
  ultimately show ?thesis using d assms(2) by (simp add: unat_word_ariths)
qed

lemma parse_u8_loop_eq:
  "unat v \<le> 255 \<Longrightarrow> parse_u8_loop v cs =
     (if (\<forall>c\<in>set cs. is_ascii_digit c) \<and> dec_value (unat v) cs \<le> 255
      then Some (of_nat (dec_value (unat v) cs)) else None)"
proof (induction cs arbitrary: v)
  case Nil
  then show ?case by (simp add: dec_value_def)
next
  case (Cons c cs)
  let ?v = "v * 10 + ucast (c - 0x30)"
  show ?case
  proof (cases "is_ascii_digit c")
    case True
    then have v: "unat ?v = unat v * 10 + unat (c - 0x30)"
      using Cons.prems by (intro unat_digit_step) simp_all
    have step: "dec_value (unat v) (c # cs) = dec_value (unat ?v) cs"
      by (simp add: dec_value_def v)
    have "255 < ?v \<longleftrightarrow> 255 < unat ?v" by (simp add: word_less_nat_alt)
    then show ?thesis
      using True Cons.IH [of ?v] dec_value_ge [of "unat ?v" cs] by (auto simp: step Let_def)
  qed simp
qed

lemma parse_port_loop_eq:
  "unat p \<le> 65535 \<Longrightarrow> parse_port_loop p cs =
     (if (\<forall>c\<in>set cs. is_ascii_digit c) \<and> dec_value (unat p) cs \<le> 65535
      then Some (of_nat (dec_value (unat p) cs)) else None)"
proof (induction cs arbitrary: p)
  case Nil
  then show ?case by (simp add: dec_value_def)
next
  case (Cons c cs)
  let ?v = "p * 10 + ucast (c - 0x30)"
  show ?case
  proof (cases "is_ascii_digit c")
    case True
    then have v: "unat ?v = unat p * 10 + unat (c - 0x30)"
      using Cons.prems by (intro unat_digit_step) simp_all
    have step: "dec_value (unat p) (c # cs) = dec_value (unat ?v) cs"
      by (simp add: dec_value_def v)
    have "65535 < ?v \<longleftrightarrow> 65535 < unat ?v" by (simp add: word_less_nat_alt)
    then show ?thesis
      using True Cons.IH [of ?v] dec_value_ge [of "unat ?v" cs] by (auto simp: step Let_def)
  qed simp
qed

lemma ucast_of_nat_small: "n \<le> 255 \<Longrightarrow> (ucast (of_nat n :: u16) :: u8) = of_nat n"
  by (rule word_unat_eq_iff [THEN iffD2]) (simp add: unsigned_ucast_eq unsigned_of_nat take_bit_nat_eq_self)

lemma parse_u8_eq:
  "parse_u8 s = (if s \<noteq> [] \<and> length s \<le> 3 \<and> (\<forall>c\<in>set s. is_ascii_digit c) \<and> dec_value 0 s \<le> 255
     then Some (of_nat (dec_value 0 s)) else None)"
  by (auto simp: parse_u8_def parse_u8_loop_eq ucast_of_nat_small)

lemma parse_u8_dec_of [simp]: "parse_u8 (dec_of (unat a)) = Some a"
proof -
  have "unat a < 10 ^ Suc 2" using unat_u8_less [of a] by (simp del: unat_u8_less)
  from length_dec_of_le [OF this] have "length (dec_of (unat a)) \<le> 3" by simp
  moreover have "unat a \<le> 255" using unat_u8_less [of a] by linarith
  ultimately show ?thesis by (simp add: parse_u8_eq dec_of_digits)
qed

section \<open>Dotted IPv4 hosts\<close>

abbreviation is_dot :: "u8 \<Rightarrow> bool" where
  "is_dot b \<equiv> b = 0x2E"

text \<open>The reference: split at the dots and parse exactly four octets.\<close>

definition ipv4_of_pieces :: "bytes list \<Rightarrow> ipv4 option" where
  "ipv4_of_pieces ps =
     (case map parse_u8 ps of [Some a, Some b, Some c, Some d] \<Rightarrow> Some (IPv4 a b c d) | _ \<Rightarrow> None)"

text \<open>What the loop computes from the pieces that are still to come.\<close>

fun gather :: "bytes \<Rightarrow> nat \<Rightarrow> bytes list \<Rightarrow> bytes option" where
  "gather parts n [] = None"
| "gather parts n [p] = (if n = 3 then map_option (\<lambda>v. parts[3 := v]) (parse_u8 p) else None)"
| "gather parts n (p # q # ps) =
     (if 4 \<le> n then None
      else case parse_u8 p of None \<Rightarrow> None | Some v \<Rightarrow> gather (parts[n := v]) (Suc n) (q # ps))"

definition ipv4_finish :: "bytes \<Rightarrow> (bytes \<times> nat \<times> nat) option \<Rightarrow> bytes option" where
  "ipv4_finish host r = (case r of None \<Rightarrow> None | Some (parts, n, start) \<Rightarrow>
     if n \<noteq> 3 then None
     else (case parse_u8 (drop start host) of None \<Rightarrow> None | Some v \<Rightarrow> Some (parts[3 := v])))"

lemma ipv4_loop_gather:
  assumes "\<forall>x\<in>set seg. \<not> is_dot x"
  shows "ipv4_finish (pre @ seg @ bs)
      (ipv4_loop (pre @ seg @ bs) bs (length pre + length seg) parts n (length pre))
    = gather parts n (split_on is_dot (seg @ bs))"
  using assms
proof (induction bs arbitrary: pre seg parts n)
  case Nil
  then show ?case by (auto simp: ipv4_finish_def split: option.splits)
next
  case (Cons b bs)
  have piece: "slice (pre @ seg @ b # bs) (length pre) (length pre + length seg) = seg"
    by (simp add: slice_def)
  show ?case
  proof (cases "is_dot b")
    case True
    have "ipv4_finish (pre @ seg @ b # bs)
        (ipv4_loop (pre @ seg @ b # bs) bs (Suc (length pre + length seg)) parts' n'
          (Suc (length pre + length seg)))
      = gather parts' n' (split_on is_dot bs)" for parts' n'
      using Cons.IH [of "[]" "pre @ seg @ [b]" parts' n'] by simp
    moreover obtain q qs where "split_on is_dot bs = q # qs"
      by (metis neq_Nil_conv split_on_not_Nil)
    ultimately show ?thesis
      using True Cons.prems piece by (auto simp: ipv4_finish_def split: option.splits)
  next
    case False
    with Cons.IH [of "seg @ [b]" pre parts n] Cons.prems show ?thesis by simp
  qed
qed

lemma gather_pieces:
  "map_option (\<lambda>ps. IPv4 (ps ! 0) (ps ! Suc 0) (ps ! 2) (ps ! 3)) (gather [0, 0, 0, 0] 0 ps)
     = ipv4_of_pieces ps"
proof -
  consider "ps = []" | a where "ps = [a]" | a b where "ps = [a, b]" | a b c where "ps = [a, b, c]"
    | a b c d where "ps = [a, b, c, d]" | a b c d e where "ps = [a, b, c, d, e]"
    | a b c d e f r where "ps = a # b # c # d # e # f # r"
    by (metis list.exhaust)
  then show ?thesis
    by cases (auto simp: ipv4_of_pieces_def numeral_2_eq_2 numeral_3_eq_3 split: option.splits)
qed

lemma parse_ipv4_host_pieces: "parse_ipv4_host host = ipv4_of_pieces (split_on is_dot host)"
proof -
  have "parse_ipv4_host host = map_option (\<lambda>ps. IPv4 (ps ! 0) (ps ! 1) (ps ! 2) (ps ! 3))
      (ipv4_finish host (ipv4_loop host host 0 [0, 0, 0, 0] 0 0))"
    by (auto simp: parse_ipv4_host_def ipv4_finish_def Let_def split: option.splits)
  also have "\<dots> = ipv4_of_pieces (split_on is_dot host)"
    using ipv4_loop_gather [of "[]" "[]" host "[0, 0, 0, 0]" 0] by (simp add: gather_pieces)
  finally show ?thesis .
qed

text \<open>The printed form of an address.\<close>

fun dotted :: "ipv4 \<Rightarrow> bytes" where
  "dotted (IPv4 a b c d) = dec_of (unat a) @ byte CHR ''.'' # dec_of (unat b) @ byte CHR ''.''
     # dec_of (unat c) @ byte CHR ''.'' # dec_of (unat d)"

lemma dec_of_no_dot: "\<forall>c\<in>set (dec_of n). \<not> is_dot c"
  using dec_of_digits [of n] by (auto simp: is_ascii_digit_def)

lemma parse_ipv4_host_dotted [simp]: "parse_ipv4_host (dotted a) = Some a"
  by (cases a) (simp add: parse_ipv4_host_pieces ipv4_of_pieces_def dec_of_no_dot)

section \<open>Trimming and the scheme\<close>

abbreviation is_space :: "u8 \<Rightarrow> bool" where
  "is_space b \<equiv> b = 0x20"

lemma trim_front_eq:
  "i \<le> length url \<Longrightarrow> drop (trim_front url i (length url)) url = dropWhile is_space (drop i url)
     \<and> i \<le> trim_front url i (length url) \<and> trim_front url i (length url) \<le> length url"
proof (induction url i "length url" rule: trim_front.induct)
  case (1 url i)
  show ?case
  proof (cases "i < length url")
    case True
    then show ?thesis using "1.hyps"
      by (subst (1 2 3) trim_front.simps) (auto simp: Cons_nth_drop_Suc [symmetric])
  next
    case False
    with "1.prems" show ?thesis by (subst (1 2 3) trim_front.simps) simp
  qed
qed

lemma trim_back_eq:
  "i \<le> j \<Longrightarrow> j \<le> length url \<Longrightarrow>
   slice url i (trim_back url i j) = rev (dropWhile is_space (rev (slice url i j)))"
proof (induction j)
  case 0
  then show ?case by (simp add: slice_def)
next
  case (Suc j)
  show ?case
  proof (cases "i \<le> j")
    case True
    then have "slice url i (Suc j) = slice url i j @ [url ! j]"
      using Suc.prems slice_append [of i j "Suc j" url] by (simp add: slice_single)
    with Suc True show ?thesis by simp
  next
    case False
    with Suc.prems show ?thesis by (simp add: slice_def)
  qed
qed

lemma trim_eq: "trim url = rev (dropWhile is_space (rev (dropWhile is_space url)))"
proof -
  let ?i = "trim_front url 0 (length url)"
  have i: "drop ?i url = dropWhile is_space url" "?i \<le> length url"
    using trim_front_eq [of 0 url] by simp_all
  have "slice url ?i (length url) = dropWhile is_space url"
    using i by (metis slice_def append_Nil2 drop_append length_drop order_refl take_all)
  with i(2) show ?thesis by (simp add: trim_def Let_def trim_back_eq)
qed

lemma dropWhile_replicate_append [simp]:
  "p x \<Longrightarrow> dropWhile p (replicate n x @ ys) = dropWhile p ys"
  by (induction n) auto

lemma trim_padded:
  assumes "xs \<noteq> []" "\<not> is_space (hd xs)" "\<not> is_space (last xs)"
  shows "trim (replicate m 0x20 @ xs @ replicate n 0x20) = xs"
proof -
  have front: "dropWhile is_space (replicate m 0x20 @ xs @ replicate n 0x20) = xs @ replicate n 0x20"
    using assms(1,2) by (cases xs) simp_all
  have "dropWhile is_space (replicate n 0x20 @ rev xs) = rev xs"
    using assms(1,3) by (cases "rev xs") (auto simp flip: hd_rev)
  with front show ?thesis by (simp add: trim_eq)
qed

lemma strip_ci_append:
  "length q = length p \<Longrightarrow> map to_ascii_lowercase q = map to_ascii_lowercase p \<Longrightarrow>
   strip_ci p (q @ rest) = Some rest"
  by (auto simp: strip_ci_def eq_ci_def nth_append list_eq_iff_nth_eq)

lemma strip_ci_SomeD:
  assumes "strip_ci p url = Some rest"
  shows "\<exists>q. url = q @ rest \<and> map to_ascii_lowercase q = map to_ascii_lowercase p"
proof -
  from assms have len: "length p \<le> length url" and rest: "rest = drop (length p) url"
    and eq: "\<forall>i<length p. eq_ci (url ! i) (p ! i)"
    by (auto simp: strip_ci_def split: if_splits)
  have "map to_ascii_lowercase (take (length p) url) = map to_ascii_lowercase p"
    using len eq by (intro nth_equalityI) (auto simp: eq_ci_def)
  with rest show ?thesis by (metis append_take_drop_id)
qed

section \<open>What a finished parse holds\<close>

definition default_port :: "bool \<Rightarrow> u16" where
  "default_port tls = (if tls then 443 else 80)"

text \<open>The text of the \<open>Host:\<close> header and the normalised request path.\<close>

definition header_text :: "bytes \<Rightarrow> u16 \<Rightarrow> bool \<Rightarrow> bytes" where
  "header_text host prt tls =
     (if prt = default_port tls then host else host @ byte CHR '':'' # dec_of (unat prt))"

definition path_text :: "bytes \<Rightarrow> bytes" where
  "path_text src = (if src = [] then ascii ''/''
     else if src ! 0 = byte CHR ''?'' \<or> src ! 0 = byte CHR ''#'' then byte CHR ''/'' # src else src)"

text \<open>The parts of a parsed URL as texts.\<close>

definition url_host :: "parsed_http_url \<Rightarrow> bytes" where
  "url_host u = take (host_for_dns_len u) (host_for_dns u)"

definition url_header :: "parsed_http_url \<Rightarrow> bytes" where
  "url_header u = take (host_header_len u) (host_header u)"

definition url_path :: "parsed_http_url \<Rightarrow> bytes" where
  "url_path u = take (path_len u) (path u)"

definition url_wf :: "parsed_http_url \<Rightarrow> bool" where
  "url_wf u \<longleftrightarrow> length (host_for_dns u) = 96 \<and> length (host_header u) = 96 \<and> length (path u) = 160
     \<and> 1 \<le> host_for_dns_len u \<and> host_for_dns_len u \<le> 95 \<and> host_header_len u \<le> 95
     \<and> 1 \<le> path_len u \<and> path_len u \<le> 159
     \<and> url_header u = header_text (url_host u) (port u) (https u)
     \<and> ip u = (case parse_ipv4_host (url_host u) of Some a \<Rightarrow> a | None \<Rightarrow> IPv4 0 0 0 0)
     \<and> (needs_dns u \<longleftrightarrow> ip u = IPv4 0 0 0 0)"

lemma port_digits_eq [simp]: "port_digits prt = dec_of (unat prt)"
proof (cases "prt = 0")
  case True
  then show ?thesis by (subst dec_of.simps) (simp add: port_digits_def eval_nat_numeral)
next
  case False
  obtain j t where run: "dec_fill 16 prt (replicate 16 0) = (j, t)" by fastforce
  have "unat prt < 10 ^ 16" using unsigned_less [of prt] by (rule less_trans) simp
  from dec_fill_correct [OF this _ _ run] False
  have "length t = 16" "slice t j 16 = dec_of (unat prt)" by simp_all
  with False run show ?thesis by (simp add: slice_def port_digits_def)
qed

lemma put_at_prefix:
  "length xs \<le> n \<Longrightarrow> take (length xs) (put_at (replicate n 0) 0 xs) = xs"
  by (simp add: put_at_def)

definition parts_fit :: "bytes \<Rightarrow> u16 \<Rightarrow> bytes \<Rightarrow> bool \<Rightarrow> bool" where
  "parts_fit host prt src tls \<longleftrightarrow> host \<noteq> [] \<and> length host \<le> 95 \<and> length (path_text src) \<le> 159
     \<and> length (header_text host prt tls) \<le> 95"

lemma path_extra_bound:
  "159 < saturating_add (length src) (path_extra src) \<longleftrightarrow> 159 < length (path_text src)"
  by (subst less_saturating_add) (auto simp: USIZE_MAX_def path_text_def path_extra_def)

lemma header_field_eq:
  assumes "length host \<le> 95"
  shows "header_field host prt tls = (if length (header_text host prt tls) \<le> 95
    then Some (put_at (replicate 96 0) 0 (header_text host prt tls), length (header_text host prt tls))
    else None)"
proof -
  have "put_at ((put_at (replicate 96 0) 0 host)[length host := 0x3A]) (Suc (length host)) ds
      = put_at (replicate 96 0) 0 (host @ 0x3A # ds)" if "length host + 1 + length ds \<le> 95" for ds :: bytes
    using that by (cases "96 - length host") (simp_all add: put_at_def list_update_append)
  with assms show ?thesis
    by (simp add: header_field_def header_text_def default_port_def Let_def)
qed

lemma path_field_eq:
  "path_field src = (put_at (replicate 160 0) 0 (path_text src), length (path_text src))"
  by (simp add: path_field_def path_text_def put_at_def eval_nat_numeral ascii_def)

lemma finish_parse_eq:
  "finish_parse host prt src tls =
    (if parts_fit host prt src tls then Some \<lparr> https = tls, port = prt,
       ip = (case parse_ipv4_host host of Some a \<Rightarrow> a | None \<Rightarrow> IPv4 0 0 0 0),
       needs_dns = ((case parse_ipv4_host host of Some a \<Rightarrow> a | None \<Rightarrow> IPv4 0 0 0 0) = IPv4 0 0 0 0),
       host_for_dns = put_at (replicate 96 0) 0 host, host_for_dns_len = length host,
       host_header = put_at (replicate 96 0) 0 (header_text host prt tls),
       host_header_len = length (header_text host prt tls),
       path = put_at (replicate 160 0) 0 (path_text src), path_len = length (path_text src) \<rparr>
     else None)"
  by (auto simp: finish_parse_def path_extra_bound parts_fit_def header_field_eq path_field_eq Let_def)

lemma finish_parse_parts:
  assumes "finish_parse host prt src tls = Some u"
  shows "url_wf u" "url_host u = host" "port u = prt" "https u = tls" "url_path u = path_text src"
proof -
  have fit: "parts_fit host prt src tls" using assms by (simp add: finish_parse_eq split: if_splits)
  then show "url_host u = host" "port u = prt" "https u = tls" "url_path u = path_text src"
    using assms by (auto simp: finish_parse_eq url_host_def url_path_def put_at_prefix parts_fit_def)
  have "path_text src \<noteq> []" by (simp add: path_text_def ascii_def)
  with fit have "1 \<le> length (path_text src)" by (cases "path_text src") auto
  moreover have "1 \<le> length host" using fit by (cases host) (auto simp: parts_fit_def)
  ultimately show "url_wf u"
    using assms fit by (auto simp: finish_parse_eq url_wf_def url_host_def url_header_def
        put_at_prefix parts_fit_def)
qed

section \<open>Properties of the URL parser\<close>

definition is_host_stop :: "u8 \<Rightarrow> bool" where
  "is_host_stop b \<longleftrightarrow> is_path_start b \<or> b = byte CHR '':''"

definition scheme_text :: "bool \<Rightarrow> bytes" where
  "scheme_text tls = (if tls then ascii ''https://'' else ascii ''http://'')"

lemma hd_path_text: "src = [] \<or> is_path_start (src ! 0) \<Longrightarrow> hd (path_text src) = byte CHR ''/''"
  by (cases src) (auto simp: path_text_def is_path_start_def ascii_def)

lemma parse_host_port_path_SomeD:
  assumes "parse_host_port_path rest dp tls = Some u"
  obtains host prt src where "finish_parse host prt src tls = Some u"
    "\<forall>b\<in>set host. \<not> is_host_stop b" "src = [] \<or> is_path_start (src ! 0)"
proof (cases "position (\<lambda>b. is_path_start b \<or> b = byte CHR '':'') rest")
  case None
  then have "\<forall>b\<in>set rest. \<not> is_host_stop b"
    by (simp add: position_None is_host_stop_def)
  with assms None that [of rest dp "ascii ''/''"] show ?thesis
    by (simp add: parse_host_port_path_def is_path_start_def ascii_def)
next
  case (Some i)
  then have i: "i < length rest" "is_host_stop (rest ! i)"
    and before: "\<forall>b\<in>set (take i rest). \<not> is_host_stop b"
    by (auto simp: position_Some is_host_stop_def in_set_conv_nth)
  show ?thesis
  proof (cases "rest ! i = byte CHR '':''")
    case True
    with assms Some before show ?thesis
      by (auto simp: parse_host_port_path_def parse_port_part_def Let_def is_path_start_def ascii_def
          split: if_splits option.splits intro: that)
  next
    case False
    with i have "is_path_start (drop i rest ! 0)" by (simp add: is_host_stop_def)
    with assms Some before False that show ?thesis by (simp add: parse_host_port_path_def)
  qed
qed

text \<open>
  C32. Every URL the parser accepts is well formed: the fixed buffers keep their lengths, the host
  has 1 to 95 bytes and none of the delimiters slash, question mark, hash and colon, the
  \<open>Host:\<close> header is the host with the port exactly when it is not the scheme's default, the
  path is not empty and starts with a slash, and a name lookup is requested exactly when the host
  is not a (non-zero) dotted address.
\<close>

theorem parse_fetch_url_wf:
  assumes "parse_fetch_url url = Some u"
  shows "url_wf u \<and> (\<forall>b\<in>set (url_host u). \<not> is_host_stop b) \<and> hd (url_path u) = byte CHR ''/''"
proof -
  from assms obtain rest dp tls where "parse_host_port_path rest dp tls = Some u"
    by (auto simp: parse_fetch_url_def Let_def split: option.splits)
  then obtain host prt src where fin: "finish_parse host prt src tls = Some u"
    and host: "\<forall>b\<in>set host. \<not> is_host_stop b" and src: "src = [] \<or> is_path_start (src ! 0)"
    by (rule parse_host_port_path_SomeD)
  from finish_parse_parts [OF fin] host hd_path_text [OF src] show ?thesis by simp
qed

theorem parse_fetch_url_wf_witness:
  "url_wf (the (parse_fetch_url (ascii ''http://a.b:81?q'')))
    \<and> (\<forall>b. b \<in> set (url_host (the (parse_fetch_url (ascii ''http://a.b:81?q'')))) \<and> is_host_stop b \<longleftrightarrow> False)
    \<and> hd (url_path (the (parse_fetch_url (ascii ''http://a.b:81?q'')))) = byte CHR ''/''"
proof -
  have "parse_fetch_url (ascii ''http://a.b:81?q'') \<noteq> None" by code_simp
  then have "parse_fetch_url (ascii ''http://a.b:81?q'')
      = Some (the (parse_fetch_url (ascii ''http://a.b:81?q'')))"
    by simp
  from parse_fetch_url_wf [OF this] show ?thesis by blast
qed

lemma position_append:
  "\<forall>x\<in>set xs. \<not> p x \<Longrightarrow> p y \<Longrightarrow> position p (xs @ y # ys) = Some (length xs)"
  by (induction xs) auto

lemma parse_host_port_path_no_port:
  assumes host: "\<forall>b\<in>set host. \<not> is_host_stop b" and src: "src = [] \<or> is_path_start (src ! 0)"
  shows "parse_host_port_path (host @ src) dp tls
    = finish_parse host dp (if src = [] then ascii ''/'' else src) tls"
proof (cases src)
  case Nil
  have "position (\<lambda>b. is_path_start b \<or> b = 0x3A) host = None"
    using host by (simp add: position_None is_host_stop_def)
  with Nil show ?thesis by (simp add: parse_host_port_path_def)
next
  case (Cons c cs)
  with src have c: "is_path_start c" "c \<noteq> 0x3A" by (auto simp: is_path_start_def)
  have "position (\<lambda>b. is_path_start b \<or> b = 0x3A) (host @ c # cs) = Some (length host)"
    by (rule position_append) (use host c in \<open>auto simp: is_host_stop_def\<close>)
  with Cons c show ?thesis by (simp add: parse_host_port_path_def)
qed

lemma port_end_dec_of:
  assumes "src = [] \<or> is_path_start (src ! 0)"
  shows "port_end (dec_of k @ src) = length (dec_of k)"
proof -
  have digits: "\<forall>c\<in>set (dec_of k). \<not> is_path_start c"
    using dec_of_digits [of k] by (auto simp: is_path_start_def is_ascii_digit_def)
  show ?thesis
  proof (cases src)
    case Nil
    with digits have "position is_path_start (dec_of k @ src) = None" by (simp add: position_None)
    with Nil show ?thesis by (simp add: port_end_def)
  next
    case (Cons c cs)
    with assms have "position is_path_start (dec_of k @ c # cs) = Some (length (dec_of k))"
      by (intro position_append [OF digits]) simp
    with Cons show ?thesis by (simp add: port_end_def)
  qed
qed

lemma parse_port_dec_of:
  "parse_port_loop 0 (dec_of (unat prt)) = Some (of_nat (unat prt))"
  "(ucast (of_nat (unat prt) :: u32) :: u16) = prt" for prt :: u16
proof -
  have "unat prt < 2 ^ LENGTH(16)" by (rule unsigned_less)
  then have small: "unat prt \<le> 65535" by simp
  then show "parse_port_loop 0 (dec_of (unat prt)) = Some (of_nat (unat prt))"
    by (simp add: parse_port_loop_eq dec_of_digits)
  show "(ucast (of_nat (unat prt) :: u32) :: u16) = prt"
    by (rule bit_word_eqI) (auto simp: bit_simps)
qed

lemma parse_host_port_path_port:
  assumes host: "\<forall>b\<in>set host. \<not> is_host_stop b" and src: "src = [] \<or> is_path_start (src ! 0)"
  shows "parse_host_port_path (host @ 0x3A # dec_of (unat prt) @ src) dp tls
    = finish_parse host prt (if src = [] then ascii ''/'' else src) tls"
proof -
  have "position (\<lambda>b. is_path_start b \<or> b = 0x3A) (host @ 0x3A # dec_of (unat prt) @ src) = Some (length host)"
    by (rule position_append) (use host in \<open>auto simp: is_host_stop_def\<close>)
  then have "parse_host_port_path (host @ 0x3A # dec_of (unat prt) @ src) dp tls
      = parse_port_part host (dec_of (unat prt) @ src) tls"
    by (simp add: parse_host_port_path_def)
  also have "\<dots> = (if src = [] then finish_parse host prt (ascii ''/'') tls
      else if is_path_start (src ! 0) then finish_parse host prt src tls else None)"
    using parse_port_dec_of [of prt]
    by (simp add: parse_port_part_def Let_def port_end_dec_of [OF src])
  finally show ?thesis using src by auto
qed

lemma parse_host_port_path_parts:
  assumes host: "\<forall>b\<in>set host. \<not> is_host_stop b"
    and prt: "pt = [] \<and> prt = dp \<or> pt = byte CHR '':'' # dec_of (unat prt)"
    and src: "src = [] \<or> is_path_start (src ! 0)"
  shows "parse_host_port_path (host @ pt @ src) dp tls
    = finish_parse host prt (if src = [] then ascii ''/'' else src) tls"
  using prt parse_host_port_path_no_port [OF host src, of dp tls]
    parse_host_port_path_port [OF host src, of prt dp tls] by auto

lemma scheme_dispatch:
  assumes "map to_ascii_lowercase scheme = scheme_text tls"
  shows "starts_with_https (scheme @ rest) = (if tls then Some rest else None)"
    and "\<not> tls \<Longrightarrow> starts_with_http (scheme @ rest) = Some rest"
proof -
  have len: "length scheme = length (scheme_text tls)" using assms by (metis length_map)
  have low: "map to_ascii_lowercase (scheme_text tls) = scheme_text tls"
    by (simp add: scheme_text_def bytes_simps)
  have "starts_with_https (scheme @ rest) = None" if "\<not> tls"
  proof -
    have "4 < length scheme" using len that by (simp add: scheme_text_def)
    moreover have "map to_ascii_lowercase scheme ! 4 = 0x3A"
      unfolding assms using that by (simp add: scheme_text_def bytes_simps)
    ultimately have s4: "to_ascii_lowercase (scheme ! 4) = 0x3A" "4 < length scheme" by simp_all
    then have "\<not> eq_ci ((scheme @ rest) ! 4) (ascii ''https://'' ! 4)"
      by (simp add: eq_ci_def nth_append bytes_simps)
    then show ?thesis by (auto simp: starts_with_https_def strip_ci_def)
  qed
  moreover have "strip_ci (scheme_text tls) (scheme @ rest) = Some rest"
    using assms len low by (intro strip_ci_append) simp_all
  ultimately show "starts_with_https (scheme @ rest) = (if tls then Some rest else None)"
    and "\<not> tls \<Longrightarrow> starts_with_http (scheme @ rest) = Some rest"
    by (auto simp: starts_with_https_def starts_with_http_def scheme_text_def)
qed

text \<open>
  C27. The parser recovers the parts of every URL put together from them: a scheme in any letter
  case, a host without delimiters, an optional decimal port, a path, query or fragment, and any
  number of spaces around it. Within the buffer bounds (\<open>parts_fit\<close>) the URL is accepted, and the
  result carries exactly these parts, the path normalised to start with a slash.
\<close>

theorem parse_fetch_url_complete:
  assumes scheme: "map to_ascii_lowercase scheme = scheme_text tls"
    and host: "\<forall>b\<in>set host. \<not> is_host_stop b"
    and prt: "pt = [] \<and> prt = default_port tls \<or> pt = byte CHR '':'' # dec_of (unat prt)"
    and src: "src = [] \<or> is_path_start (src ! 0)"
    and fit: "parts_fit host prt src tls"
    and end_ok: "last (host @ pt @ src) \<noteq> 0x20"
  shows "\<exists>u. parse_fetch_url (replicate m 0x20 @ (scheme @ host @ pt @ src) @ replicate n 0x20) = Some u
    \<and> https u = tls \<and> port u = prt \<and> url_host u = host
    \<and> url_header u = header_text host prt tls \<and> url_path u = path_text src"
proof -
  let ?rest = "host @ pt @ src" and ?src = "if src = [] then ascii ''/'' else src"
  have ne: "?rest \<noteq> []" using fit by (simp add: parts_fit_def)
  have hd: "hd (map to_ascii_lowercase scheme) = 0x68" "scheme \<noteq> []"
    using scheme by (auto simp: scheme_text_def bytes_simps split: if_splits)
  then have "hd scheme \<noteq> 0x20" by (auto simp: hd_map bytes_simps)
  then have trimmed: "trim (replicate m 0x20 @ (scheme @ ?rest) @ replicate n 0x20) = scheme @ ?rest"
    using hd(2) ne end_ok by (intro trim_padded) simp_all
  have ps: "path_text ?src = path_text src"
    by (simp add: path_text_def is_path_start_def ascii_def)
  with fit have fit': "parts_fit host prt ?src tls" by (simp add: parts_fit_def)
  have "parse_fetch_url (replicate m 0x20 @ (scheme @ ?rest) @ replicate n 0x20)
      = parse_host_port_path ?rest (default_port tls) tls"
    unfolding parse_fetch_url_def trimmed Let_def
    using scheme_dispatch [OF scheme, of ?rest] by (cases tls) (simp_all add: default_port_def)
  also have "\<dots> = finish_parse host prt ?src tls"
    by (rule parse_host_port_path_parts [OF host _ src]) (use prt in auto)
  finally obtain u where u: "finish_parse host prt ?src tls = Some u"
    and parse: "parse_fetch_url (replicate m 0x20 @ (scheme @ ?rest) @ replicate n 0x20) = Some u"
    using fit' by (simp add: finish_parse_eq)
  from finish_parse_parts [OF u] ps parse show ?thesis by (auto simp: url_wf_def)
qed

theorem parse_fetch_url_complete_witness:
  "\<exists>u. parse_fetch_url (replicate 2 0x20 @ (ascii ''HtTp://'' @ ascii ''a.b'' @ (byte CHR '':'' # dec_of (unat (81::u16)))
      @ ascii ''?q'') @ replicate 1 0x20) = Some u
    \<and> https u = False \<and> port u = 81 \<and> url_host u = ascii ''a.b''
    \<and> url_header u = header_text (ascii ''a.b'') 81 False \<and> url_path u = path_text (ascii ''?q'')"
  by (rule parse_fetch_url_complete) code_simp+

text \<open>
  \<open>parse_ipv4_host\<close> accepts exactly the texts that split at their dots into four runs of one to
  three decimal digits with a value of at most 255, and returns these values.
\<close>

theorem parse_ipv4_host_iff:
  "parse_ipv4_host host = Some (IPv4 a b c d) \<longleftrightarrow>
    (\<exists>p q r s. split_on (\<lambda>x. x = byte CHR ''.'') host = [p, q, r, s]
      \<and> list_all2 (\<lambda>piece v. piece \<noteq> [] \<and> length piece \<le> 3 \<and> list_all is_ascii_digit piece
           \<and> dec_value 0 piece = unat v) [p, q, r, s] [a, b, c, d])"
proof -
  have piece: "parse_u8 p = Some v \<longleftrightarrow> p \<noteq> [] \<and> length p \<le> 3 \<and> list_all is_ascii_digit p
      \<and> dec_value 0 p = unat v" for p v
    by (auto simp: parse_u8_eq list_all_iff unsigned_of_nat take_bit_nat_eq_self)
  show ?thesis
    by (auto simp: parse_ipv4_host_pieces ipv4_of_pieces_def map_eq_Cons_conv piece [symmetric]
        split: list.splits option.splits)
qed

end
