(* ===== verification/Eve_Clock.thy ===== *)
theory Eve_Clock
  imports Eve_Prelude
begin

text \<open>
  Guest time and randomness: the main-loop tick of \<open>kernel/src/hal/timer.rs\<close> and, from
  \<open>kernel/src/eve_tls.rs\<close>, the wall clock that certificate checks use and the xorshift generator of the
  key material. The statics are the record \<open>clock\<close>; the build epoch, a string the build script emits,
  is an argument. The lemmas count exactly what the wall clock accumulates over consecutive ticks, the
  wrap-around of the tick included, and show that the generator never reaches its zero state.
\<close>

section \<open>Ticks\<close>

abbreviation (input) "MAIN_LOOP_TICK_HZ \<equiv> 100 :: u64"

record clock =
  main_loop_tick :: u32
  tls_prev_tick :: u32
  tls_accum_ticks :: u64

definition clock_init :: clock where
  "clock_init = \<lparr> main_loop_tick = 0, tls_prev_tick = - 1, tls_accum_ticks = 0 \<rparr>"

definition note_main_loop_tick :: "u32 \<Rightarrow> clock \<Rightarrow> clock" where
  "note_main_loop_tick tick c = c\<lparr> main_loop_tick := tick \<rparr>"

definition elapsed_ticks_since :: "clock \<Rightarrow> u32 \<Rightarrow> u32" where
  "elapsed_ticks_since c prev = main_loop_tick c - prev"

definition elapsed_ms_since :: "clock \<Rightarrow> u32 \<Rightarrow> u32" where
  "elapsed_ms_since c prev =
     (let hz = max (ucast (ucast MAIN_LOOP_TICK_HZ :: u32)) 1 :: u64; ticks = ucast (elapsed_ticks_since c prev) :: u64
      in ucast (min ((ticks * 1000) div hz) 0xFFFFFFFF))"

definition wall_clock_note_net_tick :: "u32 \<Rightarrow> clock \<Rightarrow> clock" where
  "wall_clock_note_net_tick tick c =
     (if tls_prev_tick c = - 1 then c\<lparr> tls_prev_tick := tick \<rparr>
      else c\<lparr> tls_accum_ticks := tls_accum_ticks c + ucast (tick - tls_prev_tick c), tls_prev_tick := tick \<rparr>)"

fun parse_u64_loop :: "u64 \<Rightarrow> bytes \<Rightarrow> u64 option" where
  "parse_u64_loop out [] = Some out"
| "parse_u64_loop out (b # bs) =
     (if \<not> is_ascii_digit b then None else parse_u64_loop (sat_add (sat_mul out 10) (ucast (b - 0x30))) bs)"

definition parse_u64_ascii :: "bytes \<Rightarrow> u64 option" where
  "parse_u64_ascii s = parse_u64_loop 0 s"

definition tls_clock_now :: "bytes \<Rightarrow> clock \<Rightarrow> u64 option" where
  "tls_clock_now build_epoch c = do {
     epoch \<leftarrow> parse_u64_ascii build_epoch;
     Some (sat_add epoch (tls_accum_ticks c div MAIN_LOOP_TICK_HZ)) }"

section \<open>Random bytes\<close>

definition eve_rng_new :: "u64 \<Rightarrow> u64" where
  "eve_rng_new seed = max seed 1"

definition eve_rng_step :: "u64 \<Rightarrow> u64" where
  "eve_rng_step s =
     (let x = s; x = x XOR drop_bit 12 x; x = x XOR push_bit 25 x; x = x XOR drop_bit 27 x in x)"

fun fill_bytes :: "nat \<Rightarrow> u64 \<Rightarrow> bytes \<times> u64" where
  "fill_bytes 0 s = ([], s)"
| "fill_bytes (Suc n) s =
     (let s = eve_rng_step s; b = ucast (drop_bit 56 (s * 0x2545F4914F6CDD1D)); (bs, s) = fill_bytes n s
      in (b # bs, s))"

section \<open>The wall clock counts ticks\<close>

text \<open>The network loop reports consecutive ticks, modulo the width of the counter.\<close>

fun note_ticks :: "nat \<Rightarrow> u32 \<Rightarrow> clock \<Rightarrow> clock" where
  "note_ticks 0 t c = c"
| "note_ticks (Suc n) t c = note_ticks n (t + 1) (wall_clock_note_net_tick t (note_main_loop_tick t c))"

text \<open>How many of the ticks \<open>t + 1, ..., t + n\<close> follow a tick that is not the sentinel.\<close>

fun counted :: "u32 \<Rightarrow> nat \<Rightarrow> nat" where
  "counted t 0 = 0"
| "counted t (Suc n) = (if t = - 1 then 0 else 1) + counted (t + 1) n"

lemma note_ticks_from:
  "tls_prev_tick c = t \<Longrightarrow> tls_accum_ticks (note_ticks n (t + 1) c) = tls_accum_ticks c + of_nat (counted t n)
    \<and> (n \<noteq> 0 \<longrightarrow> main_loop_tick (note_ticks n (t + 1) c) = t + of_nat n)"
proof (induction n arbitrary: t c)
  case 0
  then show ?case by simp
next
  case (Suc n)
  let ?c = "wall_clock_note_net_tick (t + 1) (note_main_loop_tick (t + 1) c)"
  have "tls_prev_tick ?c = t + 1" by (simp add: wall_clock_note_net_tick_def note_main_loop_tick_def)
  note ih = Suc.IH [OF this]
  have "tls_accum_ticks ?c = tls_accum_ticks c + (if t = - 1 then 0 else 1)"
    using Suc.prems by (simp add: wall_clock_note_net_tick_def note_main_loop_tick_def)
  then show ?case
    using ih by (cases n) (auto simp: note_main_loop_tick_def wall_clock_note_net_tick_def ac_simps)
qed

text \<open>
  The wall clock of certificate checks counts main-loop ticks: after boot and \<open>n + 1\<close> consecutive ticks
  from \<open>t\<close> the accumulator holds the \<open>n\<close> ticks after the first, minus one for each tick that
  follows tick \<open>0xFFFFFFFF\<close>, whose stored value is the sentinel for "no tick yet".
\<close>

theorem wall_clock_counts:
  "tls_accum_ticks (note_ticks (Suc n) t clock_init) = of_nat (counted t n)
    \<and> main_loop_tick (note_ticks (Suc n) t clock_init) = t + of_nat n"
proof -
  let ?c = "wall_clock_note_net_tick t (note_main_loop_tick t clock_init)"
  have "tls_prev_tick ?c = t" "tls_accum_ticks ?c = 0" "main_loop_tick ?c = t"
    by (simp_all add: wall_clock_note_net_tick_def note_main_loop_tick_def clock_init_def)
  then show ?thesis using note_ticks_from [of ?c t n] by (cases n) simp_all
qed

lemma xor_eq_0: "x XOR y = 0 \<longleftrightarrow> x = y" for x y :: u64
  by (auto simp: bit_eq_iff bit_xor_iff)

lemma xor_drop_zero: "x XOR drop_bit k x = 0 \<Longrightarrow> 0 < k \<Longrightarrow> x = 0" for x :: u64
proof (rule ccontr)
  assume "x XOR drop_bit k x = 0" and k: "0 < k" and "x \<noteq> 0"
  then have eq: "unat x = unat (drop_bit k x)" and pos: "0 < unat x" by (simp_all add: xor_eq_0 unat_gt_0)
  have "unat (drop_bit k x) = unat x div 2 ^ k" by (simp only: unat_drop_bit_eq) (rule drop_bit_eq_div)
  moreover have "(1::nat) < 2 ^ k" using k by (intro one_less_power) simp_all
  then have "unat x div 2 ^ k < unat x" using pos by (rule div_less_dividend)
  ultimately show False using eq by simp
qed

lemma xor_push_zero: "x XOR push_bit k x = 0 \<Longrightarrow> 0 < k \<Longrightarrow> x = 0" for x :: u64
proof -
  assume "x XOR push_bit k x = 0" and k: "0 < k"
  then have eq: "x = push_bit k x" by (simp add: xor_eq_0)
  have "\<not> bit x n" for n
  proof (induction n rule: less_induct)
    case (less n)
    have "bit x n = bit (push_bit k x) n" by (subst eq) (rule refl)
    then show ?case using less [of "n - k"] k by (cases "k \<le> n") (auto simp: bit_push_bit_iff)
  qed
  then show ?thesis by (simp add: bit_eq_iff)
qed

lemma eve_rng_step_nonzero: "s \<noteq> 0 \<Longrightarrow> eve_rng_step s \<noteq> 0"
proof -
  assume s: "s \<noteq> 0"
  let ?a = "s XOR drop_bit 12 s"
  let ?b = "?a XOR push_bit 25 ?a"
  have a: "?a \<noteq> 0" using s xor_drop_zero [of s 12] by auto
  have b: "?b \<noteq> 0" using a xor_push_zero [of ?a 25] by auto
  have "?b XOR drop_bit 27 ?b \<noteq> 0" using b xor_drop_zero [of ?b 27] by auto
  then show ?thesis by (simp add: eve_rng_step_def Let_def)
qed

lemma fill_bytes_state: "s \<noteq> 0 \<Longrightarrow> length (fst (fill_bytes n s)) = n \<and> snd (fill_bytes n s) \<noteq> 0"
proof (induction n arbitrary: s)
  case (Suc n)
  from Suc.IH [OF eve_rng_step_nonzero [OF Suc.prems]] show ?case by (simp add: Let_def split_beta)
qed simp

text \<open>
  The generator of the TLS key material is never stuck: from every seed, zero included, every
  request gives as many bytes as asked and leaves a state other than zero, the only fixed point of
  the shifts.
\<close>

theorem eve_rng_live:
  "length (fst (fill_bytes n (eve_rng_new seed))) = n \<and> snd (fill_bytes n (eve_rng_new seed)) \<noteq> 0 \<and> eve_rng_step 0 = 0"
proof -
  have "eve_rng_new seed \<noteq> 0" by (auto simp: eve_rng_new_def max_def)
  then show ?thesis using fill_bytes_state by (simp add: eve_rng_step_def)
qed

end
