(* ===== verification/Eve_Net.thy ===== *)
theory Eve_Net
  imports Eve_Http Eve_Url Eve_Settings Eve_Log Eve_Clock
begin

text \<open>
  The state of the network stack and the operations on it that do not touch the network card,
  \<open>impl NetStack\<close> of \<open>kernel/src/net.rs\<close>: starting and clearing a fetch, errors, the page, the chunk
  decoder, the response reader, content decoding, the queues between TCP and TLS, DHCP and ARP
  replies. A fixed array with its fill count, of which only the filled part is ever read, is the
  list of its filled part: \<open>page[..page_len]\<close> is \<open>ns_page\<close>, and so for \<open>fetch_err\<close>, \<open>stream\<close>,
  \<open>chunk_line\<close>, \<open>dns_name\<close>, \<open>host_header\<close>, \<open>path\<close>, \<open>tls_server_name\<close>, \<open>tls_cipher_in\<close> and \<open>tls_tx_buf\<close>; the
  capacities stay as constants. The global log and clock the methods write are the fields
  \<open>ns_log\<close> and \<open>ns_clock\<close>. The inflate and brotli decoders are libraries: they are the argument \<open>dec\<close>.
\<close>

section \<open>State\<close>

abbreviation (input) "TLS_CIPHER_RX_CAP \<equiv> 49152 :: nat"
abbreviation (input) "TLS_TX_CAP \<equiv> 24576 :: nat"
abbreviation (input) "DNS_LOCAL_PORT \<equiv> 53000 :: u16"
abbreviation (input) "PAGE_CAP \<equiv> 65536 :: nat"
abbreviation (input) "GUNZIP_BUF_CAP \<equiv> 65536 :: nat"
abbreviation (input) "STREAM_CAP \<equiv> 4096 :: nat"
abbreviation (input) "CHUNK_LINE_CAP \<equiv> 24 :: nat"

datatype dhcp_phase = DhcpIdle | WaitOffer | WaitAck | Bound

datatype chunk_decode_phase = SizeLine | Data usize | AfterData u8 | Trailers

datatype net_phase = NetOff | Arp | Dns | Tcp | Http | NetDone

definition SLIRP :: net_ipv4_addrs where
  "SLIRP = \<lparr> addr_our = IPv4 10 0 2 15, addr_gw = IPv4 10 0 2 2, addr_dns = IPv4 10 0 2 3 \<rparr>"

definition ZERO_ADDRS :: net_ipv4_addrs where
  "ZERO_ADDRS = \<lparr> addr_our = IPv4 0 0 0 0, addr_gw = IPv4 0 0 0 0, addr_dns = IPv4 0 0 0 0 \<rparr>"

definition is_our_zero :: "net_ipv4_addrs \<Rightarrow> bool" where
  "is_our_zero a \<longleftrightarrow> addr_our a = IPv4 0 0 0 0"

text \<open>The fields of \<open>NetStack\<close> in its order, in four layers: addresses, connection, TLS, response.\<close>

record net_ip =
  ns_addrs :: net_ipv4_addrs
  ns_ip_settings_tag :: u32
  ns_dhcp_phase :: dhcp_phase
  ns_dhcp_xid :: u32
  ns_dhcp_server_id :: ipv4
  ns_dhcp_offer_yi :: ipv4
  ns_dhcp_phase_start_tick :: u32
  ns_dhcp_last_tx_tick :: u32
  ns_gw_mac :: mac
  ns_gw_known :: bool
  ns_tick :: u32
  ns_ip_id :: u16
  ns_log :: log_state
  ns_clock :: clock

record net_conn = net_ip +
  ns_tcp_seq :: u32
  ns_tcp_ack :: u32
  ns_syn_sent :: bool
  ns_get_sent :: bool
  ns_syn_retries :: u8
  ns_fetch_progress_tick :: u32
  ns_phase :: net_phase
  ns_http_bytes :: u32
  ns_page :: bytes
  ns_page_gen :: u32
  ns_fetch_err :: bytes
  ns_fetch_armed :: bool
  ns_fetch_done :: bool
  ns_needs_dns :: bool
  ns_dns_done :: bool
  ns_dns_tx_id :: u16
  ns_dns_name :: bytes
  ns_dns_xmit_phase :: u32
  ns_remote_ip :: ipv4
  ns_remote_port :: u16
  ns_host_header :: bytes
  ns_path :: bytes

record net_tls = net_conn +
  ns_https_mode :: bool
  ns_tls_handshake_done :: bool
  ns_https_handshake_queued :: bool
  ns_tls_live :: bool
  ns_tls_tcp_eof :: bool
  ns_tls_tx_flush_pending :: bool
  ns_tls_cipher_in :: bytes
  ns_tls_cipher_off :: usize
  ns_tls_tx_buf :: bytes
  ns_tls_poll :: "mac option"
  ns_tls_server_name :: bytes

record net_stack = net_tls +
  ns_stream :: bytes
  ns_header_found :: bool
  ns_http_body_remaining :: "usize option"
  ns_http_chunked :: bool
  ns_chunk_phase :: chunk_decode_phase
  ns_chunk_line :: bytes
  ns_tcp_connect_start_tick :: u32
  ns_page_truncated :: bool
  ns_body_layers :: "body_layer list"
  ns_body_layer_count :: u8

definition static_initial :: net_stack where
  "static_initial = \<lparr>
     ns_addrs = SLIRP, ns_ip_settings_tag = - 1, ns_dhcp_phase = DhcpIdle, ns_dhcp_xid = 0,
     ns_dhcp_server_id = IPv4 0 0 0 0, ns_dhcp_offer_yi = IPv4 0 0 0 0, ns_dhcp_phase_start_tick = 0,
     ns_dhcp_last_tx_tick = 0, ns_gw_mac = MAC 0 0 0 0 0 0, ns_gw_known = False, ns_tick = 0, ns_ip_id = 0x4000,
     ns_log = log_init, ns_clock = clock_init,
     ns_tcp_seq = 0, ns_tcp_ack = 0, ns_syn_sent = False, ns_get_sent = False, ns_syn_retries = 0,
     ns_fetch_progress_tick = 0, ns_phase = NetOff, ns_http_bytes = 0, ns_page = [], ns_page_gen = 0,
     ns_fetch_err = [], ns_fetch_armed = False, ns_fetch_done = False, ns_needs_dns = False, ns_dns_done = False,
     ns_dns_tx_id = 0, ns_dns_name = [], ns_dns_xmit_phase = 0, ns_remote_ip = IPv4 0 0 0 0, ns_remote_port = 80,
     ns_host_header = [], ns_path = [],
     ns_https_mode = False, ns_tls_handshake_done = False, ns_https_handshake_queued = False, ns_tls_live = False,
     ns_tls_tcp_eof = False, ns_tls_tx_flush_pending = False, ns_tls_cipher_in = [], ns_tls_cipher_off = 0,
     ns_tls_tx_buf = [], ns_tls_poll = None, ns_tls_server_name = [],
     ns_stream = [], ns_header_found = False, ns_http_body_remaining = None, ns_http_chunked = False,
     ns_chunk_phase = SizeLine, ns_chunk_line = [], ns_tcp_connect_start_tick = 0, ns_page_truncated = False,
     ns_body_layers = replicate 4 Identity, ns_body_layer_count = 0 \<rparr>"

definition seed_from_mac :: "mac \<Rightarrow> net_stack \<Rightarrow> net_stack" where
  "seed_from_mac m s = s\<lparr> ns_tcp_seq := fold (\<lambda>b h. h * 0x01000193 + ucast b) (mac_bytes m) 0x12345678 \<rparr>"

section \<open>Starting and ending a fetch\<close>

definition clear_tls_poll :: "net_stack \<Rightarrow> net_stack" where
  "clear_tls_poll s = s\<lparr> ns_tls_poll := None \<rparr>"

definition clear_fetch_inner :: "net_stack \<Rightarrow> net_stack" where
  "clear_fetch_inner s = clear_tls_poll (s\<lparr>
     ns_tls_live := False, ns_tls_handshake_done := False, ns_https_handshake_queued := False, ns_https_mode := False,
     ns_tls_cipher_off := 0, ns_tls_cipher_in := [], ns_tls_tx_buf := [], ns_tls_tcp_eof := False,
     ns_tls_tx_flush_pending := False, ns_tls_server_name := [],
     ns_fetch_armed := False, ns_fetch_done := False, ns_syn_sent := False, ns_get_sent := False,
     ns_syn_retries := 0, ns_fetch_progress_tick := ns_tick s, ns_http_bytes := 0, ns_stream := [],
     ns_header_found := False, ns_http_body_remaining := None, ns_http_chunked := False,
     ns_chunk_phase := SizeLine, ns_chunk_line := [], ns_tcp_connect_start_tick := 0, ns_page := [],
     ns_fetch_err := [], ns_needs_dns := False, ns_dns_done := False, ns_dns_xmit_phase := 0,
     ns_page_truncated := False, ns_body_layers := replicate 4 Identity, ns_body_layer_count := 0 \<rparr>)"

definition reset_demo :: "net_stack \<Rightarrow> net_stack" where
  "reset_demo s = (clear_fetch_inner s)\<lparr> ns_phase := NetOff \<rparr>"

definition reset_tcp_for_new_fetch :: "net_stack \<Rightarrow> net_stack" where
  "reset_tcp_for_new_fetch s = s\<lparr>
     ns_syn_sent := False, ns_get_sent := False, ns_syn_retries := 0, ns_tcp_connect_start_tick := ns_tick s,
     ns_http_bytes := 0, ns_stream := [], ns_header_found := False, ns_http_body_remaining := None,
     ns_http_chunked := False, ns_chunk_phase := SizeLine, ns_chunk_line := [], ns_page := [],
     ns_fetch_done := False, ns_fetch_err := [], ns_page_truncated := False,
     ns_body_layers := replicate 4 Identity, ns_body_layer_count := 0 \<rparr>"

definition set_err :: "bytes \<Rightarrow> net_stack \<Rightarrow> net_stack" where
  "set_err msg s = s\<lparr> ns_log := log_err_msg msg (ns_log s), ns_fetch_err := take (min (length msg) 80) msg,
     ns_fetch_armed := False, ns_fetch_done := True, ns_page_gen := ns_page_gen s + 1 \<rparr>"

definition start_fetch :: "bytes \<Rightarrow> net_stack \<Rightarrow> net_stack" where
  "start_fetch url s =
     (let s = clear_fetch_inner s
      in case parse_fetch_url url of
           None \<Rightarrow> set_err (ascii ''BAD URL'') s
         | Some p \<Rightarrow>
           let host = take (host_for_dns_len p) (host_for_dns p);
               s = s\<lparr> ns_log := log_fetch_host host (https p) (ns_log s), ns_https_mode := https p,
                 ns_tls_server_name := host, ns_remote_port := port p,
                 ns_host_header := take (host_header_len p) (host_header p), ns_path := take (path_len p) (path p) \<rparr>;
               s = (if needs_dns p
                    then let t = ucast (ns_tick s) XOR 0xACE1
                         in s\<lparr> ns_needs_dns := True, ns_dns_done := False, ns_dns_name := host,
                              ns_dns_tx_id := (if t = 0 then 0xB00F else t) \<rparr>
                    else s\<lparr> ns_needs_dns := False, ns_dns_done := True, ns_remote_ip := ip p \<rparr>);
               s = reset_tcp_for_new_fetch s
           in s\<lparr> ns_fetch_armed := True, ns_page_gen := ns_page_gen s + 1 \<rparr>)"

section \<open>Address configuration\<close>

definition sync_ip_from_settings :: "device_settings \<Rightarrow> u32 \<Rightarrow> net_stack \<Rightarrow> net_stack" where
  "sync_ip_from_settings cfg tag s =
     (if tag = ns_ip_settings_tag s then s
      else let s = s\<lparr> ns_ip_settings_tag := tag, ns_gw_known := False, ns_dhcp_phase_start_tick := 0,
                  ns_dhcp_last_tx_tick := 0 \<rparr>;
               s = (case ip_config cfg of
                 Slirp \<Rightarrow> s\<lparr> ns_log := log_line (ascii ''net ipcfg slirp'') (ns_log s), ns_addrs := SLIRP,
                     ns_dhcp_phase := DhcpIdle \<rparr>
               | Static \<Rightarrow> s\<lparr> ns_log := log_line (ascii ''net ipcfg static'') (ns_log s),
                     ns_addrs := \<lparr> addr_our = static_ip cfg, addr_gw = static_gw cfg, addr_dns = static_dns cfg \<rparr>,
                     ns_dhcp_phase := DhcpIdle \<rparr>
               | Dhcp \<Rightarrow> let xid = (ns_tick s * 0x9E3779B1) XOR ns_tcp_seq s
                     in s\<lparr> ns_log := log_line (ascii ''net ipcfg dhcp'') (ns_log s), ns_addrs := ZERO_ADDRS,
                          ns_dhcp_phase := WaitOffer, ns_dhcp_xid := (if xid = 0 then 0x01020304 else xid),
                          ns_dhcp_server_id := IPv4 0 0 0 0, ns_dhcp_offer_yi := IPv4 0 0 0 0, ns_fetch_err := [],
                          ns_dhcp_phase_start_tick := 0, ns_dhcp_last_tx_tick := 0 \<rparr>)
           in reset_demo s)"

definition dhcp_active :: "net_stack \<Rightarrow> bool" where
  "dhcp_active s \<longleftrightarrow> ns_dhcp_phase s = WaitOffer \<or> ns_dhcp_phase s = WaitAck"

text \<open>
  The options of a DHCP reply: the loop over \<open>bootp\<close> from offset \<open>i\<close>. \<open>dhcp_sid\<close> and the like are \<open>None\<close>
  until the option was seen; an out-of-range index is the outer \<open>None\<close>.
\<close>

record dhcp_opts =
  dhcp_msg :: u8
  dhcp_sid :: "ipv4 option"
  dhcp_router :: "ipv4 option"
  dhcp_dns :: "ipv4 option"

definition no_opts :: dhcp_opts where
  "no_opts = \<lparr> dhcp_msg = 0, dhcp_sid = None, dhcp_router = None, dhcp_dns = None \<rparr>"

definition read_addr :: "bytes \<Rightarrow> usize \<Rightarrow> ipv4 option" where
  "read_addr buf i = do {
     a \<leftarrow> index buf i; b \<leftarrow> index buf (i + 1); c \<leftarrow> index buf (i + 2); d \<leftarrow> index buf (i + 3); Some (IPv4 a b c d) }"

definition dhcp_option :: "bytes \<Rightarrow> u8 \<Rightarrow> usize \<Rightarrow> usize \<Rightarrow> dhcp_opts \<Rightarrow> dhcp_opts option" where
  "dhcp_option bootp tag ln v0 os =
     (if tag = 53 \<and> 1 \<le> ln then do { b \<leftarrow> index bootp v0; Some (os\<lparr> dhcp_msg := b \<rparr>) }
      else if tag = 54 \<and> 4 \<le> ln then do { a \<leftarrow> read_addr bootp v0; Some (os\<lparr> dhcp_sid := Some a \<rparr>) }
      else if tag = 3 \<and> 4 \<le> ln then do { a \<leftarrow> read_addr bootp v0; Some (os\<lparr> dhcp_router := Some a \<rparr>) }
      else if tag = 6 \<and> 4 \<le> ln then do { a \<leftarrow> read_addr bootp v0; Some (os\<lparr> dhcp_dns := Some a \<rparr>) }
      else Some os)"

function dhcp_options :: "bytes \<Rightarrow> usize \<Rightarrow> dhcp_opts \<Rightarrow> dhcp_opts option" where
  "dhcp_options bootp i os =
     (if length bootp \<le> i then Some os
      else let tag = bootp ! i
           in if tag = 255 then Some os
              else if tag = 0 then dhcp_options bootp (i + 1) os
              else if length bootp \<le> i + 1 then Some os
              else let ln = unat (bootp ! (i + 1)); v0 = i + 2
                   in if length bootp < saturating_add v0 ln then Some os
                      else case dhcp_option bootp tag ln v0 os of
                          None \<Rightarrow> None
                        | Some os \<Rightarrow> dhcp_options bootp (v0 + ln) os)"
  by pat_completeness auto
termination
  by (relation "measure (\<lambda>(bootp, i, os). length bootp - i)") auto

declare dhcp_options.simps [simp del]

section \<open>Queues between TCP and TLS\<close>

definition tls_cipher_compact :: "net_stack \<Rightarrow> net_stack" where
  "tls_cipher_compact s =
     (if ns_tls_cipher_off s = 0 then s
      else s\<lparr> ns_tls_cipher_in := drop (ns_tls_cipher_off s) (ns_tls_cipher_in s), ns_tls_cipher_off := 0 \<rparr>)"

definition tls_cipher_append :: "bytes \<Rightarrow> net_stack \<Rightarrow> bool \<times> net_stack" where
  "tls_cipher_append data s =
     (let s = (if TLS_CIPHER_RX_CAP < length (ns_tls_cipher_in s) + length data then tls_cipher_compact s else s)
      in if TLS_CIPHER_RX_CAP < length (ns_tls_cipher_in s) + length data then (False, s)
         else (True, s\<lparr> ns_tls_cipher_in := ns_tls_cipher_in s @ data \<rparr>))"

text \<open>\<open>tls_cipher_pop\<close> into a buffer of \<open>room\<close> bytes, with the bytes copied to its front.\<close>

definition tls_cipher_pop :: "usize \<Rightarrow> net_stack \<Rightarrow> bytes \<times> net_stack" where
  "tls_cipher_pop room s =
     (let avail = length (ns_tls_cipher_in s) - ns_tls_cipher_off s
      in if avail = 0 then ([], s)
         else let n = min avail room; off = ns_tls_cipher_off s;
                  out = slice (ns_tls_cipher_in s) off (off + n);
                  s = s\<lparr> ns_tls_cipher_off := off + n \<rparr>
              in (out, if length (ns_tls_cipher_in s) \<le> ns_tls_cipher_off s
                       then s\<lparr> ns_tls_cipher_off := 0, ns_tls_cipher_in := [] \<rparr>
                       else if 24576 < ns_tls_cipher_off s then tls_cipher_compact s else s))"

definition tls_cipher_tx_append :: "bytes \<Rightarrow> net_stack \<Rightarrow> bool \<times> net_stack" where
  "tls_cipher_tx_append data s =
     (if TLS_TX_CAP < length (ns_tls_tx_buf s) + length data then (False, s)
      else (True, s\<lparr> ns_tls_tx_buf := ns_tls_tx_buf s @ data \<rparr>))"

definition tls_eof_from_tcp :: "net_stack \<Rightarrow> bool" where
  "tls_eof_from_tcp s = ns_tls_tcp_eof s"

definition tls_note_flush_pending :: "net_stack \<Rightarrow> net_stack" where
  "tls_note_flush_pending s = s\<lparr> ns_tls_tx_flush_pending := True \<rparr>"

section \<open>Decoding the body\<close>

text \<open>
  The libraries: \<open>inflate zlib data\<close> is \<open>decompress_slice_iter_to_slice\<close> into the 64 KiB scratch array,
  with the status \<open>HasMoreOutput\<close> apart from the other errors, \<open>brotli\<close> is \<open>brotli_decode_prealloc\<close>.
\<close>

datatype inflate_error = HasMoreOutput | OtherStatus

record decoders =
  inflate :: "bool \<Rightarrow> bytes \<Rightarrow> inflate_error + bytes"
  brotli :: "bytes \<Rightarrow> bytes option"

text \<open>
  A decoding step returns the state and the error message, if any. The panic value of
  \<open>gzip_deflate_payload\<close> does not occur.
\<close>

definition put_page :: "bytes \<Rightarrow> bytes \<Rightarrow> net_stack \<Rightarrow> net_stack \<times> bytes option" where
  "put_page int_err out s = (if PAGE_CAP < length out then (s, Some int_err) else (s\<lparr> ns_page := out \<rparr>, None))"

definition decompress_gzip_once :: "decoders \<Rightarrow> net_stack \<Rightarrow> net_stack \<times> bytes option" where
  "decompress_gzip_once dec s =
     (if length (ns_page s) < 18 then (s, Some (ascii ''GZIP SHORT''))
      else case the (gzip_deflate_payload (ns_page s)) of
          None \<Rightarrow> (s, Some (ascii ''GZIP HDR''))
        | Some deflate \<Rightarrow> (case inflate dec False deflate of
            Inr out \<Rightarrow> put_page (ascii ''GZIP INT'') out s
          | Inl HasMoreOutput \<Rightarrow> (s, Some (ascii ''GZIP BIG''))
          | Inl OtherStatus \<Rightarrow> (s, Some (ascii ''GZIP BAD''))))"

definition decompress_zlib_once :: "decoders \<Rightarrow> net_stack \<Rightarrow> net_stack \<times> bytes option" where
  "decompress_zlib_once dec s =
     (case inflate dec True (ns_page s) of
        Inr out \<Rightarrow> put_page (ascii ''ZLIB INT'') out s
      | Inl HasMoreOutput \<Rightarrow> (s, Some (ascii ''ZLIB BIG''))
      | Inl OtherStatus \<Rightarrow> (s, Some (ascii ''ZLIB BAD'')))"

definition decompress_brotli_once :: "decoders \<Rightarrow> net_stack \<Rightarrow> net_stack \<times> bytes option" where
  "decompress_brotli_once dec s =
     (case brotli dec (ns_page s) of
        None \<Rightarrow> (s, Some (ascii ''BR BAD''))
      | Some out \<Rightarrow> put_page (ascii ''BR INT'') out s)"

fun decode_layer :: "decoders \<Rightarrow> body_layer \<Rightarrow> net_stack \<Rightarrow> net_stack \<times> bytes option" where
  "decode_layer dec Identity s = (s, None)"
| "decode_layer dec Gzip s = decompress_gzip_once dec s"
| "decode_layer dec DeflateZlib s = decompress_zlib_once dec s"
| "decode_layer dec Brotli s = decompress_brotli_once dec s"

fun decode_layers :: "decoders \<Rightarrow> body_layer list \<Rightarrow> net_stack \<Rightarrow> net_stack \<times> bytes option" where
  "decode_layers dec [] s = (s, None)"
| "decode_layers dec (l # ls) s =
     (case decode_layer dec l s of (s, None) \<Rightarrow> decode_layers dec ls s | (s, Some e) \<Rightarrow> (s, Some e))"

definition decompress_body_layers :: "decoders \<Rightarrow> net_stack \<Rightarrow> net_stack \<times> bytes option" where
  "decompress_body_layers dec s = decode_layers dec (rev (take (unat (ns_body_layer_count s)) (ns_body_layers s))) s"

definition fetch_complete :: "net_stack \<Rightarrow> net_stack" where
  "fetch_complete s = s\<lparr> ns_fetch_done := True, ns_fetch_armed := False, ns_page_gen := ns_page_gen s + 1 \<rparr>"

definition finish_fetch :: "decoders \<Rightarrow> net_stack \<Rightarrow> net_stack" where
  "finish_fetch dec s =
     (if ns_fetch_done s then s
      else if 0 < ns_body_layer_count s then
        (case decompress_body_layers dec s of
           (s, None) \<Rightarrow> fetch_complete s
         | (s, Some msg) \<Rightarrow>
             if body_starts_like_html (ns_page s)
             then fetch_complete (s\<lparr> ns_body_layer_count := 0, ns_body_layers := replicate 4 Identity \<rparr>)
             else set_err msg s)
      else if 2 \<le> length (ns_page s) \<and> ns_page s ! 0 = 0x1F \<and> ns_page s ! 1 = 0x8B then
        (case decompress_gzip_once dec s of
           (s, None) \<Rightarrow> fetch_complete s
         | (s, Some msg) \<Rightarrow> set_err msg s)
      else fetch_complete s)"

definition finish_plain_http_on_tcp_eof :: "decoders \<Rightarrow> net_stack \<Rightarrow> net_stack" where
  "finish_plain_http_on_tcp_eof dec s =
     (if ns_http_chunked s \<and> \<not> ns_fetch_done s then set_err (ascii ''HTTP CHUNK EOF'') s else finish_fetch dec s)"

section \<open>Reading the response\<close>

definition page_push_byte :: "u8 \<Rightarrow> net_stack \<Rightarrow> net_stack" where
  "page_push_byte b s =
     (if length (ns_page s) < PAGE_CAP then s\<lparr> ns_page := ns_page s @ [b] \<rparr> else s\<lparr> ns_page_truncated := True \<rparr>)"

definition append_to_page :: "decoders \<Rightarrow> bytes \<Rightarrow> net_stack \<Rightarrow> net_stack" where
  "append_to_page dec data s =
     (let room = PAGE_CAP - length (ns_page s); n = min (length data) room;
          s = (if 0 < n then s\<lparr> ns_page := ns_page s @ take n data \<rparr> else s);
          s = (if n < length data then s\<lparr> ns_page_truncated := True \<rparr> else s)
      in case ns_http_body_remaining s of
           None \<Rightarrow> s
         | Some rem \<Rightarrow>
           let s = s\<lparr> ns_http_body_remaining := Some (rem - min rem n) \<rparr>
           in if rem - min rem n = 0 then finish_fetch dec s else s)"

definition chunk_line_push :: "u8 \<Rightarrow> net_stack \<Rightarrow> net_stack" where
  "chunk_line_push b s =
     (if b \<noteq> 0x0D \<and> length (ns_chunk_line s) < CHUNK_LINE_CAP then s\<lparr> ns_chunk_line := ns_chunk_line s @ [b] \<rparr> else s)"

lemma chunk_phase_push [simp]:
  "ns_chunk_phase (chunk_line_push b s) = ns_chunk_phase s"
  "ns_chunk_phase (fold page_push_byte bs s) = ns_chunk_phase s"
  by (simp add: chunk_line_push_def) (induction bs arbitrary: s; simp add: page_push_byte_def)

text \<open>
  The chunk decoder. The inner loops of the size line, the line end and the trailers consume one byte
  per round and leave the phase as it is or break, so that a round of them is a round of
  the outer loop; chunk data is taken in blocks.
\<close>

function ingest_chunked_bytes :: "decoders \<Rightarrow> bytes \<Rightarrow> net_stack \<Rightarrow> net_stack" where
  "ingest_chunked_bytes dec data s =
     (case data of
        [] \<Rightarrow> s
      | b # bs \<Rightarrow>
        (case ns_chunk_phase s of
           SizeLine \<Rightarrow>
             if b = 0x0A then
               (case parse_chunk_size_line (ns_chunk_line s) of
                  None \<Rightarrow> set_err (ascii ''HTTP CHUNK SZ'') s
                | Some sz \<Rightarrow> ingest_chunked_bytes dec bs
                    (s\<lparr> ns_chunk_line := [], ns_chunk_phase := (if sz = 0 then Trailers else Data sz) \<rparr>))
             else ingest_chunked_bytes dec bs (chunk_line_push b s)
         | Data remaining \<Rightarrow>
             let n = min remaining (length data); s = fold page_push_byte (take n data) s; rem = remaining - n
             in ingest_chunked_bytes dec (drop n data)
                  (s\<lparr> ns_chunk_phase := (if rem = 0 then AfterData 0 else Data rem) \<rparr>)
         | AfterData step \<Rightarrow>
             if step = 0 then
               if b = 0x0D then ingest_chunked_bytes dec bs (s\<lparr> ns_chunk_phase := AfterData 1 \<rparr>)
               else if b = 0x0A then ingest_chunked_bytes dec bs (s\<lparr> ns_chunk_phase := SizeLine \<rparr>)
               else set_err (ascii ''HTTP CHUNK CRLF'') s
             else if step = 1 then
               if b = 0x0A then ingest_chunked_bytes dec bs (s\<lparr> ns_chunk_phase := SizeLine \<rparr>)
               else set_err (ascii ''HTTP CHUNK CRLF'') s
             else s
         | Trailers \<Rightarrow>
             if b = 0x0A then
               if ns_chunk_line s = [] then finish_fetch dec s
               else ingest_chunked_bytes dec bs (s\<lparr> ns_chunk_line := [] \<rparr>)
             else ingest_chunked_bytes dec bs (chunk_line_push b s)))"
  by pat_completeness auto
termination
  by (relation "measure (\<lambda>(dec, data, s). 2 * length data + (case ns_chunk_phase s of Data _ \<Rightarrow> 1 | _ \<Rightarrow> 0))")
    (auto split: chunk_decode_phase.split)

declare ingest_chunked_bytes.simps [simp del]

function ingest_pieces :: "decoders \<Rightarrow> bytes \<Rightarrow> net_stack \<Rightarrow> net_stack" where
  "ingest_pieces dec data s =
     (if data = [] then s
      else ingest_pieces dec (drop (min (length data) 256) data)
             (ingest_chunked_bytes dec (take (min (length data) 256) data) s))"
  by pat_completeness auto
termination
  by (relation "measure (\<lambda>(dec, data, s). length data)") auto

declare ingest_pieces.simps [simp del]

definition begin_body :: "decoders \<Rightarrow> bytes \<Rightarrow> bytes \<Rightarrow> net_stack \<Rightarrow> net_stack" where
  "begin_body dec headers body s =
     (let s = s\<lparr> ns_header_found := True \<rparr>
      in if response_headers_chunked headers then
           let s = s\<lparr> ns_http_chunked := True, ns_chunk_phase := SizeLine, ns_chunk_line := [] \<rparr>;
               s = ingest_pieces dec body s
           in s\<lparr> ns_stream := [], ns_page_gen := ns_page_gen s + 1 \<rparr>
         else case parse_content_encoding_layers headers of
             Inl _ \<Rightarrow> set_err (ascii ''HTTP ENC'') s
           | Inr (layers, count) \<Rightarrow>
             let s = s\<lparr> ns_body_layers := layers, ns_body_layer_count := count \<rparr>;
                 s = s\<lparr> ns_http_body_remaining := (case parse_content_length headers of
                    Some cl \<Rightarrow> Some (cl - min (length body) cl) | None \<Rightarrow> None) \<rparr>;
                 s = fold page_push_byte body s;
                 s = (if ns_http_body_remaining s = Some 0 then finish_fetch dec s else s)
             in s\<lparr> ns_stream := [], ns_page_gen := ns_page_gen s + 1 \<rparr>)"

definition ingest_tcp_payload :: "decoders \<Rightarrow> bytes \<Rightarrow> net_stack \<Rightarrow> net_stack" where
  "ingest_tcp_payload dec data s =
     (if \<not> ns_header_found s then
        let room = STREAM_CAP - length (ns_stream s); n = min (length data) room;
            s = s\<lparr> ns_stream := ns_stream s @ take n data \<rparr>
        in case find_http_header_end (ns_stream s) of
             None \<Rightarrow> if STREAM_CAP \<le> length (ns_stream s) then set_err (ascii ''HTTP HDR TOO BIG'') s else s
           | Some (pos, sep_len) \<Rightarrow>
             begin_body dec (take (pos + sep_len) (ns_stream s)) (drop (pos + sep_len) (ns_stream s)) s
      else if ns_http_chunked s then ingest_chunked_bytes dec data s
      else append_to_page dec data s)"

section \<open>ARP replies\<close>

definition handle_arp :: "bytes \<Rightarrow> net_stack \<Rightarrow> net_stack option" where
  "handle_arp frame s =
     (if length frame < 14 + 28 then Some s
      else do {
        o0 \<leftarrow> index frame 20; o1 \<leftarrow> index frame 21;
        if of_be16 o0 o1 \<noteq> 2 then Some s
        else do {
          tpa \<leftarrow> read_addr frame 38;
          if tpa \<noteq> addr_our (ns_addrs s) then Some s
          else do {
            spa \<leftarrow> read_addr frame 28;
            if spa \<noteq> addr_gw (ns_addrs s) then Some s
            else do {
              a \<leftarrow> index frame 22; b \<leftarrow> index frame 23; c \<leftarrow> index frame 24;
              d \<leftarrow> index frame 25; e \<leftarrow> index frame 26; f \<leftarrow> index frame 27;
              Some (s\<lparr> ns_gw_mac := MAC a b c d e f, ns_gw_known := True \<rparr>) } } } })"

section \<open>A started fetch\<close>

text \<open>The state after starting a fetch of an address.\<close>

definition url_target :: "bytes \<Rightarrow> (ipv4 \<times> u16 \<times> bool \<times> bool) option" where
  "url_target url = map_option (\<lambda>u. (ip u, port u, needs_dns u, https u)) (parse_fetch_url url)"

lemma started_fetch:
  assumes "url_target url = Some (a, p, False, h)"
  shows "ns_remote_ip (start_fetch url s) = a" "ns_remote_port (start_fetch url s) = p" "ns_https_mode (start_fetch url s) = h"
    "ns_addrs (start_fetch url s) = ns_addrs s" "ns_tcp_seq (start_fetch url s) = ns_tcp_seq s"
    "ns_gw_known (start_fetch url s) = ns_gw_known s" "ns_ip_settings_tag (start_fetch url s) = ns_ip_settings_tag s"
    "ns_dhcp_phase (start_fetch url s) = ns_dhcp_phase s"
    "ns_fetch_armed (start_fetch url s)" "\<not> ns_fetch_done (start_fetch url s)" "ns_dns_done (start_fetch url s)"
    "\<not> ns_get_sent (start_fetch url s)" "\<not> ns_header_found (start_fetch url s)" "ns_stream (start_fetch url s) = []"
    "ns_page (start_fetch url s) = []" "\<not> ns_http_chunked (start_fetch url s)" "ns_body_layer_count (start_fetch url s) = 0"
    "\<not> ns_page_truncated (start_fetch url s)" "ns_fetch_err (start_fetch url s) = []"
proof -
  obtain u where "parse_fetch_url url = Some u" "ip u = a" "port u = p" "\<not> needs_dns u" "https u = h"
    using assms by (auto simp: url_target_def)
  then have e: "start_fetch url s = (let host = take (host_for_dns_len u) (host_for_dns u); s = clear_fetch_inner s;
      s = s\<lparr> ns_log := log_fetch_host host h (ns_log s), ns_https_mode := h, ns_tls_server_name := host, ns_remote_port := p,
        ns_host_header := take (host_header_len u) (host_header u), ns_path := take (path_len u) (path u),
        ns_needs_dns := False, ns_dns_done := True, ns_remote_ip := a \<rparr>; s = reset_tcp_for_new_fetch s
      in s\<lparr> ns_fetch_armed := True, ns_page_gen := ns_page_gen s + 1 \<rparr>)"
    by (simp add: start_fetch_def Let_def)
  show "ns_remote_ip (start_fetch url s) = a" "ns_remote_port (start_fetch url s) = p" "ns_https_mode (start_fetch url s) = h"
    "ns_addrs (start_fetch url s) = ns_addrs s" "ns_tcp_seq (start_fetch url s) = ns_tcp_seq s"
    "ns_gw_known (start_fetch url s) = ns_gw_known s" "ns_ip_settings_tag (start_fetch url s) = ns_ip_settings_tag s"
    "ns_dhcp_phase (start_fetch url s) = ns_dhcp_phase s"
    "ns_fetch_armed (start_fetch url s)" "\<not> ns_fetch_done (start_fetch url s)" "ns_dns_done (start_fetch url s)"
    "\<not> ns_get_sent (start_fetch url s)" "\<not> ns_header_found (start_fetch url s)" "ns_stream (start_fetch url s) = []"
    "ns_page (start_fetch url s) = []" "\<not> ns_http_chunked (start_fetch url s)" "ns_body_layer_count (start_fetch url s) = 0"
    "\<not> ns_page_truncated (start_fetch url s)" "ns_fetch_err (start_fetch url s) = []"
    by (simp_all add: e Let_def reset_tcp_for_new_fetch_def clear_fetch_inner_def clear_tls_poll_def)
qed

lemma sample_target: "url_target (ascii ''http://10.0.2.2/'') = Some (IPv4 10 0 2 2, 80, False, False)"
  by code_simp

lemmas sample_fetch = started_fetch [OF sample_target]

end
