(* ===== verification/Eve_Ui.thy ===== *)
theory Eve_Ui
  imports Eve_Install Eve_Log Eve_Net "HOL-Library.Signed_Division"
begin

text \<open>
  The state of the user interface and the operations on it that draw nothing
  (\<open>kernel/src/gfx.rs\<close>): the record \<open>UiState\<close> and its constructor, the history of visited URLs, the
  layout of the screen, the two notices shown at boot, and the scrolling of the four panels.

  Kernels are built in release mode, where \<open>usize\<close> and \<open>i32\<close> arithmetic wraps: \<open>usize_sub\<close> and \<open>i32_of\<close>
  write the wrap-around out where an operand may be out of range. The fields of a running disk
  installation, and the flag \<open>content_dirty\<close> which the installer also sets, are the record of
  \<open>Eve_Install\<close>, so that a pass of the installer is an update of that field.

  The lemmas: the invariant of the state and that every operation keeps it; the history as a list of
  URLs with a position; the scroll offsets stay within the document.
\<close>

section \<open>Machine arithmetic\<close>

definition usize_sub :: "usize \<Rightarrow> usize \<Rightarrow> int" where
  "usize_sub a b = (int a - int b) mod (USIZE_MAX + 1)"

definition i32_of :: "int \<Rightarrow> int" where
  "i32_of x = (x + 2 ^ 31) mod 2 ^ 32 - 2 ^ 31"

definition usize_of_i32 :: "int \<Rightarrow> usize" where
  "usize_of_i32 x = nat (x mod (USIZE_MAX + 1))"

definition clamp :: "'a::linorder \<Rightarrow> 'a \<Rightarrow> 'a \<Rightarrow> 'a" where
  "clamp lo hi x = (if x < lo then lo else if hi < x then hi else x)"

lemma i32_of_small: "- (2 ^ 31) \<le> x \<Longrightarrow> x < 2 ^ 31 \<Longrightarrow> i32_of x = x"
  by (simp add: i32_of_def)

lemma clamp_bounds: "lo \<le> hi \<Longrightarrow> lo \<le> clamp lo hi x" "lo \<le> hi \<Longrightarrow> clamp lo hi x \<le> hi"
  by (auto simp: clamp_def)

lemma clamp_id: "lo \<le> x \<Longrightarrow> x \<le> hi \<Longrightarrow> clamp lo hi x = x"
  by (auto simp: clamp_def)

section \<open>State\<close>

datatype settings_text_focus =
  NoFocus | WifiSsid | WifiPsk | DisplayWidth | DisplayHeight | HomeUrl | StaticIp | StaticGw | StaticDns

datatype settings_subtab = General | Input

datatype log_subtab = Live | Serial

abbreviation (input) "MAX_CURSORS \<equiv> 12 :: nat"
abbreviation (input) "URL_HISTORY_CAP \<equiv> 16 :: nat"

record ui_state =
  url :: bytes
  url_len :: usize
  mx :: int
  my :: int
  cursor_x :: "int list"
  cursor_y :: "int list"
  cursor_active :: "bool list"
  cursor_btn :: bytes
  prev_cursor_btn :: bytes
  net_rx :: u64
  net_ok :: bool
  ui_mac :: mac
  net_ipv4 :: ipv4
  screen :: screen
  settings_subtab :: settings_subtab
  settings :: device_settings
  platform_caps :: platform_caps
  pci_wlan :: bool
  wlan_pci_count :: u8
  wlan_first_vid :: u16
  wlan_first_did :: u16
  brcm_wlan_count :: u8
  brcm_first_did :: u16
  pci_eth_count :: u8
  pci_mm_audio :: bool
  inet_phase :: net_phase
  inet_bytes :: u32
  inet_reload_request :: bool
  browser_line_count :: usize
  last_rendered_raw_len :: "usize option"
  last_inet_page_gen :: u32
  page_scroll_line :: usize
  page_truncated :: bool
  fetch_err :: bytes
  fetch_err_len :: usize
  settings_text_focus :: settings_text_focus
  wifi_scan_count :: u8
  wifi_scan_demo :: bool
  wifi_scan_names :: "bytes list"
  wifi_scan_lens :: bytes
  disk_install_available :: bool
  disk_install :: install_state
  bios_fullpage_browser :: bool
  chrome_only_dirty :: bool
  browser_body_dirty :: bool
  status_dirty :: bool
  power_reboot_request :: bool
  power_shutdown_request :: bool
  settings_save_requested :: bool
  log_scroll_line :: usize
  log_stick_to_bottom :: bool
  log_subtab :: log_subtab
  settings_scroll_px :: usize
  disk_install_scroll_px :: usize
  screen_after_epilepsy_notice :: screen
  url_history :: "bytes list"
  url_history_lens :: bytes
  history_count :: u8
  history_pos :: u8
  history_skip_push :: bool
  static_octet_sel :: u8

text \<open>
  \<open>content_dirty\<close> is the flag of the installer's record. The value \<open>usize::MAX\<close> of
  \<open>last_rendered_raw_len\<close>, which stands for no page, is \<open>None\<close>.
\<close>

definition content_dirty :: "ui_state \<Rightarrow> bool" where
  "content_dirty st = install_content_dirty (disk_install st)"

definition mark_content :: "ui_state \<Rightarrow> ui_state" where
  "mark_content st = st\<lparr> disk_install := (disk_install st)\<lparr> install_content_dirty := True \<rparr> \<rparr>"

definition on_settings :: "(device_settings \<Rightarrow> device_settings) \<Rightarrow> ui_state \<Rightarrow> ui_state" where
  "on_settings f st = st\<lparr> settings := f (settings st) \<rparr>"

text \<open>The frame buffer as far as the layout needs it.\<close>

datatype pixel_format = Rgb | Bgr | U8 | Unknown

record frame_buffer_info =
  fb_width :: usize
  fb_height :: usize
  fb_stride :: usize
  fb_pixel_format :: pixel_format
  fb_bytes_per_pixel :: usize

section \<open>Construction\<close>

text \<open>The URL the browser starts with, and goes back to on \<open>HOME\<close>.\<close>

definition home_bytes :: "usize \<Rightarrow> device_settings \<Rightarrow> bytes" where
  "home_bytes cap s =
     (let hl = unat (home_url_len s)
      in if 0 < hl \<and> hl \<le> length (home_url s) then take (min hl cap) (home_url s)
         else take (min (length DEFAULT_HOME_URL) cap) DEFAULT_HOME_URL)"

definition initial_cursor :: "int \<Rightarrow> int \<Rightarrow> int" where
  "initial_cursor extent k = clamp 0 (extent - 1) (i32_of (extent * k) sdiv 100)"

text \<open>\<open>None\<close> is the panic of \<open>clamp\<close> on an empty frame buffer.\<close>

definition new_with_settings ::
  "int \<Rightarrow> int \<Rightarrow> bool \<Rightarrow> u8 \<Rightarrow> u16 \<Rightarrow> u16 \<Rightarrow> u8 \<Rightarrow> u16 \<Rightarrow> u8 \<Rightarrow> bool \<Rightarrow> platform_caps \<Rightarrow> device_settings
    \<Rightarrow> ui_state option" where
  "new_with_settings width height wlan wlan_count wlan_vid wlan_did brcm_count brcm_did eth_count audio caps s =
     (if width < 1 \<or> height < 1 then None
      else let src = home_bytes 192 s;
               u = put_at (replicate 192 0) 0 src;
               xs = map (\<lambda>i. initial_cursor width (6 + int (i mod 4) * 22)) [0..<MAX_CURSORS];
               ys = map (\<lambda>i. initial_cursor height (18 + int (i div 4) * 20)) [0..<MAX_CURSORS]
           in Some \<lparr> url = u, url_len = length src, mx = xs ! 0, my = ys ! 0, cursor_x = xs, cursor_y = ys,
                cursor_active = (replicate MAX_CURSORS False)[0 := True],
                cursor_btn = replicate MAX_CURSORS 0, prev_cursor_btn = replicate MAX_CURSORS 0,
                net_rx = 0, net_ok = False, ui_mac = MAC 0 0 0 0 0 0, net_ipv4 = IPv4 0 0 0 0,
                screen = EpilepsyWarning, settings_subtab = General, settings = s, platform_caps = caps,
                pci_wlan = wlan, wlan_pci_count = wlan_count, wlan_first_vid = wlan_vid, wlan_first_did = wlan_did,
                brcm_wlan_count = brcm_count, brcm_first_did = brcm_did, pci_eth_count = eth_count,
                pci_mm_audio = audio, inet_phase = NetOff, inet_bytes = 0, inet_reload_request = False,
                browser_line_count = 0, last_rendered_raw_len = None, last_inet_page_gen = 0,
                page_scroll_line = 0, page_truncated = False, fetch_err = replicate 80 0, fetch_err_len = 0,
                settings_text_focus = NoFocus, wifi_scan_count = 0, wifi_scan_demo = False,
                wifi_scan_names = replicate 3 (replicate 32 0), wifi_scan_lens = replicate 3 0,
                disk_install_available = False,
                disk_install = \<lparr> install_phase = Idle, install_cur = 0, install_total = 0,
                  install_err = replicate 56 0, install_err_len = 0, install_start_request = False,
                  install_content_dirty = True \<rparr>,
                bios_fullpage_browser = True, chrome_only_dirty = False, browser_body_dirty = False,
                status_dirty = True, power_reboot_request = False, power_shutdown_request = False,
                settings_save_requested = False, log_scroll_line = 0, log_stick_to_bottom = True,
                log_subtab = Live, settings_scroll_px = 0, disk_install_scroll_px = 0,
                screen_after_epilepsy_notice = Browser,
                url_history = (replicate URL_HISTORY_CAP (replicate 192 0))[0 := u],
                url_history_lens = (replicate URL_HISTORY_CAP 0)[0 := of_nat (length src)],
                history_count = 1, history_pos = 0, history_skip_push = False, static_octet_sel = 0 \<rparr>)"

definition ui_new ::
  "int \<Rightarrow> int \<Rightarrow> bool \<Rightarrow> u8 \<Rightarrow> u16 \<Rightarrow> u16 \<Rightarrow> u8 \<Rightarrow> u16 \<Rightarrow> u8 \<Rightarrow> bool \<Rightarrow> platform_caps \<Rightarrow> ui_state option" where
  "ui_new width height wlan wlan_count wlan_vid wlan_did brcm_count brcm_did eth_count audio caps =
     new_with_settings width height wlan wlan_count wlan_vid wlan_did brcm_count brcm_did eth_count audio caps
       device_settings_new"

section \<open>History\<close>

definition history_can_back :: "ui_state \<Rightarrow> bool" where
  "history_can_back st \<longleftrightarrow> 0 < history_pos st"

definition history_can_forward :: "ui_state \<Rightarrow> bool" where
  "history_can_forward st \<longleftrightarrow> unat (history_pos st) + 1 < unat (history_count st)"

text \<open>\<open>None\<close> is an index or slice panic.\<close>

definition history_load_at_pos :: "ui_state \<Rightarrow> ui_state option" where
  "history_load_at_pos st =
     (let pos = unat (history_pos st)
      in if length (url_history_lens st) \<le> pos \<or> length (url_history st) \<le> pos then None
         else let n = unat (url_history_lens st ! pos)
              in if length (url st) < n \<or> length (url_history st ! pos) < n then None
                 else Some (st\<lparr> url := put_at (url st) 0 (take n (url_history st ! pos)), url_len := n,
                              chrome_only_dirty := True \<rparr>))"

text \<open>
  The comparison is the one of the source: a slice of \<open>url\<close> with a slice of \<open>url\<close>. The entries of the
  full stack are moved down by one.
\<close>

definition history_push_current :: "ui_state \<Rightarrow> ui_state option" where
  "history_push_current st =
     (if url_len st = 0 then Some st
      else let pos = unat (history_pos st); len = unat (url_history_lens st ! pos)
           in if 0 < history_count st
                \<and> (length (url_history_lens st) \<le> pos \<or> len = url_len st \<and> length (url st) < url_len st) then None
              else if 0 < history_count st \<and> len = url_len st \<and> take len (url st) = take (url_len st) (url st)
              then Some st
              else let new_pos = pos + 1;
                       st = (if URL_HISTORY_CAP \<le> new_pos
                             then st\<lparr> url_history := tl (url_history st) @ [last (url_history st)],
                                      url_history_lens := tl (url_history_lens st) @ [last (url_history_lens st)],
                                      history_pos := of_nat (URL_HISTORY_CAP - 1),
                                      history_count := of_nat URL_HISTORY_CAP \<rparr>
                             else st\<lparr> history_count := of_nat (new_pos + 1), history_pos := of_nat new_pos \<rparr>);
                       pos = unat (history_pos st);
                       n = min (url_len st) (length (url st))
                   in Some (st\<lparr> url_history := (url_history st)[pos := put_at (url_history st ! pos) 0 (take n (url st))],
                                url_history_lens := (url_history_lens st)[pos := of_nat n] \<rparr>))"

definition history_go_back :: "ui_state \<Rightarrow> (bool \<times> ui_state) option" where
  "history_go_back st =
     (if \<not> history_can_back st then Some (False, st)
      else map_option (Pair True) (history_load_at_pos (st\<lparr> history_pos := history_pos st - 1 \<rparr>)))"

definition history_go_forward :: "ui_state \<Rightarrow> (bool \<times> ui_state) option" where
  "history_go_forward st =
     (if \<not> history_can_forward st then Some (False, st)
      else map_option (Pair True) (history_load_at_pos (st\<lparr> history_pos := history_pos st + 1 \<rparr>)))"

section \<open>Layout\<close>

record layout =
  lay_w :: usize
  lay_h :: usize
  chrome_h :: usize
  tab_y :: usize
  tab_h :: usize
  bar_y :: usize
  bar_h :: usize
  content_top :: usize

definition browser_bios_fullpage :: "ui_state \<Rightarrow> bool" where
  "browser_bios_fullpage st \<longleftrightarrow> screen st = Browser \<and> bios_fullpage_browser st"

definition ui_layout :: "frame_buffer_info \<Rightarrow> ui_state \<Rightarrow> layout" where
  "ui_layout info st =
     (let w = fb_width info; h = fb_height info
      in if screen st = EpilepsyWarning \<or> screen st = CaliforniaAgeNotice \<or> browser_bios_fullpage st
         then \<lparr> lay_w = w, lay_h = h, chrome_h = 0, tab_y = 0, tab_h = 0, bar_y = 0, bar_h = 0, content_top = 0 \<rparr>
         else let ch = max (min 56 (h div 8)) 24;
                  ty = ch + 4;
                  th = max (min 36 ((h - ch) div 6)) 20;
                  by = ty + th + 6;
                  bh = max (min 40 ((h - by) div 5)) 28
              in \<lparr> lay_w = w, lay_h = h, chrome_h = ch, tab_y = ty, tab_h = th, bar_y = by, bar_h = bh,
                   content_top = by + bh + 12 \<rparr>)"

section \<open>Notices\<close>

text \<open>Card and button of a notice, each as \<open>(x, y, w, h)\<close>; the two notices differ in their constants.\<close>

type_synonym rect = "usize \<times> usize \<times> usize \<times> usize"

definition notice_geometry ::
  "usize \<Rightarrow> usize \<Rightarrow> usize \<Rightarrow> usize \<Rightarrow> usize \<Rightarrow> usize \<Rightarrow> usize \<Rightarrow> usize \<Rightarrow> rect \<times> rect" where
  "notice_geometry card_w_max top_area body_lines card_h_min btn_w_max btn_w_min w h =
     (let card_w = clamp 320 card_w_max (w * 3 div 4);
          btn_h = 34; btn_pad = 22;
          card_h = max (min (top_area + body_lines * 13 + btn_pad + btn_h + 36) (h - 36)) card_h_min;
          card_x = (w - card_w) div 2;
          card_y = (h - card_h) div 2;
          btn_w = max (min (card_w - 56) btn_w_max) btn_w_min
      in ((card_x, card_y, card_w, card_h),
          (card_x + (card_w - btn_w) div 2, card_y + card_h - btn_h - btn_pad, btn_w, btn_h)))"

definition epilepsy_notice_geometry :: "usize \<Rightarrow> usize \<Rightarrow> rect \<times> rect" where
  "epilepsy_notice_geometry w h = notice_geometry 620 52 9 230 340 200 w h"

definition ca_age_notice_geometry :: "usize \<Rightarrow> usize \<Rightarrow> rect \<times> rect" where
  "ca_age_notice_geometry w h = notice_geometry 640 48 11 248 400 220 w h"

definition dismiss_epilepsy_notice :: "ui_state \<Rightarrow> ui_state" where
  "dismiss_epilepsy_notice st =
     (if screen st \<noteq> EpilepsyWarning then st else mark_content (st\<lparr> screen := CaliforniaAgeNotice \<rparr>))"

definition dismiss_california_age_notice :: "ui_state \<Rightarrow> ui_state" where
  "dismiss_california_age_notice st =
     (if screen st \<noteq> CaliforniaAgeNotice then st else mark_content (st\<lparr> screen := screen_after_epilepsy_notice st \<rparr>))"

section \<open>The log panel\<close>

definition log_line_is_serial :: "bytes \<Rightarrow> bool" where
  "log_line_is_serial line \<longleftrightarrow> 6 \<le> length line \<and> take 6 line = ascii ''[EVE] ''"

fun filter_count :: "log_state \<Rightarrow> usize list \<Rightarrow> usize" where
  "filter_count log [] = 0"
| "filter_count log (idx # is) =
     (case line_at log idx of
        Some line \<Rightarrow> (if log_line_is_serial line then 1 + filter_count log is else filter_count log is)
      | None \<Rightarrow> filter_count log is)"

definition log_filtered_count :: "log_state \<Rightarrow> bool \<Rightarrow> usize" where
  "log_filtered_count log serial_only =
     (if \<not> serial_only then log_count log else filter_count log [0..<log_count log])"

fun filter_index :: "log_state \<Rightarrow> usize \<Rightarrow> usize list \<Rightarrow> usize \<Rightarrow> usize option" where
  "filter_index log row [] seen = None"
| "filter_index log row (idx # is) seen =
     (case line_at log idx of
        Some line \<Rightarrow>
          (if log_line_is_serial line
           then if seen = row then Some idx else filter_index log row is (seen + 1)
           else filter_index log row is seen)
      | None \<Rightarrow> filter_index log row is seen)"

definition log_filtered_index :: "log_state \<Rightarrow> bool \<Rightarrow> usize \<Rightarrow> usize option" where
  "log_filtered_index log serial_only row =
     (if \<not> serial_only then (if row < log_count log then Some row else None)
      else filter_index log row [0..<log_count log] 0)"

fun log_line_has :: "bytes \<Rightarrow> bytes \<Rightarrow> bool" where
  "log_line_has [] needle = (needle = [])"
| "log_line_has (b # hay) needle = (take (length needle) (b # hay) = needle \<or> log_line_has hay needle)"

definition log_entry_rgb :: "bytes \<Rightarrow> u8 \<times> u8 \<times> u8" where
  "log_entry_rgb s =
     (if log_line_has s (ascii ''err '') then (0xc8, 0x32, 0x32)
      else if log_line_has s (ascii ''panic'') then (0xd0, 0x40, 0x40)
      else if log_line_has s (ascii ''dhcp'') \<or> log_line_has s (ascii ''ip '') \<or> log_line_has s (ascii ''gw '')
      then (0x16, 0x62, 0x36)
      else if log_line_has s (ascii ''nic '') \<or> log_line_has s (ascii ''mac '') then (0x22, 0x58, 0xa8)
      else if log_line_has s (ascii ''fetch '') then (0x6a, 0x42, 0xb8)
      else if log_line_has s (ascii ''power '') then (0x88, 0x5a, 0x18)
      else (0x1a, 0x24, 0x34))"

text \<open>The counting loop of the two viewports; the line heights are 14 and 12.\<close>

function rows_loop :: "usize \<Rightarrow> usize \<Rightarrow> usize \<Rightarrow> usize \<Rightarrow> usize" where
  "rows_loop line_h y_max y rows =
     (if 0 < line_h \<and> y + line_h \<le> y_max then rows_loop line_h y_max (y + line_h) (rows + 1) else rows)"
  by pat_completeness auto
termination
  by (relation "measure (\<lambda>(line_h, y_max, y, rows). y_max - y)") auto

declare rows_loop.simps [simp del]

definition log_viewport_rows :: "layout \<Rightarrow> usize" where
  "log_viewport_rows lay = max (rows_loop 14 (lay_h lay - (28 + 48)) (content_top lay + 108) 0) 1"

definition log_scroll_by_wheel :: "log_state \<Rightarrow> layout \<Rightarrow> int \<Rightarrow> ui_state \<Rightarrow> ui_state" where
  "log_scroll_by_wheel log lay lines st =
     (if lines = 0 then st
      else let total = log_filtered_count log (log_subtab st = Serial)
           in if total = 0 then st
              else let vis = log_viewport_rows lay;
                       max_scroll = total - vis;
                       eff = (if log_stick_to_bottom st then max_scroll else min (log_scroll_line st) max_scroll);
                       st = (if lines < 0
                             then st\<lparr> log_stick_to_bottom := False,
                                      log_scroll_line := eff - usize_of_i32 (i32_of (- lines)) \<rparr>
                             else let new = min (eff + usize_of_i32 lines) max_scroll;
                                      st = st\<lparr> log_scroll_line := new \<rparr>
                                  in if max_scroll \<le> new then st\<lparr> log_stick_to_bottom := True \<rparr> else st)
                   in mark_content st)"

section \<open>The settings panel\<close>

abbreviation (input) "SETTINGS_SUBTAB_OFF \<equiv> 32 :: nat"

definition settings_first_row_y :: "usize \<Rightarrow> usize" where
  "settings_first_row_y ct = ct + SETTINGS_SUBTAB_OFF + 22 + 8 + 14"

definition settings_y_after_all_rows :: "ui_state \<Rightarrow> usize \<Rightarrow> usize" where
  "settings_y_after_all_rows st ct =
     (let r = 22 + 4; y = settings_first_row_y ct
      in case settings_subtab st of
           General \<Rightarrow>
             let y = y + 5 * r + 14 + 10 * r + 14 + r + r + r * 3;
                 y = (if wifi_scan_demo st then y + 12 else y)
             in y + r + r + r + r + r + r + 18 + r + 18 + r + r + r + 10
         | Input \<Rightarrow> y + r + r + r + r + r + r + 10)"

definition settings_power_button_rects ::
  "ui_state \<Rightarrow> layout \<Rightarrow> rect \<times> rect" where
  "settings_power_button_rects st lay =
     (let y_btn = settings_y_after_all_rows st (content_top lay) + 20 + 16;
          margin = 40;
          inner = lay_w lay - margin * 2;
          btn_w = max ((inner - 18) div 2) 120
      in ((margin, y_btn, btn_w, 46), (margin + btn_w + 18, y_btn, btn_w, 46)))"

definition settings_content_height :: "ui_state \<Rightarrow> layout \<Rightarrow> usize" where
  "settings_content_height st lay =
     (let (_, (_, sy, _, sh)) = settings_power_button_rects st lay
      in sy + sh + 20 + 14 + 16 - content_top lay)"

definition settings_scroll_by_wheel :: "layout \<Rightarrow> int \<Rightarrow> ui_state \<Rightarrow> ui_state" where
  "settings_scroll_by_wheel lay dy st =
     (let panel_h = lay_h lay - content_top lay - 48;
          max_s = settings_content_height st lay - panel_h
      in mark_content
           (if max_s = 0 then st\<lparr> settings_scroll_px := 0 \<rparr>
            else if dy < 0 then st\<lparr> settings_scroll_px := settings_scroll_px st - usize_of_i32 (i32_of (- dy)) \<rparr>
            else st\<lparr> settings_scroll_px := min (settings_scroll_px st + usize_of_i32 dy) max_s \<rparr>))"

section \<open>The install panel\<close>

definition disk_install_button_rect :: "layout \<Rightarrow> rect" where
  "disk_install_button_rect lay =
     (let bw = min (lay_w lay - 80) 440
      in ((lay_w lay - bw) div 2, content_top lay + 168, bw, 52))"

abbreviation (input) "DISK_INSTALL_DOC_H \<equiv> 362 :: nat"

definition disk_install_scroll_by_wheel :: "layout \<Rightarrow> int \<Rightarrow> ui_state \<Rightarrow> ui_state" where
  "disk_install_scroll_by_wheel lay dy st =
     (let panel_h = lay_h lay - content_top lay - 48;
          max_s = DISK_INSTALL_DOC_H - panel_h
      in mark_content
           (if max_s = 0 then st\<lparr> disk_install_scroll_px := 0 \<rparr>
            else if dy < 0
            then st\<lparr> disk_install_scroll_px := disk_install_scroll_px st - usize_of_i32 (i32_of (- dy)) \<rparr>
            else st\<lparr> disk_install_scroll_px := min (disk_install_scroll_px st + usize_of_i32 dy) max_s \<rparr>))"

section \<open>The browser panel\<close>

definition browser_scroll_slots :: "layout \<Rightarrow> ui_state \<Rightarrow> usize" where
  "browser_scroll_slots lay st =
     (if browser_bios_fullpage st then 1
      else let y_max = lay_h lay - (28 + 48);
               y = content_top lay + 12;
               y = (if 0 < fetch_err_len st then y + 12 + 4 else y)
           in max (rows_loop 12 y_max y 0) 1)"

definition browser_max_scroll_line :: "layout \<Rightarrow> ui_state \<Rightarrow> usize" where
  "browser_max_scroll_line lay st = browser_line_count st - browser_scroll_slots lay st"

definition browser_clamp_scroll :: "layout \<Rightarrow> ui_state \<Rightarrow> ui_state" where
  "browser_clamp_scroll lay st = st\<lparr> page_scroll_line := min (page_scroll_line st) (browser_max_scroll_line lay st) \<rparr>"

definition browser_wheel_lines :: "layout \<Rightarrow> ui_state \<Rightarrow> int \<Rightarrow> int" where
  "browser_wheel_lines lay st raw =
     (if raw = 0 then 0
      else let vis = i32_of (int (browser_scroll_slots lay st)); step = min (max (vis sdiv 4) 2) 12 in sgn raw * step)"

definition browser_arrow_step :: "layout \<Rightarrow> ui_state \<Rightarrow> int" where
  "browser_arrow_step lay st =
     (let vis = i32_of (int (browser_scroll_slots lay st)) in min (max (vis sdiv 5) 1) 4)"

text \<open>\<open>browser_scroll\<close> of \<open>main.rs\<close>.\<close>

definition browser_scroll :: "layout \<Rightarrow> int \<Rightarrow> ui_state \<Rightarrow> ui_state" where
  "browser_scroll lay lines st =
     (if lines = 0 then st
      else let st = (if lines < 0 then st\<lparr> page_scroll_line := page_scroll_line st - usize_of_i32 (i32_of (- lines)) \<rparr>
                     else st\<lparr> page_scroll_line := saturating_add (page_scroll_line st) (usize_of_i32 lines) \<rparr>)
           in (browser_clamp_scroll lay st)\<lparr> browser_body_dirty := True \<rparr>)"

text \<open>\<open>wifi_demo_scan\<close>: three sample networks.\<close>

definition wifi_demo_scan :: "ui_state \<Rightarrow> ui_state" where
  "wifi_demo_scan st =
     (let names = [ascii ''HOMENET'', ascii ''OFFICE-AP'', ascii ''GUEST-WIFI'']
      in st\<lparr> wifi_scan_demo := True, wifi_scan_count := 3,
            wifi_scan_names := map2 (\<lambda>nm old. put_at old 0 (take (min (length nm) 32) nm)) names (wifi_scan_names st),
            wifi_scan_lens := map (\<lambda>nm. of_nat (min (length nm) 32)) names \<rparr>)"

end
