(* ===== verification/Eve_Ui_Click.thy ===== *)
theory Eve_Ui_Click
  imports Eve_Ui
begin

text \<open>
  \<open>handle_click_at\<close> of \<open>kernel/src/gfx.rs\<close>: what a press of the left button does at a position of the
  screen. The source walks down the rows of the settings panel with a running \<open>y\<close>; here a panel is
  the list of its rows, each with the gap before it and its action, and \<open>click_rows\<close> is the walk.
\<close>

section \<open>Hit tests\<close>

abbreviation (input) "TAB_EVE_X \<equiv> 12 :: nat"
abbreviation (input) "TAB_EVE_W \<equiv> 108 :: nat"
abbreviation (input) "TAB_SET_X \<equiv> 128 :: nat"
abbreviation (input) "TAB_SET_W \<equiv> 68 :: nat"
abbreviation (input) "TAB_INS_X \<equiv> 204 :: nat"
abbreviation (input) "TAB_INS_W \<equiv> 82 :: nat"
abbreviation (input) "TAB_LOG_W \<equiv> TAB_SET_W"
abbreviation (input) "URL_BAR_BTN_COUNT \<equiv> 5 :: nat"

definition in_rect :: "rect \<Rightarrow> usize \<Rightarrow> usize \<Rightarrow> bool" where
  "in_rect r px py = (case r of (x, y, w, h) \<Rightarrow> x \<le> px \<and> px < x + w \<and> y \<le> py \<and> py < y + h)"

definition in_span :: "usize \<Rightarrow> usize \<Rightarrow> usize \<Rightarrow> bool" where
  "in_span x w px \<longleftrightarrow> x \<le> px \<and> px < x + w"

definition tab_log_x :: "ui_state \<Rightarrow> usize" where
  "tab_log_x st = (if disk_install_available st then TAB_INS_X + TAB_INS_W + 6 else TAB_SET_X + TAB_SET_W + 6)"

definition url_bar_btn_width :: "usize \<Rightarrow> usize" where
  "url_bar_btn_width w = max (min 32 (w div (URL_BAR_BTN_COUNT + 8))) 24"

definition url_bar_url_x0 :: "usize \<Rightarrow> usize" where
  "url_bar_url_x0 w = 12 + URL_BAR_BTN_COUNT * (url_bar_btn_width w + 8) + 8"

definition static_ip_octet_from_mx :: "usize \<Rightarrow> usize \<Rightarrow> usize \<Rightarrow> u8" where
  "static_ip_octet_from_mx px base_x block_w =
     (if px \<le> base_x then 0 else of_nat (min ((px - base_x) div block_w) 3))"

definition url_bar_button_hit :: "layout \<Rightarrow> usize \<Rightarrow> usize \<Rightarrow> usize option" where
  "url_bar_button_hit lay px py =
     (if lay_h lay \<le> bar_y lay + bar_h lay then None
      else let btn = url_bar_btn_width (lay_w lay)
           in if py < bar_y lay + 6 \<or> bar_y lay + (bar_h lay - 6) \<le> py then None
              else find (\<lambda>i. in_span (12 + i * (btn + 8)) btn px) [0..<URL_BAR_BTN_COUNT])"

text \<open>\<open>lay.tab_h - 8\<close> wraps when the layout has no tabs.\<close>

definition in_tab_strip :: "layout \<Rightarrow> usize \<Rightarrow> bool" where
  "in_tab_strip lay py =
     (let ty = tab_y lay + 4; th = usize_sub (tab_h lay) 8
      in ty \<le> py \<and> int py < (int ty + th) mod (USIZE_MAX + 1))"

section \<open>Tabs, buttons and subtabs\<close>

text \<open>The tab under a click in the strip.\<close>

definition click_tab :: "layout \<Rightarrow> usize \<Rightarrow> ui_state \<Rightarrow> ui_state option" where
  "click_tab lay px st =
     (if in_span TAB_EVE_X TAB_EVE_W px then Some (st\<lparr> screen := Browser, settings_text_focus := NoFocus \<rparr>)
      else if in_span TAB_SET_X TAB_SET_W px then Some (st\<lparr> screen := Settings \<rparr>)
      else if disk_install_available st \<and> in_span TAB_INS_X TAB_INS_W px then Some (st\<lparr> screen := DiskInstall \<rparr>)
      else if tab_log_x st + TAB_LOG_W + 8 < lay_w lay \<and> in_span (tab_log_x st) TAB_LOG_W px
      then Some (st\<lparr> screen := Log, settings_text_focus := NoFocus \<rparr>)
      else None)"

definition request_reload :: "ui_state \<Rightarrow> ui_state" where
  "request_reload st = st\<lparr> inet_reload_request := True, status_dirty := True \<rparr>"

definition after_history :: "(bool \<times> ui_state) option \<Rightarrow> ui_state option" where
  "after_history r = map_option (\<lambda>(moved, st). if moved then request_reload (st\<lparr> history_skip_push := True \<rparr>) else st) r"

definition load_home :: "ui_state \<Rightarrow> ui_state" where
  "load_home st =
     (let src = home_bytes (length (url st)) (settings st)
      in st\<lparr> url := put_at (url st) 0 src, url_len := length src, chrome_only_dirty := True \<rparr>)"

definition url_bar_click :: "usize \<Rightarrow> ui_state \<Rightarrow> ui_state option" where
  "url_bar_click i st =
     (if i = 0 then after_history (history_go_back st)
      else if i = 1 then after_history (history_go_forward st)
      else if i = 2 then Some (request_reload (st\<lparr> history_skip_push := True \<rparr>))
      else if i = 3 then Some (request_reload (load_home st))
      else Some (request_reload st))"

definition show_log_subtab :: "log_subtab \<Rightarrow> ui_state \<Rightarrow> ui_state" where
  "show_log_subtab t st =
     (if log_subtab st \<noteq> t
      then mark_content (st\<lparr> log_subtab := t, log_scroll_line := 0, log_stick_to_bottom := True \<rparr>) else st)"

definition show_settings_subtab :: "settings_subtab \<Rightarrow> ui_state \<Rightarrow> ui_state" where
  "show_settings_subtab t st =
     (if settings_subtab st \<noteq> t then mark_content (st\<lparr> settings_subtab := t, settings_scroll_px := 0 \<rparr>) else st)"

section \<open>The rows of the settings panel\<close>

fun click_rows :: "(usize \<Rightarrow> bool) \<Rightarrow> usize \<Rightarrow> (usize \<times> (ui_state \<Rightarrow> ui_state)) list \<Rightarrow> ui_state \<Rightarrow> ui_state option" where
  "click_rows in_row y [] st = None"
| "click_rows in_row y ((gap, act) # rows) st =
     (if in_row (y + gap) then Some (act st) else click_rows in_row (y + gap + (22 + 4)) rows st)"

definition focus_on :: "settings_text_focus \<Rightarrow> ui_state \<Rightarrow> ui_state" where
  "focus_on f st = st\<lparr> settings_text_focus := f \<rparr>"

definition focus_static :: "layout \<Rightarrow> usize \<Rightarrow> settings_text_focus \<Rightarrow> ui_state \<Rightarrow> ui_state" where
  "focus_static lay px f st =
     mark_content (st\<lparr> settings_text_focus := f,
                       static_octet_sel := static_ip_octet_from_mx px (min 200 (lay_w lay - 160)) 48 \<rparr>)"

definition save_row :: "ui_state \<Rightarrow> ui_state" where
  "save_row st =
     mark_content (if settings_persist_supported (platform_caps st) then st\<lparr> settings_save_requested := True \<rparr> else st)"

definition use_url_as_home :: "ui_state \<Rightarrow> ui_state" where
  "use_url_as_home st =
     (let n = min (url_len st) PERSIST_HOME_URL_CAP
      in mark_content (on_settings (\<lambda>s. s\<lparr> home_url := put_at (home_url s) 0 (take n (url st)), home_url_len := of_nat n \<rparr>) st))"

definition bookmark_row :: "usize \<Rightarrow> usize \<Rightarrow> usize \<Rightarrow> ui_state \<Rightarrow> ui_state" where
  "bookmark_row mid px k st =
     mark_content
       (if px < mid
        then let n = unat (bookmark_len (settings st) ! k)
             in if 0 < n \<and> n \<le> PERSIST_BOOKMARK_URL_CAP
                then let nt = min n (length (url st))
                     in st\<lparr> url := put_at (url st) 0 (take nt (bookmark_url (settings st) ! k)), url_len := nt,
                            inet_reload_request := True, chrome_only_dirty := True, status_dirty := True \<rparr>
                else st
        else let n = min (url_len st) PERSIST_BOOKMARK_URL_CAP
             in on_settings (\<lambda>s. s\<lparr> bookmark_url := (bookmark_url s)[k := put_at (bookmark_url s ! k) 0 (take n (url st))],
                                    bookmark_len := (bookmark_len s)[k := of_nat n] \<rparr>) st)"

definition wifi_row :: "usize \<Rightarrow> ui_state \<Rightarrow> ui_state" where
  "wifi_row k st =
     (let n = unat (wifi_scan_lens st ! k)
      in if k < unat (wifi_scan_count st) \<and> 0 < n \<and> n \<le> 32
         then focus_on WifiSsid (on_settings (\<lambda>s. s\<lparr> wifi_ssid := put_at (wifi_ssid s) 0 (take n (wifi_scan_names st ! k)),
                                                     wifi_ssid_len := n \<rparr>) st)
         else st)"

definition general_rows :: "layout \<Rightarrow> usize \<Rightarrow> ui_state \<Rightarrow> (usize \<times> (ui_state \<Rightarrow> ui_state)) list" where
  "general_rows lay px st =
     (let rx = 36; rw = lay_w lay - 72; mid = rx + rw div 2
      in [(0, mark_content \<circ> on_settings (\<lambda>s. s\<lparr> display_theme := display_theme_next (display_theme s) \<rparr>)),
          (0, mark_content \<circ> focus_on DisplayWidth),
          (0, mark_content \<circ> focus_on DisplayHeight),
          (0, mark_content \<circ> on_settings (\<lambda>s. s\<lparr> display_use_custom_resolution := \<not> display_use_custom_resolution s \<rparr>)),
          (0, save_row),
          (14, mark_content \<circ> focus_on HomeUrl),
          (0, use_url_as_home)]
       @ map (\<lambda>k. (0, bookmark_row mid px k)) [0..<PERSIST_BOOKMARK_SLOTS]
       @ [(14, on_settings (\<lambda>s. s\<lparr> wifi_enabled := \<not> wifi_enabled s \<rparr>)),
          (0, wifi_demo_scan)]
       @ map (\<lambda>k. (0, wifi_row k)) [0..<3]
       @ [(if wifi_scan_demo st then 12 else 0, focus_on WifiSsid),
          (0, on_settings (\<lambda>s. s\<lparr> wifi_sec := wifi_security_next (wifi_sec s) \<rparr>)),
          (0, focus_on WifiPsk),
          (0, on_settings (\<lambda>s. s\<lparr> nic := nic_next (nic s) \<rparr>)),
          (0, on_settings (\<lambda>s. s\<lparr> ip_config := ip_config_next (ip_config s) \<rparr>))]
       @ (if ip_config (settings st) = Static
          then [(0, focus_static lay px StaticIp), (0, focus_static lay px StaticGw), (0, focus_static lay px StaticDns)]
          else [])
       @ [(0, on_settings (\<lambda>s. s\<lparr> internet_stack_enabled := \<not> internet_stack_enabled s \<rparr>)),
          (4 + 14, on_settings (\<lambda>s. s\<lparr> bluetooth_enabled := \<not> bluetooth_enabled s \<rparr>)),
          (4 + 14, on_settings (\<lambda>s. s\<lparr> midi_enabled := \<not> midi_enabled s \<rparr>)),
          (0, on_settings (\<lambda>s. s\<lparr> midi_usb_enabled := \<not> midi_usb_enabled s \<rparr>)),
          (0, on_settings (\<lambda>s. s\<lparr> browser_script_runtime_enabled := \<not> browser_script_runtime_enabled s \<rparr>))])"

definition input_rows :: "(usize \<times> (ui_state \<Rightarrow> ui_state)) list" where
  "input_rows =
     [(0, on_settings (\<lambda>s. s\<lparr> usb_polling_enabled := \<not> usb_polling_enabled s \<rparr>)),
      (0, \<lambda>st. st), (0, \<lambda>st. st), (0, \<lambda>st. st), (0, \<lambda>st. st),
      (0, on_settings next_cursor_emoji_preset)]"

section \<open>A click\<close>

definition settings_click :: "layout \<Rightarrow> usize \<Rightarrow> usize \<Rightarrow> ui_state \<Rightarrow> bool \<times> ui_state" where
  "settings_click lay px py st =
     (let hit_my = py + settings_scroll_px st;
          sub_y = content_top lay + SETTINGS_SUBTAB_OFF;
          in_sub = in_span sub_y 22 hit_my \<and> 36 \<le> px;
          in_row = (\<lambda>y. in_span y 22 hit_my \<and> in_span 36 (lay_w lay - 72) px);
          rows = (case settings_subtab st of General \<Rightarrow> general_rows lay px st | Input \<Rightarrow> input_rows)
      in if in_sub \<and> in_span 36 82 px then (True, show_settings_subtab General st)
         else if in_sub \<and> in_span (36 + 82 + 8) 58 px then (True, show_settings_subtab Input st)
         else case click_rows in_row (settings_first_row_y (content_top lay)) rows st of
                Some st' \<Rightarrow> (True, st')
              | None \<Rightarrow>
                  let (reboot, shutdown) = settings_power_button_rects st lay
                  in if in_rect reboot px hit_my then (True, st\<lparr> power_reboot_request := True \<rparr>)
                     else if in_rect shutdown px hit_my then (True, st\<lparr> power_shutdown_request := True \<rparr>)
                     else (False, st))"

definition log_click :: "layout \<Rightarrow> usize \<Rightarrow> usize \<Rightarrow> ui_state \<Rightarrow> bool \<times> ui_state" where
  "log_click lay px py st =
     (if in_span (content_top lay + 52) 20 py \<and> in_span 36 56 px then (True, show_log_subtab Live st)
      else if in_span (content_top lay + 52) 20 py \<and> in_span (36 + 56 + 8) 72 px then (True, show_log_subtab Serial st)
      else (False, st))"

definition install_click :: "layout \<Rightarrow> usize \<Rightarrow> usize \<Rightarrow> ui_state \<Rightarrow> bool \<times> ui_state" where
  "install_click lay px py st =
     (if install_phase (disk_install st) = Idle
         \<and> in_rect (disk_install_button_rect lay) px (py + disk_install_scroll_px st)
      then (True, st\<lparr> disk_install := (disk_install st)\<lparr> install_start_request := True \<rparr> \<rparr>)
      else (False, st))"

text \<open>\<open>None\<close> is a panic.\<close>

definition handle_click_at :: "frame_buffer_info \<Rightarrow> usize \<Rightarrow> usize \<Rightarrow> ui_state \<Rightarrow> (bool \<times> ui_state) option" where
  "handle_click_at info px py st =
     (let lay = ui_layout info st
      in case screen st of
           EpilepsyWarning \<Rightarrow>
             Some (if in_rect (snd (epilepsy_notice_geometry (lay_w lay) (lay_h lay))) px py
                   then (True, dismiss_epilepsy_notice st) else (False, st))
         | CaliforniaAgeNotice \<Rightarrow>
             Some (if in_rect (snd (ca_age_notice_geometry (lay_w lay) (lay_h lay))) px py
                   then (True, dismiss_california_age_notice st) else (False, st))
         | scr \<Rightarrow>
             (case (if in_tab_strip lay py then click_tab lay px st else None) of
                Some st' \<Rightarrow> Some (True, st')
              | None \<Rightarrow>
                  (case scr of
                     DiskInstall \<Rightarrow> Some (install_click lay px py st)
                   | Browser \<Rightarrow>
                       (case url_bar_button_hit lay px py of
                          Some i \<Rightarrow> map_option (Pair True) (url_bar_click i st)
                        | None \<Rightarrow> Some (False, st))
                   | Log \<Rightarrow> Some (log_click lay px py st)
                   | _ \<Rightarrow> Some (settings_click lay px py st))))"

end
