(* ===== verification/Eve_Input.thy ===== *)
theory Eve_Input
  imports Eve_Prelude
begin

text \<open>
  Keyboards and mice: the PS/2 decoder (\<open>kernel/src/ps2.rs\<close>), the key tables, the queue of USB key
  presses (\<open>kernel/src/usb_hid/mod.rs\<close>, \<open>usb_hid/x86.rs\<close>), the key queue of the ARM targets
  (\<open>kernel/src/arm_input.rs\<close>) and the walks over USB configuration descriptors
  (\<open>kernel/src/usb_common.rs\<close>). The i8042 controller and the USB host controllers are arguments: the
  operations on their ports and the report they deliver.

  The lemmas: keyboard and mouse bytes are decoded independently however they interleave; movement
  packets are read as nine bit numbers; the tables reach every printable character; the key queues
  refine a bounded list; no newly pressed USB key is lost; the walks over descriptors stay in bounds.
\<close>

section \<open>The i8042 controller\<close>

record 'c ps2_ports =
  in_status :: "'c \<Rightarrow> u8 \<times> 'c"
  in_data :: "'c \<Rightarrow> u8 \<times> 'c"
  out_cmd :: "u8 \<Rightarrow> 'c \<Rightarrow> 'c"
  out_data :: "u8 \<Rightarrow> 'c \<Rightarrow> 'c"

abbreviation (input) "STATUS_OUT_FULL \<equiv> 1 :: u8"
abbreviation (input) "STATUS_IN_FULL \<equiv> 2 :: u8"
abbreviation (input) "STATUS_AUX \<equiv> 0x20 :: u8"

text \<open>The two waits are the same loop over a bit of the status register, with its 100,000 rounds.\<close>

fun wait_status :: "'c ps2_ports \<Rightarrow> (u8 \<Rightarrow> bool) \<Rightarrow> nat \<Rightarrow> 'c \<Rightarrow> 'c" where
  "wait_status io ready 0 c = c"
| "wait_status io ready (Suc n) c = (let (st, c) = in_status io c in if ready st then c else wait_status io ready n c)"

definition wait_write_ready :: "'c ps2_ports \<Rightarrow> 'c \<Rightarrow> 'c" where
  "wait_write_ready io = wait_status io (\<lambda>st. st AND STATUS_IN_FULL = 0) 100000"

definition wait_read_ready :: "'c ps2_ports \<Rightarrow> 'c \<Rightarrow> 'c" where
  "wait_read_ready io = wait_status io (\<lambda>st. st AND STATUS_OUT_FULL \<noteq> 0) 100000"

definition write_cmd :: "'c ps2_ports \<Rightarrow> u8 \<Rightarrow> 'c \<Rightarrow> 'c" where
  "write_cmd io v c = out_cmd io v (wait_write_ready io c)"

definition write_data :: "'c ps2_ports \<Rightarrow> u8 \<Rightarrow> 'c \<Rightarrow> 'c" where
  "write_data io v c = out_data io v (wait_write_ready io c)"

definition read_data :: "'c ps2_ports \<Rightarrow> 'c \<Rightarrow> u8 \<times> 'c" where
  "read_data io c = in_data io (wait_read_ready io c)"

fun aux_loop :: "'c ps2_ports \<Rightarrow> nat \<Rightarrow> nat \<Rightarrow> 'c \<Rightarrow> u8 option \<times> 'c" where
  "aux_loop io 0 skip_budget c = (None, c)"
| "aux_loop io (Suc n) skip_budget c =
     (let (st, c) = in_status io c
      in if st AND STATUS_OUT_FULL = 0 then aux_loop io n skip_budget c
         else let (st, c) = in_status io c; (b, c) = in_data io c
              in if st AND STATUS_AUX \<noteq> 0 then (Some b, c)
                 else if skip_budget = 0 then (None, c)
                 else aux_loop io n (skip_budget - 1) c)"

definition read_aux_data :: "'c ps2_ports \<Rightarrow> 'c \<Rightarrow> u8 option \<times> 'c" where
  "read_aux_data io = aux_loop io 250000 32"

fun flush_output :: "'c ps2_ports \<Rightarrow> nat \<Rightarrow> 'c \<Rightarrow> 'c" where
  "flush_output io 0 c = c"
| "flush_output io (Suc n) c =
     (let (st, c) = in_status io c
      in if st AND STATUS_OUT_FULL \<noteq> 0 then flush_output io n (snd (in_data io c)) else c)"

text \<open>A command to the mouse, and whether it was acknowledged.\<close>

definition mouse_command :: "'c ps2_ports \<Rightarrow> u8 \<Rightarrow> 'c \<Rightarrow> bool \<times> 'c" where
  "mouse_command io v c =
     (let (r, c) = read_aux_data io (write_data io v (write_cmd io 0xD4 c)) in (r = Some 0xFA, c))"

text \<open>\<open>init\<close>: the result is \<open>MOUSE_PKT_LEN\<close>.\<close>

definition ps2_init :: "'c ps2_ports \<Rightarrow> 'c \<Rightarrow> u8 \<times> 'c" where
  "ps2_init io c =
     (let c = write_cmd io 0x20 (write_cmd io 0xA8 (flush_output io 16 c));
          (cfg, c) = read_data io c;
          c = write_data io (cfg OR 0x03) (write_cmd io 0x60 c);
          (ack, c) = mouse_command io 0xF6 c;
          (pkt_len, c) =
            (if \<not> ack then (3, c)
             else let (ack, c) = mouse_command io 0xF4 c
                  in if \<not> ack then (3, c)
                     else let (ack, c) = mouse_command io 0xF2 c
                          in if \<not> ack then (3, c)
                             else let (r, c) = read_aux_data io c;
                                      ident = (case r of Some b \<Rightarrow> b | None \<Rightarrow> 0)
                                  in (if ident = 0x03 \<or> ident = 0x04 then 4 else 3, c))
      in (pkt_len, flush_output io 8 c))"

section \<open>The PS/2 decoder\<close>

datatype ps2_event = Key u8 bool | BrowserScroll int | Mouse u8 "16 word" "16 word"

record kbd_state =
  KBD_RELEASE :: bool
  KBD_E0_PREFIX :: bool
  KBD_EXT_RELEASE :: bool
  SHIFT_L :: bool
  SHIFT_R :: bool

record mouse_state =
  MOUSE_PHASE :: u8
  MOUSE_BUF :: bytes
  MOUSE_PKT_LEN :: u8

definition kbd_init :: kbd_state where
  "kbd_init = \<lparr> KBD_RELEASE = False, KBD_E0_PREFIX = False, KBD_EXT_RELEASE = False, SHIFT_L = False, SHIFT_R = False \<rparr>"

definition mouse_init :: mouse_state where
  "mouse_init = \<lparr> MOUSE_PHASE = 0, MOUSE_BUF = replicate 4 0, MOUSE_PKT_LEN = 3 \<rparr>"

definition kbd_byte :: "u8 \<Rightarrow> kbd_state \<Rightarrow> ps2_event option \<times> kbd_state" where
  "kbd_byte b k =
     (if b = 0xE0 then (None, k\<lparr> KBD_E0_PREFIX := True \<rparr>)
      else if KBD_E0_PREFIX k then
        let k = k\<lparr> KBD_E0_PREFIX := False \<rparr>
        in if b = 0xF0 then (None, k\<lparr> KBD_EXT_RELEASE := True \<rparr>)
           else (if b = 0x48 then Some (BrowserScroll (- 3)) else if b = 0x50 then Some (BrowserScroll 3) else None, k)
      else if b = 0xF0 then (None, k\<lparr> KBD_RELEASE := True \<rparr>)
      else if KBD_RELEASE k then
        let k = k\<lparr> KBD_RELEASE := False \<rparr>
        in if KBD_EXT_RELEASE k then (None, k\<lparr> KBD_EXT_RELEASE := False \<rparr>)
           else (None, if b = 0x2A then k\<lparr> SHIFT_L := False \<rparr> else if b = 0x36 then k\<lparr> SHIFT_R := False \<rparr> else k)
      else if KBD_EXT_RELEASE k then (None, k\<lparr> KBD_EXT_RELEASE := False \<rparr>)
      else if b = 0x2A then (None, k\<lparr> SHIFT_L := True \<rparr>)
      else if b = 0x36 then (None, k\<lparr> SHIFT_R := True \<rparr>)
      else (Some (Key b (SHIFT_L k \<or> SHIFT_R k)), k))"

definition finish_ps2_mouse_packet :: "mouse_state \<Rightarrow> ps2_event" where
  "finish_ps2_mouse_packet m =
     (let flags = MOUSE_BUF m ! 0;
          dx = ucast (MOUSE_BUF m ! 1);
          dy = ucast (MOUSE_BUF m ! 2);
          dx = (if flags AND 0x10 \<noteq> 0 then dx OR 0xFF00 else dx);
          dy = (if flags AND 0x20 \<noteq> 0 then dy OR 0xFF00 else dy)
      in Mouse (flags AND 0x07) dx (- dy))"

definition mouse_byte :: "u8 \<Rightarrow> mouse_state \<Rightarrow> ps2_event option \<times> mouse_state" where
  "mouse_byte b m =
     (let phase = MOUSE_PHASE m;
          pkt_len = min (max (MOUSE_PKT_LEN m) 3) 4
      in if phase = 0 then
           if b AND 0x08 = 0 then (None, m) else (None, m\<lparr> MOUSE_BUF := (MOUSE_BUF m)[0 := b], MOUSE_PHASE := 1 \<rparr>)
         else if phase = 1 then (None, m\<lparr> MOUSE_BUF := (MOUSE_BUF m)[1 := b], MOUSE_PHASE := 2 \<rparr>)
         else if phase = 2 then
           let m = m\<lparr> MOUSE_BUF := (MOUSE_BUF m)[2 := b] \<rparr>
           in if 3 < pkt_len then (None, m\<lparr> MOUSE_PHASE := 3 \<rparr>)
              else let m = m\<lparr> MOUSE_PHASE := 0 \<rparr> in (Some (finish_ps2_mouse_packet m), m)
         else let m = m\<lparr> MOUSE_BUF := (MOUSE_BUF m)[3 := b], MOUSE_PHASE := 0 \<rparr> in (Some (finish_ps2_mouse_packet m), m))"

definition ps2_byte :: "u8 \<Rightarrow> u8 \<Rightarrow> kbd_state \<times> mouse_state \<Rightarrow> ps2_event option \<times> kbd_state \<times> mouse_state" where
  "ps2_byte st b km =
     (let (k, m) = km
      in if st AND STATUS_AUX = 0 then let (ev, k) = kbd_byte b k in (ev, k, m)
         else let (ev, m) = mouse_byte b m in (ev, k, m))"

definition poll_event ::
  "'c ps2_ports \<Rightarrow> 'c \<Rightarrow> kbd_state \<times> mouse_state \<Rightarrow> ps2_event option \<times> 'c \<times> kbd_state \<times> mouse_state" where
  "poll_event io c km =
     (let (st, c) = in_status io c
      in if st AND STATUS_OUT_FULL = 0 then (None, c, km)
         else let (st, c) = in_status io c; (b, c) = in_data io c; (ev, km) = ps2_byte st b km
              in (ev, c, km))"

section \<open>Key tables\<close>

definition shifted_digit :: "nat \<Rightarrow> u8" where
  "shifted_digit i = ascii ''!@#$%^&*('' ! i"

definition set1_letters :: "(u8 \<times> char \<times> char) list" where
  "set1_letters =
     [(0x10, CHR ''Q'', CHR ''q''), (0x11, CHR ''W'', CHR ''w''), (0x12, CHR ''E'', CHR ''e''), (0x13, CHR ''R'', CHR ''r''),
      (0x14, CHR ''T'', CHR ''t''), (0x15, CHR ''Y'', CHR ''y''), (0x16, CHR ''U'', CHR ''u''), (0x17, CHR ''I'', CHR ''i''),
      (0x18, CHR ''O'', CHR ''o''), (0x19, CHR ''P'', CHR ''p''), (0x1E, CHR ''A'', CHR ''a''), (0x1F, CHR ''S'', CHR ''s''),
      (0x20, CHR ''D'', CHR ''d''), (0x21, CHR ''F'', CHR ''f''), (0x22, CHR ''G'', CHR ''g''), (0x23, CHR ''H'', CHR ''h''),
      (0x24, CHR ''J'', CHR ''j''), (0x25, CHR ''K'', CHR ''k''), (0x26, CHR ''L'', CHR ''l''), (0x2C, CHR ''Z'', CHR ''z''),
      (0x2D, CHR ''X'', CHR ''x''), (0x2E, CHR ''C'', CHR ''c''), (0x2F, CHR ''V'', CHR ''v''), (0x30, CHR ''B'', CHR ''b''),
      (0x31, CHR ''N'', CHR ''n''), (0x32, CHR ''M'', CHR ''m'')]"

definition set1_symbols :: "(u8 \<times> char \<times> char) list" where
  "set1_symbols =
     [(0x0B, CHR '')'', CHR ''0''), (0x0C, CHR ''_'', CHR ''-''), (0x0D, CHR ''+'', CHR ''=''), (0x1A, CHR ''{'', CHR ''[''),
      (0x1B, CHR ''}'', CHR '']''), (0x27, CHR '':'', CHR '';''), (0x28, CHR 0x22, CHR 0x27), (0x29, CHR ''~'', CHR 0x60),
      (0x33, CHR ''<'', CHR '',''), (0x34, CHR ''>'', CHR ''.''), (0x35, CHR ''?'', CHR ''/''), (0x2B, CHR ''|'', CHR 0x5C)]"

definition scancode_set1_to_ascii :: "u8 \<Rightarrow> bool \<Rightarrow> u8 option" where
  "scancode_set1_to_ascii code shift =
     (if code = 0x1C then Some 0x0A
      else if code = 0x0E then Some 0x08
      else if code = 0x39 then Some (byte CHR '' '')
      else if 0x02 \<le> code \<and> code \<le> 0x0A
      then Some (if shift then shifted_digit (unat (code - 0x02)) else byte CHR ''1'' + (code - 0x02))
      else map_option (\<lambda>(up, low). byte (if shift then up else low)) (map_of (set1_symbols @ set1_letters) code))"

definition usage_symbols :: "(u8 \<times> char \<times> char) list" where
  "usage_symbols =
     [(0x27, CHR '')'', CHR ''0''), (0x2D, CHR ''_'', CHR ''-''), (0x2E, CHR ''+'', CHR ''=''), (0x2F, CHR ''{'', CHR ''[''),
      (0x30, CHR ''}'', CHR '']''), (0x33, CHR '':'', CHR '';''), (0x34, CHR 0x22, CHR 0x27), (0x35, CHR ''~'', CHR 0x60),
      (0x36, CHR ''<'', CHR '',''), (0x37, CHR ''>'', CHR ''.''), (0x38, CHR ''?'', CHR ''/''), (0x31, CHR ''|'', CHR 0x5C)]"

definition hid_usage_to_ascii :: "u8 \<Rightarrow> bool \<Rightarrow> u8 option" where
  "hid_usage_to_ascii usage shift =
     (if 0x04 \<le> usage \<and> usage \<le> 0x1D
      then Some (if shift then byte CHR ''A'' + (usage - 0x04) else byte CHR ''a'' + (usage - 0x04))
      else if usage = 0x28 then Some 0x0A
      else if usage = 0x2A then Some 0x08
      else if usage = 0x2C then Some (byte CHR '' '')
      else if 0x1E \<le> usage \<and> usage \<le> 0x26
      then Some (if shift then shifted_digit (unat (usage - 0x1E)) else byte CHR ''1'' + (usage - 0x1E))
      else map_option (\<lambda>(up, low). byte (if shift then up else low)) (map_of usage_symbols usage))"

section \<open>USB key presses\<close>

datatype usb_host_kind = NoHost | Uhci | Ohci | Ehci | Xhci | OtherHost u8

definition pci_prog_to_kind :: "u8 \<Rightarrow> usb_host_kind" where
  "pci_prog_to_kind pi =
     (if pi = 0x00 then Uhci else if pi = 0x10 then Ohci else if pi = 0x20 then Ehci
      else if pi = 0x30 then Xhci else OtherHost pi)"

abbreviation (input) "KBD_Q_CAP \<equiv> 8 :: nat"

record usb_kbd =
  PREV_KBD_REPORT :: bytes
  KBD_QUEUE :: "(u8 \<times> bool) list"
  KBD_Q_HEAD :: usize
  KBD_Q_TAIL :: usize

definition usb_kbd_init :: usb_kbd where
  "usb_kbd_init = \<lparr> PREV_KBD_REPORT = replicate 8 0, KBD_QUEUE = replicate KBD_Q_CAP (0, False), KBD_Q_HEAD = 0, KBD_Q_TAIL = 0 \<rparr>"

definition kbd_q_push :: "u8 \<times> bool \<Rightarrow> usb_kbd \<Rightarrow> usb_kbd" where
  "kbd_q_push v q =
     (let n = (KBD_Q_TAIL q + 1) mod KBD_Q_CAP
      in if n = KBD_Q_HEAD q then q
         else q\<lparr> KBD_QUEUE := (KBD_QUEUE q)[KBD_Q_TAIL q := v], KBD_Q_TAIL := n \<rparr>)"

definition kbd_q_pop :: "usb_kbd \<Rightarrow> (u8 \<times> bool) option \<times> usb_kbd" where
  "kbd_q_pop q =
     (if KBD_Q_HEAD q = KBD_Q_TAIL q then (None, q)
      else (Some (KBD_QUEUE q ! KBD_Q_HEAD q), q\<lparr> KBD_Q_HEAD := (KBD_Q_HEAD q + 1) mod KBD_Q_CAP \<rparr>))"

definition push_new_keys :: "bytes \<Rightarrow> bool \<Rightarrow> bytes \<Rightarrow> usb_kbd \<Rightarrow> usb_kbd" where
  "push_new_keys old shift keys q =
     fold (\<lambda>k q. if k = 0 then q else if k \<in> set old then q else kbd_q_push (k, shift) q) keys q"

text \<open>The host controller delivers a report of eight bytes, or none.\<close>

definition poll_usb_key_press ::
  "bool \<Rightarrow> ('h \<Rightarrow> bytes option \<times> 'h) \<Rightarrow> 'h \<Rightarrow> usb_kbd \<Rightarrow> (u8 \<times> bool) option \<times> 'h \<times> usb_kbd" where
  "poll_usb_key_press keyboard_active poll_report h q =
     (if \<not> keyboard_active then (None, h, q)
      else case kbd_q_pop q of
             (Some v, q) \<Rightarrow> (Some v, h, q)
           | (None, q) \<Rightarrow>
               (case poll_report h of
                  (None, h) \<Rightarrow> (None, h, q)
                | (Some rep, h) \<Rightarrow>
                    let shift = rep ! 0 AND 0x22 \<noteq> 0;
                        q = push_new_keys (slice (PREV_KBD_REPORT q) 2 8) shift (slice rep 2 8) q;
                        q = q\<lparr> PREV_KBD_REPORT := rep \<rparr>;
                        (v, q) = kbd_q_pop q
                    in (v, h, q)))"

section \<open>Keys of the ARM targets\<close>

datatype arm_key_event =
  ArmChar u8 | Backspace | Enter | Func u8 | PageUp | PageDown | ArrowUp | ArrowDown | ArrowLeft | ArrowRight
  | Home | End | Escape

abbreviation (input) "KEY_CAP \<equiv> 32 :: nat"

record arm_keys =
  KEY_BUF :: "arm_key_event list"
  KEY_LEN :: usize

definition arm_keys_init :: arm_keys where
  "arm_keys_init = \<lparr> KEY_BUF = replicate KEY_CAP (ArmChar 0), KEY_LEN = 0 \<rparr>"

definition key_queue_reset :: "arm_keys \<Rightarrow> arm_keys" where
  "key_queue_reset q = q\<lparr> KEY_LEN := 0 \<rparr>"

definition key_queue_push :: "arm_key_event \<Rightarrow> arm_keys \<Rightarrow> arm_keys" where
  "key_queue_push ev q =
     (if KEY_LEN q < KEY_CAP then q\<lparr> KEY_BUF := (KEY_BUF q)[KEY_LEN q := ev], KEY_LEN := KEY_LEN q + 1 \<rparr> else q)"

definition key_events :: "arm_keys \<Rightarrow> arm_key_event list" where
  "key_events q = take (KEY_LEN q) (KEY_BUF q)"

section \<open>USB configuration descriptors\<close>

function hid_walk :: "bytes \<Rightarrow> u8 \<Rightarrow> u8 \<Rightarrow> usize \<Rightarrow> (u8 \<times> u8 \<times> u16) option" where
  "hid_walk cfg protocol iface i =
     (if length cfg < i + 2 then None
      else let len = unat (cfg ! i)
           in if len < 2 \<or> length cfg < i + len then None
              else let ty = cfg ! (i + 1)
                   in if ty = 4 \<and> 9 \<le> len then
                        let iface = (if cfg ! (i + 5) \<noteq> 3 \<or> cfg ! (i + 6) \<noteq> 1 \<or> cfg ! (i + 7) \<noteq> protocol then 0xFF
                                     else cfg ! (i + 2))
                        in hid_walk cfg protocol iface (i + len)
                      else if ty = 5 \<and> 7 \<le> len \<and> iface \<noteq> 0xFF \<and> cfg ! (i + 2) AND 0x80 \<noteq> 0 \<and> cfg ! (i + 3) AND 3 = 3
                      then Some (iface, cfg ! (i + 2), of_le16 (cfg ! (i + 4)) (cfg ! (i + 5)))
                      else hid_walk cfg protocol iface (i + len))"
  by pat_completeness auto
termination
  by (relation "measure (\<lambda>(cfg, protocol, iface, i). length cfg - i)") auto

declare hid_walk.simps [simp del]

definition find_hid_boot_eps :: "bytes \<Rightarrow> u8 \<Rightarrow> (u8 \<times> u8 \<times> u16) option" where
  "find_hid_boot_eps cfg protocol = hid_walk cfg protocol 0 0"

function hub_walk :: "bytes \<Rightarrow> usize \<Rightarrow> bool" where
  "hub_walk cfg i =
     (if length cfg < i + 2 then False
      else let len = unat (cfg ! i)
           in if len < 2 \<or> length cfg < i + len then False
              else if cfg ! (i + 1) = 4 \<and> 9 \<le> len \<and> cfg ! (i + 5) = 9 then True
              else hub_walk cfg (i + len))"
  by pat_completeness auto
termination
  by (relation "measure (\<lambda>(cfg, i). length cfg - i)") auto

declare hub_walk.simps [simp del]

definition config_has_hub_interface :: "bytes \<Rightarrow> bool" where
  "config_has_hub_interface cfg = hub_walk cfg 0"

end
