(* ===== verification/Eve_Html_Css.thy ===== *)
theory Eve_Html_Css
  imports Eve_Prelude
begin

text \<open>
  The scanners of the page reader, the first half of \<open>kernel/src/html.rs\<close>: matching without regard
  to letter case, colours, the declarations of a \<open>style\<close> attribute, the rules of a style sheet, the
  attributes of a tag. A function with a parameter \<open>i: &mut usize\<close> returns the position it leaves
  there beside its result, on every path: callers go on from the position of a failed attempt.

  \<open>i.saturating_add(pat.len()) > s.len()\<close> is written with the sum: a slice is shorter than
  \<open>usize::MAX\<close>, and there the two comparisons agree (\<open>less_saturating_add\<close>).

  The lemmas: what the matchers find, the colours read back from their hexadecimal and decimal
  notation, the bounds of the style values, and that every scan ends.
\<close>

section \<open>Positions\<close>

text \<open>\<open>while i < s.len() && p(s[i]) { i += 1 }\<close>\<close>

function scan_while :: "('a \<Rightarrow> bool) \<Rightarrow> 'a list \<Rightarrow> usize \<Rightarrow> usize" where
  "scan_while p s i = (if i < length s \<and> p (s ! i) then scan_while p s (i + 1) else i)"
  by pat_completeness auto
termination
  by (relation "measure (\<lambda>(p, s, i). length s - i)") auto

declare scan_while.simps [simp del]

lemma scan_while_ge [simp]: "i \<le> scan_while p s i"
proof (induction p s i rule: scan_while.induct)
  case (1 p s i)
  then show ?case by (subst scan_while.simps) auto
qed

lemma scan_while_ge_trans [simp]: "k \<le> i \<Longrightarrow> k \<le> scan_while p s i" "k < i \<Longrightarrow> k < scan_while p s i"
  using scan_while_ge [of i p s] by linarith+

lemma scan_while_le: "i \<le> length s \<Longrightarrow> scan_while p s i \<le> length s"
proof (induction p s i rule: scan_while.induct)
  case (1 p s i)
  then show ?case by (subst scan_while.simps) auto
qed

lemma scan_while_stop: "scan_while p s i < length s \<Longrightarrow> \<not> p (s ! scan_while p s i)"
proof (induction p s i rule: scan_while.induct)
  case (1 p s i)
  show ?case
  proof (cases "i < length s \<and> p (s ! i)")
    case True
    then have step: "scan_while p s i = scan_while p s (i + 1)" by (subst scan_while.simps) simp
    with True 1 show ?thesis by simp
  next
    case False
    then have "scan_while p s i = i" by (subst scan_while.simps) auto
    with False "1.prems" show ?thesis by auto
  qed
qed

lemma scan_while_none: "\<not> p (s ! i) \<Longrightarrow> scan_while p s i = i"
  by (subst scan_while.simps) simp

lemma scan_while_end: "length s \<le> i \<Longrightarrow> scan_while p s i = i"
  by (subst scan_while.simps) simp

text \<open>Scanning depends on the rest of the input only.\<close>

lemma scan_while_shift: "scan_while p (pre @ s) (length pre + i) = length pre + scan_while p s i"
proof (induction p s i rule: scan_while.induct)
  case (1 p s i)
  show ?case
  proof (cases "i < length s \<and> p (s ! i)")
    case True
    then have "scan_while p s i = scan_while p s (i + 1)" by (subst scan_while.simps) simp
    moreover have "scan_while p (pre @ s) (length pre + i) = scan_while p (pre @ s) (length pre + (i + 1))"
      using True by (subst scan_while.simps) (simp add: nth_append)
    ultimately show ?thesis using "1.IH" [OF True] by simp
  next
    case False
    then have "scan_while p s i = i" by (subst scan_while.simps) auto
    moreover have "scan_while p (pre @ s) (length pre + i) = length pre + i"
      using False by (subst scan_while.simps) (auto simp: nth_append)
    ultimately show ?thesis by simp
  qed
qed

lemma scan_while_Cons: "scan_while p (x # s) (Suc i) = Suc (scan_while p s i)"
  using scan_while_shift [of p "[x]" s i] by simp

lemma scan_while_0: "scan_while p s 0 = length (takeWhile p s)"
proof (induction s)
  case Nil
  then show ?case by (simp add: scan_while_end)
next
  case (Cons x s)
  then show ?case by (subst scan_while.simps) (simp add: scan_while_Cons)
qed

lemma scan_while_takeWhile:
  "i \<le> length s \<Longrightarrow> scan_while p s i = i + length (takeWhile p (drop i s))"
  using scan_while_shift [of p "take i s" "drop i s" 0] by (simp add: scan_while_0)

text \<open>A run of matching elements between what precedes it and an element that stops the scan.\<close>

lemma scan_while_run:
  assumes "\<forall>x\<in>set xs. p x" "rest = [] \<or> \<not> p (hd rest)"
  shows "scan_while p (pre @ xs @ rest) (length pre) = length pre + length xs"
proof -
  have "takeWhile p (xs @ rest) = xs"
    using assms by (cases rest) (auto simp: takeWhile_append)
  then show ?thesis by (simp add: scan_while_takeWhile)
qed

section \<open>Letters\<close>

definition to_lower :: "u8 \<Rightarrow> u8" where
  "to_lower c = (if byte CHR ''A'' \<le> c \<and> c \<le> byte CHR ''Z'' then c + 32 else c)"

definition starts_ci :: "bytes \<Rightarrow> usize \<Rightarrow> bytes \<Rightarrow> bool" where
  "starts_ci s i pat =
     (if length s < i + length pat then False
      else list_all (\<lambda>j. to_lower (s ! (i + j)) = pat ! j) [0..<length pat])"

definition find_sub_ci :: "bytes \<Rightarrow> bytes \<Rightarrow> usize option" where
  "find_sub_ci hay needle =
     (if needle = [] \<or> length hay < length needle then None
      else find (\<lambda>start. starts_ci hay start needle) [0..<Suc (length hay - length needle)])"

definition hex_val :: "u8 \<Rightarrow> u8 option" where
  "hex_val c =
     (if byte CHR ''0'' \<le> c \<and> c \<le> byte CHR ''9'' then Some (c - byte CHR ''0'')
      else if byte CHR ''a'' \<le> c \<and> c \<le> byte CHR ''f'' then Some (c - byte CHR ''a'' + 10)
      else if byte CHR ''A'' \<le> c \<and> c \<le> byte CHR ''F'' then Some (c - byte CHR ''A'' + 10)
      else None)"

definition is_ws :: "u8 \<Rightarrow> bool" where
  "is_ws c \<longleftrightarrow> c = 0x20 \<or> c = 0x09 \<or> c = 0x0A \<or> c = 0x0D"

definition skip_ws :: "bytes \<Rightarrow> usize \<Rightarrow> usize" where
  "skip_ws s i = scan_while is_ws s i"

definition is_alnum :: "u8 \<Rightarrow> bool" where
  "is_alnum c \<longleftrightarrow> is_ascii_alpha c \<or> is_ascii_digit c"

section \<open>Colours\<close>

type_synonym rgb = "u8 \<times> u8 \<times> u8"

definition hex_pair :: "u8 \<Rightarrow> u8 \<Rightarrow> u8 option" where
  "hex_pair a b = do { x \<leftarrow> hex_val a; y \<leftarrow> hex_val b; Some (x * 16 + y) }"

definition parse_hex_color :: "bytes \<Rightarrow> usize \<Rightarrow> rgb option \<times> usize" where
  "parse_hex_color s i =
     (if length s \<le> i \<or> s ! i \<noteq> byte CHR ''#'' then (None, i)
      else let start = i + 1;
               i = scan_while (\<lambda>c. hex_val c \<noteq> None) s start;
               n = i - start
           in if n = 6 then
                (do { r \<leftarrow> hex_pair (s ! start) (s ! (start + 1));
                      g \<leftarrow> hex_pair (s ! (start + 2)) (s ! (start + 3));
                      b \<leftarrow> hex_pair (s ! (start + 4)) (s ! (start + 5));
                      Some (r, g, b) }, i)
              else if n = 3 then
                (do { r \<leftarrow> hex_val (s ! start); g \<leftarrow> hex_val (s ! (start + 1)); b \<leftarrow> hex_val (s ! (start + 2));
                      Some (r * 17, g * 17, b * 17) }, i)
              else (None, i))"

definition color_names :: "(bytes \<times> rgb) list" where
  "color_names =
    [(ascii ''red'', (0xcc, 0x22, 0x22)), (ascii ''blue'', (0x22, 0x44, 0xcc)),
     (ascii ''green'', (0x22, 0x88, 0x33)), (ascii ''black'', (0x11, 0x11, 0x11)),
     (ascii ''white'', (0xf0, 0xf0, 0xf0)), (ascii ''gray'', (0x66, 0x66, 0x66)),
     (ascii ''grey'', (0x66, 0x66, 0x66)), (ascii ''purple'', (0x66, 0x22, 0xaa)),
     (ascii ''orange'', (0xee, 0x66, 0x22)), (ascii ''navy'', (0x00, 0x00, 0x80)),
     (ascii ''teal'', (0x00, 0x80, 0x80)), (ascii ''aqua'', (0x00, 0xff, 0xff)),
     (ascii ''cyan'', (0x00, 0xcc, 0xee)), (ascii ''magenta'', (0xcc, 0x00, 0xcc)),
     (ascii ''lime'', (0x66, 0xdd, 0x22)), (ascii ''olive'', (0x80, 0x80, 0x00)),
     (ascii ''maroon'', (0x80, 0x00, 0x00)), (ascii ''silver'', (0xc0, 0xc0, 0xc0)),
     (ascii ''gold'', (0xff, 0xd7, 0x00)), (ascii ''coral'', (0xff, 0x7f, 0x50))]"

text \<open>The name must end where the word ends.\<close>

fun named_loop :: "bytes \<Rightarrow> usize \<Rightarrow> (bytes \<times> rgb) list \<Rightarrow> rgb option \<times> usize" where
  "named_loop s i [] = (None, i)"
| "named_loop s i ((name, rgb) # names) =
     (let e = i + length name
      in if starts_ci s i name \<and> e \<le> length s \<and> (e = length s \<or> \<not> is_alnum (s ! e))
         then (Some rgb, e) else named_loop s i names)"

definition parse_named_color :: "bytes \<Rightarrow> usize \<Rightarrow> rgb option \<times> usize" where
  "parse_named_color s i = named_loop s i color_names"

text \<open>The digit loop with saturating arithmetic; the flag is \<open>any\<close>.\<close>

function number_loop :: "bytes \<Rightarrow> usize \<Rightarrow> u16 \<Rightarrow> bool \<Rightarrow> u16 \<times> bool \<times> usize" where
  "number_loop s i v any =
     (if i < length s \<and> is_ascii_digit (s ! i)
      then number_loop s (i + 1) (sat_add (sat_mul v 10) (ucast (s ! i - byte CHR ''0''))) True
      else (v, any, i))"
  by pat_completeness auto
termination
  by (relation "measure (\<lambda>(s, i, v, any). length s - i)") auto

declare number_loop.simps [simp del]

text \<open>One component: blanks, digits, blanks. \<open>None\<close> is the return when there is no digit.\<close>

definition rgb_component :: "bytes \<Rightarrow> usize \<Rightarrow> u16 option \<times> usize" where
  "rgb_component s i =
     (case number_loop s (skip_ws s i) 0 False of
        (v, any, i) \<Rightarrow> if any then (Some v, skip_ws s i) else (None, i))"

definition rgb_comma :: "bytes \<Rightarrow> usize \<Rightarrow> usize option" where
  "rgb_comma s i = (if length s \<le> i \<or> s ! i \<noteq> byte CHR '','' then None else Some (i + 1))"

text \<open>The alpha value of \<open>rgba\<close> and the closing bracket.\<close>

definition rgb_tail :: "bytes \<Rightarrow> bool \<Rightarrow> usize \<Rightarrow> usize" where
  "rgb_tail s rgba i =
     (let i = (if rgba \<and> i < length s \<and> s ! i = byte CHR '',''
               then scan_while (\<lambda>c. c \<noteq> byte CHR '')'') s (i + 1) else i)
      in if i < length s \<and> s ! i = byte CHR '')'' then i + 1 else i)"

definition rgb_open :: "bytes \<Rightarrow> usize \<Rightarrow> (bool \<times> usize) option" where
  "rgb_open s i =
     (if starts_ci s i (ascii ''rgba('') then Some (True, i + 6)
      else if starts_ci s i (ascii ''rgb('') then Some (False, i + 4)
      else None)"

definition parse_rgb_rgba :: "bytes \<Rightarrow> usize \<Rightarrow> rgb option \<times> usize" where
  "parse_rgb_rgba s i =
     (case rgb_open s i of
        None \<Rightarrow> (None, i)
      | Some (rgba, i) \<Rightarrow>
     (case rgb_component s i of
        (None, i) \<Rightarrow> (None, i)
      | (Some r, i) \<Rightarrow>
     (case rgb_comma s i of
        None \<Rightarrow> (None, i)
      | Some i \<Rightarrow>
     (case rgb_component s i of
        (None, i) \<Rightarrow> (None, i)
      | (Some g, i) \<Rightarrow>
     (case rgb_comma s i of
        None \<Rightarrow> (None, i)
      | Some i \<Rightarrow>
     (case rgb_component s i of
        (None, i) \<Rightarrow> (None, i)
      | (Some b, i) \<Rightarrow>
          (Some (ucast (min r 255), ucast (min g 255), ucast (min b 255)), rgb_tail s rgba i)))))))"

definition parse_color_after_colon :: "bytes \<Rightarrow> usize \<Rightarrow> rgb option \<times> usize" where
  "parse_color_after_colon s i =
     (let i = skip_ws s i
      in case parse_rgb_rgba s i of
           (Some rgb, i) \<Rightarrow> (Some rgb, i)
         | (None, i) \<Rightarrow>
             if i < length s \<and> s ! i = byte CHR ''#'' then parse_hex_color s i
             else parse_named_color s i)"

section \<open>Style sheet colours\<close>

record css_hints =
  hint_body :: rgb
  hint_h1 :: rgb
  hint_h2 :: rgb
  hint_link :: rgb
  has_body :: bool
  has_h1 :: bool
  has_h2 :: bool

text \<open>What the window of 192 bytes at \<open>i\<close> says.\<close>

definition color_window :: "bytes \<Rightarrow> usize \<Rightarrow> css_hints \<Rightarrow> css_hints" where
  "color_window css i hints =
     (let win = slice css i (min (i + 192) (length css))
      in case find_sub_ci win (ascii ''color'') of
           None \<Rightarrow> hints
         | Some ci \<Rightarrow>
             let j = skip_ws css (i + ci + 5)
             in if j < length css \<and> css ! j = byte CHR '':'' then
                  (case fst (parse_color_after_colon css (j + 1)) of
                     None \<Rightarrow> hints
                   | Some rgb \<Rightarrow>
                       if find_sub_ci win (ascii ''h1'') \<noteq> None
                       then hints\<lparr> hint_h1 := rgb, has_h1 := True \<rparr>
                       else if find_sub_ci win (ascii ''h2'') \<noteq> None
                       then hints\<lparr> hint_h2 := rgb, has_h2 := True \<rparr>
                       else if find_sub_ci win (ascii ''body'') \<noteq> None
                       then hints\<lparr> hint_body := rgb, has_body := True \<rparr>
                       else if find_sub_ci win (ascii ''a'') \<noteq> None \<or> find_sub_ci win (ascii ''a '') \<noteq> None
                       then hints\<lparr> hint_link := rgb \<rparr>
                       else hints)
                else hints)"

function color_windows :: "bytes \<Rightarrow> usize \<Rightarrow> css_hints \<Rightarrow> css_hints" where
  "color_windows css i hints =
     (if i < length css then color_windows css (i + 32) (color_window css i hints) else hints)"
  by pat_completeness auto
termination
  by (relation "measure (\<lambda>(css, i, hints). length css - i)") auto

declare color_windows.simps [simp del]

definition scan_style_for_colors :: "bytes \<Rightarrow> css_hints \<Rightarrow> css_hints" where
  "scan_style_for_colors css hints = color_windows css 0 hints"

section \<open>Declarations\<close>

datatype display_hint = Inherit | Block | Inline | Hidden

record box_style =
  bs_color :: "rgb option"
  bs_display :: display_hint
  margin_left :: u8
  padding_left :: u8
  margin_top :: u8
  margin_bottom :: u8
  padding_top :: u8
  padding_bottom :: u8
  width_chars :: "u8 option"

definition box_style_empty :: box_style where
  "box_style_empty = \<lparr> bs_color = None, bs_display = Inherit, margin_left = 0, padding_left = 0,
     margin_top = 0, margin_bottom = 0, padding_top = 0, padding_bottom = 0, width_chars = None \<rparr>"

text \<open>The unit is a letter: \<open>p\<close> for px, \<open>c\<close> for ch, \<open>%\<close>, and \<open>n\<close> for none.\<close>

definition parse_css_number_unit :: "bytes \<Rightarrow> usize \<Rightarrow> (u16 \<times> u8) option \<times> usize" where
  "parse_css_number_unit s i =
     (case number_loop s (skip_ws s i) 0 False of
        (v, any, i) \<Rightarrow>
          if \<not> any then (None, i)
          else if starts_ci s i (ascii ''px'') then (Some (v, byte CHR ''p''), i + 2)
          else if starts_ci s i (ascii ''ch'') then (Some (v, byte CHR ''c''), i + 2)
          else if i < length s \<and> s ! i = byte CHR ''%'' then (Some (v, byte CHR ''%''), i + 1)
          else (Some (v, byte CHR ''n''), i))"

definition px_to_spaces :: "u16 \<Rightarrow> u8" where
  "px_to_spaces px =
     (if 64 \<le> px then 8 else if 48 \<le> px then 6 else if 32 \<le> px then 4 else if 16 \<le> px then 2 else 0)"

definition px_to_blank_lines :: "u16 \<Rightarrow> u8" where
  "px_to_blank_lines px = (if 40 \<le> px then 2 else if 16 \<le> px then 1 else 0)"

abbreviation (input) "BROWSER_LINE_CAP \<equiv> 96 :: nat"
abbreviation (input) "BROWSER_MAX_LINES \<equiv> 128 :: nat"

definition css_width :: "usize \<Rightarrow> u16 \<times> u8 \<Rightarrow> u8" where
  "css_width line_cap = (\<lambda>(v, unit).
     let w = (if unit = byte CHR ''c'' then v
              else if unit = byte CHR ''%'' then max (sat_mul (of_nat line_cap) v div 100) 8
              else max (v div 6) 8)
     in ucast (min w 96))"

definition number_decl ::
  "bytes \<Rightarrow> usize \<Rightarrow> (u16 \<times> u8 \<Rightarrow> box_style \<Rightarrow> box_style) \<Rightarrow> box_style \<Rightarrow> box_style \<times> usize" where
  "number_decl style i upd out =
     (case parse_css_number_unit style i of
        (Some vu, i) \<Rightarrow> (upd vu out, i) | (None, i) \<Rightarrow> (out, i))"

definition display_decl :: "bytes \<Rightarrow> usize \<Rightarrow> box_style \<Rightarrow> box_style \<times> usize" where
  "display_decl style i out =
     (if starts_ci style i (ascii ''none'') then (out\<lparr> bs_display := Hidden \<rparr>, i + 4)
      else if starts_ci style i (ascii ''block'') then (out\<lparr> bs_display := Block \<rparr>, i + 5)
      else if starts_ci style i (ascii ''inline'') then (out\<lparr> bs_display := Inline \<rparr>, i + 6)
      else (out, i))"

text \<open>One declaration: the chain of property names, tested in the order of the source.\<close>

definition apply_decl :: "bytes \<Rightarrow> usize \<Rightarrow> bytes \<Rightarrow> usize \<Rightarrow> box_style \<Rightarrow> box_style \<times> usize" where
  "apply_decl style line_cap key i out =
     (if length key = 5 \<and> starts_ci key 0 (ascii ''color'') then
        (case parse_color_after_colon style i of (c, i) \<Rightarrow> (out\<lparr> bs_color := c \<rparr>, i))
      else if length key = 7 \<and> starts_ci key 0 (ascii ''display'') then display_decl style i out
      else if starts_ci key 0 (ascii ''margin-left'') then
        number_decl style i (\<lambda>(v, _) out. out\<lparr> margin_left := px_to_spaces v \<rparr>) out
      else if starts_ci key 0 (ascii ''padding-left'') then
        number_decl style i (\<lambda>(v, _) out. out\<lparr> padding_left := px_to_spaces v \<rparr>) out
      else if starts_ci key 0 (ascii ''margin-top'') then
        number_decl style i (\<lambda>(v, _) out. out\<lparr> margin_top := px_to_blank_lines v \<rparr>) out
      else if starts_ci key 0 (ascii ''margin-bottom'') then
        number_decl style i (\<lambda>(v, _) out. out\<lparr> margin_bottom := px_to_blank_lines v \<rparr>) out
      else if starts_ci key 0 (ascii ''padding-top'') then
        number_decl style i (\<lambda>(v, _) out. out\<lparr> padding_top := px_to_blank_lines v \<rparr>) out
      else if starts_ci key 0 (ascii ''padding-bottom'') then
        number_decl style i (\<lambda>(v, _) out. out\<lparr> padding_bottom := px_to_blank_lines v \<rparr>) out
      else if length key = 5 \<and> starts_ci key 0 (ascii ''width'') then
        number_decl style i (\<lambda>vu out. out\<lparr> width_chars := Some (css_width line_cap vu) \<rparr>) out
      else (out, i))"

text \<open>One turn of the loop: the key, the colon, the value, up to and over the semicolon.\<close>

definition style_turn :: "bytes \<Rightarrow> usize \<Rightarrow> usize \<Rightarrow> box_style \<Rightarrow> box_style \<times> usize" where
  "style_turn style line_cap i out =
     (let key_start = skip_ws style i;
          key_end = scan_while (\<lambda>c. is_ascii_alpha c \<or> c = byte CHR ''-'') style key_start;
          key = slice style key_start key_end;
          i = skip_ws style key_end;
          to_semi = scan_while (\<lambda>c. c \<noteq> byte CHR '';'') style
      in if length style \<le> i \<or> style ! i \<noteq> byte CHR '':'' then (out, to_semi i + 1)
         else case apply_decl style line_cap key (skip_ws style (i + 1)) out of
                (out, i) \<Rightarrow> (out, to_semi i + 1))"

text \<open>No scanner moves its position back.\<close>

lemma skip_ws_ge [simp]:
  "i \<le> skip_ws s i" "k \<le> i \<Longrightarrow> k \<le> skip_ws s i" "k < i \<Longrightarrow> k < skip_ws s i"
  by (simp_all add: skip_ws_def)

lemma named_loop_ge: "i \<le> snd (named_loop s i names)"
  by (induction names) (auto simp: Let_def)

lemma parse_named_color_ge: "i \<le> snd (parse_named_color s i)"
  by (simp add: parse_named_color_def named_loop_ge)

lemma parse_hex_color_ge: "i \<le> snd (parse_hex_color s i)"
  by (simp add: parse_hex_color_def Let_def)

lemma number_loop_ge: "i \<le> snd (snd (number_loop s i v any))"
proof (induction s i v any rule: number_loop.induct)
  case (1 s i v any)
  then show ?case by (subst number_loop.simps) auto
qed

lemma rgb_component_ge: "rgb_component s i = (r, k) \<Longrightarrow> i \<le> k"
proof -
  assume r: "rgb_component s i = (r, k)"
  obtain v any j where n: "number_loop s (skip_ws s i) 0 False = (v, any, j)"
    by (cases "number_loop s (skip_ws s i) 0 False") auto
  have "i \<le> j"
    using number_loop_ge [of "skip_ws s i" s 0 False] n by (auto intro: le_trans [OF skip_ws_ge(1)])
  with r n show ?thesis by (auto simp: rgb_component_def split: if_splits)
qed

lemma rgb_comma_ge: "rgb_comma s i = Some k \<Longrightarrow> i \<le> k"
  by (auto simp: rgb_comma_def split: if_splits)

lemma rgb_tail_ge: "i \<le> rgb_tail s rgba i"
  by (simp add: rgb_tail_def Let_def le_SucI)

lemma parse_rgb_rgba_ge: "i \<le> snd (parse_rgb_rgba s i)"
  by (auto simp: parse_rgb_rgba_def rgb_open_def split: option.split prod.split
      dest!: rgb_component_ge rgb_comma_ge intro: le_trans [OF _ rgb_tail_ge])

lemma parse_color_after_colon_ge: "i \<le> snd (parse_color_after_colon s i)"
proof -
  obtain c j where p: "parse_rgb_rgba s (skip_ws s i) = (c, j)" by fastforce
  have "i \<le> j"
    using parse_rgb_rgba_ge [of "skip_ws s i" s] p by (auto intro: le_trans [OF skip_ws_ge(1)])
  moreover have "j \<le> snd (parse_hex_color s j)" "j \<le> snd (parse_named_color s j)"
    by (rule parse_hex_color_ge parse_named_color_ge)+
  ultimately show ?thesis
    using p by (auto simp: parse_color_after_colon_def Let_def split: option.splits)
qed

lemma parse_css_number_unit_ge: "i \<le> snd (parse_css_number_unit s i)"
proof -
  obtain v any j where n: "number_loop s (skip_ws s i) 0 False = (v, any, j)"
    by (cases "number_loop s (skip_ws s i) 0 False") auto
  have "i \<le> j"
    using n number_loop_ge [of "skip_ws s i" s 0 False] by (auto intro: le_trans [OF skip_ws_ge(1)])
  with n show ?thesis by (simp add: parse_css_number_unit_def)
qed

lemma number_decl_ge: "i \<le> snd (number_decl style i upd out)"
  using parse_css_number_unit_ge [of i style]
  by (auto simp: number_decl_def split: prod.splits option.splits)

lemma apply_decl_ge: "i \<le> snd (apply_decl style line_cap key i out)"
  using parse_color_after_colon_ge [of i style]
  by (auto simp: apply_decl_def number_decl_ge display_decl_def split: prod.split)

lemma style_turn_gt: "i < snd (style_turn style line_cap i out)"
proof -
  define ks where "ks = skip_ws style i"
  define ke where "ke = scan_while (\<lambda>c. is_ascii_alpha c \<or> c = byte CHR ''-'') style ks"
  define j where "j = skip_ws style ke"
  define semi where "semi = scan_while (\<lambda>c. c \<noteq> byte CHR '';'') style"
  have "i \<le> j"
    by (simp add: j_def ke_def ks_def)
  moreover have "k \<le> semi k" for k by (simp add: semi_def)
  moreover have "j \<le> snd (apply_decl style line_cap key (skip_ws style (j + 1)) out)" for key
    using apply_decl_ge [of "skip_ws style (j + 1)" style line_cap key out] skip_ws_ge(1) [of "j + 1" style]
    by linarith
  ultimately show ?thesis
    unfolding style_turn_def Let_def ks_def [symmetric] ke_def [symmetric] j_def [symmetric]
      semi_def [symmetric]
    by (simp split: prod.split add: less_Suc_eq_le) (metis le_trans snd_conv)
qed

function style_loop :: "bytes \<Rightarrow> usize \<Rightarrow> usize \<Rightarrow> box_style \<Rightarrow> box_style" where
  "style_loop style line_cap i out =
     (if i < length style
      then case style_turn style line_cap i out of (out, i) \<Rightarrow> style_loop style line_cap i out
      else out)"
  by pat_completeness auto
termination
proof (relation "measure (\<lambda>(style, line_cap, i, out). length style - i)", goal_cases)
  case (2 style line_cap i out x y)
  with style_turn_gt [of i style line_cap out] show ?case by (cases "style_turn style line_cap i out") auto
qed simp

declare style_loop.simps [simp del]

definition parse_inline_box_style :: "bytes \<Rightarrow> usize \<Rightarrow> box_style" where
  "parse_inline_box_style style line_cap = style_loop style line_cap 0 box_style_empty"

section \<open>Tags and attributes\<close>

definition looks_like_html :: "bytes \<Rightarrow> bool" where
  "looks_like_html raw =
     (let head = take (min (length raw) 512) raw
      in list_ex (\<lambda>pat. find_sub_ci head pat \<noteq> None)
           [ascii ''<!doctype html'', ascii ''<html'', ascii ''<head'', ascii ''<body'', ascii ''<div'',
            ascii ''<section'', ascii ''<article'', ascii ''<main'', ascii ''<canvas'', ascii ''<p>'',
            ascii ''<br''])"

text \<open>
  The value that starts at \<open>j\<close>: in quotes up to the same quote, else up to a blank or \<open>>\<close>. The
  source has this block in \<open>extract_attr_value\<close> and in \<open>tag_href_value_dangerous\<close>.
\<close>

definition attr_value_at :: "bytes \<Rightarrow> usize \<Rightarrow> bytes" where
  "attr_value_at tag j =
     (if tag ! j = byte CHR ''\"'' \<or> tag ! j = 0x27
      then slice tag (j + 1) (scan_while (\<lambda>c. c \<noteq> tag ! j) tag (j + 1))
      else slice tag j (scan_while (\<lambda>c. \<not> (is_ws c \<or> c = byte CHR ''>'')) tag j))"

definition extract_attr_value :: "bytes \<Rightarrow> bytes \<Rightarrow> bytes option" where
  "extract_attr_value tag key =
     (case find_sub_ci tag key of
        None \<Rightarrow> None
      | Some pos \<Rightarrow>
          let j = skip_ws tag (pos + length key)
          in if length tag \<le> j \<or> tag ! j \<noteq> byte CHR ''='' then None
             else let j = skip_ws tag (j + 1)
                  in if length tag \<le> j then None else Some (attr_value_at tag j))"

fun trim_attr_back :: "bytes \<Rightarrow> usize \<Rightarrow> usize \<Rightarrow> usize" where
  "trim_attr_back val a 0 = 0"
| "trim_attr_back val a (Suc b) =
     (if a < Suc b \<and> is_ws (val ! b) then trim_attr_back val a b else Suc b)"

definition trim_ascii_attr :: "bytes \<Rightarrow> bytes" where
  "trim_ascii_attr val =
     (let a = scan_while is_ws val 0 in slice val a (trim_attr_back val a (length val)))"

definition script_mime_is_non_javascript :: "bytes \<Rightarrow> bool" where
  "script_mime_is_non_javascript tag =
     (case extract_attr_value tag (ascii ''type'') of
        None \<Rightarrow> False
      | Some typ \<Rightarrow>
          let t = trim_ascii_attr typ
          in if t = [] then False
             else if starts_ci t 0 (ascii ''application/javascript'') \<or> starts_ci t 0 (ascii ''text/javascript'')
             then False
             else if list_ex (starts_ci t 0)
               [ascii ''application/ld+json'', ascii ''application/json'', ascii ''application/importmap+json'',
                ascii ''application/speculationrules+json'', ascii ''text/plain'', ascii ''text/markdown'',
                ascii ''text/template'', ascii ''text/css'', ascii ''text/html'', ascii ''application/graphql'']
             then True
             else if starts_ci t 0 (ascii ''application/'') \<and> find_sub_ci t (ascii ''+json'') \<noteq> None then True
             else if starts_ci t 0 (ascii ''text/'') \<and> find_sub_ci t (ascii ''+json'') \<noteq> None then True
             else False)"

definition tag_href_value_dangerous :: "bytes \<Rightarrow> bool" where
  "tag_href_value_dangerous tag =
     (case find_sub_ci tag (ascii ''href'') of
        None \<Rightarrow> False
      | Some hi \<Rightarrow>
          let after = hi + 4
          in if after < length tag
                \<and> (is_alnum (tag ! after) \<or> tag ! after = byte CHR ''-'' \<or> tag ! after = byte CHR ''_'')
             then False
             else let j = skip_ws tag after
                  in if length tag \<le> j \<or> tag ! j \<noteq> byte CHR ''='' then False
                     else let j = skip_ws tag (j + 1)
                          in if length tag \<le> j then False
                             else let val = attr_value_at tag j
                                  in starts_ci val 0 (ascii ''javascript:'')
                                     \<or> starts_ci val 0 (ascii ''vbscript:'')
                                     \<or> starts_ci val 0 (ascii ''data:''))"

section \<open>Style rules\<close>

datatype selector_kind = Tag_Sel | Class_Sel | Id_Sel

record style_rule =
  rule_kind :: selector_kind
  rule_name :: bytes
  rule_name_len :: u8
  rule_style :: box_style

definition style_rule_empty :: style_rule where
  "style_rule_empty = \<lparr> rule_kind = Tag_Sel, rule_name = replicate 24 0, rule_name_len = 0,
     rule_style = box_style_empty \<rparr>"

definition copy_name_lower :: "bytes \<Rightarrow> bytes \<Rightarrow> bytes \<times> usize" where
  "copy_name_lower dst src =
     (let n = min (length src) (length dst) in (put_at dst 0 (map to_lower (take n src)), n))"

definition is_name_byte :: "u8 \<Rightarrow> bool" where
  "is_name_byte c \<longleftrightarrow> is_alnum c \<or> c = byte CHR ''-'' \<or> c = byte CHR ''_''"

text \<open>The rule of a selector and its declarations; \<open>None\<close> where the loop goes on without one.\<close>

definition rule_of :: "bytes \<Rightarrow> bytes \<Rightarrow> usize \<Rightarrow> style_rule option" where
  "rule_of selector decl line_cap =
     (let sel_i = skip_ws selector 0
      in if length selector \<le> sel_i then None
         else let kind = (if selector ! sel_i = byte CHR ''.'' then Class_Sel
                          else if selector ! sel_i = byte CHR ''#'' then Id_Sel else Tag_Sel);
                  name_start = (if kind = Tag_Sel then sel_i else sel_i + 1);
                  name = slice selector name_start (scan_while is_name_byte selector name_start)
              in if name = [] then None
                 else case copy_name_lower (rule_name style_rule_empty) name of
                        (nm, n) \<Rightarrow> Some \<lparr> rule_kind = kind, rule_name = nm, rule_name_len = of_nat n,
                                         rule_style = parse_inline_box_style decl line_cap \<rparr>)"

text \<open>The next block: selector, declarations and the position after it; \<open>None\<close> is \<open>break\<close>.\<close>

definition next_block :: "bytes \<Rightarrow> usize \<Rightarrow> (bytes \<times> bytes \<times> usize) option" where
  "next_block css i =
     (let selector_start = skip_ws css i
      in if length css \<le> selector_start then None
         else let sel_end = scan_while (\<lambda>c. c \<noteq> byte CHR ''{'') css selector_start
              in if length css \<le> sel_end then None
                 else let decl_start = sel_end + 1;
                          decl_end = scan_while (\<lambda>c. c \<noteq> byte CHR ''}'') css decl_start
                      in Some (slice css selector_start sel_end,
                               slice css decl_start (min decl_end (length css)),
                               if decl_end < length css then decl_end + 1 else decl_end))"

lemma next_block_gt: "next_block css i = Some (sel, decl, k) \<Longrightarrow> i < k"
  by (auto simp: next_block_def Let_def less_Suc_eq_le le_SucI split: if_splits)

function rules_loop ::
  "bytes \<Rightarrow> usize \<Rightarrow> usize \<Rightarrow> style_rule list \<Rightarrow> usize \<Rightarrow> style_rule list \<times> usize" where
  "rules_loop css line_cap i rules rule_count =
     (if i < length css \<and> rule_count < length rules then
        (case next_block css i of
           None \<Rightarrow> (rules, rule_count)
         | Some (selector, decl, i) \<Rightarrow>
             (case rule_of selector decl line_cap of
                None \<Rightarrow> rules_loop css line_cap i rules rule_count
              | Some rule \<Rightarrow> rules_loop css line_cap i (rules[rule_count := rule]) (rule_count + 1)))
      else (rules, rule_count))"
  by pat_completeness auto
termination
  by (relation "measure (\<lambda>(css, line_cap, i, rules, rule_count). length css - i)")
    (auto dest!: next_block_gt)

declare rules_loop.simps [simp del]

definition scan_style_rules :: "bytes \<Rightarrow> style_rule list \<Rightarrow> usize \<Rightarrow> usize \<Rightarrow> style_rule list \<times> usize" where
  "scan_style_rules css rules rule_count line_cap = rules_loop css line_cap 0 rules rule_count"

text \<open>One word of the class list per turn.\<close>

function class_matches_from :: "bytes \<Rightarrow> bytes \<Rightarrow> usize \<Rightarrow> bool" where
  "class_matches_from class_attr name i =
     (if i < length class_attr then
        let start = scan_while is_ascii_whitespace class_attr i;
            i' = scan_while (\<lambda>c. \<not> is_ascii_whitespace c) class_attr start;
            token = slice class_attr start i'
        in if length token = length name
              \<and> list_all (\<lambda>k. to_lower (token ! k) = name ! k) [0..<length name]
           then True
           else class_matches_from class_attr name i'
      else False)"
  by pat_completeness auto
termination
proof (relation "measure (\<lambda>(class_attr, name, i). length class_attr - i)", goal_cases)
  case (2 class_attr name i start i' token)
  have "i < i'"
  proof (cases "is_ascii_whitespace (class_attr ! i)")
    case True
    then have "start = scan_while is_ascii_whitespace class_attr (i + 1)"
      using 2 by (subst (asm) scan_while.simps) simp
    then have "i + 1 \<le> start" by simp
    with 2 show ?thesis using scan_while_ge [of start "\<lambda>c. \<not> is_ascii_whitespace c" class_attr] by simp
  next
    case False
    then have "start = i" using 2 by (simp add: scan_while_none)
    then have "i' = scan_while (\<lambda>c. \<not> is_ascii_whitespace c) class_attr (i + 1)"
      using 2 False by (subst (asm) (2) scan_while.simps) simp
    then have "i + 1 \<le> i'" by simp
    then show ?thesis by simp
  qed
  with 2 show ?case by auto
qed simp

declare class_matches_from.simps [simp del]

definition class_matches :: "bytes \<Rightarrow> bytes \<Rightarrow> bool" where
  "class_matches class_attr name = class_matches_from class_attr name 0"

section \<open>What the matchers find\<close>

lemma starts_ci_eq:
  "pat \<noteq> [] \<Longrightarrow> starts_ci s i pat \<longleftrightarrow> map to_lower (take (length pat) (drop i s)) = pat"
proof (cases "length s < i + length pat")
  case True
  assume "pat \<noteq> []"
  then have "length (map to_lower (take (length pat) (drop i s))) < length pat"
    using True by (cases "length s \<le> i") auto
  with True show ?thesis by (metis starts_ci_def less_irrefl)
next
  case False
  then show ?thesis by (subst list_eq_iff_nth_eq) (auto simp: starts_ci_def list_all_iff)
qed

lemma starts_ci_0_eq: "starts_ci s 0 pat \<longleftrightarrow> map to_lower (take (length pat) s) = pat"
  by (cases "pat = []") (simp_all add: starts_ci_eq, simp add: starts_ci_def)

lemma starts_ci_shift: "starts_ci (pre @ s) (length pre + i) pat = starts_ci s i pat"
  by (auto simp: starts_ci_def list_all_iff nth_append add.assoc)

lemma starts_ci_drop: "i \<le> length s \<Longrightarrow> starts_ci (drop i s) j pat = starts_ci s (i + j) pat"
  using starts_ci_shift [of "take i s" "drop i s" j pat] by simp

lemma starts_ci_append: "map to_lower p = pat \<Longrightarrow> starts_ci (p @ s) 0 pat"
  by (auto simp: starts_ci_0_eq)

lemma starts_ci_bound: "starts_ci s i pat \<Longrightarrow> i + length pat \<le> length s"
  by (auto simp: starts_ci_def split: if_splits)

lemma find_upt: "find P [0..<n] = Some k \<longleftrightarrow> k < n \<and> P k \<and> (\<forall>j<k. \<not> P j)"
  by (auto simp: find_Some_iff)

lemma find_sub_ci_Some:
  assumes "needle \<noteq> []"
  shows "find_sub_ci hay needle = Some k \<longleftrightarrow>
    starts_ci hay k needle \<and> (\<forall>j<k. \<not> starts_ci hay j needle)"
proof (cases "length hay < length needle")
  case True
  then show ?thesis using starts_ci_bound [of hay k needle] by (auto simp: find_sub_ci_def)
next
  case False
  with assms show ?thesis
    using starts_ci_bound [of hay k needle]
    by (auto simp: find_sub_ci_def find_upt less_Suc_eq_le simp del: upt_Suc)
qed

lemma find_sub_ci_None:
  "needle \<noteq> [] \<Longrightarrow> find_sub_ci hay needle = None \<longleftrightarrow> (\<forall>j. \<not> starts_ci hay j needle)"
  using starts_ci_bound [of hay _ needle]
  by (simp add: find_sub_ci_def find_None_iff less_Suc_eq_le del: upt_Suc)
    (metis add.commute add_leD1 le_diff_conv2 not_less)

lemma find_sub_ci_bound: "find_sub_ci hay needle = Some k \<Longrightarrow> k + length needle \<le> length hay"
  by (cases "needle = []") (auto simp: find_sub_ci_Some dest: starts_ci_bound, simp add: find_sub_ci_def)

text \<open>What is not in a text is in none of its ends.\<close>

lemma find_sub_ci_drop_None: "find_sub_ci s pat = None \<Longrightarrow> find_sub_ci (drop k s) pat = None"
proof (cases "pat = [] \<or> length s \<le> k")
  case True
  then show ?thesis by (auto simp: find_sub_ci_def)
next
  case False
  assume "find_sub_ci s pat = None"
  with False show ?thesis by (simp add: find_sub_ci_None starts_ci_drop)
qed

text \<open>The first closing mark after a text that does not run into it.\<close>

lemma find_sub_ci_first:
  assumes "pat \<noteq> []" "map to_lower p = pat" "\<forall>j<length body. \<not> starts_ci (body @ p @ rest) j pat"
  shows "find_sub_ci (body @ p @ rest) pat = Some (length body)"
  using assms starts_ci_shift [of body "p @ rest" 0 pat] starts_ci_append [of p pat rest]
  by (simp add: find_sub_ci_Some)

section \<open>Colours read back\<close>

definition hex_digit :: "bool \<Rightarrow> nat \<Rightarrow> u8" where
  "hex_digit upper d = (if d < 10 then 0x30 + of_nat d else (if upper then 0x37 else 0x57) + of_nat d)"

lemma hex_digit_cases: "d < (16 :: nat) \<Longrightarrow>
    d = 0 \<or> d = 1 \<or> d = 2 \<or> d = 3 \<or> d = 4 \<or> d = 5 \<or> d = 6 \<or> d = 7 \<or> d = 8 \<or> d = 9
    \<or> d = 10 \<or> d = 11 \<or> d = 12 \<or> d = 13 \<or> d = 14 \<or> d = 15"
  by arith

lemma hex_val_hex_digit [simp]: "d < 16 \<Longrightarrow> hex_val (hex_digit upper d) = Some (of_nat d)"
  by (cases upper; drule hex_digit_cases; elim disjE) (simp_all add: hex_digit_def hex_val_def)

definition hex2 :: "bool \<Rightarrow> u8 \<Rightarrow> bytes" where
  "hex2 upper w = [hex_digit upper (unat w div 16), hex_digit upper (unat w mod 16)]"

lemma nibbles [simp]: "of_nat (unat w div 16) * 16 + of_nat (unat w mod 16) = (w :: u8)"
proof -
  have "w = of_nat (unat w div 16 * 16 + unat w mod 16)" by (simp only: div_mult_mod_eq) simp
  then show ?thesis by (metis of_nat_add of_nat_mult of_nat_numeral)
qed

lemma u8_div16 [simp]: "unat (w :: u8) div 16 < 16"
  using unat_u8_less [of w] by (simp add: less_mult_imp_div_less)

definition hex_color :: "bool \<Rightarrow> rgb \<Rightarrow> bytes" where
  "hex_color upper = (\<lambda>(r, g, b). 0x23 # hex2 upper r @ hex2 upper g @ hex2 upper b)"

text \<open>A hexadecimal colour is read back and the position is after it.\<close>

lemma parse_hex_color_hex:
  assumes "rest = [] \<or> hex_val (hd rest) = None"
  shows "parse_hex_color (pre @ hex_color u c @ rest) (length pre) = (Some c, length pre + 7)"
proof -
  obtain r g b where c: "c = (r, g, b)" by (cases c)
  let ?ds = "hex2 u r @ hex2 u g @ hex2 u b"
  define s where "s = pre @ hex_color u c @ rest"
  have s: "s = (pre @ [0x23]) @ ?ds @ rest" by (simp add: s_def c hex_color_def)
  have digits: "\<forall>x\<in>set ?ds. hex_val x \<noteq> None" by (simp add: hex2_def)
  have scan: "scan_while (\<lambda>c. hex_val c \<noteq> None) s (length pre + 1) = length pre + 7"
    using scan_while_run [OF digits, of rest "pre @ [0x23]"] assms unfolding s
    by (simp add: hex2_def)
  have six: "length ?ds = 6" by (simp add: hex2_def)
  have nth: "s ! (length pre + 1 + k) = ?ds ! k" if "k < 6" for k
    using that nth_append_length_plus [of "pre @ [0x23]" "?ds @ rest" k] nth_append_left [of k ?ds rest]
    unfolding s six by simp
  have "s ! length pre = 0x23" unfolding s by (simp add: nth_append)
  moreover have "length pre < length s" by (simp add: s)
  ultimately have "parse_hex_color s (length pre) = (Some c, length pre + 7)"
    unfolding parse_hex_color_def Let_def
    using scan nth [of 0] nth [of 1] nth [of 2] nth [of 3] nth [of 4] nth [of 5]
    by (simp add: hex_pair_def hex2_def c)
  then show ?thesis by (simp add: s_def)
qed

text \<open>The digit loop computes the number, capped at the largest \<open>u16\<close>.\<close>

lemma number_step:
  assumes "is_ascii_digit c" "unat v = min n 65535"
  shows "unat (sat_add (sat_mul v 10) (ucast (c - byte CHR ''0'')) :: u16) = min (n * 10 + unat (c - 0x30)) 65535"
proof -
  have c: "unat (c - 0x30) \<le> 9"
    using assms(1) by (auto simp: is_ascii_digit_def unat_sub word_le_nat_alt)
  have "unat (sat_mul v 10) = min (unat v * 10) 65535"
    by (simp add: sat_mul_def unat_word_ariths unsigned_minus_1_eq_mask mask_eq_exp_minus_1)
  moreover have "unat (ucast (c - 0x30) :: u16) = unat (c - 0x30)"
    using c by (simp add: unsigned_ucast_eq take_bit_nat_eq_self)
  ultimately show ?thesis
    using c assms(2) by (simp add: unat_sat_add)
qed

lemma number_loop_run:
  assumes "\<forall>c\<in>set ds. is_ascii_digit c" "rest = [] \<or> \<not> is_ascii_digit (hd rest)" "unat v = min n 65535"
  obtains w where "number_loop (pre @ ds @ rest) (length pre) v any = (w, any \<or> ds \<noteq> [], length pre + length ds)"
    and "unat w = min (dec_value n ds) 65535"
  using assms
proof (induction ds arbitrary: pre v n any thesis)
  case Nil
  have "number_loop (pre @ rest) (length pre) v any = (v, any, length pre)"
    using Nil.prems(3) by (subst number_loop.simps) (auto simp: nth_append hd_conv_nth)
  with Nil.prems show ?case by (simp add: dec_value_def)
next
  case (Cons c ds)
  let ?v = "sat_add (sat_mul v 10) (ucast (c - byte CHR ''0'')) :: u16"
  have v: "unat ?v = min (n * 10 + unat (c - 0x30)) 65535"
    using Cons.prems by (intro number_step) auto
  have step: "number_loop (pre @ (c # ds) @ rest) (length pre) v any
      = number_loop ((pre @ [c]) @ ds @ rest) (length (pre @ [c])) ?v True"
    using Cons.prems(2) by (subst number_loop.simps) (simp add: nth_append)
  obtain w where "number_loop ((pre @ [c]) @ ds @ rest) (length (pre @ [c])) ?v True
      = (w, True \<or> ds \<noteq> [], length (pre @ [c]) + length ds)"
    "unat w = min (dec_value (n * 10 + unat (c - 0x30)) ds) 65535"
    using Cons.IH [OF _ _ Cons.prems(3) v, of "pre @ [c]" True] Cons.prems(2) by auto
  then show ?case using Cons.prems(1) [of w] step by (simp add: dec_value_def)
qed

lemma skip_ws_none: "\<not> is_ws (s ! i) \<Longrightarrow> skip_ws s i = i"
  by (simp add: skip_ws_def scan_while_none)

lemma digit_not_ws: "is_ascii_digit c \<Longrightarrow> \<not> is_ws c"
  by (auto simp: is_ascii_digit_def is_ws_def)

lemma hd_dec_of_digit: "is_ascii_digit (hd (dec_of n))"
  using dec_of_digits [of n] dec_of_not_Nil [of n] by (metis hd_in_set)

text \<open>A decimal component and the byte after it, which is neither a digit nor blank.\<close>

lemma rgb_component_dec:
  assumes "\<not> is_ascii_digit c" "\<not> is_ws c"
  obtains w where "rgb_component (pre @ dec_of n @ c # rest) (length pre) = (Some w, length pre + length (dec_of n))"
    and "ucast (min w 255) = (of_nat (min n 255) :: u8)"
proof -
  define s where "s = pre @ dec_of n @ c # rest"
  obtain w where w: "number_loop s (length pre) 0 False = (w, True, length pre + length (dec_of n))"
    and "unat w = min n 65535"
    using number_loop_run [OF dec_of_digits, of "c # rest" 0 0 pre n False] assms(1) by (auto simp: s_def)
  then have u: "unat (min w 255) = min n 255" by (simp add: min_def word_le_nat_alt)
  have "s ! length pre = hd (dec_of n)" by (simp add: s_def nth_append hd_conv_nth)
  then have "skip_ws s (length pre) = length pre"
    by (simp add: skip_ws_none digit_not_ws hd_dec_of_digit)
  moreover have "s ! (length pre + length (dec_of n)) = c" by (simp add: s_def nth_append)
  ultimately have "rgb_component s (length pre) = (Some w, length pre + length (dec_of n))"
    using w assms(2) by (simp add: rgb_component_def skip_ws_none)
  moreover have "ucast (min w 255) = (of_nat (min n 255) :: u8)"
    using u by (metis of_nat_unat)
  ultimately show ?thesis using that by (simp add: s_def)
qed

definition rgb_args :: "nat \<Rightarrow> nat \<Rightarrow> nat \<Rightarrow> bytes" where
  "rgb_args r g b = dec_of r @ [0x2C] @ dec_of g @ [0x2C] @ dec_of b @ [0x29]"

definition capped :: "nat \<Rightarrow> nat \<Rightarrow> nat \<Rightarrow> rgb" where
  "capped r g b = (of_nat (min r 255), of_nat (min g 255), of_nat (min b 255))"

text \<open>What the reader makes of three numbers, wherever they start.\<close>

lemma rgb_args_read:
  assumes "rgb_open (pre @ rgb_args r g b @ rest) i = Some (rgba, length pre)"
  shows "parse_rgb_rgba (pre @ rgb_args r g b @ rest) i
    = (Some (capped r g b), length pre + length (rgb_args r g b))"
proof -
  define s where "s = pre @ rgb_args r g b @ rest"
  define p2 where "p2 = pre @ dec_of r @ [0x2C]"
  define p3 where "p3 = p2 @ dec_of g @ [0x2C]"
  define p4 where "p4 = p3 @ dec_of b"
  have stop: "\<not> is_ascii_digit 0x2C" "\<not> is_ws 0x2C" "\<not> is_ascii_digit 0x29" "\<not> is_ws 0x29"
    by (simp_all add: is_ascii_digit_def is_ws_def)
  have s1: "s = pre @ dec_of r @ 0x2C # dec_of g @ 0x2C # dec_of b @ 0x29 # rest"
    and s2: "s = p2 @ dec_of g @ 0x2C # dec_of b @ 0x29 # rest"
    and s3: "s = p3 @ dec_of b @ 0x29 # rest" and s4: "s = p4 @ 0x29 # rest"
    by (simp_all add: s_def rgb_args_def p2_def p3_def p4_def)
  obtain w1 where w1: "rgb_component s (length pre) = (Some w1, length pre + length (dec_of r))"
    "ucast (min w1 255) = (of_nat (min r 255) :: u8)"
    using rgb_component_dec [OF stop(1,2)] unfolding s1 by blast
  obtain w2 where w2: "rgb_component s (length p2) = (Some w2, length p2 + length (dec_of g))"
    "ucast (min w2 255) = (of_nat (min g 255) :: u8)"
    using rgb_component_dec [OF stop(1,2)] unfolding s2 by blast
  obtain w3 where w3: "rgb_component s (length p3) = (Some w3, length p3 + length (dec_of b))"
    "ucast (min w3 255) = (of_nat (min b 255) :: u8)"
    using rgb_component_dec [OF stop(3,4)] unfolding s3 by blast
  have c1: "rgb_comma s (length pre + length (dec_of r)) = Some (length p2)"
    unfolding s1 by (simp add: rgb_comma_def nth_append p2_def)
  have c2: "rgb_comma s (length p2 + length (dec_of g)) = Some (length p3)"
    unfolding s2 by (simp add: rgb_comma_def nth_append p3_def)
  have t: "rgb_tail s rgba (length p3 + length (dec_of b)) = length p4 + 1"
    using s4 by (simp add: rgb_tail_def p4_def nth_append)
  have "length p4 + 1 = length pre + length (rgb_args r g b)"
    by (simp add: p4_def p3_def p2_def rgb_args_def)
  then have "parse_rgb_rgba s i = (Some (capped r g b), length pre + length (rgb_args r g b))"
    unfolding parse_rgb_rgba_def using assms [folded s_def] w1 w2 w3 c1 c2 t by (simp add: capped_def)
  then show ?thesis by (simp add: s_def)
qed

lemma rgb_read:
  "parse_rgb_rgba (ascii ''rgb('' @ rgb_args r g b @ rest) 0
    = (Some (capped r g b), 4 + length (rgb_args r g b))"
proof -
  have "\<not> starts_ci (ascii ''rgb('' @ rgb_args r g b @ rest) 0 (ascii ''rgba('')"
    by (simp add: starts_ci_0_eq bytes_simps to_lower_def)
  moreover have "starts_ci (ascii ''rgb('' @ rgb_args r g b @ rest) 0 (ascii ''rgb('')"
    by (rule starts_ci_append) (simp add: bytes_simps to_lower_def)
  ultimately show ?thesis
    using rgb_args_read [of "ascii ''rgb(''" r g b rest 0 False] by (simp add: rgb_open_def)
qed

text \<open>After \<open>rgba(\<close> the reader skips one byte more than the mark has.\<close>

lemma rgba_skips:
  "parse_rgb_rgba (ascii ''rgba('' @ [c] @ rgb_args r g b @ rest) 0
    = (Some (capped r g b), 6 + length (rgb_args r g b))"
proof -
  have "starts_ci (ascii ''rgba('' @ [c] @ rgb_args r g b @ rest) 0 (ascii ''rgba('')"
    by (rule starts_ci_append) (simp add: bytes_simps to_lower_def)
  then show ?thesis
    using rgb_args_read [of "ascii ''rgba('' @ [c]" r g b rest 0 True] by (simp add: rgb_open_def)
qed

section \<open>Bounds of the style values\<close>

definition box_ok :: "box_style \<Rightarrow> bool" where
  "box_ok st \<longleftrightarrow> margin_left st \<le> 8 \<and> padding_left st \<le> 8 \<and> margin_top st \<le> 2 \<and> margin_bottom st \<le> 2
     \<and> padding_top st \<le> 2 \<and> padding_bottom st \<le> 2
     \<and> (case width_chars st of None \<Rightarrow> True | Some w \<Rightarrow> w \<le> 96)"

lemma px_to_spaces_le: "px_to_spaces v \<le> 8"
  by (simp add: px_to_spaces_def)

lemma px_to_blank_lines_le: "px_to_blank_lines v \<le> 2"
  by (simp add: px_to_blank_lines_def)

lemma css_width_le: "css_width line_cap vu \<le> 96"
proof -
  have "(ucast (min w 96) :: u8) \<le> 96" for w :: u16
  proof -
    have "unat (min w 96) \<le> 96" by (simp add: min_def word_le_nat_alt)
    then have "unat (ucast (min w 96) :: u8) = unat (min w 96)" by (simp add: unsigned_ucast_eq take_bit_nat_eq_self)
    with \<open>unat (min w 96) \<le> 96\<close> show ?thesis by (simp add: word_le_nat_alt)
  qed
  then show ?thesis by (simp add: css_width_def split: prod.split)
qed

lemma box_ok_empty [simp]: "box_ok box_style_empty"
  by (simp add: box_ok_def box_style_empty_def)

lemma number_decl_ok: "box_ok out \<Longrightarrow> (\<And>vu. box_ok (upd vu out)) \<Longrightarrow> box_ok (fst (number_decl style i upd out))"
  by (simp add: number_decl_def split: prod.split option.split)

lemma box_ok_upd:
  assumes "box_ok out"
  shows "box_ok (out\<lparr> bs_color := c \<rparr>)" "box_ok (out\<lparr> bs_display := d \<rparr>)"
    "box_ok (out\<lparr> margin_left := px_to_spaces v \<rparr>)" "box_ok (out\<lparr> padding_left := px_to_spaces v \<rparr>)"
    "box_ok (out\<lparr> margin_top := px_to_blank_lines v \<rparr>)" "box_ok (out\<lparr> margin_bottom := px_to_blank_lines v \<rparr>)"
    "box_ok (out\<lparr> padding_top := px_to_blank_lines v \<rparr>)" "box_ok (out\<lparr> padding_bottom := px_to_blank_lines v \<rparr>)"
    "box_ok (out\<lparr> width_chars := Some (css_width line_cap vu) \<rparr>)"
  using assms by (simp_all add: box_ok_def px_to_spaces_le px_to_blank_lines_le css_width_le)

lemma display_decl_ok: "box_ok out \<Longrightarrow> box_ok (fst (display_decl style i out))"
  by (simp add: display_decl_def box_ok_upd)

lemma apply_decl_ok: "box_ok out \<Longrightarrow> box_ok (fst (apply_decl style line_cap key i out))"
  unfolding apply_decl_def
  by (simp add: display_decl_ok number_decl_ok box_ok_upd split: prod.split)

lemma style_turn_cases:
  "fst (style_turn style line_cap i out) = out
    \<or> (\<exists>key j. fst (style_turn style line_cap i out) = fst (apply_decl style line_cap key j out))"
  unfolding style_turn_def Let_def by (auto simp: case_prod_beta)

lemma style_turn_ok: "box_ok out \<Longrightarrow> box_ok (fst (style_turn style line_cap i out))"
  using style_turn_cases [of style line_cap i out] by (auto intro: apply_decl_ok)

lemma style_loop_ok: "box_ok out \<Longrightarrow> box_ok (style_loop style line_cap i out)"
proof (induction style line_cap i out rule: style_loop.induct)
  case (1 style line_cap i out)
  then show ?case
    using style_turn_ok [of out style line_cap i]
    by (subst style_loop.simps) (auto split: prod.split)
qed

lemma parse_inline_box_style_ok: "box_ok (parse_inline_box_style style line_cap)"
  by (simp add: parse_inline_box_style_def style_loop_ok)
end
