(* ===== verification/Eve_Html_Lines.thy ===== *)
theory Eve_Html_Lines
  imports Eve_Html_Css
begin

text \<open>
  The lines of a rendered page, the middle of \<open>kernel/src/html.rs\<close>: a line buffer that is filled
  byte by byte and moved into a table of 128 lines of 96 bytes, the scalar values of numeric
  character references, and the reader of plain text. The source passes the table, its count, the
  line in progress and the truncation flag by reference to every function; here they are the
  record \<open>page\<close>. The UTF-8 tests are those of \<open>kernel/src/emoji_glyph.rs\<close>.

  The lemmas: the table and the lines stay within their bounds under every operation, a page of
  ASCII text is its text wrapped at 96 columns, a character reference is read back, and what it
  becomes is valid UTF-8.
\<close>

section \<open>Lines and pages\<close>

record browser_line =
  bl_data :: bytes
  bl_len :: usize
  bl_rgb :: rgb

definition browser_line_new :: "rgb \<Rightarrow> browser_line" where
  "browser_line_new fg = \<lparr> bl_data = replicate BROWSER_LINE_CAP 0, bl_len = 0, bl_rgb = fg \<rparr>"

definition clear_with :: "rgb \<Rightarrow> browser_line \<Rightarrow> browser_line" where
  "clear_with fg l = l\<lparr> bl_len := 0, bl_rgb := fg \<rparr>"

record page =
  pg_lines :: "browser_line list"
  pg_count :: usize
  pg_cur :: browser_line
  pg_trunc :: bool

definition browser_line_at :: "browser_line list \<Rightarrow> usize \<Rightarrow> browser_line option" where
  "browser_line_at lines i = (if BROWSER_MAX_LINES \<le> i then None else Some (lines ! i))"

definition flush_line :: "page \<Rightarrow> page" where
  "flush_line pg =
     (if BROWSER_MAX_LINES \<le> pg_count pg
      then pg\<lparr> pg_trunc := True, pg_cur := (pg_cur pg)\<lparr> bl_len := 0 \<rparr> \<rparr>
      else pg\<lparr> pg_lines := (pg_lines pg)[pg_count pg := pg_cur pg], pg_count := pg_count pg + 1,
              pg_cur := (pg_cur pg)\<lparr> bl_len := 0 \<rparr> \<rparr>)"

definition clear_cur :: "rgb \<Rightarrow> page \<Rightarrow> page" where
  "clear_cur fg pg = pg\<lparr> pg_cur := clear_with fg (pg_cur pg) \<rparr>"

definition emit_break :: "bool \<Rightarrow> rgb \<Rightarrow> page \<Rightarrow> page" where
  "emit_break blank_after fg pg =
     (let pg = (if 0 < bl_len (pg_cur pg) then flush_line pg else pg);
          pg = (if blank_after \<and> pg_count pg < BROWSER_MAX_LINES
                then pg\<lparr> pg_lines := (pg_lines pg)[pg_count pg := browser_line_new fg],
                        pg_count := pg_count pg + 1 \<rparr>
                else pg)
      in clear_cur fg pg)"

text \<open>\<open>cur.data[cur.len] = c; cur.len += 1\<close>\<close>

definition put_byte :: "u8 \<Rightarrow> page \<Rightarrow> page" where
  "put_byte c pg = (let l = pg_cur pg
     in pg\<lparr> pg_cur := l\<lparr> bl_data := (bl_data l)[bl_len l := c], bl_len := bl_len l + 1 \<rparr> \<rparr>)"

definition emit_char :: "u8 \<Rightarrow> rgb \<Rightarrow> page \<Rightarrow> page" where
  "emit_char c fg pg =
     (let pg = (if BROWSER_LINE_CAP \<le> bl_len (pg_cur pg) then clear_cur fg (flush_line pg) else pg)
      in if BROWSER_MAX_LINES \<le> pg_count pg \<and> BROWSER_LINE_CAP \<le> bl_len (pg_cur pg)
         then pg\<lparr> pg_trunc := True \<rparr>
         else if bl_len (pg_cur pg) < BROWSER_LINE_CAP then put_byte c pg else pg)"

text \<open>\<open>cap.clamp(1, BROWSER_LINE_CAP)\<close>\<close>

definition line_limit :: "usize \<Rightarrow> usize" where
  "line_limit cap = min (max cap 1) BROWSER_LINE_CAP"

definition emit_char_cap :: "u8 \<Rightarrow> rgb \<Rightarrow> usize \<Rightarrow> page \<Rightarrow> page" where
  "emit_char_cap c fg cap pg =
     (let limit = line_limit cap;
          pg = (if limit \<le> bl_len (pg_cur pg) then clear_cur fg (flush_line pg) else pg)
      in if bl_len (pg_cur pg) < limit then put_byte c pg else pg)"

lemma flush_line_len [simp]: "bl_len (pg_cur (flush_line pg)) = 0"
  by (simp add: flush_line_def)

lemma clear_cur_len [simp]: "bl_len (pg_cur (clear_cur fg pg)) = 0"
  by (simp add: clear_cur_def clear_with_def)

text \<open>
  The loop that makes room for a slice of \<open>n\<close> bytes; \<open>None\<close> is its \<open>return\<close> with \<open>trunc\<close> set. The
  test \<open>n \<le> limit\<close> holds whenever the source reaches the loop.
\<close>

function make_room :: "usize \<Rightarrow> usize \<Rightarrow> rgb \<Rightarrow> page \<Rightarrow> page \<times> bool" where
  "make_room limit n fg pg =
     (if n \<le> limit \<and> limit < bl_len (pg_cur pg) + n then
        let pg' = clear_cur fg (flush_line pg)
        in if BROWSER_MAX_LINES \<le> pg_count pg' then (pg'\<lparr> pg_trunc := True \<rparr>, False)
           else make_room limit n fg pg'
      else (pg, True))"
  by pat_completeness auto
termination
  by (relation "measure (\<lambda>(limit, n, fg, pg). bl_len (pg_cur pg))") auto

declare make_room.simps [simp del]

definition emit_slice_cap :: "bytes \<Rightarrow> rgb \<Rightarrow> usize \<Rightarrow> page \<Rightarrow> page" where
  "emit_slice_cap sl fg cap pg =
     (let limit = line_limit cap
      in if sl = [] then pg
         else if BROWSER_LINE_CAP < length sl then pg\<lparr> pg_trunc := True \<rparr>
         else if limit < length sl then pg\<lparr> pg_trunc := True \<rparr>
         else case make_room limit (length sl) fg pg of
                (pg, False) \<Rightarrow> pg
              | (pg, True) \<Rightarrow>
                  if BROWSER_LINE_CAP < bl_len (pg_cur pg) + length sl then pg\<lparr> pg_trunc := True \<rparr>
                  else fold put_byte sl pg)"

section \<open>Character references\<close>

definition is_entity_digit :: "u32 \<Rightarrow> u8 \<Rightarrow> bool" where
  "is_entity_digit base c \<longleftrightarrow> (if base = 16 then hex_val c \<noteq> None else is_ascii_digit c)"

text \<open>To the semicolon; \<open>None\<close> is the return at a byte that is no digit.\<close>

function entity_end :: "u32 \<Rightarrow> bytes \<Rightarrow> usize \<Rightarrow> usize option" where
  "entity_end base s j =
     (if j < length s \<and> s ! j \<noteq> byte CHR '';''
      then if is_entity_digit base (s ! j) then entity_end base s (j + 1) else None
      else Some j)"
  by pat_completeness auto
termination
  by (relation "measure (\<lambda>(base, s, j). length s - j)") auto

declare entity_end.simps [simp del]

definition u32_checked_mul :: "u32 \<Rightarrow> u32 \<Rightarrow> u32 option" where
  "u32_checked_mul a b = (if unat a * unat b < 2 ^ 32 then Some (a * b) else None)"

definition u32_checked_add :: "u32 \<Rightarrow> u32 \<Rightarrow> u32 option" where
  "u32_checked_add a b = (if unat a + unat b < 2 ^ 32 then Some (a + b) else None)"

definition entity_digit :: "u32 \<Rightarrow> u8 \<Rightarrow> u32 option" where
  "entity_digit base c =
     (if base = 16 then
        (if byte CHR ''0'' \<le> c \<and> c \<le> byte CHR ''9'' then Some (ucast (c - byte CHR ''0''))
         else if byte CHR ''a'' \<le> c \<and> c \<le> byte CHR ''f'' then Some (ucast (c - byte CHR ''a'' + 10))
         else if byte CHR ''A'' \<le> c \<and> c \<le> byte CHR ''F'' then Some (ucast (c - byte CHR ''A'' + 10))
         else None)
      else if is_ascii_digit c then Some (ucast (c - byte CHR ''0'')) else None)"

fun entity_value :: "u32 \<Rightarrow> u32 \<Rightarrow> bytes \<Rightarrow> u32 option" where
  "entity_value base v [] = Some v"
| "entity_value base v (c # cs) =
     do { d \<leftarrow> entity_digit base c; m \<leftarrow> u32_checked_mul v base; v \<leftarrow> u32_checked_add m d;
          entity_value base v cs }"

definition parse_numeric_entity :: "bytes \<Rightarrow> (u32 \<times> usize) option" where
  "parse_numeric_entity s =
     (if length s < 4 \<or> s ! 0 \<noteq> byte CHR ''&'' \<or> s ! 1 \<noteq> byte CHR ''#'' then None
      else let hex = (s ! 2 = byte CHR ''x'' \<or> s ! 2 = byte CHR ''X'');
               base = (if hex then 16 else 10);
               start = (if hex then 3 else 2)
           in do { j \<leftarrow> entity_end base s start;
                   if length s \<le> j \<or> s ! j \<noteq> byte CHR '';'' \<or> j = start then None
                   else do { v \<leftarrow> entity_value base 0 (slice s start j);
                             if 0x10FFFF < v then None else Some (v, j + 1) } })"

text \<open>\<open>char::from_u32(cp).unwrap_or('\<^verbatim>\<open>U+FFFD\<close>')\<close> and \<open>encode_utf8\<close> of the core library.\<close>

definition char_from_u32 :: "u32 \<Rightarrow> u32" where
  "char_from_u32 cp = (if 0x10FFFF < cp \<or> 0xD800 \<le> cp \<and> cp \<le> 0xDFFF then 0xFFFD else cp)"

definition utf8_cont :: "u32 \<Rightarrow> u8" where
  "utf8_cont w = 0x80 OR (ucast w AND 0x3F)"

definition encode_utf8 :: "u32 \<Rightarrow> bytes" where
  "encode_utf8 cp =
     (if cp < 0x80 then [ucast cp]
      else if cp < 0x800 then [0xC0 OR ucast (drop_bit 6 cp), utf8_cont cp]
      else if cp < 0x10000 then [0xE0 OR ucast (drop_bit 12 cp), utf8_cont (drop_bit 6 cp), utf8_cont cp]
      else [0xF0 OR ucast (drop_bit 18 cp), utf8_cont (drop_bit 12 cp), utf8_cont (drop_bit 6 cp), utf8_cont cp])"

section \<open>UTF-8 sequences\<close>

definition utf8_lead_len :: "u8 \<Rightarrow> usize option" where
  "utf8_lead_len b0 =
     (if b0 \<le> 0x7F then Some 1
      else if 0xC2 \<le> b0 \<and> b0 \<le> 0xDF then Some 2
      else if 0xE0 \<le> b0 \<and> b0 \<le> 0xEF then Some 3
      else if 0xF0 \<le> b0 \<and> b0 \<le> 0xF4 then Some 4
      else None)"

definition utf8_seq_valid :: "bytes \<Rightarrow> bool" where
  "utf8_seq_valid s =
     (case s of
        [] \<Rightarrow> False
      | b # _ \<Rightarrow>
          (case utf8_lead_len b of
             None \<Rightarrow> False
           | Some n \<Rightarrow>
               if length s < n then False
               else if n = 1 then True
               else list_all (\<lambda>i. s ! i AND 0xC0 = 0x80) [1..<n]))"

lemma utf8_lead_len_pos: "utf8_lead_len b = Some n \<Longrightarrow> 0 < n \<and> n \<le> 4"
  by (auto simp: utf8_lead_len_def split: if_splits)

section \<open>Plain text\<close>

text \<open>One turn of the loop: the position to go on from and the page; \<open>None\<close> is \<open>break\<close>.\<close>

definition plain_turn :: "bytes \<Rightarrow> rgb \<Rightarrow> usize \<Rightarrow> page \<Rightarrow> (usize \<times> page) option" where
  "plain_turn raw fg i pg =
     (let b = raw ! i
      in if b = 0x0A \<or> b = 0x0D then
           Some (i + 1, clear_cur fg (if 0 < bl_len (pg_cur pg) then flush_line pg else pg))
         else if pg_trunc pg then None
         else if b < 0x80 then Some (i + 1, emit_char b fg pg)
         else case utf8_lead_len b of
             None \<Rightarrow> Some (i + 1, emit_char (byte CHR ''?'') fg pg)
           | Some len \<Rightarrow>
               if length raw < i + len \<or> \<not> utf8_seq_valid (slice raw i (i + len))
               then Some (i + 1, emit_char (byte CHR ''?'') fg pg)
               else Some (i + len, emit_slice_cap (slice raw i (i + len)) fg BROWSER_LINE_CAP pg))"

lemma plain_turn_gt: "plain_turn raw fg i pg = Some (k, pg') \<Longrightarrow> i < k"
  by (auto simp: plain_turn_def Let_def split: if_splits option.splits dest: utf8_lead_len_pos)

function plain_loop :: "bytes \<Rightarrow> rgb \<Rightarrow> usize \<Rightarrow> page \<Rightarrow> page" where
  "plain_loop raw fg i pg =
     (if i < length raw then
        (case plain_turn raw fg i pg of None \<Rightarrow> pg | Some (i, pg) \<Rightarrow> plain_loop raw fg i pg)
      else pg)"
  by pat_completeness auto
termination
  by (relation "measure (\<lambda>(raw, fg, i, pg). length raw - i)") (auto dest!: plain_turn_gt)

declare plain_loop.simps [simp del]

definition plain_finish :: "page \<Rightarrow> page" where
  "plain_finish pg = (if 0 < bl_len (pg_cur pg) \<and> \<not> pg_trunc pg then flush_line pg else pg)"

definition plain_lines :: "bytes \<Rightarrow> rgb \<Rightarrow> page \<Rightarrow> page" where
  "plain_lines raw fg pg = plain_finish (plain_loop raw fg 0 (pg\<lparr> pg_cur := browser_line_new fg \<rparr>))"

section \<open>Bounds\<close>

definition line_ok :: "browser_line \<Rightarrow> bool" where
  "line_ok l \<longleftrightarrow> length (bl_data l) = BROWSER_LINE_CAP \<and> bl_len l \<le> BROWSER_LINE_CAP"

definition page_ok :: "page \<Rightarrow> bool" where
  "page_ok pg \<longleftrightarrow> length (pg_lines pg) = BROWSER_MAX_LINES \<and> pg_count pg \<le> BROWSER_MAX_LINES
     \<and> list_all line_ok (pg_lines pg) \<and> line_ok (pg_cur pg)"

lemma list_all_update: "list_all P xs \<Longrightarrow> P x \<Longrightarrow> list_all P (xs[i := x])"
  by (auto simp: list_all_iff dest!: set_update_subset_insert [THEN subsetD])

lemma line_ok_new [simp]: "line_ok (browser_line_new fg)"
  by (simp add: line_ok_def browser_line_new_def)

lemma page_ok_flush: "page_ok pg \<Longrightarrow> page_ok (flush_line pg)"
  by (auto simp: page_ok_def flush_line_def list_all_update line_ok_def)

lemma page_ok_clear: "page_ok pg \<Longrightarrow> page_ok (clear_cur fg pg)"
  by (simp add: page_ok_def clear_cur_def clear_with_def line_ok_def)

lemma page_ok_trunc [simp]: "page_ok (pg\<lparr> pg_trunc := t \<rparr>) = page_ok pg"
  by (simp add: page_ok_def)

lemma page_ok_cur: "page_ok pg \<Longrightarrow> line_ok l \<Longrightarrow> page_ok (pg\<lparr> pg_cur := l \<rparr>)"
  by (simp add: page_ok_def)

lemma page_ok_put: "page_ok pg \<Longrightarrow> bl_len (pg_cur pg) < BROWSER_LINE_CAP \<Longrightarrow> page_ok (put_byte c pg)"
  by (simp add: page_ok_def put_byte_def line_ok_def Let_def)

lemma page_ok_break: "page_ok pg \<Longrightarrow> page_ok (emit_break blank fg pg)"
proof -
  assume ok: "page_ok pg"
  define pg1 where "pg1 = (if 0 < bl_len (pg_cur pg) then flush_line pg else pg)"
  have "page_ok pg1" using ok by (simp add: pg1_def page_ok_flush)
  then have "page_ok (if blank \<and> pg_count pg1 < BROWSER_MAX_LINES
      then pg1\<lparr> pg_lines := (pg_lines pg1)[pg_count pg1 := browser_line_new fg], pg_count := pg_count pg1 + 1 \<rparr>
      else pg1)"
    by (auto simp: page_ok_def list_all_update)
  then show ?thesis unfolding emit_break_def Let_def pg1_def [symmetric] by (rule page_ok_clear)
qed

lemma page_ok_char: "page_ok pg \<Longrightarrow> page_ok (emit_char c fg pg)"
  by (simp add: emit_char_def Let_def page_ok_clear page_ok_flush page_ok_put)

lemma line_limit_le: "line_limit cap \<le> BROWSER_LINE_CAP" "0 < line_limit cap"
  by (auto simp: line_limit_def)

lemma page_ok_char_cap: "page_ok pg \<Longrightarrow> page_ok (emit_char_cap c fg cap pg)"
  using line_limit_le(1) [of cap]
  by (auto simp: emit_char_cap_def Let_def page_ok_clear page_ok_flush page_ok_put)

lemma make_room_ok:
  "page_ok pg \<Longrightarrow> page_ok (fst (make_room limit n fg pg))"
proof (induction limit n fg pg rule: make_room.induct)
  case (1 limit n fg pg)
  then show ?case
    by (subst make_room.simps) (simp add: Let_def page_ok_clear page_ok_flush)
qed

lemma put_bytes_len: "bl_len (pg_cur (fold put_byte sl pg)) = bl_len (pg_cur pg) + length sl"
  by (induction sl arbitrary: pg) (auto simp: put_byte_def Let_def)

lemma page_ok_put_bytes:
  "page_ok pg \<Longrightarrow> bl_len (pg_cur pg) + length sl \<le> BROWSER_LINE_CAP \<Longrightarrow> page_ok (fold put_byte sl pg)"
proof (induction sl arbitrary: pg)
  case (Cons c sl)
  have "page_ok (put_byte c pg)" using Cons.prems by (intro page_ok_put) auto
  moreover have "bl_len (pg_cur (put_byte c pg)) = bl_len (pg_cur pg) + 1"
    by (simp add: put_byte_def Let_def)
  ultimately show ?case using Cons.IH [of "put_byte c pg"] Cons.prems by simp
qed simp

lemma page_ok_slice_cap: "page_ok pg \<Longrightarrow> page_ok (emit_slice_cap sl fg cap pg)"
  using make_room_ok [of pg "line_limit cap" "length sl" fg]
  by (auto simp: emit_slice_cap_def Let_def page_ok_put_bytes split: prod.split bool.split)

lemmas page_ok_intros =
  page_ok_flush page_ok_clear page_ok_break page_ok_char page_ok_char_cap page_ok_slice_cap

lemma plain_turn_ok: "page_ok pg \<Longrightarrow> plain_turn raw fg i pg = Some (k, pg') \<Longrightarrow> page_ok pg'"
  by (auto simp: plain_turn_def Let_def page_ok_intros split: if_splits option.splits)

lemma plain_loop_ok: "page_ok pg \<Longrightarrow> page_ok (plain_loop raw fg i pg)"
proof (induction raw fg i pg rule: plain_loop.induct)
  case (1 raw fg i pg)
  then show ?case
    by (subst plain_loop.simps) (auto split: option.split dest: plain_turn_ok)
qed

lemma plain_lines_ok: "page_ok pg \<Longrightarrow> page_ok (plain_lines raw fg pg)"
  by (simp add: plain_lines_def plain_finish_def page_ok_flush plain_loop_ok page_ok_cur)


section \<open>What is shown\<close>

definition line_text :: "browser_line \<Rightarrow> bytes" where
  "line_text l = take (bl_len l) (bl_data l)"

text \<open>The text and the colour of each line of the table, and of the line in progress.\<close>

definition view :: "browser_line \<Rightarrow> bytes \<times> rgb" where
  "view l = (line_text l, bl_rgb l)"

definition shown :: "page \<Rightarrow> (bytes \<times> rgb) list" where
  "shown pg = map view (take (pg_count pg) (pg_lines pg))"

lemma length_shown: "page_ok pg \<Longrightarrow> length (shown pg) = pg_count pg"
  by (simp add: shown_def page_ok_def)

lemma shown_simps [simp]:
  "shown (pg\<lparr> pg_cur := l \<rparr>) = shown pg" "shown (pg\<lparr> pg_trunc := t \<rparr>) = shown pg"
  "shown (clear_cur fg pg) = shown pg" "shown (put_byte c pg) = shown pg"
  by (simp_all add: shown_def clear_cur_def put_byte_def Let_def)

lemma shown_add:
  "n < length ls \<Longrightarrow> map view (take (Suc n) (ls[n := l])) = map view (take n ls) @ [view l]"
  by (simp add: take_Suc_conv_app_nth)

lemma flush_room:
  assumes "page_ok pg" "pg_count pg < BROWSER_MAX_LINES"
  shows "shown (flush_line pg) = shown pg @ [view (pg_cur pg)]" "pg_trunc (flush_line pg) = pg_trunc pg"
    "pg_count (flush_line pg) = pg_count pg + 1"
  using assms by (simp_all add: flush_line_def shown_def page_ok_def shown_add)

lemma flush_full:
  assumes "BROWSER_MAX_LINES \<le> pg_count pg"
  shows "shown (flush_line pg) = shown pg" "pg_trunc (flush_line pg)" "pg_count (flush_line pg) = pg_count pg"
  using assms by (simp_all add: flush_line_def shown_def)

lemma clear_cur_simps [simp]:
  "pg_count (clear_cur fg pg) = pg_count pg" "pg_trunc (clear_cur fg pg) = pg_trunc pg"
  "view (pg_cur (clear_cur fg pg)) = ([], fg)"
  by (simp_all add: clear_cur_def clear_with_def view_def line_text_def)

lemma put_byte_view:
  "page_ok pg \<Longrightarrow> bl_len (pg_cur pg) < BROWSER_LINE_CAP \<Longrightarrow> view (pg_cur pg) = (t, fg) \<Longrightarrow>
    view (pg_cur (put_byte c pg)) = (t @ [c], fg)"
  by (auto simp: put_byte_def Let_def view_def line_text_def page_ok_def line_ok_def take_Suc_conv_app_nth)

lemma put_byte_simps [simp]:
  "pg_count (put_byte c pg) = pg_count pg" "pg_trunc (put_byte c pg) = pg_trunc pg"
  "bl_len (pg_cur (put_byte c pg)) = bl_len (pg_cur pg) + 1"
  by (simp_all add: put_byte_def Let_def)

lemma view_length: "page_ok pg \<Longrightarrow> view (pg_cur pg) = (t, fg) \<Longrightarrow> length t = bl_len (pg_cur pg)"
  by (auto simp: view_def line_text_def page_ok_def line_ok_def)

section \<open>Plain text is wrapped\<close>

text \<open>Pieces of at most \<open>n\<close> elements.\<close>

fun wrap :: "nat \<Rightarrow> 'a list \<Rightarrow> 'a list list" where
  "wrap n xs = (if n = 0 \<or> xs = [] then [] else take n xs # wrap n (drop n xs))"

declare wrap.simps [simp del]

lemma wrap_Nil [simp]: "wrap n [] = []"
  by (simp add: wrap.simps)

lemma wrap_full: "0 < n \<Longrightarrow> length t = n \<Longrightarrow> wrap n (t @ xs) = t # wrap n xs"
  by (subst wrap.simps) auto

lemma wrap_short: "t \<noteq> [] \<Longrightarrow> length t \<le> n \<Longrightarrow> wrap n t = [t]"
  by (subst wrap.simps) (cases t; simp)

lemma wrap_one: "length t \<le> n \<Longrightarrow> wrap n t = (if t = [] then [] else [t])"
  by (simp add: wrap_short)

abbreviation is_newline :: "u8 \<Rightarrow> bool" where
  "is_newline b \<equiv> b = 0x0A \<or> b = 0x0D"

text \<open>The reference: the text between the line ends, each piece wrapped at 96 columns.\<close>

definition text_lines :: "bytes \<Rightarrow> bytes list" where
  "text_lines raw = concat (map (wrap BROWSER_LINE_CAP) (split_on is_newline raw))"

lemma split_on_run:
  "\<forall>x\<in>set t. \<not> p x \<Longrightarrow> split_on p (t @ xs) = (t @ hd (split_on p xs)) # tl (split_on p xs)"
proof (induction t)
  case (Cons a t)
  then show ?case by simp
qed simp

lemma text_lines_newline:
  assumes "\<forall>x\<in>set t. \<not> is_newline x" "length t \<le> 96" "is_newline b"
  shows "text_lines (t @ b # rest) = (if t = [] then [] else [t]) @ text_lines rest"
proof -
  have "split_on is_newline (b # rest) = [] # split_on is_newline rest" using assms(3) by simp
  then have "split_on is_newline (t @ b # rest) = t # split_on is_newline rest"
    using split_on_run [OF assms(1), of "b # rest"] by simp
  then show ?thesis using assms(2) by (simp only: text_lines_def list.map concat.simps wrap_one)
qed

lemma text_lines_end:
  "\<forall>x\<in>set t. \<not> is_newline x \<Longrightarrow> length t \<le> 96 \<Longrightarrow> text_lines t = (if t = [] then [] else [t])"
  by (simp add: text_lines_def wrap_one)

lemma text_lines_full:
  assumes "\<forall>x\<in>set t. \<not> is_newline x" "length t = 96" "\<not> is_newline c"
  shows "text_lines (t @ c # rest) = t # text_lines (c # rest)"
proof -
  obtain y ys where y: "split_on is_newline (c # rest) = y # ys"
    using split_on_not_Nil [of is_newline "c # rest"] by (cases "split_on is_newline (c # rest)") blast+
  have "split_on is_newline (t @ c # rest) = (t @ y) # ys"
    using split_on_run [OF assms(1), of "c # rest"] by (simp only: y list.sel)
  then show ?thesis
    using assms(2) by (simp add: text_lines_def y wrap_full del: split_on.simps)
qed


text \<open>Once the table is full and a line was lost, the loop shows nothing more.\<close>

lemma plain_turn_lost:
  assumes "plain_turn raw fg i pg = Some (k, pg')" "pg_trunc pg" "128 \<le> pg_count pg"
  shows "shown pg' = shown pg \<and> pg_trunc pg' \<and> 128 \<le> pg_count pg'"
  using assms by (auto simp: plain_turn_def Let_def flush_full split: if_splits)

lemma plain_loop_lost:
  assumes "pg_trunc pg" "128 \<le> pg_count pg"
  shows "shown (plain_loop raw fg i pg) = shown pg \<and> pg_trunc (plain_loop raw fg i pg)"
  using assms
proof (induction raw fg i pg rule: plain_loop.induct)
  case (1 raw fg i pg)
  show ?case
  proof (cases "i < length raw \<and> plain_turn raw fg i pg \<noteq> None")
    case True
    then obtain k pg' where turn: "plain_turn raw fg i pg = Some (k, pg')" by fastforce
    note lost = plain_turn_lost [OF turn "1.prems"]
    have "plain_loop raw fg i pg = plain_loop raw fg k pg'"
      using True turn by (subst plain_loop.simps) simp
    then show ?thesis using True "1.IH" [OF _ turn refl] lost by simp
  next
    case False
    then have "plain_loop raw fg i pg = pg" by (subst plain_loop.simps) (auto split: option.split)
    with "1.prems" show ?thesis by simp
  qed
qed

text \<open>An ASCII byte that is no line end, with the line \<open>t\<close> in progress.\<close>

lemma plain_turn_ascii:
  assumes "raw ! i < 0x80" "\<not> is_newline (raw ! i)" "\<not> pg_trunc pg"
  shows "plain_turn raw fg i pg = Some (i + 1, emit_char (raw ! i) fg pg)"
  using assms by (simp add: plain_turn_def)

lemma emit_char_fits:
  assumes "page_ok pg" "view (pg_cur pg) = (t, fg)" "length t < 96"
  shows "emit_char c fg pg = put_byte c pg" "view (pg_cur (emit_char c fg pg)) = (t @ [c], fg)"
  using assms view_length [OF assms(1,2)] by (simp_all add: emit_char_def Let_def put_byte_view)

lemma emit_char_wraps:
  assumes "page_ok pg" "view (pg_cur pg) = (t, fg)" "length t = 96"
  shows "emit_char c fg pg = put_byte c (clear_cur fg (flush_line pg))"
    "view (pg_cur (emit_char c fg pg)) = ([c], fg)"
proof -
  show e: "emit_char c fg pg = put_byte c (clear_cur fg (flush_line pg))"
    using assms view_length [OF assms(1,2)] by (simp add: emit_char_def Let_def)
  show "view (pg_cur (emit_char c fg pg)) = ([c], fg)"
    unfolding e using assms(1)
    by (subst put_byte_view [where t = "[]"]) (simp_all add: page_ok_clear page_ok_flush)
qed

lemma plain_loop_wraps:
  assumes "page_ok pg" "view (pg_cur pg) = (t, fg)" "\<not> pg_trunc pg" "\<forall>b\<in>set t. \<not> is_newline b"
    "\<forall>b\<in>set rest. b < 0x80"
  shows "shown (plain_finish (plain_loop (pre @ rest) fg (length pre) pg))
      = take 128 (shown pg @ map (\<lambda>t. (t, fg)) (text_lines (t @ rest)))
    \<and> (pg_trunc (plain_finish (plain_loop (pre @ rest) fg (length pre) pg))
        \<longleftrightarrow> 128 < length (shown pg) + length (text_lines (t @ rest)))"
  using assms
proof (induction rest arbitrary: pre t pg)
  case Nil
  have len: "length t = bl_len (pg_cur pg)" using Nil by (intro view_length)
  then have pos: "0 < bl_len (pg_cur pg) \<longleftrightarrow> t \<noteq> []" by (metis length_greater_0_conv)
  have count: "pg_count pg = length (shown pg)" "pg_count pg \<le> 128"
    using Nil by (auto simp: length_shown page_ok_def)
  have t: "length t \<le> 96" using Nil len by (auto simp: page_ok_def line_ok_def)
  have stop: "plain_loop (pre @ []) fg (length pre) pg = pg" by (subst plain_loop.simps) simp
  show ?case
  proof (cases "t = []")
    case True
    then show ?thesis using Nil stop count pos by (simp add: text_lines_end plain_finish_def)
  next
    case False
    then have tl: "text_lines t = [t]" using Nil t by (simp add: text_lines_end)
    show ?thesis
    proof (cases "pg_count pg < 128")
      case True
      then show ?thesis using Nil False stop count pos tl flush_room [of pg] by (simp add: plain_finish_def)
    next
      case full: False
      then show ?thesis using Nil False stop count pos tl flush_full [of pg] by (simp add: plain_finish_def)
    qed
  qed
next
  case (Cons b rest)
  have len: "length t = bl_len (pg_cur pg)" using Cons.prems by (intro view_length)
  then have pos: "0 < bl_len (pg_cur pg) \<longleftrightarrow> t \<noteq> []" by (metis length_greater_0_conv)
  have count: "pg_count pg = length (shown pg)" "pg_count pg \<le> 128"
    using Cons.prems by (auto simp: length_shown page_ok_def)
  have t: "length t \<le> 96" using Cons.prems len by (auto simp: page_ok_def line_ok_def)
  have b: "(pre @ b # rest) ! length pre = b" by (simp add: nth_append)
  have step: "plain_loop (pre @ b # rest) fg (length pre) pg
      = plain_loop ((pre @ [b]) @ rest) fg (length (pre @ [b])) pg'"
    if "plain_turn (pre @ b # rest) fg (length pre) pg = Some (length pre + 1, pg')" for pg'
    using that by (subst plain_loop.simps) simp
  show ?case
  proof (cases "is_newline b")
    case True
    define pg1 where "pg1 = (if 0 < bl_len (pg_cur pg) then flush_line pg else pg)"
    have turn: "plain_turn (pre @ b # rest) fg (length pre) pg = Some (length pre + 1, clear_cur fg pg1)"
      using True b by (auto simp: plain_turn_def pg1_def Let_def)
    have tl: "text_lines (t @ b # rest) = (if t = [] then [] else [t]) @ text_lines rest"
      using Cons.prems t True by (intro text_lines_newline) auto
    have ok: "page_ok (clear_cur fg pg1)" using Cons.prems by (simp add: pg1_def page_ok_clear page_ok_flush)
    show ?thesis
    proof (cases "t \<noteq> [] \<and> pg_count pg = 128")
      case True
      then have "pg_trunc pg1" "pg_count pg1 = 128" "shown pg1 = shown pg"
        using pos flush_full [of pg] by (auto simp: pg1_def)
      then show ?thesis
        using True tl plain_loop_lost [of "clear_cur fg pg1"] step [OF turn] count
        by (simp add: plain_finish_def)
    next
      case False
      then have "shown pg1 = shown pg @ map (\<lambda>t. (t, fg)) (if t = [] then [] else [t])" "\<not> pg_trunc pg1"
        using pos flush_room [of pg] Cons.prems count by (auto simp: pg1_def)
      then show ?thesis
        using Cons.IH [of "clear_cur fg pg1" "[]" "pre @ [b]"] ok Cons.prems step [OF turn] tl by simp
    qed
  next
    case False
    let ?pg = "emit_char b fg pg"
    have turn: "plain_turn (pre @ b # rest) fg (length pre) pg = Some (length pre + 1, ?pg)"
      using False b Cons.prems by (simp add: plain_turn_ascii)
    have ok: "page_ok ?pg" using Cons.prems by (simp add: page_ok_char)
    show ?thesis
    proof (cases "length t < 96")
      case True
      then show ?thesis
        using Cons.IH [of ?pg "t @ [b]" "pre @ [b]"] ok Cons.prems False step [OF turn]
          emit_char_fits [of pg t fg b] by simp
    next
      case full: False
      then have t96: "length t = 96" using t by simp
      have tl: "text_lines (t @ b # rest) = t # text_lines (b # rest)"
        using Cons.prems t96 False by (intro text_lines_full) auto
      note w = emit_char_wraps [OF Cons.prems(1,2) t96, of b]
      show ?thesis
      proof (cases "pg_count pg = 128")
        case True
        then have "pg_trunc ?pg" "pg_count ?pg = 128" "shown ?pg = shown pg"
          using w(1) flush_full [of pg] by simp_all
        then show ?thesis
          using True tl plain_loop_lost [of ?pg] step [OF turn] count by (simp add: plain_finish_def)
      next
        case False
        then have "shown ?pg = shown pg @ [(t, fg)]" "\<not> pg_trunc ?pg"
          using w(1) flush_room [of pg] Cons.prems count by simp_all
        then show ?thesis
          using Cons.IH [of ?pg "[b]" "pre @ [b]"] ok Cons.prems step [OF turn] tl w(2) \<open>\<not> is_newline b\<close>
          by simp
      qed
    qed
  qed
qed

section \<open>Character references read back\<close>

lemma entity_end_run:
  assumes "\<forall>c\<in>set ds. is_entity_digit base c" "\<not> is_entity_digit base 0x3B"
  shows "entity_end base (pre @ ds @ 0x3B # rest) (length pre) = Some (length pre + length ds)"
  using assms(1)
proof (induction ds arbitrary: pre)
  case Nil
  show ?case by (subst entity_end.simps) simp
next
  case (Cons d ds)
  have "d \<noteq> 0x3B" using Cons.prems assms(2) by auto
  then have "entity_end base (pre @ (d # ds) @ 0x3B # rest) (length pre)
      = entity_end base ((pre @ [d]) @ ds @ 0x3B # rest) (length (pre @ [d]))"
    using Cons.prems by (subst entity_end.simps) simp
  then show ?case using Cons.IH [of "pre @ [d]"] Cons.prems by simp
qed

lemma digit_value_u32: "is_ascii_digit c \<Longrightarrow> unat (ucast (c - 0x30) :: u32) = unat (c - 0x30)"
  by (simp add: unsigned_ucast_eq take_bit_nat_eq_self unat_u8_less order_less_le_trans [OF unat_u8_less])

lemma entity_value_dec:
  assumes "\<forall>c\<in>set ds. is_ascii_digit c"
  shows "entity_value 10 v ds
    = (if dec_value (unat v) ds < 2 ^ 32 then Some (of_nat (dec_value (unat v) ds)) else None)"
  using assms
proof (induction ds arbitrary: v)
  case Nil
  then show ?case using unsigned_less [of v, where ?'a = nat] by (simp add: dec_value_def)
next
  case (Cons c ds)
  let ?d = "ucast (c - 0x30) :: u32"
  let ?n = "unat v * 10 + unat (c - 0x30)"
  have d: "entity_digit 10 c = Some ?d" "unat ?d = unat (c - 0x30)"
    using Cons.prems by (simp_all add: entity_digit_def digit_value_u32)
  have dv: "dec_value (unat v) (c # ds) = dec_value ?n ds" by (simp add: dec_value_def)
  show ?case
  proof (cases "?n < 2 ^ 32")
    case True
    then have "u32_checked_mul v 10 = Some (v * 10)" "unat (v * 10) = unat v * 10"
      by (simp_all add: u32_checked_mul_def unat_word_ariths)
    moreover from this have "u32_checked_add (v * 10) ?d = Some (v * 10 + ?d)" "unat (v * 10 + ?d) = ?n"
      using True d(2) by (simp_all add: u32_checked_add_def unat_word_ariths)
    ultimately show ?thesis using Cons.IH [of "v * 10 + ?d"] Cons.prems d dv by simp
  next
    case False
    then have "\<not> dec_value ?n ds < 2 ^ 32" using dec_value_ge [of ?n ds] by linarith
    moreover have "u32_checked_mul v 10 = None
        \<or> u32_checked_mul v 10 = Some (v * 10) \<and> u32_checked_add (v * 10) ?d = None"
      using False d(2) by (auto simp: u32_checked_mul_def u32_checked_add_def unat_word_ariths)
    ultimately show ?thesis using d dv by (auto simp: bind_eq_None_conv)
  qed
qed

text \<open>A decimal reference is the scalar value it names, up to the last one of Unicode.\<close>

lemma entity_decimal:
  "parse_numeric_entity (ascii ''&#'' @ dec_of n @ 0x3B # rest)
    = (if n \<le> 0x10FFFF then Some (of_nat n, length (dec_of n) + 3) else None)"
proof -
  define s where "s = ascii ''&#'' @ dec_of n @ 0x3B # rest"
  have s: "s = 0x26 # 0x23 # dec_of n @ 0x3B # rest" by (simp add: s_def bytes_simps)
  have digits: "\<forall>c\<in>set (dec_of n). is_entity_digit 10 c"
    using dec_of_digits [of n] by (simp add: is_entity_digit_def)
  have no: "\<not> is_entity_digit 10 0x3B" by (simp add: is_entity_digit_def is_ascii_digit_def)
  have e: "entity_end 10 s 2 = Some (2 + length (dec_of n))"
    using entity_end_run [OF digits no, of "ascii ''&#''" rest] by (simp add: s_def flip: numeral_2_eq_2)
  have "s ! 2 = hd (dec_of n)" by (simp add: s nth_append hd_conv_nth numeral_2_eq_2)
  then have d2: "s ! 2 \<noteq> 0x78" "s ! 2 \<noteq> 0x58"
    using hd_dec_of_digit [of n] by (auto simp: is_ascii_digit_def)
  have sl: "slice s 2 (2 + length (dec_of n)) = dec_of n"
    unfolding s_def by (rule slice_middle) simp_all
  have semi: "s ! (2 + length (dec_of n)) = 0x3B" by (simp add: s nth_append)
  have len: "4 \<le> length s" "2 + length (dec_of n) < length s"
    using dec_of_not_Nil [of n] by (auto simp: s Suc_le_eq)
  have "parse_numeric_entity s
      = (if n < 2 ^ 32 then (if 0x10FFFF < (of_nat n :: u32) then None else Some (of_nat n, 2 + length (dec_of n) + 1))
         else None)"
    using e d2 sl semi len entity_value_dec [OF dec_of_digits, of 0 n]
    by (simp add: parse_numeric_entity_def s nth_append)
  moreover have "0x10FFFF < (of_nat n :: u32) \<longleftrightarrow> 0x10FFFF < n" if "n < 2 ^ 32"
    using that by (simp add: word_less_nat_alt unat_of_nat take_bit_nat_eq_self)
  ultimately show ?thesis by (simp add: s_def)
qed

section \<open>What a reference becomes is valid\<close>

lemma utf8_cont_mask: "utf8_cont w AND 0xC0 = 0x80"
  by (simp add: utf8_cont_def bit.conj_disj_distrib2 and.assoc)

lemma small_disjoint: "unat w < 2 ^ n \<Longrightarrow> m AND mask n = 0 \<Longrightarrow> m OR w = m + w" for w :: u8
proof -
  assume w: "unat w < 2 ^ n" and m: "m AND mask n = 0"
  have "w = take_bit n w"
    by (rule word_unat_eq_iff [THEN iffD2]) (use w in \<open>simp add: unsigned_take_bit_eq take_bit_nat_eq_self\<close>)
  then have "w = w AND mask n" by (simp add: take_bit_eq_mask)
  then have "m AND w = w AND (m AND mask n)" by (metis and.commute and.assoc)
  with m have "m AND w = 0" by simp
  then show ?thesis by (simp add: disjunctive_add_eq_or)
qed

lemma lead_bytes:
  fixes w :: u8
  shows "unat w < 32 \<Longrightarrow> 2 \<le> unat w \<Longrightarrow> utf8_lead_len (0xC0 OR w) = Some 2"
    and "unat w < 16 \<Longrightarrow> utf8_lead_len (0xE0 OR w) = Some 3"
    and "unat w < 5 \<Longrightarrow> utf8_lead_len (0xF0 OR w) = Some 4"
  using small_disjoint [of w 5 "0xC0"] small_disjoint [of w 4 "0xE0"] small_disjoint [of w 3 "0xF0"]
  by (simp_all add: utf8_lead_len_def word_le_nat_alt unat_word_ariths mask_numeral)

lemma seq_valid:
  "utf8_lead_len b = Some (length (b # cs)) \<Longrightarrow> \<forall>c\<in>set cs. c AND 0xC0 = 0x80 \<Longrightarrow> utf8_seq_valid (b # cs)"
  by (auto simp: utf8_seq_valid_def list_all_iff nth_Cons')

text \<open>The bytes emitted for a scalar value pass the reader's own test, as one sequence.\<close>

lemma encode_utf8_valid:
  fixes cp :: u32
  defines "e \<equiv> encode_utf8 (char_from_u32 cp)"
  shows "utf8_seq_valid e \<and> utf8_lead_len (hd e) = Some (length e) \<and> length e \<le> 4"
proof -
  define c where "c = char_from_u32 cp"
  have top: "unat c \<le> 0x10FFFF"
    by (auto simp: c_def char_from_u32_def word_less_nat_alt not_less)
  have dv: "unat (ucast (drop_bit k c) :: u8) = unat c div 2 ^ k" if "unat c div 2 ^ k < 256" for k
    using that unsigned_less [of c, where ?'a = nat] by (simp only: unsigned_ucast_eq unsigned_drop_bit_eq) (simp add: drop_bit_eq_div take_bit_nat_eq_self)
  consider "unat c < 0x80" | "0x80 \<le> unat c" "unat c < 0x800" | "0x800 \<le> unat c" "unat c < 0x10000"
    | "0x10000 \<le> unat c" by linarith
  then have "utf8_lead_len (hd (encode_utf8 c)) = Some (length (encode_utf8 c))
    \<and> (\<forall>x\<in>set (tl (encode_utf8 c)). x AND 0xC0 = 0x80) \<and> length (encode_utf8 c) \<le> 4"
  proof cases
    case 1
    then have "unat (ucast c :: u8) < 0x80" by (simp add: unsigned_ucast_eq take_bit_nat_eq_self)
    with 1 show ?thesis by (simp add: encode_utf8_def utf8_lead_len_def word_less_nat_alt word_le_nat_alt)
  next
    case 2
    then have "unat (ucast (drop_bit 6 c) :: u8) = unat c div 64" using dv [of 6] by simp
    with 2 show ?thesis
      by (simp add: encode_utf8_def word_less_nat_alt lead_bytes utf8_cont_mask)
  next
    case 3
    then have "unat (ucast (drop_bit 12 c) :: u8) = unat c div 4096" using dv [of 12] by simp
    with 3 show ?thesis
      by (simp add: encode_utf8_def word_less_nat_alt lead_bytes utf8_cont_mask)
  next
    case 4
    then have "unat (ucast (drop_bit 18 c) :: u8) = unat c div 262144" using dv [of 18] top by simp
    with 4 top show ?thesis
      by (simp add: encode_utf8_def word_less_nat_alt lead_bytes utf8_cont_mask)
  qed
  moreover have "encode_utf8 c \<noteq> []" by (simp add: encode_utf8_def)
  ultimately show ?thesis
    unfolding e_def c_def [symmetric] using seq_valid [of "hd (encode_utf8 c)" "tl (encode_utf8 c)"] by simp
qed

end
