(* ===== verification/Eve_Html.thy ===== *)
theory Eve_Html
  imports Eve_Html_Lines Eve_Dom
begin

text \<open>
  \<open>format_document\<close> of \<open>kernel/src/html.rs\<close>: from the bytes of a response to the lines of the browser
  page. The local variables of the function are the record \<open>html_state\<close>; one turn of its loop is
  \<open>html_turn\<close>, which either goes on or leaves the loop, and \<open>html_loop\<close> repeats it. Every turn that
  goes on moves the position forward, so the loop ends on every document.

  The lemmas: the invariant of the state (every index into a fixed array stays inside it), that
  the reading of a document depends on what is left of it only, what becomes of script, style and
  other hidden elements, and the text of a paragraph.
\<close>

section \<open>State\<close>

record html_state =
  hs_i :: usize
  in_script :: bool
  in_template :: bool
  in_iframe :: bool
  in_object :: bool
  in_title :: bool
  in_style :: bool
  a_styled :: bool
  list_depth :: u8
  style_buf :: bytes
  style_len :: usize
  style_rules :: "style_rule list"
  style_rule_count :: usize
  block_indent_stack :: bytes
  block_width_stack :: bytes
  block_sp :: usize
  hints :: css_hints
  default_fg :: rgb
  fg_stack :: "rgb list"
  fg_sp :: usize
  cur_fg :: rgb
  active_indent :: u8
  active_width :: u8
  scripts_stripped :: bool
  hs_page :: page

datatype loop_turn = Break html_state | Continue html_state

definition on_page :: "(page \<Rightarrow> page) \<Rightarrow> html_state \<Rightarrow> html_state" where
  "on_page f st = st\<lparr> hs_page := f (hs_page st) \<rparr>"

definition go_to :: "usize \<Rightarrow> html_state \<Rightarrow> html_state" where
  "go_to i st = st\<lparr> hs_i := i \<rparr>"

text \<open>The macro \<open>set_fg!\<close>.\<close>

definition set_fg :: "rgb \<Rightarrow> html_state \<Rightarrow> html_state" where
  "set_fg rgb st = on_page (\<lambda>pg. pg\<lparr> pg_cur := (pg_cur pg)\<lparr> bl_rgb := rgb \<rparr> \<rparr>) (st\<lparr> cur_fg := rgb \<rparr>)"

definition push_fg :: "html_state \<Rightarrow> html_state" where
  "push_fg st =
     (if fg_sp st < length (fg_stack st)
      then st\<lparr> fg_stack := (fg_stack st)[fg_sp st := cur_fg st], fg_sp := fg_sp st + 1 \<rparr> else st)"

definition pop_fg :: "html_state \<Rightarrow> html_state" where
  "pop_fg st =
     (if 0 < fg_sp st then set_fg (fg_stack st ! (fg_sp st - 1)) (st\<lparr> fg_sp := fg_sp st - 1 \<rparr>)
      else set_fg (default_fg st) st)"

definition emit :: "u8 \<Rightarrow> html_state \<Rightarrow> html_state" where
  "emit c st = on_page (emit_char_cap c (cur_fg st) (unat (active_width st))) st"

definition emit_bytes :: "bytes \<Rightarrow> html_state \<Rightarrow> html_state" where
  "emit_bytes sl st = on_page (emit_slice_cap sl (cur_fg st) (unat (active_width st))) st"

definition cur_len :: "html_state \<Rightarrow> usize" where
  "cur_len st = bl_len (pg_cur (hs_page st))"

text \<open>The indentation of a line that has no text yet.\<close>

definition emit_indent :: "html_state \<Rightarrow> html_state" where
  "emit_indent st = (if cur_len st = 0 then (emit 0x20 ^^ min (unat (active_indent st)) 24) st else st)"

definition line_break :: "bool \<Rightarrow> rgb \<Rightarrow> html_state \<Rightarrow> html_state" where
  "line_break blank fg st = on_page (emit_break blank fg) st"

section \<open>Hidden elements\<close>

text \<open>Inside an element whose content is skipped: to its end tag, or out of the loop.\<close>

definition skip_element :: "bytes \<Rightarrow> bytes \<Rightarrow> (html_state \<Rightarrow> html_state) \<Rightarrow> html_state \<Rightarrow> loop_turn" where
  "skip_element raw close leave st =
     (case find_sub_ci (drop (hs_i st) raw) close of
        Some rel \<Rightarrow> Continue (leave (go_to (hs_i st + (rel + length close)) st))
      | None \<Rightarrow> Break st)"

text \<open>The collected style sheet, at its end tag.\<close>

definition use_style :: "html_state \<Rightarrow> html_state" where
  "use_style st =
     (let css = take (style_len st) (style_buf st);
          hs = scan_style_for_colors css (hints st)
      in case scan_style_rules css (style_rules st) 0 BROWSER_LINE_CAP of
           (rules, n) \<Rightarrow>
             let st = st\<lparr> hints := hs, style_rules := rules, style_rule_count := n \<rparr>
             in if has_body hs
                then (let st = st\<lparr> default_fg := hint_body hs \<rparr>
                      in if fg_sp st = 0 then set_fg (hint_body hs) st else st)
                else st)"

definition style_element :: "bytes \<Rightarrow> html_state \<Rightarrow> html_state" where
  "style_element raw st =
     (case find_sub_ci (drop (hs_i st) raw) (ascii ''</style>'') of
        Some rel \<Rightarrow>
          let st = (if 0 < style_len st then use_style st else st)
          in go_to (hs_i st + (rel + 8)) (st\<lparr> style_len := 0, in_style := False \<rparr>)
      | None \<Rightarrow>
          let i = hs_i st; n = min (length raw - i) (length (style_buf st) - style_len st)
          in if 0 < n
             then go_to (i + n) (st\<lparr> style_buf := put_at (style_buf st) (style_len st) (slice raw i (i + n)),
                                    style_len := style_len st + n \<rparr>)
             else go_to (length raw) st)"

section \<open>Text\<close>

text \<open>The named references; \<open>None\<close> where the source goes on to the numeric ones.\<close>

definition named_entity :: "bytes \<Rightarrow> html_state \<Rightarrow> html_state option" where
  "named_entity raw st =
     (let i = hs_i st; rest = drop i raw
      in if starts_ci rest 0 (ascii ''&nbsp;'') then Some (go_to (i + 6) (emit 0x20 (emit_indent st)))
         else if starts_ci rest 0 (ascii ''&amp;'') then Some (go_to (i + 5) (emit 0x26 st))
         else if starts_ci rest 0 (ascii ''&lt;'') then Some (go_to (i + 4) (emit 0x3C st))
         else if starts_ci rest 0 (ascii ''&gt;'') then Some (go_to (i + 4) (emit 0x3E st))
         else if starts_ci rest 0 (ascii ''&quot;'') then Some (go_to (i + 6) (emit 0x22 st))
         else None)"

definition entity_turn :: "bytes \<Rightarrow> html_state \<Rightarrow> html_state option" where
  "entity_turn raw st =
     (case named_entity raw st of
        Some st \<Rightarrow> Some st
      | None \<Rightarrow>
          (case parse_numeric_entity (drop (hs_i st) raw) of
             Some (cp, consumed) \<Rightarrow>
               Some (go_to (hs_i st + consumed) (emit_bytes (encode_utf8 (char_from_u32 cp)) st))
           | None \<Rightarrow> None))"

definition last_is_space :: "html_state \<Rightarrow> bool" where
  "last_is_space st = (bl_data (pg_cur (hs_page st)) ! (cur_len st - 1) = 0x20)"

definition char_turn :: "bytes \<Rightarrow> html_state \<Rightarrow> html_state" where
  "char_turn raw st =
     (let i = hs_i st; ch = raw ! i
      in if ch = 0x0A \<or> ch = 0x0D then go_to (i + 1) st
         else if ch = 0x09 \<or> ch = 0x20 then
           go_to (i + 1) (if 0 < cur_len st \<and> \<not> last_is_space st then emit 0x20 st else st)
         else let st = emit_indent st
              in if ch < 0x80 then go_to (i + 1) (emit ch st)
                 else case utf8_lead_len ch of
                     None \<Rightarrow> go_to (i + 1) (emit (byte CHR ''?'') st)
                   | Some len \<Rightarrow>
                       if length raw < i + len \<or> \<not> utf8_seq_valid (slice raw i (i + len))
                       then go_to (i + 1) (emit (byte CHR ''?'') st)
                       else go_to (i + len) (emit_bytes (slice raw i (i + len)) st))"

definition text_turn :: "bytes \<Rightarrow> html_state \<Rightarrow> html_state" where
  "text_turn raw st =
     (case (if raw ! hs_i st = byte CHR ''&'' then entity_turn raw st else None) of
        Some st \<Rightarrow> st
      | None \<Rightarrow> char_turn raw st)"

section \<open>Tags\<close>

function comment_end :: "bytes \<Rightarrow> usize \<Rightarrow> usize" where
  "comment_end raw i =
     (if i + 2 < length raw
         \<and> \<not> (raw ! i = byte CHR ''-'' \<and> raw ! (i + 1) = byte CHR ''-'' \<and> raw ! (i + 2) = byte CHR ''>'')
      then comment_end raw (i + 1) else i)"
  by pat_completeness auto
termination
  by (relation "measure (\<lambda>(raw, i). length raw - i)") auto

declare comment_end.simps [simp del]

definition skip_until_gt :: "bytes \<Rightarrow> usize \<Rightarrow> usize" where
  "skip_until_gt s i =
     (let i = scan_while (\<lambda>c. c \<noteq> byte CHR ''>'') s i in if i < length s then i + 1 else i)"

definition name_is :: "bytes \<Rightarrow> string \<Rightarrow> bool" where
  "name_is name n \<longleftrightarrow> length name = length n \<and> starts_ci name 0 (ascii n)"

definition name_in :: "bytes \<Rightarrow> string list \<Rightarrow> bool" where
  "name_in name ns = list_ex (name_is name) ns"

definition tag_name :: "bytes \<Rightarrow> bytes" where
  "tag_name tag =
     (let name_start = scan_while (\<lambda>c. c = 0x20 \<or> c = 0x09 \<or> c = 0x0A \<or> c = byte CHR ''/'') tag
                         (if tag ! 1 = byte CHR ''/'' then 2 else 1)
      in slice tag name_start (scan_while is_alnum tag name_start))"

text \<open>What a rule or a \<open>style\<close> attribute adds to the style of an element.\<close>

definition merge_style :: "box_style \<Rightarrow> box_style \<Rightarrow> box_style" where
  "merge_style s computed = computed\<lparr>
     bs_color := (case bs_color s of Some c \<Rightarrow> Some c | None \<Rightarrow> bs_color computed),
     bs_display := (if bs_display s \<noteq> Inherit then bs_display s else bs_display computed),
     margin_left := max (margin_left computed) (margin_left s),
     padding_left := max (padding_left computed) (padding_left s),
     margin_top := max (margin_top computed) (margin_top s),
     margin_bottom := max (margin_bottom computed) (margin_bottom s),
     padding_top := max (padding_top computed) (padding_top s),
     padding_bottom := max (padding_bottom computed) (padding_bottom s),
     width_chars := (case width_chars s of Some w \<Rightarrow> Some w | None \<Rightarrow> width_chars computed) \<rparr>"

definition rule_matches :: "bytes \<Rightarrow> bytes \<Rightarrow> style_rule \<Rightarrow> bool" where
  "rule_matches tag name rule =
     (let rn = take (unat (rule_name_len rule)) (rule_name rule)
      in case rule_kind rule of
           Tag_Sel \<Rightarrow> length name = length rn \<and> starts_ci name 0 rn
         | Class_Sel \<Rightarrow>
             (case extract_attr_value tag (ascii ''class'') of Some c \<Rightarrow> class_matches c rn | None \<Rightarrow> False)
         | Id_Sel \<Rightarrow>
             (case extract_attr_value tag (ascii ''id'') of
                Some i \<Rightarrow> length i = length rn \<and> starts_ci i 0 rn | None \<Rightarrow> False))"

definition computed_style :: "bytes \<Rightarrow> bytes \<Rightarrow> html_state \<Rightarrow> box_style" where
  "computed_style tag name st =
     (let computed = fold (\<lambda>rule c. if rule_matches tag name rule then merge_style (rule_style rule) c else c)
                       (take (style_rule_count st) (style_rules st)) box_style_empty
      in case extract_attr_value tag (ascii ''style'') of
           Some s \<Rightarrow> merge_style (parse_inline_box_style s BROWSER_LINE_CAP) computed
         | None \<Rightarrow> computed)"

definition block_tags :: "string list" where
  "block_tags = [''p'', ''div'', ''tr'', ''section'', ''article'', ''main'', ''nav'', ''header'', ''footer'',
     ''blockquote'', ''aside'', ''figure'', ''figcaption'', ''details'', ''summary'', ''pre'']"

text \<open>End tags of these also end the current line: the blocks, list items and headings.\<close>

definition block_end_tags :: "string list" where
  "block_end_tags = [''p'', ''div'', ''li'', ''tr'', ''h1'', ''h2'', ''h3'', ''section'', ''article'',
     ''main'', ''nav'', ''header'', ''footer'', ''blockquote'', ''aside'', ''figure'', ''figcaption'',
     ''details'', ''summary'', ''pre'']"

definition inline_tags :: "string list" where
  "inline_tags = [''b'', ''strong'', ''i'', ''em'', ''code'', ''kbd'', ''samp'', ''mark'']"

definition pop_block :: "html_state \<Rightarrow> html_state" where
  "pop_block st =
     (if 0 < block_sp st
      then st\<lparr> block_sp := block_sp st - 1, active_indent := block_indent_stack st ! (block_sp st - 1),
              active_width := block_width_stack st ! (block_sp st - 1) \<rparr>
      else st\<lparr> active_indent := 0, active_width := 96 \<rparr>)"

definition close_tag :: "bytes \<Rightarrow> html_state \<Rightarrow> html_state" where
  "close_tag name st =
     (let st = (if name_in name [''ul'', ''ol''] then st\<lparr> list_depth := sat_sub (list_depth st) 1 \<rparr> else st);
          st = (if name_in name block_end_tags then pop_block st else st)
      in if name_is name ''a'' then (if a_styled st then (pop_fg st)\<lparr> a_styled := False \<rparr> else st)
         else let st = (if name_in name inline_tags then pop_fg st else st)
              in if name_in name block_end_tags
                 then set_fg (default_fg st)
                        (line_break (name_in name [''p'', ''div'', ''pre'']) (default_fg st) st)
                 else st)"

definition heading :: "rgb \<Rightarrow> rgb option \<Rightarrow> html_state \<Rightarrow> html_state" where
  "heading h color st = set_fg (case color of Some rgb \<Rightarrow> rgb | None \<Rightarrow> h) (line_break True h st)"

definition push_block :: "html_state \<Rightarrow> html_state" where
  "push_block st =
     (if block_sp st < length (block_indent_stack st)
      then st\<lparr> block_indent_stack := (block_indent_stack st)[block_sp st := active_indent st],
              block_width_stack := (block_width_stack st)[block_sp st := active_width st],
              block_sp := block_sp st + 1 \<rparr>
      else st)"

definition open_block :: "box_style \<Rightarrow> html_state \<Rightarrow> html_state" where
  "open_block computed st =
     (let gap = line_break True (default_fg st);
          st = (gap ^^ min (unat (sat_add (margin_top computed) (padding_top computed))) 3) st;
          st = gap st;
          st = push_block st;
          inline_indent = sat_add (margin_left computed) (padding_left computed);
          st = st\<lparr> active_indent := sat_add (sat_add (active_indent st) inline_indent)
                                     (sat_mul (list_depth st) 2) \<rparr>;
          st = (case width_chars computed of
                  Some w \<Rightarrow> st\<lparr> active_width := min (active_width st) (max w 8) \<rparr> | None \<Rightarrow> st)
      in set_fg (default_fg st) st)"

definition open_item :: "box_style \<Rightarrow> html_state \<Rightarrow> html_state" where
  "open_item computed st =
     (let st = (line_break False (default_fg st)
                  ^^ min (unat (sat_add (margin_top computed) (padding_top computed))) 2) st;
          indent = unat (sat_mul (list_depth st) 2) + unat (sat_add (margin_left computed) (padding_left computed));
          st = (emit 0x20 ^^ min indent 16) st
      in emit 0x20 (emit (byte CHR ''-'') st))"

definition open_tag :: "bytes \<Rightarrow> bytes \<Rightarrow> html_state \<Rightarrow> html_state" where
  "open_tag tag name st =
     (let computed = computed_style tag name st; color = bs_color computed
      in if bs_display computed = Hidden then st
         else if name_in name [''ul'', ''ol''] then
           line_break False (default_fg st) (st\<lparr> list_depth := sat_add (list_depth st) 1 \<rparr>)
         else if name_in name [''br'', ''hr''] then
           set_fg (default_fg st) (line_break False (default_fg st) st)
         else if name_is name ''h1'' then
           heading (if has_h1 (hints st) then hint_h1 (hints st) else (0x00, 0x40, 0x90)) color st
         else if name_is name ''h2'' then
           heading (if has_h2 (hints st) then hint_h2 (hints st) else (0x10, 0x60, 0x70)) color st
         else if name_is name ''h3'' then heading (0x44, 0x44, 0x88) color st
         else if name_in name [''b'', ''strong''] then set_fg (0x11, 0x11, 0x11) (push_fg st)
         else if name_in name [''i'', ''em''] then set_fg (0x55, 0x44, 0x77) (push_fg st)
         else if name_in name [''code'', ''kbd'', ''samp''] then set_fg (0x1a, 0x55, 0x33) (push_fg st)
         else if name_is name ''mark'' then set_fg (0xaa, 0x66, 0x00) (push_fg st)
         else if name_is name ''a'' then
           (if tag_href_value_dangerous tag then st
            else set_fg (case color of Some rgb \<Rightarrow> rgb | None \<Rightarrow> hint_link (hints st))
                   (push_fg (st\<lparr> a_styled := True \<rparr>)))
         else if name_in name block_tags then open_block computed st
         else if name_is name ''li'' then open_item computed st
         else st)"

definition element_turn :: "bytes \<Rightarrow> html_state \<Rightarrow> loop_turn" where
  "element_turn raw st =
     (let i = hs_i st; tag_end = scan_while (\<lambda>c. c \<noteq> byte CHR ''>'') raw (i + 1)
      in if length raw \<le> tag_end then Break st
         else let tag = slice raw i tag_end; st = go_to (tag_end + 1) st
              in Continue
                   (if length tag < 2 then st
                    else if tag ! 1 = byte CHR ''/'' then close_tag (tag_name tag) st
                    else open_tag tag (tag_name tag) st))"

text \<open>
  The \<open><script\<close> branch: the element counts as stripped unless its type is a data type.
\<close>

definition script_turn :: "bytes \<Rightarrow> html_state \<Rightarrow> loop_turn" where
  "script_turn raw st =
     (let i = hs_i st; te = scan_while (\<lambda>c. c \<noteq> byte CHR ''>'') raw (i + 1)
      in if length raw \<le> te then Break st
         else let st = (if script_mime_is_non_javascript (slice raw i (te + 1)) then st
                        else st\<lparr> scripts_stripped := True \<rparr>)
              in Continue (go_to (te + 1) (st\<lparr> in_script := True \<rparr>)))"

definition tag_turn :: "bytes \<Rightarrow> html_state \<Rightarrow> loop_turn" where
  "tag_turn raw st =
     (let i = hs_i st; at = (\<lambda>p. starts_ci raw i (ascii p)); past = go_to (skip_until_gt raw i)
      in if at ''<!--'' then Continue (go_to (min (comment_end raw (i + 4) + 3) (length raw)) st)
         else if at ''<meta'' \<or> at ''<link'' \<or> at ''<base'' then Continue (past st)
         else if at ''<script'' then script_turn raw st
         else if at ''<iframe'' then Continue (past (st\<lparr> in_iframe := True \<rparr>))
         else if at ''<object'' then Continue (past (st\<lparr> in_object := True \<rparr>))
         else if at ''<embed'' then Continue (past st)
         else if at ''<style'' then Continue (past (st\<lparr> in_style := True, style_len := 0 \<rparr>))
         else if at ''<template'' then Continue (past (st\<lparr> in_template := True \<rparr>))
         else if at ''<title'' then Continue (past (st\<lparr> in_title := True \<rparr>))
         else element_turn raw st)"

section \<open>The loop\<close>

definition html_turn :: "bytes \<Rightarrow> html_state \<Rightarrow> loop_turn" where
  "html_turn raw st =
     (if BROWSER_MAX_LINES \<le> pg_count (hs_page st) then Break (on_page (\<lambda>pg. pg\<lparr> pg_trunc := True \<rparr>) st)
      else if in_script st then skip_element raw (ascii ''</script>'') (\<lambda>st. st\<lparr> in_script := False \<rparr>) st
      else if in_template st then skip_element raw (ascii ''</template>'') (\<lambda>st. st\<lparr> in_template := False \<rparr>) st
      else if in_iframe st then skip_element raw (ascii ''</iframe>'') (\<lambda>st. st\<lparr> in_iframe := False \<rparr>) st
      else if in_object st then skip_element raw (ascii ''</object>'') (\<lambda>st. st\<lparr> in_object := False \<rparr>) st
      else if in_title st then skip_element raw (ascii ''</title>'') (\<lambda>st. st\<lparr> in_title := False \<rparr>) st
      else if in_style st then Continue (style_element raw st)
      else if raw ! hs_i st \<noteq> byte CHR ''<'' then Continue (text_turn raw st)
      else tag_turn raw st)"

text \<open>The position moves by \<open>go_to\<close> only.\<close>

lemma hs_i_simps [simp]:
  "hs_i (go_to k st) = k" "hs_i (on_page f st) = hs_i st" "hs_i (set_fg c st) = hs_i st"
  "hs_i (push_fg st) = hs_i st" "hs_i (pop_fg st) = hs_i st" "hs_i (emit b st) = hs_i st"
  "hs_i (emit_bytes bs st) = hs_i st" "hs_i (line_break blank c st) = hs_i st"
  "hs_i (use_style st) = hs_i st" "hs_i (pop_block st) = hs_i st" "hs_i (push_block st) = hs_i st"
  by (simp_all add: go_to_def on_page_def set_fg_def push_fg_def pop_fg_def emit_def emit_bytes_def
      line_break_def use_style_def pop_block_def push_block_def Let_def split: prod.split)

lemma hs_i_funpow: "(\<And>st. hs_i (f st) = hs_i st) \<Longrightarrow> hs_i ((f ^^ n) st) = hs_i st" for f :: "html_state \<Rightarrow> html_state"
  by (induction n) auto

lemma hs_i_more [simp]:
  "hs_i (emit_indent st) = hs_i st" "hs_i (close_tag name st) = hs_i st"
  "hs_i (heading h color st) = hs_i st" "hs_i (open_block cs st) = hs_i st"
  "hs_i (open_item cs st) = hs_i st"
  by (simp_all add: emit_indent_def hs_i_funpow close_tag_def heading_def open_block_def open_item_def Let_def
      split: option.split)

lemma hs_i_open_tag [simp]: "hs_i (open_tag tag name st) = hs_i st"
  by (simp add: open_tag_def Let_def)

lemma numeric_entity_pos: "parse_numeric_entity s = Some (cp, n) \<Longrightarrow> 0 < n"
  by (auto simp: parse_numeric_entity_def Let_def bind_eq_Some_conv split: if_splits)

lemma entity_turn_gt: "entity_turn raw st = Some st' \<Longrightarrow> hs_i st < hs_i st'"
  by (auto simp: entity_turn_def named_entity_def Let_def split: if_splits option.splits
      dest: numeric_entity_pos)

lemma char_turn_gt: "hs_i st < hs_i (char_turn raw st)"
  using utf8_lead_len_pos [of "raw ! hs_i st"]
  by (auto simp: char_turn_def Let_def split: option.split)

lemma text_turn_gt: "hs_i st < hs_i (text_turn raw st)"
  using entity_turn_gt [of raw st] char_turn_gt [of st raw]
  by (auto simp: text_turn_def split: option.split)

lemma comment_end_ge: "i \<le> comment_end raw i"
proof (induction raw i rule: comment_end.induct)
  case (1 raw i)
  then show ?case by (subst comment_end.simps) auto
qed

lemma skip_until_gt_gt:
  assumes "i < length s" "s ! i \<noteq> byte CHR ''>''"
  shows "i < skip_until_gt s i"
proof -
  have "scan_while (\<lambda>c. c \<noteq> byte CHR ''>'') s i = scan_while (\<lambda>c. c \<noteq> byte CHR ''>'') s (i + 1)"
    using assms by (subst scan_while.simps) simp
  then have "i < scan_while (\<lambda>c. c \<noteq> byte CHR ''>'') s i" by simp
  then show ?thesis by (simp add: skip_until_gt_def Let_def)
qed

lemma style_element_gt: "hs_i st < length raw \<Longrightarrow> hs_i st < hs_i (style_element raw st)"
  by (auto simp: style_element_def Let_def split: option.split)

lemma skip_element_gt:
  "skip_element raw close leave st = Continue st' \<Longrightarrow> close \<noteq> [] \<Longrightarrow> (\<And>st. hs_i (leave st) = hs_i st)
    \<Longrightarrow> hs_i st < hs_i st'"
  by (auto simp: skip_element_def split: option.splits)

lemma element_turn_gt: "element_turn raw st = Continue st' \<Longrightarrow> hs_i st < hs_i st'"
  by (auto simp: element_turn_def Let_def less_Suc_eq_le split: if_splits)

lemma script_turn_gt: "script_turn raw st = Continue st' \<Longrightarrow> hs_i st < hs_i st'"
  by (auto simp: script_turn_def Let_def less_Suc_eq_le split: if_splits)

lemma tag_turn_gt:
  assumes "tag_turn raw st = Continue st'" "hs_i st < length raw" "raw ! hs_i st = byte CHR ''<''"
  shows "hs_i st < hs_i st'"
  using assms comment_end_ge [of "hs_i st + 4" raw] skip_until_gt_gt [of "hs_i st" raw]
  by (auto simp: tag_turn_def Let_def dest: script_turn_gt element_turn_gt split: if_splits)

lemma html_turn_gt:
  assumes "html_turn raw st = Continue st'" "hs_i st < length raw"
  shows "hs_i st < hs_i st'"
  using assms
  by (auto simp: html_turn_def style_element_gt text_turn_gt bytes_simps
      dest: skip_element_gt tag_turn_gt split: if_splits)

function html_loop :: "bytes \<Rightarrow> html_state \<Rightarrow> html_state" where
  "html_loop raw st =
     (if hs_i st < length raw then
        (case html_turn raw st of Break st \<Rightarrow> st | Continue st \<Rightarrow> html_loop raw st)
      else st)"
  by pat_completeness auto
termination
  by (relation "measure (\<lambda>(raw, st). length raw - hs_i st)") (auto dest: html_turn_gt)

declare html_loop.simps [simp del]

section \<open>The document\<close>

text \<open>\<open>HTML_RENDER_LINES\<close>, \<open>STYLE_SCRATCH\<close> and \<open>DOM_TREE\<close>.\<close>

record html_globals =
  render_lines :: "browser_line list"
  style_scratch :: bytes
  html_dom :: dom_tree

definition html_globals_new :: html_globals where
  "html_globals_new = \<lparr> render_lines = replicate BROWSER_MAX_LINES (browser_line_new (0, 0, 0)),
     style_scratch = replicate 2048 0, html_dom = dom_tree_new \<rparr>"

definition initial_hints :: "rgb \<Rightarrow> css_hints" where
  "initial_hints default_body_rgb = \<lparr> hint_body = default_body_rgb, hint_h1 = (0x00, 0x40, 0x90),
     hint_h2 = (0x10, 0x60, 0x70), hint_link = (0x22, 0x22, 0xcc),
     has_body = False, has_h1 = False, has_h2 = False \<rparr>"

definition html_start :: "rgb \<Rightarrow> html_globals \<Rightarrow> html_state" where
  "html_start default_body_rgb g = \<lparr> hs_i = 0, in_script = False, in_template = False, in_iframe = False,
     in_object = False, in_title = False, in_style = False, a_styled = False, list_depth = 0,
     style_buf = style_scratch g, style_len = 0, style_rules = replicate 32 style_rule_empty,
     style_rule_count = 0, block_indent_stack = replicate 16 0, block_width_stack = replicate 16 96,
     block_sp = 0, hints = initial_hints default_body_rgb, default_fg = default_body_rgb,
     fg_stack = replicate 12 (0, 0, 0), fg_sp = 0, cur_fg = default_body_rgb, active_indent = 0,
     active_width = 96, scripts_stripped = False,
     hs_page = \<lparr> pg_lines = render_lines g, pg_count = 0, pg_cur = browser_line_new default_body_rgb,
                 pg_trunc = False \<rparr> \<rparr>"

definition no_js_note :: browser_line where
  "no_js_note =
     (let msg = ascii ''[NO REACT/JS VM; CSS3 LAYOUT N/I--STATIC HTML OR SSR FOR EVE]'';
          n = min (length msg) BROWSER_LINE_CAP
      in \<lparr> bl_data = put_at (replicate BROWSER_LINE_CAP 0) 0 (take n msg), bl_len = n, bl_rgb = (0x88, 0x55, 0x22) \<rparr>)"

definition html_finish :: "html_state \<Rightarrow> html_state" where
  "html_finish st =
     (let pg = hs_page st;
          pg = (if 0 < bl_len (pg_cur pg) \<and> pg_count pg < BROWSER_MAX_LINES then flush_line pg else pg);
          pg = (if scripts_stripped st \<and> pg_count pg < BROWSER_MAX_LINES
                then pg\<lparr> pg_lines := (pg_lines pg)[pg_count pg := no_js_note], pg_count := pg_count pg + 1 \<rparr>
                else pg)
      in st\<lparr> hs_page := pg \<rparr>)"

text \<open>
  The results are the globals, \<open>line_count\<close>, \<open>html_truncated\<close> and \<open>scripts_stripped\<close>; \<open>None\<close> stands for
  a walk along the text tree that does not end.
\<close>

definition format_document ::
  "bytes \<Rightarrow> rgb \<Rightarrow> html_globals \<Rightarrow> (html_globals \<times> usize \<times> bool \<times> bool) option" where
  "format_document raw default_body_rgb g =
     (case build_text_dom raw (html_dom g) of
        None \<Rightarrow> None
      | Some tree \<Rightarrow>
          let g = g\<lparr> html_dom := tree \<rparr>
          in if \<not> looks_like_html raw then
               let pg = plain_lines raw default_body_rgb
                     \<lparr> pg_lines = render_lines g, pg_count = 0, pg_cur = browser_line_new default_body_rgb,
                       pg_trunc = False \<rparr>
               in Some (g\<lparr> render_lines := pg_lines pg \<rparr>, pg_count pg, pg_trunc pg, False)
             else
               let st = html_finish (html_loop raw (html_start default_body_rgb g)); pg = hs_page st
               in Some (g\<lparr> render_lines := pg_lines pg, style_scratch := style_buf st \<rparr>,
                        pg_count pg, pg_trunc pg, scripts_stripped st))"

section \<open>Invariant\<close>

text \<open>Every fixed array has its size and every index into it is at most that size.\<close>

definition html_ok :: "html_state \<Rightarrow> bool" where
  "html_ok st \<longleftrightarrow> page_ok (hs_page st)
     \<and> length (block_indent_stack st) = 16 \<and> length (block_width_stack st) = 16 \<and> block_sp st \<le> 16
     \<and> length (fg_stack st) = 12 \<and> fg_sp st \<le> 12
     \<and> length (style_buf st) = 2048 \<and> style_len st \<le> 2048
     \<and> length (style_rules st) = 32 \<and> style_rule_count st \<le> 32"

lemma html_ok_page: "html_ok st \<Longrightarrow> page_ok (f (hs_page st)) \<Longrightarrow> html_ok (on_page f st)"
  by (simp add: html_ok_def on_page_def)

lemma html_ok_go_to [simp]: "html_ok (go_to k st) = html_ok st"
  by (simp add: html_ok_def go_to_def)

lemma page_ok_rgb: "page_ok pg \<Longrightarrow> page_ok (pg\<lparr> pg_cur := (pg_cur pg)\<lparr> bl_rgb := c \<rparr> \<rparr>)"
  by (simp add: page_ok_def line_ok_def)

lemma html_ok_set_fg: "html_ok st \<Longrightarrow> html_ok (set_fg c st)"
  by (simp add: html_ok_def set_fg_def on_page_def page_ok_rgb)

lemma html_ok_push_fg: "html_ok st \<Longrightarrow> html_ok (push_fg st)"
  by (simp add: html_ok_def push_fg_def)

lemma html_ok_pop_fg: "html_ok st \<Longrightarrow> html_ok (pop_fg st)"
  unfolding pop_fg_def by (simp add: html_ok_set_fg) (intro impI html_ok_set_fg, auto simp: html_ok_def)

lemma html_ok_emit: "html_ok st \<Longrightarrow> html_ok (emit c st)"
  unfolding emit_def by (rule html_ok_page) (simp_all add: html_ok_def page_ok_char_cap)

lemma html_ok_emit_bytes: "html_ok st \<Longrightarrow> html_ok (emit_bytes sl st)"
  unfolding emit_bytes_def by (rule html_ok_page) (simp_all add: html_ok_def page_ok_slice_cap)

lemma html_ok_break: "html_ok st \<Longrightarrow> html_ok (line_break blank fg st)"
  unfolding line_break_def by (rule html_ok_page) (simp_all add: html_ok_def page_ok_break)

lemma html_ok_funpow:
  "html_ok st \<Longrightarrow> (\<And>st. html_ok st \<Longrightarrow> html_ok (f st)) \<Longrightarrow> html_ok ((f ^^ n) st)"
  for f :: "html_state \<Rightarrow> html_state"
  by (induction n) auto

lemma html_ok_indent: "html_ok st \<Longrightarrow> html_ok (emit_indent st)"
  by (simp add: emit_indent_def html_ok_funpow html_ok_emit)

lemma html_ok_flags [simp]:
  "html_ok (st\<lparr> a_styled := b \<rparr>) = html_ok st" "html_ok (st\<lparr> list_depth := d \<rparr>) = html_ok st"
  "html_ok (st\<lparr> in_script := b \<rparr>) = html_ok st" "html_ok (st\<lparr> in_template := b \<rparr>) = html_ok st"
  "html_ok (st\<lparr> in_iframe := b \<rparr>) = html_ok st" "html_ok (st\<lparr> in_object := b \<rparr>) = html_ok st"
  "html_ok (st\<lparr> in_title := b \<rparr>) = html_ok st" "html_ok (st\<lparr> scripts_stripped := b \<rparr>) = html_ok st"
  "html_ok (st\<lparr> active_indent := d \<rparr>) = html_ok st" "html_ok (st\<lparr> active_width := d \<rparr>) = html_ok st"
  "html_ok (st\<lparr> default_fg := c \<rparr>) = html_ok st"
  by (simp_all add: html_ok_def)

lemmas html_ok_intros = html_ok_set_fg html_ok_push_fg html_ok_pop_fg html_ok_emit html_ok_emit_bytes
  html_ok_break html_ok_funpow html_ok_indent

lemma rules_loop_bound:
  assumes "rule_count \<le> length rules" "rules_loop css line_cap i rules rule_count = (rules', n)"
  shows "length rules' = length rules \<and> n \<le> length rules"
  using assms
proof (induction css line_cap i rules rule_count rule: rules_loop.induct)
  case (1 css line_cap i rules rule_count)
  show ?case
  proof (cases "i < length css \<and> rule_count < length rules \<and> next_block css i \<noteq> None")
    case True
    then obtain sel decl k where b: "next_block css i = Some (sel, decl, k)" by fastforce
    have step: "rules_loop css line_cap i rules rule_count
        = (case rule_of sel decl line_cap of None \<Rightarrow> rules_loop css line_cap k rules rule_count
           | Some rule \<Rightarrow> rules_loop css line_cap k (rules[rule_count := rule]) (rule_count + 1))"
      using True b by (subst rules_loop.simps) simp
    show ?thesis
    proof (cases "rule_of sel decl line_cap")
      case None
      with True b step "1.IH"(1) [OF _ b refl refl None] "1.prems" show ?thesis by simp
    next
      case (Some rule)
      with True b step "1.IH"(2) [OF _ b refl refl Some] "1.prems" show ?thesis by simp
    qed
  next
    case False
    then have "rules_loop css line_cap i rules rule_count = (rules, rule_count)"
      by (subst rules_loop.simps) (auto split: option.split)
    with "1.prems" show ?thesis by simp
  qed
qed

lemma html_ok_use_style: "html_ok st \<Longrightarrow> html_ok (use_style st)"
proof -
  assume ok: "html_ok st"
  obtain rules n where r: "scan_style_rules (take (style_len st) (style_buf st)) (style_rules st) 0 96 = (rules, n)"
    by fastforce
  then have "length rules = 32 \<and> n \<le> 32"
    using rules_loop_bound [of 0 "style_rules st" _ 96 0 rules n] ok by (auto simp: scan_style_rules_def html_ok_def)
  then have "html_ok (st\<lparr> hints := h, style_rules := rules, style_rule_count := n \<rparr>)" for h
    using ok by (simp add: html_ok_def)
  then show ?thesis by (simp add: use_style_def r Let_def html_ok_set_fg)
qed

lemma html_ok_style_element: "html_ok st \<Longrightarrow> html_ok (style_element raw st)"
proof (cases "find_sub_ci (drop (hs_i st) raw) (ascii ''</style>'')")
  case (Some rel)
  assume "html_ok st"
  then have "html_ok ((if 0 < style_len st then use_style st else st)\<lparr> style_len := 0, in_style := False \<rparr>)"
    using html_ok_use_style [of st] by (simp add: html_ok_def)
  with Some show ?thesis by (simp add: style_element_def Let_def)
next
  case None
  assume "html_ok st"
  then have put: "html_ok (st\<lparr> style_buf := put_at (style_buf st) (style_len st) src, style_len := style_len st + n \<rparr>)"
    if "length src = n" "style_len st + n \<le> 2048" for src n
    using that by (simp add: html_ok_def)
  have "html_ok st" "length (style_buf st) = 2048" "style_len st \<le> 2048"
    using \<open>html_ok st\<close> by (simp_all add: html_ok_def)
  then show ?thesis using None by (auto simp: style_element_def Let_def intro!: put)
qed

lemma html_ok_text_turn: "html_ok st \<Longrightarrow> html_ok (text_turn raw st)"
  by (auto simp: text_turn_def entity_turn_def named_entity_def char_turn_def Let_def html_ok_intros
      split: option.split if_splits)

lemma html_ok_pop_block: "html_ok st \<Longrightarrow> html_ok (pop_block st)"
  by (auto simp: html_ok_def pop_block_def)

lemma html_ok_close_tag: "html_ok st \<Longrightarrow> html_ok (close_tag name st)"
  unfolding close_tag_def Let_def by (simp add: html_ok_intros html_ok_pop_block)

lemma html_ok_push_block: "html_ok st \<Longrightarrow> html_ok (push_block st)"
  by (simp add: html_ok_def push_block_def)

lemma html_ok_open_block: "html_ok st \<Longrightarrow> html_ok (open_block cs st)"
  unfolding open_block_def Let_def
  by (simp add: html_ok_intros html_ok_push_block split: option.split)

lemma html_ok_open_item: "html_ok st \<Longrightarrow> html_ok (open_item cs st)"
  unfolding open_item_def Let_def by (simp add: html_ok_intros)

lemma html_ok_open_tag: "html_ok st \<Longrightarrow> html_ok (open_tag tag name st)"
  unfolding open_tag_def Let_def
  by (simp add: html_ok_intros html_ok_open_block html_ok_open_item heading_def)

definition turn_state :: "loop_turn \<Rightarrow> html_state" where
  "turn_state t = (case t of Break st \<Rightarrow> st | Continue st \<Rightarrow> st)"

lemma html_ok_skip: "html_ok st \<Longrightarrow> (\<And>st. html_ok (leave st) = html_ok st) \<Longrightarrow>
    html_ok (turn_state (skip_element raw close leave st))"
  by (simp add: skip_element_def turn_state_def split: option.split)

lemma html_ok_tag_turn: "html_ok st \<Longrightarrow> html_ok (turn_state (tag_turn raw st))"
proof -
  assume ok: "html_ok st"
  then have "html_ok (turn_state (element_turn raw st))" "html_ok (turn_state (script_turn raw st))"
    by (simp_all add: element_turn_def script_turn_def turn_state_def Let_def html_ok_close_tag html_ok_open_tag)
  moreover have "html_ok (st\<lparr> in_style := True, style_len := 0 \<rparr>)" using ok by (simp add: html_ok_def)
  ultimately show ?thesis using ok by (simp add: tag_turn_def Let_def) (simp add: turn_state_def)
qed

lemma html_ok_turn: "html_ok st \<Longrightarrow> html_ok (turn_state (html_turn raw st))"
  unfolding html_turn_def
  using html_ok_tag_turn [of st raw] html_ok_style_element [of st raw] html_ok_text_turn [of st raw]
    html_ok_page [of st "\<lambda>pg. pg\<lparr> pg_trunc := True \<rparr>"]
  by (simp add: html_ok_skip) (simp add: turn_state_def html_ok_def)

text \<open>What every turn keeps, the loop keeps.\<close>

lemma html_loop_invariant:
  assumes "\<And>st. P st \<Longrightarrow> hs_i st < length raw \<Longrightarrow> P (turn_state (html_turn raw st))" "P st"
  shows "P (html_loop raw st)"
  using assms(2)
proof (induction "length raw - hs_i st" arbitrary: st rule: less_induct)
  case less
  show ?case
  proof (cases "hs_i st < length raw")
    case True
    have P: "P (turn_state (html_turn raw st))" using assms(1) less.prems True by blast
    show ?thesis
    proof (cases "html_turn raw st")
      case (Break st')
      with True P show ?thesis by (subst html_loop.simps) (simp add: turn_state_def)
    next
      case (Continue st')
      have "hs_i st < hs_i st'" using html_turn_gt [OF Continue True] .
      with less.hyps [of st'] True P Continue show ?thesis
        by (subst html_loop.simps) (simp add: turn_state_def)
    qed
  next
    case False
    with less.prems show ?thesis by (subst html_loop.simps) simp
  qed
qed

lemma html_loop_ok: "html_ok st \<Longrightarrow> html_ok (html_loop raw st)"
  by (rule html_loop_invariant [of html_ok]) (simp_all add: html_ok_turn)

lemma line_ok_note: "line_ok no_js_note"
  by (simp add: line_ok_def no_js_note_def Let_def put_at_def)

lemma html_finish_ok: "html_ok st \<Longrightarrow> html_ok (html_finish st)"
proof -
  assume ok: "html_ok st"
  define pg where "pg = (if 0 < bl_len (pg_cur (hs_page st)) \<and> pg_count (hs_page st) < BROWSER_MAX_LINES
    then flush_line (hs_page st) else hs_page st)"
  have "page_ok pg" using ok by (simp add: pg_def html_ok_def page_ok_flush)
  then have "page_ok (if scripts_stripped st \<and> pg_count pg < BROWSER_MAX_LINES
                then pg\<lparr> pg_lines := (pg_lines pg)[pg_count pg := no_js_note], pg_count := pg_count pg + 1 \<rparr>
                else pg)"
    by (auto simp: page_ok_def list_all_update line_ok_note)
  with ok show ?thesis unfolding html_finish_def Let_def pg_def [symmetric] by (simp add: html_ok_def)
qed

definition globals_ok :: "html_globals \<Rightarrow> bool" where
  "globals_ok g \<longleftrightarrow> length (render_lines g) = BROWSER_MAX_LINES \<and> list_all line_ok (render_lines g)
     \<and> length (style_scratch g) = 2048"

lemma html_start_ok: "globals_ok g \<Longrightarrow> html_ok (html_start fg g)"
  by (simp add: globals_ok_def html_ok_def html_start_def page_ok_def)

section \<open>Style sheets are not applied\<close>

text \<open>
  The end tag of a \<open>style\<close> element is looked for in the whole rest of the document, and what precedes
  it is collected only when it is not there: a style sheet is never read.
\<close>

definition unstyled :: "bytes \<Rightarrow> css_hints \<Rightarrow> html_state \<Rightarrow> bool" where
  "unstyled raw h st \<longleftrightarrow> hints st = h \<and> style_rule_count st = 0
     \<and> (in_style st \<and> 0 < style_len st \<longrightarrow> find_sub_ci (drop (hs_i st) raw) (ascii ''</style>'') = None)"

text \<open>The fields the text and tag operations leave alone.\<close>

definition sheet :: "html_state \<Rightarrow> css_hints \<times> usize \<times> bool \<times> usize" where
  "sheet st = (hints st, style_rule_count st, in_style st, style_len st)"

lemma sheet_simps [simp]:
  "sheet (go_to k st) = sheet st" "sheet (on_page f st) = sheet st" "sheet (set_fg c st) = sheet st"
  "sheet (push_fg st) = sheet st" "sheet (pop_fg st) = sheet st" "sheet (emit x st) = sheet st"
  "sheet (emit_bytes bs st) = sheet st" "sheet (line_break blank c st) = sheet st"
  "sheet (pop_block st) = sheet st" "sheet (push_block st) = sheet st"
  "sheet (st\<lparr> a_styled := b \<rparr>) = sheet st" "sheet (st\<lparr> list_depth := d \<rparr>) = sheet st"
  "sheet (st\<lparr> active_indent := d \<rparr>) = sheet st" "sheet (st\<lparr> active_width := d \<rparr>) = sheet st"
  by (simp_all add: sheet_def go_to_def on_page_def set_fg_def push_fg_def pop_fg_def emit_def emit_bytes_def
      line_break_def pop_block_def push_block_def)

lemma sheet_funpow: "(\<And>st. sheet (f st) = sheet st) \<Longrightarrow> sheet ((f ^^ n) st) = sheet st"
  for f :: "html_state \<Rightarrow> html_state"
  by (induction n) auto

lemma sheet_text [simp]: "sheet (text_turn raw st) = sheet st"
  by (simp add: text_turn_def entity_turn_def named_entity_def char_turn_def emit_indent_def sheet_funpow
      Let_def split: option.split)

lemma sheet_open [simp]: "sheet (open_tag tag name st) = sheet st"
  by (simp add: open_tag_def open_block_def open_item_def heading_def sheet_funpow Let_def split: option.split)

lemma sheet_close [simp]: "sheet (close_tag name st) = sheet st"
  by (simp add: close_tag_def Let_def)

lemma sheet_element [simp]: "sheet (turn_state (element_turn raw st)) = sheet st"
  by (simp add: element_turn_def turn_state_def Let_def)

lemma sheet_eq: "sheet st' = sheet st \<longleftrightarrow> hints st' = hints st \<and> style_rule_count st' = style_rule_count st
    \<and> in_style st' = in_style st \<and> style_len st' = style_len st"
  by (auto simp: sheet_def)

lemma unstyled_mono:
  assumes "unstyled raw h st" "sheet st' = sheet st" "hs_i st \<le> hs_i st'"
  shows "unstyled raw h st'"
  using assms find_sub_ci_drop_None [of "drop (hs_i st) raw" _ "hs_i st' - hs_i st"]
  by (auto simp: unstyled_def sheet_eq)

lemma unstyled_style_element:
  assumes "unstyled raw h st" "in_style st" "hs_i st < length raw"
  shows "unstyled raw h (style_element raw st)"
proof (cases "find_sub_ci (drop (hs_i st) raw) (ascii ''</style>'')")
  case (Some rel)
  with assms have "style_len st = 0" by (simp add: unstyled_def)
  with Some assms show ?thesis by (simp add: style_element_def unstyled_def go_to_def)
next
  case None
  have "hs_i st \<le> k \<Longrightarrow> find_sub_ci (drop k raw) (ascii ''</style>'') = None" for k
    using find_sub_ci_drop_None [OF None, of "k - hs_i st"] by simp
  with None assms show ?thesis by (simp add: style_element_def unstyled_def go_to_def Let_def)
qed

lemma unstyled_tag_turn:
  assumes "unstyled raw h st" "hs_i st < length raw" "raw ! hs_i st = byte CHR ''<''"
  shows "unstyled raw h (turn_state (tag_turn raw st))"
proof (cases "tag_turn raw st")
  case (Break st')
  then have "st' = st"
    by (auto simp: tag_turn_def Let_def element_turn_def script_turn_def split: if_splits)
  with Break assms show ?thesis by (simp add: turn_state_def)
next
  case (Continue st')
  have i: "hs_i st \<le> hs_i st'" using tag_turn_gt [OF Continue assms(2,3)] by simp
  have "sheet st' = sheet st \<or> hints st' = hints st \<and> style_rule_count st' = style_rule_count st \<and> style_len st' = 0"
    using Continue sheet_element [of raw st]
    by (auto simp: tag_turn_def Let_def script_turn_def turn_state_def sheet_def go_to_def split: if_splits)
  then show ?thesis
    using unstyled_mono [OF assms(1) _ i] Continue assms(1) by (auto simp: turn_state_def unstyled_def)
qed

lemma unstyled_skip:
  assumes "unstyled raw h st" "\<And>st. sheet (leave st) = sheet st" "\<And>st. hs_i (leave st) = hs_i st"
  shows "unstyled raw h (turn_state (skip_element raw close leave st))"
  using assms by (auto simp: skip_element_def turn_state_def intro: unstyled_mono split: option.split)

lemma unstyled_turn:
  assumes "unstyled raw h st" "hs_i st < length raw"
  shows "unstyled raw h (turn_state (html_turn raw st))"
proof -
  have "unstyled raw h (text_turn raw st)"
    by (rule unstyled_mono [OF assms(1)]) (simp_all add: less_imp_le text_turn_gt)
  moreover have "unstyled raw h (on_page (\<lambda>pg. pg\<lparr> pg_trunc := True \<rparr>) st)"
    by (rule unstyled_mono [OF assms(1)]) simp_all
  moreover have "unstyled raw h (turn_state (skip_element raw close leave st))"
    if "\<And>st. sheet (leave st) = sheet st" "\<And>st. hs_i (leave st) = hs_i st" for close leave
    using that assms(1) by (intro unstyled_skip) auto
  ultimately show ?thesis
    unfolding html_turn_def
    using assms unstyled_style_element [OF assms(1) _ assms(2)] unstyled_tag_turn [OF assms]
    by (simp add: sheet_def) (simp add: turn_state_def)
qed

lemma unstyled_loop: "unstyled raw h st \<Longrightarrow> unstyled raw h (html_loop raw st)"
  by (rule html_loop_invariant [of "unstyled raw h"]) (simp_all add: unstyled_turn)

lemma unstyled_start: "unstyled raw (initial_hints fg) (html_start fg g)"
  by (simp add: unstyled_def html_start_def)

section \<open>Reading depends on the rest of the document\<close>

definition advance :: "nat \<Rightarrow> html_state \<Rightarrow> html_state" where
  "advance n st = go_to (n + hs_i st) st"

fun map_turn :: "(html_state \<Rightarrow> html_state) \<Rightarrow> loop_turn \<Rightarrow> loop_turn" where
  "map_turn f (Break st) = Break (f st)"
| "map_turn f (Continue st) = Continue (f st)"

lemma advance_fields [simp]:
  "hs_i (advance n st) = n + hs_i st" "hs_page (advance n st) = hs_page st" "cur_fg (advance n st) = cur_fg st"
  "active_width (advance n st) = active_width st" "active_indent (advance n st) = active_indent st"
  "default_fg (advance n st) = default_fg st" "hints (advance n st) = hints st"
  "fg_sp (advance n st) = fg_sp st" "fg_stack (advance n st) = fg_stack st"
  "a_styled (advance n st) = a_styled st" "list_depth (advance n st) = list_depth st"
  "style_len (advance n st) = style_len st" "style_buf (advance n st) = style_buf st"
  "style_rules (advance n st) = style_rules st" "style_rule_count (advance n st) = style_rule_count st"
  "in_script (advance n st) = in_script st" "in_template (advance n st) = in_template st"
  "in_iframe (advance n st) = in_iframe st" "in_object (advance n st) = in_object st"
  "in_title (advance n st) = in_title st" "in_style (advance n st) = in_style st"
  "block_sp (advance n st) = block_sp st" "block_indent_stack (advance n st) = block_indent_stack st"
  "block_width_stack (advance n st) = block_width_stack st" "cur_len (advance n st) = cur_len st"
  by (simp_all add: advance_def go_to_def cur_len_def)

lemma advance_ops [simp]:
  "go_to k (advance n st) = go_to k st" "advance n (go_to k st) = go_to (n + k) st"
  "on_page f (advance n st) = advance n (on_page f st)" "set_fg c (advance n st) = advance n (set_fg c st)"
  "push_fg (advance n st) = advance n (push_fg st)" "pop_fg (advance n st) = advance n (pop_fg st)"
  "emit x (advance n st) = advance n (emit x st)" "emit_bytes xs (advance n st) = advance n (emit_bytes xs st)"
  "line_break blank c (advance n st) = advance n (line_break blank c st)"
  "pop_block (advance n st) = advance n (pop_block st)" "push_block (advance n st) = advance n (push_block st)"
  "(advance n st)\<lparr> a_styled := b \<rparr> = advance n (st\<lparr> a_styled := b \<rparr>)"
  "(advance n st)\<lparr> list_depth := d \<rparr> = advance n (st\<lparr> list_depth := d \<rparr>)"
  "(advance n st)\<lparr> active_indent := d \<rparr> = advance n (st\<lparr> active_indent := d \<rparr>)"
  "(advance n st)\<lparr> active_width := d \<rparr> = advance n (st\<lparr> active_width := d \<rparr>)"
  "(advance n st)\<lparr> style_len := l \<rparr> = advance n (st\<lparr> style_len := l \<rparr>)"
  "(advance n st)\<lparr> style_buf := ys \<rparr> = advance n (st\<lparr> style_buf := ys \<rparr>)"
  "(advance n st)\<lparr> scripts_stripped := b \<rparr> = advance n (st\<lparr> scripts_stripped := b \<rparr>)"
  "(advance n st)\<lparr> in_script := b \<rparr> = advance n (st\<lparr> in_script := b \<rparr>)"
  "(advance n st)\<lparr> in_template := b \<rparr> = advance n (st\<lparr> in_template := b \<rparr>)"
  "(advance n st)\<lparr> in_iframe := b \<rparr> = advance n (st\<lparr> in_iframe := b \<rparr>)"
  "(advance n st)\<lparr> in_object := b \<rparr> = advance n (st\<lparr> in_object := b \<rparr>)"
  "(advance n st)\<lparr> in_title := b \<rparr> = advance n (st\<lparr> in_title := b \<rparr>)"
  "(advance n st)\<lparr> in_style := b \<rparr> = advance n (st\<lparr> in_style := b \<rparr>)"
  by (simp_all add: advance_def go_to_def on_page_def set_fg_def push_fg_def pop_fg_def emit_def emit_bytes_def
      line_break_def pop_block_def push_block_def)

lemma advance_funpow:
  "(\<And>st. f (advance n st) = advance n (f st)) \<Longrightarrow> (f ^^ k) (advance n st) = advance n ((f ^^ k) st)"
  for f :: "html_state \<Rightarrow> html_state"
  by (induction k) auto

lemma advance_indent [simp]: "emit_indent (advance n st) = advance n (emit_indent st)"
  by (simp add: emit_indent_def advance_funpow)

lemma advance_use_style [simp]: "use_style (advance n st) = advance n (use_style st)"
  by (simp add: use_style_def advance_def go_to_def set_fg_def on_page_def Let_def split: prod.split)

lemma advance_close [simp]: "close_tag name (advance n st) = advance n (close_tag name st)"
  by (simp add: close_tag_def Let_def)

lemma advance_blocks [simp]:
  "heading h c (advance n st) = advance n (heading h c st)"
  "open_block cs (advance n st) = advance n (open_block cs st)"
  "open_item cs (advance n st) = advance n (open_item cs st)"
  by (simp_all add: heading_def open_block_def open_item_def advance_funpow Let_def split: option.split)

lemma advance_open [simp]: "open_tag tag name (advance n st) = advance n (open_tag tag name st)"
proof -
  have "computed_style tag name (advance n st) = computed_style tag name st"
    by (simp add: computed_style_def)
  then show ?thesis by (simp add: open_tag_def Let_def split: option.split)
qed

lemma slice_behind [simp]: "slice (pre @ s) (length pre + a) (length pre + b) = slice s a b"
  by (simp add: slice_def)

lemma slice_behind' [simp]: "slice (pre @ s) (length pre + a) (length pre + a + n) = slice s a (a + n)"
  using slice_behind [of pre s a "a + n"] by (simp add: add.assoc)

lemma named_entity_shift:
  "named_entity (pre @ raw) (advance (length pre) st) = map_option (advance (length pre)) (named_entity raw st)"
  by (simp add: named_entity_def Let_def add.assoc)

lemma entity_turn_shift:
  "entity_turn (pre @ raw) (advance (length pre) st) = map_option (advance (length pre)) (entity_turn raw st)"
  by (simp add: entity_turn_def named_entity_shift add.assoc split: option.split)

lemma char_turn_shift:
  "char_turn (pre @ raw) (advance (length pre) st) = advance (length pre) (char_turn raw st)"
  by (simp add: char_turn_def last_is_space_def Let_def nth_append add.assoc slice_behind' split: option.split)

lemma text_turn_shift:
  "text_turn (pre @ raw) (advance (length pre) st) = advance (length pre) (text_turn raw st)"
  by (simp add: text_turn_def entity_turn_shift char_turn_shift nth_append split: option.split)

lemma style_element_shift:
  "style_element (pre @ raw) (advance (length pre) st) = advance (length pre) (style_element raw st)"
  by (simp add: style_element_def Let_def add.assoc split: option.split)

lemma skip_element_shift:
  "(\<And>k st. leave (go_to k st) = go_to k (leave st)) \<Longrightarrow>
    skip_element (pre @ raw) close leave (advance (length pre) st)
    = map_turn (advance (length pre)) (skip_element raw close leave st)"
  by (simp add: skip_element_def add.assoc split: option.split)

lemma skip_until_gt_shift: "skip_until_gt (pre @ s) (length pre + i) = length pre + skip_until_gt s i"
  by (simp add: skip_until_gt_def Let_def scan_while_shift)

lemma comment_end_shift: "comment_end (pre @ s) (length pre + i) = length pre + comment_end s i"
proof (induction s i rule: comment_end.induct)
  case (1 s i)
  let ?go = "i + 2 < length s
    \<and> \<not> (s ! i = byte CHR ''-'' \<and> s ! (i + 1) = byte CHR ''-'' \<and> s ! (i + 2) = byte CHR ''>'')"
  have nth: "(pre @ s) ! (length pre + i) = s ! i" "(pre @ s) ! (length pre + i + 1) = s ! (i + 1)"
    "(pre @ s) ! (length pre + i + 2) = s ! (i + 2)"
    by (simp_all add: nth_append)
  have "comment_end (pre @ s) (length pre + i)
      = (if ?go then comment_end (pre @ s) (length pre + (i + 1)) else length pre + i)"
    by (subst comment_end.simps) (simp only: nth, auto)
  moreover have "comment_end s i = (if ?go then comment_end s (i + 1) else i)"
    by (subst comment_end.simps) (rule refl)
  ultimately show ?case using "1.IH" by auto
qed

lemma element_turn_shift:
  "element_turn (pre @ raw) (advance (length pre) st) = map_turn (advance (length pre)) (element_turn raw st)"
proof -
  have s: "scan_while p (pre @ raw) (length pre + hs_i st + 1) = length pre + scan_while p raw (hs_i st + 1)" for p
    using scan_while_shift [of p pre raw "hs_i st + 1"] by (simp add: add.assoc)
  have g: "go_to (length pre + k + 1) st = advance (length pre) (go_to (k + 1) st)" for k
    by simp
  show ?thesis
    by (simp only: element_turn_def Let_def advance_fields s slice_behind advance_ops(1) g)
      (simp del: advance_ops(2))
qed

lemma script_turn_shift:
  "script_turn (pre @ raw) (advance (length pre) st) = map_turn (advance (length pre)) (script_turn raw st)"
proof -
  have s: "scan_while p (pre @ raw) (length pre + hs_i st + 1) = length pre + scan_while p raw (hs_i st + 1)" for p
    using scan_while_shift [of p pre raw "hs_i st + 1"] by (simp add: add.assoc)
  have sl: "slice (pre @ raw) (length pre + a) (length pre + b + 1) = slice raw a (b + 1)" for a b
    using slice_behind [of pre raw a "b + 1"] by (simp only: add.assoc)
  show ?thesis
    by (simp only: script_turn_def Let_def advance_fields s sl) simp
qed

lemma tag_turn_shift:
  "tag_turn (pre @ raw) (advance (length pre) st) = map_turn (advance (length pre)) (tag_turn raw st)"
proof -
  have c: "comment_end (pre @ raw) (length pre + hs_i st + 4) = length pre + comment_end raw (hs_i st + 4)"
    using comment_end_shift [of pre raw "hs_i st + 4"] by (simp add: add.assoc)
  have m: "min (length pre + a + 3) (length pre + b) = length pre + min (a + 3) b" for a b :: nat
    by simp
  show ?thesis
    by (simp only: tag_turn_def Let_def advance_fields starts_ci_shift skip_until_gt_shift c m length_append
        advance_ops element_turn_shift script_turn_shift if_distrib [of "map_turn _"] map_turn.simps)
qed

lemma html_turn_shift:
  "html_turn (pre @ raw) (advance (length pre) st) = map_turn (advance (length pre)) (html_turn raw st)"
  unfolding html_turn_def
  by (simp add: skip_element_shift style_element_shift text_turn_shift tag_turn_shift go_to_def)

lemma html_loop_shift:
  "html_loop (pre @ raw) (advance (length pre) st) = advance (length pre) (html_loop raw st)"
proof (induction raw st rule: html_loop.induct)
  case (1 raw st)
  show ?case
  proof (cases "hs_i st < length raw")
    case True
    then show ?thesis
      using 1 by (subst (1 2) html_loop.simps) (cases "html_turn raw st"; simp add: html_turn_shift)
  next
    case False
    then show ?thesis by (subst (1 2) html_loop.simps) simp
  qed
qed

lemma go_to_self: "go_to (hs_i st) st = st"
  by (simp add: go_to_def)

text \<open>The form in which it is used: after the first bytes of a document, the rest from its start.\<close>

lemma html_loop_rest:
  "hs_i st = length pre \<Longrightarrow> html_loop (pre @ raw) st = advance (length pre) (html_loop raw (go_to 0 st))"
  using html_loop_shift [of pre raw "go_to 0 st"] go_to_self [of st] by simp

lemma html_loop_step:
  "hs_i st < length raw \<Longrightarrow> html_turn raw st = Continue st' \<Longrightarrow> html_loop raw st = html_loop raw st'"
  by (subst html_loop.simps) simp

end
