(* ===== verification/Eve_Net_Rx.thy ===== *)
theory Eve_Net_Rx
  imports Eve_Net
begin

text \<open>
  The part of \<open>impl NetStack\<close> in \<open>kernel/src/net.rs\<close> that talks to the network card and to TLS: receiving
  frames (\<open>handle_rx\<close> with its ARP, DHCP, UDP and TCP branches), sending, the TLS handshake and pump,
  and \<open>drive\<close>, the step of the main loop. The card and the TLS library are parameters: \<open>nic_ops\<close> are
  \<open>AnyNic::transmit\<close> and \<open>AnyNic::poll_rx_packet\<close>, \<open>tls_ops\<close> the calls on \<open>TlsConnection\<close>, which may act on
  the whole stack because the library calls back into it through its bridge. The scratch
  buffer the caller passes to every method is part of the world. \<open>None\<close> is a panic; for the receive
  loops, which go on while the card has frames, it also stands for not returning.
\<close>

section \<open>The world of the stack\<close>

record 'd nic_ops =
  nic_transmit :: "bytes \<Rightarrow> 'd \<Rightarrow> bool \<times> 'd"
  nic_poll :: "'d \<Rightarrow> (usize \<times> bytes) option \<times> 'd"

record ('d, 't) net_world =
  w_net :: net_stack
  w_nic :: 'd
  w_scratch :: bytes
  w_tls :: 't

datatype root_ca = IsrgX1 | DigicertG2

record ('d, 't) tls_ops =
  tls_open :: "root_ca \<Rightarrow> bytes \<Rightarrow> u64 \<Rightarrow> ('d, 't) net_world \<Rightarrow> 't option \<times> ('d, 't) net_world"
  tls_write_all :: "bytes \<Rightarrow> ('d, 't) net_world \<Rightarrow> bool \<times> ('d, 't) net_world"
  tls_flush :: "('d, 't) net_world \<Rightarrow> bool \<times> ('d, 't) net_world"
  tls_read :: "usize \<Rightarrow> ('d, 't) net_world \<Rightarrow> (unit + bytes) \<times> ('d, 't) net_world"

definition on_net :: "(net_stack \<Rightarrow> net_stack) \<Rightarrow> ('d, 't) net_world \<Rightarrow> ('d, 't) net_world" where
  "on_net f w = w\<lparr> w_net := f (w_net w) \<rparr>"

text \<open>
  Every send of the source: a builder fills the scratch buffer and returns a length, and a length
  other than 0 is transmitted. The results are the length and what the card returned.
\<close>

definition send ::
  "'d nic_ops \<Rightarrow> (bytes \<Rightarrow> usize \<times> bytes) \<Rightarrow> ('d, 't) net_world \<Rightarrow> usize \<times> bool \<times> ('d, 't) net_world" where
  "send vio build w =
     (let (n, out) = build (w_scratch w); w = w\<lparr> w_scratch := out \<rparr>
      in if 0 < n then let (ok, d) = nic_transmit vio (take n out) (w_nic w) in (n, ok, w\<lparr> w_nic := d \<rparr>)
         else (n, False, w))"

definition send_ignore :: "'d nic_ops \<Rightarrow> (bytes \<Rightarrow> usize \<times> bytes) \<Rightarrow> ('d, 't) net_world \<Rightarrow> ('d, 't) net_world" where
  "send_ignore vio build w = (case send vio build w of (_, _, w) \<Rightarrow> w)"

section \<open>DHCP\<close>

definition dhcp_send_discover :: "'d nic_ops \<Rightarrow> mac \<Rightarrow> ('d, 't) net_world \<Rightarrow> ('d, 't) net_world" where
  "dhcp_send_discover vio our_mac w =
     send_ignore vio (build_dhcp_packet our_mac ZERO_ADDRS (ns_dhcp_xid (w_net w)) our_mac 1 None None) w"

definition dhcp_send_request :: "'d nic_ops \<Rightarrow> mac \<Rightarrow> ('d, 't) net_world \<Rightarrow> ('d, 't) net_world" where
  "dhcp_send_request vio our_mac w =
     send_ignore vio (build_dhcp_packet our_mac ZERO_ADDRS (ns_dhcp_xid (w_net w)) our_mac 3
       (Some (ns_dhcp_server_id (w_net w))) (Some (ns_dhcp_offer_yi (w_net w)))) w"

definition dhcp_bind :: "ipv4 \<Rightarrow> ipv4 \<Rightarrow> dhcp_opts \<Rightarrow> net_stack \<Rightarrow> net_stack" where
  "dhcp_bind yi si os s =
     (let gw = (case dhcp_router os of Some r \<Rightarrow> r | None \<Rightarrow> si);
          gw = (if gw = IPv4 0 0 0 0 then yi else gw);
          dns = (case dhcp_dns os of Some a \<Rightarrow> a | None \<Rightarrow> gw)
      in s\<lparr> ns_addrs := \<lparr> addr_our = yi, addr_gw = gw, addr_dns = dns \<rparr>, ns_dhcp_phase := Bound, ns_gw_known := False,
           ns_fetch_err := [],
           ns_log := log_ipv4 (ascii ''gw '') gw (log_ipv4 (ascii ''ip '') yi
             (log_line (ascii ''net dhcp bound'') (ns_log s))) \<rparr>)"

definition handle_dhcp_reply :: "'d nic_ops \<Rightarrow> bytes \<Rightarrow> mac \<Rightarrow> ('d, 't) net_world \<Rightarrow> ('d, 't) net_world option" where
  "handle_dhcp_reply vio bootp our_mac w =
     (if length bootp < 240 then Some w
      else do {
        op0 \<leftarrow> index bootp 0;
        if op0 \<noteq> 2 then Some w
        else do {
          x0 \<leftarrow> index bootp 4; x1 \<leftarrow> index bootp 5; x2 \<leftarrow> index bootp 6; x3 \<leftarrow> index bootp 7;
          if of_be32 x0 x1 x2 x3 \<noteq> ns_dhcp_xid (w_net w) then Some w
          else do {
            hw \<leftarrow> subslice bootp 28 34;
            if hw \<noteq> mac_bytes our_mac then Some w
            else do {
              yi \<leftarrow> read_addr bootp 16;
              magic \<leftarrow> subslice bootp 236 240;
              os \<leftarrow> (if 244 \<le> length bootp \<and> magic = [99, 130, 83, 99] then dhcp_options bootp 240 no_opts
                     else Some no_opts);
              (case ns_dhcp_phase (w_net w) of
                 WaitOffer \<Rightarrow>
                   if dhcp_msg os = 2 then
                     (case dhcp_sid os of
                        None \<Rightarrow> Some w
                      | Some sid \<Rightarrow> Some (dhcp_send_request vio our_mac (on_net (\<lambda>s. s\<lparr> ns_dhcp_server_id := sid,
                          ns_dhcp_offer_yi := yi, ns_dhcp_phase := WaitAck, ns_dhcp_phase_start_tick := ns_tick s,
                          ns_dhcp_last_tx_tick := ns_tick s \<rparr>) w)))
                   else Some w
               | WaitAck \<Rightarrow>
                   if dhcp_msg os = 5 then do { si \<leftarrow> read_addr bootp 20; Some (on_net (dhcp_bind yi si os) w) }
                   else Some w
               | _ \<Rightarrow> Some w) } } } })"

section \<open>UDP and TCP\<close>

definition handle_udp_rx :: "bytes \<Rightarrow> ipv4 \<Rightarrow> usize \<Rightarrow> ('d, 't) net_world \<Rightarrow> ('d, 't) net_world option" where
  "handle_udp_rx frame sip ihl w =
     (let s = w_net w
      in if sip \<noteq> addr_dns (ns_addrs s) \<or> \<not> ns_fetch_armed s \<or> \<not> ns_needs_dns s \<or> ns_dns_done s then Some w
         else let u0 = 14 + ihl
              in if length frame < u0 + 8 then Some w
                 else do {
                   d0 \<leftarrow> index frame (u0 + 2); d1 \<leftarrow> index frame (u0 + 3);
                   if of_be16 d0 d1 \<noteq> DNS_LOCAL_PORT then Some w
                   else do {
                     l0 \<leftarrow> index frame (u0 + 4); l1 \<leftarrow> index frame (u0 + 5);
                     let udp_len = unat (of_be16 l0 l1);
                     if udp_len < 8 \<or> length frame < u0 + udp_len then Some w
                     else do {
                       dns \<leftarrow> subslice frame (u0 + 8) (u0 + udp_len);
                       r \<leftarrow> parse_dns_a dns (ns_dns_tx_id s);
                       (case r of
                          None \<Rightarrow> Some w
                        | Some a \<Rightarrow> Some (on_net (\<lambda>s. s\<lparr> ns_remote_ip := a, ns_dns_done := True, ns_needs_dns := False,
                            ns_dns_xmit_phase := 0, ns_syn_sent := False, ns_syn_retries := 0 \<rparr>) w)) } } })"

text \<open>A bare acknowledgement with the current numbers, with a new IP identifier.\<close>

definition send_ack :: "'d nic_ops \<Rightarrow> mac \<Rightarrow> ipv4 \<Rightarrow> ('d, 't) net_world \<Rightarrow> ('d, 't) net_world" where
  "send_ack vio our_mac sip w =
     (let s = w_net w;
          build = build_tcp_ack_only our_mac (ns_gw_mac s) (ns_addrs s) sip LOCAL_PORT (ns_remote_port s)
            (ns_tcp_seq s) (ns_tcp_ack s) (ns_ip_id s + 1)
      in send_ignore vio build (on_net (\<lambda>s. s\<lparr> ns_ip_id := ns_ip_id s + 1 \<rparr>) w))"

definition http_get :: "net_stack \<Rightarrow> bytes option" where
  "http_get s = map_option (\<lambda>(plen, pay). take plen pay) (build_http_get (ns_path s) (ns_host_header s) (replicate 512 0))"

text \<open>The answer to the SYN arrived: HTTPS queues the handshake, HTTP sends the request.\<close>

definition handle_syn_ack :: "'d nic_ops \<Rightarrow> u32 \<Rightarrow> ipv4 \<Rightarrow> mac \<Rightarrow> ('d, 't) net_world \<Rightarrow> ('d, 't) net_world" where
  "handle_syn_ack vio seq sip our_mac w =
     (let w = on_net (\<lambda>s. s\<lparr> ns_tcp_ack := seq + 1, ns_tcp_seq := ns_tcp_seq s + 1 \<rparr>) w
      in if ns_https_mode (w_net w) then
           let w = send_ack vio our_mac sip w
           in if \<not> ns_tls_handshake_done (w_net w) then on_net (\<lambda>s. s\<lparr> ns_https_handshake_queued := True \<rparr>) w else w
         else case http_get (w_net w) of
             None \<Rightarrow> on_net (set_err (ascii ''GET TOO LONG'')) w
           | Some pay \<Rightarrow>
             let s = w_net w;
                 build = build_tcp_ack_psh our_mac (ns_gw_mac s) (ns_addrs s) sip LOCAL_PORT (ns_remote_port s)
                   (ns_tcp_seq s) (ns_tcp_ack s) pay (ns_ip_id s + 1);
                 (n, ok, w) = send vio build (on_net (\<lambda>s. s\<lparr> ns_ip_id := ns_ip_id s + 1 \<rparr>) w)
             in if 0 < n \<and> ok
                then on_net (\<lambda>s. s\<lparr> ns_get_sent := True, ns_tcp_seq := ns_tcp_seq s + of_nat (length pay) \<rparr>) w
                else w)"

definition tcp_eof :: "decoders \<Rightarrow> net_stack \<Rightarrow> net_stack" where
  "tcp_eof dec s = (if ns_https_mode s then s\<lparr> ns_tls_tcp_eof := True \<rparr> else finish_plain_http_on_tcp_eof dec s)"

definition handle_data ::
  "decoders \<Rightarrow> 'd nic_ops \<Rightarrow> bytes \<Rightarrow> u32 \<Rightarrow> bool \<Rightarrow> ipv4 \<Rightarrow> mac \<Rightarrow> ('d, 't) net_world \<Rightarrow> ('d, 't) net_world" where
  "handle_data dec vio pay seq fin sip our_mac w =
     (let w = on_net (\<lambda>s. s\<lparr> ns_fetch_progress_tick := ns_tick s, ns_http_bytes := ns_http_bytes s + of_nat (length pay) \<rparr>) w;
          (ok, s) = (if ns_https_mode (w_net w) then tls_cipher_append pay (w_net w)
                     else (True, ingest_tcp_payload dec pay (w_net w)));
          w = w\<lparr> w_net := s \<rparr>
      in if \<not> ok then on_net (set_err (ascii ''TLS RX OVFL'')) w
         else let ack = seq + of_nat (length pay) + (if fin then 1 else 0);
                  w = send_ack vio our_mac sip (on_net (\<lambda>s. s\<lparr> ns_tcp_ack := ack \<rparr>) w)
              in if fin then on_net (tcp_eof dec) w else w)"

definition handle_tcp_rx ::
  "decoders \<Rightarrow> 'd nic_ops \<Rightarrow> bytes \<Rightarrow> ipv4 \<Rightarrow> usize \<Rightarrow> mac \<Rightarrow> ('d, 't) net_world \<Rightarrow> ('d, 't) net_world option" where
  "handle_tcp_rx dec vio frame sip ihl our_mac w =
     (let tcp_off = 14 + ihl
      in if length frame < tcp_off + 20 then Some w
         else do {
           p0 \<leftarrow> index frame tcp_off; p1 \<leftarrow> index frame (tcp_off + 1);
           q0 \<leftarrow> index frame (tcp_off + 2); q1 \<leftarrow> index frame (tcp_off + 3);
           if of_be16 q0 q1 \<noteq> LOCAL_PORT then Some w
           else if sip \<noteq> ns_remote_ip (w_net w) \<or> of_be16 p0 p1 \<noteq> ns_remote_port (w_net w) then Some w
           else if \<not> ns_fetch_armed (w_net w) \<or> \<not> ns_dns_done (w_net w) then Some w
           else do {
             s0 \<leftarrow> index frame (tcp_off + 4); s1 \<leftarrow> index frame (tcp_off + 5);
             s2 \<leftarrow> index frame (tcp_off + 6); s3 \<leftarrow> index frame (tcp_off + 7);
             flg \<leftarrow> index frame (tcp_off + 13); dof \<leftarrow> index frame (tcp_off + 12);
             let seq = of_be32 s0 s1 s2 s3;
             let hlen = unat (drop_bit 4 dof AND 0x0F) * 4;
             if length frame < tcp_off + hlen then Some w
             else if flg AND 0x04 \<noteq> 0 then Some (on_net (set_err (ascii ''TCP RST'')) w)
             else do {
               let payload_off = tcp_off + hlen;
               let payload_len = length frame - payload_off;
               let fin = (flg AND 0x01 \<noteq> 0);
               if flg AND 0x12 = 0x12 \<and> \<not> ns_get_sent (w_net w) then Some (handle_syn_ack vio seq sip our_mac w)
               else if 0 < payload_len then do {
                 pay \<leftarrow> subslice frame payload_off (payload_off + payload_len);
                 Some (handle_data dec vio pay seq fin sip our_mac w) }
               else if fin \<and> ns_get_sent (w_net w)
                 then Some (on_net (tcp_eof dec) (send_ack vio our_mac sip (on_net (\<lambda>s. s\<lparr> ns_tcp_ack := seq + 1 \<rparr>) w)))
               else Some w } } })"

text \<open>Ethernet and IPv4; DHCP replies are taken before the destination address is checked.\<close>

definition dhcp_frame :: "bytes \<Rightarrow> usize \<Rightarrow> bool option" where
  "dhcp_frame frame u0 =
     (if u0 + 8 \<le> length frame then do {
        p0 \<leftarrow> index frame u0; p1 \<leftarrow> index frame (u0 + 1); q0 \<leftarrow> index frame (u0 + 2); q1 \<leftarrow> index frame (u0 + 3);
        Some (of_be16 p0 p1 = DHCP_SERVER_PORT \<and> of_be16 q0 q1 = DHCP_CLIENT_PORT) }
      else Some False)"

definition handle_rx ::
  "decoders \<Rightarrow> 'd nic_ops \<Rightarrow> bytes \<Rightarrow> mac \<Rightarrow> ('d, 't) net_world \<Rightarrow> ('d, 't) net_world option" where
  "handle_rx dec vio frame our_mac w =
     (if length frame < 14 then Some w
      else do {
        t0 \<leftarrow> index frame 12; t1 \<leftarrow> index frame 13;
        let et = of_be16 t0 t1;
        if et = ETH_P_ARP then do { s \<leftarrow> handle_arp frame (w_net w); Some (w\<lparr> w_net := s \<rparr>) }
        else if et \<noteq> ETH_P_IP \<or> length frame < 34 then Some w
        else do {
          vi \<leftarrow> index frame 14;
          if drop_bit 4 vi \<noteq> 4 then Some w
          else do {
            let ihl = unat (vi AND 0x0F) * 4;
            if length frame < 14 + ihl then Some w
            else do {
              dip \<leftarrow> read_addr frame 30; sip \<leftarrow> read_addr frame 26; proto \<leftarrow> index frame 23;
              is_dhcp \<leftarrow> (if proto = 17 then dhcp_frame frame (14 + ihl) else Some False);
              if is_dhcp \<and> dhcp_active (w_net w) then do {
                l0 \<leftarrow> index frame (14 + ihl + 4); l1 \<leftarrow> index frame (14 + ihl + 5);
                let udp_len = unat (of_be16 l0 l1);
                if 8 \<le> udp_len \<and> 14 + ihl + udp_len \<le> length frame then do {
                  payload \<leftarrow> subslice frame (14 + ihl + 8) (14 + ihl + udp_len);
                  handle_dhcp_reply vio payload our_mac w }
                else Some w }
              else if dip \<noteq> addr_our (ns_addrs (w_net w)) \<and> dip \<noteq> IPv4 255 255 255 255 then Some w
              else if proto = 17 then handle_udp_rx frame sip ihl w
              else if proto = 6 then handle_tcp_rx dec vio frame sip ihl our_mac w
              else Some w } } } })"

text \<open>The loop over the received frames: it ends when the card has no frame or reports a bad length.\<close>

partial_function (option) rx_loop ::
  "decoders \<Rightarrow> 'd nic_ops \<Rightarrow> mac \<Rightarrow> ('d, 't) net_world \<Rightarrow> ('d, 't) net_world option" where
  "rx_loop dec vio our_mac w =
     (case nic_poll vio (w_nic w) of
        (None, d) \<Rightarrow> Some (w\<lparr> w_nic := d \<rparr>)
      | (Some (n, buf), d) \<Rightarrow>
          if n \<le> 2048 then do {
            w \<leftarrow> handle_rx dec vio (take n buf) our_mac (w\<lparr> w_nic := d \<rparr>);
            rx_loop dec vio our_mac w }
          else Some (w\<lparr> w_nic := d \<rparr>))"

section \<open>TLS\<close>

lemma w_net_send [simp]: "w_net (snd (snd (send vio build w))) = w_net w"
  by (simp add: send_def Let_def split_beta)

lemma w_net_send_ignore [simp]: "w_net (send_ignore vio build w) = w_net w"
  by (simp add: send_ignore_def split_beta)

lemma w_net_on_net [simp]: "w_net (on_net f w) = f (w_net w)"
  by (simp add: on_net_def)

text \<open>Sending the queued ciphertext in segments of at most 1400 bytes.\<close>

function tls_tx_flush_loop :: "'d nic_ops \<Rightarrow> mac \<Rightarrow> ('d, 't) net_world \<Rightarrow> ('d, 't) net_world" where
  "tls_tx_flush_loop vio our_mac w =
     (let s = w_net w
      in if ns_tls_tx_buf s = [] then w
         else let n = min (length (ns_tls_tx_buf s)) 1400;
                  build = build_tcp_ack_psh our_mac (ns_gw_mac s) (ns_addrs s) (ns_remote_ip s) LOCAL_PORT
                    (ns_remote_port s) (ns_tcp_seq s) (ns_tcp_ack s) (take n (ns_tls_tx_buf s)) (ns_ip_id s + 1);
                  r = send vio build (on_net (\<lambda>s. s\<lparr> ns_ip_id := ns_ip_id s + 1 \<rparr>) w)
              in if fst r = 0 \<or> \<not> fst (snd r) then snd (snd r)
                 else tls_tx_flush_loop vio our_mac (on_net (\<lambda>s. s\<lparr> ns_tcp_seq := ns_tcp_seq s + of_nat n,
                        ns_tls_tx_buf := drop n (ns_tls_tx_buf s) \<rparr>) (snd (snd r))))"
  by pat_completeness auto
termination
  by (relation "measure (\<lambda>(vio, our_mac, w). length (ns_tls_tx_buf (w_net w)))") auto

declare tls_tx_flush_loop.simps [simp del]

definition tls_tx_flush_all :: "'d nic_ops \<Rightarrow> mac \<Rightarrow> ('d, 't) net_world \<Rightarrow> ('d, 't) net_world" where
  "tls_tx_flush_all vio our_mac w =
     on_net (\<lambda>s. s\<lparr> ns_tls_tx_flush_pending := False \<rparr>) (tls_tx_flush_loop vio our_mac w)"

definition tls_spin_poll :: "decoders \<Rightarrow> 'd nic_ops \<Rightarrow> ('d, 't) net_world \<Rightarrow> ('d, 't) net_world option" where
  "tls_spin_poll dec vio w =
     (case ns_tls_poll (w_net w) of
        None \<Rightarrow> Some w
      | Some poll_mac \<Rightarrow> rx_loop dec vio poll_mac (tls_tx_flush_all vio poll_mac w))"

definition set_tls_poll :: "mac \<Rightarrow> net_stack \<Rightarrow> net_stack" where
  "set_tls_poll m s = s\<lparr> ns_tls_poll := Some m \<rparr>"

text \<open>
  The bridge through which the TLS library reads and writes ciphertext (\<open>TlsNetBridge\<close> of
  \<open>kernel/src/eve_tls.rs\<close>). A read spins at most 2,000,000 times; \<open>spins\<close> counts down. The result of a
  read is the ciphertext, empty at the end of the stream, or the error \<open>Inl ()\<close>.
\<close>

fun bridge_read ::
  "decoders \<Rightarrow> 'd nic_ops \<Rightarrow> usize \<Rightarrow> nat \<Rightarrow> ('d, 't) net_world \<Rightarrow> ((unit + bytes) \<times> ('d, 't) net_world) option" where
  "bridge_read dec vio room 0 w = Some (Inl (), w)"
| "bridge_read dec vio room (Suc spins) w =
     (if room = 0 then Some (Inr [], w)
      else let (out, s) = tls_cipher_pop room (w_net w); w = w\<lparr> w_net := s \<rparr>
           in if out \<noteq> [] then Some (Inr out, w)
              else if tls_eof_from_tcp s then Some (Inr [], w)
              else do { w \<leftarrow> tls_spin_poll dec vio w; bridge_read dec vio room spins w })"

definition bridge_write :: "bytes \<Rightarrow> net_stack \<Rightarrow> (unit + usize) \<times> net_stack" where
  "bridge_write buf s =
     (let (ok, s) = tls_cipher_tx_append buf s in (if ok then Inr (length buf) else Inl (), s))"

definition bridge_flush :: "net_stack \<Rightarrow> (unit + unit) \<times> net_stack" where
  "bridge_flush s = (Inr (), tls_note_flush_pending s)"

text \<open>\<open>core::str::from_utf8\<close>: well-formed UTF-8.\<close>

definition is_cont :: "u8 \<Rightarrow> bool" where
  "is_cont b \<longleftrightarrow> 0x80 \<le> b \<and> b \<le> 0xBF"

fun utf8_valid :: "bytes \<Rightarrow> bool" where
  "utf8_valid [] = True"
| "utf8_valid (a # rest) =
     (if a \<le> 0x7F then utf8_valid rest
      else if 0xC2 \<le> a \<and> a \<le> 0xDF then
        (case rest of b # rest' \<Rightarrow> is_cont b \<and> utf8_valid (drop 1 rest) | _ \<Rightarrow> False)
      else if 0xE0 \<le> a \<and> a \<le> 0xEF then
        (case rest of b # c # rest' \<Rightarrow> is_cont b \<and> is_cont c \<and> (a = 0xE0 \<longrightarrow> 0xA0 \<le> b) \<and> (a = 0xED \<longrightarrow> b \<le> 0x9F)
           \<and> utf8_valid (drop 2 rest) | _ \<Rightarrow> False)
      else if 0xF0 \<le> a \<and> a \<le> 0xF4 then
        (case rest of b # c # d # rest' \<Rightarrow> is_cont b \<and> is_cont c \<and> is_cont d \<and> (a = 0xF0 \<longrightarrow> 0x90 \<le> b)
           \<and> (a = 0xF4 \<longrightarrow> b \<le> 0x8F) \<and> utf8_valid (drop 3 rest) | _ \<Rightarrow> False)
      else False)"

definition tls_seed :: "mac \<Rightarrow> net_stack \<Rightarrow> u64" where
  "tls_seed our_mac s = ucast (ns_tcp_seq s) XOR word_rotl 17 (ucast (ns_tick s)) XOR of_le64 (mac_bytes our_mac @ [0, 0])"

definition tls_fail :: "bytes \<Rightarrow> net_stack \<Rightarrow> net_stack" where
  "tls_fail msg s = set_err msg (clear_tls_poll (s\<lparr> ns_tls_live := False, ns_tls_handshake_done := False \<rparr>))"

text \<open>The request over an open connection, after the handshake.\<close>

definition tls_send_get :: "'d nic_ops \<Rightarrow> ('d, 't) tls_ops \<Rightarrow> mac \<Rightarrow> ('d, 't) net_world \<Rightarrow> ('d, 't) net_world" where
  "tls_send_get vio tls our_mac w =
     (case http_get (w_net w) of
        None \<Rightarrow> on_net (tls_fail (ascii ''GET TOO LONG'')) w
      | Some pay \<Rightarrow>
        let (ok, w) = tls_write_all tls pay w;
            (ok, w) = (if ok then tls_flush tls w else (False, w))
        in if \<not> ok then on_net (tls_fail (ascii ''TLS WRITE FAIL'')) w
           else on_net (\<lambda>s. clear_tls_poll (s\<lparr> ns_get_sent := True \<rparr>)) (tls_tx_flush_all vio our_mac w))"

definition run_https_handshake_and_get ::
  "'d nic_ops \<Rightarrow> ('d, 't) tls_ops \<Rightarrow> mac \<Rightarrow> ('d, 't) net_world \<Rightarrow> ('d, 't) net_world" where
  "run_https_handshake_and_get vio tls our_mac w =
     (let w = on_net (set_tls_poll our_mac) w; host = ns_tls_server_name (w_net w)
      in if 96 < length host \<or> \<not> utf8_valid host
         then on_net (\<lambda>s. set_err (ascii ''TLS BAD HOST'') (clear_tls_poll s)) w
         else let seed = tls_seed our_mac (w_net w);
                  (c, w) = tls_open tls IsrgX1 host (seed XOR 0x1A2B3C4D) w;
                  (c, w) = (case c of Some c \<Rightarrow> (Some c, w) | None \<Rightarrow> tls_open tls DigicertG2 host (seed XOR 0xD1C1CE47) w)
              in case c of
                   None \<Rightarrow> on_net (\<lambda>s. set_err (ascii ''TLS VERIFY FAIL'') (clear_tls_poll s)) w
                 | Some c \<Rightarrow> tls_send_get vio tls our_mac
                     (on_net (\<lambda>s. s\<lparr> ns_tls_live := True, ns_tls_handshake_done := True \<rparr>) (w\<lparr> w_tls := c \<rparr>)))"

partial_function (option) tls_pump_loop ::
  "decoders \<Rightarrow> ('d, 't) tls_ops \<Rightarrow> ('d, 't) net_world \<Rightarrow> ('d, 't) net_world option" where
  "tls_pump_loop dec tls w =
     (case tls_read tls 2048 w of
        (Inl _, w) \<Rightarrow> Some (on_net (set_err (ascii ''TLS READ ERR'')) w)
      | (Inr chunk, w) \<Rightarrow>
          if chunk = [] then Some w
          else tls_pump_loop dec tls (on_net (ingest_tcp_payload dec chunk) w))"

definition tls_pump_application ::
  "decoders \<Rightarrow> 'd nic_ops \<Rightarrow> ('d, 't) tls_ops \<Rightarrow> mac \<Rightarrow> ('d, 't) net_world \<Rightarrow> ('d, 't) net_world option" where
  "tls_pump_application dec vio tls our_mac w =
     (if \<not> ns_tls_live (w_net w) then Some w
      else do {
        w \<leftarrow> tls_spin_poll dec vio (on_net (set_tls_poll our_mac) w);
        w \<leftarrow> tls_pump_loop dec tls w;
        let w = on_net clear_tls_poll (tls_tx_flush_all vio our_mac w);
        Some (if ns_tls_tcp_eof (w_net w) \<and> \<not> ns_fetch_done (w_net w)
              then on_net (\<lambda>s. if ns_http_chunked s then set_err (ascii ''HTTP CHUNK EOF'') s else finish_fetch dec s) w
              else w) })"

section \<open>The step of the main loop\<close>

definition dhcp_tick :: "'d nic_ops \<Rightarrow> mac \<Rightarrow> ('d, 't) net_world \<Rightarrow> ('d, 't) net_world" where
  "dhcp_tick vio our_mac w =
     (if \<not> dhcp_active (w_net w) then w
      else let w = on_net (\<lambda>s. if ns_dhcp_phase_start_tick s = 0
                 then s\<lparr> ns_dhcp_phase_start_tick := ns_tick s, ns_dhcp_last_tx_tick := 0 \<rparr> else s) w;
               s = w_net w;
               w = (if ns_dhcp_last_tx_tick s = 0 \<or> 200 \<le> ns_tick s - ns_dhcp_last_tx_tick s
                    then (let w = on_net (\<lambda>s. s\<lparr> ns_dhcp_last_tx_tick := ns_tick s \<rparr>) w
                          in if ns_dhcp_phase s = WaitOffer then dhcp_send_discover vio our_mac w
                             else dhcp_send_request vio our_mac w)
                    else w)
           in on_net (\<lambda>s. if 12000 < ns_tick s - ns_dhcp_phase_start_tick s
                then s\<lparr> ns_log := log_line (ascii ''net dhcp timeout -> slirp'') (ns_log s), ns_addrs := SLIRP,
                       ns_dhcp_phase := DhcpIdle, ns_gw_known := False, ns_dhcp_phase_start_tick := 0,
                       ns_dhcp_last_tx_tick := 0 \<rparr>
                else s) w)"

definition next_phase :: "net_stack \<Rightarrow> net_phase" where
  "next_phase s =
     (if \<not> ns_gw_known s then Arp
      else if ns_fetch_armed s \<and> ns_needs_dns s \<and> \<not> ns_dns_done s then Dns
      else if ns_fetch_armed s \<and> ns_dns_done s \<and> \<not> ns_fetch_done s then (if \<not> ns_get_sent s then Tcp else Http)
      else if ns_fetch_done s then NetDone else NetOff)"

definition arp_tick :: "'d nic_ops \<Rightarrow> mac \<Rightarrow> ('d, 't) net_world \<Rightarrow> ('d, 't) net_world" where
  "arp_tick vio our_mac w =
     (if ns_tick (w_net w) mod 72 = 0 then send_ignore vio (build_arp_request our_mac (ns_addrs (w_net w))) w else w)"

definition dns_tick :: "'d nic_ops \<Rightarrow> mac \<Rightarrow> ('d, 't) net_world \<Rightarrow> ('d, 't) net_world" where
  "dns_tick vio our_mac w =
     (let w = on_net (\<lambda>s. s\<lparr> ns_dns_xmit_phase := ns_dns_xmit_phase s + 1 \<rparr>) w; s = w_net w;
          w = (if ns_dns_xmit_phase s mod 64 = 0
               then send_ignore vio (build_dns_udp_packet our_mac (ns_gw_mac s) (ns_addrs s) DNS_LOCAL_PORT 53
                      (ns_dns_name s) (ns_dns_tx_id s) (ns_ip_id s + 1))
                      (on_net (\<lambda>s. s\<lparr> ns_ip_id := ns_ip_id s + 1 \<rparr>) w)
               else w)
      in if 64 * 48 < ns_dns_xmit_phase (w_net w) then on_net (set_err (ascii ''DNS TIMEOUT'')) w else w)"

definition syn_tick :: "'d nic_ops \<Rightarrow> mac \<Rightarrow> ('d, 't) net_world \<Rightarrow> ('d, 't) net_world" where
  "syn_tick vio our_mac w =
     (let s = w_net w
      in if \<not> ns_syn_sent s \<or> (ns_syn_retries s < 12 \<and> ns_tick s mod 96 = 0 \<and> \<not> ns_get_sent s) then
           let (len, _, w) = send vio (build_tcp_syn our_mac (ns_gw_mac s) (ns_addrs s) (ns_tcp_seq s) (ns_remote_ip s)
                 (ns_remote_port s)) w
           in if 0 < len then on_net (\<lambda>s. s\<lparr> ns_syn_sent := True, ns_syn_retries := sat_add (ns_syn_retries s) 1 \<rparr>) w else w
         else w)"

definition fetch_tick ::
  "decoders \<Rightarrow> 'd nic_ops \<Rightarrow> ('d, 't) tls_ops \<Rightarrow> mac \<Rightarrow> ('d, 't) net_world \<Rightarrow> ('d, 't) net_world option" where
  "fetch_tick dec vio tls our_mac w =
     (let s = w_net w
      in if 12 \<le> ns_syn_retries s \<and> \<not> ns_get_sent s then Some (on_net (set_err (ascii ''TCP NO CONNECT'')) w)
         else if \<not> ns_get_sent s \<and> 16000 < ns_tick s - ns_tcp_connect_start_tick s
           then Some (on_net (set_err (ascii ''TCP NO CONNECT'')) w)
         else let w = syn_tick vio our_mac w; s = w_net w
              in if ns_get_sent s \<and> 12000 < ns_tick s - ns_fetch_progress_tick s
                 then Some (on_net (set_err (ascii ''HTTP TIMEOUT'')) w)
                 else if ns_https_mode s \<and> ns_https_handshake_queued s \<and> \<not> ns_tls_handshake_done s \<and> \<not> ns_fetch_done s
                 then Some (run_https_handshake_and_get vio tls our_mac
                        (on_net (\<lambda>s. s\<lparr> ns_https_handshake_queued := False \<rparr>) w))
                 else if ns_https_mode s \<and> ns_tls_handshake_done s \<and> ns_get_sent s \<and> \<not> ns_fetch_done s
                 then tls_pump_application dec vio tls our_mac w
                 else Some w)"

definition begin_tick :: "device_settings \<Rightarrow> net_stack \<Rightarrow> net_stack" where
  "begin_tick cfg s =
     (let s = sync_ip_from_settings cfg (ip_settings_tag cfg) s; t = ns_tick s + 1
      in s\<lparr> ns_tick := t, ns_clock := wall_clock_note_net_tick t (note_main_loop_tick t (ns_clock s)) \<rparr>)"

definition drive ::
  "decoders \<Rightarrow> 'd nic_ops \<Rightarrow> ('d, 't) tls_ops \<Rightarrow> mac \<Rightarrow> device_settings \<Rightarrow> ('d, 't) net_world \<Rightarrow> ('d, 't) net_world option" where
  "drive dec vio tls our_mac cfg w = do {
     w \<leftarrow> rx_loop dec vio our_mac (on_net (begin_tick cfg) w);
     let w = (if ip_config cfg = Dhcp then dhcp_tick vio our_mac w else w);
     if ip_config cfg = Dhcp \<and> dhcp_active (w_net w) then Some w
     else if is_our_zero (ns_addrs (w_net w)) then Some w
     else do {
       let w = on_net (\<lambda>s. s\<lparr> ns_phase := next_phase s \<rparr>) w;
       let s = w_net w;
       if \<not> ns_gw_known s then Some (arp_tick vio our_mac w)
       else if ns_fetch_armed s \<and> ns_needs_dns s \<and> \<not> ns_dns_done s then Some (dns_tick vio our_mac w)
       else if ns_fetch_armed s \<and> ns_dns_done s \<and> \<not> ns_fetch_done s then fetch_tick dec vio tls our_mac w
       else Some w } }"

end
