(* ===== verification/Eve_Main.thy ===== *)
theory Eve_Main
  imports Eve_Ui_Click Eve_Input Eve_Html Eve_Script Eve_Net_Rx
begin

text \<open>
  The main loop: one round of \<open>kernel_main\<close> (\<open>kernel/src/main.rs\<close>) and one call of \<open>main_step\<close>
  (\<open>kernel/src/arm_run.rs\<close>, whose text entry, scrolling and fetch functions are those of \<open>main.rs\<close>), up to the
  drawing of the frame, and the palettes of \<open>theme.rs\<close>. A round reads the keyboard and mouse events,
  handles the clicks, then the requests they left in the state (power, reload, installation), then drives the
  network stack and shows the page it completed, and saves the settings.

  What the hardware delivers in a round is the record \<open>round_input\<close>. The result is \<open>None\<close> for a panic, for a
  call that does not return and for a read of uninitialised memory; otherwise the kernel goes on, or it
  has asked the firmware to reboot or shut down.
\<close>

section \<open>Palettes\<close>

record ui_palette =
  bg_desktop :: "u8 \<times> u8 \<times> u8"
  chrome_bar :: "u8 \<times> u8 \<times> u8"
  chrome_title :: "u8 \<times> u8 \<times> u8"
  tab_strip :: "u8 \<times> u8 \<times> u8"
  tab_active :: "u8 \<times> u8 \<times> u8"
  tab_inactive :: "u8 \<times> u8 \<times> u8"
  tab_text :: "u8 \<times> u8 \<times> u8"
  url_bar :: "u8 \<times> u8 \<times> u8"
  url_button :: "u8 \<times> u8 \<times> u8"
  url_field :: "u8 \<times> u8 \<times> u8"
  status_bg :: "u8 \<times> u8 \<times> u8"
  panel_bg :: "u8 \<times> u8 \<times> u8"
  panel_border :: "u8 \<times> u8 \<times> u8"
  panel_top_line :: "u8 \<times> u8 \<times> u8"
  section_underline :: "u8 \<times> u8 \<times> u8"
  heading :: "u8 \<times> u8 \<times> u8"
  section_tag :: "u8 \<times> u8 \<times> u8"
  text_primary :: "u8 \<times> u8 \<times> u8"
  text_muted :: "u8 \<times> u8 \<times> u8"
  row_a :: "u8 \<times> u8 \<times> u8"
  row_b :: "u8 \<times> u8 \<times> u8"
  row_sep :: "u8 \<times> u8 \<times> u8"
  focus_row :: "u8 \<times> u8 \<times> u8"
  accent :: "u8 \<times> u8 \<times> u8"
  epilepsy_bg :: "u8 \<times> u8 \<times> u8"
  epilepsy_text :: "u8 \<times> u8 \<times> u8"
  epilepsy_warn :: "u8 \<times> u8 \<times> u8"
  epilepsy_btn_outer :: "u8 \<times> u8 \<times> u8"
  epilepsy_btn_inner :: "u8 \<times> u8 \<times> u8"
  epilepsy_btn_text :: "u8 \<times> u8 \<times> u8"
  epilepsy_hint :: "u8 \<times> u8 \<times> u8"
  bios_page_bg :: "u8 \<times> u8 \<times> u8"

definition LIGHT_PALETTE :: ui_palette where
  "LIGHT_PALETTE = \<lparr>
     bg_desktop = (0xd0, 0xe4, 0xff), chrome_bar = (0x34, 0x62, 0xc8), chrome_title = (0xff, 0xf4, 0xd6),
     tab_strip = (0xa2, 0xbc, 0xea), tab_active = (0xff, 0xff, 0xff), tab_inactive = (0xd6, 0xe6, 0xfa),
     tab_text = (0x22, 0x22, 0x22), url_bar = (0xc8, 0xe0, 0xff), url_button = (0xff, 0xff, 0xff),
     url_field = (0xff, 0xff, 0xff), status_bg = (0x38, 0x6c, 0xc8), panel_bg = (0xec, 0xf2, 0xfa),
     panel_border = (0x3b, 0x82, 0xf6), panel_top_line = (0xfe, 0xfc, 0xff), section_underline = (0x3b, 0x82, 0xf6),
     heading = (0x0f, 0x17, 0x2e), section_tag = (0x1e, 0x40, 0xad), text_primary = (0x22, 0x22, 0x22),
     text_muted = (0x55, 0x55, 0x66), row_a = (0xf8, 0xfa, 0xfc), row_b = (0xf1, 0xf5, 0xf9),
     row_sep = (0xe2, 0xe8, 0xf0), focus_row = (0xe0, 0xf8, 0xff), accent = (0x3b, 0x82, 0xf6),
     epilepsy_bg = (0xf4, 0xf6, 0xfc), epilepsy_text = (0x22, 0x22, 0x33), epilepsy_warn = (0x44, 0x33, 0x33),
     epilepsy_btn_outer = (0xc9, 0x7a, 0x1e), epilepsy_btn_inner = (0xe5, 0xa0, 0x38), epilepsy_btn_text = (0xff, 0xff, 0xf5),
     epilepsy_hint = (0x77, 0x77, 0x88), bios_page_bg = (0xff, 0xff, 0xff) \<rparr>"

definition DARK_PALETTE :: ui_palette where
  "DARK_PALETTE = \<lparr>
     bg_desktop = (0x12, 0x16, 0x22), chrome_bar = (0x1e, 0x3a, 0x5f), chrome_title = (0xff, 0xd7, 0x66),
     tab_strip = (0x25, 0x32, 0x42), tab_active = (0x3d, 0x4f, 0x66), tab_inactive = (0x2a, 0x35, 0x45),
     tab_text = (0xe8, 0xec, 0xf0), url_bar = (0x1f, 0x2d, 0x3d), url_button = (0x2d, 0x3b, 0x4d),
     url_field = (0x15, 0x1f, 0x2b), status_bg = (0x1a, 0x3a, 0x5c), panel_bg = (0x1a, 0x22, 0x30),
     panel_border = (0x3b, 0x82, 0xf6), panel_top_line = (0x2a, 0x36, 0x48), section_underline = (0x4a, 0x9e, 0xf0),
     heading = (0xe2, 0xe8, 0xf0), section_tag = (0x7a, 0xb8, 0xff), text_primary = (0xe8, 0xec, 0xf0),
     text_muted = (0x9a, 0xa5, 0xb4), row_a = (0x22, 0x2d, 0x3d), row_b = (0x28, 0x34, 0x46),
     row_sep = (0x35, 0x42, 0x56), focus_row = (0x2a, 0x3f, 0x5a), accent = (0x5a, 0x9e, 0xf0),
     epilepsy_bg = (0x15, 0x1c, 0x28), epilepsy_text = (0xd0, 0xd6, 0xe0), epilepsy_warn = (0xff, 0xb4, 0x7a),
     epilepsy_btn_outer = (0xb8, 0x6a, 0x14), epilepsy_btn_inner = (0xd4, 0x88, 0x28), epilepsy_btn_text = (0xff, 0xff, 0xf5),
     epilepsy_hint = (0x88, 0x92, 0xa4), bios_page_bg = (0x12, 0x16, 0x22) \<rparr>"

definition palette :: "display_theme \<Rightarrow> ui_palette" where
  "palette t = (case t of Light \<Rightarrow> LIGHT_PALETTE | Dark \<Rightarrow> DARK_PALETTE)"

definition ui_palette_of :: "device_settings \<Rightarrow> ui_palette" where
  "ui_palette_of s = palette (display_theme s)"

section \<open>State\<close>

record ('d, 't) kernel =
  k_ui :: ui_state
  k_world :: "('d, 't) net_world"
  k_html :: html_globals
  k_nic_present :: bool
  boot_home_fetch_pending :: bool
  last_rx_drawn :: u64
  last_inet_phase :: net_phase
  last_inet_bytes :: u32
  last_net_ipv4 :: ipv4

definition on_ui :: "(ui_state \<Rightarrow> ui_state) \<Rightarrow> ('d, 't) kernel \<Rightarrow> ('d, 't) kernel" where
  "on_ui f k = k\<lparr> k_ui := f (k_ui k) \<rparr>"

definition on_stack :: "(net_stack \<Rightarrow> net_stack) \<Rightarrow> ('d, 't) kernel \<Rightarrow> ('d, 't) kernel" where
  "on_stack f k = k\<lparr> k_world := on_net f (k_world k) \<rparr>"

definition on_log :: "(log_state \<Rightarrow> log_state) \<Rightarrow> ('d, 't) kernel \<Rightarrow> ('d, 't) kernel" where
  "on_log f = on_stack (\<lambda>s. s\<lparr> ns_log := f (ns_log s) \<rparr>)"

abbreviation k_net :: "('d, 't) kernel \<Rightarrow> net_stack" where
  "k_net k \<equiv> w_net (k_world k)"

section \<open>Text entry\<close>

definition printable :: "u8 \<Rightarrow> bool" where
  "printable c \<longleftrightarrow> 32 \<le> c \<and> c < 127"

definition decimal_key :: "'a::len word \<Rightarrow> u8 \<Rightarrow> 'a word \<Rightarrow> 'a word option" where
  "decimal_key limit ch v =
     (if ch = 0x08 then Some (v div 10)
      else if is_ascii_digit ch then Some (min (sat_add (sat_mul v 10) (ucast (ch - 0x30))) limit)
      else None)"

fun update_octet :: "nat \<Rightarrow> u8 \<Rightarrow> ipv4 \<Rightarrow> ipv4" where
  "update_octet i v (IPv4 a b c d) =
     (if i = 0 then IPv4 v b c d else if i = 1 then IPv4 a v c d else if i = 2 then IPv4 a b v d else IPv4 a b c v)"

definition octet_key :: "u8 \<Rightarrow> u8 \<Rightarrow> ipv4 \<Rightarrow> ipv4 option" where
  "octet_key sel ch addr =
     (let i = unat (min sel 3)
      in map_option (\<lambda>v. update_octet i v addr) (decimal_key 255 ch (octets addr ! i)))"

definition settings_key :: "settings_text_focus \<Rightarrow> u8 \<Rightarrow> u8 \<Rightarrow> device_settings \<Rightarrow> device_settings option" where
  "settings_key foc sel ch s =
     (case foc of
        NoFocus \<Rightarrow> None
      | WifiSsid \<Rightarrow>
          if ch = 0x08 then Some (if 0 < wifi_ssid_len s then s\<lparr> wifi_ssid_len := wifi_ssid_len s - 1 \<rparr> else s)
          else if printable ch
          then Some (if wifi_ssid_len s < length (wifi_ssid s)
                     then s\<lparr> wifi_ssid := (wifi_ssid s)[wifi_ssid_len s := ch], wifi_ssid_len := wifi_ssid_len s + 1 \<rparr> else s)
          else None
      | WifiPsk \<Rightarrow>
          if ch = 0x08 then Some (if 0 < wifi_psk_len s then s\<lparr> wifi_psk_len := wifi_psk_len s - 1 \<rparr> else s)
          else if printable ch
          then Some (if wifi_psk_len s < length (wifi_psk s)
                     then s\<lparr> wifi_psk := (wifi_psk s)[wifi_psk_len s := ch], wifi_psk_len := wifi_psk_len s + 1 \<rparr> else s)
          else None
      | DisplayWidth \<Rightarrow> map_option (\<lambda>v. s\<lparr> display_pref_width := v \<rparr>) (decimal_key 7680 ch (display_pref_width s))
      | DisplayHeight \<Rightarrow> map_option (\<lambda>v. s\<lparr> display_pref_height := v \<rparr>) (decimal_key 4320 ch (display_pref_height s))
      | HomeUrl \<Rightarrow>
          (let n = unat (home_url_len s)
           in if ch = 0x08 then Some (if 0 < n then s\<lparr> home_url_len := of_nat (n - 1) \<rparr> else s)
              else if printable ch
              then Some (if n < PERSIST_HOME_URL_CAP
                         then s\<lparr> home_url := (home_url s)[n := ch], home_url_len := of_nat (n + 1) \<rparr> else s)
              else None)
      | StaticIp \<Rightarrow> map_option (\<lambda>v. s\<lparr> static_ip := v \<rparr>) (octet_key sel ch (static_ip s))
      | StaticGw \<Rightarrow> map_option (\<lambda>v. s\<lparr> static_gw := v \<rparr>) (octet_key sel ch (static_gw s))
      | StaticDns \<Rightarrow> map_option (\<lambda>v. s\<lparr> static_dns := v \<rparr>) (octet_key sel ch (static_dns s)))"

definition settings_text_key :: "u8 \<Rightarrow> ui_state \<Rightarrow> bool \<times> ui_state" where
  "settings_text_key ch st =
     (case settings_key (settings_text_focus st) (static_octet_sel st) ch (settings st) of
        None \<Rightarrow> (False, st)
      | Some s \<Rightarrow> (True, st\<lparr> settings := s \<rparr>))"

text \<open>A key in the URL bar; line feed is handled by the caller.\<close>

definition url_key :: "u8 \<Rightarrow> ui_state \<Rightarrow> ui_state" where
  "url_key ch st =
     (if ch = 0x08 then (if 0 < url_len st then st\<lparr> url_len := url_len st - 1, chrome_only_dirty := True \<rparr> else st)
      else if url_len st < length (url st) - 1 \<and> printable ch
      then st\<lparr> url := (url st)[url_len st := ch], url_len := url_len st + 1, chrome_only_dirty := True \<rparr>
      else st)"

section \<open>Starting a fetch\<close>

definition OFFLINE_PAGE :: bytes where
  "OFFLINE_PAGE = ascii (''<!doctype html><html><body><h1>TempleOS Web Shrine (offline)</h1><p>&#128512; Offline mode</p>''
     @ ''<p>Network is not active yet.</p><p>When online, the default home is <code>https://alexanderdfox.github.io/TempleOSWebShrine/</code></p>''
     @ ''<p>Local QEMU demo: host <code>python3 -m http.server 8080 --directory demo/qemu-http-test</code> then <code>http://10.0.2.2:8080/</code></p></body></html>'')"

definition show_message :: "bytes \<Rightarrow> ui_state \<Rightarrow> ui_state" where
  "show_message msg st =
     (let n = min (length msg) (length (fetch_err st))
      in st\<lparr> fetch_err := put_at (fetch_err st) 0 (take n msg), fetch_err_len := n, browser_line_count := 0,
            page_truncated := False, page_scroll_line := 0, browser_body_dirty := True, status_dirty := True \<rparr>)"

definition text_colour :: "ui_state \<Rightarrow> rgb" where
  "text_colour st = text_primary (ui_palette_of (settings st))"

definition offline_page :: "('d, 't) kernel \<Rightarrow> ('d, 't) kernel option" where
  "offline_page k =
     (case format_document OFFLINE_PAGE (text_colour (k_ui k)) (k_html k) of
        None \<Rightarrow> None
      | Some (g, n, trunc, _) \<Rightarrow>
          Some (on_ui (\<lambda>st. st\<lparr> browser_line_count := n, fetch_err_len := 0, page_truncated := trunc,
                  last_rendered_raw_len := Some (length OFFLINE_PAGE), page_scroll_line := 0,
                  browser_body_dirty := True, status_dirty := True \<rparr>) (k\<lparr> k_html := g \<rparr>)))"

definition is_home :: "ui_state \<Rightarrow> bool" where
  "is_home st \<longleftrightarrow> (let hl = unat (home_url_len (settings st))
     in 0 < hl \<and> url_len st = hl \<and> take hl (url st) = take hl (home_url (settings st)))"

text \<open>\<open>None\<close> is a slice out of range.\<close>

definition start_browser_fetch :: "bool \<Rightarrow> ('d, 't) kernel \<Rightarrow> ('d, 't) kernel option" where
  "start_browser_fetch inet_on k = do {
     st \<leftarrow> (if history_skip_push (k_ui k) then Some ((k_ui k)\<lparr> history_skip_push := False \<rparr>)
            else history_push_current (k_ui k));
     let k = k\<lparr> k_ui := st \<rparr>;
     if url_len st = 0 then Some k
     else if \<not> inet_on then
       (if url_len st = unat (home_url_len (settings st))
          \<and> (length (url st) < url_len st \<or> length (home_url (settings st)) < url_len st) then None
        else if is_home st then offline_page k
        else Some (on_ui (show_message (ascii ''NET OFFLINE'')) k))
     else if length (url st) < url_len st then None
     else Some (on_ui (\<lambda>st. st\<lparr> browser_line_count := 0, last_rendered_raw_len := None, page_scroll_line := 0,
                  browser_body_dirty := True, status_dirty := True \<rparr>)
                 (on_stack (start_fetch (take (url_len st) (url st))) k)) }"

section \<open>Keys\<close>

definition is_confirm :: "u8 option \<Rightarrow> bool" where
  "is_confirm ch \<longleftrightarrow> ch = Some 0x0A \<or> ch = Some 0x20"

text \<open>A key while a notice is shown.\<close>

definition notice_key :: "u8 option \<Rightarrow> ui_state \<Rightarrow> ui_state" where
  "notice_key ch st =
     (if \<not> is_confirm ch then st
      else mark_content (if screen st = EpilepsyWarning then dismiss_epilepsy_notice st else dismiss_california_age_notice st))"

definition in_notice :: "ui_state \<Rightarrow> bool" where
  "in_notice st \<longleftrightarrow> screen st = EpilepsyWarning \<or> screen st = CaliforniaAgeNotice"

text \<open>A key that is no function key: typed into the URL bar or a settings field.\<close>

definition typed_key :: "bool \<Rightarrow> u8 option \<Rightarrow> ('d, 't) kernel \<Rightarrow> ('d, 't) kernel option" where
  "typed_key inet_on och k =
     (case och of
        None \<Rightarrow> Some k
      | Some ch \<Rightarrow>
          (case screen (k_ui k) of
             Browser \<Rightarrow> if ch = 0x0A then start_browser_fetch inet_on k else Some (on_ui (url_key ch) k)
           | Settings \<Rightarrow>
               let (used, st) = settings_text_key ch (k_ui k)
               in Some (k\<lparr> k_ui := if used then mark_content st else st \<rparr>)
           | _ \<Rightarrow> Some k))"

definition show_screen :: "screen \<Rightarrow> ui_state \<Rightarrow> ui_state" where
  "show_screen scr st = mark_content (st\<lparr> screen := scr \<rparr>)"

definition show_browser :: "ui_state \<Rightarrow> ui_state" where
  "show_browser st = mark_content (st\<lparr> screen := Browser, settings_text_focus := NoFocus \<rparr>)"

definition midi_key :: "ui_state \<Rightarrow> ui_state" where
  "midi_key st = (if screen st = Settings then mark_content (on_settings toggle_midi_channel st) else st)"

definition toggle_fullpage :: "ui_state \<Rightarrow> ui_state" where
  "toggle_fullpage st = mark_content (st\<lparr> bios_fullpage_browser := \<not> bios_fullpage_browser st \<rparr>)"

definition toggle_log_subtab :: "ui_state \<Rightarrow> ui_state" where
  "toggle_log_subtab st =
     mark_content (st\<lparr> log_subtab := (case log_subtab st of Live \<Rightarrow> Serial | Serial \<Rightarrow> Live),
                       log_scroll_line := 0, log_stick_to_bottom := True \<rparr>)"

definition ps2_key :: "bool \<Rightarrow> bool \<Rightarrow> bool \<Rightarrow> u8 \<Rightarrow> bool \<Rightarrow> ('d, 't) kernel \<Rightarrow> ('d, 't) kernel option" where
  "ps2_key inet_on disk_pair_ready ignored code shift k =
     (let st = k_ui k; och = scancode_set1_to_ascii code shift
      in if ignored \<and> usb_polling_enabled (settings st) then Some k
         else if in_notice st then Some (on_ui (notice_key och) k)
         else if code = 0x3B then Some (on_ui (show_screen Settings) k)
         else if code = 0x3C then Some (on_ui show_browser k)
         else if code = 0x3D then Some (on_ui midi_key k)
         else if code = 0x3E \<and> disk_pair_ready then Some (on_ui (show_screen DiskInstall) k)
         else if code = 0x3F then Some (on_ui (show_screen Log) k)
         else if code = 0x40 \<and> screen st = Browser then Some (on_ui toggle_fullpage k)
         else if code = 0x40 \<and> screen st = Log then Some (on_ui toggle_log_subtab k)
         else typed_key inet_on och k)"

text \<open>The scroll of the current panel: the four amounts are those of the callers.\<close>

definition scroll_panel ::
  "frame_buffer_info \<Rightarrow> log_state \<Rightarrow> (layout \<Rightarrow> ui_state \<Rightarrow> int) \<Rightarrow> int \<Rightarrow> int \<Rightarrow> int \<Rightarrow> ui_state \<Rightarrow> ui_state" where
  "scroll_panel info log browser_lines log_amount settings_px install_px st =
     (let lay = ui_layout info st
      in case screen st of
           Browser \<Rightarrow> browser_scroll lay (browser_lines lay st) st
         | Log \<Rightarrow> log_scroll_by_wheel log lay log_amount st
         | Settings \<Rightarrow> settings_scroll_by_wheel lay settings_px st
         | DiskInstall \<Rightarrow> disk_install_scroll_by_wheel lay install_px st
         | _ \<Rightarrow> st)"

definition i32_saturating_mul :: "int \<Rightarrow> int \<Rightarrow> int" where
  "i32_saturating_mul a b = clamp (- (2 ^ 31)) (2 ^ 31 - 1) (a * b)"

definition ps2_scroll :: "frame_buffer_info \<Rightarrow> int \<Rightarrow> ('d, 't) kernel \<Rightarrow> ('d, 't) kernel" where
  "ps2_scroll info lines k =
     on_ui (scroll_panel info (ns_log (k_net k)) (\<lambda>lay st. browser_wheel_lines lay st lines) lines
              (i32_saturating_mul lines 36) (i32_saturating_mul lines 32)) k"

definition usb_page_key :: "frame_buffer_info \<Rightarrow> int \<Rightarrow> ('d, 't) kernel \<Rightarrow> ('d, 't) kernel" where
  "usb_page_key info dir k =
     on_ui (scroll_panel info (ns_log (k_net k)) (\<lambda>lay st. i32_of (dir * i32_of (int (browser_scroll_slots lay st))))
              (dir * 3) (dir * 120) (dir * 96)) k"

definition usb_key :: "frame_buffer_info \<Rightarrow> bool \<Rightarrow> bool \<Rightarrow> u8 \<Rightarrow> bool \<Rightarrow> ('d, 't) kernel \<Rightarrow> ('d, 't) kernel option" where
  "usb_key info inet_on disk_pair_ready usage shift k =
     (let st = k_ui k; och = hid_usage_to_ascii usage shift
      in if in_notice st then Some (on_ui (notice_key och) k)
         else if usage = 0x3A then Some (on_ui (show_screen Settings) k)
         else if usage = 0x3B then Some (on_ui show_browser k)
         else if usage = 0x3C then Some (on_ui midi_key k)
         else if usage = 0x3D \<and> disk_pair_ready then Some (on_ui (show_screen DiskInstall) k)
         else if usage = 0x3E then Some (on_ui (show_screen Log) k)
         else if usage = 0x3F \<and> screen st = Browser then Some (on_ui toggle_fullpage k)
         else if usage = 0x51 then Some (usb_page_key info 1 k)
         else if usage = 0x52 then Some (usb_page_key info (- 1) k)
         else typed_key inet_on och k)"

section \<open>Pointers\<close>

text \<open>The extents of the screen as \<open>i32\<close>; \<open>clamp\<close> panics when they are not positive.\<close>

definition fb_w :: "frame_buffer_info \<Rightarrow> int" where
  "fb_w info = i32_of (int (fb_width info))"

definition fb_h :: "frame_buffer_info \<Rightarrow> int" where
  "fb_h info = i32_of (int (fb_height info))"

definition move_cursor :: "frame_buffer_info \<Rightarrow> usize \<Rightarrow> u8 \<Rightarrow> 16 word \<Rightarrow> 16 word \<Rightarrow> ui_state \<Rightarrow> ui_state option" where
  "move_cursor info s buttons dx dy st =
     (if fb_w info < 1 \<or> fb_h info < 1 \<or> length (cursor_x st) \<le> s then None
      else Some (st\<lparr> cursor_btn := (cursor_btn st)[s := buttons],
             cursor_x := (cursor_x st)[s := clamp 0 (fb_w info - 1) (i32_of (cursor_x st ! s + sint dx))],
             cursor_y := (cursor_y st)[s := clamp 0 (fb_h info - 1) (i32_of (cursor_y st ! s + sint dy))] \<rparr>))"

text \<open>What the hardware delivers in one round of the loop.\<close>

record round_input =
  usb_mouse_active :: bool
  usb_mouse_count :: usize
  usb_mice :: "usize \<Rightarrow> (u8 \<times> 16 word \<times> 16 word) option"
  ps2_kbd_ignored :: bool
  ps2_events :: "ps2_event list"
  usb_keyboard_active :: bool
  usb_key_presses :: "(u8 \<times> bool) list"

definition usb_pointers :: "round_input \<Rightarrow> ui_state \<Rightarrow> usize" where
  "usb_pointers inp st =
     (if usb_polling_enabled (settings st) \<and> usb_mouse_active inp then min (usb_mouse_count inp) MAX_CURSORS else 0)"

text \<open>The slot of the PS/2 mouse; \<open>None\<close> is \<open>usize::MAX\<close>.\<close>

definition ps2_mouse_slot :: "usize \<Rightarrow> usize option" where
  "ps2_mouse_slot n_usb = (if 0 < n_usb then if n_usb < MAX_CURSORS then Some n_usb else None else Some 0)"

definition activate_cursors :: "usize \<Rightarrow> ui_state \<Rightarrow> ui_state" where
  "activate_cursors n_usb st =
     st\<lparr> cursor_active := map (\<lambda>i. if 0 < n_usb then i < n_usb \<or> ps2_mouse_slot n_usb = Some i else i = 0) [0..<MAX_CURSORS] \<rparr>"

fun ps2_event_step ::
  "frame_buffer_info \<Rightarrow> bool \<Rightarrow> bool \<Rightarrow> bool \<Rightarrow> usize option \<Rightarrow> ps2_event \<Rightarrow> ('d, 't) kernel \<Rightarrow> ('d, 't) kernel option" where
  "ps2_event_step info inet_on ready ignored place (BrowserScroll lines) k = Some (ps2_scroll info lines k)"
| "ps2_event_step info inet_on ready ignored place (Key code shift) k = ps2_key inet_on ready ignored code shift k"
| "ps2_event_step info inet_on ready ignored place (Mouse buttons dx dy) k =
     (case place of
        None \<Rightarrow> Some k
      | Some s \<Rightarrow> map_option (\<lambda>st. k\<lparr> k_ui := st \<rparr>) (move_cursor info s buttons dx dy (k_ui k)))"

fun fold_option :: "('a \<Rightarrow> 's \<Rightarrow> 's option) \<Rightarrow> 'a list \<Rightarrow> 's \<Rightarrow> 's option" where
  "fold_option f [] s = Some s"
| "fold_option f (x # xs) s = (case f x s of None \<Rightarrow> None | Some s \<Rightarrow> fold_option f xs s)"

definition usb_mouse_step ::
  "frame_buffer_info \<Rightarrow> round_input \<Rightarrow> usize \<Rightarrow> usize \<Rightarrow> ui_state \<Rightarrow> ui_state option" where
  "usb_mouse_step info inp n_usb i st =
     (case usb_mice inp i of
        Some (btn, dx, dy) \<Rightarrow> if 0 < n_usb then move_cursor info i btn dx dy st else Some st
      | None \<Rightarrow> Some st)"

definition read_input ::
  "frame_buffer_info \<Rightarrow> bool \<Rightarrow> bool \<Rightarrow> round_input \<Rightarrow> ('d, 't) kernel \<Rightarrow> ('d, 't) kernel option" where
  "read_input info inet_on ready inp k = do {
     let n_usb = usb_pointers inp (k_ui k);
     let k = on_ui (activate_cursors n_usb) k;
     k \<leftarrow> fold_option (ps2_event_step info inet_on ready (ps2_kbd_ignored inp) (ps2_mouse_slot n_usb)) (ps2_events inp) k;
     if \<not> usb_polling_enabled (settings (k_ui k)) then Some k
     else do {
       st \<leftarrow> fold_option (usb_mouse_step info inp n_usb) [0..<min (usb_mouse_count inp) MAX_CURSORS] (k_ui k);
       let k = k\<lparr> k_ui := st \<rparr>;
       if usb_keyboard_active inp
       then fold_option (\<lambda>(usage, shift). usb_key info inet_on ready usage shift) (usb_key_presses inp) k
       else Some k } }"

section \<open>Clicks\<close>

definition settle_pointers :: "ui_state \<Rightarrow> ui_state" where
  "settle_pointers st =
     (let st = st\<lparr> cursor_btn := map (\<lambda>i. if cursor_active st ! i then cursor_btn st ! i else 0) [0..<MAX_CURSORS] \<rparr>
      in st\<lparr> mx := cursor_x st ! 0, my := cursor_y st ! 0 \<rparr>)"

definition click_step :: "frame_buffer_info \<Rightarrow> usize \<Rightarrow> bool \<times> ui_state \<Rightarrow> (bool \<times> ui_state) option" where
  "click_step info i = (\<lambda>(click_dirty, st).
     if \<not> cursor_active st ! i then Some (click_dirty, st)
     else if cursor_btn st ! i AND 1 \<noteq> 0 \<and> prev_cursor_btn st ! i AND 1 = 0 then
       if fb_w info < 1 \<or> fb_h info < 1 then None
       else map_option (\<lambda>(hit, st). (click_dirty \<or> hit, st))
              (handle_click_at info (nat (clamp 0 (fb_w info - 1) (cursor_x st ! i)))
                 (nat (clamp 0 (fb_h info - 1) (cursor_y st ! i))) st)
     else Some (click_dirty, st))"

definition handle_clicks :: "frame_buffer_info \<Rightarrow> ui_state \<Rightarrow> ui_state option" where
  "handle_clicks info st = do {
     (click_dirty, st) \<leftarrow> fold_option (click_step info) [0..<MAX_CURSORS] (False, settle_pointers st);
     let st = (if click_dirty then mark_content st else st);
     Some (st\<lparr> prev_cursor_btn := cursor_btn st \<rparr>) }"

section \<open>Requests\<close>

datatype 'k outcome = Go_on 'k | Reboot 'k | Shutdown 'k

definition power_requests :: "('d, 't) kernel \<Rightarrow> ('d, 't) kernel outcome" where
  "power_requests k =
     (let (rebooted, k) =
        (if power_reboot_request (k_ui k)
         then let k = on_ui (\<lambda>st. st\<lparr> power_reboot_request := False \<rparr>) k
              in if screen (k_ui k) = Settings then (True, on_log (log_line (ascii ''power reboot'')) k)
                 else (False, on_log (log_line (ascii ''power reboot ignored (not in SYS)'')) k)
         else (False, k))
      in if rebooted then Reboot k
         else if power_shutdown_request (k_ui k)
         then let k = on_ui (\<lambda>st. st\<lparr> power_shutdown_request := False \<rparr>) k
              in if screen (k_ui k) = Settings then Shutdown (on_log (log_line (ascii ''power shutdown'')) k)
                 else Go_on (on_log (log_line (ascii ''power shutdown ignored (not in SYS)'')) k)
         else Go_on k)"

definition reload_request :: "bool \<Rightarrow> ('d \<Rightarrow> mac) \<Rightarrow> ('d, 't) kernel \<Rightarrow> ('d, 't) kernel option" where
  "reload_request inet_on nic_mac k =
     (if \<not> inet_reload_request (k_ui k) then Some k
      else do {
        let k = on_ui (\<lambda>st. st\<lparr> inet_reload_request := False \<rparr>) k;
        k \<leftarrow> (if 0 < url_len (k_ui k) then start_browser_fetch inet_on k
              else Some (on_ui (\<lambda>st. st\<lparr> browser_line_count := 0, last_rendered_raw_len := None, last_inet_page_gen := 0,
                           fetch_err_len := 0, page_truncated := False, browser_body_dirty := True \<rparr>)
                     (on_stack (\<lambda>s. if k_nic_present k then seed_from_mac (nic_mac (w_nic (k_world k))) (reset_demo s)
                                    else reset_demo s) k)));
        Some (on_ui (\<lambda>st. st\<lparr> status_dirty := True \<rparr>) k) })"

section \<open>The network\<close>

text \<open>Whether the page of a settled fetch has to be shown.\<close>

definition page_changed :: "net_stack \<Rightarrow> ui_state \<Rightarrow> bool" where
  "page_changed s st \<longleftrightarrow> last_rendered_raw_len st \<noteq> Some (length (ns_page s)) \<or> length (ns_fetch_err s) \<noteq> fetch_err_len st
     \<or> ns_page_truncated s \<noteq> page_truncated st \<or> ns_page_gen s \<noteq> last_inet_page_gen st"

definition log_script :: "(vm_error + i32) option \<Rightarrow> log_state \<Rightarrow> log_state" where
  "log_script res log =
     (case res of
        None \<Rightarrow> log
      | Some (Inr _) \<Rightarrow> log_line (ascii ''script eve ok'') log
      | Some (Inl _) \<Rightarrow> log_line (ascii ''script eve err'') log)"

definition show_page :: "('d, 't) kernel \<Rightarrow> ('d, 't) kernel option" where
  "show_page k =
     (let s = k_net k;
          fe = min (length (ns_fetch_err s)) (length (fetch_err (k_ui k)));
          k = on_ui (\<lambda>st. st\<lparr> last_rendered_raw_len := Some (length (ns_page s)), last_inet_page_gen := ns_page_gen s,
                fetch_err := put_at (fetch_err st) 0 (take fe (ns_fetch_err s)), fetch_err_len := fe,
                browser_body_dirty := True \<rparr>) k
      in if 0 < length (ns_fetch_err s)
         then Some (on_ui (\<lambda>st. st\<lparr> browser_line_count := 0, page_truncated := False \<rparr>) k)
         else case format_document (ns_page s) (text_colour (k_ui k)) (k_html k) of
                None \<Rightarrow> None
              | Some (g, n, trunc, _) \<Rightarrow>
                  Some (on_log (log_script (run_page_eve_script (ns_page s) (browser_script_runtime_enabled (settings (k_ui k)))))
                          (on_ui (\<lambda>st. st\<lparr> browser_line_count := n, page_truncated := ns_page_truncated s \<or> trunc \<rparr>)
                            (k\<lparr> k_html := g \<rparr>))))"

definition inet_enabled :: "('d, 't) kernel \<Rightarrow> bool" where
  "inet_enabled k \<longleftrightarrow> k_nic_present k \<and> nic (settings (k_ui k)) \<noteq> Off \<and> internet_stack_enabled (settings (k_ui k))"

definition network_round ::
  "decoders \<Rightarrow> 'd nic_ops \<Rightarrow> ('d, 't) tls_ops \<Rightarrow> bool \<Rightarrow> ('d, 't) kernel \<Rightarrow> ('d, 't) kernel option" where
  "network_round dec vio tls inet_on k =
     (if \<not> inet_on
      then Some (on_ui (\<lambda>st. st\<lparr> net_ipv4 := IPv4 0 0 0 0, inet_phase := NetOff, inet_bytes := 0 \<rparr>) k)
      else do {
        w \<leftarrow> drive dec vio tls (ui_mac (k_ui k)) (settings (k_ui k)) (k_world k);
        let s = w_net w;
        let k = on_ui (\<lambda>st. st\<lparr> net_ipv4 := addr_our (ns_addrs s), inet_phase := ns_phase s, inet_bytes := ns_http_bytes s \<rparr>)
                  (k\<lparr> k_world := w \<rparr>);
        if ns_phase s = NetDone \<and> page_changed s (k_ui k) then show_page k else Some k })"

definition status_round :: "('d \<Rightarrow> u64) \<Rightarrow> ('d \<Rightarrow> mac) \<Rightarrow> ('d, 't) kernel \<Rightarrow> ('d, 't) kernel" where
  "status_round rx_packets nic_mac k =
     (let linked = k_nic_present k \<and> nic (settings (k_ui k)) \<noteq> Off;
          d = w_nic (k_world k);
          st = (if linked then (k_ui k)\<lparr> net_rx := rx_packets d, ui_mac := nic_mac d \<rparr> else k_ui k);
          st = st\<lparr> net_ok := linked \<rparr>
      in if net_rx st \<noteq> last_rx_drawn k \<or> inet_phase st \<noteq> last_inet_phase k \<or> inet_bytes st \<noteq> last_inet_bytes k
            \<or> net_ipv4 st \<noteq> last_net_ipv4 k
         then let st' = st\<lparr> status_dirty := True \<rparr>
              in k\<lparr> k_ui := if screen st = Log then mark_content st' else st', last_rx_drawn := net_rx st,
                    last_inet_phase := inet_phase st, last_inet_bytes := inet_bytes st, last_net_ipv4 := net_ipv4 st \<rparr>
         else k\<lparr> k_ui := st \<rparr>)"

definition log_round :: "('d, 't) kernel \<Rightarrow> ('d, 't) kernel" where
  "log_round k =
     (let (dirty, log) = take_dirty (ns_log (k_net k));
          k = on_log (\<lambda>_. log) k
      in if dirty \<and> screen (k_ui k) = Log then on_ui mark_content k else k)"

section \<open>Disks\<close>

text \<open>
  The disks as the main loop sees them. \<open>None\<close> in \<open>disk_src\<close>, \<open>disk_dst\<close> and \<open>settings_blk\<close> is memory
  that was never written (\<open>MaybeUninit\<close>).
\<close>

record 's blk_ops =
  blk_rd :: "'s rd_fn"
  blk_wr :: "'s wr_fn"
  blk_ss :: "'s \<Rightarrow> u32"
  blk_cap :: "'s \<Rightarrow> u64"

record 's disks =
  disk_src :: "'s option"
  disk_dst :: "'s option"
  settings_blk :: "'s option"
  SETTINGS_ON_DISK_SRC :: bool
  SETTINGS_BLK_READY :: bool
  disk_pair_ready :: bool
  sector_buf :: bytes

definition no_disks :: "'s disks" where
  "no_disks = \<lparr> disk_src = None, disk_dst = None, settings_blk = None, SETTINGS_ON_DISK_SRC = False,
     SETTINGS_BLK_READY = False, disk_pair_ready = False, sector_buf = replicate 512 0 \<rparr>"

text \<open>
  The disks at boot: \<open>first\<close> and \<open>second\<close> are the results of initialising the first two of \<open>n_blk\<close> devices.
  The results are the disks, the settings read from the first, and whether settings can be saved.
\<close>

definition boot_disks ::
  "'s blk_ops \<Rightarrow> nat \<Rightarrow> 's option \<Rightarrow> 's option \<Rightarrow> device_settings \<Rightarrow> 's disks \<times> device_settings \<times> bool" where
  "boot_disks ops n_blk first second cfg =
     (case first of
        None \<Rightarrow> (no_disks, cfg, False)
      | Some src \<Rightarrow>
          if n_blk = 0 then (no_disks, cfg, False)
          else if 1 \<le> blk_cap ops src then
            let (_, cfg, src) = disk_load (blk_rd ops) (blk_cap ops src) src cfg
            in if 2 \<le> n_blk then
                 let d = no_disks\<lparr> SETTINGS_ON_DISK_SRC := True \<rparr>
                 in (case second of
                       Some dst \<Rightarrow> d\<lparr> disk_src := Some src, disk_dst := Some dst, disk_pair_ready := True \<rparr>
                     | None \<Rightarrow> d, cfg, True)
               else (no_disks\<lparr> settings_blk := Some src, SETTINGS_BLK_READY := True \<rparr>, cfg, True)
          else if 2 \<le> n_blk then
            (case second of
               Some dst \<Rightarrow> no_disks\<lparr> disk_src := Some src, disk_dst := Some dst, disk_pair_ready := True \<rparr>
             | None \<Rightarrow> no_disks, cfg, False)
          else (no_disks, cfg, False))"

definition install_round :: "'s blk_ops \<Rightarrow> ui_state \<times> 's disks \<Rightarrow> (ui_state \<times> 's disks) option" where
  "install_round ops = (\<lambda>(st, d).
     if \<not> disk_pair_ready d then Some (st, d)
     else case (disk_src d, disk_dst d) of
            (Some src, Some dst) \<Rightarrow>
              (case install_tick (blk_rd ops) (blk_ss ops) (blk_cap ops) (blk_rd ops) (blk_wr ops) (blk_ss ops) (blk_cap ops)
                      (disk_install st, src, dst, sector_buf d) of
                 (inst, src, dst, sb) \<Rightarrow>
                   Some (st\<lparr> disk_install := inst \<rparr>, d\<lparr> disk_src := Some src, disk_dst := Some dst, sector_buf := sb \<rparr>))
          | _ \<Rightarrow> None)"

definition save_to :: "'s blk_ops \<Rightarrow> device_settings \<Rightarrow> 's option \<Rightarrow> (bool \<times> 's option) option" where
  "save_to ops cfg blk =
     (case blk of
        None \<Rightarrow> None
      | Some b \<Rightarrow> (case disk_save (blk_wr ops) (blk_cap ops b) b cfg of (saved, b) \<Rightarrow> Some (saved, Some b)))"

definition save_round :: "'s blk_ops \<Rightarrow> ('d, 't) kernel \<times> 's disks \<Rightarrow> (('d, 't) kernel \<times> 's disks) option" where
  "save_round ops = (\<lambda>(k, d).
     if \<not> settings_save_requested (k_ui k) then Some (k, d)
     else do {
       let k = on_ui (\<lambda>st. st\<lparr> settings_save_requested := False \<rparr>) k;
       let cfg = settings (k_ui k);
       (saved, d) \<leftarrow>
         (if SETTINGS_ON_DISK_SRC d
          then map_option (\<lambda>(saved, b). (saved, d\<lparr> disk_src := b \<rparr>)) (save_to ops cfg (disk_src d))
          else if SETTINGS_BLK_READY d
          then map_option (\<lambda>(saved, b). (saved, d\<lparr> settings_blk := b \<rparr>)) (save_to ops cfg (settings_blk d))
          else Some (False, d));
       Some (if saved then on_log (log_line (ascii ''settings saved disk'')) k else k, d) })"

section \<open>A round on x86\<close>

record ('d, 't) platform =
  p_dec :: decoders
  p_vio :: "'d nic_ops"
  p_tls :: "('d, 't) tls_ops"
  p_rx_packets :: "'d \<Rightarrow> u64"
  p_nic_mac :: "'d \<Rightarrow> mac"

definition boot_fetch :: "bool \<Rightarrow> ('d, 't) kernel \<Rightarrow> ('d, 't) kernel option" where
  "boot_fetch inet_on k =
     (if boot_home_fetch_pending k \<and> screen (k_ui k) = Browser \<and> 0 < url_len (k_ui k)
      then start_browser_fetch inet_on (k\<lparr> boot_home_fetch_pending := False \<rparr>) else Some k)"

text \<open>The part of a round after the clicks and the power requests.\<close>

definition finish_round ::
  "('d, 't) platform \<Rightarrow> 's blk_ops \<Rightarrow> bool \<Rightarrow> ('d, 't) kernel \<times> 's disks \<Rightarrow> (('d, 't) kernel \<times> 's disks) option" where
  "finish_round pf ops inet_on = (\<lambda>(k, d). do {
     k \<leftarrow> reload_request inet_on (p_nic_mac pf) k;
     (st, d) \<leftarrow> install_round ops (k_ui k, d);
     k \<leftarrow> network_round (p_dec pf) (p_vio pf) (p_tls pf) inet_on (k\<lparr> k_ui := st \<rparr>);
     save_round ops (log_round (status_round (p_rx_packets pf) (p_nic_mac pf) k), d) })"

definition main_round ::
  "('d, 't) platform \<Rightarrow> 's blk_ops \<Rightarrow> frame_buffer_info \<Rightarrow> round_input \<Rightarrow> ('d, 't) kernel \<times> 's disks
    \<Rightarrow> (('d, 't) kernel \<times> 's disks) outcome option" where
  "main_round pf ops info inp = (\<lambda>(k, d). do {
     let inet_on = inet_enabled k;
     k \<leftarrow> boot_fetch inet_on k;
     k \<leftarrow> read_input info inet_on (disk_pair_ready d) inp k;
     st \<leftarrow> handle_clicks info (k_ui k);
     case power_requests (k\<lparr> k_ui := st \<rparr>) of
       Reboot k \<Rightarrow> Some (Reboot (k, d))
     | Shutdown k \<Rightarrow> Some (Shutdown (k, d))
     | Go_on k \<Rightarrow> map_option Go_on (finish_round pf ops inet_on (k, d)) })"

text \<open>The kernel before its first round, from the state \<open>new_with_settings\<close> made.\<close>

definition boot_kernel ::
  "bool \<Rightarrow> ('d \<Rightarrow> mac) \<Rightarrow> ('d, 't) net_world \<Rightarrow> html_globals \<Rightarrow> u64 option \<Rightarrow> ui_state \<Rightarrow> ('d, 't) kernel" where
  "boot_kernel nic_present nic_mac w html pair_total st =
     (let st = (if nic_present then st\<lparr> net_ok := True, ui_mac := nic_mac (w_nic w) \<rparr> else st);
          st = (case pair_total of
                  None \<Rightarrow> st
                | Some t \<Rightarrow> st\<lparr> disk_install_available := True,
                      disk_install := (disk_install st)\<lparr> install_total := t \<rparr>,
                      screen_after_epilepsy_notice := DiskInstall \<rparr>)
      in \<lparr> k_ui = st, k_world = (if nic_present then on_net (seed_from_mac (nic_mac (w_nic w))) w else w), k_html = html,
           k_nic_present = nic_present, boot_home_fetch_pending = True, last_rx_drawn = net_rx st,
           last_inet_phase = inet_phase st, last_inet_bytes = inet_bytes st, last_net_ipv4 = net_ipv4 st \<rparr>)"

section \<open>A step on ARM\<close>

definition arm_scroll ::
  "frame_buffer_info \<Rightarrow> (layout \<Rightarrow> ui_state \<Rightarrow> int) \<Rightarrow> int \<Rightarrow> ('d, 't) kernel \<Rightarrow> ('d, 't) kernel" where
  "arm_scroll info browser_lines lines k =
     on_ui (scroll_panel info (ns_log (k_net k)) browser_lines lines (i32_saturating_mul lines 40) (i32_saturating_mul lines 32)) k"

definition scroll_arm :: "frame_buffer_info \<Rightarrow> int \<Rightarrow> ('d, 't) kernel \<Rightarrow> ('d, 't) kernel" where
  "scroll_arm info lines k =
     (if lines = 0 then k else arm_scroll info (\<lambda>lay st. browser_wheel_lines lay st lines) lines k)"

definition arm_page :: "layout \<Rightarrow> ui_state \<Rightarrow> int" where
  "arm_page lay st = i32_of (int (browser_scroll_slots lay st))"

definition arm_confirms :: "arm_key_event \<Rightarrow> bool" where
  "arm_confirms ev \<longleftrightarrow> ev = ArmChar 0x20 \<or> ev = ArmChar 0x0A \<or> ev = Enter"

definition arm_home :: "frame_buffer_info \<Rightarrow> ('d, 't) kernel \<Rightarrow> ('d, 't) kernel" where
  "arm_home info k =
     (case screen (k_ui k) of
        Browser \<Rightarrow> on_ui (\<lambda>st. st\<lparr> page_scroll_line := 0, browser_body_dirty := True \<rparr>) k
      | Log \<Rightarrow> on_ui (\<lambda>st. mark_content (st\<lparr> log_stick_to_bottom := False, log_scroll_line := 0 \<rparr>)) k
      | _ \<Rightarrow> scroll_arm info (- 12) k)"

definition arm_end :: "frame_buffer_info \<Rightarrow> ('d, 't) kernel \<Rightarrow> ('d, 't) kernel" where
  "arm_end info k =
     (case screen (k_ui k) of
        Browser \<Rightarrow> on_ui (\<lambda>st. st\<lparr> page_scroll_line := browser_max_scroll_line (ui_layout info st) st, browser_body_dirty := True \<rparr>) k
      | Log \<Rightarrow> on_ui (\<lambda>st. mark_content (st\<lparr> log_stick_to_bottom := True, log_scroll_line := 0 \<rparr>)) k
      | _ \<Rightarrow> scroll_arm info 12 k)"

fun arm_key :: "frame_buffer_info \<Rightarrow> bool \<Rightarrow> arm_key_event \<Rightarrow> ('d, 't) kernel \<Rightarrow> ('d, 't) kernel option" where
  "arm_key info inet_on (Func n) k =
     (let st = k_ui k
      in Some (if n = 1 then on_ui (show_screen Settings) k
               else if n = 2 then on_ui show_browser k
               else if n = 3 then on_ui midi_key k
               else if n = 4 \<and> disk_install_available st then on_ui (show_screen DiskInstall) k
               else if n = 5 then on_ui (show_screen Log) k
               else if n = 6 \<and> screen st = Browser then on_ui toggle_fullpage k
               else if n = 6 \<and> screen st = Log then on_ui toggle_log_subtab k
               else k))"
| "arm_key info inet_on PageDown k = Some (arm_scroll info arm_page 3 k)"
| "arm_key info inet_on PageUp k = Some (arm_scroll info (\<lambda>lay st. - arm_page lay st) (- 3) k)"
| "arm_key info inet_on ArrowDown k = Some (arm_scroll info browser_arrow_step 3 k)"
| "arm_key info inet_on ArrowUp k = Some (arm_scroll info (\<lambda>lay st. - browser_arrow_step lay st) (- 3) k)"
| "arm_key info inet_on ArrowLeft k = Some (arm_scroll info (\<lambda>lay st. - browser_arrow_step lay st) (- 3) k)"
| "arm_key info inet_on ArrowRight k = Some (arm_scroll info browser_arrow_step 3 k)"
| "arm_key info inet_on Home k = Some (arm_home info k)"
| "arm_key info inet_on End k = Some (arm_end info k)"
| "arm_key info inet_on Escape k =
     Some (if screen (k_ui k) = Settings then on_ui (mark_content \<circ> focus_on NoFocus) k else k)"
| "arm_key info inet_on Backspace k = typed_key inet_on (Some 0x08) k"
| "arm_key info inet_on Enter k = (if screen (k_ui k) = Browser then start_browser_fetch inet_on k else Some k)"
| "arm_key info inet_on (ArmChar ch) k =
     (if screen (k_ui k) = Browser then Some (if printable ch then on_ui (url_key ch) k else k)
      else typed_key inet_on (Some ch) k)"

definition arm_key_step :: "frame_buffer_info \<Rightarrow> bool \<Rightarrow> arm_key_event \<Rightarrow> ('d, 't) kernel \<Rightarrow> ('d, 't) kernel option" where
  "arm_key_step info inet_on ev k =
     (if in_notice (k_ui k) then Some (on_ui (notice_key (if arm_confirms ev then Some 0x20 else None)) k)
      else arm_key info inet_on ev k)"

definition process_arm_keys :: "frame_buffer_info \<Rightarrow> bool \<Rightarrow> arm_key_event list \<Rightarrow> ('d, 't) kernel \<Rightarrow> ('d, 't) kernel option" where
  "process_arm_keys info inet_on = fold_option (arm_key_step info inet_on)"

definition sync_primary_cursor :: "frame_buffer_info \<Rightarrow> int \<times> int \<times> u8 \<Rightarrow> ui_state \<Rightarrow> ui_state" where
  "sync_primary_cursor info = (\<lambda>(ax, ay, btn) st.
     let x = clamp 0 (max (clamp (- (2 ^ 31)) (2 ^ 31 - 1) (fb_w info - 1)) 0) ax;
         y = clamp 0 (max (clamp (- (2 ^ 31)) (2 ^ 31 - 1) (fb_h info - 1)) 0) ay
     in st\<lparr> cursor_active := map (\<lambda>i. i = 0) [0..<MAX_CURSORS], cursor_x := (cursor_x st)[0 := x], cursor_y := (cursor_y st)[0 := y],
            cursor_btn := (cursor_btn st)[0 := btn], mx := x, my := y \<rparr>)"

text \<open>\<open>save\<close> is the registered saver of the settings blob.\<close>

definition arm_save_round :: "(bytes \<Rightarrow> 's \<Rightarrow> 's) option \<Rightarrow> ('d, 't) kernel \<times> 's \<Rightarrow> ('d, 't) kernel \<times> 's" where
  "arm_save_round save = (\<lambda>(k, nv).
     if \<not> settings_save_requested (k_ui k) then (k, nv)
     else (on_ui (\<lambda>st. st\<lparr> settings_save_requested := False \<rparr>) k,
           case save of None \<Rightarrow> nv | Some f \<Rightarrow> f (encode (settings (k_ui k))) nv))"

definition main_step ::
  "('d, 't) platform \<Rightarrow> (bytes \<Rightarrow> 's \<Rightarrow> 's) option \<Rightarrow> frame_buffer_info \<Rightarrow> arm_key_event list \<Rightarrow> int \<times> int \<times> u8
    \<Rightarrow> ('d, 't) kernel \<times> 's \<Rightarrow> (('d, 't) kernel \<times> 's) outcome option" where
  "main_step pf save info keys pointer = (\<lambda>(k, nv). do {
     let inet_on = inet_enabled k;
     k \<leftarrow> boot_fetch inet_on k;
     k \<leftarrow> process_arm_keys info inet_on keys k;
     st \<leftarrow> handle_clicks info (sync_primary_cursor info pointer (k_ui k));
     case power_requests (k\<lparr> k_ui := st \<rparr>) of
       Reboot k \<Rightarrow> Some (Reboot (k, nv))
     | Shutdown k \<Rightarrow> Some (Shutdown (k, nv))
     | Go_on k \<Rightarrow> do {
         k \<leftarrow> reload_request inet_on (p_nic_mac pf) k;
         k \<leftarrow> network_round (p_dec pf) (p_vio pf) (p_tls pf) inet_on k;
         Some (Go_on (arm_save_round save (log_round (status_round (p_rx_packets pf) (p_nic_mac pf) k), nv))) } })"

end
