(* ===== verification/Eve_Ui_Inv.thy ===== *)
theory Eve_Ui_Inv
  imports Eve_Ui_Click
begin

text \<open>
  The invariant of the user interface: every array has its size, every fill count and index is within
  it, the pointers are on the screen. Every operation of \<open>Eve_Ui\<close> and every click keeps it, and under it no
  operation panics. The history of URLs as a list with a position, and the ranges of the scroll offsets.
\<close>

section \<open>The invariant\<close>

text \<open>The settings as the interface leaves them: unlike at boot, the home URL may be empty.\<close>

definition settings_sized :: "device_settings \<Rightarrow> bool" where
  "settings_sized s \<longleftrightarrow> 1 \<le> midi_channel s \<and> midi_channel s \<le> 16
     \<and> length (home_url s) = 120 \<and> home_url_len s \<le> 120
     \<and> length (bookmark_url s) = 8 \<and> (\<forall>u\<in>set (bookmark_url s). length u = 30)
     \<and> length (bookmark_len s) = 8 \<and> (\<forall>n\<in>set (bookmark_len s). n \<le> 30)
     \<and> length (wifi_ssid s) = 32 \<and> wifi_ssid_len s \<le> 32
     \<and> length (wifi_psk s) = 64 \<and> wifi_psk_len s \<le> 64"

lemma settings_wf_iff: "settings_wf s \<longleftrightarrow> settings_sized s \<and> 0 < home_url_len s"
  by (auto simp: settings_wf_def settings_sized_def)

definition history_ok :: "ui_state \<Rightarrow> bool" where
  "history_ok st \<longleftrightarrow> length (url_history st) = 16 \<and> list_all (\<lambda>u. length u = 192) (url_history st)
     \<and> length (url_history_lens st) = 16 \<and> list_all (\<lambda>n. n \<le> 191) (url_history_lens st)
     \<and> history_pos st < history_count st \<and> history_count st \<le> 16"

definition cursors_ok :: "frame_buffer_info \<Rightarrow> ui_state \<Rightarrow> bool" where
  "cursors_ok info st \<longleftrightarrow> length (cursor_x st) = 12 \<and> length (cursor_y st) = 12 \<and> length (cursor_active st) = 12
     \<and> length (cursor_btn st) = 12 \<and> length (prev_cursor_btn st) = 12
     \<and> list_all (\<lambda>x. 0 \<le> x \<and> x < int (fb_width info)) (cursor_x st)
     \<and> list_all (\<lambda>y. 0 \<le> y \<and> y < int (fb_height info)) (cursor_y st)"

definition wifi_ok :: "ui_state \<Rightarrow> bool" where
  "wifi_ok st \<longleftrightarrow> length (wifi_scan_names st) = 3 \<and> list_all (\<lambda>u. length u = 32) (wifi_scan_names st)
     \<and> length (wifi_scan_lens st) = 3 \<and> list_all (\<lambda>n. n \<le> 32) (wifi_scan_lens st)"

definition ui_ok :: "frame_buffer_info \<Rightarrow> ui_state \<Rightarrow> bool" where
  "ui_ok info st \<longleftrightarrow> length (url st) = 192 \<and> url_len st \<le> 191 \<and> settings_sized (settings st) \<and> history_ok st
     \<and> cursors_ok info st \<and> wifi_ok st \<and> browser_line_count st \<le> 128
     \<and> length (fetch_err st) = 80 \<and> fetch_err_len st \<le> 80 \<and> static_octet_sel st \<le> 3
     \<and> length (install_err (disk_install st)) = 56 \<and> install_err_len (disk_install st) \<le> 56"

text \<open>
  Most operations change only fields the invariant does not mention. \<open>ui_core\<close> are the fields it does.
\<close>

definition ui_core ::
  "ui_state \<Rightarrow> (bytes \<times> usize \<times> device_settings) \<times> (bytes list \<times> bytes \<times> u8 \<times> u8) \<times>
     (int list \<times> int list \<times> bool list \<times> bytes \<times> bytes) \<times> (bytes list \<times> bytes) \<times> (usize \<times> bytes \<times> usize \<times> u8 \<times> bytes \<times> usize)" where
  "ui_core st = ((url st, url_len st, settings st), (url_history st, url_history_lens st, history_count st, history_pos st),
     (cursor_x st, cursor_y st, cursor_active st, cursor_btn st, prev_cursor_btn st), (wifi_scan_names st, wifi_scan_lens st),
     (browser_line_count st, fetch_err st, fetch_err_len st, static_octet_sel st, install_err (disk_install st),
      install_err_len (disk_install st)))"

lemma ui_ok_core: "ui_core st' = ui_core st \<Longrightarrow> ui_ok info st' = ui_ok info st"
  unfolding ui_core_def prod.inject
  by (elim conjE) (simp add: ui_ok_def history_ok_def cursors_ok_def wifi_ok_def)

lemma ui_core_mark [simp]: "ui_core (mark_content st) = ui_core st"
  by (simp add: ui_core_def mark_content_def)

lemma ui_ok_mark [simp]: "ui_ok info (mark_content st) = ui_ok info st"
  by (rule ui_ok_core) simp

lemma mark_content_fields [simp]:
  "screen (mark_content st) = screen st" "url (mark_content st) = url st" "url_len (mark_content st) = url_len st"
  "settings (mark_content st) = settings st" "page_scroll_line (mark_content st) = page_scroll_line st"
  "history_skip_push (mark_content st) = history_skip_push st"
  "disk_install_available (mark_content st) = disk_install_available st"
  by (simp_all add: mark_content_def)

lemma ui_ok_fields:
  assumes "ui_ok info st"
  shows "length (url st) = 192" "url_len st \<le> 191" "settings_sized (settings st)" "history_ok st" "cursors_ok info st"
    "wifi_ok st" "length (fetch_err st) = 80"
  using assms by (simp_all add: ui_ok_def)

lemma ui_ok_settings: "ui_ok info st \<Longrightarrow> settings_sized s \<Longrightarrow> ui_ok info (st\<lparr> settings := s \<rparr>)"
  by (simp add: ui_ok_def history_ok_def cursors_ok_def wifi_ok_def)

lemma ui_ok_on_settings: "ui_ok info st \<Longrightarrow> settings_sized (f (settings st)) \<Longrightarrow> ui_ok info (on_settings f st)"
  by (simp add: on_settings_def ui_ok_settings)

lemma ui_ok_url: "ui_ok info st \<Longrightarrow> length u = 192 \<Longrightarrow> n \<le> 191 \<Longrightarrow> ui_ok info (st\<lparr> url := u, url_len := n \<rparr>)"
  by (simp add: ui_ok_def history_ok_def cursors_ok_def wifi_ok_def)

section \<open>Construction\<close>

lemma length_home_bytes: "settings_sized s \<Longrightarrow> length (home_bytes 192 s) \<le> 120"
  by (auto simp: home_bytes_def settings_sized_def Let_def length_DEFAULT_HOME_URL word_le_nat_alt)

lemma initial_cursor_bounds: "1 \<le> extent \<Longrightarrow> 0 \<le> initial_cursor extent k \<and> initial_cursor extent k < extent"
  using clamp_bounds [of 0 "extent - 1" "i32_of (extent * k) sdiv 100"] by (auto simp: initial_cursor_def)

lemma ui_ok_new:
  assumes "new_with_settings w h wlan n1 v1 d1 n2 d2 n3 au caps s = Some st" "settings_sized s"
    "w = int (fb_width info)" "h = int (fb_height info)"
  shows "ui_ok info st \<and> screen st = EpilepsyWarning"
proof -
  have pos: "1 \<le> w" "1 \<le> h" using assms(1) by (auto simp: new_with_settings_def split: if_splits)
  have hb: "length (home_bytes 192 s) \<le> 120" by (rule length_home_bytes [OF assms(2)])
  have c: "list_all (\<lambda>x. 0 \<le> x \<and> x < int (fb_width info)) (map (\<lambda>i. initial_cursor w (6 + int (i mod 4) * 22)) [0..<12])"
      "list_all (\<lambda>x. 0 \<le> x \<and> x < int (fb_height info)) (map (\<lambda>i. initial_cursor h (18 + int (i div 4) * 20)) [0..<12])"
    using initial_cursor_bounds pos assms(3,4) by (auto simp: list_all_iff)
  have hist: "list_all (\<lambda>u. length u = 192) ((replicate 16 (replicate 192 (0 :: u8)))[0 := u])" if "length u = 192" for u
    using that by (simp add: list_all_length nth_list_update)
  have lens: "list_all (\<lambda>n. n \<le> 191) ((replicate 16 (0 :: u8))[0 := of_nat n])" if "n \<le> 120" for n
    using that by (simp add: list_all_length nth_list_update word_le_nat_alt unat_of_nat_small)
  define xs ys where "xs = map (\<lambda>i. initial_cursor w (6 + int (i mod 4) * 22)) [0..<12]"
    and "ys = map (\<lambda>i. initial_cursor h (18 + int (i div 4) * 20)) [0..<12]"
  have st: "history_ok st" "wifi_ok st" "length (url st) = 192" "url_len st \<le> 120" "settings st = s"
      "cursor_x st = xs" "cursor_y st = ys"
      "length (cursor_active st) = 12" "length (cursor_btn st) = 12" "length (prev_cursor_btn st) = 12"
      "browser_line_count st = 0" "fetch_err st = replicate 80 0" "fetch_err_len st = 0" "static_octet_sel st = 0"
      "install_err (disk_install st) = replicate 56 0" "install_err_len (disk_install st) = 0" "screen st = EpilepsyWarning"
    using assms(1) pos hb hist [of "put_at (replicate 192 0) 0 (home_bytes 192 s)"] lens [of "length (home_bytes 192 s)"]
    unfolding new_with_settings_def xs_def [symmetric] ys_def [symmetric]
    by (auto simp: Let_def history_ok_def wifi_ok_def list_all_iff)
  show ?thesis using st c assms(2) by (simp add: ui_ok_def cursors_ok_def xs_def ys_def)
qed

section \<open>History\<close>

text \<open>The visited URLs, oldest first; \<open>history_pos\<close> is the current one.\<close>

definition history :: "ui_state \<Rightarrow> bytes list" where
  "history st = map (\<lambda>i. take (unat (url_history_lens st ! i)) (url_history st ! i)) [0..<unat (history_count st)]"

definition current_url :: "ui_state \<Rightarrow> bytes" where
  "current_url st = take (url_len st) (url st)"

lemma length_history [simp]: "length (history st) = unat (history_count st)"
  by (simp add: history_def)

lemma history_ok_nat:
  assumes "history_ok st"
  shows "unat (history_pos st) < unat (history_count st)" "unat (history_count st) \<le> 16"
    "i < 16 \<Longrightarrow> length (url_history st ! i) = 192" "i < 16 \<Longrightarrow> unat (url_history_lens st ! i) \<le> 191"
  using assms by (auto simp: history_ok_def word_less_nat_alt word_le_nat_alt list_all_length)

lemma history_load:
  assumes "history_ok st" "length (url st) = 192"
  shows "\<exists>st'. history_load_at_pos st = Some st' \<and> ui_core st' = ui_core (st\<lparr> url := url st', url_len := url_len st' \<rparr>)
    \<and> length (url st') = 192 \<and> url_len st' \<le> 191 \<and> current_url st' = history st ! unat (history_pos st)
    \<and> screen st' = screen st \<and> history st' = history st \<and> history_pos st' = history_pos st"
proof -
  note h = history_ok_nat [OF assms(1)]
  let ?p = "unat (history_pos st)"
  have p: "?p < 16" using h(1,2) by simp
  note l = h(3) [OF p] h(4) [OF p]
  have "current_url (st\<lparr> url := put_at (url st) 0 (take (unat (url_history_lens st ! ?p)) (url_history st ! ?p)),
      url_len := unat (url_history_lens st ! ?p), chrome_only_dirty := True \<rparr>) = history st ! ?p"
    using l h(1) assms(2) by (simp add: current_url_def history_def put_at_def)
  then show ?thesis using assms p l
    by (auto simp: history_load_at_pos_def Let_def history_ok_def ui_core_def history_def)
qed

lemma history_step:
  assumes "ui_ok info st" "p < history_count st"
  defines "st1 \<equiv> st\<lparr> history_pos := p \<rparr>"
  shows "\<exists>st'. history_load_at_pos st1 = Some st' \<and> ui_ok info st' \<and> current_url st' = history st ! unat p
    \<and> screen st' = screen st \<and> history st' = history st \<and> history_pos st' = p"
proof -
  have ok: "history_ok st1" "length (url st1) = 192" "ui_ok info st1"
    using assms(1,2) by (auto simp: st1_def ui_ok_def history_ok_def cursors_ok_def wifi_ok_def)
  obtain st' where st': "history_load_at_pos st1 = Some st'"
    "ui_core st' = ui_core (st1\<lparr> url := url st', url_len := url_len st' \<rparr>)" "length (url st') = 192" "url_len st' \<le> 191"
    "current_url st' = history st1 ! unat (history_pos st1)" "screen st' = screen st1" "history st' = history st1"
    "history_pos st' = history_pos st1"
    using history_load [OF ok(1,2)] by blast
  have "ui_ok info st'" using ui_ok_core [OF st'(2)] ui_ok_url [OF ok(3) st'(3,4)] by blast
  with st' show ?thesis by (simp add: st1_def history_def)
qed

lemma go_back_ok:
  assumes "ui_ok info st"
  shows "\<exists>moved st'. history_go_back st = Some (moved, st') \<and> ui_ok info st' \<and> screen st' = screen st
    \<and> (moved \<longleftrightarrow> 0 < history_pos st) \<and> (\<not> moved \<longrightarrow> st' = st)
    \<and> (moved \<longrightarrow> history st' = history st \<and> history_pos st' = history_pos st - 1
          \<and> current_url st' = history st ! (unat (history_pos st) - 1))"
proof (cases "0 < history_pos st")
  case True
  have "history_pos st < history_count st" using ui_ok_fields(4) [OF assms] by (simp add: history_ok_def)
  moreover have u: "unat (history_pos st - 1) = unat (history_pos st) - 1" using True by (simp add: unat_minus_one)
  ultimately have "history_pos st - 1 < history_count st" using True by (simp add: word_less_nat_alt)
  from history_step [OF assms this] True u show ?thesis
    by (auto simp: history_go_back_def history_can_back_def)
qed (use assms in \<open>auto simp: history_go_back_def history_can_back_def\<close>)

lemma go_forward_ok:
  assumes "ui_ok info st"
  shows "\<exists>moved st'. history_go_forward st = Some (moved, st') \<and> ui_ok info st' \<and> screen st' = screen st
    \<and> (moved \<longleftrightarrow> unat (history_pos st) + 1 < length (history st)) \<and> (\<not> moved \<longrightarrow> st' = st)
    \<and> (moved \<longrightarrow> history st' = history st \<and> history_pos st' = history_pos st + 1
          \<and> current_url st' = history st ! (unat (history_pos st) + 1))"
proof (cases "unat (history_pos st) + 1 < unat (history_count st)")
  case True
  note h = history_ok_nat [OF ui_ok_fields(4) [OF assms]]
  have u: "unat (history_pos st + 1) = unat (history_pos st) + 1" using True h by (simp add: unat_word_ariths)
  then have "history_pos st + 1 < history_count st" using True by (simp add: word_less_nat_alt)
  from history_step [OF assms this] True u show ?thesis
    by (auto simp: history_go_forward_def history_can_forward_def)
qed (use assms in \<open>auto simp: history_go_forward_def history_can_forward_def\<close>)

text \<open>The list after a visit: what was ahead of the position is dropped, and the oldest of sixteen.\<close>

definition visit :: "bytes list \<Rightarrow> nat \<Rightarrow> bytes \<Rightarrow> bytes list" where
  "visit urls pos u = (let kept = take (pos + 1) urls in (if length kept < 16 then kept else tl kept) @ [u])"

lemma history_push_fields:
  assumes "history_push_current st = Some st'"
  shows "ui_core st' = ui_core (st\<lparr> url_history := url_history st', url_history_lens := url_history_lens st',
       history_count := history_count st', history_pos := history_pos st' \<rparr>)"
    "screen st' = screen st" "url st' = url st" "url_len st' = url_len st" "settings st' = settings st"
    "history_skip_push st' = history_skip_push st"
  using assms by (auto simp: history_push_current_def ui_core_def Let_def split: if_splits)

text \<open>The entry a visit writes.\<close>

lemma history_entry:
  assumes "length old = 192" "length u = 192" "n \<le> 191"
  shows "length (put_at old 0 (take n u)) = 192" "take n (put_at old 0 (take n u)) = take n u" "unat (of_nat n :: u8) = n"
  using assms by (simp_all add: put_at_def unat_of_nat_small)

lemma list_all_update_at: "list_all P xs \<Longrightarrow> P x \<Longrightarrow> list_all P (xs[i := x])"
  by (auto simp: list_all_iff dest: set_update_subset_insert [THEN subsetD])

lemma history_push_room:
  assumes "ui_ok info st" "unat (history_pos st) < 15" "0 < url_len st"
    "unat (url_history_lens st ! unat (history_pos st)) \<noteq> url_len st"
  shows "\<exists>st'. history_push_current st = Some st' \<and> history_ok st' \<and> history st' = take (unat (history_pos st) + 1) (history st) @ [current_url st]
    \<and> unat (history_pos st') = unat (history_pos st) + 1"
proof -
  let ?p = "unat (history_pos st)" and ?n = "url_len st"
  define old where "old = url_history st ! (?p + 1)"
  define e where "e = put_at old 0 (take ?n (url st))"
  define st' where "st' = st\<lparr> history_count := of_nat (?p + 2), history_pos := of_nat (?p + 1),
    url_history := (url_history st)[?p + 1 := e], url_history_lens := (url_history_lens st)[?p + 1 := of_nat ?n] \<rparr>"
  have ok: "history_ok st" "length (url st) = 192" "?n \<le> 191" using assms(1) by (simp_all add: ui_ok_def)
  note h = history_ok_nat [OF ok(1)]
  have lens: "length (url_history st) = 16" "length (url_history_lens st) = 16" using ok(1) by (simp_all add: history_ok_def)
  have e: "length e = 192" "take ?n e = take ?n (url st)" "unat (of_nat ?n :: u8) = ?n"
    using history_entry [of old "url st" ?n] h(3) [of "?p + 1"] ok assms(2) by (simp_all add: e_def old_def)
  have w: "unat (of_nat (?p + 1) :: u8) = ?p + 1" "unat (of_nat (?p + 2) :: u8) = ?p + 2"
    by (rule unat_of_nat_small, use assms(2) in simp)+
  have "history_push_current st = Some st'"
    using assms(2,3,4) h(1) lens w(1) ok(2,3)
    by (auto simp: history_push_current_def Let_def st'_def e_def old_def word_less_nat_alt)
  moreover have "history_ok st'"
    using ok(1,3) e w assms(2) unfolding history_ok_def st'_def
    by (auto simp: word_less_nat_alt word_le_nat_alt intro!: list_all_update_at)
  moreover have "history st' = take (?p + 1) (history st) @ [current_url st]"
    using e w lens assms(2) h(1) unfolding history_def st'_def current_url_def
    by (auto simp: take_map intro!: map_cong)
  ultimately show ?thesis using w by (auto simp: st'_def)
qed

lemma rotated_last:
  "length xs = 16 \<Longrightarrow> (tl xs @ [last xs])[15 := x] = tl xs @ [x]"
  "length xs = 16 \<Longrightarrow> (tl xs @ [last xs]) ! 15 = last xs"
  by (simp_all add: list_update_append nth_append)

lemma history_push_full:
  assumes "ui_ok info st" "unat (history_pos st) = 15" "0 < url_len st"
    "unat (url_history_lens st ! unat (history_pos st)) \<noteq> url_len st"
  shows "\<exists>st'. history_push_current st = Some st' \<and> history_ok st' \<and> history st' = tl (history st) @ [current_url st]
    \<and> unat (history_pos st') = 15"
proof -
  let ?n = "url_len st" and ?us = "url_history st" and ?ls = "url_history_lens st"
  define e where "e = put_at (last ?us) 0 (take ?n (url st))"
  define st' where "st' = st\<lparr> url_history := tl ?us @ [e], url_history_lens := tl ?ls @ [of_nat ?n], history_pos := 15, history_count := 16 \<rparr>"
  have ok: "history_ok st" "length (url st) = 192" "?n \<le> 191" using assms(1) by (simp_all add: ui_ok_def)
  note h = history_ok_nat [OF ok(1)]
  have lens: "length ?us = 16" "length ?ls = 16" using ok(1) by (simp_all add: history_ok_def)
  have "last ?us = ?us ! 15" using lens by (cases ?us rule: rev_cases) (auto simp: nth_append)
  then have e: "length e = 192" "take ?n e = take ?n (url st)" "unat (of_nat ?n :: u8) = ?n"
    using history_entry [of "last ?us" "url st" ?n] h(3) [of 15] ok by (simp_all add: e_def)
  have count: "unat (history_count st) = 16" using h(1,2) assms(2) by simp
  have "history_push_current st = Some st'"
    using assms(2-4) h(1) lens ok(2,3)
    by (auto simp: history_push_current_def Let_def st'_def e_def word_less_nat_alt rotated_last)
  moreover have "history_ok st'"
    using ok(1,3) e unfolding history_ok_def st'_def
    by (auto simp: word_less_nat_alt word_le_nat_alt list_all_iff dest!: list.set_sel(2) [rotated])
  moreover have "history st' = tl (history st) @ [current_url st]"
  proof (rule nth_equalityI)
    fix i assume "i < length (history st')"
    then have i: "i < 16" by (simp add: st'_def)
    show "history st' ! i = (tl (history st) @ [current_url st]) ! i"
      using i e lens count
      by (cases "i = 15") (auto simp: history_def st'_def current_url_def nth_append nth_tl)
  qed (use count in \<open>simp add: st'_def\<close>)
  ultimately show ?thesis by (auto simp: st'_def)
qed

lemma history_push_ok:
  assumes "ui_ok info st"
  shows "\<exists>st'. history_push_current st = Some st' \<and> ui_ok info st'
    \<and> (if url_len st = 0 \<or> length (history st ! unat (history_pos st)) = url_len st then st' = st
       else history st' = visit (history st) (unat (history_pos st)) (current_url st)
         \<and> unat (history_pos st') = length (history st') - 1)"
proof -
  let ?p = "unat (history_pos st)"
  have ok: "history_ok st" "length (url st) = 192" "url_len st \<le> 191" using assms by (simp_all add: ui_ok_def)
  note h = history_ok_nat [OF ok(1)]
  have p: "?p < 16" using h(1,2) by simp
  have len: "length (history st ! ?p) = unat (url_history_lens st ! ?p)"
    using h(1) h(3) [OF p] h(4) [OF p] by (simp add: history_def)
  have keep: "ui_ok info st'" if "history_push_current st = Some st'" "history_ok st'" for st'
    using ui_ok_core [OF history_push_fields(1) [OF that(1)], of info] assms that(2)
    unfolding ui_ok_def history_ok_def cursors_ok_def wifi_ok_def by simp
  show ?thesis
  proof (cases "url_len st = 0 \<or> unat (url_history_lens st ! ?p) = url_len st")
    case True
    have lens: "\<not> 16 \<le> ?p" "length (url_history_lens st) = 16" "0 < history_count st"
      using p ok(1) h(1) by (simp_all add: history_ok_def word_less_nat_alt)
    have "history_push_current st = Some st"
    proof (cases "url_len st = 0")
      case False
      then show ?thesis using True lens ok(2,3) by (simp add: history_push_current_def Let_def)
    qed (simp add: history_push_current_def)
    with True assms len show ?thesis by simp
  next
    case False
    show ?thesis
    proof (cases "?p < 15")
      case True
      then obtain st' where "history_push_current st = Some st'" "history_ok st'"
          "history st' = take (?p + 1) (history st) @ [current_url st]" "unat (history_pos st') = ?p + 1"
        using history_push_room [OF assms] False by blast
      moreover have "visit (history st) ?p (current_url st) = take (?p + 1) (history st) @ [current_url st]"
        using True h(1) by (simp add: visit_def)
      moreover have "length (take (?p + 1) (history st) @ [current_url st]) - 1 = ?p + 1" using h(1) by simp
      ultimately show ?thesis using keep False len by (intro exI [of _ st']) simp
    next
      case full: False
      then have 15: "?p = 15" using p by simp
      have "length (history st) = 16" using 15 h(1,2) by simp
      moreover obtain st' where "history_push_current st = Some st'" "history_ok st'"
          "history st' = tl (history st) @ [current_url st]" "unat (history_pos st') = 15"
        using history_push_full [OF assms 15] False by blast
      moreover from calculation have "visit (history st) ?p (current_url st) = tl (history st) @ [current_url st]"
        using 15 by (simp add: visit_def)
      moreover from calculation have "length (tl (history st) @ [current_url st]) - 1 = 15" by simp
      ultimately show ?thesis using keep False len by (intro exI [of _ st']) simp
    qed
  qed
qed

section \<open>Clicks\<close>

lemma settings_sized_toggles [simp]:
  "settings_sized (s\<lparr> display_theme := a \<rparr>) = settings_sized s"
  "settings_sized (s\<lparr> display_use_custom_resolution := b \<rparr>) = settings_sized s"
  "settings_sized (s\<lparr> wifi_enabled := b \<rparr>) = settings_sized s"
  "settings_sized (s\<lparr> wifi_sec := c \<rparr>) = settings_sized s"
  "settings_sized (s\<lparr> nic := d \<rparr>) = settings_sized s"
  "settings_sized (s\<lparr> ip_config := e \<rparr>) = settings_sized s"
  "settings_sized (s\<lparr> internet_stack_enabled := b \<rparr>) = settings_sized s"
  "settings_sized (s\<lparr> bluetooth_enabled := b \<rparr>) = settings_sized s"
  "settings_sized (s\<lparr> midi_enabled := b \<rparr>) = settings_sized s"
  "settings_sized (s\<lparr> midi_usb_enabled := b \<rparr>) = settings_sized s"
  "settings_sized (s\<lparr> browser_script_runtime_enabled := b \<rparr>) = settings_sized s"
  "settings_sized (s\<lparr> usb_polling_enabled := b \<rparr>) = settings_sized s"
  "settings_sized (next_cursor_emoji_preset s) = settings_sized s"
  by (simp_all add: settings_sized_def next_cursor_emoji_preset_def Let_def)

lemma ui_ok_flags [simp]:
  "ui_ok info (st\<lparr> screen := a \<rparr>) = ui_ok info st"
  "ui_ok info (st\<lparr> settings_text_focus := b \<rparr>) = ui_ok info st"
  "ui_ok info (st\<lparr> inet_reload_request := c, status_dirty := c' \<rparr>) = ui_ok info st"
  "ui_ok info (st\<lparr> history_skip_push := c \<rparr>) = ui_ok info st"
  "ui_ok info (st\<lparr> chrome_only_dirty := c \<rparr>) = ui_ok info st"
  "ui_ok info (st\<lparr> log_subtab := d, log_scroll_line := n, log_stick_to_bottom := c \<rparr>) = ui_ok info st"
  "ui_ok info (st\<lparr> settings_subtab := e, settings_scroll_px := n \<rparr>) = ui_ok info st"
  "ui_ok info (st\<lparr> settings_save_requested := c \<rparr>) = ui_ok info st"
  "ui_ok info (st\<lparr> power_reboot_request := c \<rparr>) = ui_ok info st"
  "ui_ok info (st\<lparr> power_shutdown_request := c \<rparr>) = ui_ok info st"
  "ui_ok info (st\<lparr> disk_install := (disk_install st)\<lparr> install_start_request := c \<rparr> \<rparr>) = ui_ok info st"
  "ui_ok info (st\<lparr> inet_reload_request := c, chrome_only_dirty := c, status_dirty := c' \<rparr>) = ui_ok info st"
  by (rule ui_ok_core, simp add: ui_core_def)+

lemma ui_ok_focus [simp]: "ui_ok info (focus_on f st) = ui_ok info st"
  by (simp add: focus_on_def)

lemma ui_ok_reload [simp]: "ui_ok info (request_reload st) = ui_ok info st"
  by (simp add: request_reload_def)

lemma load_home_ok: "ui_ok info st \<Longrightarrow> ui_ok info (load_home st)"
  using length_home_bytes [of "settings st"] ui_ok_fields [of info st]
    ui_ok_url [of info st "put_at (url st) 0 (home_bytes 192 (settings st))" "length (home_bytes 192 (settings st))"]
  by (simp add: load_home_def Let_def)

lemma after_history_ok:
  assumes "r = Some (moved, st')" "ui_ok info st'"
  shows "\<exists>st2. after_history r = Some st2 \<and> ui_ok info st2"
  using assms by (simp add: after_history_def)

lemma url_bar_ok: "ui_ok info st \<Longrightarrow> \<exists>st'. url_bar_click i st = Some st' \<and> ui_ok info st'"
  using go_back_ok [of info st] go_forward_ok [of info st] load_home_ok [of info st]
  by (auto simp: url_bar_click_def intro: after_history_ok)

lemma use_url_ok: "ui_ok info st \<Longrightarrow> ui_ok info (use_url_as_home st)"
  using ui_ok_fields [of info st]
  by (auto simp: use_url_as_home_def Let_def settings_sized_def word_le_nat_alt unat_of_nat_small intro!: ui_ok_on_settings)

lemma bookmark_ok:
  assumes "ui_ok info st" "k < 8"
  shows "ui_ok info (bookmark_row mid px k st)"
proof (cases "px < mid")
  case True
  have "length (bookmark_url (settings st) ! k) = 30" using assms ui_ok_fields(3) [OF assms(1)] by (simp add: settings_sized_def)
  with True show ?thesis using ui_ok_fields(1) [OF assms(1)] assms(1)
    by (auto simp: bookmark_row_def Let_def intro!: ui_ok_url)
next
  case False
  let ?s = "settings st" and ?n = "min (url_len st) 30"
  have s: "settings_sized ?s" "length (url st) = 192" using ui_ok_fields [OF assms(1)] by simp_all
  then have "length (put_at (bookmark_url ?s ! k) 0 (take ?n (url st))) = 30" "(of_nat ?n :: u8) \<le> 30"
    using assms(2) by (simp_all add: settings_sized_def word_le_nat_alt unat_of_nat_small)
  then show ?thesis using False s assms(1)
    by (auto simp: bookmark_row_def Let_def settings_sized_def intro!: ui_ok_on_settings
        dest!: set_update_subset_insert [THEN subsetD])
qed

lemma wifi_row_ok:
  assumes "ui_ok info st" "k < 3"
  shows "ui_ok info (wifi_row k st)"
proof -
  have "length (wifi_scan_names st ! k) = 32" "length (wifi_ssid (settings st)) = 32"
    using assms(2) ui_ok_fields(3,6) [OF assms(1)] by (simp_all add: wifi_ok_def settings_sized_def list_all_length)
  then show ?thesis using assms(1) ui_ok_fields(3) [OF assms(1)]
    by (auto simp: wifi_row_def Let_def settings_sized_def intro!: ui_ok_on_settings)
qed

lemma wifi_scan_ok: "ui_ok info st \<Longrightarrow> ui_ok info (wifi_demo_scan st)"
  by (auto simp: ui_ok_def wifi_ok_def history_ok_def cursors_ok_def wifi_demo_scan_def Let_def list_all_iff
      numeral_3_eq_3 length_Suc_conv)

lemma focus_static_ok: "ui_ok info st \<Longrightarrow> ui_ok info (focus_static lay px f st)"
  by (auto simp: ui_ok_def history_ok_def cursors_ok_def wifi_ok_def focus_static_def static_ip_octet_from_mx_def mark_content_def
      word_le_nat_alt unat_of_nat_small)

lemma save_row_ok: "ui_ok info st \<Longrightarrow> ui_ok info (save_row st)"
  by (simp add: save_row_def)

lemma click_rows_ok:
  "click_rows in_row y rows st = Some st' \<Longrightarrow> list_all (\<lambda>(gap, act). ui_ok info (act st)) rows \<Longrightarrow> ui_ok info st'"
  by (induction in_row y rows st rule: click_rows.induct) (auto split: if_splits)

lemma general_rows_ok: "ui_ok info st \<Longrightarrow> list_all (\<lambda>(gap, act). ui_ok info (act st)) (general_rows lay px st)"
  unfolding general_rows_def Let_def list_all_append list.pred_map
  by (auto simp: bookmark_ok wifi_row_ok wifi_scan_ok focus_static_ok save_row_ok use_url_ok ui_ok_on_settings ui_ok_fields
      list_all_iff comp_def)

lemma input_rows_ok: "ui_ok info st \<Longrightarrow> list_all (\<lambda>(gap, act). ui_ok info (act st)) input_rows"
  by (simp add: input_rows_def ui_ok_on_settings ui_ok_fields)

lemma settings_click_ok: "ui_ok info st \<Longrightarrow> ui_ok info (snd (settings_click lay px py st))"
  by (auto simp: settings_click_def Let_def show_settings_subtab_def general_rows_ok input_rows_ok
      dest!: click_rows_ok [where info = info] split: option.splits settings_subtab.splits prod.splits)

lemma click_tab_ok: "click_tab lay px st = Some st' \<Longrightarrow> ui_ok info st' = ui_ok info st"
  by (auto simp: click_tab_def split: if_splits)

lemma notice_click_ok [simp]:
  "ui_ok info (dismiss_epilepsy_notice st) = ui_ok info st" "ui_ok info (dismiss_california_age_notice st) = ui_ok info st"
  by (simp_all add: dismiss_epilepsy_notice_def dismiss_california_age_notice_def)

lemma panel_click_ok:
  "ui_ok info st \<Longrightarrow> ui_ok info (snd (log_click lay px py st))"
  "ui_ok info st \<Longrightarrow> ui_ok info (snd (install_click lay px py st))"
  by (auto simp: log_click_def install_click_def show_log_subtab_def)

text \<open>Every click is handled.\<close>

lemma hit_ok: "(\<And>i. \<exists>st'. f i = Some st' \<and> P st') \<Longrightarrow> \<exists>hit st'. f i = Some st' \<and> hit \<and> P st'"
  by blast

lemma some_pair_ok: "P (snd r) \<Longrightarrow> \<exists>a b. r = (a, b) \<and> P b"
  by (cases r) simp

lemma click_ok:
  assumes "ui_ok info st"
  shows "\<exists>hit st'. handle_click_at info px py st = Some (hit, st') \<and> ui_ok info st'"
  using assms settings_click_ok [OF assms, of "ui_layout info st" px py] panel_click_ok [OF assms, of "ui_layout info st" px py]
    url_bar_ok [OF assms]
  by (auto simp: handle_click_at_def Let_def click_tab_ok split: option.splits screen.splits intro: some_pair_ok hit_ok)

section \<open>Browsing\<close>

text \<open>
  A history of visited URLs as its client sees it: a list of URLs with a position, where a visit drops what is
  ahead and appends, and moving loads the entry at the new position.
\<close>

locale browsing =
  fixes ok :: "'s \<Rightarrow> bool" and urls :: "'s \<Rightarrow> 'u list" and pos :: "'s \<Rightarrow> nat" and shown :: "'s \<Rightarrow> 'u"
    and recorded :: "'s \<Rightarrow> bool" and push :: "'s \<Rightarrow> 's option" and go_prev go_next :: "'s \<Rightarrow> (bool \<times> 's) option"
  assumes pos_ok: "ok s \<Longrightarrow> pos s < length (urls s)"
    and push_ok: "ok s \<Longrightarrow> \<not> recorded s \<Longrightarrow> \<exists>s'. push s = Some s' \<and> ok s' \<and> shown s' = shown s
      \<and> (\<exists>old. urls s' = old @ [urls s ! pos s, shown s]) \<and> pos s' = length (urls s') - 1"
    and back_ok: "ok s \<Longrightarrow> 0 < pos s \<Longrightarrow> \<exists>s'. go_prev s = Some (True, s') \<and> ok s' \<and> urls s' = urls s \<and> pos s' = pos s - 1
      \<and> shown s' = urls s ! (pos s - 1)"
    and forward_ok: "ok s \<Longrightarrow> pos s + 1 < length (urls s) \<Longrightarrow> \<exists>s'. go_next s = Some (True, s') \<and> ok s' \<and> urls s' = urls s
      \<and> pos s' = pos s + 1 \<and> shown s' = urls s ! (pos s + 1)"
begin

lemma visit_back_forward:
  assumes "ok s" "\<not> recorded s"
  shows "\<exists>s1 s2 s3. push s = Some s1 \<and> go_prev s1 = Some (True, s2) \<and> go_next s2 = Some (True, s3)
    \<and> shown s2 = urls s ! pos s \<and> shown s3 = shown s \<and> ok s3"
proof -
  obtain s1 old where 1: "push s = Some s1" "ok s1" "urls s1 = old @ [urls s ! pos s, shown s]" "pos s1 = length (urls s1) - 1"
    using push_ok [OF assms] by blast
  then have p: "pos s1 = length old + 1" by simp
  obtain s2 where 2: "go_prev s1 = Some (True, s2)" "ok s2" "urls s2 = urls s1" "pos s2 = length old" "shown s2 = urls s ! pos s"
    using back_ok [OF 1(2)] p 1(3) by (auto simp: nth_append)
  obtain s3 where "go_next s2 = Some (True, s3)" "ok s3" "shown s3 = shown s"
    using forward_ok [OF 2(2)] 2(3,4) 1(3) by (auto simp: nth_append)
  with 1 2 show ?thesis by blast
qed

end

text \<open>A visit that the browser does not record: the empty URL, and a URL as long as the current entry.\<close>

definition not_recorded :: "ui_state \<Rightarrow> bool" where
  "not_recorded st \<longleftrightarrow> url_len st = 0 \<or> length (history st ! unat (history_pos st)) = url_len st"

lemma visit_last_two:
  "pos < length urls \<Longrightarrow> pos < 16 \<Longrightarrow> \<exists>old. visit urls pos u = old @ [urls ! pos, u]"
proof -
  assume a: "pos < length urls" "pos < 16"
  have "take (pos + 1) urls = take pos urls @ [urls ! pos]" using a by (simp add: take_Suc_conv_app_nth)
  then show ?thesis using a by (cases "take pos urls") (auto simp: visit_def Let_def)
qed

interpretation nav: browsing "ui_ok info" history "\<lambda>st. unat (history_pos st)" current_url not_recorded
  history_push_current history_go_back history_go_forward
proof
  fix s assume s: "ui_ok info s"
  note h = history_ok_nat [OF ui_ok_fields(4) [OF s]]
  show "unat (history_pos s) < length (history s)" using h(1) by simp
  show "\<exists>s'. history_push_current s = Some s' \<and> ui_ok info s' \<and> current_url s' = current_url s
      \<and> (\<exists>old. history s' = old @ [history s ! unat (history_pos s), current_url s])
      \<and> unat (history_pos s') = length (history s') - 1" if new: "\<not> not_recorded s"
  proof -
    obtain s' where s': "history_push_current s = Some s'" "ui_ok info s'"
      "history s' = visit (history s) (unat (history_pos s)) (current_url s)" "unat (history_pos s') = length (history s') - 1"
      using history_push_ok [OF s] unfolding if_not_P [OF new [unfolded not_recorded_def]] by blast
    have "current_url s' = current_url s" using history_push_fields [OF s'(1)] by (simp add: current_url_def)
    moreover obtain old where "history s' = old @ [history s ! unat (history_pos s), current_url s]"
      using visit_last_two [of "unat (history_pos s)" "history s" "current_url s"] h(1,2) s'(3) by auto
    ultimately show ?thesis using s'(1,2,4) by blast
  qed
  show "\<exists>s'. history_go_back s = Some (True, s') \<and> ui_ok info s' \<and> history s' = history s
      \<and> unat (history_pos s') = unat (history_pos s) - 1 \<and> current_url s' = history s ! (unat (history_pos s) - 1)"
    if "0 < unat (history_pos s)"
    using go_back_ok [OF s] that by (auto simp: unat_minus_one word_gt_0)
  show "\<exists>s'. history_go_forward s = Some (True, s') \<and> ui_ok info s' \<and> history s' = history s
      \<and> unat (history_pos s') = unat (history_pos s) + 1 \<and> current_url s' = history s ! (unat (history_pos s) + 1)"
    if "unat (history_pos s) + 1 < length (history s)"
    using go_forward_ok [OF s] that h(2) by (auto simp: unat_word_ariths)
qed

text \<open>A screen of 1024 by 768 pixels with the default settings, at boot and with a URL typed in.\<close>

definition screen_info :: frame_buffer_info where
  "screen_info = \<lparr> fb_width = 1024, fb_height = 768, fb_stride = 1024, fb_pixel_format = Bgr, fb_bytes_per_pixel = 4 \<rparr>"

definition fresh_ui :: ui_state where
  "fresh_ui = the (new_with_settings 1024 768 False 0 0 0 0 0 0 False caps_x86 device_settings_new)"

definition typed_ui :: "bytes \<Rightarrow> ui_state" where
  "typed_ui u = fresh_ui\<lparr> url := put_at (url fresh_ui) 0 u, url_len := length u \<rparr>"

lemma fresh_ui_ok: "ui_ok screen_info fresh_ui \<and> screen fresh_ui = EpilepsyWarning"
proof -
  have "new_with_settings 1024 768 False 0 0 0 0 0 0 False caps_x86 device_settings_new = Some fresh_ui"
    by (simp add: fresh_ui_def new_with_settings_def Let_def)
  then show ?thesis
    by (rule ui_ok_new) (use settings_wf_new in \<open>simp_all add: settings_wf_iff screen_info_def\<close>)
qed

lemma typed_ui_ok: "length u \<le> 191 \<Longrightarrow> ui_ok screen_info (typed_ui u)"
  unfolding typed_ui_def using fresh_ui_ok by (auto intro!: ui_ok_url simp: ui_ok_fields(1))

lemma typed_history [simp]: "history (typed_ui u) = [DEFAULT_HOME_URL]" "history_pos (typed_ui u) = 0"
proof -
  have "history (typed_ui u) = history fresh_ui" by (simp add: history_def typed_ui_def)
  also have "\<dots> = [DEFAULT_HOME_URL]" by code_simp
  finally show "history (typed_ui u) = [DEFAULT_HOME_URL]" .
  show "history_pos (typed_ui u) = 0" by (simp add: typed_ui_def fresh_ui_def new_with_settings_def Let_def)
qed

lemma typed_current [simp]: "length u \<le> 191 \<Longrightarrow> current_url (typed_ui u) = u" "url_len (typed_ui u) = length u"
proof -
  show "current_url (typed_ui u) = u" if "length u \<le> 191"
    using fresh_ui_ok that by (auto simp: typed_ui_def current_url_def put_at_def dest: ui_ok_fields(1))
qed (simp add: typed_ui_def)

text \<open>
  C11. Back and forward: after a visit to a URL that is recorded, back shows the URL visited before, and
  forward from there shows the visited URL again.
\<close>

theorem visit_back_forward_urls:
  assumes "ui_ok info st" "0 < url_len st" "length (history st ! unat (history_pos st)) \<noteq> url_len st"
  shows "\<exists>st1 st2 st3. history_push_current st = Some st1 \<and> history_go_back st1 = Some (True, st2)
    \<and> history_go_forward st2 = Some (True, st3) \<and> current_url st2 = history st ! unat (history_pos st)
    \<and> current_url st3 = current_url st \<and> ui_ok info st3"
  using nav.visit_back_forward [OF assms(1)] assms(2,3) by (simp add: not_recorded_def)

theorem visit_back_forward_urls_witness:
  "\<exists>st1 st2 st3. history_push_current (typed_ui (ascii ''http://10.0.2.2/'')) = Some st1 \<and> history_go_back st1 = Some (True, st2)
    \<and> history_go_forward st2 = Some (True, st3) \<and> current_url st2 = DEFAULT_HOME_URL
    \<and> current_url st3 = ascii ''http://10.0.2.2/''"
  using visit_back_forward_urls [OF typed_ui_ok [of "ascii ''http://10.0.2.2/''"]]
  by (auto simp: length_DEFAULT_HOME_URL)

text \<open>
  A URL as long as the current entry is not recorded, because the comparison with the entry compares the
  URL with itself: the history, and where back leads, stay as they were, whatever the URL is.
\<close>

theorem same_length_not_recorded:
  assumes "ui_ok info st" "url_len st = length (history st ! unat (history_pos st))"
  shows "history_push_current st = Some st"
  using history_push_ok [OF assms(1)] assms(2) by (auto split: if_splits)

theorem same_length_not_recorded_witness:
  "history_push_current (typed_ui (replicate (length DEFAULT_HOME_URL) 0x61))
     = Some (typed_ui (replicate (length DEFAULT_HOME_URL) 0x61))
   \<and> replicate (length DEFAULT_HOME_URL) 0x61 \<notin> set (history (typed_ui (replicate (length DEFAULT_HOME_URL) 0x61)))"
proof -
  let ?u = "replicate (length DEFAULT_HOME_URL) (0x61 :: u8)"
  have "history_push_current (typed_ui ?u) = Some (typed_ui ?u)"
    by (rule same_length_not_recorded [OF typed_ui_ok]) (simp_all add: length_DEFAULT_HOME_URL)
  moreover have "?u \<noteq> DEFAULT_HOME_URL" by code_simp
  ultimately show ?thesis by simp
qed

text \<open>
  C39. On a full-page browser, the start screen after the notices, the tab strip that is not drawn still takes clicks: its height
  minus eight wraps, so that a click anywhere below the first four rows, in the columns of the \<open>SYS\<close> tab,
  leaves the page for the settings.
\<close>

theorem fullpage_click_leaves:
  assumes "screen st = Browser" "bios_fullpage_browser st" "4 \<le> py" "int py < 2 ^ 32" "128 \<le> px" "px < 196"
  shows "handle_click_at info px py st = Some (True, st\<lparr> screen := Settings \<rparr>)"
proof -
  have "in_tab_strip (ui_layout info st) py"
    using assms(1-4) by (simp add: in_tab_strip_def ui_layout_def browser_bios_fullpage_def usize_sub_def USIZE_MAX_def)
  then show ?thesis using assms(1,5,6)
    by (simp add: handle_click_at_def click_tab_def in_span_def Let_def)
qed

theorem fullpage_click_leaves_witness:
  "handle_click_at screen_info 150 600 (fresh_ui\<lparr> screen := Browser \<rparr>) = Some (True, fresh_ui\<lparr> screen := Settings \<rparr>)"
  using fullpage_click_leaves [of "fresh_ui\<lparr> screen := Browser \<rparr>" 600 150 screen_info]
  by (simp add: fresh_ui_def new_with_settings_def Let_def)

end
