(* ===== verification/Eve_Html_Doc.thy ===== *)
theory Eve_Html_Doc
  imports Eve_Html
begin

text \<open>
  The properties of \<open>format_document\<close>: it returns on every document and keeps every buffer within
  its bounds; plain text is wrapped; the content of hidden elements is never shown; style sheets
  are never applied; the paragraphs of a document are its lines, with the character references of
  an escaped text read back. The witnesses evaluate the reader on small documents.
\<close>

section \<open>Every document is formatted\<close>

lemma dom_byte_total:
  assumes "dom_wf t" "cur \<le> dom_text_len t"
  shows "\<exists>t' cur'. dom_byte b (t, cur) = Some (t', cur') \<and> dom_wf t' \<and> cur' \<le> dom_text_len t'"
proof (cases "b = 0x0A \<and> cur < dom_text_len t")
  case True
  obtain t' where "push_text_node t cur (dom_text_len t - cur) = Some t'" "dom_wf t'"
    using push_text_node_ok [OF assms] by blast
  with True show ?thesis by (simp add: dom_byte_def)
next
  case False
  have "dom_wf (t\<lparr> dom_text := (dom_text t)[dom_text_len t := b], dom_text_len := dom_text_len t + 1 \<rparr>)"
    if "dom_text_len t < 8192"
    using assms(1) that by (auto simp: dom_wf_def child_ok_def)
  with False assms show ?thesis by (auto simp: dom_byte_def dom_wf_def)
qed

lemma dom_bytes_total:
  "dom_wf t \<Longrightarrow> cur \<le> dom_text_len t \<Longrightarrow>
    \<exists>t' cur'. dom_bytes bs (t, cur) = Some (t', cur') \<and> dom_wf t' \<and> cur' \<le> dom_text_len t'"
proof (induction bs arbitrary: t cur)
  case (Cons b bs)
  obtain t1 cur1 where "dom_byte b (t, cur) = Some (t1, cur1)" "dom_wf t1" "cur1 \<le> dom_text_len t1"
    using dom_byte_total [OF Cons.prems] by blast
  with Cons.IH [of t1 cur1] show ?case by simp
qed auto

definition dom_sized :: "dom_tree \<Rightarrow> bool" where
  "dom_sized t \<longleftrightarrow> length (dom_nodes t) = 512 \<and> length (dom_text t) = 8192"

lemma build_text_dom_total:
  assumes "dom_sized out"
  shows "\<exists>t. build_text_dom raw out = Some t \<and> dom_wf t"
proof -
  let ?t = "(dom_reset out)\<lparr> dom_nodes := (dom_nodes out)[0 := dom_node_empty], node_count := 1 \<rparr>"
  have wf: "dom_wf ?t" and zero: "dom_text_len ?t = 0"
    using assms by (simp_all add: dom_wf_def dom_sized_def dom_reset_def dom_node_empty_def)
  obtain t cur where run: "dom_bytes raw (?t, 0) = Some (t, cur)" "dom_wf t" "cur \<le> dom_text_len t"
    using dom_bytes_total [OF wf, of 0 raw] by auto
  have "build_text_dom raw out
      = (if cur < dom_text_len t then push_text_node t cur (dom_text_len t - cur) else Some t)"
    using assms run(1) by (simp add: build_text_dom_def Let_def dom_reset_def dom_sized_def)
  with run push_text_node_ok [OF run(2,3)] show ?thesis by auto
qed

text \<open>The tables of the module have their sizes and every line in them is within its bounds.\<close>

definition browser_ok :: "html_globals \<Rightarrow> bool" where
  "browser_ok g \<longleftrightarrow> globals_ok g \<and> dom_sized (html_dom g)"

lemma browser_ok_new: "browser_ok html_globals_new"
  by (simp add: browser_ok_def globals_ok_def html_globals_new_def dom_sized_def dom_tree_new_def list_all_iff)

lemma dom_wf_sized: "dom_wf t \<Longrightarrow> dom_sized t"
  by (simp add: dom_wf_def dom_sized_def)

lemma globals_ok_simps:
  "globals_ok (g\<lparr> html_dom := t \<rparr>) = globals_ok g"
  by (simp add: globals_ok_def)

lemma page_start_ok:
  "globals_ok g \<Longrightarrow> page_ok \<lparr> pg_lines = render_lines g, pg_count = 0, pg_cur = browser_line_new fg, pg_trunc = False \<rparr>"
  by (simp add: globals_ok_def page_ok_def)

lemma format_document_ok:
  assumes "browser_ok g"
  shows "\<exists>g' n trunc scripts. format_document raw fg g = Some (g', n, trunc, scripts)
    \<and> n \<le> 128 \<and> browser_ok g'
    \<and> (\<forall>i<n. \<exists>l. browser_line_at (render_lines g') i = Some l \<and> bl_len l \<le> 96 \<and> length (bl_data l) = 96)"
proof -
  obtain t where t: "build_text_dom raw (html_dom g) = Some t" "dom_wf t"
    using build_text_dom_total assms by (auto simp: browser_ok_def)
  define pg where "pg = (if looks_like_html raw
    then hs_page (html_finish (html_loop raw (html_start fg (g\<lparr> html_dom := t \<rparr>))))
    else plain_lines raw fg \<lparr> pg_lines = render_lines g, pg_count = 0, pg_cur = browser_line_new fg, pg_trunc = False \<rparr>)"
  have g: "globals_ok (g\<lparr> html_dom := t \<rparr>)" using assms by (simp add: browser_ok_def globals_ok_simps)
  have st: "html_ok (html_finish (html_loop raw (html_start fg (g\<lparr> html_dom := t \<rparr>))))"
    by (intro html_finish_ok html_loop_ok html_start_ok g)
  have pg: "page_ok pg"
    using st assms by (simp add: pg_def html_ok_def plain_lines_ok page_start_ok browser_ok_def)
  have lines: "\<exists>l. browser_line_at (pg_lines pg) i = Some l \<and> bl_len l \<le> 96 \<and> length (bl_data l) = 96"
    if "i < pg_count pg" for i
    using that pg by (auto simp: page_ok_def browser_line_at_def list_all_length line_ok_def)
  obtain g' scripts where r: "format_document raw fg g = Some (g', pg_count pg, pg_trunc pg, scripts)"
    and "render_lines g' = pg_lines pg" "html_dom g' = t" "length (style_scratch g') = 2048"
    using t st g by (cases "looks_like_html raw")
      (auto simp: format_document_def Let_def pg_def html_ok_def globals_ok_def)
  then have "browser_ok g'" using pg t(2) by (simp add: browser_ok_def globals_ok_def page_ok_def dom_wf_sized)
  with r lines pg \<open>render_lines g' = pg_lines pg\<close> show ?thesis
    by (simp add: page_ok_def)
qed

text \<open>
  C19. \<open>format_document\<close> is total and stays in bounds: for every sequence of bytes, every body colour
  and every earlier content of the module's tables it returns, it reports at most 128 lines, and
  the table keeps its 128 entries, each of at most 96 bytes; the style buffer and the text tree
  keep their sizes, so the next document starts from the same condition.
\<close>

theorem format_document_bounds:
  assumes "browser_ok g"
  shows "\<exists>g' n trunc scripts. format_document raw fg g = Some (g', n, trunc, scripts)
    \<and> n \<le> 128 \<and> browser_ok g'
    \<and> (\<forall>i<n. \<exists>l. browser_line_at (render_lines g') i = Some l \<and> bl_len l \<le> 96 \<and> length (bl_data l) = 96)"
  by (rule format_document_ok [OF assms])

theorem format_document_bounds_witness:
  "\<exists>g' n trunc scripts.
    format_document (ascii ''<p style=width:5ch>abcdefghi<li>x'') (1, 2, 3) html_globals_new = Some (g', n, trunc, scripts)
    \<and> n \<le> 128 \<and> browser_ok g'
    \<and> (\<forall>i<n. \<exists>l. browser_line_at (render_lines g') i = Some l \<and> bl_len l \<le> 96 \<and> length (bl_data l) = 96)"
  by (rule format_document_bounds) (rule browser_ok_new)

text \<open>
  C21. A page without markup is its text wrapped at 96 columns: for every ASCII document that does
  not look like HTML, the lines shown are the first 128 lines of the text, cut at its line ends and
  after every 96 bytes, without empty ones, all in the body colour; the page counts as truncated
  exactly when there are more.
\<close>

theorem plain_text_wrapped:
  assumes "browser_ok g" "\<not> looks_like_html raw" "\<forall>b\<in>set raw. b < 0x80"
  shows "\<exists>g' n. format_document raw fg g = Some (g', n, 128 < length (text_lines raw), False)
    \<and> map view (take n (render_lines g')) = map (\<lambda>t. (t, fg)) (take 128 (text_lines raw))"
proof -
  obtain t where t: "build_text_dom raw (html_dom g) = Some t"
    using build_text_dom_total [of "html_dom g" raw] assms(1) by (auto simp: browser_ok_def)
  define start where "start = \<lparr> pg_lines = render_lines g, pg_count = 0, pg_cur = browser_line_new fg, pg_trunc = False \<rparr>"
  have ok: "page_ok start" using assms by (simp add: start_def page_start_ok browser_ok_def)
  have view: "view (pg_cur start) = ([], fg)"
    by (simp add: start_def browser_line_new_def view_def line_text_def)
  define pg where "pg = plain_lines raw fg start"
  have "pg = plain_finish (plain_loop ([] @ raw) fg (length []) start)"
    by (simp add: pg_def plain_lines_def start_def)
  then have "shown pg = take 128 (map (\<lambda>t. (t, fg)) (text_lines raw)) \<and> pg_trunc pg = (128 < length (text_lines raw))"
    using plain_loop_wraps [OF ok view, of raw "[]"] assms(3) by (simp add: start_def shown_def)
  then show ?thesis
    using t assms(2) by (simp add: format_document_def Let_def start_def [symmetric] pg_def [symmetric] shown_def take_map)
qed

theorem plain_text_wrapped_witness:
  "\<exists>g' n. format_document (ascii ''ab'' @ [0x0D, 0x0A, 0x0A] @ ascii ''c'') (1, 2, 3) html_globals_new
      = Some (g', n, 128 < length (text_lines (ascii ''ab'' @ [0x0D, 0x0A, 0x0A] @ ascii ''c'')), False)
    \<and> map view (take n (render_lines g'))
      = map (\<lambda>t. (t, (1, 2, 3))) (take 128 (text_lines (ascii ''ab'' @ [0x0D, 0x0A, 0x0A] @ ascii ''c'')))"
proof (rule plain_text_wrapped)
  show "browser_ok html_globals_new" by (rule browser_ok_new)
  show "\<not> looks_like_html (ascii ''ab'' @ [0x0D, 0x0A, 0x0A] @ ascii ''c'')" by code_simp
  show "\<forall>b\<in>set (ascii ''ab'' @ [0x0D, 0x0A, 0x0A] @ ascii ''c''). b < 0x80" by (simp add: bytes_simps)
qed

section \<open>Hidden elements\<close>

text \<open>Reading text and tags, with room in the table.\<close>

definition ready :: "html_state \<Rightarrow> bool" where
  "ready st \<longleftrightarrow> \<not> in_script st \<and> \<not> in_template st \<and> \<not> in_iframe st \<and> \<not> in_object st \<and> \<not> in_title st
     \<and> \<not> in_style st \<and> style_len st = 0 \<and> pg_count (hs_page st) < 128"

text \<open>A closing mark that does not begin inside the body, not even across its end.\<close>

definition closes :: "bytes \<Rightarrow> bytes \<Rightarrow> bytes \<Rightarrow> bool" where
  "closes body close rest \<longleftrightarrow> (\<forall>j<length body. \<not> starts_ci (body @ close @ rest) j close)"

lemma find_close:
  assumes "closes body (ascii c) rest" "ascii c \<noteq> []" "map to_lower (ascii c) = ascii c"
  shows "find_sub_ci (body @ ascii c @ rest) (ascii c) = Some (length body)"
  using assms find_sub_ci_first [of "ascii c" "ascii c" body rest] by (simp add: closes_def)

lemma skip_until_gt_at:
  assumes "\<forall>c\<in>set pre. c \<noteq> byte CHR ''>''"
  shows "skip_until_gt (pre @ byte CHR ''>'' # rest) 0 = length pre + 1"
  using scan_while_run [of pre "\<lambda>c. c \<noteq> byte CHR ''>''" "byte CHR ''>'' # rest" "[]"] assms
  by (simp add: skip_until_gt_def)

definition hidden_open :: "string \<Rightarrow> html_state \<Rightarrow> html_state" where
  "hidden_open name st =
     (if name = ''template'' then st\<lparr> in_template := True \<rparr>
      else if name = ''iframe'' then st\<lparr> in_iframe := True \<rparr>
      else if name = ''object'' then st\<lparr> in_object := True \<rparr>
      else if name = ''title'' then st\<lparr> in_title := True \<rparr>
      else st\<lparr> in_style := True, style_len := 0 \<rparr>)"

definition hidden_names :: "string list" where
  "hidden_names = [''template'', ''iframe'', ''object'', ''title'', ''style'']"

lemma hidden_open_turn:
  assumes "ready st" "name \<in> set hidden_names" "hs_i st = 0" "\<forall>c\<in>set attrs. c \<noteq> byte CHR ''>''"
  shows "html_turn (ascii (''<'' @ name) @ attrs @ byte CHR ''>'' # rest) st
    = Continue (go_to (length name + length attrs + 2) (hidden_open name st))"
proof -
  have n: "name = ''template'' \<or> name = ''iframe'' \<or> name = ''object'' \<or> name = ''title'' \<or> name = ''style''"
    using assms(2) by (simp add: hidden_names_def)
  have "\<forall>c\<in>set (ascii (''<'' @ name) @ attrs). c \<noteq> byte CHR ''>''"
    using n assms(4) by (auto simp: bytes_simps)
  from skip_until_gt_at [OF this, of rest]
  have skip: "skip_until_gt (ascii (''<'' @ name) @ attrs @ byte CHR ''>'' # rest) 0 = length name + length attrs + 2"
    by simp
  define raw where "raw = ascii (''<'' @ name) @ attrs @ byte CHR ''>'' # rest"
  have raw: "raw ! 0 = byte CHR ''<''" by (simp add: raw_def bytes_simps)
  have tag: "tag_turn raw st = Continue (go_to (skip_until_gt raw 0) (hidden_open name st))"
    using n assms(3)
    by (elim disjE) (simp_all add: tag_turn_def starts_ci_0_eq raw_def bytes_simps to_lower_def hidden_open_def)
  then show ?thesis using assms(1,3) raw skip by (simp add: html_turn_def ready_def raw_def)
qed

lemma mode_off [simp]:
  "\<not> in_template st \<Longrightarrow> st\<lparr> in_template := False \<rparr> = st" "\<not> in_iframe st \<Longrightarrow> st\<lparr> in_iframe := False \<rparr> = st"
  "\<not> in_object st \<Longrightarrow> st\<lparr> in_object := False \<rparr> = st" "\<not> in_title st \<Longrightarrow> st\<lparr> in_title := False \<rparr> = st"
  "\<not> in_script st \<Longrightarrow> st\<lparr> in_script := False \<rparr> = st"
  "\<not> in_style st \<Longrightarrow> style_len st = 0 \<Longrightarrow> st\<lparr> style_len := 0, in_style := False \<rparr> = st"
  by (cases st; simp)+

lemma hidden_close_turn:
  assumes "ready st" "name \<in> set hidden_names" "closes body (ascii (''</'' @ name @ ''>'')) rest"
  shows "html_turn (body @ ascii (''</'' @ name @ ''>'') @ rest) (go_to 0 (hidden_open name st))
    = Continue (go_to (length body + length name + 3) st)"
proof -
  have n: "name = ''template'' \<or> name = ''iframe'' \<or> name = ''object'' \<or> name = ''title'' \<or> name = ''style''"
    using assms(2) by (simp add: hidden_names_def)
  then have low: "map to_lower (ascii (''</'' @ name @ ''>'')) = ascii (''</'' @ name @ ''>'')"
    by (elim disjE) (simp_all add: bytes_simps to_lower_def)
  have f: "find_sub_ci (body @ ascii (''</'' @ name @ ''>'') @ rest) (ascii (''</'' @ name @ ''>'')) = Some (length body)"
    by (rule find_close [OF assms(3) _ low]) (simp add: ascii_def)
  from n show ?thesis
  proof (elim disjE)
    assume "name = ''style''"
    with f assms(1) show ?thesis
      by (simp add: html_turn_def ready_def hidden_open_def go_to_def style_element_def)
  qed (use f assms(1) in \<open>simp_all add: html_turn_def ready_def hidden_open_def go_to_def skip_element_def\<close>)
qed

lemma html_loop_skip:
  assumes "hs_i st < length raw" "html_turn raw st = Continue st'" "raw = pre @ rest" "hs_i st' = length pre"
  shows "html_loop raw st = advance (length pre) (html_loop rest (go_to 0 st'))"
  using assms html_loop_step [OF assms(1,2)] html_loop_rest [of st' pre rest] by simp

definition hidden_element :: "string \<Rightarrow> bytes \<Rightarrow> bytes \<Rightarrow> bytes" where
  "hidden_element name attrs body =
     ascii (''<'' @ name) @ attrs @ [byte CHR ''>''] @ body @ ascii (''</'' @ name @ ''>'')"

lemma hidden_element_read:
  assumes "ready st" "hs_i st = 0" "name \<in> set hidden_names" "\<forall>c\<in>set attrs. c \<noteq> byte CHR ''>''"
    "closes body (ascii (''</'' @ name @ ''>'')) rest"
  shows "html_loop (hidden_element name attrs body @ rest) st
    = advance (length (hidden_element name attrs body)) (html_loop rest st)"
proof -
  let ?close = "ascii (''</'' @ name @ ''>'')"
  define head where "head = ascii (''<'' @ name) @ attrs @ [byte CHR ''>'']"
  have raw: "hidden_element name attrs body @ rest = head @ (body @ ?close @ rest)"
    by (simp add: hidden_element_def head_def)
  have head_len: "length head = length name + length attrs + 2" by (simp add: head_def)
  have "html_turn (head @ (body @ ?close @ rest)) st = Continue (go_to (length head) (hidden_open name st))"
    using hidden_open_turn [OF assms(1,3,2,4), of "body @ ?close @ rest"] head_len
    by (simp add: head_def)
  then have "html_loop (head @ (body @ ?close @ rest)) st
      = advance (length head) (html_loop (body @ ?close @ rest) (go_to 0 (hidden_open name st)))"
    using html_loop_skip [of st "head @ (body @ ?close @ rest)" _ head "body @ ?close @ rest"] assms(2) head_len
    by (simp add: go_to_def)
  also have "html_loop (body @ ?close @ rest) (go_to 0 (hidden_open name st))
      = advance (length (body @ ?close)) (html_loop rest (go_to 0 st))"
    using html_loop_skip [of _ "(body @ ?close) @ rest" _ "body @ ?close" rest]
      hidden_close_turn [OF assms(1,3,5)] by (simp add: go_to_def)
  also have "go_to 0 st = st" using go_to_self [of st] assms(2) by simp
  finally show ?thesis
    by (simp add: raw) (simp add: hidden_element_def head_def advance_def go_to_def)
qed

text \<open>
  The content of a \<open>template\<close>, \<open>iframe\<close>, \<open>object\<close>, \<open>title\<close> or \<open>style\<close> element is never shown:
  wherever in a document such an element stands, with any attributes and any body up to its end
  tag, the page is the page of the document without the element. In particular a style sheet
  changes nothing.
\<close>

theorem hidden_element_invisible:
  assumes "ready st" "hs_i st = length pre" "name \<in> set hidden_names" "\<forall>c\<in>set attrs. c \<noteq> byte CHR ''>''"
    "closes body (ascii (''</'' @ name @ ''>'')) rest"
  shows "hs_page (html_loop (pre @ hidden_element name attrs body @ rest) st)
      = hs_page (html_loop (pre @ rest) st)
    \<and> scripts_stripped (html_loop (pre @ hidden_element name attrs body @ rest) st)
      = scripts_stripped (html_loop (pre @ rest) st)"
proof -
  have "ready (go_to 0 st)" using assms(1) by (simp add: ready_def go_to_def)
  from hidden_element_read [OF this _ assms(3-5)]
  have "html_loop (pre @ hidden_element name attrs body @ rest) st
      = advance (length pre) (advance (length (hidden_element name attrs body)) (html_loop rest (go_to 0 st)))"
    using html_loop_rest [OF assms(2), of "hidden_element name attrs body @ rest"] by simp
  moreover have "html_loop (pre @ rest) st = advance (length pre) (html_loop rest (go_to 0 st))"
    by (rule html_loop_rest [OF assms(2)])
  ultimately show ?thesis by (simp add: advance_def go_to_def)
qed

text \<open>A script: its body is skipped, and it is reported unless its type names data.\<close>

definition script_seen :: "bytes \<Rightarrow> html_state \<Rightarrow> html_state" where
  "script_seen attrs st =
     (if script_mime_is_non_javascript (ascii ''<script'' @ attrs @ [byte CHR ''>'']) then st
      else st\<lparr> scripts_stripped := True \<rparr>)"

definition script_element :: "bytes \<Rightarrow> bytes \<Rightarrow> bytes" where
  "script_element attrs body = ascii ''<script'' @ attrs @ [byte CHR ''>''] @ body @ ascii ''</script>''"

lemma script_open_turn:
  assumes "ready st" "hs_i st = 0" "\<forall>c\<in>set attrs. c \<noteq> byte CHR ''>''"
  shows "html_turn (ascii ''<script'' @ attrs @ byte CHR ''>'' # rest) st
    = Continue (go_to (length attrs + 8) ((script_seen attrs st)\<lparr> in_script := True \<rparr>))"
proof -
  define raw where "raw = ascii ''<script'' @ attrs @ byte CHR ''>'' # rest"
  have raw: "raw = [0x3C] @ (ascii ''script'' @ attrs) @ byte CHR ''>'' # rest" by (simp add: raw_def bytes_simps)
  have "\<forall>c\<in>set (ascii ''script'' @ attrs). c \<noteq> byte CHR ''>''" using assms(3) by (auto simp: bytes_simps)
  then have scan: "scan_while (\<lambda>c. c \<noteq> byte CHR ''>'') raw 1 = length attrs + 7"
    using scan_while_run [of "ascii ''script'' @ attrs" _ "byte CHR ''>'' # rest" "[0x3C]"] unfolding raw by simp
  have sl: "slice raw 0 (length attrs + 7 + 1) = ascii ''<script'' @ attrs @ [byte CHR ''>'']"
    using slice_middle [of "[]" 0 "length attrs + 7 + 1" "ascii ''<script'' @ attrs @ [byte CHR ''>'']" rest]
    by (simp add: raw_def)
  have "tag_turn raw st = script_turn raw st"
    using assms(2) by (simp add: tag_turn_def starts_ci_0_eq raw_def bytes_simps to_lower_def)
  moreover have "script_turn raw st = Continue (go_to (length attrs + 8) ((script_seen attrs st)\<lparr> in_script := True \<rparr>))"
    using scan sl assms(2) by (simp add: script_turn_def Let_def script_seen_def) (simp add: raw_def add.commute)
  moreover have "raw ! 0 = byte CHR ''<''" by (simp add: raw)
  ultimately show ?thesis using assms(1,2) by (simp add: html_turn_def ready_def raw_def)
qed

text \<open>
  No script body is ever shown or interpreted: from any point of a document, reading a \<open>script\<close>
  element with any attributes and any body up to its end tag leaves the reader exactly where the
  rest of the document would find it, except that the page is marked as stripped when the type
  attribute does not name a data type.
\<close>

theorem script_skipped:
  assumes "ready st" "hs_i st = 0" "\<forall>c\<in>set attrs. c \<noteq> byte CHR ''>''" "closes body (ascii ''</script>'') rest"
  shows "html_loop (script_element attrs body @ rest) st
    = advance (length (script_element attrs body)) (html_loop rest (script_seen attrs st))"
proof -
  let ?close = "ascii ''</script>''"
  define st1 where "st1 = (script_seen attrs st)\<lparr> in_script := True \<rparr>"
  define head where "head = ascii ''<script'' @ attrs @ [byte CHR ''>'']"
  have raw: "script_element attrs body @ rest = head @ (body @ ?close @ rest)"
    by (simp add: script_element_def head_def)
  have head_len: "length head = length attrs + 8" by (simp add: head_def)
  have r: "ready (script_seen attrs st)" "hs_i (script_seen attrs st) = 0"
    using assms(1,2) by (simp_all add: script_seen_def ready_def)
  have "html_turn (head @ (body @ ?close @ rest)) st = Continue (go_to (length head) st1)"
    using script_open_turn [OF assms(1,2,3), of "body @ ?close @ rest"] unfolding head_len st1_def
    by (simp add: head_def)
  then have s1: "html_loop (head @ (body @ ?close @ rest)) st
      = advance (length head) (html_loop (body @ ?close @ rest) (go_to 0 st1))"
    using html_loop_skip [of st "head @ (body @ ?close @ rest)" _ head "body @ ?close @ rest"] assms(2) head_len
    by (simp add: go_to_def)
  have "find_sub_ci (body @ ?close @ rest) ?close = Some (length body)"
    by (rule find_close [OF assms(4)]) (simp_all add: bytes_simps to_lower_def)
  then have "html_turn (body @ ?close @ rest) (go_to 0 st1)
      = Continue (go_to (length body + 9) (script_seen attrs st))"
    using r by (simp add: html_turn_def ready_def st1_def go_to_def skip_element_def)
  then have s2: "html_loop (body @ ?close @ rest) (go_to 0 st1)
      = advance (length (body @ ?close)) (html_loop rest (go_to 0 (script_seen attrs st)))"
    using html_loop_skip [of _ "(body @ ?close) @ rest" _ "body @ ?close" rest] by (simp add: go_to_def)
  have "go_to 0 (script_seen attrs st) = script_seen attrs st"
    using go_to_self [of "script_seen attrs st"] r(2) by simp
  with s1 s2 show ?thesis
    by (simp add: raw) (simp add: script_element_def head_def advance_def go_to_def)
qed

lemma start_ready: "ready (html_start fg g)" "hs_i (html_start fg g) = 0"
  by (simp_all add: ready_def html_start_def)

theorem hidden_element_invisible_witness:
  "hs_page (html_loop ([] @ hidden_element ''style'' (ascii '' x=y'') (ascii ''p{color:red}'') @ ascii ''<p>hi'')
      (html_start (1, 2, 3) html_globals_new))
    = hs_page (html_loop ([] @ ascii ''<p>hi'') (html_start (1, 2, 3) html_globals_new))
   \<and> scripts_stripped (html_loop ([] @ hidden_element ''style'' (ascii '' x=y'') (ascii ''p{color:red}'') @ ascii ''<p>hi'')
      (html_start (1, 2, 3) html_globals_new))
    = scripts_stripped (html_loop ([] @ ascii ''<p>hi'') (html_start (1, 2, 3) html_globals_new))"
proof (rule hidden_element_invisible)
  show "closes (ascii ''p{color:red}'') (ascii (''</'' @ ''style'' @ ''>'')) (ascii ''<p>hi'')"
    unfolding closes_def by code_simp
qed (simp_all add: start_ready hidden_names_def bytes_simps)

theorem script_skipped_witness:
  "html_loop (script_element (ascii '' src=x'') (ascii ''if(a<b)c()'') @ ascii ''<p>hi'') (html_start (1, 2, 3) html_globals_new)
    = advance (length (script_element (ascii '' src=x'') (ascii ''if(a<b)c()'')))
        (html_loop (ascii ''<p>hi'') (script_seen (ascii '' src=x'') (html_start (1, 2, 3) html_globals_new)))"
proof (rule script_skipped)
  show "closes (ascii ''if(a<b)c()'') (ascii ''</script>'') (ascii ''<p>hi'')" unfolding closes_def by code_simp
qed (simp_all add: start_ready bytes_simps)

text \<open>
  C22. No style sheet is ever applied: after any document, from any start, the reader still has its
  initial colours and not one style rule. The end tag is searched in the whole rest of the document
  before anything is collected, so the buffer is empty whenever a style sheet could be read.
\<close>

theorem style_sheets_never_applied:
  "hints (html_loop raw (html_start fg g)) = initial_hints fg
    \<and> style_rule_count (html_loop raw (html_start fg g)) = 0"
  using unstyled_loop [OF unstyled_start, of raw fg g] by (simp add: unstyled_def)

section \<open>Text and its escapes\<close>

text \<open>The text of a document as an author writes it, with the four characters that need it escaped.\<close>

definition escape_byte :: "u8 \<Rightarrow> bytes" where
  "escape_byte c =
     (if c = byte CHR ''<'' then ascii ''&lt;'' else if c = byte CHR ''>'' then ascii ''&gt;''
      else if c = byte CHR ''&'' then ascii ''&amp;'' else if c = byte CHR ''\"'' then ascii ''&quot;''
      else [c])"

definition escape :: "bytes \<Rightarrow> bytes" where
  "escape t = concat (map escape_byte t)"

text \<open>Printable text, without a blank after a blank or at the start of the line (\<open>prev\<close> is a blank there).\<close>

fun neat :: "u8 \<Rightarrow> bytes \<Rightarrow> bool" where
  "neat prev [] \<longleftrightarrow> True"
| "neat prev (c # cs) \<longleftrightarrow> 0x20 \<le> c \<and> c \<le> 0x7E \<and> (c = 0x20 \<longrightarrow> prev \<noteq> 0x20) \<and> neat c cs"

definition last_byte :: "bytes \<Rightarrow> u8" where
  "last_byte u = (if u = [] then 0x20 else last u)"

text \<open>A line of full width without indentation, holding \<open>u\<close> in the colour \<open>fg\<close>.\<close>

definition typing :: "bytes \<Rightarrow> rgb \<Rightarrow> html_state \<Rightarrow> bool" where
  "typing u fg st \<longleftrightarrow> ready st \<and> html_ok st \<and> view (pg_cur (hs_page st)) = (u, fg)
     \<and> active_width st = 96 \<and> active_indent st = 0"

lemma typing_cur_len: "typing u fg st \<Longrightarrow> cur_len st = length u"
  using view_length [of "hs_page st" u fg] by (simp add: typing_def html_ok_def cur_len_def)

lemma typing_go_to [simp]: "typing u fg (go_to k st) = typing u fg st"
  by (simp add: typing_def ready_def) (simp add: go_to_def)

lemma typing_last_space: "typing u fg st \<Longrightarrow> u \<noteq> [] \<Longrightarrow> last_is_space st \<longleftrightarrow> last u = 0x20"
proof -
  assume t: "typing u fg st" and u: "u \<noteq> []"
  have len: "cur_len st = length u" by (rule typing_cur_len [OF t])
  have "u = take (cur_len st) (bl_data (pg_cur (hs_page st)))"
    using t by (simp add: typing_def view_def line_text_def cur_len_def)
  then have "last u = bl_data (pg_cur (hs_page st)) ! (cur_len st - 1)"
    using u len by (metis last_conv_nth diff_less length_greater_0_conv nth_take zero_less_one)
  then show ?thesis by (simp add: last_is_space_def)
qed

lemma typing_emit:
  assumes "typing u fg st" "length u < 96"
  shows "typing (u @ [c]) fg (emit c st)" "shown (hs_page (emit c st)) = shown (hs_page st)"
    "pg_trunc (hs_page (emit c st)) = pg_trunc (hs_page st)" "pg_count (hs_page (emit c st)) = pg_count (hs_page st)"
proof -
  have len: "bl_len (pg_cur (hs_page st)) = length u"
    using typing_cur_len [OF assms(1)] by (simp add: cur_len_def)
  have e: "emit c st = on_page (put_byte c) st"
    using assms len by (simp add: emit_def typing_def emit_char_cap_def line_limit_def on_page_def)
  have "html_ok (emit c st)" using assms(1) by (simp add: typing_def html_ok_emit)
  then show "typing (u @ [c]) fg (emit c st)"
    using assms len put_byte_view [of "hs_page st" u fg c] unfolding e
    by (simp add: typing_def ready_def html_ok_def on_page_def)
  show "shown (hs_page (emit c st)) = shown (hs_page st)"
    "pg_trunc (hs_page (emit c st)) = pg_trunc (hs_page st)" "pg_count (hs_page (emit c st)) = pg_count (hs_page st)"
    unfolding e by (simp_all add: on_page_def)
qed

lemma typing_turn:
  assumes "typing u fg st" "hs_i st = 0" "neat (last_byte u) [c]"
  shows "html_turn (escape_byte c @ rest) st = Continue (go_to (length (escape_byte c)) (emit c st))"
proof -
  define raw where "raw = escape_byte c @ rest"
  have raw: "raw ! 0 \<noteq> byte CHR ''<''"
    by (auto simp: raw_def escape_byte_def bytes_simps)
  have indent: "emit_indent st = st" using assms(1) by (simp add: emit_indent_def typing_def)
  have "text_turn raw st = go_to (length (escape_byte c)) (emit c st)"
  proof (cases "c = 0x3C \<or> c = 0x3E \<or> c = 0x26 \<or> c = 0x22")
    case True
    then show ?thesis
      using assms(2)
      by (elim disjE) (simp_all add: raw_def escape_byte_def text_turn_def entity_turn_def named_entity_def
          starts_ci_0_eq bytes_simps to_lower_def, simp_all add: eval_nat_numeral)
  next
    case False
    then have r: "raw = c # rest" "length (escape_byte c) = 1" by (simp_all add: raw_def escape_byte_def)
    have c: "c < 0x80" "c \<noteq> 0x0A" "c \<noteq> 0x0D" "c \<noteq> 0x09" "c \<noteq> 0x26"
      using assms(3) False by (auto simp: word_le_nat_alt word_less_nat_alt)
    show ?thesis
    proof (cases "c = 0x20")
      case True
      then have "u \<noteq> []" "last u \<noteq> 0x20" using assms(3) by (auto simp: last_byte_def split: if_splits)
      then have "0 < cur_len st" "\<not> last_is_space st"
        using typing_cur_len [OF assms(1)] typing_last_space [OF assms(1)] by simp_all
      with True show ?thesis using r c assms(2) by (simp add: text_turn_def char_turn_def)
    next
      case False
      with r c assms(2) indent show ?thesis by (simp add: text_turn_def char_turn_def)
    qed
  qed
  then show ?thesis
    using assms raw by (simp add: html_turn_def typing_def ready_def raw_def)
qed

text \<open>Reading an escaped text types the text.\<close>

lemma typing_read:
  assumes "typing u fg st" "neat (last_byte u) t" "length u + length t \<le> 96"
  obtains st' where "html_loop (escape t @ rest) (go_to 0 st) = advance (length (escape t)) (html_loop rest (go_to 0 st'))"
    and "typing (u @ t) fg st'" "shown (hs_page st') = shown (hs_page st)" "sheet st' = sheet st"
    and "pg_trunc (hs_page st') = pg_trunc (hs_page st)" "st' = fold emit t st"
  using assms
proof (induction t arbitrary: u st thesis)
  case Nil
  show ?case by (rule Nil.prems(1)) (use Nil.prems in \<open>simp_all add: escape_def advance_def go_to_def\<close>)
next
  case (Cons c t)
  let ?st = "emit c st"
  have e: "escape (c # t) @ rest = escape_byte c @ (escape t @ rest)" by (simp add: escape_def)
  have pos: "0 < length (escape_byte c @ (escape t @ rest))" by (simp add: escape_byte_def bytes_simps)
  have turn: "html_turn (escape_byte c @ (escape t @ rest)) (go_to 0 st)
      = Continue (go_to (length (escape_byte c)) (emit c (go_to 0 st)))"
    using Cons.prems by (intro typing_turn [of u fg]) auto
  have g: "go_to 0 (emit c (go_to 0 st)) = go_to 0 ?st" by (simp add: emit_def on_page_def go_to_def)
  have step: "html_loop (escape (c # t) @ rest) (go_to 0 st)
      = advance (length (escape_byte c)) (html_loop (escape t @ rest) (go_to 0 ?st))"
    unfolding e
    using html_loop_skip [OF _ turn, of "escape_byte c" "escape t @ rest"] pos g by (simp add: go_to_def)
  have typed: "typing (u @ [c]) fg ?st" using Cons.prems by (intro typing_emit) auto
  have "neat (last_byte (u @ [c])) t" using Cons.prems by (simp add: last_byte_def)
  then obtain st' where st': "html_loop (escape t @ rest) (go_to 0 ?st) = advance (length (escape t)) (html_loop rest (go_to 0 st'))"
    "typing ((u @ [c]) @ t) fg st'" "shown (hs_page st') = shown (hs_page ?st)" "sheet st' = sheet ?st"
    "pg_trunc (hs_page st') = pg_trunc (hs_page ?st)" "st' = fold emit t ?st"
    using Cons.IH [OF _ typed] Cons.prems(4) by (metis add_Suc_right add_Suc length_append_singleton length_Cons)
  have len: "length u < 96" using Cons.prems by simp
  show ?case
  proof (rule Cons.prems(1))
    show "html_loop (escape (c # t) @ rest) (go_to 0 st)
        = advance (length (escape (c # t))) (html_loop rest (go_to 0 st'))"
      unfolding step st'(1) by (simp add: escape_def advance_def go_to_def add.assoc)
  qed (use st' typing_emit [OF Cons.prems(2) len, of c] in simp_all)
qed

section \<open>Paragraphs\<close>

text \<open>Between two blocks of a page without lists and styles.\<close>

definition fresh :: "rgb \<Rightarrow> html_state \<Rightarrow> bool" where
  "fresh fg st \<longleftrightarrow> typing [] fg st \<and> cur_fg st = fg \<and> default_fg st = fg \<and> block_sp st = 0
     \<and> list_depth st = 0 \<and> style_rule_count st = 0 \<and> \<not> pg_trunc (hs_page st) \<and> \<not> scripts_stripped st"

text \<open>The fields that typing text leaves alone.\<close>

definition frame :: "html_state \<Rightarrow> html_state" where
  "frame st = st\<lparr> hs_page := undefined, hs_i := undefined \<rparr>"

lemma frame_emit [simp]: "frame (emit c st) = frame st"
  by (simp add: frame_def emit_def on_page_def)

lemma frame_emits [simp]: "frame (fold emit t st) = frame st"
  by (induction t arbitrary: st) auto

lemma frame_fields:
  assumes "frame st' = frame st"
  shows "cur_fg st' = cur_fg st" "default_fg st' = default_fg st" "block_sp st' = block_sp st"
    "list_depth st' = list_depth st" "style_rule_count st' = style_rule_count st"
    "scripts_stripped st' = scripts_stripped st" "block_indent_stack st' = block_indent_stack st"
    "block_width_stack st' = block_width_stack st" "a_styled st' = a_styled st"
  using assms by (cases st; cases st'; simp add: frame_def)+

definition p_element :: "bytes \<Rightarrow> bytes" where
  "p_element t = ascii ''<p>'' @ escape t @ ascii ''</p>''"

lemma bare_style:
  assumes "style_rule_count st = 0"
  shows "computed_style (ascii ''<p'') (ascii ''p'') st = box_style_empty"
    "computed_style (ascii ''<html'') (ascii ''html'') st = box_style_empty"
proof -
  have "extract_attr_value (ascii ''<p'') (ascii ''style'') = None"
    "extract_attr_value (ascii ''<html'') (ascii ''style'') = None"
    by (simp_all add: extract_attr_value_def find_sub_ci_def starts_ci_0_eq bytes_simps to_lower_def)
  then show "computed_style (ascii ''<p'') (ascii ''p'') st = box_style_empty"
    "computed_style (ascii ''<html'') (ascii ''html'') st = box_style_empty"
    using assms by (simp_all add: computed_style_def)
qed

lemma p_tag_name: "tag_name (ascii ''<p'') = ascii ''p''" "tag_name (ascii ''</p'') = ascii ''p''"
  "tag_name (ascii ''<html'') = ascii ''html''"
  by code_simp+


lemma tag_turn_plain:
  assumes "ready st" "hs_i st = 0" "raw = byte CHR ''<'' # tag @ byte CHR ''>'' # rest" "\<forall>c\<in>set tag. c \<noteq> byte CHR ''>''"
    "tag \<noteq> []"
    "\<not> list_ex (\<lambda>p. starts_ci raw 0 (ascii p)) [''<!--'', ''<meta'', ''<link'', ''<base'', ''<script'', ''<iframe'',
      ''<object'', ''<embed'', ''<style'', ''<template'', ''<title'']"
  shows "html_turn raw st = Continue (let st = go_to (length tag + 2) st; t = byte CHR ''<'' # tag
    in if tag ! 0 = byte CHR ''/'' then close_tag (tag_name t) st else open_tag t (tag_name t) st)"
proof -
  have scan: "scan_while (\<lambda>c. c \<noteq> byte CHR ''>'') raw 1 = length tag + 1"
    using scan_while_run [of tag "\<lambda>c. c \<noteq> byte CHR ''>''" "byte CHR ''>'' # rest" "[byte CHR ''<'']"] assms(3,4)
    by simp
  have sl: "slice raw 0 (length tag + 1) = byte CHR ''<'' # tag" by (simp add: assms(3) slice_def)
  have "element_turn raw st = Continue (let st = go_to (length tag + 2) st; t = byte CHR ''<'' # tag
    in if tag ! 0 = byte CHR ''/'' then close_tag (tag_name t) st else open_tag t (tag_name t) st)"
    using scan sl assms(2,5) by (simp add: element_turn_def assms(3) Let_def)
  moreover have "tag_turn raw st = element_turn raw st"
    using assms(2,6) by (simp add: tag_turn_def)
  ultimately show ?thesis using assms(1,2) by (simp add: html_turn_def ready_def assms(3))
qed

lemma emit_break_room:
  assumes "page_ok pg" "pg_count pg + 2 \<le> 128" "view (pg_cur pg) = (u, c)"
  shows "shown (emit_break True fg pg) = shown pg @ (if u = [] then [] else [(u, c)]) @ [([], fg)]"
    "pg_trunc (emit_break True fg pg) = pg_trunc pg" "view (pg_cur (emit_break True fg pg)) = ([], fg)"
    "pg_count (emit_break True fg pg) = pg_count pg + (if u = [] then 1 else 2)"
proof -
  have pos: "0 < bl_len (pg_cur pg) \<longleftrightarrow> u \<noteq> []"
    using view_length [OF assms(1,3)] by (metis length_greater_0_conv)
  define pg1 where "pg1 = (if 0 < bl_len (pg_cur pg) then flush_line pg else pg)"
  have pg1: "page_ok pg1" "shown pg1 = shown pg @ (if u = [] then [] else [(u, c)])" "pg_trunc pg1 = pg_trunc pg"
    "pg_count pg1 = pg_count pg + (if u = [] then 0 else 1)"
    using assms pos flush_room [of pg] by (auto simp: pg1_def page_ok_flush)
  have blank: "view (browser_line_new fg) = ([], fg)" by (simp add: browser_line_new_def view_def line_text_def)
  have "pg_count pg1 < length (pg_lines pg1)" using pg1(1,4) assms(2) by (auto simp: page_ok_def)
  then have add: "shown (pg1\<lparr> pg_lines := (pg_lines pg1)[pg_count pg1 := browser_line_new fg],
      pg_count := pg_count pg1 + 1 \<rparr>) = shown pg1 @ [([], fg)]"
    using blank by (simp add: shown_def shown_add)
  have "emit_break True fg pg = clear_cur fg (pg1\<lparr> pg_lines := (pg_lines pg1)[pg_count pg1 := browser_line_new fg],
      pg_count := pg_count pg1 + 1 \<rparr>)"
    unfolding emit_break_def Let_def pg1_def [symmetric] using pg1(4) assms(2) by simp
  then show "shown (emit_break True fg pg) = shown pg @ (if u = [] then [] else [(u, c)]) @ [([], fg)]"
    "pg_trunc (emit_break True fg pg) = pg_trunc pg" "view (pg_cur (emit_break True fg pg)) = ([], fg)"
    "pg_count (emit_break True fg pg) = pg_count pg + (if u = [] then 1 else 2)"
    using pg1 add by simp_all
qed

text \<open>The start of a paragraph on a fresh page: one blank line, and text at full width.\<close>

lemma open_block_fresh:
  assumes "fresh fg st" "pg_count (hs_page st) + 3 < 128"
  defines "st' \<equiv> open_block box_style_empty st"
  shows "typing [] fg st'" "shown (hs_page st') = shown (hs_page st) @ [([], fg)]"
    "pg_count (hs_page st') = pg_count (hs_page st) + 1" "\<not> pg_trunc (hs_page st')"
    "block_sp st' = 1" "block_indent_stack st' ! 0 = 0" "block_width_stack st' ! 0 = 96"
    "cur_fg st' = fg" "default_fg st' = fg" "list_depth st' = 0" "style_rule_count st' = 0"
    "\<not> scripts_stripped st'"
proof -
  let ?pg = "emit_break True fg (hs_page st)"
  have f: "html_ok st" "ready st" "view (pg_cur (hs_page st)) = ([], fg)" "active_width st = 96"
    "active_indent st = 0" "cur_fg st = fg" "default_fg st = fg" "block_sp st = 0" "list_depth st = 0"
    "style_rule_count st = 0" "\<not> pg_trunc (hs_page st)" "\<not> scripts_stripped st"
    using assms(1) by (simp_all add: fresh_def typing_def)
  have stacks: "length (block_indent_stack st) = 16" "length (block_width_stack st) = 16"
    using f(1) by (simp_all add: html_ok_def)
  have pg: "page_ok (hs_page st)" using f(1) by (simp add: html_ok_def)
  note b = emit_break_room [OF pg _ f(3), of fg]
  have st': "st' = set_fg fg (st\<lparr> hs_page := ?pg, block_indent_stack := (block_indent_stack st)[0 := 0],
      block_width_stack := (block_width_stack st)[0 := 96], block_sp := 1 \<rparr>)"
    unfolding st'_def open_block_def Let_def
    using f stacks by (simp add: box_style_empty_def push_block_def line_break_def on_page_def sat_add_def sat_mul_def set_fg_def)
  have v: "view (pg_cur (hs_page st')) = ([], fg)" "shown (hs_page st') = shown ?pg"
    "pg_count (hs_page st') = pg_count ?pg" "pg_trunc (hs_page st') = pg_trunc ?pg"
    using b(3) assms(2) by (simp_all add: st' set_fg_def on_page_def view_def line_text_def shown_def)
  have "html_ok st'" unfolding st'_def using f(1) by (rule html_ok_open_block)
  then show "typing [] fg st'"
    using f v b assms(2) by (simp add: typing_def ready_def) (simp add: st' set_fg_def on_page_def)
  show "shown (hs_page st') = shown (hs_page st) @ [([], fg)]"
    "pg_count (hs_page st') = pg_count (hs_page st) + 1" "\<not> pg_trunc (hs_page st')"
    using f v b assms(2) by simp_all
  show "block_sp st' = 1" "block_indent_stack st' ! 0 = 0" "block_width_stack st' ! 0 = 96"
    "cur_fg st' = fg" "default_fg st' = fg" "list_depth st' = 0" "style_rule_count st' = 0"
    "\<not> scripts_stripped st'"
    using f stacks by (simp_all add: st' set_fg_def on_page_def)
qed

text \<open>The end of a paragraph that holds \<open>t\<close>.\<close>

lemma close_block_fresh:
  assumes "typing t fg st" "t \<noteq> []" "pg_count (hs_page st) + 2 < 128" "\<not> pg_trunc (hs_page st)"
    "block_sp st = 1" "block_indent_stack st ! 0 = 0" "block_width_stack st ! 0 = 96"
    "default_fg st = fg" "list_depth st = 0" "style_rule_count st = 0" "\<not> scripts_stripped st"
  defines "st' \<equiv> close_tag (ascii ''p'') st"
  shows "fresh fg st'" "shown (hs_page st') = shown (hs_page st) @ [(t, fg), ([], fg)]"
    "pg_count (hs_page st') = pg_count (hs_page st) + 2"
proof -
  let ?pg = "emit_break True fg (hs_page st)"
  have names: "\<not> name_in (ascii ''p'') [''ul'', ''ol'']" "name_in (ascii ''p'') block_end_tags"
    "\<not> name_is (ascii ''p'') ''a''" "\<not> name_in (ascii ''p'') inline_tags"
    "name_in (ascii ''p'') [''p'', ''div'', ''pre'']"
    by code_simp+
  have f: "html_ok st" "ready st" "view (pg_cur (hs_page st)) = (t, fg)"
    using assms(1) by (simp_all add: typing_def)
  have pg: "page_ok (hs_page st)" using f(1) by (simp add: html_ok_def)
  note b = emit_break_room [OF pg _ f(3), of fg]
  have st': "st' = set_fg fg (st\<lparr> block_sp := 0, active_indent := 0, active_width := 96, hs_page := ?pg \<rparr>)"
    unfolding st'_def close_tag_def Let_def
    using names assms(5-8) by (simp add: pop_block_def line_break_def on_page_def)
  have v: "view (pg_cur (hs_page st')) = ([], fg)" "shown (hs_page st') = shown ?pg"
    "pg_count (hs_page st') = pg_count ?pg" "pg_trunc (hs_page st') = pg_trunc ?pg"
    using b(3) assms(3) by (simp_all add: st' set_fg_def on_page_def view_def line_text_def shown_def)
  have "html_ok st'" unfolding st'_def using f(1) by (rule html_ok_close_tag)
  then show "fresh fg st'"
    using f v b assms(2-4,8-11) by (simp add: typing_def ready_def fresh_def) (simp add: st' set_fg_def on_page_def)
  show "shown (hs_page st') = shown (hs_page st) @ [(t, fg), ([], fg)]"
    "pg_count (hs_page st') = pg_count (hs_page st) + 2"
    using v b assms(2,3) by simp_all
qed

text \<open>Operations that do not look at the position commute with moving it.\<close>

lemma go_to_commute:
  assumes "\<And>n st. f (advance n st) = advance n (f st)" "\<And>st. hs_i (f st) = hs_i st"
  shows "f (go_to k st) = go_to k (f st)"
proof -
  have "go_to k st = advance k (go_to 0 st)" "st = advance (hs_i st) (go_to 0 st)"
    by (simp_all add: go_to_self)
  then have "f (go_to k st) = advance k (f (go_to 0 st))" "f st = advance (hs_i st) (f (go_to 0 st))"
    using assms(1) by metis+
  then show ?thesis using assms(2) [of "go_to 0 st"] by (simp add: advance_def go_to_def)
qed

lemma go_to_ops [simp]:
  "go_to k (go_to j st) = go_to k st" "ready (go_to k st) = ready st"
  "open_block cs (go_to k st) = go_to k (open_block cs st)" "close_tag name (go_to k st) = go_to k (close_tag name st)"
  by (simp_all add: go_to_commute) (simp_all add: go_to_def ready_def)

lemma p_open_turn:
  assumes "ready st" "style_rule_count st = 0"
  shows "html_turn (ascii ''<p>'' @ rest) (go_to 0 st) = Continue (go_to 3 (open_block box_style_empty st))"
proof -
  have "open_tag (ascii ''<p'') (ascii ''p'') (go_to 3 st) = open_block box_style_empty (go_to 3 st)"
    unfolding open_tag_def using assms(2) bare_style(1) [of "go_to 3 st"]
    by (simp add: go_to_def box_style_empty_def) code_simp
  then show ?thesis
    using tag_turn_plain [of "go_to 0 st" "ascii ''<p>'' @ rest" "ascii ''p''" rest] assms(1) p_tag_name(1)
    by (simp add: starts_ci_0_eq bytes_simps to_lower_def flip: numeral_3_eq_3)
qed

lemma p_close_turn:
  "ready st \<Longrightarrow> html_turn (ascii ''</p>'' @ rest) (go_to 0 st) = Continue (go_to 4 (close_tag (ascii ''p'') st))"
  using tag_turn_plain [of "go_to 0 st" "ascii ''</p>'' @ rest" "ascii ''/p''" rest] p_tag_name(2)
  by (simp add: starts_ci_0_eq bytes_simps to_lower_def flip: numeral_3_eq_3)

lemma html_open_turn:
  assumes "ready st" "style_rule_count st = 0"
  shows "html_turn (ascii ''<html>'' @ rest) (go_to 0 st) = Continue (go_to 6 st)"
proof -
  have "open_tag (ascii ''<html'') (ascii ''html'') (go_to 6 st) = go_to 6 st"
    unfolding open_tag_def using assms(2) bare_style(2) [of "go_to 6 st"]
    by (simp add: go_to_def box_style_empty_def) code_simp
  then show ?thesis
    using tag_turn_plain [of "go_to 0 st" "ascii ''<html>'' @ rest" "ascii ''html''" rest] assms(1) p_tag_name(3)
    by (simp add: starts_ci_0_eq bytes_simps to_lower_def flip: numeral_3_eq_3)
qed

text \<open>One paragraph of a page.\<close>

lemma p_element_read:
  assumes "fresh fg st" "neat 0x20 t" "t \<noteq> []" "length t \<le> 96" "pg_count (hs_page st) + 3 < 128"
  obtains st' where "html_loop (p_element t @ rest) (go_to 0 st) = advance (length (p_element t)) (html_loop rest (go_to 0 st'))"
    and "fresh fg st'" "shown (hs_page st') = shown (hs_page st) @ [([], fg), (t, fg), ([], fg)]"
    and "pg_count (hs_page st') = pg_count (hs_page st) + 3"
proof -
  let ?o = "open_block box_style_empty st"
  let ?r2 = "escape t @ ascii ''</p>'' @ rest"
  note o = open_block_fresh [OF assms(1,5)]
  have ready: "ready st" "style_rule_count st = 0" using assms(1) by (simp_all add: fresh_def typing_def)
  have s1: "html_loop (ascii ''<p>'' @ ?r2) (go_to 0 st) = advance 3 (html_loop ?r2 (go_to 0 ?o))"
    using html_loop_skip [OF _ p_open_turn [OF ready, of ?r2], of "ascii ''<p>''" ?r2] by (simp flip: numeral_3_eq_3)
  have "neat (last_byte []) t" using assms(2) by (simp add: last_byte_def)
  then obtain s where s: "html_loop (escape t @ ascii ''</p>'' @ rest) (go_to 0 ?o)
      = advance (length (escape t)) (html_loop (ascii ''</p>'' @ rest) (go_to 0 s))"
    "typing ([] @ t) fg s" "shown (hs_page s) = shown (hs_page ?o)" "pg_trunc (hs_page s) = pg_trunc (hs_page ?o)"
    "s = fold emit t ?o"
    using typing_read [OF o(1), of t "ascii ''</p>'' @ rest"] assms(4) by auto
  have fr: "frame s = frame ?o" by (simp add: s(5))
  have count: "pg_count (hs_page s) = pg_count (hs_page st) + 1"
    using s(2,3) o(1,3) length_shown [of "hs_page s"] length_shown [of "hs_page ?o"]
    by (simp add: typing_def html_ok_def)
  have c: "fresh fg (close_tag (ascii ''p'') s)"
    "shown (hs_page (close_tag (ascii ''p'') s)) = shown (hs_page s) @ [(t, fg), ([], fg)]"
    "pg_count (hs_page (close_tag (ascii ''p'') s)) = pg_count (hs_page s) + 2"
    using close_block_fresh [of t fg s] s(2,4) assms(3,5) count o frame_fields [OF fr] by simp_all
  have "ready s" using s(2) by (simp add: typing_def)
  have s3: "html_loop (ascii ''</p>'' @ rest) (go_to 0 s)
      = advance 4 (html_loop rest (go_to 0 (close_tag (ascii ''p'') s)))"
    using html_loop_skip [OF _ p_close_turn [OF \<open>ready s\<close>, of rest], of "ascii ''</p>''" rest] by (simp flip: numeral_3_eq_3)
  show ?thesis
  proof (rule that)
    show "html_loop (p_element t @ rest) (go_to 0 st)
        = advance (length (p_element t)) (html_loop rest (go_to 0 (close_tag (ascii ''p'') s)))"
      using s1 s(1) s3 by (simp add: p_element_def advance_def go_to_def)
    show "shown (hs_page (close_tag (ascii ''p'') s)) = shown (hs_page st) @ [([], fg), (t, fg), ([], fg)]"
      using c(2) s(3) o(2) by simp
  qed (use c count in simp_all)
qed

lemma p_elements_read:
  assumes "fresh fg st" "\<forall>t\<in>set ts. neat 0x20 t \<and> t \<noteq> [] \<and> length t \<le> 96"
    "pg_count (hs_page st) + 3 * length ts < 128"
  obtains st' where "html_loop (concat (map p_element ts) @ rest) (go_to 0 st)
      = advance (length (concat (map p_element ts))) (html_loop rest (go_to 0 st'))"
    and "fresh fg st'"
    and "shown (hs_page st') = shown (hs_page st) @ concat (map (\<lambda>t. [([], fg), (t, fg), ([], fg)]) ts)"
  using assms
proof (induction ts arbitrary: st thesis)
  case Nil
  show ?case by (rule Nil.prems(1)) (use Nil.prems in \<open>simp_all add: advance_def go_to_def\<close>)
next
  case (Cons t ts)
  let ?rest = "concat (map p_element ts) @ rest"
  obtain s where s: "html_loop (p_element t @ ?rest) (go_to 0 st) = advance (length (p_element t)) (html_loop ?rest (go_to 0 s))"
    "fresh fg s" "shown (hs_page s) = shown (hs_page st) @ [([], fg), (t, fg), ([], fg)]"
    "pg_count (hs_page s) = pg_count (hs_page st) + 3"
    using p_element_read [OF Cons.prems(2), of t ?rest] Cons.prems(3,4) by auto
  obtain st' where st': "html_loop ?rest (go_to 0 s) = advance (length (concat (map p_element ts))) (html_loop rest (go_to 0 st'))"
    "fresh fg st'" "shown (hs_page st') = shown (hs_page s) @ concat (map (\<lambda>t. [([], fg), (t, fg), ([], fg)]) ts)"
    using Cons.IH [OF _ s(2)] Cons.prems(3,4) s(4) by auto
  show ?case
    by (rule Cons.prems(1)) (use s st' in \<open>simp_all add: advance_def go_to_def add.assoc\<close>)
qed

lemma start_fresh: "globals_ok g \<Longrightarrow> fresh fg (html_start fg g)"
  using html_start_ok [of g fg] start_ready [of fg g]
  by (simp add: fresh_def typing_def)
    (simp add: html_start_def view_def line_text_def browser_line_new_def)

text \<open>
  C20. The paragraphs of a document are its lines: for up to 42 paragraphs of at most 96 printable
  characters each, without doubled blanks, written with the characters \<open><\<close>, \<open>>\<close>, \<open>&\<close> and the double
  quote escaped, the page shows every text as it was before escaping, each between two blank lines
  and in the body colour; nothing is truncated and no script is reported.
\<close>

theorem paragraphs_shown:
  assumes "browser_ok g" "\<forall>t\<in>set ts. neat 0x20 t \<and> t \<noteq> [] \<and> length t \<le> 96" "length ts \<le> 42"
  shows "\<exists>g' n. format_document (ascii ''<html>'' @ concat (map p_element ts)) fg g = Some (g', n, False, False)
    \<and> map view (take n (render_lines g')) = concat (map (\<lambda>t. [([], fg), (t, fg), ([], fg)]) ts)"
proof -
  define raw where "raw = ascii ''<html>'' @ concat (map p_element ts)"
  obtain tree where tree: "build_text_dom raw (html_dom g) = Some tree"
    using build_text_dom_total [of "html_dom g" raw] assms(1) by (auto simp: browser_ok_def)
  define st where "st = html_start fg (g\<lparr> html_dom := tree \<rparr>)"
  have st: "fresh fg st" "hs_i st = 0" "shown (hs_page st) = []" "pg_count (hs_page st) = 0"
    using assms(1) start_fresh [of "g\<lparr> html_dom := tree \<rparr>" fg]
    by (simp_all add: st_def browser_ok_def globals_ok_simps html_start_def shown_def)
  have "ready st" "style_rule_count st = 0" using st(1) by (simp_all add: fresh_def typing_def)
  then have turn: "html_turn raw (go_to 0 st) = Continue (go_to 6 st)"
    unfolding raw_def by (rule html_open_turn)
  have "html_loop raw (go_to 0 st) = advance 6 (html_loop (concat (map p_element ts)) (go_to 0 st))"
    using html_loop_skip [OF _ turn, of "ascii ''<html>''" "concat (map p_element ts)"]
    by (simp add: raw_def flip: numeral_3_eq_3)
  moreover obtain st' where "html_loop (concat (map p_element ts) @ []) (go_to 0 st)
      = advance (length (concat (map p_element ts))) (html_loop [] (go_to 0 st'))" "fresh fg st'"
      "shown (hs_page st') = shown (hs_page st) @ concat (map (\<lambda>t. [([], fg), (t, fg), ([], fg)]) ts)"
    using p_elements_read [OF st(1) assms(2), of "[]"] assms(3) st(4) by auto
  moreover have "html_loop [] (go_to 0 st') = go_to 0 st'" by (subst html_loop.simps) simp
  ultimately have page: "hs_page (html_loop raw st) = hs_page st'" "scripts_stripped (html_loop raw st) = False"
    and f: "fresh fg st'" "shown (hs_page st') = concat (map (\<lambda>t. [([], fg), (t, fg), ([], fg)]) ts)"
    using go_to_self [of st] st(2,3) by (simp_all add: fresh_def, simp_all add: advance_def go_to_def)
  have "bl_len (pg_cur (hs_page st')) = 0"
    using f(1) typing_cur_len [of "[]" fg st'] by (simp add: fresh_def cur_len_def)
  then have fin: "hs_page (html_finish (html_loop raw st)) = hs_page st'" "\<not> scripts_stripped (html_finish (html_loop raw st))"
    using page by (simp_all add: html_finish_def Let_def)
  have "starts_ci (take (min (length raw) 512) raw) 0 (ascii ''<html'')"
    by (simp add: raw_def starts_ci_0_eq bytes_simps to_lower_def)
  then have "find_sub_ci (take (min (length raw) 512) raw) (ascii ''<html'') \<noteq> None"
    by (subst find_sub_ci_None) (auto simp: ascii_def)
  then have "looks_like_html raw" by (simp add: looks_like_html_def)
  then have "format_document raw fg g
      = Some (g\<lparr> html_dom := tree, render_lines := pg_lines (hs_page st'),
                style_scratch := style_buf (html_finish (html_loop raw st)) \<rparr>, pg_count (hs_page st'), False, False)"
    using tree fin f(1) by (simp add: format_document_def Let_def st_def [symmetric] fresh_def)
  then show ?thesis using f(2) by (simp add: raw_def [symmetric] shown_def)
qed

theorem paragraphs_shown_witness:
  "\<exists>g' n. format_document (ascii ''<html>'' @ concat (map p_element [ascii ''a < b'', ascii ''R&D'']))
      (1, 2, 3) html_globals_new = Some (g', n, False, False)
    \<and> map view (take n (render_lines g'))
      = concat (map (\<lambda>t. [([], (1, 2, 3)), (t, (1, 2, 3)), ([], (1, 2, 3))]) [ascii ''a < b'', ascii ''R&D''])"
proof (rule paragraphs_shown)
  show "browser_ok html_globals_new" by (rule browser_ok_new)
qed (simp_all add: bytes_simps)

section \<open>Numeric references\<close>

text \<open>
  A decimal character reference is shown as the character it names: at any point of the text,
  \<open>&#n;\<close> up to the last scalar value of Unicode adds the UTF-8 encoding of \<open>n\<close> (of the replacement
  character for a surrogate) to the line, a sequence the reader's own UTF-8 test accepts, and the
  reading goes on after the semicolon.
\<close>

theorem numeric_reference_shown:
  fixes n :: nat and st :: html_state
  assumes "ready st" "hs_i st = 0" "n \<le> 0x10FFFF"
  defines "enc \<equiv> encode_utf8 (char_from_u32 (of_nat n))"
  shows "html_turn (ascii ''&#'' @ dec_of n @ byte CHR '';'' # rest) st
      = Continue (go_to (length (dec_of n) + 3) (emit_bytes enc st))
    \<and> utf8_seq_valid enc \<and> utf8_lead_len (hd enc) = Some (length enc)"
proof -
  define raw where "raw = ascii ''&#'' @ dec_of n @ byte CHR '';'' # rest"
  have p: "parse_numeric_entity raw = Some (of_nat n, length (dec_of n) + 3)"
    using entity_decimal [of n rest] assms(3) by (simp add: raw_def)
  have "named_entity raw st = None"
    using assms(2) by (simp add: named_entity_def starts_ci_0_eq raw_def bytes_simps to_lower_def)
  then have "text_turn raw st = go_to (length (dec_of n) + 3) (emit_bytes enc st)"
    using p assms(2) by (simp add: text_turn_def entity_turn_def enc_def) (simp add: raw_def bytes_simps)
  moreover have "raw ! 0 \<noteq> byte CHR ''<''" by (simp add: raw_def bytes_simps)
  ultimately have "html_turn raw st = Continue (go_to (length (dec_of n) + 3) (emit_bytes enc st))"
    using assms(1,2) by (simp add: html_turn_def ready_def)
  with encode_utf8_valid [of "of_nat n"] show ?thesis by (simp add: raw_def enc_def)
qed

theorem numeric_reference_shown_witness:
  "html_turn (ascii ''&#'' @ dec_of 233 @ byte CHR '';'' # ascii ''t'') (html_start (1, 2, 3) html_globals_new)
      = Continue (go_to (length (dec_of 233) + 3)
          (emit_bytes (encode_utf8 (char_from_u32 (of_nat 233))) (html_start (1, 2, 3) html_globals_new)))
    \<and> utf8_seq_valid (encode_utf8 (char_from_u32 (of_nat 233)))
    \<and> utf8_lead_len (hd (encode_utf8 (char_from_u32 (of_nat 233))))
      = Some (length (encode_utf8 (char_from_u32 (of_nat 233))))"
  by (rule numeric_reference_shown) (simp_all add: start_ready)

end
