(* ===== verification/Eve_Fetch.thy ===== *)
theory Eve_Fetch
  imports Eve_Net
begin

text \<open>
  What the response reader of \<open>Eve_Net\<close> makes of a response, however TCP cuts it into segments. The
  chunk decoder is first shown equal to an automaton that reads one byte at a time; then the
  automaton decodes what a server writes, chunk by chunk. Bodies with a \<open>Content-Length\<close> and
  bodies that end with the connection are read into the page likewise.
\<close>

section \<open>The page\<close>

definition put_body :: "bytes \<Rightarrow> net_stack \<Rightarrow> net_stack" where
  "put_body bs s = s\<lparr> ns_page := take PAGE_CAP (ns_page s @ bs),
     ns_page_truncated := (ns_page_truncated s \<or> PAGE_CAP < length (ns_page s) + length bs) \<rparr>"

lemma put_body_Nil: "length (ns_page s) \<le> PAGE_CAP \<Longrightarrow> put_body [] s = s"
  by (simp add: put_body_def)

lemma put_body_append: "length (ns_page s) \<le> PAGE_CAP \<Longrightarrow> put_body ys (put_body xs s) = put_body (xs @ ys) s"
proof -
  assume p: "length (ns_page s) \<le> PAGE_CAP"
  let ?t = "take PAGE_CAP (ns_page s @ xs)"
  have page: "take PAGE_CAP (?t @ ys) = take PAGE_CAP (ns_page s @ xs @ ys)"
    using take_take_append [of PAGE_CAP "ns_page s @ xs" ys] by simp
  have "(PAGE_CAP < length (ns_page s) + length xs \<or> PAGE_CAP < length ?t + length ys)
      = (PAGE_CAP < length (ns_page s) + length (xs @ ys))"
    by auto
  then have trunc: "((ns_page_truncated s \<or> PAGE_CAP < length (ns_page s) + length xs) \<or> PAGE_CAP < length ?t + length ys)
      = (ns_page_truncated s \<or> PAGE_CAP < length (ns_page s) + length (xs @ ys))"
    by blast
  have "put_body ys (put_body xs s) = s\<lparr> ns_page := take PAGE_CAP (?t @ ys), ns_page_truncated :=
      ((ns_page_truncated s \<or> PAGE_CAP < length (ns_page s) + length xs) \<or> PAGE_CAP < length ?t + length ys) \<rparr>"
    by (simp add: put_body_def del: take_append length_take)
  then show ?thesis unfolding page trunc by (simp only: put_body_def)
qed

lemma page_push_put: "length (ns_page s) \<le> PAGE_CAP \<Longrightarrow> page_push_byte b s = put_body [b] s"
  by (auto simp: page_push_byte_def put_body_def)

lemma put_body_page: "length (ns_page (put_body bs s)) \<le> PAGE_CAP"
  by (simp add: put_body_def)

lemma put_body_fields [simp]:
  "ns_chunk_phase (put_body bs s) = ns_chunk_phase s" "ns_chunk_line (put_body bs s) = ns_chunk_line s"
  "ns_header_found (put_body bs s) = ns_header_found s" "ns_http_chunked (put_body bs s) = ns_http_chunked s"
  "ns_http_body_remaining (put_body bs s) = ns_http_body_remaining s" "ns_fetch_done (put_body bs s) = ns_fetch_done s"
  by (simp_all add: put_body_def)

lemma fold_page_push: "length (ns_page s) \<le> PAGE_CAP \<Longrightarrow> fold page_push_byte bs s = put_body bs s"
proof (induction bs arbitrary: s)
  case (Cons b bs)
  then show ?case using put_body_append [of s bs "[b]"] put_body_page [of "[b]" s] by (simp add: page_push_put)
qed (simp add: put_body_Nil)

section \<open>The chunk decoder, byte by byte\<close>

text \<open>One byte: the flag says whether decoding goes on.\<close>

definition chunk_byte :: "decoders \<Rightarrow> u8 \<Rightarrow> net_stack \<Rightarrow> bool \<times> net_stack" where
  "chunk_byte dec b s =
     (case ns_chunk_phase s of
        SizeLine \<Rightarrow>
          if b = 0x0A then
            (case parse_chunk_size_line (ns_chunk_line s) of
               None \<Rightarrow> (False, set_err (ascii ''HTTP CHUNK SZ'') s)
             | Some sz \<Rightarrow> (True, s\<lparr> ns_chunk_line := [], ns_chunk_phase := (if sz = 0 then Trailers else Data sz) \<rparr>))
          else (True, chunk_line_push b s)
      | Data remaining \<Rightarrow> (True, (page_push_byte b s)
          \<lparr> ns_chunk_phase := (if remaining - 1 = 0 then AfterData 0 else Data (remaining - 1)) \<rparr>)
      | AfterData step \<Rightarrow>
          if step = 0 \<and> b = 0x0D then (True, s\<lparr> ns_chunk_phase := AfterData 1 \<rparr>)
          else if (step = 0 \<or> step = 1) \<and> b = 0x0A then (True, s\<lparr> ns_chunk_phase := SizeLine \<rparr>)
          else if step = 0 \<or> step = 1 then (False, set_err (ascii ''HTTP CHUNK CRLF'') s)
          else (False, s)
      | Trailers \<Rightarrow>
          if b = 0x0A then
            if ns_chunk_line s = [] then (False, finish_fetch dec s) else (True, s\<lparr> ns_chunk_line := [] \<rparr>)
          else (True, chunk_line_push b s))"

fun chunk_run :: "decoders \<Rightarrow> bytes \<Rightarrow> net_stack \<Rightarrow> bool \<times> net_stack" where
  "chunk_run dec [] s = (True, s)"
| "chunk_run dec (b # bs) s = (case chunk_byte dec b s of (True, s) \<Rightarrow> chunk_run dec bs s | (False, s) \<Rightarrow> (False, s))"

definition live_phase :: "net_stack \<Rightarrow> bool" where
  "live_phase s \<longleftrightarrow> ns_chunk_phase s \<noteq> Data 0"

lemma page_push_phase: "page_push_byte b (s\<lparr> ns_chunk_phase := p \<rparr>) = (page_push_byte b s)\<lparr> ns_chunk_phase := p \<rparr>"
  by (simp add: page_push_byte_def)

lemma fold_page_push_phase:
  "fold page_push_byte bs (s\<lparr> ns_chunk_phase := p \<rparr>) = (fold page_push_byte bs s)\<lparr> ns_chunk_phase := p \<rparr>"
  by (induction bs arbitrary: s) (simp_all add: page_push_phase)

lemma ingest_Nil [simp]: "ingest_chunked_bytes dec [] s = s"
  by (subst ingest_chunked_bytes.simps) simp

lemma ingest_data:
  assumes "ns_chunk_phase s = Data (Suc r)"
  shows "ingest_chunked_bytes dec (b # bs) s = ingest_chunked_bytes dec bs ((page_push_byte b s)
    \<lparr> ns_chunk_phase := (if r = 0 then AfterData 0 else Data r) \<rparr>)"
proof (cases "r = 0 \<or> bs = []")
  case True
  with assms show ?thesis by (subst ingest_chunked_bytes.simps) auto
next
  case False
  then obtain c cs where bs: "bs = c # cs" by (cases bs) auto
  let ?s = "(page_push_byte b s)\<lparr> ns_chunk_phase := Data r \<rparr>"
  have "ingest_chunked_bytes dec bs ?s = ingest_chunked_bytes dec (drop (min r (length bs)) bs)
      ((fold page_push_byte (take (min r (length bs)) bs) ?s)
        \<lparr> ns_chunk_phase := (if r - min r (length bs) = 0 then AfterData 0 else Data (r - min r (length bs))) \<rparr>)"
    using bs by (subst ingest_chunked_bytes.simps) (simp add: Let_def)
  also have "\<dots> = ingest_chunked_bytes dec (b # bs) s"
    using assms False by (subst (2) ingest_chunked_bytes.simps) (simp add: Let_def fold_page_push_phase)
  finally show ?thesis using False by simp
qed

lemma ingest_byte:
  assumes "live_phase s"
  shows "ingest_chunked_bytes dec (b # bs) s =
    (case chunk_byte dec b s of (True, s) \<Rightarrow> ingest_chunked_bytes dec bs s | (False, s) \<Rightarrow> s)"
proof (cases "ns_chunk_phase s")
  case (Data n)
  with assms obtain r where "n = Suc r" by (cases n) (auto simp: live_phase_def)
  with Data show ?thesis using ingest_data [of s r dec b bs] by (simp add: chunk_byte_def)
qed (subst ingest_chunked_bytes.simps; auto simp: chunk_byte_def split: option.split)+

lemma chunk_byte_live: "live_phase s \<Longrightarrow> chunk_byte dec b s = (True, s') \<Longrightarrow> live_phase s'"
  by (auto simp: chunk_byte_def live_phase_def chunk_line_push_def split: chunk_decode_phase.splits if_splits option.splits)

lemma ingest_run: "live_phase s \<Longrightarrow> ingest_chunked_bytes dec bs s = snd (chunk_run dec bs s)"
proof (induction bs arbitrary: s)
  case (Cons b bs)
  show ?case
  proof (cases "chunk_byte dec b s")
    case (Pair c s')
    then show ?thesis using Cons chunk_byte_live [of s dec b s'] by (cases c) (simp_all add: ingest_byte)
  qed
qed simp

lemma chunk_run_append:
  "chunk_run dec (xs @ ys) s = (case chunk_run dec xs s of (True, s) \<Rightarrow> chunk_run dec ys s | (False, s) \<Rightarrow> (False, s))"
  by (induction xs arbitrary: s) (auto split: prod.splits bool.splits)

lemma chunk_run_seq: "chunk_run dec xs s = (True, s1) \<Longrightarrow> chunk_run dec (xs @ ys) s = chunk_run dec ys s1"
  by (simp add: chunk_run_append)

lemma chunk_run_live: "live_phase s \<Longrightarrow> chunk_run dec bs s = (True, s') \<Longrightarrow> live_phase s'"
  by (induction bs arbitrary: s) (auto split: prod.splits bool.splits dest: chunk_byte_live)

text \<open>Decoding does not change the mode of the response.\<close>

definition same_mode :: "net_stack \<Rightarrow> net_stack \<Rightarrow> bool" where
  "same_mode s s' \<longleftrightarrow> ns_header_found s' = ns_header_found s \<and> ns_http_chunked s' = ns_http_chunked s"

lemma same_mode_refl [simp]: "same_mode s s" by (simp add: same_mode_def)

lemma same_mode_trans: "same_mode s s' \<Longrightarrow> same_mode s' s'' \<Longrightarrow> same_mode s s''" by (simp add: same_mode_def)

lemma same_mode_decode: "same_mode s (fst (decode_layers dec ls s))"
proof (induction ls arbitrary: s)
  case (Cons l ls)
  have l: "same_mode s (fst (decode_layer dec l s))"
    by (cases l) (auto simp: decompress_gzip_once_def decompress_zlib_once_def decompress_brotli_once_def put_page_def
      same_mode_def split: option.split sum.split inflate_error.split)
  obtain s1 e where "decode_layer dec l s = (s1, e)" by fastforce
  with l Cons.IH [of s1] show ?case by (cases e) (auto elim: same_mode_trans)
qed simp

lemma same_mode_finish: "same_mode s (finish_fetch dec s)"
proof -
  have g: "same_mode s (fst (decompress_gzip_once dec s))" using same_mode_decode [of s dec "[Gzip]"]
    by (auto split: prod.splits option.splits)
  have d: "same_mode s (fst (decompress_body_layers dec s))" by (simp add: decompress_body_layers_def same_mode_decode)
  show ?thesis using g d
    by (auto simp: finish_fetch_def fetch_complete_def set_err_def same_mode_def split: prod.splits option.splits)
qed

lemma same_mode_updates [simp]:
  "same_mode s (set_err msg s)" "same_mode s (chunk_line_push b s)" "same_mode s ((page_push_byte b s)\<lparr> ns_chunk_phase := p \<rparr>)"
  "same_mode s (s\<lparr> ns_chunk_phase := p \<rparr>)" "same_mode s (s\<lparr> ns_chunk_line := l \<rparr>)"
  "same_mode s (s\<lparr> ns_chunk_line := l, ns_chunk_phase := p \<rparr>)"
  by (simp_all add: same_mode_def set_err_def chunk_line_push_def page_push_byte_def)

lemma same_mode_chunk_byte: "same_mode s (snd (chunk_byte dec b s))"
  by (cases "ns_chunk_phase s") (simp_all add: chunk_byte_def same_mode_finish split: option.split)

lemma same_mode_chunk_run: "same_mode s (snd (chunk_run dec bs s))"
proof (induction bs arbitrary: s)
  case (Cons b bs)
  obtain c s1 where "chunk_byte dec b s = (c, s1)" by fastforce
  with same_mode_chunk_byte [of s dec b] Cons.IH [of s1] show ?case by (cases c) (auto elim: same_mode_trans)
qed simp

text \<open>Cutting the bytes into pieces does not matter, if decoding goes on up to the last byte.\<close>

lemma chunk_pieces:
  assumes "concat pieces = xs @ [b]" "[] \<notin> set pieces" "live_phase s" "ns_header_found s" "ns_http_chunked s"
    "chunk_run dec xs s = (True, s1)"
  shows "fold (ingest_tcp_payload dec) pieces s = snd (chunk_byte dec b s1)"
  using assms
proof (induction pieces arbitrary: xs s)
  case (Cons p ps)
  have p: "ingest_tcp_payload dec p s = snd (chunk_run dec p s)"
    using Cons.prems(3-5) by (simp add: ingest_tcp_payload_def ingest_run)
  show ?case
  proof (cases "ps = []")
    case True
    with Cons.prems(1) have "p = xs @ [b]" by simp
    then show ?thesis
      using True p chunk_run_seq [OF Cons.prems(6), of "[b]"] by (simp split: prod.splits bool.splits)
  next
    case False
    then have "concat ps \<noteq> []" using Cons.prems(2) by (cases ps) auto
    then obtain ys c where "concat ps = ys @ [c]" by (metis rev_exhaust)
    with Cons.prems(1) have ys: "concat ps = ys @ [b]" "xs = p @ ys" by auto
    obtain s2 where s2: "chunk_run dec p s = (True, s2)" "chunk_run dec ys s2 = (True, s1)"
      using Cons.prems(6) ys(2) by (auto simp: chunk_run_append split: prod.splits bool.splits)
    have "same_mode s s2" using same_mode_chunk_run [of s dec p] s2(1) by simp
    moreover have "live_phase s2" using chunk_run_live [OF Cons.prems(3) s2(1)] .
    ultimately show ?thesis
      using Cons.IH [OF ys(1) _ _ _ _ s2(2)] Cons.prems(2,4,5) p s2(1) by (simp add: same_mode_def)
  qed
qed simp

section \<open>Chunked bodies\<close>

definition chunk_wire :: "bool \<Rightarrow> bytes \<Rightarrow> bytes" where
  "chunk_wire up c = hex_of up (length c) @ crlf @ c @ crlf"

text \<open>The chunks, the last chunk of size 0, the trailer fields and the empty line without its line feed.\<close>

definition chunked_body :: "bool \<Rightarrow> bytes list \<Rightarrow> bytes list \<Rightarrow> bytes" where
  "chunked_body up cs ts = concat (map (chunk_wire up) cs) @ hex_of up 0 @ crlf @ concat (map (\<lambda>t. t @ crlf) ts) @ crlf"

definition chunk_ok :: "bytes \<Rightarrow> bool" where
  "chunk_ok c \<longleftrightarrow> c \<noteq> [] \<and> int (length c) \<le> USIZE_MAX"

definition trailer_ok :: "bytes \<Rightarrow> bool" where
  "trailer_ok t \<longleftrightarrow> 0x0A \<notin> set t \<and> filter (\<lambda>b. b \<noteq> 0x0D) t \<noteq> []"

text \<open>A line is collected without carriage returns, up to 24 bytes.\<close>

lemma chunk_line_push_take:
  "length (ns_chunk_line s) \<le> CHUNK_LINE_CAP \<Longrightarrow> chunk_line_push b s
    = s\<lparr> ns_chunk_line := take CHUNK_LINE_CAP (ns_chunk_line s @ filter (\<lambda>b. b \<noteq> 0x0D) [b]) \<rparr>"
  by (simp add: chunk_line_push_def take_Cons')

lemma chunk_line_run:
  assumes "0x0A \<notin> set l" "ns_chunk_phase s = SizeLine \<or> ns_chunk_phase s = Trailers" "length (ns_chunk_line s) \<le> CHUNK_LINE_CAP"
  shows "chunk_run dec l s
    = (True, s\<lparr> ns_chunk_line := take CHUNK_LINE_CAP (ns_chunk_line s @ filter (\<lambda>b. b \<noteq> 0x0D) l) \<rparr>)"
  using assms
proof (induction l arbitrary: s)
  case (Cons b l)
  have step: "chunk_byte dec b s = (True, chunk_line_push b s)"
    using Cons.prems by (auto simp: chunk_byte_def)
  let ?f = "filter (\<lambda>b. b \<noteq> 0x0D)"
  let ?s = "chunk_line_push b s"
  have s: "?s = s\<lparr> ns_chunk_line := take CHUNK_LINE_CAP (ns_chunk_line s @ ?f [b]) \<rparr>"
    by (rule chunk_line_push_take [OF Cons.prems(3)])
  have "length (ns_chunk_line ?s) \<le> CHUNK_LINE_CAP" unfolding s by simp
  with Cons.IH [of ?s] Cons.prems(1,2)
  have "chunk_run dec l ?s = (True, ?s\<lparr> ns_chunk_line := take CHUNK_LINE_CAP (ns_chunk_line ?s @ ?f l) \<rparr>)" by simp
  also have "take CHUNK_LINE_CAP (ns_chunk_line ?s @ ?f l) = take CHUNK_LINE_CAP (ns_chunk_line s @ ?f (b # l))"
    unfolding s using take_take_append [of CHUNK_LINE_CAP "ns_chunk_line s @ ?f [b]" "?f l"] by (simp del: take_append)
  finally show ?case using step by (simp add: s del: take_append)
qed simp

lemma filter_hex: "filter (\<lambda>b. b \<noteq> 0x0D) (hex_of up n @ [0x0D]) = hex_of up n"
  using hex_of_chars [of up n] by (simp add: filter_id_conv)

lemma length_hex_usize: "int n \<le> USIZE_MAX \<Longrightarrow> length (hex_of up n) \<le> CHUNK_LINE_CAP"
  using length_hex_of_le [of n 15 up] by (simp add: USIZE_MAX_def)

lemma chunk_size_run:
  assumes "ns_chunk_phase s = SizeLine" "ns_chunk_line s = []" "int n \<le> USIZE_MAX"
  shows "chunk_run dec (hex_of up n @ crlf) s = (True, s\<lparr> ns_chunk_phase := (if n = 0 then Trailers else Data n) \<rparr>)"
proof -
  have nl: "0x0A \<notin> set (hex_of up n @ [0x0D])" using hex_of_chars [of up n] by auto
  have size: "parse_chunk_size_line (hex_of up n) = Some n"
    using chunk_size_loop_hex_of [OF assms(3), of up "[]"] hex_of_chars [of up n]
    by (auto simp: parse_chunk_size_line_def strip_cr_def)
  have "chunk_run dec (hex_of up n @ [0x0D]) s = (True, s\<lparr> ns_chunk_line := hex_of up n \<rparr>)"
    using chunk_line_run [OF nl, of s dec] assms length_hex_usize [OF assms(3), of up] unfolding filter_hex by simp
  then have "chunk_run dec ((hex_of up n @ [0x0D]) @ [0x0A]) s
      = (True, s\<lparr> ns_chunk_line := [], ns_chunk_phase := (if n = 0 then Trailers else Data n) \<rparr>)"
    unfolding chunk_run_append using assms(1) size by (simp add: chunk_byte_def)
  then show ?thesis using assms(2) by simp
qed

lemma chunk_data_run:
  assumes "ns_chunk_phase s = Data (length c)" "c \<noteq> []"
  shows "chunk_run dec c s = (True, (fold page_push_byte c s)\<lparr> ns_chunk_phase := AfterData 0 \<rparr>)"
  using assms
proof (induction c arbitrary: s)
  case (Cons b c)
  show ?case
  proof (cases "c = []")
    case True
    with Cons.prems show ?thesis by (simp add: chunk_byte_def)
  next
    case False
    then show ?thesis
      using Cons.prems Cons.IH [of "(page_push_byte b s)\<lparr> ns_chunk_phase := Data (length c) \<rparr>"]
      by (simp add: chunk_byte_def fold_page_push_phase)
  qed
qed simp

lemma chunk_wire_run:
  assumes "ns_chunk_phase s = SizeLine" "ns_chunk_line s = []" "chunk_ok c" "length (ns_page s) \<le> PAGE_CAP"
  shows "chunk_run dec (chunk_wire up c) s = (True, put_body c s)"
proof -
  let ?s1 = "s\<lparr> ns_chunk_phase := Data (length c) \<rparr>"
  have c: "c \<noteq> []" "int (length c) \<le> USIZE_MAX" using assms(3) by (simp_all add: chunk_ok_def)
  have 1: "chunk_run dec (hex_of up (length c) @ crlf) s = (True, ?s1)"
    using chunk_size_run [OF assms(1,2) c(2)] c(1) by simp
  have "fold page_push_byte c ?s1 = (put_body c s)\<lparr> ns_chunk_phase := Data (length c) \<rparr>"
    using assms(4) by (simp add: fold_page_push_phase fold_page_push)
  then have 2: "chunk_run dec c ?s1 = (True, (put_body c s)\<lparr> ns_chunk_phase := AfterData 0 \<rparr>)"
    using chunk_data_run [of ?s1 c dec] c(1) by simp
  have 3: "chunk_run dec crlf ((put_body c s)\<lparr> ns_chunk_phase := AfterData 0 \<rparr>) = (True, put_body c s)"
    using assms(1) by (simp add: chunk_byte_def put_body_def)
  have "chunk_run dec ((hex_of up (length c) @ crlf) @ c @ crlf) s = (True, put_body c s)"
    unfolding chunk_run_seq [OF 1] chunk_run_seq [OF 2] by (rule 3)
  then show ?thesis by (simp add: chunk_wire_def)
qed

lemma chunks_run:
  assumes "ns_chunk_phase s = SizeLine" "ns_chunk_line s = []" "list_all chunk_ok cs" "length (ns_page s) \<le> PAGE_CAP"
  shows "chunk_run dec (concat (map (chunk_wire up) cs)) s = (True, put_body (concat cs) s)"
  using assms
proof (induction cs arbitrary: s)
  case (Cons c cs)
  then show ?case
    using Cons.IH [of "put_body c s"] put_body_page [of c s]
    by (simp add: chunk_run_append chunk_wire_run put_body_append)
qed (simp add: put_body_Nil)

lemma trailers_run:
  assumes "ns_chunk_phase s = Trailers" "ns_chunk_line s = []" "list_all trailer_ok ts"
  shows "chunk_run dec (concat (map (\<lambda>t. t @ crlf) ts)) s = (True, s)"
  using assms
proof (induction ts)
  case (Cons t ts)
  let ?l = "take CHUNK_LINE_CAP (filter (\<lambda>b. b \<noteq> 0x0D) t)"
  have t: "0x0A \<notin> set (t @ [0x0D])" "filter (\<lambda>b. b \<noteq> 0x0D) t \<noteq> []" using Cons.prems(3) by (auto simp: trailer_ok_def)
  have "chunk_run dec (t @ [0x0D]) s = (True, s\<lparr> ns_chunk_line := ?l \<rparr>)"
    using chunk_line_run [OF t(1), of s dec] Cons.prems by simp
  moreover have "chunk_byte dec 0x0A (s\<lparr> ns_chunk_line := ?l \<rparr>) = (True, s)"
    using Cons.prems t(2) by (simp add: chunk_byte_def)
  ultimately have "chunk_run dec ((t @ [0x0D]) @ [0x0A]) s = (True, s)" unfolding chunk_run_append by simp
  then have "chunk_run dec (t @ crlf) s = (True, s)" by simp
  from chunk_run_seq [OF this, of "concat (map (\<lambda>t. t @ crlf) ts)"] Cons show ?case by simp
qed simp

lemma chunked_run:
  assumes "ns_chunk_phase s = SizeLine" "ns_chunk_line s = []" "list_all chunk_ok cs" "list_all trailer_ok ts"
    "length (ns_page s) \<le> PAGE_CAP"
  shows "chunk_run dec (butlast (chunked_body up cs ts)) s = (True, (put_body (concat cs) s)\<lparr> ns_chunk_phase := Trailers \<rparr>)"
proof -
  let ?a = "concat (map (chunk_wire up) cs)" and ?z = "hex_of up 0 @ crlf" and ?t = "concat (map (\<lambda>t. t @ crlf) ts)"
  let ?s = "(put_body (concat cs) s)\<lparr> ns_chunk_phase := Trailers \<rparr>"
  have "butlast (chunked_body up cs ts) = ?a @ ?z @ ?t @ [0x0D]" by (simp add: chunked_body_def butlast_append)
  moreover have "chunk_run dec ?z (put_body (concat cs) s) = (True, ?s)"
    using chunk_size_run [of "put_body (concat cs) s" 0 dec up] assms(1,2) by (simp add: USIZE_MAX_def)
  moreover have "chunk_run dec ?t ?s = (True, ?s)" by (rule trailers_run) (use assms in simp_all)
  moreover have "chunk_run dec [0x0D] ?s = (True, ?s)" by (simp add: chunk_byte_def chunk_line_push_def)
  ultimately show ?thesis using chunk_run_seq [OF chunks_run [OF assms(1,2,3,5)]] by (simp only: chunk_run_seq)
qed

text \<open>
  C17. A chunked body is decoded as sent, however TCP cuts it: for any chunks, sizes in either letter
  case, any trailer fields and any cut of the encoded body into segments, the page is what was there followed by the chunks'
  bytes, up to its capacity, a longer body is marked truncated, and the fetch is
  finished at the last byte.
\<close>

theorem chunked_body_decoded:
  assumes "ns_header_found s" "ns_http_chunked s" "ns_chunk_phase s = SizeLine" "ns_chunk_line s = []"
    "length (ns_page s) \<le> 65536" "list_all chunk_ok cs" "list_all trailer_ok ts"
    "concat segments = chunked_body up cs ts" "[] \<notin> set segments"
  shows "fold (ingest_tcp_payload dec) segments s = finish_fetch dec (s\<lparr>
    ns_page := take 65536 (ns_page s @ concat cs),
    ns_page_truncated := (ns_page_truncated s \<or> 65536 < length (ns_page s) + length (concat cs)),
    ns_chunk_phase := Trailers \<rparr>)"
proof -
  have live: "live_phase s" using assms(3) by (simp add: live_phase_def)
  have "chunked_body up cs ts = butlast (chunked_body up cs ts) @ [0x0A]" by (simp add: chunked_body_def butlast_append)
  with assms(8) have cat: "concat segments = butlast (chunked_body up cs ts) @ [0x0A]" by simp
  from chunk_pieces [OF cat assms(9) live assms(1,2) chunked_run [OF assms(3,4,6,7,5)]]
  have "fold (ingest_tcp_payload dec) segments s
      = snd (chunk_byte dec 0x0A ((put_body (concat cs) s)\<lparr> ns_chunk_phase := Trailers \<rparr>))" .
  also have "\<dots> = finish_fetch dec ((put_body (concat cs) s)\<lparr> ns_chunk_phase := Trailers \<rparr>)"
    using assms(4) by (simp add: chunk_byte_def)
  finally show ?thesis by (simp add: put_body_def)
qed

text \<open>Decoders that decode nothing, for examples.\<close>

definition no_decoders :: decoders where
  "no_decoders = \<lparr> inflate = (\<lambda>_ _. Inl OtherStatus), brotli = (\<lambda>_. None) \<rparr>"

theorem chunked_body_decoded_witness:
  "ns_page (fold (ingest_tcp_payload no_decoders) [ascii ''3'', crlf @ ascii ''abc'' @ [0x0D], 0x0A # ascii ''1'' @ crlf @ ascii ''d'',
      crlf @ ascii ''0'' @ crlf, crlf]
      (static_initial\<lparr> ns_header_found := True, ns_http_chunked := True \<rparr>)) = ascii ''abcd''"
proof -
  let ?s = "static_initial\<lparr> ns_header_found := True, ns_http_chunked := True \<rparr>"
  let ?ps = "[ascii ''3'', crlf @ ascii ''abc'' @ [0x0D], 0x0A # ascii ''1'' @ crlf @ ascii ''d'', crlf @ ascii ''0'' @ crlf, crlf]"
  have h: "hex_of False (Suc (Suc (Suc 0))) = ascii ''3''" "hex_of False (Suc 0) = ascii ''1''" "hex_of False 0 = ascii ''0''" by code_simp+
  have "concat ?ps = chunked_body False [ascii ''abc'', ascii ''d''] []"
    by (simp add: chunked_body_def chunk_wire_def h)
  from chunked_body_decoded [of ?s "[ascii ''abc'', ascii ''d'']" "[]" ?ps False no_decoders, OF _ _ _ _ _ _ _ this]
  show ?thesis
    by (simp add: static_initial_def chunk_ok_def USIZE_MAX_def ascii_def finish_fetch_def fetch_complete_def)
qed

end
