(* ===== verification/Eve_Net_Inv.thy ===== *)
theory Eve_Net_Inv
  imports Eve_Net_Rx Eve_Fetch Eve_Dns
begin

text \<open>
  The invariant of the network stack: every buffer stays within its array, the flags of the fetch
  agree with each other. It is proved for every operation of \<open>Eve_Net\<close> and for the frame handlers of
  \<open>Eve_Net_Rx\<close>, which never panic; \<open>Eve_Net_Reach\<close> lifts it to the states the kernel reaches.
\<close>

section \<open>The invariant\<close>

named_theorems net_wf_intros \<open>operations that keep the invariant of the network stack\<close>

text \<open>The capacities of the arrays of \<open>NetStack\<close>.\<close>

definition buffers_ok :: "net_stack \<Rightarrow> bool" where
  "buffers_ok s \<longleftrightarrow> length (ns_page s) \<le> PAGE_CAP \<and> length (ns_fetch_err s) \<le> 80 \<and> length (ns_stream s) \<le> STREAM_CAP
     \<and> length (ns_chunk_line s) \<le> CHUNK_LINE_CAP \<and> length (ns_dns_name s) \<le> 96 \<and> length (ns_host_header s) \<le> 96
     \<and> length (ns_path s) \<le> 160 \<and> length (ns_tls_server_name s) \<le> 96
     \<and> length (ns_tls_cipher_in s) \<le> TLS_CIPHER_RX_CAP \<and> ns_tls_cipher_off s \<le> length (ns_tls_cipher_in s)
     \<and> length (ns_tls_tx_buf s) \<le> TLS_TX_CAP
     \<and> length (ns_body_layers s) = 4 \<and> ns_body_layer_count s \<le> 4"

text \<open>
  The flags: an armed fetch is not done and either waits for DNS or has its answer; a TLS connection
  is live exactly when its handshake is done, and only for HTTPS; the chunk decoder is in a
  phase it can leave.
\<close>

definition modes_ok :: "net_stack \<Rightarrow> bool" where
  "modes_ok s \<longleftrightarrow> (ns_fetch_armed s \<longrightarrow> \<not> ns_fetch_done s \<and> ns_needs_dns s = (\<not> ns_dns_done s))
     \<and> ns_tls_live s = ns_tls_handshake_done s \<and> (ns_tls_live s \<longrightarrow> ns_https_mode s)
     \<and> (ns_https_handshake_queued s \<longrightarrow> ns_https_mode s)
     \<and> ns_chunk_phase s \<noteq> Data 0 \<and> (\<forall>step. ns_chunk_phase s = AfterData step \<longrightarrow> step \<le> 1)"

definition net_wf :: "net_stack \<Rightarrow> bool" where
  "net_wf s \<longleftrightarrow> buffers_ok s \<and> modes_ok s"

lemmas net_wf_defs = net_wf_def buffers_ok_def modes_ok_def

lemma net_wf_bounds:
  assumes "net_wf s"
  shows "length (ns_page s) \<le> PAGE_CAP" "length (ns_stream s) \<le> STREAM_CAP"
    "length (ns_tls_cipher_in s) \<le> TLS_CIPHER_RX_CAP" "ns_tls_cipher_off s \<le> length (ns_tls_cipher_in s)"
    "length (ns_tls_tx_buf s) \<le> TLS_TX_CAP"
  using assms by (simp_all add: net_wf_defs)

lemma static_initial_wf [net_wf_intros]: "net_wf static_initial"
  by (simp add: net_wf_defs static_initial_def)

section \<open>Operations on the stack\<close>

lemma set_err_wf [net_wf_intros]: "net_wf s \<Longrightarrow> net_wf (set_err msg s)"
  by (simp add: net_wf_defs set_err_def)

lemma clear_tls_poll_wf [net_wf_intros]: "net_wf s \<Longrightarrow> net_wf (clear_tls_poll s)"
  by (simp add: net_wf_defs clear_tls_poll_def)

lemma clear_fetch_wf [net_wf_intros]: "net_wf s \<Longrightarrow> net_wf (clear_fetch_inner s)"
  by (simp add: net_wf_defs clear_fetch_inner_def clear_tls_poll_def)

lemma reset_demo_wf [net_wf_intros]: "net_wf s \<Longrightarrow> net_wf (reset_demo s)"
  using clear_fetch_wf [of s] by (simp add: net_wf_defs reset_demo_def)

lemma seed_from_mac_wf [net_wf_intros]: "net_wf s \<Longrightarrow> net_wf (seed_from_mac m s)"
  by (simp add: net_wf_defs seed_from_mac_def)

lemma parsed_url_wf: "parse_fetch_url url = Some u \<Longrightarrow> url_wf u"
proof -
  assume "parse_fetch_url url = Some u"
  then obtain rest dp tls where "parse_host_port_path rest dp tls = Some u"
    by (auto simp: parse_fetch_url_def Let_def split: option.splits)
  then show "url_wf u" by (rule parse_host_port_path_SomeD) (rule finish_parse_parts(1))
qed

lemma start_fetch_wf [net_wf_intros]: "net_wf s \<Longrightarrow> net_wf (start_fetch url s)"
proof (cases "parse_fetch_url url")
  case None
  assume "net_wf s"
  then show ?thesis using None by (simp add: start_fetch_def set_err_wf clear_fetch_wf)
next
  case (Some u)
  assume s: "net_wf s"
  have u: "host_for_dns_len u \<le> 95" "host_header_len u \<le> 95" "path_len u \<le> 159"
    using parsed_url_wf [OF Some] by (simp_all add: url_wf_def)
  show ?thesis using s u Some
    by (simp add: net_wf_defs start_fetch_def clear_fetch_inner_def clear_tls_poll_def reset_tcp_for_new_fetch_def Let_def
      min_le_iff_disj)
qed

lemma sync_ip_wf [net_wf_intros]: "net_wf s \<Longrightarrow> net_wf (sync_ip_from_settings cfg tag s)"
  by (cases "ip_config cfg")
    (simp_all add: sync_ip_from_settings_def reset_demo_def clear_fetch_inner_def clear_tls_poll_def Let_def net_wf_defs)

section \<open>Decoding and finishing\<close>

lemma decode_layer_wf: "net_wf s \<Longrightarrow> net_wf (fst (decode_layer dec l s))"
  by (cases l) (auto simp: net_wf_defs decompress_gzip_once_def decompress_zlib_once_def decompress_brotli_once_def put_page_def
    split: option.split sum.split inflate_error.split)

lemma decode_layers_wf: "net_wf s \<Longrightarrow> net_wf (fst (decode_layers dec ls s))"
proof (induction ls arbitrary: s)
  case (Cons l ls)
  obtain s1 e where "decode_layer dec l s = (s1, e)" by fastforce
  with decode_layer_wf [OF Cons.prems, of dec l] Cons.IH [of s1] show ?case by (cases e) simp_all
qed simp

lemma fetch_complete_wf [net_wf_intros]: "net_wf s \<Longrightarrow> net_wf (fetch_complete s)"
  by (simp add: net_wf_defs fetch_complete_def)

lemma finish_fetch_wf [net_wf_intros]: "net_wf s \<Longrightarrow> net_wf (finish_fetch dec s)"
proof -
  assume s: "net_wf s"
  obtain s1 e where 1: "decompress_body_layers dec s = (s1, e)" by fastforce
  obtain s2 f where 2: "decompress_gzip_once dec s = (s2, f)" by fastforce
  have wf: "net_wf s1" "net_wf s2"
    using decode_layers_wf [OF s, of dec] decode_layer_wf [OF s, of dec Gzip] 1 2 by (simp_all add: decompress_body_layers_def) (metis fst_conv)
  then have "net_wf (s1\<lparr> ns_body_layer_count := 0, ns_body_layers := replicate 4 Identity \<rparr>)" by (simp add: net_wf_defs)
  with s wf show ?thesis
    by (simp add: finish_fetch_def 1 2 net_wf_intros split: option.split)
qed

lemma finish_plain_wf [net_wf_intros]: "net_wf s \<Longrightarrow> net_wf (finish_plain_http_on_tcp_eof dec s)"
  by (simp add: finish_plain_http_on_tcp_eof_def net_wf_intros)

section \<open>Reading the response\<close>

lemma page_push_wf [net_wf_intros]: "net_wf s \<Longrightarrow> net_wf (page_push_byte b s)"
  by (simp add: net_wf_defs page_push_byte_def)

lemma fold_wf: "(\<And>x s. net_wf s \<Longrightarrow> net_wf (f x s)) \<Longrightarrow> net_wf s \<Longrightarrow> net_wf (fold f xs s)"
  by (induction xs arbitrary: s) simp_all

lemma append_to_page_wf [net_wf_intros]: "net_wf s \<Longrightarrow> net_wf (append_to_page dec data s)"
proof -
  assume s: "net_wf s"
  define s1 where "s1 = (let n = min (length data) (PAGE_CAP - length (ns_page s));
    s = (if 0 < n then s\<lparr> ns_page := ns_page s @ take n data \<rparr> else s)
    in if n < length data then s\<lparr> ns_page_truncated := True \<rparr> else s)"
  have "length (ns_page s) + min (length data) (PAGE_CAP - length (ns_page s)) \<le> PAGE_CAP"
    using net_wf_bounds [OF s] by simp
  then have 1: "net_wf s1" using s unfolding s1_def by (simp add: net_wf_defs Let_def)
  then have "net_wf (s1\<lparr> ns_http_body_remaining := r \<rparr>)" for r by (simp add: net_wf_defs)
  with 1 show ?thesis unfolding append_to_page_def Let_def s1_def [symmetric, unfolded Let_def]
    by (simp add: net_wf_intros split: option.split)
qed

lemma chunk_line_push_wf [net_wf_intros]: "net_wf s \<Longrightarrow> net_wf (chunk_line_push b s)"
  by (simp add: net_wf_defs chunk_line_push_def)

lemma chunk_phase_wf: "net_wf s \<Longrightarrow> p \<noteq> Data 0 \<Longrightarrow> (\<And>st. p = AfterData st \<Longrightarrow> st \<le> 1) \<Longrightarrow> net_wf (s\<lparr> ns_chunk_phase := p \<rparr>)"
  by (simp add: net_wf_defs)

lemma chunk_byte_wf: "net_wf s \<Longrightarrow> net_wf (snd (chunk_byte dec b s))"
proof -
  assume s: "net_wf s"
  have l: "net_wf (s\<lparr> ns_chunk_line := [] \<rparr>)" using s by (simp add: net_wf_defs)
  have p: "net_wf (s\<lparr> ns_chunk_line := [], ns_chunk_phase := (if n = 0 then Trailers else Data n) \<rparr>)" for n
    using l by (auto simp: net_wf_defs)
  show ?thesis
  proof (cases "ns_chunk_phase s")
    case SizeLine
    with s p show ?thesis by (simp add: chunk_byte_def net_wf_intros split: option.split)
  next
    case (Data r)
    have "net_wf ((page_push_byte b s)\<lparr> ns_chunk_phase := (if r - 1 = 0 then AfterData 0 else Data (r - 1)) \<rparr>)"
      by (rule chunk_phase_wf) (use s in \<open>auto simp: net_wf_intros split: if_splits\<close>)
    with Data show ?thesis by (simp add: chunk_byte_def)
  next
    case (AfterData st)
    have "net_wf (s\<lparr> ns_chunk_phase := SizeLine \<rparr>)" "net_wf (s\<lparr> ns_chunk_phase := AfterData 1 \<rparr>)"
      by (rule chunk_phase_wf; use s in simp)+
    with s AfterData show ?thesis by (simp add: chunk_byte_def net_wf_intros)
  next
    case Trailers
    with s l show ?thesis by (simp add: chunk_byte_def net_wf_intros)
  qed
qed

lemma chunk_run_wf: "net_wf s \<Longrightarrow> net_wf (snd (chunk_run dec bs s))"
proof (induction bs arbitrary: s)
  case (Cons b bs)
  obtain c s1 where "chunk_byte dec b s = (c, s1)" by fastforce
  with chunk_byte_wf [OF Cons.prems, of dec b] Cons.IH [of s1] show ?case by (cases c) simp_all
qed simp

lemma ingest_chunked_wf [net_wf_intros]: "net_wf s \<Longrightarrow> net_wf (ingest_chunked_bytes dec data s)"
proof -
  assume s: "net_wf s"
  then have "live_phase s" by (simp add: net_wf_defs live_phase_def)
  then show ?thesis using chunk_run_wf [OF s] by (simp add: ingest_run)
qed

lemma ingest_pieces_wf [net_wf_intros]: "net_wf s \<Longrightarrow> net_wf (ingest_pieces dec data s)"
proof (induction dec data s rule: ingest_pieces.induct)
  case (1 dec data s)
  then show ?case by (subst ingest_pieces.simps) (simp add: net_wf_intros)
qed

lemma coding_parts_wf:
  "coding_parts parts (layers, count) = Inr (layers', count') \<Longrightarrow> count \<le> length layers \<Longrightarrow>
    length layers' = length layers \<and> count' \<le> length layers"
  by (induction parts "(layers, count)" arbitrary: layers count rule: coding_parts.induct)
    (auto split: sum.splits option.splits if_splits)

lemma content_layers_wf:
  assumes "parse_content_encoding_layers headers = Inr (layers, count)"
  shows "length layers = 4 \<and> count \<le> 4"
proof -
  obtain parts n where "coding_parts parts (replicate 4 Identity, 0) = Inr (layers, n)" "count = of_nat n"
    using assms by (auto simp: parse_content_encoding_layers_def coding_lines_values split: sum.splits)
  with coding_parts_wf [of parts "replicate 4 Identity" 0 layers n] show ?thesis
    by (simp add: word_le_nat_alt unat_of_nat take_bit_eq_mod)
qed

lemma begin_body_wf [net_wf_intros]: "net_wf s \<Longrightarrow> net_wf (begin_body dec headers body s)"
proof -
  assume s: "net_wf s"
  let ?s = "s\<lparr> ns_header_found := True \<rparr>"
  have h: "net_wf ?s" using s by (simp add: net_wf_defs)
  have e: "net_wf (t\<lparr> ns_stream := [], ns_page_gen := g \<rparr>)" if "net_wf t" for t g using that by (simp add: net_wf_defs)
  have c: "net_wf (?s\<lparr> ns_http_chunked := True, ns_chunk_phase := SizeLine, ns_chunk_line := [] \<rparr>)"
    using s by (simp add: net_wf_defs)
  have l: "net_wf (?s\<lparr> ns_body_layers := ls, ns_body_layer_count := n, ns_http_body_remaining := r \<rparr>)"
    if "parse_content_encoding_layers headers = Inr (ls, n)" for ls n r
    using content_layers_wf [OF that] s by (simp add: net_wf_defs)
  show ?thesis
  proof (cases "response_headers_chunked headers")
    case True
    then show ?thesis using e [OF ingest_pieces_wf [OF c]] by (simp add: begin_body_def Let_def)
  next
    case False
    show ?thesis
    proof (cases "parse_content_encoding_layers headers")
      case (Inl u)
      then show ?thesis using False set_err_wf [OF h] by (simp add: begin_body_def)
    next
      case (Inr lc)
      obtain ls n where lc: "lc = (ls, n)" by fastforce
      let ?t = "fold page_push_byte body (?s\<lparr> ns_body_layers := ls, ns_body_layer_count := n, ns_http_body_remaining :=
        (case parse_content_length headers of Some cl \<Rightarrow> Some (cl - min (length body) cl) | None \<Rightarrow> None) \<rparr>)"
      have t: "net_wf ?t" by (rule fold_wf [OF page_push_wf l [OF Inr [unfolded lc]]])
      show ?thesis using False Inr lc e [OF t] e [OF finish_fetch_wf [OF t]]
        by (auto simp: begin_body_def Let_def)
    qed
  qed
qed

lemma ingest_wf [net_wf_intros]: "net_wf s \<Longrightarrow> net_wf (ingest_tcp_payload dec data s)"
proof -
  assume s: "net_wf s"
  let ?n = "min (length data) (STREAM_CAP - length (ns_stream s))"
  define t where "t = s\<lparr> ns_stream := ns_stream s @ take ?n data \<rparr>"
  have "length (ns_stream s) + ?n \<le> STREAM_CAP" using net_wf_bounds [OF s] by simp
  then have "net_wf t" using s by (simp add: net_wf_defs t_def)
  with s show ?thesis unfolding ingest_tcp_payload_def Let_def t_def [symmetric]
    by (simp add: net_wf_intros split: option.split)
qed

section \<open>The queues between TCP and TLS\<close>

lemma cipher_compact_wf [net_wf_intros]: "net_wf s \<Longrightarrow> net_wf (tls_cipher_compact s)"
proof -
  assume s: "net_wf s"
  have "length (ns_tls_cipher_in s) - ns_tls_cipher_off s \<le> TLS_CIPHER_RX_CAP" using net_wf_bounds [OF s] by simp
  then show ?thesis using s by (simp add: tls_cipher_compact_def net_wf_defs)
qed

lemma cipher_append_wf [net_wf_intros]: "net_wf s \<Longrightarrow> net_wf (snd (tls_cipher_append data s))"
proof -
  assume s: "net_wf s"
  define t where "t = (if TLS_CIPHER_RX_CAP < length (ns_tls_cipher_in s) + length data then tls_cipher_compact s else s)"
  have t: "net_wf t" using s by (simp add: t_def net_wf_intros)
  have "net_wf (t\<lparr> ns_tls_cipher_in := ns_tls_cipher_in t @ data \<rparr>)"
    if "length (ns_tls_cipher_in t) + length data \<le> TLS_CIPHER_RX_CAP" using that t by (simp add: net_wf_defs)
  with t show ?thesis unfolding tls_cipher_append_def Let_def t_def [symmetric] by simp
qed

lemma cipher_pop_wf [net_wf_intros]: "net_wf s \<Longrightarrow> net_wf (snd (tls_cipher_pop room s))"
proof -
  assume s: "net_wf s"
  let ?n = "min (length (ns_tls_cipher_in s) - ns_tls_cipher_off s) room"
  define t where "t = s\<lparr> ns_tls_cipher_off := ns_tls_cipher_off s + ?n \<rparr>"
  have "ns_tls_cipher_off s + ?n \<le> length (ns_tls_cipher_in s)" using net_wf_bounds [OF s] by simp
  then have t: "net_wf t" using s by (simp add: net_wf_defs t_def)
  then have "net_wf (t\<lparr> ns_tls_cipher_off := 0, ns_tls_cipher_in := [] \<rparr>)" by (simp add: net_wf_defs)
  with t s show ?thesis unfolding tls_cipher_pop_def Let_def t_def [symmetric] by (simp add: net_wf_intros)
qed

lemma cipher_tx_wf [net_wf_intros]: "net_wf s \<Longrightarrow> net_wf (snd (tls_cipher_tx_append data s))"
  by (simp add: tls_cipher_tx_append_def net_wf_defs)

lemma flush_pending_wf [net_wf_intros]: "net_wf s \<Longrightarrow> net_wf (tls_note_flush_pending s)"
  by (simp add: tls_note_flush_pending_def net_wf_defs)

section \<open>Received frames\<close>

text \<open>An operation that returns, in a state that satisfies the invariant.\<close>

definition safe :: "('d, 't) net_world option \<Rightarrow> bool" where
  "safe r \<longleftrightarrow> (\<exists>w. r = Some w \<and> net_wf (w_net w))"

lemma safe_Some [simp]: "safe (Some w) \<longleftrightarrow> net_wf (w_net w)"
  by (simp add: safe_def)

lemma safe_bind: "m = Some a \<Longrightarrow> safe (f a) \<Longrightarrow> safe (m \<bind> f)"
  by simp

lemma read_addr_Some [simp]: "i + 3 < length buf \<Longrightarrow> read_addr buf i = Some (IPv4 (buf ! i) (buf ! (i + 1)) (buf ! (i + 2)) (buf ! (i + 3)))"
  by (simp add: read_addr_def)

lemma w_net_send_ack [simp]: "w_net (send_ack vio our_mac sip w) = (w_net w)\<lparr> ns_ip_id := ns_ip_id (w_net w) + 1 \<rparr>"
  by (simp add: send_ack_def Let_def)

lemma counters_wf [simp]:
  "net_wf (s\<lparr> ns_ip_id := i \<rparr>) = net_wf s" "net_wf (s\<lparr> ns_tcp_ack := a \<rparr>) = net_wf s" "net_wf (s\<lparr> ns_tcp_seq := q \<rparr>) = net_wf s"
  "net_wf (s\<lparr> ns_get_sent := g \<rparr>) = net_wf s" "net_wf (s\<lparr> ns_tls_tcp_eof := e \<rparr>) = net_wf s"
  "net_wf (s\<lparr> ns_http_bytes := h \<rparr>) = net_wf s" "net_wf (s\<lparr> ns_fetch_progress_tick := t \<rparr>) = net_wf s"
  "net_wf (s\<lparr> ns_syn_sent := g \<rparr>) = net_wf s" "net_wf (s\<lparr> ns_syn_retries := r \<rparr>) = net_wf s"
  "net_wf (s\<lparr> ns_tick := t \<rparr>) = net_wf s" "net_wf (s\<lparr> ns_clock := c \<rparr>) = net_wf s" "net_wf (s\<lparr> ns_phase := p \<rparr>) = net_wf s"
  "net_wf (s\<lparr> ns_dns_xmit_phase := x \<rparr>) = net_wf s" "net_wf (s\<lparr> ns_tls_tx_flush_pending := e \<rparr>) = net_wf s"
  "net_wf (s\<lparr> ns_tls_poll := q' \<rparr>) = net_wf s" "net_wf (s\<lparr> ns_gw_mac := m \<rparr>) = net_wf s" "net_wf (s\<lparr> ns_gw_known := g \<rparr>) = net_wf s"
  "net_wf (s\<lparr> ns_addrs := as \<rparr>) = net_wf s" "net_wf (s\<lparr> ns_log := l \<rparr>) = net_wf s" "net_wf (s\<lparr> ns_dhcp_phase := dp \<rparr>) = net_wf s"
  "net_wf (s\<lparr> ns_dhcp_server_id := adr \<rparr>) = net_wf s" "net_wf (s\<lparr> ns_dhcp_offer_yi := adr \<rparr>) = net_wf s"
  "net_wf (s\<lparr> ns_dhcp_phase_start_tick := t \<rparr>) = net_wf s" "net_wf (s\<lparr> ns_dhcp_last_tx_tick := t \<rparr>) = net_wf s"
  "net_wf (s\<lparr> ns_remote_ip := adr \<rparr>) = net_wf s"
  by (simp_all add: net_wf_defs)

lemma handle_arp_wf:
  assumes "net_wf s"
  shows "\<exists>s'. handle_arp frame s = Some s' \<and> net_wf s'"
  using assms by (cases "length frame < 42") (simp_all add: handle_arp_def)

lemma handle_udp_safe: "net_wf (w_net w) \<Longrightarrow> safe (handle_udp_rx frame sip ihl w)"
proof -
  assume w: "net_wf (w_net w)"
  show ?thesis
  proof (cases "ns_fetch_armed (w_net w) \<and> ns_needs_dns (w_net w) \<and> \<not> ns_dns_done (w_net w) \<and> 14 + ihl + 8 \<le> length frame")
    case True
    define u where "u = 14 + ihl"
    have dns: "net_wf (s\<lparr> ns_remote_ip := a, ns_dns_done := True, ns_needs_dns := False, ns_dns_xmit_phase := 0,
        ns_syn_sent := False, ns_syn_retries := 0 \<rparr>)" if "net_wf s" for s a
      using that by (simp add: net_wf_defs)
    have "parse_dns_a d i = Some (the (parse_dns_a d i))" for d i using parse_dns_a_total [of d i] by simp
    note bind = safe_bind [OF this]
    show ?thesis using w True dns [OF w] unfolding handle_udp_rx_def u_def [symmetric] Let_def
      by (auto split: option.split intro!: bind)
  next
    case False
    then show ?thesis using w by (auto simp: handle_udp_rx_def Let_def)
  qed
qed

text \<open>TCP segments.\<close>

lemma tcp_eof_wf: "net_wf s \<Longrightarrow> net_wf (tcp_eof dec s)"
  by (simp add: tcp_eof_def net_wf_intros)

lemma handle_syn_ack_wf: "net_wf (w_net w) \<Longrightarrow> net_wf (w_net (handle_syn_ack vio seq sip our_mac w))"
proof -
  assume w: "net_wf (w_net w)"
  define w1 where "w1 = on_net (\<lambda>s. s\<lparr> ns_tcp_ack := seq + 1, ns_tcp_seq := ns_tcp_seq s + 1 \<rparr>) w"
  have 1: "net_wf (w_net w1)" using w by (simp add: w1_def)
  have q: "net_wf (s\<lparr> ns_https_handshake_queued := True \<rparr>)" if "net_wf s" "ns_https_mode s" for s
    using that by (simp add: net_wf_defs)
  have "w_net (snd (snd (send vio b (on_net f w1)))) = f (w_net w1)" for b f by simp
  then show ?thesis using 1 q unfolding handle_syn_ack_def Let_def w1_def [symmetric] split_beta
    by (simp add: net_wf_intros split: option.split)
qed

lemma handle_data_wf: "net_wf (w_net w) \<Longrightarrow> net_wf (w_net (handle_data dec vio pay seq fin sip our_mac w))"
proof -
  assume w: "net_wf (w_net w)"
  define w1 where "w1 = on_net (\<lambda>s. s\<lparr> ns_fetch_progress_tick := ns_tick s, ns_http_bytes := ns_http_bytes s + of_nat (length pay) \<rparr>) w"
  have 1: "net_wf (w_net w1)" using w by (simp add: w1_def)
  define r where "r = (if ns_https_mode (w_net w1) then tls_cipher_append pay (w_net w1) else (True, ingest_tcp_payload dec pay (w_net w1)))"
  have "net_wf (snd r)" using 1 by (simp add: r_def net_wf_intros)
  then show ?thesis unfolding handle_data_def Let_def w1_def [symmetric] r_def [symmetric] split_beta
    by (simp add: net_wf_intros tcp_eof_wf)
qed

lemma handle_tcp_safe: "net_wf (w_net w) \<Longrightarrow> safe (handle_tcp_rx dec vio frame sip ihl our_mac w)"
proof -
  assume w: "net_wf (w_net w)"
  show ?thesis
  proof (cases "length frame < 14 + ihl + 20")
    case True
    then show ?thesis using w by (simp add: handle_tcp_rx_def)
  next
    case False
    define t where "t = 14 + ihl"
    have l: "t + 20 \<le> length frame" using False by (simp add: t_def)
    show ?thesis unfolding handle_tcp_rx_def Let_def t_def [symmetric] using l w
      by (simp add: net_wf_intros handle_syn_ack_wf handle_data_wf tcp_eof_wf)
  qed
qed

section \<open>DHCP\<close>

lemma dhcp_option_total:
  "v0 + ln \<le> length bootp \<Longrightarrow> \<exists>os'. dhcp_option bootp tag ln v0 os = Some os'"
  by (simp add: dhcp_option_def)

lemma dhcp_options_total:
  assumes "int (length bootp) < USIZE_MAX"
  shows "\<exists>os'. dhcp_options bootp i os = Some os'"
  using assms
proof (induction bootp i os rule: dhcp_options.induct)
  case (1 bootp i os)
  show ?case
  proof (cases "length bootp \<le> i \<or> bootp ! i = 255 \<or> bootp ! i = 0 \<or> length bootp \<le> i + 1 \<or> length bootp < i + 2 + unat (bootp ! (i + 1))")
    case True
    then show ?thesis using 1 less_saturating_add [OF "1.prems"] by (subst dhcp_options.simps) (auto simp: Let_def)
  next
    case False
    then obtain os1 where os1: "dhcp_option bootp (bootp ! i) (unat (bootp ! (i + 1))) (i + 2) os = Some os1"
      using dhcp_option_total [of "i + 2" "unat (bootp ! (i + 1))" bootp] by (auto simp: not_less)
    show ?thesis using False os1 1 less_saturating_add [OF "1.prems"] by (subst dhcp_options.simps) (auto simp: Let_def)
  qed
qed

lemma dhcp_bind_wf: "net_wf s \<Longrightarrow> net_wf (dhcp_bind yi si os s)"
  by (simp add: dhcp_bind_def net_wf_defs Let_def)

lemma handle_dhcp_safe:
  assumes "net_wf (w_net w)" "int (length bootp) < USIZE_MAX"
  shows "safe (handle_dhcp_reply vio bootp our_mac w)"
proof (cases "length bootp < 240")
  case True
  then show ?thesis using assms by (simp add: handle_dhcp_reply_def)
next
  case False
  then have l: "240 \<le> length bootp" "bootp \<noteq> []" by auto
  obtain os where os: "dhcp_options bootp 240 no_opts = Some os" using dhcp_options_total [OF assms(2)] by blast
  have req: "w_net (dhcp_send_request vio our_mac w) = w_net w" for w by (simp add: dhcp_send_request_def)
  show ?thesis unfolding handle_dhcp_reply_def os using l assms(1)
    by (simp add: req dhcp_bind_wf split: dhcp_phase.split option.split)
qed

lemma handle_rx_returns:
  assumes "net_wf (w_net w)" "length frame \<le> 2048"
  shows "\<exists>w'. handle_rx dec vio frame our_mac w = Some w' \<and> net_wf (w_net w')"
proof (cases "length frame < 34")
  case True
  obtain s' where "handle_arp frame (w_net w) = Some s'" "net_wf s'" using handle_arp_wf [OF assms(1)] by blast
  then show ?thesis using True assms(1) by (auto simp: handle_rx_def Let_def)
next
  case False
  have l: "34 \<le> length frame" "\<not> length frame < 14" using False by simp_all
  obtain s' where arp: "handle_arp frame (w_net w) = Some s'" "net_wf s'" using handle_arp_wf [OF assms(1)] by blast
  have dhcp: "safe (handle_dhcp_reply vio (slice frame a b) our_mac w)" for a b
    by (rule handle_dhcp_safe) (use assms in \<open>auto simp: USIZE_MAX_def min_def\<close>)
  have "safe (handle_rx dec vio frame our_mac w)"
    unfolding handle_rx_def Let_def dhcp_frame_def using l arp assms(1) dhcp
    by (auto simp: handle_udp_safe handle_tcp_safe)
  then show ?thesis by (simp add: safe_def)
qed

text \<open>
  C13. No received frame can make the stack panic or break its invariant: for every frame that fits the
  receive buffer, whatever its bytes say, the handler returns, every buffer stays within its
  array and the flags of the fetch stay consistent.
\<close>

theorem handle_rx_safe:
  assumes "net_wf (w_net w)" "length frame \<le> 2048"
  shows "\<exists>w'. handle_rx dec vio frame our_mac w = Some w' \<and> net_wf (w_net w')"
  by (rule handle_rx_returns [OF assms])

section \<open>The mode of a fetch\<close>

text \<open>Nothing that is received changes whether the fetch is an HTTPS fetch.\<close>

lemma https_simple [simp]:
  "ns_https_mode (set_err msg s) = ns_https_mode s" "ns_https_mode (fetch_complete s) = ns_https_mode s"
  "ns_https_mode (page_push_byte b s) = ns_https_mode s" "ns_https_mode (chunk_line_push b s) = ns_https_mode s"
  "ns_https_mode (clear_tls_poll s) = ns_https_mode s" "ns_https_mode (tls_cipher_compact s) = ns_https_mode s"
  "ns_https_mode (snd (tls_cipher_tx_append data s)) = ns_https_mode s" "ns_https_mode (tls_note_flush_pending s) = ns_https_mode s"
  "ns_https_mode (dhcp_bind yi si os s) = ns_https_mode s" "ns_https_mode (set_tls_poll m s) = ns_https_mode s"
  by (simp_all add: set_err_def fetch_complete_def page_push_byte_def chunk_line_push_def clear_tls_poll_def tls_cipher_compact_def
    tls_cipher_tx_append_def tls_note_flush_pending_def dhcp_bind_def set_tls_poll_def Let_def)

lemma https_cipher [simp]:
  "ns_https_mode (snd (tls_cipher_append data s)) = ns_https_mode s" "ns_https_mode (snd (tls_cipher_pop room s)) = ns_https_mode s"
  by (simp_all add: tls_cipher_append_def tls_cipher_pop_def Let_def del: min_less_iff_conj)

lemma https_decode_layer [simp]: "ns_https_mode (fst (decode_layer dec l s)) = ns_https_mode s"
  by (cases l) (auto simp: decompress_gzip_once_def decompress_zlib_once_def decompress_brotli_once_def put_page_def
    split: option.split sum.split inflate_error.split)

lemma https_decode_layers [simp]: "ns_https_mode (fst (decode_layers dec ls s)) = ns_https_mode s"
proof (induction ls arbitrary: s)
  case (Cons l ls)
  obtain s1 e where "decode_layer dec l s = (s1, e)" by fastforce
  with https_decode_layer [of dec l s] Cons.IH [of s1] show ?case by (cases e) simp_all
qed simp

lemma https_finish [simp]: "ns_https_mode (finish_fetch dec s) = ns_https_mode s"
proof -
  obtain s1 e where 1: "decompress_body_layers dec s = (s1, e)" by fastforce
  obtain s2 f where 2: "decompress_gzip_once dec s = (s2, f)" by fastforce
  have "ns_https_mode s2 = ns_https_mode s" using https_decode_layer [of dec Gzip s] 2 by simp
  moreover have "ns_https_mode s1 = ns_https_mode s" using 1 unfolding decompress_body_layers_def by (metis fst_conv https_decode_layers)
  ultimately show ?thesis by (simp add: finish_fetch_def 1 2 split: option.split)
qed

lemma https_chunk_byte: "ns_https_mode (snd (chunk_byte dec b s)) = ns_https_mode s"
  by (cases "ns_chunk_phase s") (simp_all add: chunk_byte_def split: option.split)

lemma https_chunk_run: "ns_https_mode (snd (chunk_run dec bs s)) = ns_https_mode s"
proof (induction bs arbitrary: s)
  case (Cons b bs)
  obtain c s1 where "chunk_byte dec b s = (c, s1)" by fastforce
  with https_chunk_byte [of dec b s] Cons.IH [of s1] show ?case by (cases c) simp_all
qed simp

lemma https_fold_push [simp]: "ns_https_mode (fold page_push_byte bs s) = ns_https_mode s"
  by (induction bs arbitrary: s) simp_all

lemma https_chunked: "net_wf s \<Longrightarrow> ns_https_mode (ingest_chunked_bytes dec data s) = ns_https_mode s"
  using https_chunk_run [of dec data s] by (simp add: net_wf_defs live_phase_def ingest_run)

lemma https_pieces: "net_wf s \<Longrightarrow> ns_https_mode (ingest_pieces dec data s) = ns_https_mode s"
proof (induction dec data s rule: ingest_pieces.induct)
  case (1 dec data s)
  then show ?case by (subst ingest_pieces.simps) (simp add: net_wf_intros https_chunked)
qed

lemma https_ingest: "net_wf s \<Longrightarrow> ns_https_mode (ingest_tcp_payload dec data s) = ns_https_mode s"
proof -
  assume s: "net_wf s"
  have b: "ns_https_mode (begin_body dec h b t) = ns_https_mode t" if "net_wf t" for h b t
  proof -
    have "net_wf (t\<lparr> ns_header_found := True, ns_http_chunked := True, ns_chunk_phase := SizeLine, ns_chunk_line := [] \<rparr>)"
      using that by (simp add: net_wf_defs)
    from https_pieces [OF this] show ?thesis by (auto simp: begin_body_def Let_def split: sum.split)
  qed
  let ?n = "min (length data) (STREAM_CAP - length (ns_stream s))"
  define t where "t = s\<lparr> ns_stream := ns_stream s @ take ?n data \<rparr>"
  have "length (ns_stream s) + ?n \<le> STREAM_CAP" using net_wf_bounds [OF s] by simp
  then have t: "net_wf t" "ns_https_mode t = ns_https_mode s" using s by (simp_all add: net_wf_defs t_def)
  have "ns_https_mode (append_to_page dec data s) = ns_https_mode s"
    by (simp add: append_to_page_def Let_def split: option.split)
  with s t b [OF t(1)] show ?thesis unfolding ingest_tcp_payload_def Let_def t_def [symmetric]
    by (simp add: https_chunked split: option.split)
qed

definition keeps :: "bool \<Rightarrow> ('d, 't) net_world option \<Rightarrow> bool" where
  "keeps h r \<longleftrightarrow> (\<forall>w. r = Some w \<longrightarrow> ns_https_mode (w_net w) = h)"

lemma keeps_Some [simp]: "keeps h (Some w) \<longleftrightarrow> ns_https_mode (w_net w) = h"
  by (simp add: keeps_def)

lemma keeps_bind: "(\<And>a. m = Some a \<Longrightarrow> keeps h (f a)) \<Longrightarrow> keeps h (m \<bind> f)"
  by (cases m) (simp_all add: keeps_def)

lemma https_udp: "keeps (ns_https_mode (w_net w)) (handle_udp_rx frame sip ihl w)"
  by (auto simp: handle_udp_rx_def Let_def intro!: keeps_bind split: option.split)

lemma https_arp: "handle_arp frame s = Some s' \<Longrightarrow> ns_https_mode s' = ns_https_mode s"
  by (auto simp: handle_arp_def split: if_splits bind_splits)

lemma https_dhcp: "keeps (ns_https_mode (w_net w)) (handle_dhcp_reply vio bootp our_mac w)"
  by (auto simp: handle_dhcp_reply_def dhcp_send_request_def intro!: keeps_bind split: dhcp_phase.split option.split)

lemma https_tcp_eof [simp]: "ns_https_mode (tcp_eof dec s) = ns_https_mode s"
  by (simp add: tcp_eof_def finish_plain_http_on_tcp_eof_def)

lemma https_syn_ack: "ns_https_mode (w_net (handle_syn_ack vio seq sip our_mac w)) = ns_https_mode (w_net w)"
  by (simp add: handle_syn_ack_def Let_def split_beta split: option.split)

lemma https_data:
  assumes "net_wf (w_net w)"
  shows "ns_https_mode (w_net (handle_data dec vio pay seq fin sip our_mac w)) = ns_https_mode (w_net w)"
proof -
  define w1 where "w1 = on_net (\<lambda>s. s\<lparr> ns_fetch_progress_tick := ns_tick s, ns_http_bytes := ns_http_bytes s + of_nat (length pay) \<rparr>) w"
  have 1: "net_wf (w_net w1)" "ns_https_mode (w_net w1) = ns_https_mode (w_net w)" using assms by (simp_all add: w1_def)
  define r where "r = (if ns_https_mode (w_net w1) then tls_cipher_append pay (w_net w1) else (True, ingest_tcp_payload dec pay (w_net w1)))"
  have "ns_https_mode (snd r) = ns_https_mode (w_net w)" using 1 by (simp add: r_def https_ingest)
  then show ?thesis unfolding handle_data_def Let_def w1_def [symmetric] r_def [symmetric] split_beta by simp
qed

lemma https_tcp: "net_wf (w_net w) \<Longrightarrow> keeps (ns_https_mode (w_net w)) (handle_tcp_rx dec vio frame sip ihl our_mac w)"
  by (auto simp: handle_tcp_rx_def Let_def https_syn_ack https_data intro!: keeps_bind)

lemma https_rx: "net_wf (w_net w) \<Longrightarrow> keeps (ns_https_mode (w_net w)) (handle_rx dec vio frame our_mac w)"
  by (auto simp: handle_rx_def Let_def https_udp https_tcp https_dhcp https_arp intro!: keeps_bind)

section \<open>An example card\<close>

text \<open>A card whose state is the frames still to be received and the frames sent.\<close>

definition wire_nic :: "(bytes list \<times> bytes list) nic_ops" where
  "wire_nic = \<lparr> nic_transmit = (\<lambda>f (inbox, sent). (True, inbox, sent @ [f])),
     nic_poll = (\<lambda>(inbox, sent). case inbox of [] \<Rightarrow> (None, inbox, sent) | f # fs \<Rightarrow> (Some (length f, f), fs, sent)) \<rparr>"

definition boot_world :: "bytes list \<Rightarrow> (bytes list \<times> bytes list, unit) net_world" where
  "boot_world inbox = \<lparr> w_net = static_initial, w_nic = (inbox, []), w_scratch = replicate 1536 0, w_tls = () \<rparr>"

theorem handle_rx_safe_witness:
  "\<exists>w. handle_rx no_decoders wire_nic (replicate 60 0x45) (MAC 2 0 0 0 0 1) (boot_world []) = Some w \<and> net_wf (w_net w)"
  by (rule handle_rx_safe) (simp_all add: boot_world_def static_initial_wf)

end
