(* ===== verification/Eve_Net_Reach.thy ===== *)
theory Eve_Net_Reach
  imports Eve_Net_Inv
begin

text \<open>
  The invariant of \<open>Eve_Net_Inv\<close> for the receive loop, the TLS bridge, the handshake, the pump and the step of
  the main loop, and for every state the kernel reaches, by rule induction; and that a step of the main
  loop ends. The TLS library is any library that acts on the stack through its bridge only.
\<close>

section \<open>The receive loop and the TLS bridge\<close>

text \<open>The invariant together with the mode of the fetch.\<close>

definition wf_as :: "bool \<Rightarrow> ('d, 't) net_world \<Rightarrow> bool" where
  "wf_as h w \<longleftrightarrow> net_wf (w_net w) \<and> ns_https_mode (w_net w) = h"

lemma rx_loop_wf:
  assumes "rx_loop dec vio our_mac w = Some w'" "wf_as h w"
  shows "wf_as h w'"
proof -
  have "wf_as h w \<longrightarrow> wf_as h w'"
  proof (induction rule: rx_loop.raw_induct [of "\<lambda>dec vio our_mac w w'. wf_as h w \<longrightarrow> wf_as h w'", OF _ assms(1)])
    case (1 rx dec vio our_mac w w')
    obtain p d where p: "nic_poll vio (w_nic w) = (p, d)" by fastforce
    show ?case
    proof (cases "\<exists>n buf. p = Some (n, buf) \<and> n \<le> 2048")
      case True
      then obtain n buf where n: "p = Some (n, buf)" "n \<le> 2048" by blast
      let ?w = "w\<lparr> w_nic := d \<rparr>"
      have "\<exists>w1. handle_rx dec vio (take n buf) our_mac ?w = Some w1 \<and> wf_as h w1" if w: "wf_as h w"
      proof -
        obtain w1 where "handle_rx dec vio (take n buf) our_mac ?w = Some w1" "net_wf (w_net w1)"
          using handle_rx_returns [of ?w "take n buf" dec vio our_mac] w n by (auto simp: wf_as_def min_le_iff_disj)
        moreover have "keeps h (handle_rx dec vio (take n buf) our_mac ?w)" using https_rx [of ?w] w by (simp add: wf_as_def)
        ultimately show ?thesis by (simp add: wf_as_def)
      qed
      with 1 p n show ?thesis by (auto split: if_splits)
    next
      case False
      with 1 p show ?thesis by (auto simp: wf_as_def split: option.splits if_splits)
    qed
  qed
  with assms(2) show ?thesis by blast
qed

lemma tx_flush_loop_wf: "wf_as h w \<Longrightarrow> wf_as h (tls_tx_flush_loop vio our_mac w)"
proof (induction "length (ns_tls_tx_buf (w_net w))" arbitrary: w rule: less_induct)
  case less
  define s where "s = w_net w"
  define k where "k = min (length (ns_tls_tx_buf s)) 1400"
  define r where "r = send vio (build_tcp_ack_psh our_mac (ns_gw_mac s) (ns_addrs s) (ns_remote_ip s) LOCAL_PORT (ns_remote_port s)
    (ns_tcp_seq s) (ns_tcp_ack s) (take k (ns_tls_tx_buf s)) (ns_ip_id s + 1)) (on_net (\<lambda>s. s\<lparr> ns_ip_id := ns_ip_id s + 1 \<rparr>) w)"
  have r: "w_net (snd (snd r)) = s\<lparr> ns_ip_id := ns_ip_id s + 1 \<rparr>" by (simp add: r_def s_def)
  define w1 where "w1 = on_net (\<lambda>s. s\<lparr> ns_tcp_seq := ns_tcp_seq s + of_nat k, ns_tls_tx_buf := drop k (ns_tls_tx_buf s) \<rparr>) (snd (snd r))"
  have s: "net_wf s" "ns_https_mode s = h" using less.prems by (simp_all add: s_def wf_as_def)
  have "length (ns_tls_tx_buf s) - k \<le> TLS_TX_CAP" using net_wf_bounds(5) [OF s(1)] by simp
  then have w1: "wf_as h w1" using s by (simp add: wf_as_def w1_def r net_wf_defs)
  have "wf_as h (tls_tx_flush_loop vio our_mac w1)" if "ns_tls_tx_buf s \<noteq> []"
    by (rule less.hyps) (use that w1 in \<open>auto simp: w1_def r k_def s_def\<close>)
  then show ?case
    unfolding tls_tx_flush_loop.simps [of vio our_mac w] Let_def s_def [symmetric] k_def [symmetric] r_def [symmetric] w1_def [symmetric]
    using s less.prems by (simp add: r wf_as_def)
qed

lemma tx_flush_all_wf: "wf_as h w \<Longrightarrow> wf_as h (tls_tx_flush_all vio our_mac w)"
  using tx_flush_loop_wf [of h w vio our_mac] by (simp add: tls_tx_flush_all_def wf_as_def)

lemma spin_poll_wf: "tls_spin_poll dec vio w = Some w' \<Longrightarrow> wf_as h w \<Longrightarrow> wf_as h w'"
  by (auto simp: tls_spin_poll_def tx_flush_all_wf split: option.splits elim!: rx_loop_wf)

lemma bridge_read_wf:
  "bridge_read dec vio room spins w = Some (r, w') \<Longrightarrow> wf_as h w \<Longrightarrow> wf_as h w'"
proof (induction dec vio room spins w rule: bridge_read.induct)
  case (2 dec vio room spins w)
  obtain out s where pop: "tls_cipher_pop room (w_net w) = (out, s)" by fastforce
  have "wf_as h (w\<lparr> w_net := s \<rparr>)"
    using cipher_pop_wf [of "w_net w" room] https_cipher(2) [of room "w_net w"] "2.prems"(2) pop by (simp add: wf_as_def)
  with 2 pop show ?case
    by (auto simp: Let_def split: if_splits bind_splits dest: spin_poll_wf)
qed simp

text \<open>
  The TLS library acts on the stack only through its bridge: what a call does is a sequence of bridge
  reads, writes and flushes, and changes of the library's own state.
\<close>

inductive bridge_steps :: "decoders \<Rightarrow> 'd nic_ops \<Rightarrow> ('d, 't) net_world \<Rightarrow> ('d, 't) net_world \<Rightarrow> bool"
  for dec vio w where
  idle: "bridge_steps dec vio w w"
| inner: "bridge_steps dec vio w w' \<Longrightarrow> bridge_steps dec vio w (w'\<lparr> w_tls := t \<rparr>)"
| fetch: "bridge_steps dec vio w w' \<Longrightarrow> bridge_read dec vio room 2000000 w' = Some (r, w'') \<Longrightarrow> bridge_steps dec vio w w''"
| put: "bridge_steps dec vio w w' \<Longrightarrow> bridge_steps dec vio w (w'\<lparr> w_net := snd (bridge_write buf (w_net w')) \<rparr>)"
| sync: "bridge_steps dec vio w w' \<Longrightarrow> bridge_steps dec vio w (w'\<lparr> w_net := snd (bridge_flush (w_net w')) \<rparr>)"

definition tls_over_bridge :: "decoders \<Rightarrow> 'd nic_ops \<Rightarrow> ('d, 't) tls_ops \<Rightarrow> bool" where
  "tls_over_bridge dec vio tls \<longleftrightarrow>
     (\<forall>w ca host seed. bridge_steps dec vio w (snd (tls_open tls ca host seed w)))
     \<and> (\<forall>w data. bridge_steps dec vio w (snd (tls_write_all tls data w)))
     \<and> (\<forall>w. bridge_steps dec vio w (snd (tls_flush tls w)))
     \<and> (\<forall>w n. bridge_steps dec vio w (snd (tls_read tls n w)))"

lemma bridge_steps_wf: "bridge_steps dec vio w w' \<Longrightarrow> wf_as h w \<Longrightarrow> wf_as h w'"
proof (induction rule: bridge_steps.induct)
  case (put w' buf)
  then show ?case
    using cipher_tx_wf [of "w_net w'" buf] https_simple(7) [of buf "w_net w'"] by (simp add: wf_as_def bridge_write_def split_beta Let_def)
next
  case (fetch w' room r w'')
  then show ?case by (blast intro: bridge_read_wf)
qed (simp_all add: wf_as_def bridge_flush_def net_wf_intros)

section \<open>HTTPS\<close>

lemma tls_calls_wf:
  assumes "tls_over_bridge dec vio tls" "wf_as h w"
  shows "wf_as h (snd (tls_open tls ca host seed w))" "wf_as h (snd (tls_write_all tls data w))"
    "wf_as h (snd (tls_flush tls w))" "wf_as h (snd (tls_read tls n w))"
  by (rule bridge_steps_wf [of dec vio w]; use assms in \<open>simp add: tls_over_bridge_def\<close>)+

lemma on_net_wf: "wf_as h w \<Longrightarrow> (\<And>s. net_wf s \<Longrightarrow> ns_https_mode s = h \<Longrightarrow> net_wf (f s) \<and> ns_https_mode (f s) = h) \<Longrightarrow> wf_as h (on_net f w)"
  by (simp add: wf_as_def)

lemma tls_live_wf:
  "net_wf s \<Longrightarrow> ns_https_mode s \<Longrightarrow> net_wf (s\<lparr> ns_tls_live := True, ns_tls_handshake_done := True \<rparr>)"
  "net_wf s \<Longrightarrow> net_wf (s\<lparr> ns_tls_live := False, ns_tls_handshake_done := False \<rparr>)"
  by (simp_all add: net_wf_defs)

lemma tls_fail_wf: "net_wf s \<Longrightarrow> net_wf (tls_fail msg s) \<and> ns_https_mode (tls_fail msg s) = ns_https_mode s"
  by (simp add: tls_fail_def net_wf_intros tls_live_wf)

lemma tls_send_get_wf:
  assumes "tls_over_bridge dec vio tls" "wf_as h w"
  shows "wf_as h (tls_send_get vio tls our_mac w)"
proof (cases "http_get (w_net w)")
  case None
  then show ?thesis using assms(2) by (simp add: tls_send_get_def on_net_wf tls_fail_wf)
next
  case (Some pay)
  obtain ok1 w1 where 1: "tls_write_all tls pay w = (ok1, w1)" by fastforce
  obtain ok2 w2 where 2: "tls_flush tls w1 = (ok2, w2)" by fastforce
  have w1: "wf_as h w1" using tls_calls_wf(2) [OF assms, of pay] 1 by simp
  have w2: "wf_as h w2" using tls_calls_wf(3) [OF assms(1) w1] 2 by simp
  show ?thesis using Some 1 2 w1 w2
    by (auto simp: tls_send_get_def net_wf_intros intro!: on_net_wf tls_fail_wf tx_flush_all_wf)
qed

lemma handshake_wf:
  assumes "tls_over_bridge dec vio tls" "wf_as True w"
  shows "wf_as True (run_https_handshake_and_get vio tls our_mac w)"
proof -
  define w1 where "w1 = on_net (set_tls_poll our_mac) w"
  have w1: "wf_as True w1" using assms(2) by (simp add: w1_def wf_as_def set_tls_poll_def)
  let ?host = "ns_tls_server_name (w_net w1)" and ?seed = "tls_seed our_mac (w_net w1)"
  obtain c2 w2 where 2: "tls_open tls IsrgX1 ?host (?seed XOR 0x1A2B3C4D) w1 = (c2, w2)" by fastforce
  obtain c3 w3 where 3: "tls_open tls DigicertG2 ?host (?seed XOR 0xD1C1CE47) w2 = (c3, w3)" by fastforce
  have w2: "wf_as True w2" using tls_calls_wf(1) [OF assms(1) w1] 2 by (metis snd_conv)
  have w3: "wf_as True w3" using tls_calls_wf(1) [OF assms(1) w2] 3 by (metis snd_conv)
  have fail: "wf_as True (on_net (\<lambda>s. set_err msg (clear_tls_poll s)) v)" if "wf_as True v" for msg v
    using that by (simp add: wf_as_def net_wf_intros)
  have live: "wf_as True (tls_send_get vio tls our_mac (on_net (\<lambda>s. s\<lparr> ns_tls_live := True, ns_tls_handshake_done := True \<rparr>) (v\<lparr> w_tls := c \<rparr>)))"
    if "wf_as True v" for v c
    by (rule tls_send_get_wf [OF assms(1)]) (use that in \<open>simp add: wf_as_def tls_live_wf\<close>)
  show ?thesis unfolding run_https_handshake_and_get_def Let_def w1_def [symmetric]
    using w1 w2 w3 2 3 fail live by (auto split: option.split)
qed

lemma pump_loop_wf:
  assumes "tls_pump_loop dec tls w = Some w'" "tls_over_bridge dec vio tls" "wf_as h w"
  shows "wf_as h w'"
proof -
  have "wf_as h w \<longrightarrow> tls_over_bridge dec vio tls \<longrightarrow> wf_as h w'"
  proof (induction rule: tls_pump_loop.raw_induct [of "\<lambda>dec tls w w'. wf_as h w \<longrightarrow> tls_over_bridge dec vio tls \<longrightarrow> wf_as h w'", OF _ assms(1)])
    case (1 pump dec tls w w')
    obtain r w1 where r: "tls_read tls 2048 w = (r, w1)" by fastforce
    show ?case
    proof (intro impI)
      assume w: "wf_as h w" and t: "tls_over_bridge dec vio tls"
      have w1: "wf_as h w1" using tls_calls_wf(4) [OF t w, of 2048] r by simp
      have "wf_as h (on_net (ingest_tcp_payload dec c) w1)" "wf_as h (on_net (set_err m) w1)" for c m
        using w1 by (simp_all add: wf_as_def net_wf_intros https_ingest)
      then show "wf_as h w'" using 1 r t w1 by (auto split: sum.splits if_splits)
    qed
  qed
  with assms(2,3) show ?thesis by blast
qed

lemma pump_wf:
  assumes "tls_pump_application dec vio tls our_mac w = Some w'" "tls_over_bridge dec vio tls" "wf_as h w"
  shows "wf_as h w'"
proof (cases "ns_tls_live (w_net w)")
  case True
  then obtain w1 w2 where 1: "tls_spin_poll dec vio (on_net (set_tls_poll our_mac) w) = Some w1" and 2: "tls_pump_loop dec tls w1 = Some w2"
    using assms(1) by (auto simp: tls_pump_application_def split: bind_splits)
  have "wf_as h (on_net (set_tls_poll our_mac) w)" using assms(3) by (simp add: wf_as_def set_tls_poll_def)
  then have "wf_as h w2" using spin_poll_wf [OF 1] pump_loop_wf [OF 2 assms(2)] by blast
  then have 3: "wf_as h (on_net clear_tls_poll (tls_tx_flush_all vio our_mac w2))"
    using tx_flush_all_wf [of h w2 vio our_mac] by (simp add: wf_as_def net_wf_intros)
  show ?thesis using assms(1) True 1 2 3
    by (auto simp: tls_pump_application_def Let_def wf_as_def net_wf_intros split: if_splits)
qed (use assms in \<open>simp add: tls_pump_application_def\<close>)

section \<open>The step of the main loop and reachable states\<close>

lemma dhcp_tick_wf: "wf_as h w \<Longrightarrow> wf_as h (dhcp_tick vio our_mac w)"
proof -
  assume w: "wf_as h w"
  define w1 where "w1 = on_net (\<lambda>s. if ns_dhcp_phase_start_tick s = 0
    then s\<lparr> ns_dhcp_phase_start_tick := ns_tick s, ns_dhcp_last_tx_tick := 0 \<rparr> else s) w"
  have w1: "wf_as h w1" using w by (simp add: w1_def wf_as_def)
  show ?thesis using w w1 unfolding dhcp_tick_def Let_def w1_def [symmetric]
    by (simp add: wf_as_def dhcp_send_discover_def dhcp_send_request_def)
qed

lemma dns_tick_wf: "wf_as h w \<Longrightarrow> wf_as h (dns_tick vio our_mac w)"
  by (simp add: dns_tick_def Let_def wf_as_def net_wf_intros)

lemma syn_tick_wf: "wf_as h w \<Longrightarrow> wf_as h (syn_tick vio our_mac w)"
  by (simp add: syn_tick_def Let_def split_beta wf_as_def)

lemma fetch_tick_wf:
  assumes "fetch_tick dec vio tls our_mac w = Some w'" "tls_over_bridge dec vio tls" "wf_as h w"
  shows "net_wf (w_net w')"
proof -
  define w1 where "w1 = syn_tick vio our_mac w"
  have w1: "wf_as h w1" using syn_tick_wf [OF assms(3)] by (simp add: w1_def)
  have err: "net_wf (set_err m (w_net w))" "net_wf (set_err m (w_net w1))" for m
    using assms(3) w1 by (simp_all add: wf_as_def net_wf_intros)
  have "wf_as True (on_net (\<lambda>s. s\<lparr> ns_https_handshake_queued := False \<rparr>) w1)" if "ns_https_mode (w_net w1)"
    using w1 that by (simp add: wf_as_def net_wf_defs)
  from handshake_wf [OF assms(2) this]
  have hs: "net_wf (w_net (run_https_handshake_and_get vio tls our_mac (on_net (\<lambda>s. s\<lparr> ns_https_handshake_queued := False \<rparr>) w1)))"
    if "ns_https_mode (w_net w1)" using that by (simp add: wf_as_def)
  have pump: "net_wf (w_net w')" if "tls_pump_application dec vio tls our_mac w1 = Some w'"
    using pump_wf [OF that assms(2) w1] by (simp add: wf_as_def)
  show ?thesis using assms(1) err hs pump w1 unfolding fetch_tick_def Let_def w1_def [symmetric]
    by (auto simp: wf_as_def split: if_splits)
qed

lemma begin_tick_wf: "net_wf s \<Longrightarrow> net_wf (begin_tick cfg s)"
  by (simp add: begin_tick_def Let_def net_wf_intros)

lemma drive_wf:
  assumes "drive dec vio tls our_mac cfg w = Some w'" "tls_over_bridge dec vio tls" "net_wf (w_net w)"
  shows "net_wf (w_net w')"
proof -
  obtain w1 where 1: "rx_loop dec vio our_mac (on_net (begin_tick cfg) w) = Some w1"
    using assms(1) by (auto simp: drive_def split: bind_splits)
  define h where "h = ns_https_mode (w_net (on_net (begin_tick cfg) w))"
  have "wf_as h (on_net (begin_tick cfg) w)" using assms(3) by (simp add: wf_as_def h_def begin_tick_wf)
  from rx_loop_wf [OF 1 this] have w1: "wf_as h w1" .
  define w2 where "w2 = (if ip_config cfg = Dhcp then dhcp_tick vio our_mac w1 else w1)"
  have w2: "wf_as h w2" using w1 by (simp add: w2_def dhcp_tick_wf)
  define w3 where "w3 = on_net (\<lambda>s. s\<lparr> ns_phase := next_phase s \<rparr>) w2"
  have w3: "wf_as h w3" using w2 by (simp add: w3_def wf_as_def)
  have "net_wf (w_net (arp_tick vio our_mac w3))" using w3 by (simp add: arp_tick_def wf_as_def)
  moreover have "net_wf (w_net (dns_tick vio our_mac w3))" using dns_tick_wf [OF w3] by (simp add: wf_as_def)
  moreover have "net_wf (w_net w')" if "fetch_tick dec vio tls our_mac w3 = Some w'" using fetch_tick_wf [OF that assms(2) w3] .
  ultimately show ?thesis using assms(1) w2 w3
    unfolding drive_def 1 Let_def option.simps Option.bind.simps w2_def [symmetric] w3_def [symmetric]
    by (auto simp: wf_as_def split: if_splits)
qed

section \<open>Receiving ends\<close>

text \<open>A card that delivers finitely many frames: \<open>rank\<close> bounds what it can still deliver.\<close>

definition card_drains :: "'d nic_ops \<Rightarrow> ('d \<Rightarrow> nat) \<Rightarrow> bool" where
  "card_drains vio rank \<longleftrightarrow> (\<forall>d n buf d'. nic_poll vio d = (Some (n, buf), d') \<longrightarrow> rank d' < rank d)
     \<and> (\<forall>d d'. nic_poll vio d = (None, d') \<longrightarrow> rank d' \<le> rank d) \<and> (\<forall>f d. rank (snd (nic_transmit vio f d)) \<le> rank d)"

definition drained :: "('d \<Rightarrow> nat) \<Rightarrow> nat \<Rightarrow> ('d, 't) net_world option \<Rightarrow> bool" where
  "drained rank n r \<longleftrightarrow> (\<forall>w. r = Some w \<longrightarrow> rank (w_nic w) \<le> n)"

lemma drained_Some [simp]: "drained rank n (Some w) \<longleftrightarrow> rank (w_nic w) \<le> n"
  by (simp add: drained_def)

lemma drained_bind: "(\<And>a. m = Some a \<Longrightarrow> drained rank n (f a)) \<Longrightarrow> drained rank n (m \<bind> f)"
  by (cases m) (simp_all add: drained_def)

lemma w_nic_on_net [simp]: "w_nic (on_net f w) = w_nic w"
  by (simp add: on_net_def)

lemma drained_send: "card_drains vio rank \<Longrightarrow> rank (w_nic (snd (snd (send vio build w)))) \<le> rank (w_nic w)"
  by (simp add: send_def Let_def split_beta card_drains_def)

lemma drained_send_ignore: "card_drains vio rank \<Longrightarrow> rank (w_nic (send_ignore vio build w)) \<le> rank (w_nic w)"
  using drained_send [of vio rank build w] by (simp add: send_ignore_def split_beta)

lemma drained_ack: "card_drains vio rank \<Longrightarrow> rank (w_nic (send_ack vio our_mac sip w)) \<le> rank (w_nic w)"
  using drained_send_ignore [of vio rank _ "on_net (\<lambda>s. s\<lparr> ns_ip_id := ns_ip_id s + 1 \<rparr>) w"] by (simp add: send_ack_def Let_def)

lemma drained_syn_ack:
  assumes "card_drains vio rank"
  shows "rank (w_nic (handle_syn_ack vio seq sip our_mac w)) \<le> rank (w_nic w)"
proof -
  have "rank (w_nic (snd (snd (send vio b (on_net f (on_net g w)))))) \<le> rank (w_nic w)" for b f g
    using drained_send [OF assms, of b "on_net f (on_net g w)"] by simp
  moreover have "rank (w_nic (send_ack vio our_mac sip (on_net g w))) \<le> rank (w_nic w)" for g
    using drained_ack [OF assms, of our_mac sip "on_net g w"] by simp
  ultimately show ?thesis by (simp add: handle_syn_ack_def Let_def split_beta split: option.split)
qed

lemma drained_data:
  assumes "card_drains vio rank"
  shows "rank (w_nic (handle_data dec vio pay seq fin sip our_mac w)) \<le> rank (w_nic w)"
proof -
  have a: "rank (w_nic (send_ack vio our_mac sip (on_net g ((on_net f w)\<lparr> w_net := s \<rparr>)))) \<le> rank (w_nic w)" for f g s
    using drained_ack [OF assms, of our_mac sip "on_net g ((on_net f w)\<lparr> w_net := s \<rparr>)"] by simp
  show ?thesis unfolding handle_data_def Let_def split_beta by (simp add: a)
qed

lemma drained_rx:
  assumes "card_drains vio rank"
  shows "drained rank (rank (w_nic w)) (handle_rx dec vio frame our_mac w)"
proof -
  have "rank (w_nic (send_ack vio our_mac sip (on_net g w))) \<le> rank (w_nic w)" for g sip
    using drained_ack [OF assms, of our_mac sip "on_net g w"] by simp
  then have tcp: "drained rank (rank (w_nic w)) (handle_tcp_rx dec vio frame sip ihl our_mac w)" for sip ihl
    by (auto simp: handle_tcp_rx_def Let_def drained_syn_ack [OF assms] drained_data [OF assms] intro!: drained_bind)
  have udp: "drained rank (rank (w_nic w)) (handle_udp_rx frame sip ihl w)" for sip ihl
    by (auto simp: handle_udp_rx_def Let_def intro!: drained_bind split: option.split)
  have "rank (w_nic (dhcp_send_request vio our_mac (on_net g w))) \<le> rank (w_nic w)" for g
    using drained_send_ignore [OF assms, of _ "on_net g w"] by (simp add: dhcp_send_request_def)
  then have dhcp: "drained rank (rank (w_nic w)) (handle_dhcp_reply vio bootp our_mac w)" for bootp
    by (auto simp: handle_dhcp_reply_def intro!: drained_bind split: dhcp_phase.split option.split)
  show ?thesis by (auto simp: handle_rx_def Let_def tcp udp dhcp intro!: drained_bind)
qed

lemma rx_loop_returns:
  assumes "card_drains vio rank" "wf_as h w"
  shows "\<exists>w'. rx_loop dec vio our_mac w = Some w'"
  using assms(2)
proof (induction "rank (w_nic w)" arbitrary: w rule: less_induct)
  case less
  obtain p d where p: "nic_poll vio (w_nic w) = (p, d)" by fastforce
  show ?case
  proof (cases "\<exists>n buf. p = Some (n, buf) \<and> n \<le> 2048")
    case True
    then obtain n buf where n: "p = Some (n, buf)" "n \<le> 2048" by blast
    let ?w = "w\<lparr> w_nic := d \<rparr>"
    obtain w1 where w1: "handle_rx dec vio (take n buf) our_mac ?w = Some w1" "net_wf (w_net w1)"
      using handle_rx_returns [of ?w "take n buf" dec vio our_mac] less.prems n by (auto simp: wf_as_def min_le_iff_disj)
    have "wf_as h w1" using w1 https_rx [of ?w dec vio "take n buf" our_mac] less.prems by (simp add: wf_as_def)
    moreover have "rank (w_nic w1) < rank (w_nic w)"
      using drained_rx [OF assms(1), of ?w dec "take n buf" our_mac] w1 assms(1) p n by (auto simp: card_drains_def intro: le_less_trans)
    ultimately obtain w' where "rx_loop dec vio our_mac w1 = Some w'" using less.hyps by blast
    then show ?thesis using p n w1 by (subst rx_loop.simps) simp
  next
    case False
    then show ?thesis using p by (subst rx_loop.simps) (auto split: option.split)
  qed
qed

text \<open>
  The states of the stack: it starts as \<open>static_initial\<close> and changes by seeding from the card's address,
  by a fetch the user starts or aborts, and by the main loop, with settings that may change between steps.
\<close>

inductive net_reach :: "decoders \<Rightarrow> 'd nic_ops \<Rightarrow> ('d, 't) tls_ops \<Rightarrow> mac \<Rightarrow> ('d, 't) net_world \<Rightarrow> bool"
  for dec vio tls our_mac where
  boot: "w_net w = static_initial \<Longrightarrow> net_reach dec vio tls our_mac w"
| seed: "net_reach dec vio tls our_mac w \<Longrightarrow> net_reach dec vio tls our_mac (on_net (seed_from_mac our_mac) w)"
| go: "net_reach dec vio tls our_mac w \<Longrightarrow> net_reach dec vio tls our_mac (on_net (start_fetch url) w)"
| abort: "net_reach dec vio tls our_mac w \<Longrightarrow> net_reach dec vio tls our_mac (on_net reset_demo w)"
| step: "net_reach dec vio tls our_mac w \<Longrightarrow> drive dec vio tls our_mac cfg w = Some w' \<Longrightarrow> net_reach dec vio tls our_mac w'"

text \<open>
  C12. The invariant of the network stack: in every state the kernel reaches, by any fetches, any received
  frames, any changes of the settings and any card, decoders and TLS library that acts through its
  bridge, every buffer is within its array, an armed fetch is not done and is either waiting for
  DNS or resolved, a TLS connection is live exactly after its handshake and only for HTTPS, and
  the chunk decoder is in a phase it can leave.
\<close>

theorem net_reach_wf:
  assumes "net_reach dec vio tls our_mac w" "tls_over_bridge dec vio tls"
  shows "net_wf (w_net w)"
  using assms
proof (induction rule: net_reach.induct)
  case (step w cfg w')
  then show ?case by (blast intro: drive_wf)
qed (simp_all add: net_wf_intros)

text \<open>TLS with no cipher, over the bridge.\<close>

definition plain_tls :: "decoders \<Rightarrow> 'd nic_ops \<Rightarrow> ('d, unit) tls_ops" where
  "plain_tls dec vio = \<lparr>
     tls_open = (\<lambda>_ _ _ w. (Some (), w)),
     tls_write_all = (\<lambda>data w. (isl (fst (bridge_write data (w_net w))) = False, w\<lparr> w_net := snd (bridge_write data (w_net w)) \<rparr>)),
     tls_flush = (\<lambda>w. (True, w\<lparr> w_net := snd (bridge_flush (w_net w)) \<rparr>)),
     tls_read = (\<lambda>room w. case bridge_read dec vio room 2000000 w of Some (r, w') \<Rightarrow> (r, w') | None \<Rightarrow> (Inl (), w)) \<rparr>"

lemma plain_tls_bridge: "tls_over_bridge dec vio (plain_tls dec vio)"
  by (auto simp: tls_over_bridge_def plain_tls_def intro: bridge_steps.intros split: option.split)

lemma begin_tick_https: "ns_https_mode (begin_tick cfg s) \<Longrightarrow> ns_https_mode s"
  by (auto simp: begin_tick_def sync_ip_from_settings_def reset_demo_def clear_fetch_inner_def clear_tls_poll_def Let_def split: if_splits)

lemma fetch_tick_returns: "wf_as False w \<Longrightarrow> \<exists>w'. fetch_tick dec vio tls our_mac w = Some w'"
  using syn_tick_wf [of False w vio our_mac] by (auto simp: fetch_tick_def Let_def wf_as_def)

lemma drive_plain_returns:
  assumes "card_drains vio rank" "net_wf (w_net w)" "\<not> ns_https_mode (w_net w)"
  shows "\<exists>w'. drive dec vio tls our_mac cfg w = Some w' \<and> net_wf (w_net w')"
proof -
  have "wf_as False (on_net (begin_tick cfg) w)" using assms begin_tick_https by (auto simp: wf_as_def begin_tick_wf)
  with rx_loop_returns [OF assms(1)] rx_loop_wf obtain w1
    where 1: "rx_loop dec vio our_mac (on_net (begin_tick cfg) w) = Some w1" and w1: "wf_as False w1" by metis
  define w2 where "w2 = (if ip_config cfg = Dhcp then dhcp_tick vio our_mac w1 else w1)"
  have w2: "wf_as False w2" using w1 by (simp add: w2_def dhcp_tick_wf)
  define w3 where "w3 = on_net (\<lambda>s. s\<lparr> ns_phase := next_phase s \<rparr>) w2"
  have w3: "wf_as False w3" using w2 by (simp add: w3_def wf_as_def)
  obtain w4 where 4: "fetch_tick dec vio tls our_mac w3 = Some w4" using fetch_tick_returns [OF w3] by blast
  have "wf_as False w4" if "fetch_tick dec vio tls our_mac w3 = Some w4" using that w3 syn_tick_wf [OF w3, of vio our_mac]
    by (auto simp: fetch_tick_def Let_def wf_as_def net_wf_intros split: if_splits)
  with 4 have "net_wf (w_net w4)" by (simp add: wf_as_def)
  moreover have "net_wf (w_net (arp_tick vio our_mac w3))" using w3 by (simp add: arp_tick_def wf_as_def)
  moreover have "net_wf (w_net (dns_tick vio our_mac w3))" using dns_tick_wf [OF w3] by (simp add: wf_as_def)
  ultimately show ?thesis using 4 w2 w3
    unfolding drive_def 1 Let_def option.simps Option.bind.simps w2_def [symmetric] w3_def [symmetric]
    by (auto simp: wf_as_def)
qed

lemma wire_nic_drains: "card_drains wire_nic (\<lambda>(inbox, sent). length inbox)"
  by (auto simp: card_drains_def wire_nic_def split: list.splits)

text \<open>
  C14. A step of the main loop returns: with a card that delivers finitely many frames, from every state that
  satisfies the invariant, \<open>drive\<close> on a fetch that is not an HTTPS fetch ends without a panic, whatever
  the frames contain.
\<close>

theorem drive_returns:
  assumes "card_drains vio rank" "net_wf (w_net w)" "\<not> ns_https_mode (w_net w)"
  shows "\<exists>w'. drive dec vio tls our_mac cfg w = Some w' \<and> net_wf (w_net w')"
  by (rule drive_plain_returns [OF assms])

theorem drive_returns_witness:
  "\<exists>w'. drive no_decoders wire_nic (plain_tls no_decoders wire_nic) (MAC 2 0 0 0 0 1) device_settings_new
     (on_net (start_fetch (ascii ''http://10.0.2.2/'')) (boot_world [replicate 60 0x45])) = Some w' \<and> net_wf (w_net w')"
  by (rule drive_returns [OF wire_nic_drains])
    (simp_all add: boot_world_def start_fetch_wf static_initial_wf sample_fetch)

theorem net_reach_wf_witness:
  "net_wf (w_net (the (drive no_decoders wire_nic (plain_tls no_decoders wire_nic) (MAC 2 0 0 0 0 1) device_settings_new
     (on_net (start_fetch (ascii ''http://10.0.2.2/'')) (boot_world [replicate 60 0x45])))))"
proof -
  let ?tls = "plain_tls no_decoders wire_nic" and ?m = "MAC 2 0 0 0 0 1"
  let ?w = "on_net (start_fetch (ascii ''http://10.0.2.2/'')) (boot_world [replicate 60 0x45])"
  have r: "net_reach no_decoders wire_nic ?tls ?m ?w" by (intro net_reach.go net_reach.boot) (simp add: boot_world_def)
  obtain w' where w': "drive no_decoders wire_nic ?tls ?m device_settings_new ?w = Some w'"
    using drive_plain_returns [OF wire_nic_drains, of ?w no_decoders ?tls ?m device_settings_new]
    by (auto simp: boot_world_def start_fetch_wf static_initial_wf sample_fetch)
  from net_reach_wf [OF net_reach.step [OF r w'] plain_tls_bridge] w' show ?thesis by simp
qed

end
