(* ===== verification/Eve_Main_Inv.thy ===== *)
theory Eve_Main_Inv
  imports Eve_Main Eve_Ui_Inv Eve_Html_Doc Eve_Net_Reach
begin

text \<open>
  The invariant of the whole kernel: the invariants of the interface, of the network stack and of the
  browser's buffers together. Every part of a round of the main loop keeps it and none panics under it, on x86 and on
  ARM; the only operation that can fail to return is the step of the network stack.
\<close>

section \<open>The invariant\<close>

definition info_ok :: "frame_buffer_info \<Rightarrow> bool" where
  "info_ok info \<longleftrightarrow> 0 < fb_width info \<and> fb_width info < 2 ^ 31 \<and> 0 < fb_height info \<and> fb_height info < 2 ^ 31"

definition kernel_ok :: "frame_buffer_info \<Rightarrow> ('d, 't) kernel \<Rightarrow> bool" where
  "kernel_ok info k \<longleftrightarrow> ui_ok info (k_ui k) \<and> net_wf (k_net k) \<and> browser_ok (k_html k)"

named_theorems kernel_simps \<open>what an update of one part leaves of the others\<close>

lemma on_ui_parts [kernel_simps]:
  "k_ui (on_ui f k) = f (k_ui k)" "k_world (on_ui f k) = k_world k" "k_html (on_ui f k) = k_html k"
  "k_nic_present (on_ui f k) = k_nic_present k" "boot_home_fetch_pending (on_ui f k) = boot_home_fetch_pending k"
  by (simp_all add: on_ui_def)

lemma on_stack_parts [kernel_simps]:
  "k_ui (on_stack g k) = k_ui k" "k_net (on_stack g k) = g (k_net k)" "k_html (on_stack g k) = k_html k"
  "k_nic_present (on_stack g k) = k_nic_present k"
  by (simp_all add: on_stack_def on_net_def)

lemma on_log_parts [kernel_simps]:
  "k_ui (on_log h k) = k_ui k" "k_net (on_log h k) = (k_net k)\<lparr> ns_log := h (ns_log (k_net k)) \<rparr>" "k_html (on_log h k) = k_html k"
  by (simp_all add: on_log_def kernel_simps)

lemma net_wf_log [simp]: "net_wf (s\<lparr> ns_log := l \<rparr>) = net_wf s"
  by (simp add: net_wf_defs)

lemma kernel_ok_parts:
  "kernel_ok info (k\<lparr> k_ui := st \<rparr>) \<longleftrightarrow> ui_ok info st \<and> net_wf (k_net k) \<and> browser_ok (k_html k)"
  "kernel_ok info (on_ui f k) \<longleftrightarrow> ui_ok info (f (k_ui k)) \<and> net_wf (k_net k) \<and> browser_ok (k_html k)"
  "kernel_ok info (on_log h k) = kernel_ok info k"
  "kernel_ok info (k\<lparr> boot_home_fetch_pending := b \<rparr>) = kernel_ok info k"
  by (simp_all add: kernel_ok_def kernel_simps)

lemma kernel_ok_ui: "kernel_ok info k \<Longrightarrow> ui_ok info (f (k_ui k)) \<Longrightarrow> kernel_ok info (on_ui f k)"
  by (simp add: kernel_ok_def kernel_simps)

section \<open>Text entry\<close>

lemma settings_sized_numbers [simp]:
  "settings_sized (s\<lparr> display_pref_width := a \<rparr>) = settings_sized s"
  "settings_sized (s\<lparr> display_pref_height := a \<rparr>) = settings_sized s"
  "settings_sized (s\<lparr> static_ip := b \<rparr>) = settings_sized s"
  "settings_sized (s\<lparr> static_gw := b \<rparr>) = settings_sized s"
  "settings_sized (s\<lparr> static_dns := b \<rparr>) = settings_sized s"
  by (simp_all add: settings_sized_def)

lemma settings_key_ok:
  assumes "settings_key foc sel ch s = Some s'" "settings_sized s"
  shows "settings_sized s'"
proof (cases foc)
  case HomeUrl
  have "unat (home_url_len s) \<le> 120" using assms(2) by (simp add: settings_sized_def word_le_nat_alt)
  moreover from this have "0 < unat (home_url_len s) \<Longrightarrow> unat (home_url_len s - 1) \<le> 120"
      "unat (home_url_len s) < 120 \<Longrightarrow> unat (1 + home_url_len s) \<le> 120"
    by (simp_all add: unat_minus_one unat_gt_0 unat_word_ariths)
  ultimately show ?thesis using assms HomeUrl
    by (auto simp: settings_key_def Let_def settings_sized_def word_le_nat_alt unat_of_nat_small split: if_splits)
qed (use assms in \<open>auto simp: settings_key_def settings_sized_def split: if_splits\<close>)

lemma settings_text_key_ok: "ui_ok info st \<Longrightarrow> ui_ok info (snd (settings_text_key ch st))"
  by (auto simp: settings_text_key_def ui_ok_settings settings_key_ok ui_ok_fields(3) split: option.split)

lemma url_key_ok: "ui_ok info st \<Longrightarrow> ui_ok info (url_key ch st)"
  using ui_ok_url [of info st "url st" "url_len st - 1"] ui_ok_url [of info st "(url st)[url_len st := ch]" "url_len st + 1"]
    ui_ok_fields [of info st]
  by (auto simp: url_key_def)

section \<open>Starting a fetch\<close>

lemma ui_ok_page [simp]:
  "n \<le> 128 \<Longrightarrow> ui_ok info st \<Longrightarrow> ui_ok info (st\<lparr> browser_line_count := n \<rparr>)"
  by (simp add: ui_ok_def history_ok_def cursors_ok_def wifi_ok_def)

lemma ui_ok_err:
  "ui_ok info st \<Longrightarrow> length e = 80 \<Longrightarrow> n \<le> 80 \<Longrightarrow> ui_ok info (st\<lparr> fetch_err := e, fetch_err_len := n \<rparr>)"
  by (simp add: ui_ok_def history_ok_def cursors_ok_def wifi_ok_def)

text \<open>The fields of the browser panel.\<close>

lemma ui_ok_panel:
  assumes "ui_ok info st" "ui_core st' = ui_core (st\<lparr> browser_line_count := browser_line_count st', fetch_err := fetch_err st',
      fetch_err_len := fetch_err_len st' \<rparr>)"
    "browser_line_count st' \<le> 128" "length (fetch_err st') = 80" "fetch_err_len st' \<le> 80"
  shows "ui_ok info st'"
  using ui_ok_core [OF assms(2), of info] ui_ok_err [OF ui_ok_page [OF assms(3,1)] assms(4,5)] by simp

lemma show_message_ok: "ui_ok info st \<Longrightarrow> ui_ok info (show_message msg st)"
  by (rule ui_ok_panel [of info st]) (simp_all add: show_message_def ui_core_def Let_def ui_ok_fields(7))

lemma ui_err_len: "ui_ok info st \<Longrightarrow> fetch_err_len st \<le> 80"
  by (simp add: ui_ok_def)

lemma offline_page_ok:
  assumes "kernel_ok info k"
  shows "\<exists>k'. offline_page k = Some k' \<and> kernel_ok info k'"
proof -
  have ok: "ui_ok info (k_ui k)" "net_wf (k_net k)" "browser_ok (k_html k)" using assms by (simp_all add: kernel_ok_def)
  obtain g n trunc sc where f: "format_document OFFLINE_PAGE (text_colour (k_ui k)) (k_html k) = Some (g, n, trunc, sc)"
      "n \<le> 128" "browser_ok g"
    using format_document_ok [OF ok(3)] by blast
  have "ui_ok info ((k_ui k)\<lparr> browser_line_count := n, fetch_err_len := 0, page_truncated := trunc,
      last_rendered_raw_len := Some (length OFFLINE_PAGE), page_scroll_line := 0, browser_body_dirty := True, status_dirty := True \<rparr>)"
    using f(2) ok(1) by (intro ui_ok_panel [OF ok(1)]) (simp_all add: ui_core_def ui_ok_fields(7))
  then show ?thesis using f ok by (simp add: offline_page_def kernel_ok_def kernel_simps)
qed

lemma start_browser_fetch_ok:
  assumes "kernel_ok info k"
  shows "\<exists>k'. start_browser_fetch inet_on k = Some k' \<and> kernel_ok info k'"
proof -
  have ok: "ui_ok info (k_ui k)" "net_wf (k_net k)" "browser_ok (k_html k)" using assms by (simp_all add: kernel_ok_def)
  obtain st where st: "(if history_skip_push (k_ui k) then Some ((k_ui k)\<lparr> history_skip_push := False \<rparr>)
      else history_push_current (k_ui k)) = Some st" "ui_ok info st"
    using history_push_ok [OF ok(1)] ok(1) by (cases "history_skip_push (k_ui k)") auto
  have k: "kernel_ok info (k\<lparr> k_ui := st \<rparr>)" using st(2) ok by (simp add: kernel_ok_parts)
  have len: "\<not> length (url st) < url_len st" using ui_ok_fields [OF st(2)] by simp
  have hl: "\<not> (url_len st = unat (home_url_len (settings st))
      \<and> (length (url st) < url_len st \<or> length (home_url (settings st)) < url_len st))"
    using len ui_ok_fields(3) [OF st(2)] by (auto simp: settings_sized_def word_le_nat_alt)
  have off: "kernel_ok info (on_ui (show_message m) (k\<lparr> k_ui := st \<rparr>))" for m
    using k by (simp add: kernel_ok_parts show_message_ok st(2))
  have on: "kernel_ok info (on_ui (\<lambda>st. st\<lparr> browser_line_count := 0, last_rendered_raw_len := None, page_scroll_line := 0,
      browser_body_dirty := True, status_dirty := True \<rparr>) (on_stack (start_fetch u) (k\<lparr> k_ui := st \<rparr>)))" for u
  proof -
    have "ui_ok info (st\<lparr> browser_line_count := 0, last_rendered_raw_len := None, page_scroll_line := 0,
        browser_body_dirty := True, status_dirty := True \<rparr>)"
      using st(2) by (intro ui_ok_panel [OF st(2)]) (simp_all add: ui_core_def ui_ok_fields(7) ui_err_len)
    then show ?thesis using ok by (simp add: kernel_ok_def kernel_simps start_fetch_wf)
  qed
  show ?thesis unfolding start_browser_fetch_def st(1) Option.bind.simps Let_def if_not_P [OF len] if_not_P [OF hl]
    using k off on offline_page_ok [OF k] by simp
qed

section \<open>Keys\<close>

lemma notice_key_ok: "ui_ok info st \<Longrightarrow> ui_ok info (notice_key ch st)"
  by (simp add: notice_key_def)

lemma typed_key_ok:
  assumes "kernel_ok info k"
  shows "\<exists>k'. typed_key inet_on och k = Some k' \<and> kernel_ok info k'"
proof (cases och)
  case (Some ch)
  obtain used st where st: "settings_text_key ch (k_ui k) = (used, st)" by (cases "settings_text_key ch (k_ui k)")
  have "ui_ok info (k_ui k)" using assms by (simp add: kernel_ok_def)
  with settings_text_key_ok [of info "k_ui k" ch] st url_key_ok have "ui_ok info st" "ui_ok info (url_key ch (k_ui k))" by auto
  then show ?thesis using Some st assms start_browser_fetch_ok [OF assms, of inet_on]
    by (cases "screen (k_ui k)") (simp_all add: typed_key_def kernel_ok_def kernel_simps)
qed (use assms in \<open>simp add: typed_key_def\<close>)

lemma ui_ok_keys:
  assumes "ui_ok info st"
  shows "ui_ok info (show_screen scr st)" "ui_ok info (show_browser st)" "ui_ok info (midi_key st)"
    "ui_ok info (toggle_fullpage st)" "ui_ok info (toggle_log_subtab st)"
proof -
  have "ui_ok info (st\<lparr> screen := Browser, settings_text_focus := NoFocus \<rparr>)"
    "ui_ok info (st\<lparr> bios_fullpage_browser := b \<rparr>)" for b
    using assms by (simp_all add: ui_ok_def history_ok_def cursors_ok_def wifi_ok_def)
  then show "ui_ok info (show_browser st)" "ui_ok info (toggle_fullpage st)"
    by (simp_all add: show_browser_def toggle_fullpage_def)
  have "settings_sized (toggle_midi_channel (settings st))"
    using ui_ok_fields(3) [OF assms] by (auto simp: toggle_midi_channel_def settings_sized_def word_le_nat_alt unat_word_ariths)
  then show "ui_ok info (midi_key st)" using assms by (simp add: midi_key_def ui_ok_on_settings)
qed (use assms in \<open>simp_all add: show_screen_def toggle_log_subtab_def\<close>)

lemma kernel_ok_keys:
  assumes "kernel_ok info k"
  shows "kernel_ok info (on_ui (show_screen scr) k)" "kernel_ok info (on_ui show_browser k)" "kernel_ok info (on_ui midi_key k)"
    "kernel_ok info (on_ui toggle_fullpage k)" "kernel_ok info (on_ui toggle_log_subtab k)" "kernel_ok info (on_ui (notice_key ch) k)"
  using assms by (simp_all add: kernel_ok_def kernel_simps ui_ok_keys notice_key_ok)

lemma ps2_key_ok:
  assumes "kernel_ok info k"
  shows "\<exists>k'. ps2_key inet_on paired ignored code shift k = Some k' \<and> kernel_ok info k'"
  using assms kernel_ok_keys [OF assms] typed_key_ok [OF assms] by (simp add: ps2_key_def Let_def)

section \<open>Scrolling\<close>

lemma ui_ok_scrolls [simp]:
  "ui_ok info (st\<lparr> page_scroll_line := n \<rparr>) = ui_ok info st"
  "ui_ok info (st\<lparr> browser_body_dirty := c \<rparr>) = ui_ok info st"
  "ui_ok info (st\<lparr> log_scroll_line := n \<rparr>) = ui_ok info st"
  "ui_ok info (st\<lparr> log_stick_to_bottom := c \<rparr>) = ui_ok info st"
  "ui_ok info (st\<lparr> settings_scroll_px := n \<rparr>) = ui_ok info st"
  "ui_ok info (st\<lparr> disk_install_scroll_px := n \<rparr>) = ui_ok info st"
  by (rule ui_ok_core, simp add: ui_core_def)+

lemma ui_ok_scroll_pairs [simp]:
  "ui_ok info (st\<lparr> log_stick_to_bottom := c, log_scroll_line := n \<rparr>) = ui_ok info st"
  "ui_ok info (st\<lparr> page_scroll_line := n, browser_body_dirty := c \<rparr>) = ui_ok info st"
  by (rule ui_ok_core, simp add: ui_core_def)+

lemma scroll_panel_ok [simp]: "ui_ok info (scroll_panel info' log f a b c st) = ui_ok info st"
  by (cases "screen st")
    (simp_all add: scroll_panel_def Let_def browser_scroll_def browser_clamp_scroll_def log_scroll_by_wheel_def
      settings_scroll_by_wheel_def disk_install_scroll_by_wheel_def)

lemma usb_key_ok:
  assumes "kernel_ok info k"
  shows "\<exists>k'. usb_key info inet_on paired usage shift k = Some k' \<and> kernel_ok info k'"
proof -
  have "kernel_ok info (usb_page_key info dir k)" for dir using assms by (simp add: usb_page_key_def kernel_ok_def kernel_simps)
  then show ?thesis using assms kernel_ok_keys [OF assms] typed_key_ok [OF assms] by (simp add: usb_key_def Let_def)
qed

section \<open>Pointers and clicks\<close>

lemma fold_option_ok:
  assumes "\<And>x s. x \<in> set xs \<Longrightarrow> P s \<Longrightarrow> \<exists>s'. f x s = Some s' \<and> P s'" "P s"
  shows "\<exists>s'. fold_option f xs s = Some s' \<and> P s'"
  using assms
proof (induction xs arbitrary: s)
  case (Cons x xs)
  then obtain s1 where "f x s = Some s1" "P s1" by (metis list.set_intros(1))
  with Cons show ?case by simp
qed simp

lemma info_ok_extent: "info_ok info \<Longrightarrow> fb_w info = int (fb_width info)" "info_ok info \<Longrightarrow> fb_h info = int (fb_height info)"
  by (simp_all add: info_ok_def fb_w_def fb_h_def i32_of_small)

text \<open>The pointers: positions on the screen and arrays of their size are enough.\<close>

lemma ui_ok_cursors:
  assumes "ui_ok info st" "cursors_ok info st'"
    "ui_core st' = ui_core (st\<lparr> cursor_x := cursor_x st', cursor_y := cursor_y st', cursor_active := cursor_active st',
       cursor_btn := cursor_btn st', prev_cursor_btn := prev_cursor_btn st' \<rparr>)"
  shows "ui_ok info st'"
proof -
  have "ui_ok info (st\<lparr> cursor_x := cursor_x st', cursor_y := cursor_y st', cursor_active := cursor_active st',
       cursor_btn := cursor_btn st', prev_cursor_btn := prev_cursor_btn st' \<rparr>)"
    using assms(1,2) by (simp add: ui_ok_def history_ok_def cursors_ok_def wifi_ok_def)
  then show ?thesis using ui_ok_core [OF assms(3)] by blast
qed

lemma clamp_on_screen: "0 < n \<Longrightarrow> 0 \<le> clamp 0 (int n - 1) x \<and> clamp 0 (int n - 1) x < int n"
  using clamp_bounds [of 0 "int n - 1" x] by auto

lemma move_cursor_ok:
  assumes "ui_ok info st" "info_ok info" "s < 12"
  shows "\<exists>st'. move_cursor info s buttons dx dy st = Some st' \<and> ui_ok info st'"
proof -
  have c: "cursors_ok info st" by (rule ui_ok_fields(5) [OF assms(1)])
  define st' where "st' = st\<lparr> cursor_btn := (cursor_btn st)[s := buttons],
    cursor_x := (cursor_x st)[s := clamp 0 (fb_w info - 1) (i32_of (cursor_x st ! s + sint dx))],
    cursor_y := (cursor_y st)[s := clamp 0 (fb_h info - 1) (i32_of (cursor_y st ! s + sint dy))] \<rparr>"
  have "move_cursor info s buttons dx dy st = Some st'"
    using assms(2,3) c by (simp add: move_cursor_def st'_def info_ok_extent info_ok_def cursors_ok_def)
  moreover have "cursors_ok info st'"
    using c assms(2) clamp_on_screen [of "fb_width info"] clamp_on_screen [of "fb_height info"]
    by (simp add: cursors_ok_def st'_def info_ok_extent info_ok_def list_all_update_at)
  then have "ui_ok info st'" by (rule ui_ok_cursors [OF assms(1)]) (simp add: st'_def ui_core_def)
  ultimately show ?thesis by blast
qed

lemma activate_ok: "ui_ok info st \<Longrightarrow> ui_ok info (activate_cursors n st)"
  by (rule ui_ok_cursors, assumption) (auto simp: activate_cursors_def cursors_ok_def ui_core_def dest: ui_ok_fields(5))

lemma ps2_event_ok:
  assumes "kernel_ok info k" "info_ok info" "\<And>s. place = Some s \<Longrightarrow> s < 12"
  shows "\<exists>k'. ps2_event_step info inet_on paired ignored place ev k = Some k' \<and> kernel_ok info k'"
proof (cases ev)
  case (Mouse b dx dy)
  then show ?thesis using assms move_cursor_ok [of info "k_ui k" "the place" b dx dy]
    by (cases place) (auto simp: kernel_ok_def)
next
  case (BrowserScroll n)
  then show ?thesis using assms(1) by (simp add: ps2_scroll_def kernel_ok_def kernel_simps)
qed (use ps2_key_ok [OF assms(1)] in simp)

lemma read_input_ok:
  assumes "kernel_ok info k" "info_ok info"
  shows "\<exists>k'. read_input info inet_on paired inp k = Some k' \<and> kernel_ok info k'"
proof -
  define n where "n = usb_pointers inp (k_ui k)"
  have ka: "kernel_ok info (on_ui (activate_cursors n) k)" using assms(1) by (simp add: kernel_ok_def kernel_simps activate_ok)
  have place: "s < 12" if "ps2_mouse_slot n = Some s" for s using that by (auto simp: ps2_mouse_slot_def split: if_splits)
  obtain k1 where k1: "fold_option (ps2_event_step info inet_on paired (ps2_kbd_ignored inp) (ps2_mouse_slot n)) (ps2_events inp)
      (on_ui (activate_cursors n) k) = Some k1" "kernel_ok info k1"
    using fold_option_ok [where P = "kernel_ok info" and xs = "ps2_events inp", OF _ ka]
      ps2_event_ok [OF _ assms(2) place] by blast
  have "\<exists>st'. usb_mouse_step info inp n i st = Some st' \<and> ui_ok info st'" if "i \<in> set [0..<min (usb_mouse_count inp) 12]" "ui_ok info st" for i st
    using that move_cursor_ok [OF that(2) assms(2), of i] by (auto simp: usb_mouse_step_def split: option.splits)
  then obtain st where st: "fold_option (usb_mouse_step info inp n) [0..<min (usb_mouse_count inp) 12] (k_ui k1) = Some st" "ui_ok info st"
    using fold_option_ok [where P = "ui_ok info" and f = "usb_mouse_step info inp n" and xs = "[0..<min (usb_mouse_count inp) 12]"
        and s = "k_ui k1"] k1(2) by (auto simp: kernel_ok_def)
  then have k2: "kernel_ok info (k1\<lparr> k_ui := st \<rparr>)" using k1(2) by (simp add: kernel_ok_def)
  have key: "\<exists>k'. (case p of (usage, shift) \<Rightarrow> usb_key info inet_on paired usage shift) k2 = Some k' \<and> kernel_ok info k'"
    if "kernel_ok info k2" for p and k2 :: "('a, 'b) kernel"
    using usb_key_ok [OF that] by (simp split: prod.split)
  obtain k3 where "fold_option (\<lambda>(usage, shift). usb_key info inet_on paired usage shift) (usb_key_presses inp)
      (k1\<lparr> k_ui := st \<rparr>) = Some k3" "kernel_ok info k3"
    using fold_option_ok [where P = "kernel_ok info" and xs = "usb_key_presses inp"
        and f = "\<lambda>(usage, shift). usb_key info inet_on paired usage shift", OF key k2] by blast
  then show ?thesis using k1 k2 st unfolding read_input_def Let_def n_def [symmetric] by simp
qed

lemma settle_ok: "ui_ok info st \<Longrightarrow> ui_ok info (settle_pointers st)"
  by (rule ui_ok_cursors, assumption)
    (auto simp: settle_pointers_def cursors_ok_def ui_core_def Let_def dest: ui_ok_fields(5))

lemma handle_clicks_ok:
  assumes "ui_ok info st" "info_ok info"
  shows "\<exists>st'. handle_clicks info st = Some st' \<and> ui_ok info st'"
proof -
  have step: "\<exists>s'. click_step info i s = Some s' \<and> ui_ok info (snd s')" if "ui_ok info (snd s)" for i s
  proof (cases s)
    case (Pair dirty st)
    let ?px = "nat (clamp 0 (fb_w info - 1) (cursor_x st ! i))" and ?py = "nat (clamp 0 (fb_h info - 1) (cursor_y st ! i))"
    obtain hit st' where "handle_click_at info ?px ?py st = Some (hit, st')" "ui_ok info st'"
      using click_ok [of info st] \<open>ui_ok info (snd s)\<close> Pair by (metis snd_conv)
    then show ?thesis using Pair that assms(2) by (simp add: click_step_def info_ok_extent info_ok_def)
  qed
  obtain dirty st1 where st1: "fold_option (click_step info) [0..<12] (False, settle_pointers st) = Some (dirty, st1)" "ui_ok info st1"
    using fold_option_ok [where P = "\<lambda>s. ui_ok info (snd s)" and f = "click_step info" and xs = "[0..<12]", OF step]
      settle_ok [OF assms(1)] by (metis snd_conv surj_pair)
  have keep: "ui_ok info (s\<lparr> prev_cursor_btn := cursor_btn s \<rparr>)" if "ui_ok info s" for s
    by (rule ui_ok_cursors [OF that]) (use ui_ok_fields(5) [OF that] in \<open>simp_all add: cursors_ok_def ui_core_def\<close>)
  show ?thesis using st1 keep unfolding handle_clicks_def by (simp add: Let_def)
qed

section \<open>Requests, network and status\<close>

lemma power_ok:
  assumes "kernel_ok info k"
  shows "power_requests k = Go_on k' \<Longrightarrow> kernel_ok info k'"
  using assms by (auto simp: power_requests_def Let_def kernel_ok_def kernel_simps split: if_splits prod.splits)

lemma reload_ok:
  assumes "kernel_ok info k"
  shows "\<exists>k'. reload_request inet_on nic_mac k = Some k' \<and> kernel_ok info k'"
proof -
  define k0 where "k0 = on_ui (\<lambda>st. st\<lparr> inet_reload_request := False \<rparr>) k"
  have flag: "ui_ok info (st\<lparr> inet_reload_request := b \<rparr>) = ui_ok info st" "ui_ok info (st\<lparr> status_dirty := b \<rparr>) = ui_ok info st" for st b
    by (rule ui_ok_core, simp add: ui_core_def)+
  have k0: "kernel_ok info k0" using assms by (simp add: k0_def kernel_ok_def kernel_simps flag)
  have blank: "ui_ok info (st\<lparr> browser_line_count := 0, last_rendered_raw_len := None, last_inet_page_gen := 0,
      fetch_err_len := 0, page_truncated := False, browser_body_dirty := True \<rparr>)" if "ui_ok info st" for st
    by (rule ui_ok_panel [OF that]) (use that in \<open>simp_all add: ui_core_def ui_ok_fields(7)\<close>)
  have keep: "kernel_ok info (on_ui (\<lambda>st. st\<lparr> status_dirty := True \<rparr>) k')" if "kernel_ok info k'" for k' :: "('a, 'b) kernel"
    using that by (simp add: kernel_ok_def kernel_simps flag)
  obtain k1 where "(if 0 < url_len (k_ui k0) then start_browser_fetch inet_on k0
      else Some (on_ui (\<lambda>st. st\<lparr> browser_line_count := 0, last_rendered_raw_len := None, last_inet_page_gen := 0,
             fetch_err_len := 0, page_truncated := False, browser_body_dirty := True \<rparr>)
           (on_stack (\<lambda>s. if k_nic_present k0 then seed_from_mac (nic_mac (w_nic (k_world k0))) (reset_demo s) else reset_demo s) k0)))
      = Some k1" "kernel_ok info k1"
    using start_browser_fetch_ok [OF k0, of inet_on] k0 blank
    by (cases "0 < url_len (k_ui k0)") (auto simp: kernel_ok_def kernel_simps net_wf_intros)
  then show ?thesis using assms keep unfolding reload_request_def Let_def k0_def [symmetric] by auto
qed

lemma show_page_ok:
  assumes "kernel_ok info k"
  shows "\<exists>k'. show_page k = Some k' \<and> kernel_ok info k'"
proof -
  have ok: "ui_ok info (k_ui k)" "net_wf (k_net k)" "browser_ok (k_html k)" using assms by (simp_all add: kernel_ok_def)
  define s where "s = k_net k"
  define fe where "fe = min (length (ns_fetch_err s)) (length (fetch_err (k_ui k)))"
  define k1 where "k1 = on_ui (\<lambda>st. st\<lparr> last_rendered_raw_len := Some (length (ns_page s)), last_inet_page_gen := ns_page_gen s,
                fetch_err := put_at (fetch_err st) 0 (take fe (ns_fetch_err s)), fetch_err_len := fe,
                browser_body_dirty := True \<rparr>) k"
  have panel: "ui_ok info ((k_ui k1)\<lparr> browser_line_count := n, page_truncated := b \<rparr>)" if "n \<le> 128" for n b
    by (rule ui_ok_panel [OF ok(1)]) (use that ok(1) in \<open>simp_all add: k1_def kernel_simps ui_core_def ui_ok_fields(7) fe_def\<close>)
  have parts: "net_wf (k_net k1)" "k_html k1 = k_html k" using ok(2) by (simp_all add: k1_def kernel_simps)
  obtain g n trunc sc where f: "format_document (ns_page s) (text_colour (k_ui k1)) (k_html k1) = Some (g, n, trunc, sc)"
      "n \<le> 128" "browser_ok g"
    using format_document_ok ok(3) parts(2) by metis
  show ?thesis using f panel [of 0] panel [OF f(2)] parts ok(3)
    unfolding show_page_def Let_def s_def [symmetric] fe_def [symmetric] k1_def [symmetric] f(1)
    by (simp add: kernel_ok_def kernel_simps)
qed

text \<open>
  The step of the network stack returns when the card delivers finitely many frames and the TLS library ends
  every run of reads, with an error or with nothing to read.
\<close>

definition pump_ends :: "decoders \<Rightarrow> ('d, 't) tls_ops \<Rightarrow> bool" where
  "pump_ends dec tls \<longleftrightarrow> (\<forall>w. tls_pump_loop dec tls w \<noteq> None)"

lemma pump_application_returns:
  assumes "card_drains vio rank" "pump_ends dec tls" "wf_as h w"
  shows "\<exists>w'. tls_pump_application dec vio tls our_mac w = Some w'"
proof -
  have "wf_as h (tls_tx_flush_all vio our_mac (on_net (set_tls_poll our_mac) w))"
    using assms(3) by (intro tx_flush_all_wf) (auto simp: wf_as_def set_tls_poll_def net_wf_defs)
  from rx_loop_returns [OF assms(1) this] obtain w1
    where "tls_spin_poll dec vio (on_net (set_tls_poll our_mac) w) = Some w1"
    by (auto simp: tls_spin_poll_def set_tls_poll_def)
  moreover obtain w2 where "tls_pump_loop dec tls w1 = Some w2" using assms(2) by (auto simp: pump_ends_def)
  ultimately show ?thesis by (simp add: tls_pump_application_def Let_def)
qed

lemma drive_total:
  assumes "card_drains vio rank" "pump_ends dec tls" "net_wf (w_net w)"
  shows "\<exists>w'. drive dec vio tls our_mac cfg w = Some w'"
proof -
  define h where "h = ns_https_mode (w_net (on_net (begin_tick cfg) w))"
  have "wf_as h (on_net (begin_tick cfg) w)" using assms(3) by (simp add: wf_as_def h_def begin_tick_wf)
  with rx_loop_returns [OF assms(1)] rx_loop_wf obtain w1
    where 1: "rx_loop dec vio our_mac (on_net (begin_tick cfg) w) = Some w1" and w1: "wf_as h w1" by metis
  define w2 where "w2 = (if ip_config cfg = Dhcp then dhcp_tick vio our_mac w1 else w1)"
  have w2: "wf_as h w2" using w1 by (simp add: w2_def dhcp_tick_wf)
  define w3 where "w3 = on_net (\<lambda>s. s\<lparr> ns_phase := next_phase s \<rparr>) w2"
  have "wf_as h w3" using w2 by (simp add: w3_def wf_as_def)
  then have "wf_as h (syn_tick vio our_mac w3)" by (rule syn_tick_wf)
  from pump_application_returns [OF assms(1,2) this] have "\<exists>w4. fetch_tick dec vio tls our_mac w3 = Some w4"
    by (simp add: fetch_tick_def Let_def)
  then show ?thesis unfolding drive_def 1 Let_def option.simps Option.bind.simps w2_def [symmetric] w3_def [symmetric] by auto
qed

lemma network_round_ok:
  assumes "kernel_ok info k" "card_drains vio rank" "pump_ends dec tls" "tls_over_bridge dec vio tls"
  shows "\<exists>k'. network_round dec vio tls inet_on k = Some k' \<and> kernel_ok info k'"
proof -
  have ok: "ui_ok info (k_ui k)" "net_wf (k_net k)" "browser_ok (k_html k)" using assms(1) by (simp_all add: kernel_ok_def)
  obtain w where w: "drive dec vio tls (ui_mac (k_ui k)) (settings (k_ui k)) (k_world k) = Some w"
    using drive_total [OF assms(2,3) ok(2)] by blast
  have wf: "net_wf (w_net w)" by (rule drive_wf [OF w assms(4) ok(2)])
  have info: "ui_ok info (st\<lparr> net_ipv4 := a, inet_phase := b, inet_bytes := c \<rparr>) = ui_ok info st" for st a b c
    by (rule ui_ok_core) (simp add: ui_core_def)
  define k1 where "k1 = on_ui (\<lambda>st. st\<lparr> net_ipv4 := addr_our (ns_addrs (w_net w)), inet_phase := ns_phase (w_net w),
    inet_bytes := ns_http_bytes (w_net w) \<rparr>) (k\<lparr> k_world := w \<rparr>)"
  have k1: "kernel_ok info k1" using ok wf by (simp add: k1_def kernel_ok_def kernel_simps info)
  show ?thesis
  proof (cases inet_on)
    case True
    have "network_round dec vio tls inet_on k = (if ns_phase (w_net w) = NetDone \<and> page_changed (w_net w) (k_ui k1) then show_page k1 else Some k1)"
      unfolding network_round_def w Let_def Option.bind.simps k1_def using True by (simp only: not_True_eq_False if_False)
    then show ?thesis using k1 show_page_ok [OF k1] by simp
  qed (use ok in \<open>simp add: network_round_def kernel_ok_def kernel_simps info\<close>)
qed

lemma status_ok:
  assumes "kernel_ok info k"
  shows "kernel_ok info (status_round rx m k)" "kernel_ok info (log_round k)"
proof -
  have flags: "ui_ok info (st\<lparr> net_rx := a, ui_mac := b \<rparr>) = ui_ok info st" "ui_ok info (st\<lparr> net_ok := c \<rparr>) = ui_ok info st"
    "ui_ok info (st\<lparr> status_dirty := c \<rparr>) = ui_ok info st" for st a b c
    by (rule ui_ok_core, simp add: ui_core_def)+
  show "kernel_ok info (status_round rx m k)" using assms
    by (simp add: status_round_def Let_def kernel_ok_def flags)
  show "kernel_ok info (log_round k)" using assms
    by (simp add: log_round_def Let_def kernel_ok_def kernel_simps split: prod.split)
qed

section \<open>Disks\<close>

text \<open>What the flags promise of the disks: memory that is used was written.\<close>

definition disks_ok :: "'s disks \<Rightarrow> bool" where
  "disks_ok d \<longleftrightarrow> (disk_pair_ready d \<longrightarrow> disk_src d \<noteq> None \<and> disk_dst d \<noteq> None)
     \<and> (SETTINGS_ON_DISK_SRC d \<longrightarrow> disk_src d \<noteq> None) \<and> (SETTINGS_BLK_READY d \<longrightarrow> settings_blk d \<noteq> None)"

definition install_ok :: "install_state \<Rightarrow> bool" where
  "install_ok s \<longleftrightarrow> length (install_err s) = 56 \<and> install_err_len s \<le> 56"

lemma install_fail_ok: "install_ok s \<Longrightarrow> install_ok (install_fail msg s)"
  by (simp add: install_ok_def install_fail_def Let_def)

lemma install_loop_err: "install_loop src_rd dst_rd dst_wr dst_ss n s a b sb = (s', rest) \<Longrightarrow> install_ok s \<Longrightarrow> install_ok s'"
  by (induction src_rd dst_rd dst_wr dst_ss n s a b sb rule: install_loop.induct)
    (auto simp: install_ok_def Let_def split: if_splits prod.splits)

lemma install_tick_err:
  assumes "install_tick src_rd src_ss src_cap dst_rd dst_wr dst_ss dst_cap (s, a, b, sb) = (s', rest)" "install_ok s"
  shows "install_ok s'"
proof -
  define s1 where "s1 = install_start (src_ss a) (src_cap a) (dst_ss b) (dst_cap b) s"
  have dirty: "install_ok (x\<lparr> install_content_dirty := c \<rparr>) = install_ok x" for x c by (simp add: install_ok_def)
  have s1: "install_ok s1" using assms(2) by (auto simp: s1_def install_start_def Let_def dirty install_fail_ok)
      (auto simp: install_ok_def install_fail_def Let_def)
  obtain s2 a2 b2 sb2 io where l: "install_loop src_rd dst_rd dst_wr dst_ss 32 s1 a b sb = (s2, a2, b2, sb2, io)" by (cases "install_loop src_rd dst_rd dst_wr dst_ss 32 s1 a b sb")
  have s2: "install_ok s2" by (rule install_loop_err [OF l s1])
  show ?thesis using assms(1) s1 s2 install_fail_ok [OF s2] unfolding install_tick_def Let_def s1_def [symmetric] l case_prod_conv
    by (auto simp: dirty split: if_splits)
qed

lemma install_round_ok:
  assumes "ui_ok info st" "disks_ok d"
  shows "\<exists>st' d'. install_round ops (st, d) = Some (st', d') \<and> ui_ok info st' \<and> disks_ok d'"
proof (cases "disk_pair_ready d")
  case True
  then obtain src dst where sd: "disk_src d = Some src" "disk_dst d = Some dst" using assms(2) by (auto simp: disks_ok_def)
  obtain i a b sb where t: "install_tick (blk_rd ops) (blk_ss ops) (blk_cap ops) (blk_rd ops) (blk_wr ops) (blk_ss ops) (blk_cap ops)
      (disk_install st, src, dst, sector_buf d) = (i, a, b, sb)"
    by (metis prod_cases4)
  have "install_ok i" by (rule install_tick_err [OF t]) (use assms(1) in \<open>simp add: ui_ok_def install_ok_def\<close>)
  then have "ui_ok info (st\<lparr> disk_install := i \<rparr>)"
    using assms(1) by (simp add: ui_ok_def install_ok_def history_ok_def cursors_ok_def wifi_ok_def)
  then show ?thesis using True sd t assms(2) by (simp add: install_round_def disks_ok_def)
qed (use assms in \<open>simp add: install_round_def\<close>)

lemma save_to_some: "\<exists>saved b'. save_to ops cfg (Some b) = Some (saved, Some b')"
  by (cases "disk_save (blk_wr ops) (blk_cap ops b) b cfg") (simp add: save_to_def)

lemma save_round_ok:
  assumes "kernel_ok info k" "disks_ok d"
  shows "\<exists>k' d'. save_round ops (k, d) = Some (k', d') \<and> kernel_ok info k' \<and> disks_ok d'"
proof -
  define k0 where "k0 = on_ui (\<lambda>st. st\<lparr> settings_save_requested := False \<rparr>) k"
  have k0: "kernel_ok info k0" "kernel_ok info (on_log f k0)" for f
    using assms(1) by (simp_all add: k0_def kernel_ok_def kernel_simps)
  obtain saved d' where "(if SETTINGS_ON_DISK_SRC d
       then map_option (\<lambda>(saved, b). (saved, d\<lparr> disk_src := b \<rparr>)) (save_to ops (settings (k_ui k0)) (disk_src d))
       else if SETTINGS_BLK_READY d
       then map_option (\<lambda>(saved, b). (saved, d\<lparr> settings_blk := b \<rparr>)) (save_to ops (settings (k_ui k0)) (settings_blk d))
       else Some (False, d)) = Some (saved, d')" "disks_ok d'"
  proof (cases "SETTINGS_ON_DISK_SRC d")
    case True
    then obtain b saved b' where "disk_src d = Some b" "save_to ops (settings (k_ui k0)) (disk_src d) = Some (saved, Some b')"
      using assms(2) save_to_some unfolding disks_ok_def by (metis option.exhaust)
    with True assms(2) show thesis by (intro that [of saved "d\<lparr> disk_src := Some b' \<rparr>"]) (simp_all add: disks_ok_def)
  next
    case src: False
    show thesis
    proof (cases "SETTINGS_BLK_READY d")
      case True
      then obtain b saved b' where "settings_blk d = Some b" "save_to ops (settings (k_ui k0)) (settings_blk d) = Some (saved, Some b')"
        using assms(2) save_to_some unfolding disks_ok_def by (metis option.exhaust)
      with src True assms(2) show thesis by (intro that [of saved "d\<lparr> settings_blk := Some b' \<rparr>"]) (simp_all add: disks_ok_def)
    qed (use src assms(2) in \<open>simp add: that\<close>)
  qed
  then show ?thesis using k0 assms unfolding save_round_def case_prod_conv Let_def k0_def [symmetric] by auto
qed

section \<open>Rounds\<close>

text \<open>The hardware and the libraries a kernel runs with: a card that drains, a TLS library over the bridge whose reads end.\<close>

definition platform_ok :: "('d, 't) platform \<Rightarrow> ('d \<Rightarrow> nat) \<Rightarrow> bool" where
  "platform_ok pf rank \<longleftrightarrow> card_drains (p_vio pf) rank \<and> pump_ends (p_dec pf) (p_tls pf)
     \<and> tls_over_bridge (p_dec pf) (p_vio pf) (p_tls pf)"

lemma boot_fetch_ok:
  assumes "kernel_ok info k"
  shows "\<exists>k'. boot_fetch inet_on k = Some k' \<and> kernel_ok info k'"
  using start_browser_fetch_ok [of info "k\<lparr> boot_home_fetch_pending := False \<rparr>" inet_on] assms
  by (simp add: boot_fetch_def kernel_ok_parts)

lemma finish_round_ok:
  assumes "kernel_ok info k" "disks_ok d" "platform_ok pf rank"
  shows "\<exists>k' d'. finish_round pf ops inet_on (k, d) = Some (k', d') \<and> kernel_ok info k' \<and> disks_ok d'"
proof -
  obtain k1 where 1: "reload_request inet_on (p_nic_mac pf) k = Some k1" "kernel_ok info k1" using reload_ok [OF assms(1)] by blast
  obtain st d1 where 2: "install_round ops (k_ui k1, d) = Some (st, d1)" "ui_ok info st" "disks_ok d1"
    using install_round_ok [OF _ assms(2)] 1(2) unfolding kernel_ok_def by blast
  have "kernel_ok info (k1\<lparr> k_ui := st \<rparr>)" using 1(2) 2(2) by (simp add: kernel_ok_def)
  then obtain k2 where 3: "network_round (p_dec pf) (p_vio pf) (p_tls pf) inet_on (k1\<lparr> k_ui := st \<rparr>) = Some k2" "kernel_ok info k2"
    using network_round_ok assms(3) unfolding platform_ok_def by blast
  show ?thesis using save_round_ok [OF status_ok(2) [OF status_ok(1) [OF 3(2)]] 2(3)] 1 2 3 by (simp add: finish_round_def)
qed

lemma main_round_ok:
  assumes "kernel_ok info k" "disks_ok d" "platform_ok pf rank" "info_ok info"
  shows "\<exists>r. main_round pf ops info inp (k, d) = Some r \<and> (\<forall>k' d'. r = Go_on (k', d') \<longrightarrow> kernel_ok info k' \<and> disks_ok d')"
proof -
  obtain k1 where 1: "boot_fetch (inet_enabled k) k = Some k1" "kernel_ok info k1" using boot_fetch_ok [OF assms(1)] by blast
  obtain k2 where 2: "read_input info (inet_enabled k) (disk_pair_ready d) inp k1 = Some k2" "kernel_ok info k2"
    using read_input_ok [OF 1(2) assms(4)] by blast
  obtain st where 3: "handle_clicks info (k_ui k2) = Some st" "ui_ok info st"
    using handle_clicks_ok [OF _ assms(4)] 2(2) unfolding kernel_ok_def by blast
  have k3: "kernel_ok info (k2\<lparr> k_ui := st \<rparr>)" using 2(2) 3(2) by (simp add: kernel_ok_def)
  show ?thesis
  proof (cases "power_requests (k2\<lparr> k_ui := st \<rparr>)")
    case (Go_on k4)
    obtain k' d' where "finish_round pf ops (inet_enabled k) (k4, d) = Some (k', d')" "kernel_ok info k'" "disks_ok d'"
      using finish_round_ok [OF power_ok [OF k3 Go_on] assms(2,3)] by blast
    then show ?thesis using 1 2 3 Go_on by (simp add: main_round_def Let_def)
  qed (use 1 2 3 in \<open>simp_all add: main_round_def Let_def\<close>)
qed

text \<open>The same for a step on ARM, whose keys and pointer come from the firmware.\<close>

lemma scroll_arm_ok: "kernel_ok info k \<Longrightarrow> kernel_ok info (arm_scroll info' f n k)" "kernel_ok info k \<Longrightarrow> kernel_ok info (scroll_arm info' n k)"
  by (simp_all add: arm_scroll_def scroll_arm_def kernel_ok_def kernel_simps)

lemma arm_key_step_ok:
  assumes "kernel_ok info k"
  shows "\<exists>k'. arm_key_step info inet_on ev k = Some k' \<and> kernel_ok info k'"
proof -
  have "\<exists>k'. arm_key info inet_on ev k = Some k' \<and> kernel_ok info k'"
  proof (cases ev)
    case Home
    then show ?thesis using assms scroll_arm_ok(2) [OF assms, of info "- 12"]
      by (cases "screen (k_ui k)") (simp_all add: arm_home_def kernel_ok_def kernel_simps)
  next
    case End
    then show ?thesis using assms scroll_arm_ok(2) [OF assms, of info 12]
      by (cases "screen (k_ui k)") (simp_all add: arm_end_def kernel_ok_def kernel_simps)
  next
    case (ArmChar ch)
    then show ?thesis using assms typed_key_ok [OF assms] by (auto simp: kernel_ok_def kernel_simps url_key_ok)
  qed (use assms kernel_ok_keys [OF assms] scroll_arm_ok(1) [OF assms] typed_key_ok [OF assms] start_browser_fetch_ok [OF assms] in
      \<open>simp_all add: Let_def kernel_ok_def kernel_simps comp_def\<close>)
  then show ?thesis using kernel_ok_keys(6) [OF assms] by (simp add: arm_key_step_def)
qed

lemma sync_cursor_ok:
  assumes "ui_ok info st" "info_ok info"
  shows "ui_ok info (sync_primary_cursor info p st)"
proof (cases p)
  case (fields ax ay b)
  let ?x = "clamp 0 (int (fb_width info) - 1) ax" and ?y = "clamp 0 (int (fb_height info) - 1) ay"
  have lim: "max (clamp (- (2 ^ 31)) (2 ^ 31 - 1) (int n - 1)) 0 = int n - 1" if "0 < n" "n < 2 ^ 31" for n
    using that by (simp add: clamp_def)
  have c: "cursors_ok info st" by (rule ui_ok_fields(5) [OF assms(1)])
  have eq: "sync_primary_cursor info p st = st\<lparr> cursor_active := map (\<lambda>i. i = 0) [0..<12], cursor_x := (cursor_x st)[0 := ?x],
      cursor_y := (cursor_y st)[0 := ?y], cursor_btn := (cursor_btn st)[0 := b], mx := ?x, my := ?y \<rparr>"
    using assms(2) unfolding sync_primary_cursor_def fields case_prod_conv Let_def info_ok_extent [OF assms(2)]
    by (simp only: info_ok_def lim)
  have "cursors_ok info (sync_primary_cursor info p st)" unfolding eq
    using c assms(2) clamp_on_screen [of "fb_width info" ax] clamp_on_screen [of "fb_height info" ay]
    by (simp add: cursors_ok_def info_ok_def list_all_update_at del: upt.simps)
  then show ?thesis by (rule ui_ok_cursors [OF assms(1)]) (simp add: eq ui_core_def)
qed

lemma main_step_ok:
  assumes "kernel_ok info k" "platform_ok pf rank" "info_ok info"
  shows "\<exists>r. main_step pf save info keys pointer (k, nv) = Some r \<and> (\<forall>k' nv'. r = Go_on (k', nv') \<longrightarrow> kernel_ok info k')"
proof -
  obtain k1 where 1: "boot_fetch (inet_enabled k) k = Some k1" "kernel_ok info k1" using boot_fetch_ok [OF assms(1)] by blast
  obtain k2 where 2: "process_arm_keys info (inet_enabled k) keys k1 = Some k2" "kernel_ok info k2"
    using fold_option_ok [where P = "kernel_ok info" and f = "arm_key_step info (inet_enabled k)" and xs = keys,
        OF arm_key_step_ok 1(2)] unfolding process_arm_keys_def by blast
  obtain st where 3: "handle_clicks info (sync_primary_cursor info pointer (k_ui k2)) = Some st" "ui_ok info st"
    using handle_clicks_ok [OF sync_cursor_ok [OF _ assms(3)] assms(3)] 2(2) unfolding kernel_ok_def by blast
  have k3: "kernel_ok info (k2\<lparr> k_ui := st \<rparr>)" using 2(2) 3(2) by (simp add: kernel_ok_def)
  have save: "kernel_ok info (fst (arm_save_round save (k, nv)))" if "kernel_ok info k" for k :: "('a, 'b) kernel"
    using that by (simp add: arm_save_round_def kernel_ok_def kernel_simps)
  show ?thesis
  proof (cases "power_requests (k2\<lparr> k_ui := st \<rparr>)")
    case (Go_on k4)
    obtain k5 where 5: "reload_request (inet_enabled k) (p_nic_mac pf) k4 = Some k5" "kernel_ok info k5"
      using reload_ok [OF power_ok [OF k3 Go_on]] by blast
    obtain k6 where 6: "network_round (p_dec pf) (p_vio pf) (p_tls pf) (inet_enabled k) k5 = Some k6" "kernel_ok info k6"
      using network_round_ok [OF 5(2)] assms(2) unfolding platform_ok_def by blast
    show ?thesis using 1 2 3 Go_on 5 6 save [OF status_ok(2) [OF status_ok(1) [OF 6(2)]]] by (simp add: main_step_def Let_def) (metis fst_conv)
  qed (use 1 2 3 in \<open>simp_all add: main_step_def Let_def\<close>)
qed

section \<open>Every reachable state\<close>

lemma disk_load_sized:
  assumes "disk_load rd cap s cfg = (merged, cfg', s')" "settings_wf cfg"
  shows "settings_wf cfg'"
  using assms decode_merge_wf [OF assms(2)] by (auto simp: disk_load_def Let_def split: if_splits prod.splits)

lemma boot_disks_ok:
  assumes "boot_disks ops n first second cfg = (d, cfg', saved)" "settings_wf cfg" "2 \<le> n \<longrightarrow> second \<noteq> None"
  shows "disks_ok d \<and> settings_wf cfg'"
  using assms by (auto simp: boot_disks_def disks_ok_def no_disks_def Let_def dest: disk_load_sized split: option.splits if_splits prod.splits)

text \<open>
  The states of a kernel on x86: from boot, with whatever the disks hold, through rounds of the main loop with any
  input. When there are two disks, both answer: see \<open>save_without_disk\<close> for what happens when the second does not.
\<close>

inductive kernel_reach ::
  "('d, 't) platform \<Rightarrow> 's blk_ops \<Rightarrow> frame_buffer_info \<Rightarrow> ('d, 't) kernel \<times> 's disks \<Rightarrow> bool"
  for pf ops info where
  boot: "boot_disks ops n first second device_settings_new = (d, cfg, saved) \<Longrightarrow> (2 \<le> n \<longrightarrow> second \<noteq> None)
    \<Longrightarrow> new_with_settings (fb_w info) (fb_h info) wlan n1 v1 d1 n2 d2 n3 au (caps_x86_persist saved) cfg = Some st
    \<Longrightarrow> w_net w = static_initial
    \<Longrightarrow> kernel_reach pf ops info (boot_kernel present (p_nic_mac pf) w html_globals_new pair_total st, d)"
| round: "kernel_reach pf ops info kd \<Longrightarrow> main_round pf ops info inp kd = Some (Go_on kd')
    \<Longrightarrow> kernel_reach pf ops info kd'"

lemma boot_kernel_ok:
  assumes "ui_ok info st" "w_net w = static_initial"
  shows "kernel_ok info (boot_kernel present m w html_globals_new pair_total st)"
proof -
  have "ui_ok info (st\<lparr> net_ok := True, ui_mac := a \<rparr>)" for a
    using assms(1) by (simp add: ui_ok_def history_ok_def cursors_ok_def wifi_ok_def)
  moreover have "ui_ok info (s\<lparr> disk_install_available := True, disk_install := (disk_install s)\<lparr> install_total := t \<rparr>,
      screen_after_epilepsy_notice := DiskInstall \<rparr>) = ui_ok info s" for s t
    by (rule ui_ok_core) (simp add: ui_core_def)
  ultimately show ?thesis using assms
    by (cases pair_total) (simp_all add: boot_kernel_def Let_def kernel_ok_def browser_ok_new on_net_def net_wf_intros)
qed

lemma kernel_reach_ok:
  assumes "kernel_reach pf ops info kd" "platform_ok pf rank" "info_ok info"
  shows "kernel_ok info (fst kd) \<and> disks_ok (snd kd)"
  using assms
proof (induction rule: kernel_reach.induct)
  case (boot n first second d cfg saved wlan n1 v1 d1 n2 d2 n3 au st w present pair_total)
  have "disks_ok d" "settings_sized cfg"
    using boot_disks_ok [OF boot(1) settings_wf_new boot(2)] by (simp_all add: settings_wf_iff)
  with ui_ok_new [OF boot(3) this(2) info_ok_extent] boot show ?case by (simp add: boot_kernel_ok)
next
  case (round kd inp kd')
  then show ?case using main_round_ok [of info "fst kd" "snd kd" pf rank ops inp] by (cases kd; cases kd') auto
qed


text \<open>A platform: a card that hands over a list of frames, and a TLS library that refuses every connection.\<close>

definition refusing_tls :: "('d, unit) tls_ops" where
  "refusing_tls = \<lparr> tls_open = (\<lambda>_ _ _ w. (None, w)), tls_write_all = (\<lambda>_ w. (False, w)), tls_flush = (\<lambda>w. (False, w)),
     tls_read = (\<lambda>_ w. (Inl (), w)) \<rparr>"

definition wire_platform :: "(bytes list \<times> bytes list, unit) platform" where
  "wire_platform = \<lparr> p_dec = no_decoders, p_vio = wire_nic, p_tls = refusing_tls, p_rx_packets = (\<lambda>(_, sent). of_nat (length sent)),
     p_nic_mac = (\<lambda>_. MAC 2 0 0 0 0 1) \<rparr>"

lemma refusing_tls_ok: "pump_ends dec refusing_tls" "tls_over_bridge dec vio refusing_tls"
  by (auto simp: pump_ends_def refusing_tls_def tls_pump_loop.simps tls_over_bridge_def intro: bridge_steps.intros)

lemma wire_platform_ok: "platform_ok wire_platform (\<lambda>(inbox, sent). length inbox)"
  by (auto simp: platform_ok_def wire_platform_def wire_nic_drains refusing_tls_ok)

definition ram_disk :: "bytes list blk_ops" where
  "ram_disk = \<lparr> blk_rd = (\<lambda>s n buf. if unat n < length s then (True, s ! unat n, s) else (False, buf, s)),
     blk_wr = (\<lambda>s n buf. if unat n < length s then (True, s[unat n := buf]) else (False, s)),
     blk_ss = (\<lambda>_. 512), blk_cap = (\<lambda>s. of_nat (length s)) \<rparr>"

definition quiet_round :: round_input where
  "quiet_round = \<lparr> usb_mouse_active = False, usb_mouse_count = 0, usb_mice = (\<lambda>_. None), ps2_kbd_ignored = False,
     ps2_events = [Key 0x39 False, Key 0x1C False, Mouse 1 5 (- 3)], usb_keyboard_active = True, usb_key_presses = [(0x3A, False)] \<rparr>"

definition wire_kernel :: "(bytes list \<times> bytes list, unit) kernel" where
  "wire_kernel = boot_kernel True (p_nic_mac wire_platform) (boot_world [replicate 60 0x45]) html_globals_new None fresh_ui"

lemma screen_info_ok: "info_ok screen_info" "fb_w screen_info = 1024" "fb_h screen_info = 768"
  by (simp_all add: info_ok_def screen_info_def fb_w_def fb_h_def i32_of_small)

lemma wire_kernel_reach: "kernel_reach wire_platform ram_disk screen_info (wire_kernel, no_disks)"
  unfolding wire_kernel_def
proof (rule kernel_reach.boot)
  show "boot_disks ram_disk 0 None None device_settings_new = (no_disks, device_settings_new, False)" by (simp add: boot_disks_def)
  show "new_with_settings (fb_w screen_info) (fb_h screen_info) False 0 0 0 0 0 0 False (caps_x86_persist False) device_settings_new = Some fresh_ui"
    by (simp add: fresh_ui_def new_with_settings_def Let_def screen_info_ok caps_x86_def)
qed (simp_all add: boot_world_def)


text \<open>
  The same on ARM: from every state with the invariants a step returns for all keys and pointer positions the firmware delivers, and
  keeps the invariants.
\<close>

theorem arm_step_safe:
  assumes "kernel_ok info k" "platform_ok pf rank" "info_ok info"
  shows "\<exists>r. main_step pf save info keys pointer (k, nv) = Some r
    \<and> (\<forall>k' nv'. r = Go_on (k', nv') \<longrightarrow> ui_ok info (k_ui k') \<and> net_wf (k_net k') \<and> browser_ok (k_html k'))"
  using main_step_ok [OF assms, of save keys pointer nv] by (auto simp: kernel_ok_def)

theorem arm_step_safe_witness:
  "\<exists>r. main_step wire_platform (Some (\<lambda>b nv. b)) screen_info [ArmChar 0x20, Enter, Func 1] (2000, -5, 1) (wire_kernel, []) = Some r"
proof -
  have "kernel_ok screen_info wire_kernel"
    using kernel_reach_ok [OF wire_kernel_reach wire_platform_ok screen_info_ok(1)] by simp
  from arm_step_safe [OF this wire_platform_ok screen_info_ok(1), of "Some (\<lambda>b nv. b)" "[ArmChar 0x20, Enter, Func 1]" "(2000, -5, 1)" "[]"]
  show ?thesis by blast
qed

end
