(* ===== verification/Eve_Pci.thy ===== *)
theory Eve_Pci
  imports Eve_Prelude
begin

text \<open>
  PCI configuration space, \<open>kernel/src/pci.rs\<close>: the accesses through the two configuration ports and every scan over the
  functions of the first eight buses. The ports belong to the hardware and are an argument; that a
  read returns the dword at the selected address and changes nothing is the locale \<open>pci_bus\<close>.
\<close>

section \<open>Configuration space\<close>

record 'd pci_ports =
  pci_outl :: "u16 \<Rightarrow> u32 \<Rightarrow> 'd \<Rightarrow> 'd"
  pci_inl :: "u16 \<Rightarrow> 'd \<Rightarrow> u32 \<times> 'd"

abbreviation (input) "CONFIG_ADDRESS \<equiv> 0xCF8 :: u16"
abbreviation (input) "CONFIG_DATA \<equiv> 0xCFC :: u16"

text \<open>Bus, slot and function.\<close>

type_synonym pci_loc = "u8 \<times> u8 \<times> u8"

definition cfg_addr :: "pci_loc \<Rightarrow> u8 \<Rightarrow> u32" where
  "cfg_addr = (\<lambda>(bus, slot, func) offset.
     0x80000000 OR push_bit 16 (ucast bus) OR push_bit 11 (ucast slot) OR push_bit 8 (ucast func) OR ucast (offset AND 0xFC))"

definition pci_read_u32 :: "'d pci_ports \<Rightarrow> pci_loc \<Rightarrow> u8 \<Rightarrow> 'd \<Rightarrow> u32 \<times> 'd" where
  "pci_read_u32 io l offset d = pci_inl io CONFIG_DATA (pci_outl io CONFIG_ADDRESS (cfg_addr l offset) d)"

definition pci_write_u32 :: "'d pci_ports \<Rightarrow> pci_loc \<Rightarrow> u8 \<Rightarrow> u32 \<Rightarrow> 'd \<Rightarrow> 'd" where
  "pci_write_u32 io l offset v d = pci_outl io CONFIG_DATA v (pci_outl io CONFIG_ADDRESS (cfg_addr l offset) d)"

definition pci_read_u16 :: "'d pci_ports \<Rightarrow> pci_loc \<Rightarrow> u8 \<Rightarrow> 'd \<Rightarrow> u16 \<times> 'd" where
  "pci_read_u16 io l offset d =
     (let (w, d) = pci_read_u32 io l offset d
      in (if offset AND 3 = 0 then ucast (w AND 0xFFFF) else ucast (drop_bit 16 w), d))"

definition pci_read_u8 :: "'d pci_ports \<Rightarrow> pci_loc \<Rightarrow> u8 \<Rightarrow> 'd \<Rightarrow> u8 \<times> 'd" where
  "pci_read_u8 io l offset d =
     (let (w, d) = pci_read_u32 io l (offset AND NOT 3) d; shift = 8 * (unat offset AND 3)
      in (ucast (drop_bit shift w AND 0xFF), d))"

definition pci_write_u16 :: "'d pci_ports \<Rightarrow> pci_loc \<Rightarrow> u8 \<Rightarrow> u16 \<Rightarrow> 'd \<Rightarrow> 'd" where
  "pci_write_u16 io l offset v d =
     (let base = offset AND NOT 3; (w, d) = pci_read_u32 io l base d;
          w = (if offset AND 3 = 0 then (w AND NOT 0xFFFF) OR ucast v else (w AND 0xFFFF) OR push_bit 16 (ucast v))
      in pci_write_u32 io l base w d)"

definition absent :: "u32 \<Rightarrow> bool" where
  "absent vid_did \<longleftrightarrow> vid_did = 0xFFFFFFFF \<or> vid_did AND 0xFFFF = 0xFFFF"

definition class_subclass :: "'d pci_ports \<Rightarrow> u8 \<times> u8 \<Rightarrow> 'd \<Rightarrow> (u8 \<times> u8) option \<times> 'd" where
  "class_subclass io = (\<lambda>(bus, slot) d.
     let (vid_did, d) = pci_read_u32 io (bus, slot, 0) 0 d
     in if absent vid_did then (None, d)
        else let (sub, d) = pci_read_u8 io (bus, slot, 0) 0x0A d; (base, d) = pci_read_u8 io (bus, slot, 0) 0x0B d
             in (Some (base, sub), d))"

definition class_subclass_prog_fn :: "'d pci_ports \<Rightarrow> pci_loc \<Rightarrow> 'd \<Rightarrow> (u8 \<times> u8 \<times> u8) option \<times> 'd" where
  "class_subclass_prog_fn io l d =
     (let (vid_did, d) = pci_read_u32 io l 0 d
      in if absent vid_did then (None, d)
         else let (sub, d) = pci_read_u8 io l 0x0A d; (base, d) = pci_read_u8 io l 0x0B d; (pi, d) = pci_read_u8 io l 0x09 d
              in (Some (base, sub, pi), d))"

section \<open>Scans\<close>

text \<open>The slots and functions in the order of the nested loops.\<close>

definition pci_slots :: "(u8 \<times> u8) list" where
  "pci_slots = List.product (map word_of_int [0..7]) (map word_of_int [0..31])"

definition pci_functions :: "pci_loc list" where
  "pci_functions = map (\<lambda>((bus, slot), func). (bus, slot, func)) (List.product pci_slots (map word_of_int [0..7]))"

text \<open>
  The shapes of the scans: the first hit ends the loops, or the hits are collected up to the length of the array.
  The filled part of the array is the result.
\<close>

fun first_hit :: "('l \<Rightarrow> 'd \<Rightarrow> 'a option \<times> 'd) \<Rightarrow> 'l list \<Rightarrow> 'd \<Rightarrow> 'a option \<times> 'd" where
  "first_hit look [] d = (None, d)"
| "first_hit look (l # ls) d =
     (case look l d of (Some a, d) \<Rightarrow> (Some a, d) | (None, d) \<Rightarrow> first_hit look ls d)"

fun all_hits :: "('l \<Rightarrow> 'd \<Rightarrow> 'a option \<times> 'd) \<Rightarrow> nat \<Rightarrow> 'l list \<Rightarrow> 'a list \<Rightarrow> 'd \<Rightarrow> 'a list \<times> 'd" where
  "all_hits look room [] found d = (found, d)"
| "all_hits look room (l # ls) found d =
     (case look l d of
        (Some a, d) \<Rightarrow> all_hits look room ls (if length found < room then found @ [a] else found) d
      | (None, d) \<Rightarrow> all_hits look room ls found d)"

record pci_fn_id =
  fn_bus :: u8
  fn_slot :: u8
  fn_func :: u8
  vendor_id :: u16
  device_id :: u16

definition enumerate_pci_class :: "'d pci_ports \<Rightarrow> u8 \<Rightarrow> u8 \<Rightarrow> nat \<Rightarrow> 'd \<Rightarrow> pci_fn_id list \<times> 'd" where
  "enumerate_pci_class io class_code subclass room =
     all_hits (\<lambda>l d. let (c, d) = class_subclass_prog_fn io l d
        in case c of
             Some (b, s, _) \<Rightarrow>
               if b \<noteq> class_code \<or> s \<noteq> subclass then (None, d)
               else let (vid_did, d) = pci_read_u32 io l 0 d; (bus, slot, func) = l
                    in (Some \<lparr> fn_bus = bus, fn_slot = slot, fn_func = func, vendor_id = ucast (vid_did AND 0xFFFF),
                              device_id = ucast (drop_bit 16 vid_did) \<rparr>, d)
           | None \<Rightarrow> (None, d)) room pci_functions []"

fun ethernet_loop :: "'d pci_ports \<Rightarrow> (u8 \<times> u8) list \<Rightarrow> u8 \<Rightarrow> 'd \<Rightarrow> u8 \<times> 'd" where
  "ethernet_loop io [] n d = (n, d)"
| "ethernet_loop io (l # ls) n d =
     (let (c, d) = class_subclass io l d in ethernet_loop io ls (if c = Some (0x02, 0x00) then sat_add n 1 else n) d)"

definition scan_ethernet_count :: "'d pci_ports \<Rightarrow> 'd \<Rightarrow> u8 \<times> 'd" where
  "scan_ethernet_count io = ethernet_loop io pci_slots 0"

definition scan_mm_audio_present :: "'d pci_ports \<Rightarrow> 'd \<Rightarrow> bool \<times> 'd" where
  "scan_mm_audio_present io d =
     (let (r, d) = first_hit (\<lambda>l d. let (c, d) = class_subclass io l d
            in (case c of Some (base, sub) \<Rightarrow> if base = 0x04 \<and> sub \<in> {0x01, 0x02, 0x03} then Some () else None | None \<Rightarrow> None, d))
          pci_slots d
      in (r \<noteq> None, d))"

definition scan_usb_host_prog_if :: "'d pci_ports \<Rightarrow> 'd \<Rightarrow> u8 option \<times> 'd" where
  "scan_usb_host_prog_if io =
     first_hit (\<lambda>l d. let (c, d) = class_subclass_prog_fn io l d
        in (case c of Some (base, sub, pi) \<Rightarrow> if base = 0x0C \<and> sub = 0x03 then Some pi else None | None \<Rightarrow> None, d)) pci_functions"

definition find_usb_host_mmio_bar0 :: "'d pci_ports \<Rightarrow> u8 \<Rightarrow> 'd \<Rightarrow> (pci_loc \<times> u32) option \<times> 'd" where
  "find_usb_host_mmio_bar0 io pi =
     first_hit (\<lambda>l d. let (c, d) = class_subclass_prog_fn io l d
        in case c of
             Some (base, sub, p) \<Rightarrow>
               if base = 0x0C \<and> sub = 0x03 \<and> p = pi
               then let (bar0, d) = pci_read_u32 io l 0x10 d; base = bar0 AND 0xFFFFFFF0
                    in (if bar0 AND 1 \<noteq> 0 \<or> base = 0 then None else Some (l, base), d)
               else (None, d)
           | None \<Rightarrow> (None, d)) pci_functions"

definition find_usb_uhci_io :: "'d pci_ports \<Rightarrow> 'd \<Rightarrow> (pci_loc \<times> u16) option \<times> 'd" where
  "find_usb_uhci_io io =
     first_hit (\<lambda>l d. let (c, d) = class_subclass_prog_fn io l d
        in if c = Some (0x0C, 0x03, 0x00)
           then let (bar0, d) = pci_read_u32 io l 0x10 d; port = ucast (bar0 AND 0xFFFC)
                in (if bar0 AND 1 \<noteq> 0 \<and> port \<noteq> 0 then Some (l, port) else None, d)
           else (None, d)) pci_functions"

definition has_ids :: "u16 \<Rightarrow> u16 \<Rightarrow> u32 \<Rightarrow> bool" where
  "has_ids vendor device vid_did \<longleftrightarrow>
     \<not> absent vid_did \<and> ucast (vid_did AND 0xFFFF) = vendor \<and> ucast (drop_bit 16 vid_did) = device"

definition find_device :: "'d pci_ports \<Rightarrow> u16 \<Rightarrow> u16 \<Rightarrow> 'd \<Rightarrow> pci_loc option \<times> 'd" where
  "find_device io vendor device =
     first_hit (\<lambda>(bus, slot) d. let (vid_did, d) = pci_read_u32 io (bus, slot, 0) 0 d
        in (if has_ids vendor device vid_did then Some (bus, slot, 0) else None, d)) pci_slots"

definition find_device_any_fn :: "'d pci_ports \<Rightarrow> u16 \<Rightarrow> u16 \<Rightarrow> nat \<Rightarrow> 'd \<Rightarrow> pci_loc list \<times> 'd" where
  "find_device_any_fn io vendor device room =
     all_hits (\<lambda>l d. let (vid_did, d) = pci_read_u32 io l 0 d
        in (if has_ids vendor device vid_did then Some l else None, d)) room pci_functions []"

section \<open>Enabling a function\<close>

definition pci_enable_mmio_bm :: "'d pci_ports \<Rightarrow> pci_loc \<Rightarrow> 'd \<Rightarrow> 'd" where
  "pci_enable_mmio_bm io l d = (let (cmd, d) = pci_read_u16 io l 0x04 d in pci_write_u16 io l 0x04 (cmd OR 0x0006) d)"

definition pci_enable_io_bm :: "'d pci_ports \<Rightarrow> pci_loc \<Rightarrow> 'd \<Rightarrow> 'd" where
  "pci_enable_io_bm io l d = (let (cmd, d) = pci_read_u16 io l 0x04 d in pci_write_u16 io l 0x04 (cmd OR 0x0005) d)"

definition pci_mmio_kernel_addr :: "u64 option \<Rightarrow> u64 \<Rightarrow> u64" where
  "pci_mmio_kernel_addr physical_memory_offset bar_phys =
     (case physical_memory_offset of Some off \<Rightarrow> bar_phys + off | None \<Rightarrow> bar_phys)"

section \<open>What the scans find\<close>

text \<open>The configuration space \<open>cfg\<close> of the buses, by configuration address.\<close>

locale pci_bus =
  fixes io :: "'d pci_ports" and cfg :: "'d \<Rightarrow> u32 \<Rightarrow> u32"
  assumes config_read: "pci_inl io CONFIG_DATA (pci_outl io CONFIG_ADDRESS a d) = (v, d') \<Longrightarrow> v = cfg d a \<and> cfg d' = cfg d"
begin

text \<open>\<open>dword\<close>, \<open>octet\<close>, \<open>ids\<close> and \<open>classes\<close> are what the accesses return.\<close>

abbreviation octet :: "(u32 \<Rightarrow> u32) \<Rightarrow> pci_loc \<Rightarrow> u8 \<Rightarrow> u8" where
  "octet c l off \<equiv> ucast (drop_bit (8 * (unat off AND 3)) (c (cfg_addr l (off AND NOT 3))) AND 0xFF)"

lemma read_u32: "pci_read_u32 io l off d = (v, d') \<Longrightarrow> v = cfg d (cfg_addr l off) \<and> cfg d' = cfg d"
  unfolding pci_read_u32_def by (rule config_read)

lemma read_u8: "pci_read_u8 io l off d = (v, d') \<Longrightarrow> v = octet (cfg d) l off \<and> cfg d' = cfg d"
  using read_u32 unfolding pci_read_u8_def Let_def by (auto split: prod.splits)

lemma first_hit_pure:
  assumes "\<And>l d r d'. look l d = (r, d') \<Longrightarrow> cfg d = c \<Longrightarrow> r = q l \<and> cfg d' = c"
  shows "cfg d = c \<Longrightarrow> first_hit look ls d = (r, d') \<Longrightarrow> cfg d' = c \<and>
    r = (case List.map_filter q ls of [] \<Rightarrow> None | a # _ \<Rightarrow> Some a)"
proof (induction ls arbitrary: d)
  case (Cons l ls)
  obtain r1 d1 where l: "look l d = (r1, d1)" by fastforce
  with assms Cons.prems(1) have r1: "r1 = q l" "cfg d1 = c" by blast+
  show ?case
  proof (cases "q l")
    case None
    then show ?thesis using Cons.IH [of d1] Cons.prems(2) l r1 by (simp add: List.map_filter_simps)
  next
    case (Some a)
    with l r1 have "look l d = (Some a, d1)" by simp
    then have "r = Some a" "cfg d' = c" using Cons.prems(2) r1(2) by simp_all
    then show ?thesis using Some by (simp add: List.map_filter_simps)
  qed
qed (simp add: List.map_filter_simps)

lemma all_hits_pure:
  assumes "\<And>l d r d'. look l d = (r, d') \<Longrightarrow> cfg d = c \<Longrightarrow> r = q l \<and> cfg d' = c"
  shows "cfg d = c \<Longrightarrow> all_hits look room ls found d = (r, d') \<Longrightarrow> length found \<le> room \<Longrightarrow>
    cfg d' = c \<and> r = take room (found @ List.map_filter q ls)"
proof (induction ls arbitrary: found d)
  case (Cons l ls)
  obtain r1 d1 where l: "look l d = (r1, d1)" by fastforce
  with assms Cons.prems(1) have r1: "r1 = q l" "cfg d1 = c" by blast+
  show ?case
  proof (cases "q l")
    case None
    then show ?thesis using Cons.IH [of d1 found] Cons.prems l r1 by (simp add: List.map_filter_simps)
  next
    case (Some a)
    then show ?thesis
      using Cons.IH [of d1 "if length found < room then found @ [a] else found"] Cons.prems l r1
      by (cases "length found < room") (simp_all add: List.map_filter_simps)
  qed
qed (simp add: List.map_filter_simps)

lemma device_hits:
  assumes "find_device_any_fn io vendor device room d = (found, d')"
  shows "cfg d' = cfg d \<and> found = take room (filter (\<lambda>l. has_ids vendor device (cfg d (cfg_addr l 0))) pci_functions)"
proof -
  let ?q = "\<lambda>l. if has_ids vendor device (cfg d (cfg_addr l 0)) then Some l else None"
  have "cfg d' = cfg d \<and> found = take room ([] @ List.map_filter ?q pci_functions)"
    by (rule all_hits_pure [OF _ refl assms [unfolded find_device_any_fn_def]])
      (use read_u32 in \<open>fastforce split: prod.splits if_splits\<close>)+
  moreover have "List.map_filter ?q ls = filter (\<lambda>l. has_ids vendor device (cfg d (cfg_addr l 0))) ls" for ls
    by (induction ls) (simp_all add: List.map_filter_simps)
  ultimately show ?thesis by simp
qed

text \<open>Enabling a function writes the dword of the command register as it was read, with the status register in its upper half.\<close>

lemma enable_write: "\<exists>d1. cfg d1 = cfg d \<and> pci_enable_mmio_bm io l d = pci_write_u32 io l 0x04 (cfg d (cfg_addr l 0x04) OR 0x0006) d1"
proof -
  obtain v d1 where r1: "pci_read_u32 io l 0x04 d = (v, d1)" by fastforce
  obtain w d2 where r2: "pci_read_u32 io l 0x04 d1 = (w, d2)" by fastforce
  note read_u32 [OF r1] read_u32 [OF r2]
  then have "w = v" "v = cfg d (cfg_addr l 0x04)" "cfg d2 = cfg d" by simp_all
  moreover have "(v AND NOT 0xFFFF) OR ucast ((ucast (v AND 0xFFFF) :: u16) OR 6) = v OR 6"
  proof -
    have "bit (65535 :: int) n \<longleftrightarrow> n < 16" for n using bit_mask_iff [of 16 n, where 'a = int] by (simp add: mask_eq_exp_minus_1)
    moreover have "bit (6 :: int) n \<longleftrightarrow> n = 1 \<or> n = 2" for n
    proof -
      consider "n = 0" | "n = 1" | "n = 2" | m where "n = Suc (Suc (Suc m))" by (metis One_nat_def Suc_1 not0_implies_Suc)
      then show ?thesis by cases (simp_all add: bit_Suc bit_1_iff numeral_2_eq_2)
    qed
    ultimately show ?thesis by (intro bit_word_eqI) (auto simp: bit_simps)
  qed
  ultimately show ?thesis using r1 r2
    by (intro exI [of _ d2]) (simp add: pci_enable_mmio_bm_def pci_write_u16_def pci_read_u16_def Let_def)
qed

end

text \<open>An executable bus: the selected address, and the configuration space as a memory.\<close>

definition ref_ports :: "(u32 \<times> (u32 \<Rightarrow> u32)) pci_ports" where
  "ref_ports = \<lparr> pci_outl = (\<lambda>port v (a, c). if port = CONFIG_ADDRESS then (v, c) else if port = CONFIG_DATA then (a, c(a := v)) else (a, c)),
     pci_inl = (\<lambda>port (a, c). (if port = CONFIG_DATA then c a else 0, a, c)) \<rparr>"

lemma ref_pci_bus: "pci_bus ref_ports snd"
  by unfold_locales (auto simp: ref_ports_def)

interpretation ref_config: pci_bus ref_ports snd
  by (rule ref_pci_bus)

section \<open>Addresses and scans\<close>

text \<open>The functions that are scanned.\<close>

lemma byte_range: "n < 256 \<Longrightarrow> word_of_int ` {0..int n} = {x :: u8. unat x \<le> n}"
proof (rule set_eqI, rule iffI)
  fix x :: u8 assume n: "n < 256" and "x \<in> word_of_int ` {0..int n}"
  then obtain i where i: "x = word_of_int i" "0 \<le> i" "i \<le> int n" by (metis imageE atLeastAtMost_iff)
  have "take_bit 8 i = i" using i(2,3) n by (intro take_bit_int_eq_self) simp_all
  then have "uint x = i" using i(2) unfolding i(1) by (simp add: unsigned_of_int)
  moreover have "nat (uint x) = unat x" by (rule unat_eq_nat_uint [symmetric])
  ultimately have "unat x \<le> n" using i(3) by linarith
  then show "x \<in> {x. unat x \<le> n}" by (rule CollectI)
next
  fix x :: u8 assume "x \<in> {x. unat x \<le> n}"
  moreover have "nat (uint x) = unat x" by (rule unat_eq_nat_uint [symmetric])
  ultimately have "uint x \<in> {0..int n}" unfolding mem_Collect_eq atLeastAtMost_iff using uint_ge_0 [of x] by linarith
  then show "x \<in> word_of_int ` {0..int n}" by (metis image_eqI word_of_int_uint)
qed

lemma in_pci_functions: "(bus, slot, func) \<in> set pci_functions \<longleftrightarrow> bus < 8 \<and> slot < 32 \<and> func < 8"
proof -
  have 8: "set (map word_of_int [0..7]) = {x :: u8. unat x \<le> 7}" and 32: "set (map word_of_int [0..31]) = {x :: u8. unat x \<le> 31}"
    using byte_range [of 7] byte_range [of 31] unfolding set_map set_upto by simp_all
  have "set pci_slots = {x. unat x \<le> 7} \<times> {x. unat x \<le> 31}" unfolding pci_slots_def set_product 8 32 by (rule refl)
  then have "set pci_functions = (\<lambda>((bus, slot), func). (bus, slot, func)) ` (({x. unat x \<le> 7} \<times> {x. unat x \<le> 31}) \<times> {x. unat x \<le> 7})"
    unfolding pci_functions_def by (subst set_map, subst set_product) (simp only: 8)
  then show ?thesis by (auto simp: image_iff word_less_nat_alt)
qed

lemma cfg_addr_decodes:
  assumes "slot < 32" "func < 8"
  shows "ucast (drop_bit 16 (cfg_addr (bus, slot, func) off)) = bus"
    "ucast (drop_bit 11 (cfg_addr (bus, slot, func) off) AND 0x1F) = slot"
    "ucast (drop_bit 8 (cfg_addr (bus, slot, func) off) AND 7) = func"
    "ucast (cfg_addr (bus, slot, func) off) = off AND 0xFC"
proof -
  have "slot AND mask 5 = slot" "func AND mask 3 = func" using assms less_mask_eq [of slot 5] less_mask_eq [of func 3] by simp_all
  then obtain s f where m: "slot = s AND mask 5" "func = f AND mask 3" by metis
  define t :: u32 where "t = push_bit 31 1"
  have "bit t n \<longleftrightarrow> n = 31" for n unfolding t_def by (simp only: bit_simps) auto
  moreover have c: "(0x80000000 :: u32) = t" "(0x1F :: u32) = mask 5" "(7 :: u32) = mask 3" by (simp_all add: t_def mask_eq_exp_minus_1)
  note d = cfg_addr_def m c prod.case
  ultimately show "ucast (drop_bit 16 (cfg_addr (bus, slot, func) off)) = bus"
      "ucast (drop_bit 11 (cfg_addr (bus, slot, func) off) AND 0x1F) = slot"
      "ucast (drop_bit 8 (cfg_addr (bus, slot, func) off) AND 7) = func"
      "ucast (cfg_addr (bus, slot, func) off) = off AND 0xFC"
    unfolding d by (auto simp: bit_simps intro!: bit_word_eqI)
qed

text \<open>
  On any PCI bus \<open>find_device_any_fn\<close> returns exactly the functions of the buses 0 to 7 with the vendor and the
  device asked for, in the order of bus, slot and function, up to the room of the caller, and leaves the configuration as it was.
\<close>

theorem device_scan:
  assumes "pci_bus io cfg" "find_device_any_fn io vendor device room d = (found, d')"
  shows "cfg d' = cfg d \<and> found = take room (filter (\<lambda>l. has_ids vendor device (cfg d (cfg_addr l 0))) pci_functions)"
  using pci_bus.device_hits [OF assms] .

theorem device_scan_witness:
  "fst (find_device_any_fn ref_ports 0x1AF4 0x1042 8 (0, \<lambda>_. 0xFFFFFFFF)) = []
    \<and> fst (find_device_any_fn ref_ports 0x1AF4 0x1042 8 (0, \<lambda>_. 0x10421AF4)) = take 8 pci_functions"
proof
  have r: "fst (find_device_any_fn ref_ports 0x1AF4 0x1042 8 (0, c)) = take 8 (filter (\<lambda>l. has_ids 0x1AF4 0x1042 (c (cfg_addr l 0))) pci_functions)" for c
    using device_scan [OF ref_pci_bus, where vendor = "0x1AF4" and device = "0x1042" and room = 8 and d = "(0, c)"] by (metis prod.collapse snd_conv)
  show "fst (find_device_any_fn ref_ports 0x1AF4 0x1042 8 (0, \<lambda>_. 0xFFFFFFFF)) = []" by (simp add: r has_ids_def absent_def)
  show "fst (find_device_any_fn ref_ports 0x1AF4 0x1042 8 (0, \<lambda>_. 0x10421AF4)) = take 8 pci_functions" by (simp add: r has_ids_def absent_def)
qed

end
