(* ===== verification/Eve_Virtio_Net.thy ===== *)
theory Eve_Virtio_Net
  imports Eve_Virtio_Blk Eve_Net_Reach
begin

text \<open>
  The VirtIO network driver, \<open>kernel/src/virtio_net.rs\<close>: the receive queue with its one buffer, the transmit queue with one
  packet in flight, and the stripping of the packet header. As for the block driver the device is the
  parameter \<open>hw\<close>; what VirtIO promises about it is the locale \<open>net_device\<close>. The locale
  \<open>network_card\<close> is what the network stack relies on; the driver on any conforming device provides it.
\<close>

section \<open>The shared pages and the driver state\<close>

abbreviation (input) "RX_BUFFER_BYTES \<equiv> 4096 :: nat"
abbreviation (input) "TX_BUFFER_BYTES \<equiv> 4096 :: nat"

record rx_pages =
  rx_desc :: "virtq_desc list"
  rx_avail_flags :: u16
  rx_avail_idx :: u16
  rx_avail_ring :: "u16 list"
  rx_used_flags :: u16
  rx_used_idx :: u16
  rx_used_ring :: "(u32 \<times> u32) list"
  rx_buf :: bytes

record tx_pages =
  tx_desc :: "virtq_desc list"
  tx_avail_flags :: u16
  tx_avail_idx :: u16
  tx_avail_ring :: "u16 list"
  tx_used_flags :: u16
  tx_used_idx :: u16
  tx_buf :: bytes

text \<open>\<open>rx_addr\<close> and \<open>tx_addr\<close> are the addresses of the two buffers.\<close>

record virtio_net =
  vn_common :: u64
  vn_notify :: u64
  vn_notify_mul :: u32
  vn_skew :: "u64 option"
  vn_rx :: rx_pages
  vn_tx :: tx_pages
  rx_addr :: u64
  tx_addr :: u64
  rx_mask :: usize
  tx_mask :: usize
  vn_mac :: mac
  vn_packets :: u64
  rx_last_used :: u16
  tx_last_used :: u16
  tx_inflight :: bool

definition net_phys :: "virtio_net \<Rightarrow> u64 \<Rightarrow> u64" where
  "net_phys n virt = (case vn_skew n of Some off \<Rightarrow> virt - off | None \<Rightarrow> virt)"

text \<open>
  The device: its notify offset registers, its reaction to the doorbell of each queue, and what it has
  written by the time the driver looks. The pages of the transmit queue are given at each poll.
\<close>

record 'd net_hw =
  nh_notify_off :: "'d \<Rightarrow> u16 \<Rightarrow> u16"
  nh_rx_notify :: "'d \<Rightarrow> u64 \<Rightarrow> rx_pages \<Rightarrow> 'd"
  nh_rx :: "'d \<Rightarrow> rx_pages \<Rightarrow> rx_pages \<times> 'd"
  nh_tx_wait :: "'d \<Rightarrow> tx_pages \<Rightarrow> nat \<Rightarrow> tx_pages"
  nh_tx_kick :: "'d \<Rightarrow> u64 \<Rightarrow> tx_pages \<Rightarrow> (nat \<Rightarrow> tx_pages) \<times> 'd"

definition net_doorbell :: "virtio_net \<Rightarrow> u16 \<Rightarrow> u64" where
  "net_doorbell n qn = vn_notify n + ucast ((ucast qn :: u32) * vn_notify_mul n)"

section \<open>Receiving\<close>

definition is_ethertype :: "u8 \<Rightarrow> u8 \<Rightarrow> bool" where
  "is_ethertype a b \<longleftrightarrow> of_be16 a b = 0x0800 \<or> of_be16 a b = 0x0806"

definition virtio_net_hdr_len :: "bytes \<Rightarrow> usize" where
  "virtio_net_hdr_len pkt =
     (if 14 \<le> length pkt \<and> is_ethertype (pkt ! 12) (pkt ! 13) then 0
      else if 12 \<le> length pkt \<and> is_ethertype (pkt ! 10) (pkt ! 11) then 10
      else min 12 (length pkt))"

definition requeue_rx_only :: "'d net_hw \<Rightarrow> virtio_net \<Rightarrow> 'd \<Rightarrow> virtio_net \<times> 'd" where
  "requeue_rx_only hw n d =
     (let p = vn_rx n;
          p = p\<lparr> rx_desc := (rx_desc p)[0 := (rx_desc p ! 0)\<lparr> desc_addr := net_phys n (rx_addr n), desc_len := of_nat RX_BUFFER_BYTES,
                                                         desc_flags := VIRTQ_DESC_F_WRITE \<rparr>] \<rparr>;
          ai = rx_avail_idx p; slot = unat ai AND rx_mask n;
          p = p\<lparr> rx_avail_ring := (rx_avail_ring p)[slot := 0], rx_avail_idx := ai + 1 \<rparr>
      in (n\<lparr> vn_rx := p \<rparr>, nh_rx_notify hw d (net_doorbell n (nh_notify_off hw d 0)) p))"

text \<open>\<open>room\<close> is the size of the caller's buffer; the result is the frame and its length.\<close>

definition poll_rx_packet :: "'d net_hw \<Rightarrow> usize \<Rightarrow> virtio_net \<times> 'd \<Rightarrow> (usize \<times> bytes) option \<times> virtio_net \<times> 'd" where
  "poll_rx_packet hw room = (\<lambda>(n, d).
     let (p, d) = nh_rx hw d (vn_rx n);
         n = n\<lparr> vn_rx := p \<rparr>
     in if rx_last_used n = rx_used_idx p then (None, n, d)
        else let slot = unat (rx_last_used n) AND rx_mask n;
                 total = unat (snd (rx_used_ring p ! slot));
                 n = n\<lparr> rx_last_used := rx_last_used n + 1, vn_packets := vn_packets n + 1 \<rparr>
             in if total = 0 \<or> RX_BUFFER_BYTES < total then (None, requeue_rx_only hw n d)
                else let hdr = virtio_net_hdr_len (take total (rx_buf p)); body = total - hdr
                     in if body = 0 \<or> room < body then (None, requeue_rx_only hw n d)
                        else (Some (body, slice (rx_buf p) hdr total), requeue_rx_only hw n d))"

section \<open>Sending\<close>

text \<open>The bounded poll of \<open>used.idx\<close>: the read at which it had changed.\<close>

fun poll_tx :: "(nat \<Rightarrow> tx_pages) \<Rightarrow> u16 \<Rightarrow> nat \<Rightarrow> nat \<Rightarrow> nat option" where
  "poll_tx mem lu t 0 = None"
| "poll_tx mem lu t (Suc k) = (if tx_used_idx (mem t) \<noteq> lu then Some t else poll_tx mem lu (Suc t) k)"

definition net_transmit :: "'d net_hw \<Rightarrow> bytes \<Rightarrow> virtio_net \<times> 'd \<Rightarrow> bool \<times> virtio_net \<times> 'd" where
  "net_transmit hw pkt = (\<lambda>(n, d).
     let n = (if tx_inflight n
              then let mem = nh_tx_wait hw d (vn_tx n)
                   in case poll_tx mem (tx_last_used n) 0 500000 of
                        Some t \<Rightarrow> n\<lparr> vn_tx := mem t, tx_last_used := tx_used_idx (mem t), tx_inflight := False \<rparr>
                      | None \<Rightarrow> n\<lparr> vn_tx := mem 500000 \<rparr>
              else n)
     in if pkt = [] \<or> TX_BUFFER_BYTES < length pkt then (False, n, d)
        else let p = vn_tx n;
                 p = p\<lparr> tx_buf := put_at (tx_buf p) 0 pkt,
                        tx_desc := (tx_desc p)[0 := \<lparr> desc_addr = net_phys n (tx_addr n), desc_len = of_nat (length pkt),
                                                       desc_flags = 0, desc_next = 0 \<rparr>] \<rparr>;
                 ai = tx_avail_idx p; slot = unat ai AND tx_mask n;
                 p = p\<lparr> tx_avail_ring := (tx_avail_ring p)[slot := 0], tx_avail_idx := ai + 1 \<rparr>;
                 (mem, d) = nh_tx_kick hw d (net_doorbell n (nh_notify_off hw d 1)) p
             in case poll_tx mem (tx_last_used n) 0 500000 of
                  Some t \<Rightarrow> (True, n\<lparr> vn_tx := mem t, tx_last_used := tx_used_idx (mem t), tx_inflight := False \<rparr>, d)
                | None \<Rightarrow> (False, n\<lparr> vn_tx := mem 500000, tx_inflight := False \<rparr>, d))"

text \<open>The driver as a card of the network stack, whose receive buffer has 2048 bytes.\<close>

definition virtio_card :: "'d net_hw \<Rightarrow> (virtio_net \<times> 'd) nic_ops" where
  "virtio_card hw = \<lparr> nic_transmit = net_transmit hw, nic_poll = poll_rx_packet hw 2048 \<rparr>"

section \<open>What the network stack relies on\<close>

text \<open>The frames received by a number of polls.\<close>

fun receive :: "('s \<Rightarrow> (usize \<times> bytes) option \<times> 's) \<Rightarrow> nat \<Rightarrow> 's \<Rightarrow> bytes list \<times> 's" where
  "receive poll 0 s = ([], s)"
| "receive poll (Suc k) s =
     (case poll s of
        (None, s) \<Rightarrow> receive poll k s
      | (Some (len, f), s) \<Rightarrow> (case receive poll k s of (fs, s) \<Rightarrow> (take len f # fs, s)))"

text \<open>
  A card as its client sees it: a poll hands over the oldest waiting frame, or nothing; a frame that
  fits is sent, once and unchanged.
\<close>

locale network_card =
  fixes poll :: "'s \<Rightarrow> (usize \<times> bytes) option \<times> 's" and transmit :: "bytes \<Rightarrow> 's \<Rightarrow> bool \<times> 's"
    and ok :: "'s \<Rightarrow> bool" and incoming sent :: "'s \<Rightarrow> bytes list"
  assumes poll_ok: "ok s \<Longrightarrow> (\<exists>s'. poll s = (None, s') \<and> ok s' \<and> incoming s' = incoming s \<and> sent s' = sent s)
      \<or> (\<exists>f s'. incoming s = f # incoming s' \<and> poll s = (Some (length f, f), s') \<and> ok s' \<and> sent s' = sent s)"
    and transmit_ok: "ok s \<Longrightarrow> pkt \<noteq> [] \<Longrightarrow> length pkt \<le> 4096 \<Longrightarrow>
      \<exists>s'. transmit pkt s = (True, s') \<and> ok s' \<and> incoming s' = incoming s \<and> sent s' = sent s @ [pkt]"
begin

text \<open>The frames received are the oldest, complete and in order.\<close>

lemma receive_order: "ok s \<Longrightarrow> receive poll k s = (fs, s') \<Longrightarrow> ok s' \<and> incoming s = fs @ incoming s' \<and> sent s' = sent s"
proof (induction k arbitrary: s fs)
  case (Suc k)
  from poll_ok [OF Suc.prems(1)] show ?case
  proof
    assume "\<exists>s'. poll s = (None, s') \<and> ok s' \<and> incoming s' = incoming s \<and> sent s' = sent s"
    then obtain s1 where "poll s = (None, s1)" "ok s1" "incoming s1 = incoming s" "sent s1 = sent s" by blast
    with Suc.IH [of s1 fs] Suc.prems(2) show ?thesis by simp
  next
    assume "\<exists>f s'. incoming s = f # incoming s' \<and> poll s = (Some (length f, f), s') \<and> ok s' \<and> sent s' = sent s"
    then obtain f s1 where s1: "incoming s = f # incoming s1" "poll s = (Some (length f, f), s1)" "ok s1" "sent s1 = sent s" by blast
    obtain fs1 where fs1: "receive poll k s1 = (fs1, s')" "fs = f # fs1"
      using Suc.prems(2) s1(2) by (auto split: prod.splits)
    from Suc.IH [OF s1(3) fs1(1)] fs1(2) s1 show ?thesis by simp
  qed
qed simp

end

section \<open>What VirtIO promises\<close>

definition rx_offered :: "virtio_net \<Rightarrow> rx_pages \<Rightarrow> bool" where
  "rx_offered n p \<longleftrightarrow> rx_avail_idx p = rx_used_idx p + 1 \<and> rx_avail_ring p ! (unat (rx_used_idx p) AND rx_mask n) = 0
     \<and> desc_addr (rx_desc p ! 0) = net_phys n (rx_addr n) \<and> desc_len (rx_desc p ! 0) = 4096 \<and> desc_flags (rx_desc p ! 0) = 2"

definition tx_offered :: "virtio_net \<Rightarrow> tx_pages \<Rightarrow> bytes \<Rightarrow> bool" where
  "tx_offered n p pkt \<longleftrightarrow> tx_avail_ring p ! (unat (tx_avail_idx p - 1) AND tx_mask n) = 0
     \<and> tx_desc p ! 0 = \<lparr> desc_addr = net_phys n (tx_addr n), desc_len = of_nat (length pkt), desc_flags = 0, desc_next = 0 \<rparr>
     \<and> take (length pkt) (tx_buf p) = pkt"

text \<open>
  A conforming device (VirtIO 1.0, sections 2.6 and 5.1.6) with the packets \<open>inbox\<close> still to deliver, each with its
  header. It fills an offered buffer with the oldest packet, at once or later, never uses more buffers than it has packets, and takes over
  a packet that is offered for sending within the driver's poll budget. \<open>qm\<close> is the index mask of its receive queue.
\<close>

locale net_device =
  fixes hw :: "'d net_hw" and qm :: nat and inbox sent :: "'d \<Rightarrow> bytes list"
  assumes delivers: "rx_offered n p \<Longrightarrow> rx_mask n = qm \<Longrightarrow> nh_rx hw d p = (p', d') \<Longrightarrow> p' = p \<and> inbox d' = inbox d \<and> sent d' = sent d
      \<or> (\<exists>f rest id. inbox d = f # inbox d' \<and> sent d' = sent d \<and> length (f @ rest) = length (rx_buf p)
           \<and> p' = p\<lparr> rx_used_idx := rx_used_idx p + 1,
                      rx_used_ring := (rx_used_ring p)[unat (rx_used_idx p) AND qm := (id, of_nat (length f))], rx_buf := f @ rest \<rparr>)"
    and budget: "nh_rx hw d p = (p', d') \<Longrightarrow> \<exists>k. rx_used_idx p' = rx_used_idx p + of_nat k \<and> length (inbox d') + k \<le> length (inbox d)"
    and notified: "inbox (nh_rx_notify hw d a p) = inbox d" "sent (nh_rx_notify hw d a p) = sent d"
    and sends: "tx_offered n q pkt \<Longrightarrow> length pkt \<le> 4096 \<Longrightarrow> nh_tx_kick hw d (net_doorbell n (nh_notify_off hw d 1)) q = (mem, d') \<Longrightarrow>
      sent d' = sent d @ [pkt] \<and> (\<exists>t<500000. (\<forall>k<t. tx_used_idx (mem k) = tx_used_idx q) \<and> mem t = q\<lparr> tx_used_idx := tx_used_idx q + 1 \<rparr>)"
    and kicked: "nh_tx_kick hw d a q = (mem, d') \<Longrightarrow> inbox d' = inbox d"

text \<open>
  The driver's invariant: the receive buffer is offered, nothing is in flight, and the packets the device will
  deliver are frames behind a header of twelve bytes that does not look like a shorter one.
\<close>

definition rx_packet_ok :: "bytes \<Rightarrow> bool" where
  "rx_packet_ok pkt \<longleftrightarrow> 14 \<le> length pkt \<and> length pkt \<le> 2060 \<and> \<not> is_ethertype (pkt ! 12) (pkt ! 13) \<and> \<not> is_ethertype (pkt ! 10) (pkt ! 11)"

definition net_driver_ok :: "nat \<Rightarrow> virtio_net \<Rightarrow> bool" where
  "net_driver_ok qm n \<longleftrightarrow> length (rx_desc (vn_rx n)) = 256 \<and> length (rx_avail_ring (vn_rx n)) = 256 \<and> length (rx_used_ring (vn_rx n)) = 256
     \<and> length (rx_buf (vn_rx n)) = 4096 \<and> rx_mask n = qm \<and> qm < 256 \<and> rx_last_used n = rx_used_idx (vn_rx n) \<and> rx_offered n (vn_rx n)
     \<and> length (tx_desc (vn_tx n)) = 8 \<and> length (tx_avail_ring (vn_tx n)) = 8 \<and> length (tx_buf (vn_tx n)) = 4096 \<and> tx_mask n < 8
     \<and> tx_last_used n = tx_used_idx (vn_tx n) \<and> \<not> tx_inflight n"

lemma mask_bound: "q < m \<Longrightarrow> i AND q < (m :: nat)"
  by (simp add: and_nat_def AND_upper2'' nat_less_iff)

lemma poll_tx_found:
  "(\<forall>k<t. tx_used_idx (mem (i + k)) = lu) \<Longrightarrow> tx_used_idx (mem (i + t)) \<noteq> lu \<Longrightarrow> t < m \<Longrightarrow> poll_tx mem lu i m = Some (i + t)"
proof (induction m arbitrary: i t)
  case (Suc m)
  show ?case
  proof (cases t)
    case 0
    with Suc.prems show ?thesis by simp
  next
    case (Suc t')
    have "tx_used_idx (mem i) = lu" using Suc.prems(1) Suc by (metis add_0_right zero_less_Suc)
    moreover have "poll_tx mem lu (Suc i) m = Some (Suc i + t')"
    proof (rule Suc.IH)
      show "\<forall>k<t'. tx_used_idx (mem (Suc i + k)) = lu" using Suc.prems(1) Suc by (metis Suc_less_eq add_Suc_shift)
    qed (use Suc.prems Suc in simp_all)
    ultimately show ?thesis using Suc by simp
  qed
qed simp

lemma rx_packet_header: "rx_packet_ok pkt \<Longrightarrow> virtio_net_hdr_len pkt = 12"
  by (simp add: rx_packet_ok_def virtio_net_hdr_len_def)

lemma net_phys_update [simp]:
  "net_phys (n\<lparr> vn_rx := p \<rparr>) a = net_phys n a" "net_phys (n\<lparr> vn_tx := q \<rparr>) a = net_phys n a"
  "net_phys (n\<lparr> rx_last_used := lu \<rparr>) a = net_phys n a" "net_phys (n\<lparr> vn_packets := c \<rparr>) a = net_phys n a"
  "net_phys (n\<lparr> tx_last_used := lu \<rparr>) a = net_phys n a" "net_phys (n\<lparr> tx_inflight := b \<rparr>) a = net_phys n a"
  by (simp_all add: net_phys_def)

text \<open>Putting the buffer back restores the invariant.\<close>

lemma requeued:
  assumes "net_driver_ok qm n0" "n = n0\<lparr> vn_rx := p, rx_last_used := rx_used_idx p, vn_packets := c \<rparr>"
    "length (rx_desc p) = 256" "length (rx_avail_ring p) = 256" "length (rx_used_ring p) = 256" "length (rx_buf p) = 4096"
    "rx_avail_idx p = rx_used_idx p"
  shows "net_driver_ok qm (fst (requeue_rx_only hw n d))"
  using assms(1,3-7) mask_bound [of "rx_mask n0" 256 "unat (rx_used_idx p)"] unfolding net_driver_ok_def assms(2)
  by (simp add: requeue_rx_only_def Let_def rx_offered_def)

context net_device
begin

abbreviation card_ok :: "virtio_net \<times> 'd \<Rightarrow> bool" where
  "card_ok s \<equiv> net_driver_ok qm (fst s) \<and> list_all rx_packet_ok (inbox (snd s))"

abbreviation frames :: "virtio_net \<times> 'd \<Rightarrow> bytes list" where
  "frames s \<equiv> map (drop 12) (inbox (snd s))"

lemma requeue_device: "requeue_rx_only hw n d = (n', d') \<Longrightarrow> inbox d' = inbox d \<and> sent d' = sent d"
  by (auto simp: requeue_rx_only_def Let_def notified)

lemma poll_frame:
  assumes "card_ok (n, d)"
  shows "(\<exists>s'. poll_rx_packet hw 2048 (n, d) = (None, s') \<and> card_ok s' \<and> frames s' = frames (n, d) \<and> sent (snd s') = sent d)
    \<or> (\<exists>f s'. frames (n, d) = f # frames s' \<and> poll_rx_packet hw 2048 (n, d) = (Some (length f, f), s') \<and> card_ok s'
          \<and> sent (snd s') = sent d)"
proof -
  have n: "net_driver_ok qm n" "list_all rx_packet_ok (inbox d)" using assms by simp_all
  then have off: "rx_offered n (vn_rx n)" "rx_mask n = qm" and lu: "rx_last_used n = rx_used_idx (vn_rx n)" by (simp_all add: net_driver_ok_def)
  obtain p' d' where rx: "nh_rx hw d (vn_rx n) = (p', d')" by fastforce
  from delivers [OF off rx] show ?thesis
  proof
    assume same: "p' = vn_rx n \<and> inbox d' = inbox d \<and> sent d' = sent d"
    then have "poll_rx_packet hw 2048 (n, d) = (None, n, d')" using rx lu by (simp add: poll_rx_packet_def Let_def)
    then show ?thesis using n same by auto
  next
    assume "\<exists>f rest id. inbox d = f # inbox d' \<and> sent d' = sent d \<and> length (f @ rest) = length (rx_buf (vn_rx n))
           \<and> p' = vn_rx n\<lparr> rx_used_idx := rx_used_idx (vn_rx n) + 1,
                      rx_used_ring := (rx_used_ring (vn_rx n))[unat (rx_used_idx (vn_rx n)) AND qm := (id, of_nat (length f))], rx_buf := f @ rest \<rparr>"
    then obtain f rest id where f: "inbox d = f # inbox d'" "sent d' = sent d" "length (f @ rest) = length (rx_buf (vn_rx n))"
      and p': "p' = vn_rx n\<lparr> rx_used_idx := rx_used_idx (vn_rx n) + 1,
                      rx_used_ring := (rx_used_ring (vn_rx n))[unat (rx_used_idx (vn_rx n)) AND qm := (id, of_nat (length f))], rx_buf := f @ rest \<rparr>"
      by blast
    have pk: "rx_packet_ok f" "list_all rx_packet_ok (inbox d')" using n(2) f(1) by simp_all
    then have len: "12 < length f" "length f \<le> 2060" by (simp_all add: rx_packet_ok_def)
    define n1 where "n1 = n\<lparr> vn_rx := p', rx_last_used := rx_used_idx p', vn_packets := vn_packets n + 1 \<rparr>"
    obtain n2 d2 where rq: "requeue_rx_only hw n1 d' = (n2, d2)" by fastforce
    have "net_driver_ok qm (fst (requeue_rx_only hw n1 d'))"
    proof (rule requeued [OF n(1) n1_def])
      show "rx_avail_idx p' = rx_used_idx p'" using off(1) by (simp add: p' rx_offered_def)
    qed (use n(1) f(3) in \<open>simp_all add: p' net_driver_ok_def\<close>)
    then have ok2: "net_driver_ok qm n2" by (simp add: rq)
    have slot: "unat (rx_used_idx (vn_rx n)) AND qm < length (rx_used_ring (vn_rx n))"
      using n(1) mask_bound [of qm 256] by (simp add: net_driver_ok_def)
    have fits: "\<not> (length f = 0 \<or> 4096 < length f)" "\<not> (length f - 12 = 0 \<or> 2048 < length f - 12)" using len by linarith+
    have total: "unat (of_nat (length f) :: u32) = length f" using len by (simp add: unat_of_nat_small)
    have "poll_rx_packet hw 2048 (n, d) = (Some (length f - 12, drop 12 f), n2, d2)"
      using rq lu off(2) slot total rx_packet_header [OF pk(1)] fits
      unfolding poll_rx_packet_def case_prod_conv rx Let_def
      by (simp add: p' slice_def n1_def)
    then show ?thesis using f(1,2) ok2 pk(2) requeue_device [OF rq] by (intro disjI2 exI [of _ "drop 12 f"] exI [of _ "(n2, d2)"]) simp
  qed
qed

lemma transmit_frame:
  assumes "card_ok (n, d)" "pkt \<noteq> []" "length pkt \<le> 4096"
  shows "\<exists>s'. net_transmit hw pkt (n, d) = (True, s') \<and> card_ok s' \<and> frames s' = frames (n, d) \<and> sent (snd s') = sent d @ [pkt]"
proof -
  have n: "net_driver_ok qm n" "list_all rx_packet_ok (inbox d)" using assms by simp_all
  define q0 where "q0 = (vn_tx n)\<lparr> tx_buf := put_at (tx_buf (vn_tx n)) 0 pkt,
    tx_desc := (tx_desc (vn_tx n))[0 := \<lparr> desc_addr = net_phys n (tx_addr n), desc_len = of_nat (length pkt), desc_flags = 0, desc_next = 0 \<rparr>] \<rparr>"
  define q where "q = q0\<lparr> tx_avail_ring := (tx_avail_ring q0)[unat (tx_avail_idx q0) AND tx_mask n := 0], tx_avail_idx := tx_avail_idx q0 + 1 \<rparr>"
  have len: "length (tx_desc (vn_tx n)) = 8" "length (tx_avail_ring (vn_tx n)) = 8" "length (tx_buf (vn_tx n)) = 4096" "tx_mask n < 8"
    "tx_last_used n = tx_used_idx (vn_tx n)" "\<not> tx_inflight n" using n(1) by (simp_all add: net_driver_ok_def)
  have off: "tx_offered n q pkt"
    using len assms(3) mask_bound [OF len(4), of "unat (tx_avail_idx (vn_tx n))"] by (simp add: tx_offered_def q_def q0_def put_at_def)
  obtain mem d' where kick: "nh_tx_kick hw d (net_doorbell n (nh_notify_off hw d 1)) q = (mem, d')" by fastforce
  obtain t where t: "sent d' = sent d @ [pkt]" "t < 500000" "\<forall>k<t. tx_used_idx (mem k) = tx_used_idx q" "mem t = q\<lparr> tx_used_idx := tx_used_idx q + 1 \<rparr>"
    using sends [OF off assms(3) kick] by blast
  have lu: "tx_last_used n = tx_used_idx q" using len(5) by (simp add: q_def q0_def)
  have "poll_tx mem (tx_last_used n) 0 500000 = Some (0 + t)"
    by (rule poll_tx_found) (use t lu in simp_all)
  then have "net_transmit hw pkt (n, d)
      = (True, n\<lparr> vn_tx := mem t, tx_last_used := tx_used_idx (mem t), tx_inflight := False \<rparr>, d')"
    using len assms(2,3) kick unfolding net_transmit_def case_prod_conv Let_def by (simp add: q_def q0_def not_less)
  moreover have "net_driver_ok qm (n\<lparr> vn_tx := mem t, tx_last_used := tx_used_idx (mem t), tx_inflight := False \<rparr>)"
    using n(1) assms(3) by (auto simp: net_driver_ok_def t(4) q_def q0_def rx_offered_def)
  ultimately show ?thesis using t(1) n(2) kicked [OF kick] by simp
qed

text \<open>The rank of the receive loop: packets to come, and used entries the driver has not looked at.\<close>

definition net_rank :: "virtio_net \<times> 'd \<Rightarrow> nat" where
  "net_rank s = length (inbox (snd s)) + unat (rx_used_idx (vn_rx (fst s)) - rx_last_used (fst s))"

lemma requeue_rank:
  "requeue_rx_only hw n d = (n', d') \<Longrightarrow> net_rank (n', d') = net_rank (n, d)"
  by (auto simp: requeue_rx_only_def Let_def net_rank_def notified)

lemma poll_rank:
  assumes "poll_rx_packet hw room (n, d) = (r, s')"
  shows "net_rank s' \<le> net_rank (n, d) \<and> (r \<noteq> None \<longrightarrow> net_rank s' < net_rank (n, d))"
proof -
  obtain p' d' where rx: "nh_rx hw d (vn_rx n) = (p', d')" by fastforce
  obtain k where k: "rx_used_idx p' = rx_used_idx (vn_rx n) + of_nat k" "length (inbox d') + k \<le> length (inbox d)"
    using budget [OF rx] by blast
  have "unat (rx_used_idx p' - rx_last_used n) \<le> unat (rx_used_idx (vn_rx n) - rx_last_used n) + k"
  proof -
    have "rx_used_idx p' - rx_last_used n = (rx_used_idx (vn_rx n) - rx_last_used n) + of_nat k" using k(1) by simp
    then show ?thesis by (metis unat_of_nat unat_word_ariths(1) mod_less_eq_dividend mod_add_right_eq)
  qed
  then have le: "net_rank (n\<lparr> vn_rx := p' \<rparr>, d') \<le> net_rank (n, d)" using k(2) by (simp add: net_rank_def)
  show ?thesis
  proof (cases "rx_last_used n = rx_used_idx p'")
    case True
    then show ?thesis using assms rx le by (auto simp: poll_rx_packet_def)
  next
    case False
    define n1 where "n1 = n\<lparr> vn_rx := p', rx_last_used := rx_last_used n + 1, vn_packets := vn_packets n + 1 \<rparr>"
    have "rx_used_idx p' - rx_last_used n \<noteq> 0" using False by simp
    then have "unat (rx_used_idx p' - rx_last_used n - 1) < unat (rx_used_idx p' - rx_last_used n)"
      by (simp add: unat_minus_one unat_gt_0)
    then have "net_rank (n1, d') < net_rank (n\<lparr> vn_rx := p' \<rparr>, d')" by (simp add: net_rank_def n1_def diff_diff_eq)
    moreover have "s' = requeue_rx_only hw n1 d'"
      using assms False rx by (auto simp: poll_rx_packet_def Let_def n1_def split: if_splits)
    moreover obtain n2 d2 where "requeue_rx_only hw n1 d' = (n2, d2)" by fastforce
    ultimately show ?thesis using le requeue_rank by fastforce
  qed
qed

lemma transmit_rank: "net_rank (snd (net_transmit hw pkt (n, d))) \<le> net_rank (n, d)"
  using kicked by (auto simp: net_transmit_def Let_def net_rank_def split: option.split prod.split)

lemma virtio_drains: "card_drains (virtio_card hw) net_rank"
  using poll_rank transmit_rank by (auto simp: card_drains_def virtio_card_def)

end

sublocale net_device \<subseteq> card: network_card "poll_rx_packet hw 2048" "net_transmit hw"
  "\<lambda>s. net_driver_ok qm (fst s) \<and> list_all rx_packet_ok (inbox (snd s))" "\<lambda>s. map (drop 12) (inbox (snd s))" "\<lambda>s. sent (snd s)"
proof
  fix s :: "virtio_net \<times> 'd" and pkt
  assume s: "net_driver_ok qm (fst s) \<and> list_all rx_packet_ok (inbox (snd s))"
  then have s': "net_driver_ok qm (fst (fst s, snd s)) \<and> list_all rx_packet_ok (inbox (snd (fst s, snd s)))" by simp
  show "(\<exists>s'. poll_rx_packet hw 2048 s = (None, s') \<and> (net_driver_ok qm (fst s') \<and> list_all rx_packet_ok (inbox (snd s')))
        \<and> map (drop 12) (inbox (snd s')) = map (drop 12) (inbox (snd s)) \<and> sent (snd s') = sent (snd s))
      \<or> (\<exists>f s'. map (drop 12) (inbox (snd s)) = f # map (drop 12) (inbox (snd s')) \<and> poll_rx_packet hw 2048 s = (Some (length f, f), s')
        \<and> (net_driver_ok qm (fst s') \<and> list_all rx_packet_ok (inbox (snd s'))) \<and> sent (snd s') = sent (snd s))"
    using poll_frame [OF s'] by (simp only: prod.collapse fst_conv snd_conv)
  show "pkt \<noteq> [] \<Longrightarrow> length pkt \<le> 4096 \<Longrightarrow> \<exists>s'. net_transmit hw pkt s = (True, s')
      \<and> (net_driver_ok qm (fst s') \<and> list_all rx_packet_ok (inbox (snd s')))
      \<and> map (drop 12) (inbox (snd s')) = map (drop 12) (inbox (snd s)) \<and> sent (snd s') = sent (snd s) @ [pkt]"
    using transmit_frame [OF s', of pkt] by simp
qed

context net_device
begin

lemma faithful:
  assumes "net_driver_ok qm n" "list_all rx_packet_ok (inbox d)" "receive (poll_rx_packet hw 2048) k (n, d) = (fs, n1, d1)"
    "pkt \<noteq> []" "length pkt \<le> 4096"
  shows "map (drop 12) (inbox d) = fs @ map (drop 12) (inbox d1) \<and> sent d1 = sent d
    \<and> (\<exists>n2 d2. net_transmit hw pkt (n1, d1) = (True, n2, d2) \<and> sent d2 = sent d @ [pkt]
         \<and> map (drop 12) (inbox d2) = map (drop 12) (inbox d1) \<and> net_driver_ok qm n2)"
  using card.receive_order [OF _ assms(3)] card.transmit_ok [of "(n1, d1)" pkt] assms(1,2,4,5) by fastforce

end

section \<open>A reference device\<close>

text \<open>
  An executable device: a list of packets to deliver and a list of packets sent. It fills the buffer as soon as it
  is offered and takes over a packet at the third poll.
\<close>

definition ref_net :: "(bytes list \<times> bytes list) net_hw" where
  "ref_net = \<lparr> nh_notify_off = (\<lambda>_ q. q), nh_rx_notify = (\<lambda>d _ _. d),
     nh_rx = (\<lambda>(inbox, sent) p.
       case inbox of
         [] \<Rightarrow> (p, [], sent)
       | f # fs \<Rightarrow>
           if rx_avail_idx p = rx_used_idx p + 1 \<and> length f \<le> length (rx_buf p)
           then (p\<lparr> rx_used_idx := rx_used_idx p + 1,
                    rx_used_ring := (rx_used_ring p)[unat (rx_used_idx p) AND 255 := (0, of_nat (length f))],
                    rx_buf := f @ drop (length f) (rx_buf p) \<rparr>, fs, sent)
           else (p, f # fs, sent)),
     nh_tx_wait = (\<lambda>_ q _. q),
     nh_tx_kick = (\<lambda>(inbox, sent) _ q. (\<lambda>t. if t < 2 then q else q\<lparr> tx_used_idx := tx_used_idx q + 1 \<rparr>,
       inbox, sent @ [take (unat (desc_len (tx_desc q ! 0))) (tx_buf q)])) \<rparr>"

lemma ref_net_device: "net_device ref_net 255 fst snd"
proof
  fix n p d p' d' assume r: "nh_rx ref_net d p = (p', d')"
  show "p' = p \<and> fst d' = fst d \<and> snd d' = snd d
      \<or> (\<exists>f rest id. fst d = f # fst d' \<and> snd d' = snd d \<and> length (f @ rest) = length (rx_buf p)
           \<and> p' = p\<lparr> rx_used_idx := rx_used_idx p + 1,
                      rx_used_ring := (rx_used_ring p)[unat (rx_used_idx p) AND 255 := (id, of_nat (length f))], rx_buf := f @ rest \<rparr>)"
  proof (cases "fst d")
    case (Cons f fs)
    show ?thesis
    proof (cases "rx_avail_idx p = rx_used_idx p + 1 \<and> length f \<le> length (rx_buf p)")
      case True
      then show ?thesis using r Cons
        by (intro disjI2 exI [of _ f] exI [of _ "drop (length f) (rx_buf p)"] exI [of _ 0]) (auto simp: ref_net_def split_beta)
    qed (use r Cons in \<open>auto simp: ref_net_def split_beta\<close>)
  qed (use r in \<open>auto simp: ref_net_def split_beta\<close>)
  show "\<exists>k. rx_used_idx p' = rx_used_idx p + of_nat k \<and> length (fst d') + k \<le> length (fst d)"
    using r by (cases "fst d") (auto simp: ref_net_def split_beta split: if_splits intro: exI [of _ 1] exI [of _ 0])
next
  fix n q pkt d mem d'
  assume "tx_offered n q pkt" "length pkt \<le> 4096" "nh_tx_kick ref_net d (net_doorbell n (nh_notify_off ref_net d 1)) q = (mem, d')"
  moreover have "unat (of_nat (length pkt) :: u32) = length pkt" using \<open>length pkt \<le> 4096\<close> by (simp add: unat_of_nat_small)
  ultimately show "snd d' = snd d @ [pkt]
      \<and> (\<exists>t<500000. (\<forall>k<t. tx_used_idx (mem k) = tx_used_idx q) \<and> mem t = q\<lparr> tx_used_idx := tx_used_idx q + 1 \<rparr>)"
    by (auto simp: ref_net_def split_beta tx_offered_def intro!: exI [of _ 2])
qed (auto simp: ref_net_def split_beta)

interpretation ref_net: net_device ref_net 255 fst snd
  by (rule ref_net_device)

text \<open>The driver after its initialisation, with the identity as address translation.\<close>

definition fresh_net :: virtio_net where
  "fresh_net = \<lparr> vn_common = 0x2000, vn_notify = 0x3000, vn_notify_mul = 4, vn_skew = None,
     vn_rx = \<lparr> rx_desc = (replicate 256 \<lparr> desc_addr = 0, desc_len = 0, desc_flags = 0, desc_next = 0 \<rparr>)
                 [0 := \<lparr> desc_addr = 0x10000, desc_len = 4096, desc_flags = 2, desc_next = 0 \<rparr>],
               rx_avail_flags = 0, rx_avail_idx = 1, rx_avail_ring = replicate 256 0,
               rx_used_flags = 0, rx_used_idx = 0, rx_used_ring = replicate 256 (0, 0), rx_buf = replicate 4096 0 \<rparr>,
     vn_tx = \<lparr> tx_desc = replicate 8 \<lparr> desc_addr = 0, desc_len = 0, desc_flags = 0, desc_next = 0 \<rparr>,
               tx_avail_flags = 0, tx_avail_idx = 0, tx_avail_ring = replicate 8 0, tx_used_flags = 0, tx_used_idx = 0, tx_buf = replicate 4096 0 \<rparr>,
     rx_addr = 0x10000, tx_addr = 0x20000, rx_mask = 255, tx_mask = 7, vn_mac = MAC 0x52 0x54 0 0x12 0x34 0x56, vn_packets = 0,
     rx_last_used = 0, tx_last_used = 0, tx_inflight = False \<rparr>"

lemma fresh_net_ok: "net_driver_ok 255 fresh_net"
  by (simp add: net_driver_ok_def fresh_net_def rx_offered_def net_phys_def)

section \<open>Frames through the driver\<close>



text \<open>
  C38. The driver guesses the length of the packet header from the bytes after it: when the address of the
  card begins with \<open>08:00\<close>, as the addresses VirtualBox assigns do, the first bytes of every frame to it look like an Ethernet type, and
  the stack is handed the frame with the twelve bytes of the header in front.
\<close>

theorem header_mistaken:
  assumes "take 2 frame = [0x08, 0x00]" "length hdr = 12" "length frame \<le> 2036"
    "nh_rx hw d (vn_rx n) = (p, d')" "rx_last_used n \<noteq> rx_used_idx p"
    "take (length (hdr @ frame)) (rx_buf p) = hdr @ frame"
    "snd (rx_used_ring p ! (unat (rx_last_used n) AND rx_mask n)) = of_nat (length (hdr @ frame))"
  shows "fst (poll_rx_packet hw 2048 (n, d)) = Some (length (hdr @ frame), hdr @ frame)"
proof -
  obtain rest where frame: "frame = 0x08 # 0x00 # rest"
    using assms(1) by (cases frame; cases "tl frame") auto
  have "virtio_net_hdr_len (hdr @ frame) = 0"
    using assms(2) by (simp add: virtio_net_hdr_len_def frame is_ethertype_def nth_append)
  moreover define total where "total = length (hdr @ frame)"
  moreover from calculation assms(2,3) have "2 < total" "total \<le> 2048" by simp_all
  moreover from this have "unat (of_nat total :: u32) = total" by (simp add: unat_of_nat_small)
  ultimately show ?thesis using assms(5-7) unfolding poll_rx_packet_def case_prod_conv assms(4) Let_def total_def [symmetric]
    by (simp add: slice_def)
qed

theorem header_mistaken_witness:
  "fst (poll_rx_packet ref_net 2048 (fresh_net, [replicate 12 0 @ [0x08, 0x00, 0x27, 1, 2, 3]], []))
     = Some (18, replicate 12 0 @ [0x08, 0x00, 0x27, 1, 2, 3])"
proof -
  let ?f = "[0x08, 0x00, 0x27, 1, 2, 3] :: bytes" and ?h = "replicate 12 0 :: bytes"
  obtain p d' where r: "nh_rx ref_net ([?h @ ?f], []) (vn_rx fresh_net) = (p, d')" by (metis surj_pair)
  from header_mistaken [of ?f ?h, OF _ _ _ r] r show ?thesis
    by (auto simp: ref_net_def fresh_net_def)
qed

end
