(* ===== verification/Eve_Virtio_Init.thy ===== *)
theory Eve_Virtio_Init
  imports Eve_Pci Eve_Virtio_Net
begin

text \<open>
  How the two VirtIO drivers find and start their devices: \<open>VirtioNet::probe\<close> of \<open>kernel/src/virtio_net.rs\<close> and
  \<open>VirtioBlk::init\<close> of \<open>kernel/src/virtio_blk.rs\<close>. Both read the vendor capabilities of the PCI function, find the register
  blocks through its BARs, negotiate features and set up their queues. The registers are an argument, like the configuration ports; what
  is written to them is recorded in the locale \<open>register_log\<close> and compared with the steps the standard prescribes.
\<close>

section \<open>Registers\<close>

text \<open>Volatile accesses at a base and an offset.\<close>

record 'd mmio =
  mm_r8 :: "u64 \<Rightarrow> u64 \<Rightarrow> 'd \<Rightarrow> u8 \<times> 'd"
  mm_r16 :: "u64 \<Rightarrow> u64 \<Rightarrow> 'd \<Rightarrow> u16 \<times> 'd"
  mm_r32 :: "u64 \<Rightarrow> u64 \<Rightarrow> 'd \<Rightarrow> u32 \<times> 'd"
  mm_w8 :: "u64 \<Rightarrow> u64 \<Rightarrow> u8 \<Rightarrow> 'd \<Rightarrow> 'd"
  mm_w16 :: "u64 \<Rightarrow> u64 \<Rightarrow> u16 \<Rightarrow> 'd \<Rightarrow> 'd"
  mm_w32 :: "u64 \<Rightarrow> u64 \<Rightarrow> u32 \<Rightarrow> 'd \<Rightarrow> 'd"
  mm_w64 :: "u64 \<Rightarrow> u64 \<Rightarrow> u64 \<Rightarrow> 'd \<Rightarrow> 'd"

abbreviation (input) "STATUS_ACK \<equiv> 1 :: u8"
abbreviation (input) "STATUS_DRIVER \<equiv> 2 :: u8"
abbreviation (input) "STATUS_FEATURES_OK \<equiv> 8 :: u8"
abbreviation (input) "STATUS_DRIVER_OK \<equiv> 4 :: u8"

section \<open>Capabilities\<close>

definition cfg32 :: "'d pci_ports \<Rightarrow> pci_loc \<Rightarrow> u8 \<Rightarrow> 'd \<Rightarrow> u32 \<times> 'd" where
  "cfg32 io l off d =
     (let (b0, d) = pci_read_u8 io l off d; (b1, d) = pci_read_u8 io l (off + 1) d;
          (b2, d) = pci_read_u8 io l (off + 2) d; (b3, d) = pci_read_u8 io l (off + 3) d
      in (ucast b0 OR push_bit 8 (ucast b1) OR push_bit 16 (ucast b2) OR push_bit 24 (ucast b3), d))"

definition bar_mem :: "'d pci_ports \<Rightarrow> pci_loc \<Rightarrow> u8 \<Rightarrow> 'd \<Rightarrow> u64 option \<times> 'd" where
  "bar_mem io l idx d =
     (let (raw, d) = pci_read_u32 io l (0x10 + idx * 4) d
      in (if raw = 0 \<or> raw = 0xFFFFFFFF \<or> raw AND 1 \<noteq> 0 then None else Some (ucast (raw AND 0xFFFFFFF0)), d))"

fun read_bars :: "'d pci_ports \<Rightarrow> u64 option \<Rightarrow> pci_loc \<Rightarrow> u8 list \<Rightarrow> 'd \<Rightarrow> u64 option list \<times> 'd" where
  "read_bars io mmio_off l [] d = ([], d)"
| "read_bars io mmio_off l (i # is) d =
     (let (b, d) = bar_mem io l i d; (bs, d) = read_bars io mmio_off l is d
      in (map_option (pci_mmio_kernel_addr mmio_off) b # bs, d))"

record virtio_caps =
  cap_common :: "(u8 \<times> u32) option"
  cap_notify :: "(u8 \<times> u32 \<times> u32) option"
  cap_device :: "(u8 \<times> u32) option"

definition read_cap :: "'d pci_ports \<Rightarrow> pci_loc \<Rightarrow> u8 \<Rightarrow> virtio_caps \<Rightarrow> 'd \<Rightarrow> virtio_caps \<times> 'd" where
  "read_cap io l cap cs d =
     (let (cap_id, d) = pci_read_u8 io l cap d
      in if cap_id = 0x09
         then let (ty, d) = pci_read_u8 io l (cap + 3) d; (bar, d) = pci_read_u8 io l (cap + 4) d; (off, d) = cfg32 io l (cap + 8) d
              in if ty = 1 then (cs\<lparr> cap_common := Some (bar, off) \<rparr>, d)
                 else if ty = 2 then let (mul, d) = cfg32 io l (cap + 16) d in (cs\<lparr> cap_notify := Some (bar, off, mul) \<rparr>, d)
                 else if ty = 4 then (cs\<lparr> cap_device := Some (bar, off) \<rparr>, d)
                 else (cs, d)
         else (cs, d))"

fun cap_walk :: "'d pci_ports \<Rightarrow> pci_loc \<Rightarrow> nat \<Rightarrow> u8 \<Rightarrow> virtio_caps \<Rightarrow> 'd \<Rightarrow> virtio_caps \<times> 'd" where
  "cap_walk io l 0 cap cs d = (cs, d)"
| "cap_walk io l (Suc n) cap cs d =
     (if cap = 0 then (cs, d)
      else let (cs, d) = read_cap io l cap cs d; (succ, d) = pci_read_u8 io l (cap + 1) d
           in cap_walk io l n (if succ \<noteq> 0 then succ AND 0xFC else succ) cs d)"

text \<open>\<open>bars[bar]?.wrapping_add(off)\<close>: an index beyond the six BARs panics.\<close>

definition region :: "u64 option list \<Rightarrow> u8 \<Rightarrow> u32 \<Rightarrow> u64 option option" where
  "region bars bar off = (if unat bar < length bars then Some (map_option (\<lambda>b. b + ucast off) (bars ! unat bar)) else None)"

text \<open>The common, notify and device registers; the outer option is the panic.\<close>

definition virtio_regions :: "'d pci_ports \<Rightarrow> u64 option \<Rightarrow> pci_loc \<Rightarrow> 'd \<Rightarrow> ((u64 \<times> u64 \<times> u32 \<times> u64) option \<times> 'd) option" where
  "virtio_regions io mmio_off l d =
     (let d = pci_enable_mmio_bm io l d;
          (bars, d) = read_bars io mmio_off l [0, 1, 2, 3, 4, 5] d;
          (cap, d) = pci_read_u8 io l 0x34 d;
          (cs, d) = cap_walk io l 64 (cap AND 0xFC) \<lparr> cap_common = None, cap_notify = None, cap_device = None \<rparr> d
      in case (cap_common cs, cap_notify cs, cap_device cs) of
           (Some (cbar, coff), Some (nbar, noff, nmul), Some (dbar, doff)) \<Rightarrow>
             (case region bars cbar coff of
                None \<Rightarrow> None | Some None \<Rightarrow> Some (None, d)
              | Some (Some common_base) \<Rightarrow>
                  (case region bars nbar noff of
                     None \<Rightarrow> None | Some None \<Rightarrow> Some (None, d)
                   | Some (Some notify_base) \<Rightarrow>
                       (case region bars dbar doff of
                          None \<Rightarrow> None | Some None \<Rightarrow> Some (None, d)
                        | Some (Some dev_base) \<Rightarrow> Some (Some (common_base, notify_base, nmul, dev_base), d))))
         | _ \<Rightarrow> Some (None, d))"

section \<open>Negotiation and queues\<close>

definition virtio_reset :: "'d mmio \<Rightarrow> u64 \<Rightarrow> 'd \<Rightarrow> 'd" where
  "virtio_reset mm c d =
     (let d = mm_w8 mm c 20 0 d; d = mm_w8 mm c 20 STATUS_ACK d in mm_w8 mm c 20 (STATUS_ACK OR STATUS_DRIVER) d)"

text \<open>One half of the feature bits: what the device offers, and what of it the driver accepts.\<close>

definition accept_features :: "'d mmio \<Rightarrow> u64 \<Rightarrow> u32 \<Rightarrow> (u32 \<Rightarrow> u32) \<Rightarrow> 'd \<Rightarrow> 'd" where
  "accept_features mm c half pick d =
     (let d = mm_w32 mm c 0 half d; (f, d) = mm_r32 mm c 4 d; d = mm_w32 mm c 8 half d in mm_w32 mm c 12 (pick f) d)"

definition features_ok :: "'d mmio \<Rightarrow> u64 \<Rightarrow> 'd \<Rightarrow> bool \<times> 'd" where
  "features_ok mm c d =
     (let d = mm_w8 mm c 20 (STATUS_ACK OR STATUS_DRIVER OR STATUS_FEATURES_OK) d; (st, d) = mm_r8 mm c 20 d
      in (st AND STATUS_FEATURES_OK \<noteq> 0, d))"

definition queue_max :: "'d mmio \<Rightarrow> u64 \<Rightarrow> u16 \<Rightarrow> 'd \<Rightarrow> usize \<times> 'd" where
  "queue_max mm c q d = (let d = mm_w16 mm c 22 q d; (n, d) = mm_r16 mm c 24 d in (unat n, d))"

definition is_power_of_two :: "usize \<Rightarrow> bool" where
  "is_power_of_two n \<longleftrightarrow> n \<noteq> 0 \<and> n AND (n - 1) = 0"

definition setup_one_queue :: "'d mmio \<Rightarrow> u64 \<Rightarrow> u16 \<Rightarrow> u16 \<Rightarrow> u64 \<Rightarrow> u64 \<Rightarrow> u64 \<Rightarrow> 'd \<Rightarrow> 'd" where
  "setup_one_queue mm c q qsize p_desc p_avail p_used d =
     (let d = mm_w16 mm c 22 q d; d = mm_w16 mm c 24 qsize d; d = mm_w16 mm c 26 0xFFFF d; d = mm_w16 mm c 28 0 d;
          d = mm_w64 mm c 32 p_desc d; d = mm_w64 mm c 40 p_avail d; d = mm_w64 mm c 48 p_used d
      in mm_w16 mm c 28 1 d)"

definition driver_ok :: "'d mmio \<Rightarrow> u64 \<Rightarrow> 'd \<Rightarrow> 'd" where
  "driver_ok mm c = mm_w8 mm c 20 (STATUS_ACK OR STATUS_DRIVER OR STATUS_FEATURES_OK OR STATUS_DRIVER_OK)"

section \<open>The network driver\<close>

definition notify_queue :: "'d mmio \<Rightarrow> virtio_net \<Rightarrow> u16 \<Rightarrow> 'd \<Rightarrow> 'd" where
  "notify_queue mm n q d =
     (let d = mm_w16 mm (vn_common n) 22 q d; (qn, d) = mm_r16 mm (vn_common n) 30 d in mm_w16 mm (net_doorbell n qn) 0 0 d)"

definition read_mac :: "'d mmio \<Rightarrow> u64 \<Rightarrow> 'd \<Rightarrow> mac \<times> 'd" where
  "read_mac mm b d =
     (let (m0, d) = mm_r8 mm b 0 d; (m1, d) = mm_r8 mm b 1 d; (m2, d) = mm_r8 mm b 2 d;
          (m3, d) = mm_r8 mm b 3 d; (m4, d) = mm_r8 mm b 4 d; (m5, d) = mm_r8 mm b 5 d
      in (MAC m0 m1 m2 m3 m4 m5, d))"

text \<open>
  Offsets within the two static pages, which \<open>repr(C)\<close> fixes: 256 descriptors of 16 bytes, an available ring of 518 and a used ring
  of 2056 bytes, then the buffer; for sending 8 descriptors and rings of 22 and 72 bytes.
\<close>

abbreviation (input) "RX_AVAIL_OFFSET \<equiv> 4096 :: u64"
abbreviation (input) "RX_USED_OFFSET \<equiv> 4616 :: u64"
abbreviation (input) "RX_BUF_OFFSET \<equiv> 6672 :: u64"
abbreviation (input) "TX_AVAIL_OFFSET \<equiv> 128 :: u64"
abbreviation (input) "TX_USED_OFFSET \<equiv> 152 :: u64"
abbreviation (input) "TX_BUF_OFFSET \<equiv> 224 :: u64"

definition rx_start :: "u64 \<Rightarrow> rx_pages \<Rightarrow> rx_pages" where
  "rx_start p_rx p = p\<lparr>
     rx_desc := (rx_desc p)[0 := \<lparr> desc_addr = p_rx, desc_len = of_nat RX_BUFFER_BYTES, desc_flags = VIRTQ_DESC_F_WRITE, desc_next = 0 \<rparr>],
     rx_avail_flags := 0, rx_avail_ring := (rx_avail_ring p)[0 := 0], rx_avail_idx := 1, rx_used_flags := 0, rx_used_idx := 0 \<rparr>"

definition tx_start :: "tx_pages \<Rightarrow> tx_pages" where
  "tx_start p = p\<lparr> tx_desc := (tx_desc p)[0 := \<lparr> desc_addr = 0, desc_len = 0, desc_flags = 0, desc_next = 0 \<rparr>],
     tx_avail_flags := 0, tx_avail_idx := 0, tx_used_flags := 0, tx_used_idx := 0 \<rparr>"

text \<open>
  The part of \<open>probe\<close> after the function is chosen; \<open>rxq\<close> and \<open>txq\<close> are the addresses of the static pages and \<open>rx\<close> and \<open>tx\<close>
  their contents.
\<close>

definition net_init :: "'d pci_ports \<Rightarrow> 'd mmio \<Rightarrow> u64 option \<Rightarrow> u64 \<Rightarrow> u64 \<Rightarrow> rx_pages \<Rightarrow> tx_pages \<Rightarrow> pci_loc \<Rightarrow> 'd \<Rightarrow> (virtio_net option \<times> 'd) option" where
  "net_init io mm skew rxq txq rx tx l d =
     (case virtio_regions io skew l d of
        None \<Rightarrow> None | Some (None, d) \<Rightarrow> Some (None, d)
      | Some (Some (c, nb, mul, dc), d) \<Rightarrow>
          (let d = virtio_reset mm c d; d = accept_features mm c 1 (\<lambda>f. f AND 1) d; d = accept_features mm c 0 (\<lambda>f. f AND push_bit 5 1) d;
               (good, d) = features_ok mm c d
           in if \<not> good then Some (None, d)
              else let (q0max, d) = queue_max mm c 0 d
                   in if q0max < 2 \<or> \<not> is_power_of_two q0max then Some (None, d)
                      else let rx_use = min 256 q0max;
                               n = \<lparr> vn_common = c, vn_notify = nb, vn_notify_mul = mul, vn_skew = skew, vn_rx = rx, vn_tx = tx,
                                     rx_addr = rxq + RX_BUF_OFFSET, tx_addr = txq + TX_BUF_OFFSET, rx_mask = rx_use - 1, tx_mask = 8 - 1,
                                     vn_mac = MAC 0 0 0 0 0 0, vn_packets = 0, rx_last_used = 0, tx_last_used = 0, tx_inflight = False \<rparr>;
                               n = n\<lparr> vn_rx := rx_start (net_phys n (rxq + RX_BUF_OFFSET)) rx \<rparr>;
                               d = setup_one_queue mm c 0 (of_nat rx_use) (net_phys n rxq) (net_phys n (rxq + RX_AVAIL_OFFSET))
                                     (net_phys n (rxq + RX_USED_OFFSET)) d;
                               (q1max, d) = queue_max mm c 1 d
                           in if q1max < 2 \<or> \<not> is_power_of_two q1max then Some (None, d)
                              else let tx_use = min 8 q1max; n = n\<lparr> tx_mask := tx_use - 1, vn_tx := tx_start tx \<rparr>;
                                       d = setup_one_queue mm c 1 (of_nat tx_use) (net_phys n txq) (net_phys n (txq + TX_AVAIL_OFFSET))
                                             (net_phys n (txq + TX_USED_OFFSET)) d;
                                       d = notify_queue mm n 0 (driver_ok mm c d);
                                       (m, d) = read_mac mm dc d
                                   in Some (Some (n\<lparr> vn_mac := m \<rparr>), d)))"

definition net_probe :: "'d pci_ports \<Rightarrow> 'd mmio \<Rightarrow> u64 option \<Rightarrow> u64 \<Rightarrow> u64 \<Rightarrow> rx_pages \<Rightarrow> tx_pages \<Rightarrow> 'd \<Rightarrow> (virtio_net option \<times> 'd) option" where
  "net_probe io mm skew rxq txq rx tx d =
     (let (locs, d) = find_device_any_fn io 0x1AF4 0x1041 8 d
      in if locs = [] then Some (None, d)
         else let (picked, d) = first_hit (\<lambda>l d. let (c, d) = class_subclass_prog_fn io l d
                    in (case c of Some (base, sub, _) \<Rightarrow> if base = 0x02 \<and> sub = 0x00 then Some l else None | None \<Rightarrow> None, d)) locs d
              in net_init io mm skew rxq txq rx tx (case picked of Some l \<Rightarrow> l | None \<Rightarrow> locs ! 0) d)"

section \<open>The block driver\<close>

abbreviation (input) "VIRTIO_BLK_F_RO \<equiv> push_bit 5 1 :: u32"
abbreviation (input) "VIRTIO_BLK_F_BLK_SIZE \<equiv> push_bit 6 1 :: u32"

definition blk_start :: "blk_pages \<Rightarrow> blk_pages" where
  "blk_start p = p\<lparr> pg_desc := (pg_desc p)[0 := \<lparr> desc_addr = 0, desc_len = 0, desc_flags = 0, desc_next = 0 \<rparr>],
     avail_flags := 0, avail_idx := 0, used_flags := 0, used_idx := 0, vq_last_seen := 0 \<rparr>"

text \<open>\<open>blk0\<close> and \<open>blk1\<close> are the addresses and contents of the two static pages.\<close>

definition blk_init ::
  "'d pci_ports \<Rightarrow> 'd mmio \<Rightarrow> u64 option \<Rightarrow> u64 \<times> blk_pages \<Rightarrow> u64 \<times> blk_pages \<Rightarrow> pci_loc \<Rightarrow> u8 \<Rightarrow> bool \<Rightarrow> 'd \<Rightarrow> (virtio_blk option \<times> 'd) option" where
  "blk_init io mm skew blk0 blk1 l pages_slot reject_read_only d =
     (if pages_slot \<noteq> 0 \<and> pages_slot \<noteq> 1 then Some (None, d)
      else let (pages, p) = (if pages_slot = 0 then blk0 else blk1)
           in case virtio_regions io skew l d of
                None \<Rightarrow> None | Some (None, d) \<Rightarrow> Some (None, d)
              | Some (Some (c, nb, mul, dc), d) \<Rightarrow>
                  (let d = virtio_reset mm c d; d = mm_w32 mm c 0 0 d; (dev_f0, d) = mm_r32 mm c 4 d
                   in if reject_read_only \<and> dev_f0 AND VIRTIO_BLK_F_RO \<noteq> 0 then Some (None, d)
                      else let d = mm_w32 mm c 8 0 d;
                               d = mm_w32 mm c 12 (dev_f0 AND NOT VIRTIO_BLK_F_RO AND NOT VIRTIO_BLK_F_BLK_SIZE) d;
                               d = accept_features mm c 1 (\<lambda>f. f AND 1) d;
                               (good, d) = features_ok mm c d
                           in if \<not> good then Some (None, d)
                              else let (q0max, d) = queue_max mm c 0 d
                                   in if q0max < 4 \<or> \<not> is_power_of_two q0max then Some (None, d)
                                      else let q_use = min 64 q0max;
                                               (cap_lo, d) = mm_r32 mm dc 0 d; (cap_hi, d) = mm_r32 mm dc 4 d;
                                               b = \<lparr> vb_common = c, vb_notify = nb, notify_mul = mul, device_cfg = dc, phys_skew = skew,
                                                     qmask = q_use - 1, pages_addr = pages, vb_pages = blk_start p,
                                                     capacity = ucast cap_lo OR push_bit 32 (ucast cap_hi), sector_size = 512 \<rparr>;
                                               d = setup_one_queue mm c 0 (of_nat q_use) (phys b pages) (phys b (pages + 64)) (phys b (pages + 200)) d
                                           in Some (Some b, driver_ok mm c d)))"

definition blk_enumerate :: "'d pci_ports \<Rightarrow> nat \<Rightarrow> 'd \<Rightarrow> pci_loc list \<times> 'd" where
  "blk_enumerate io = find_device_any_fn io 0x1AF4 0x1042"

section \<open>The drivers after their start\<close>

lemma net_init_result:
  assumes "net_init io mm skew rxq txq rx tx l d = Some (Some n, d')"
  shows "\<exists>c nb mul r t m. r < 256 \<and> t < 8 \<and> n = \<lparr> vn_common = c, vn_notify = nb, vn_notify_mul = mul, vn_skew = skew,
       vn_rx = rx_start (case skew of Some off \<Rightarrow> rxq + 6672 - off | None \<Rightarrow> rxq + 6672) rx, vn_tx = tx_start tx,
       rx_addr = rxq + 6672, tx_addr = txq + 224, rx_mask = r, tx_mask = t,
       vn_mac = m, vn_packets = 0, rx_last_used = 0, tx_last_used = 0, tx_inflight = False \<rparr>"
  using assms unfolding net_init_def Let_def
  by (auto simp: net_phys_def split: option.splits prod.splits if_splits)

lemma net_init_ok:
  assumes "net_init io mm skew rxq txq rx tx l d = Some (Some n, d')"
    "length (rx_desc rx) = 256" "length (rx_avail_ring rx) = 256" "length (rx_used_ring rx) = 256" "length (rx_buf rx) = 4096"
    "length (tx_desc tx) = 8" "length (tx_avail_ring tx) = 8" "length (tx_buf tx) = 4096"
  shows "net_driver_ok (rx_mask n) n"
proof -
  obtain c nb mul r t m where "r < 256 \<and> t < 8 \<and> n = \<lparr> vn_common = c, vn_notify = nb, vn_notify_mul = mul, vn_skew = skew,
       vn_rx = rx_start (case skew of Some off \<Rightarrow> rxq + 6672 - off | None \<Rightarrow> rxq + 6672) rx, vn_tx = tx_start tx,
       rx_addr = rxq + 6672, tx_addr = txq + 224, rx_mask = r, tx_mask = t,
       vn_mac = m, vn_packets = 0, rx_last_used = 0, tx_last_used = 0, tx_inflight = False \<rparr>"
    using net_init_result [OF assms(1)] by blast
  then show ?thesis using assms(2-8)
    by (simp add: net_driver_ok_def rx_offered_def rx_start_def tx_start_def net_phys_def)
qed

lemma blk_init_ok:
  assumes "blk_init io mm skew (a0, p0) (a1, p1) l pages_slot ro d = Some (Some b, d')"
    "length (pg_desc p) = 4" "length (avail_ring p) = 64" "length (pg_req p) = 16" "length (pg_data p) = 512"
    "p = (if pages_slot = 0 then p0 else p1)"
  shows "blk_wf b"
  using assms unfolding blk_init_def Let_def
  by (auto simp: blk_wf_def blk_start_def split: option.splits prod.splits if_splits)

section \<open>The steps of the standard\<close>

datatype mmio_write = W8 u64 u64 u8 | W16 u64 u64 u16 | W32 u64 u64 u32 | W64 u64 u64 u64

text \<open>
  VirtIO 1.0, section 3.1.1, for the common registers at \<open>c\<close>: after a reset the status bits are set one by one; features are
  accepted before \<open>FEATURES_OK\<close>; queues are configured between \<open>FEATURES_OK\<close> and \<open>DRIVER_OK\<close> and enabled only after their size and
  their three addresses were written; a queue is notified only after \<open>DRIVER_OK\<close>.
\<close>

record init_state =
  in_step :: u8
  in_queue :: u16
  in_fields :: "u64 list"
  in_enabled :: "u16 list"

definition init_step :: "u64 \<Rightarrow> mmio_write \<Rightarrow> init_state \<Rightarrow> init_state option" where
  "init_step c w s =
     (case w of
        W8 b off v \<Rightarrow>
          if b \<noteq> c \<or> off \<noteq> 20 then None
          else if v = 0 then Some \<lparr> in_step = 0, in_queue = 0, in_fields = [], in_enabled = [] \<rparr>
          else if (in_step s, v) \<in> {(0, 1), (1, 3), (3, 11), (11, 15)} then Some (s\<lparr> in_step := v \<rparr>) else None
      | W32 b off v \<Rightarrow>
          if b = c \<and> in_step s = 3 \<and> off \<in> {0, 8, 12} then Some s else None
      | W16 b off v \<Rightarrow>
          if b = c \<and> off = 22 then Some (s\<lparr> in_queue := v, in_fields := [] \<rparr>)
          else if b = c \<and> in_step s = 11 \<and> off \<in> {24, 26} then Some (s\<lparr> in_fields := off # in_fields s \<rparr>)
          else if b = c \<and> in_step s = 11 \<and> off = 28
          then (if v = 0 then Some s
                else if {24, 32, 40, 48} \<subseteq> set (in_fields s) then Some (s\<lparr> in_enabled := in_queue s # in_enabled s \<rparr>) else None)
          else if off = 0 \<and> in_step s = 15 then Some s else None
      | W64 b off v \<Rightarrow>
          if b = c \<and> in_step s = 11 \<and> off \<in> {32, 40, 48} then Some (s\<lparr> in_fields := off # in_fields s \<rparr>) else None)"

fun init_run :: "u64 \<Rightarrow> mmio_write list \<Rightarrow> init_state \<Rightarrow> init_state option" where
  "init_run c [] s = Some s"
| "init_run c (w # ws) s = (case init_step c w s of Some s \<Rightarrow> init_run c ws s | None \<Rightarrow> None)"

lemma init_run_append: "init_run c (ws @ vs) s = (case init_run c ws s of Some s \<Rightarrow> init_run c vs s | None \<Rightarrow> None)"
  by (induction ws arbitrary: s) (auto split: option.split)

text \<open>The writes of the two starts.\<close>

abbreviation negotiation :: "u64 \<Rightarrow> u32 \<Rightarrow> u32 \<Rightarrow> u32 \<Rightarrow> u32 \<Rightarrow> mmio_write list" where
  "negotiation c h1 f1 h2 f2 \<equiv> [W8 c 20 0, W8 c 20 1, W8 c 20 3, W32 c 0 h1, W32 c 8 h1, W32 c 12 f1, W32 c 0 h2, W32 c 8 h2, W32 c 12 f2, W8 c 20 11]"

abbreviation queue_setup :: "u64 \<Rightarrow> u16 \<Rightarrow> u16 \<Rightarrow> u64 \<Rightarrow> u64 \<Rightarrow> u64 \<Rightarrow> mmio_write list" where
  "queue_setup c q n a v u \<equiv> [W16 c 22 q, W16 c 22 q, W16 c 24 n, W16 c 26 0xFFFF, W16 c 28 0, W64 c 32 a, W64 c 40 v, W64 c 48 u, W16 c 28 1]"

text \<open>Hardware whose register writes are recorded.\<close>

locale register_log =
  fixes io :: "'d pci_ports" and mm :: "'d mmio" and log :: "'d \<Rightarrow> mmio_write list"
  assumes config: "log (pci_outl io p v d) = log d" "log (snd (pci_inl io p d)) = log d"
    and rd: "log (snd (mm_r8 mm b off d)) = log d" "log (snd (mm_r16 mm b off d)) = log d" "log (snd (mm_r32 mm b off d)) = log d"
    and wr: "log (mm_w8 mm b off v8 d) = log d @ [W8 b off v8]" "log (mm_w16 mm b off v16 d) = log d @ [W16 b off v16]"
      "log (mm_w32 mm b off v32 d) = log d @ [W32 b off v32]" "log (mm_w64 mm b off v64 d) = log d @ [W64 b off v64]"
begin

lemmas access = config rd wr

lemma log_read [simp]:
  "log (snd (pci_read_u32 io l off d)) = log d" "log (snd (pci_read_u16 io l off d)) = log d" "log (snd (pci_read_u8 io l off d)) = log d"
  "log (pci_write_u16 io l off v d) = log d" "log (pci_enable_mmio_bm io l d) = log d" "log (snd (cfg32 io l off d)) = log d"
  "log (snd (bar_mem io l i d)) = log d"
  by (simp_all add: pci_read_u32_def pci_read_u16_def pci_read_u8_def pci_write_u16_def pci_write_u32_def pci_enable_mmio_bm_def
      cfg32_def bar_mem_def access Let_def split_beta)

lemma log_scan [simp]: "log (snd (class_subclass_prog_fn io l d)) = log d"
  by (simp add: class_subclass_prog_fn_def Let_def split_beta)

lemma log_bars [simp]: "log (snd (read_bars io off l is d)) = log d"
  by (induction "is" arbitrary: d) (simp_all add: Let_def split_beta)

lemma log_cap [simp]: "log (snd (read_cap io l cap cs d)) = log d"
  by (simp add: read_cap_def Let_def split_beta)

lemma log_caps [simp]: "log (snd (cap_walk io l k cap cs d)) = log d"
  by (induction k arbitrary: cap cs d) (simp_all add: Let_def split_beta)

lemma log_first_hit: "(\<And>l d. log (snd (look l d)) = log d) \<Longrightarrow> log (snd (first_hit look ls d)) = log d"
  by (induction ls arbitrary: d) (auto split: prod.split option.split, metis snd_conv, metis snd_conv)

lemma log_all_hits: "(\<And>l d. log (snd (look l d)) = log d) \<Longrightarrow> log (snd (all_hits look room ls found d)) = log d"
  by (induction ls arbitrary: found d) (auto split: prod.split option.split, (metis snd_conv)+)

lemma log_regions: "virtio_regions io off l d = Some (r, d') \<Longrightarrow> log d' = log d"
  by (auto simp: virtio_regions_def Let_def split_beta split: option.splits prod.splits)

lemma log_reset [simp]: "log (virtio_reset mm c d) = log d @ [W8 c 20 0, W8 c 20 1, W8 c 20 3]"
  by (simp add: virtio_reset_def access Let_def)

lemma log_accept: "\<exists>f. log (accept_features mm c half pick d) = log d @ [W32 c 0 half, W32 c 8 half, W32 c 12 f]"
  by (simp add: accept_features_def access Let_def split_beta)

lemma log_features_ok [simp]: "log (snd (features_ok mm c d)) = log d @ [W8 c 20 11]"
  by (simp add: features_ok_def access Let_def split_beta)

lemma log_queue_max [simp]: "log (snd (queue_max mm c q d)) = log d @ [W16 c 22 q]"
  by (simp add: queue_max_def access Let_def split_beta)

lemma log_setup [simp]:
  "log (setup_one_queue mm c q n a v u d) = log d @ [W16 c 22 q, W16 c 24 n, W16 c 26 0xFFFF, W16 c 28 0, W64 c 32 a, W64 c 40 v, W64 c 48 u, W16 c 28 1]"
  by (simp add: setup_one_queue_def access Let_def)

lemma log_driver_ok [simp]: "log (driver_ok mm c d) = log d @ [W8 c 20 15]"
  by (simp add: driver_ok_def access)

lemma log_notify: "\<exists>a. log (notify_queue mm n q d) = log d @ [W16 (vn_common n) 22 q, W16 a 0 0]"
  by (simp add: notify_queue_def access Let_def split_beta)

lemma log_mac [simp]: "log (snd (read_mac mm b d)) = log d"
  by (simp add: read_mac_def access Let_def split_beta)

lemma net_init_log:
  assumes "net_init io mm skew rxq txq rx tx l d = Some (Some n, d')"
  shows "\<exists>f1 f0 n0 a0 v0 u0 n1 a1 v1 u1 db. log d' = log d @ negotiation (vn_common n) 1 f1 0 f0 @
    queue_setup (vn_common n) 0 n0 a0 v0 u0 @ queue_setup (vn_common n) 1 n1 a1 v1 u1 @
    [W8 (vn_common n) 20 15, W16 (vn_common n) 22 0, W16 db 0 0]"
proof -
  obtain c nb mul dc d1 where r: "virtio_regions io skew l d = Some (Some (c, nb, mul, dc), d1)"
    using assms by (auto simp: net_init_def split: option.splits prod.splits)
  define d2 where "d2 = accept_features mm c 1 (\<lambda>f. f AND 1) (virtio_reset mm c d1)"
  define d3 where "d3 = accept_features mm c 0 (\<lambda>f. f AND push_bit 5 1) d2"
  obtain f1 where f1: "log d2 = log d @ [W8 c 20 0, W8 c 20 1, W8 c 20 3] @ [W32 c 0 1, W32 c 8 1, W32 c 12 f1]"
    using log_accept [of c 1 _ "virtio_reset mm c d1"] log_regions [OF r] by (metis append.assoc d2_def log_reset)
  obtain f0 where f0: "log d3 = log d2 @ [W32 c 0 0, W32 c 8 0, W32 c 12 f0]"
    using log_accept [of c 0 _ d2] unfolding d3_def by blast
  obtain good d4 where fo: "features_ok mm c d3 = (good, d4)" by fastforce
  obtain q0 d5 where q0: "queue_max mm c 0 d4 = (q0, d5)" by fastforce
  let ?n = "\<lparr> vn_common = c, vn_notify = nb, vn_notify_mul = mul, vn_skew = skew, vn_rx = rx, vn_tx = tx,
    rx_addr = rxq + 6672, tx_addr = txq + 224, rx_mask = min 256 q0 - 1, tx_mask = 8 - 1,
    vn_mac = MAC 0 0 0 0 0 0, vn_packets = 0, rx_last_used = 0, tx_last_used = 0, tx_inflight = False \<rparr>"
  define n0 where "n0 = ?n\<lparr> vn_rx := rx_start (net_phys ?n (rxq + 6672)) rx \<rparr>"
  define d6 where "d6 = setup_one_queue mm c 0 (of_nat (min 256 q0)) (net_phys n0 rxq) (net_phys n0 (rxq + 4096)) (net_phys n0 (rxq + 4616)) d5"
  obtain q1 d7 where q1: "queue_max mm c 1 d6 = (q1, d7)" by fastforce
  define n1 where "n1 = n0\<lparr> tx_mask := min 8 q1 - 1, vn_tx := tx_start tx \<rparr>"
  define d8 where "d8 = setup_one_queue mm c 1 (of_nat (min 8 q1)) (net_phys n1 txq) (net_phys n1 (txq + 128)) (net_phys n1 (txq + 152)) d7"
  define d9 where "d9 = notify_queue mm n1 0 (driver_ok mm c d8)"
  obtain m d10 where m: "read_mac mm dc d9 = (m, d10)" by fastforce
  have "(if \<not> good then Some (None, d4) else if q0 < 2 \<or> \<not> is_power_of_two q0 then Some (None, d5)
      else if q1 < 2 \<or> \<not> is_power_of_two q1 then Some (None, d7) else Some (Some (n1\<lparr> vn_mac := m \<rparr>), d10)) = Some (Some n, d')"
    using assms unfolding net_init_def r option.case prod.case Let_def d2_def [symmetric] d3_def [symmetric] fo q0
      n0_def [symmetric] d6_def [symmetric] q1 n1_def [symmetric] d8_def [symmetric] d9_def [symmetric] m .
  then have n: "n = n1\<lparr> vn_mac := m \<rparr>" "d' = d10" by (simp_all split: if_split_asm)
  have c: "vn_common n1 = c" "vn_common n = c" by (simp_all add: n n1_def n0_def)
  obtain db where db: "log d9 = log (driver_ok mm c d8) @ [W16 c 22 0, W16 db 0 0]" using log_notify [of n1 0] unfolding d9_def c by blast
  have "log d4 = log d3 @ [W8 c 20 11]" "log d5 = log d4 @ [W16 c 22 0]" "log d7 = log d6 @ [W16 c 22 1]" "log d10 = log d9"
    using log_features_ok [of c d3] log_queue_max [of c 0 d4] log_queue_max [of c 1 d6] log_mac [of dc d9] unfolding fo q0 q1 m by simp_all
  then have "log d' = log d @ negotiation c 1 f1 0 f0 @
      queue_setup c 0 (of_nat (min 256 q0)) (net_phys n0 rxq) (net_phys n0 (rxq + 4096)) (net_phys n0 (rxq + 4616)) @
      queue_setup c 1 (of_nat (min 8 q1)) (net_phys n1 txq) (net_phys n1 (txq + 128)) (net_phys n1 (txq + 152)) @
      [W8 c 20 15, W16 c 22 0, W16 db 0 0]"
    unfolding n(2) db by (simp add: d6_def d8_def f1 f0)
  then show ?thesis unfolding c by blast
qed

lemma net_probe_log:
  assumes "net_probe io mm skew rxq txq rx tx d = Some (Some n, d')"
  shows "\<exists>f1 f0 n0 a0 v0 u0 n1 a1 v1 u1 db. log d' = log d @ negotiation (vn_common n) 1 f1 0 f0 @
    queue_setup (vn_common n) 0 n0 a0 v0 u0 @ queue_setup (vn_common n) 1 n1 a1 v1 u1 @
    [W8 (vn_common n) 20 15, W16 (vn_common n) 22 0, W16 db 0 0]"
proof -
  let ?look = "\<lambda>l d. let (c, d) = class_subclass_prog_fn io l d
    in (case c of Some (base, sub, _) \<Rightarrow> if base = 0x02 \<and> sub = 0x00 then Some l else None | None \<Rightarrow> None, d)"
  obtain locs d1 where locs: "find_device_any_fn io 0x1AF4 0x1041 8 d = (locs, d1)" by fastforce
  obtain pick d2 where pick: "first_hit ?look locs d1 = (pick, d2)" by fastforce
  have "log (snd (find_device_any_fn io 0x1AF4 0x1041 8 d)) = log d"
    unfolding find_device_any_fn_def by (rule log_all_hits) (simp add: Let_def split_beta)
  moreover have "log (snd (first_hit ?look locs d1)) = log d1" by (rule log_first_hit) (simp add: Let_def split_beta)
  ultimately have "log d2 = log d" unfolding locs pick by simp
  moreover have "net_init io mm skew rxq txq rx tx (case pick of Some l \<Rightarrow> l | None \<Rightarrow> locs ! 0) d2 = Some (Some n, d')"
    using assms unfolding net_probe_def locs prod.case Let_def [of "(locs, d1)"] by (cases "locs = []") (simp_all add: pick [simplified] Let_def)
  ultimately show ?thesis using net_init_log by metis
qed

lemma blk_init_log:
  assumes "blk_init io mm skew blk0 blk1 l pages_slot ro d = Some (Some b, d')"
  shows "\<exists>f0 f1 n0 a0 v0 u0. log d' = log d @ negotiation (vb_common b) 0 f0 1 f1 @ queue_setup (vb_common b) 0 n0 a0 v0 u0 @ [W8 (vb_common b) 20 15]"
proof -
  obtain pages p where bp: "(if pages_slot = 0 then blk0 else blk1) = (pages, p)" by fastforce
  have slot: "\<not> (pages_slot \<noteq> 0 \<and> pages_slot \<noteq> 1)"
  proof
    assume n: "pages_slot \<noteq> 0 \<and> pages_slot \<noteq> 1"
    show False using assms unfolding blk_init_def if_P [OF n] by simp
  qed
  obtain c nb mul dc d1 where r: "virtio_regions io skew l d = Some (Some (c, nb, mul, dc), d1)"
    using assms unfolding blk_init_def if_not_P [OF slot] bp by (auto split: option.splits prod.splits)
  define d2 where "d2 = mm_w32 mm c 0 0 (virtio_reset mm c d1)"
  obtain f d3 where f: "mm_r32 mm c 4 d2 = (f, d3)" by fastforce
  define d4 where "d4 = mm_w32 mm c 12 (f AND NOT VIRTIO_BLK_F_RO AND NOT VIRTIO_BLK_F_BLK_SIZE) (mm_w32 mm c 8 0 d3)"
  define d5 where "d5 = accept_features mm c 1 (\<lambda>f. f AND 1) d4"
  obtain good d6 where fo: "features_ok mm c d5 = (good, d6)" by fastforce
  obtain q0 d7 where q0: "queue_max mm c 0 d6 = (q0, d7)" by fastforce
  obtain lo d8 where lo: "mm_r32 mm dc 0 d7 = (lo, d8)" by fastforce
  obtain hi d9 where hi: "mm_r32 mm dc 4 d8 = (hi, d9)" by fastforce
  define b0 where "b0 = \<lparr> vb_common = c, vb_notify = nb, notify_mul = mul, device_cfg = dc, phys_skew = skew,
    qmask = min 64 q0 - 1, pages_addr = pages, vb_pages = blk_start p, capacity = ucast lo OR push_bit 32 (ucast hi), sector_size = 512 \<rparr>"
  define d10 where "d10 = setup_one_queue mm c 0 (of_nat (min 64 q0)) (phys b0 pages) (phys b0 (pages + 64)) (phys b0 (pages + 200)) d9"
  have "(if ro \<and> f AND VIRTIO_BLK_F_RO \<noteq> 0 then Some (None, d3) else if \<not> good then Some (None, d6)
      else if q0 < 4 \<or> \<not> is_power_of_two q0 then Some (None, d7) else Some (Some b0, driver_ok mm c d10)) = Some (Some b, d')"
    using assms unfolding blk_init_def if_not_P [OF slot] bp r option.case prod.case Let_def d2_def [symmetric] f d4_def [symmetric]
      d5_def [symmetric] fo q0 lo hi b0_def [symmetric] d10_def [symmetric] .
  then have b: "b = b0" "d' = driver_ok mm c d10" by (simp_all split: if_split_asm)
  obtain f1 where f1: "log d5 = log d4 @ [W32 c 0 1, W32 c 8 1, W32 c 12 f1]" using log_accept unfolding d5_def by blast
  have "log d1 = log d" "log d3 = log d2" "log d8 = log d7" "log d9 = log d8" "log d6 = log d5 @ [W8 c 20 11]" "log d7 = log d6 @ [W16 c 22 0]"
    using log_regions [OF r] rd(3) [of c 4 d2] rd(3) [of dc 0 d7] rd(3) [of dc 4 d8] log_features_ok [of c d5] log_queue_max [of c 0 d6]
    unfolding f lo hi fo q0 by simp_all
  then have "log d' = log d @ negotiation c 0 (f AND NOT VIRTIO_BLK_F_RO AND NOT VIRTIO_BLK_F_BLK_SIZE) 1 f1 @
      queue_setup c 0 (of_nat (min 64 q0)) (phys b0 pages) (phys b0 (pages + 64)) (phys b0 (pages + 200)) @ [W8 c 20 15]"
    unfolding b(2) by (simp add: d10_def f1 d4_def d2_def wr)
  moreover have "vb_common b = c" by (simp add: b b0_def)
  ultimately show ?thesis by blast
qed

end

text \<open>Both sequences are accepted, whatever the state before the reset.\<close>

lemma net_start_accepted:
  "init_run c (negotiation c h1 f1 h2 f2 @ queue_setup c 0 n0 a0 v0 u0 @ queue_setup c 1 n1 a1 v1 u1 @
     [W8 c 20 15, W16 c 22 0, W16 db 0 0]) s = Some \<lparr> in_step = 15, in_queue = 0, in_fields = [], in_enabled = [1, 0] \<rparr>"
  by (simp add: init_step_def)

lemma blk_start_accepted:
  "init_run c (negotiation c h1 f1 h2 f2 @ queue_setup c 0 n0 a0 v0 u0 @ [W8 c 20 15]) s
    = Some \<lparr> in_step = 15, in_queue = 0, in_fields = [48, 40, 32, 26, 24], in_enabled = [0] \<rparr>"
  by (simp add: init_step_def)

section \<open>A reference board\<close>

text \<open>
  One VirtIO device at bus 0, slot 3, function 0, with its three register blocks in BAR 0; the state is the configuration bus of
  \<open>ref_ports\<close> and the log.
\<close>

definition board_config :: "u32 \<Rightarrow> u32" where
  "board_config a =
     (case map_of [(0x80001800, 0x10411AF4), (0x80001804, 0), (0x80001808, 0x02000001), (0x80001810, 0xFE000000), (0x80001814, 0),
         (0x80001818, 0), (0x8000181C, 0), (0x80001820, 0), (0x80001824, 0), (0x80001834, 0x40),
         (0x80001840, 0x01105009), (0x80001844, 0), (0x80001848, 0), (0x80001850, 0x02146409), (0x80001854, 0), (0x80001858, 0x3000),
         (0x80001860, 4), (0x80001864, 0x04100009), (0x80001868, 0), (0x8000186C, 0x2000)] a of
        Some v \<Rightarrow> v | None \<Rightarrow> 0xFFFFFFFF)"

type_synonym board = "(u32 \<times> (u32 \<Rightarrow> u32)) \<times> mmio_write list"

definition board_ports :: "board pci_ports" where
  "board_ports = \<lparr> pci_outl = (\<lambda>p v (b, ws). (pci_outl ref_ports p v b, ws)),
     pci_inl = (\<lambda>p (b, ws). case pci_inl ref_ports p b of (v, b) \<Rightarrow> (v, b, ws)) \<rparr>"

definition board_regs :: "board mmio" where
  "board_regs = \<lparr> mm_r8 = (\<lambda>b off d. (if off = 20 then 11 else 0x50 + ucast off, d)), mm_r16 = (\<lambda>b off d. (if off = 24 then 128 else 0, d)),
     mm_r32 = (\<lambda>b off d. (0x21, d)), mm_w8 = (\<lambda>b off v (c, ws). (c, ws @ [W8 b off v])), mm_w16 = (\<lambda>b off v (c, ws). (c, ws @ [W16 b off v])),
     mm_w32 = (\<lambda>b off v (c, ws). (c, ws @ [W32 b off v])), mm_w64 = (\<lambda>b off v (c, ws). (c, ws @ [W64 b off v])) \<rparr>"

lemma board_log: "register_log board_ports board_regs snd"
  by unfold_locales (auto simp: board_ports_def board_regs_def split: prod.splits)

interpretation board: register_log board_ports board_regs snd
  by (rule board_log)

lemma board_bus: "pci_bus board_ports (snd \<circ> fst)"
  by unfold_locales (auto simp: board_ports_def ref_ports_def split: prod.splits)

interpretation board: pci_bus board_ports "snd \<circ> fst"
  by (rule board_bus)

lemma distinct_functions: "distinct pci_functions"
proof -
  have "distinct (map word_of_int [0..7] :: u8 list)" "distinct (map word_of_int [0..31] :: u8 list)" by code_simp+
  then have "distinct (List.product pci_slots (map word_of_int [0..7] :: u8 list))"
    unfolding pci_slots_def by (intro distinct_product)
  moreover have "inj_on (\<lambda>((bus, slot), func). (bus, slot, func)) A" for A :: "((u8 \<times> u8) \<times> u8) set" by (auto simp: inj_on_def)
  ultimately show ?thesis unfolding pci_functions_def distinct_map by blast
qed

lemma filter_single: "distinct xs \<Longrightarrow> x \<in> set xs \<Longrightarrow> (\<And>y. y \<in> set xs \<Longrightarrow> P y \<longleftrightarrow> y = x) \<Longrightarrow> filter P xs = [x]"
  by (induction xs) (auto simp: filter_empty_conv)

lemma board_functions: "filter (\<lambda>l. has_ids 0x1AF4 0x1041 (board_config (cfg_addr l 0))) pci_functions = [(0, 3, 0)]"
proof (rule filter_single [OF distinct_functions])
  show "(0, 3, 0) \<in> set pci_functions" by (simp add: in_pci_functions)
next
  fix l assume l: "l \<in> set pci_functions"
  obtain b s f where bsf: "l = (b, s, f)" by (metis prod_cases3)
  then have range: "s < 32" "f < 8" using l by (simp_all add: in_pci_functions)
  show "has_ids 0x1AF4 0x1041 (board_config (cfg_addr l 0)) \<longleftrightarrow> l = (0, 3, 0)"
  proof
    assume "has_ids 0x1AF4 0x1041 (board_config (cfg_addr l 0))"
    then have "cfg_addr l 0 = 0x80001800"
      by (auto simp: board_config_def has_ids_def absent_def split: if_split_asm)
    then show "l = (0, 3, 0)" using cfg_addr_decodes [OF range, of b 0] by (simp add: bsf)
  qed (simp add: board_config_def has_ids_def absent_def cfg_addr_def)
qed

lemma board_read:
  "pci_read_u32 board_ports l off ((a, c), ws) = (c (cfg_addr l off), (cfg_addr l off, c), ws)"
  "pci_write_u32 board_ports l off v ((a, c), ws) = ((cfg_addr l off, c(cfg_addr l off := v)), ws)"
  by (simp_all add: pci_read_u32_def pci_write_u32_def board_ports_def ref_ports_def)

lemma cap_walk_numeral:
  "cap_walk io l (numeral k) cap cs d =
     (if cap = 0 then (cs, d)
      else let (cs, d) = read_cap io l cap cs d; (succ, d) = pci_read_u8 io l (cap + 1) d
           in cap_walk io l (pred_numeral k) (if succ \<noteq> 0 then succ AND 0xFC else succ) cs d)"
  by (simp add: numeral_eq_Suc)

lemmas board_eval = Let_def bar_mem_def read_cap_def cfg32_def pci_enable_mmio_bm_def board_read cap_walk_numeral
  pci_read_u16_def pci_read_u8_def pci_write_u16_def cfg_addr_def region_def pci_mmio_kernel_addr_def

lemma board_regions:
  "\<exists>b. virtio_regions board_ports None (0, 3, 0) ((a, board_config), ws) = Some (Some (0xFE000000, 0xFE003000, 4, 0xFE002000), b, ws)"
  by (simp add: virtio_regions_def board_eval board_config_def)

lemma board_starts: "\<exists>n d'. net_init board_ports board_regs None rxq txq rx tx (0, 3, 0) ((a, board_config), ws) = Some (Some n, d')"
proof -
  obtain b where "virtio_regions board_ports None (0, 3, 0) ((a, board_config), ws) = Some (Some (0xFE000000, 0xFE003000, 4, 0xFE002000), b, ws)"
    using board_regions by blast
  then show ?thesis
    by (simp add: net_init_def Let_def virtio_reset_def accept_features_def features_ok_def queue_max_def setup_one_queue_def driver_ok_def
        notify_queue_def read_mac_def board_regs_def is_power_of_two_def)
qed

lemma board_probes: "\<exists>n d'. net_probe board_ports board_regs None rxq txq rx tx ((a, board_config), []) = Some (Some n, d')"
proof -
  obtain found d1 where scan: "find_device_any_fn board_ports 0x1AF4 0x1041 8 ((a, board_config), []) = (found, d1)" by (rule prod.exhaust)
  have "snd d1 = []" using board.log_all_hits [of _ 8 pci_functions "[]" "((a, board_config), [])"] scan unfolding find_device_any_fn_def
    by (metis (mono_tags, lifting) board.log_read(1) case_prod_beta snd_conv)
  moreover have "(snd \<circ> fst) d1 = board_config \<and> found = [(0, 3, 0)]"
    using board.device_hits [OF scan] by (simp add: board_functions)
  ultimately obtain a1 where d1: "d1 = ((a1, board_config), [])" "found = [(0, 3, 0)]" by (cases d1) auto
  show ?thesis unfolding net_probe_def scan d1
    using board_starts by (simp add: Let_def class_subclass_prog_fn_def pci_read_u8_def board_read cfg_addr_def board_config_def absent_def)
qed

lemma board_blk_starts: "\<exists>b d'. blk_init board_ports board_regs None blk0 blk1 (0, 3, 0) 0 False ((a, board_config), ws) = Some (Some b, d')"
proof -
  obtain b where "virtio_regions board_ports None (0, 3, 0) ((a, board_config), ws) = Some (Some (0xFE000000, 0xFE003000, 4, 0xFE002000), b, ws)"
    using board_regions by blast
  then show ?thesis
    by (cases blk0) (simp add: blk_init_def Let_def virtio_reset_def accept_features_def features_ok_def queue_max_def setup_one_queue_def driver_ok_def
        board_regs_def is_power_of_two_def)
qed

section \<open>The drivers start as the standard asks\<close>





text \<open>
  C37. Every successful probe writes 0 to \<open>queue_enable\<close> before it enables a queue, which section 4.1.4.3.2 of the standard forbids.
\<close>

theorem queue_enable_zero:
  assumes "register_log io mm log" "net_probe io mm skew rxq txq rx tx d = Some (Some n, d')"
  shows "\<exists>ws. log d' = log d @ ws \<and> W16 (vn_common n) 28 0 \<in> set ws"
  using register_log.net_probe_log [OF assms] by fastforce

theorem queue_enable_zero_witness:
  "\<exists>n d'. net_probe board_ports board_regs None 0x100000 0x200000 (vn_rx fresh_net) (vn_tx fresh_net) ((0, board_config), []) = Some (Some n, d')
    \<and> W16 (vn_common n) 28 0 \<in> set (snd d')"
proof -
  obtain n d' where r: "net_probe board_ports board_regs None 0x100000 0x200000 (vn_rx fresh_net) (vn_tx fresh_net) ((0, board_config), []) = Some (Some n, d')"
    using board_probes by blast
  from queue_enable_zero [OF board_log r] r show ?thesis by auto
qed

end
