(* ===== verification/Eve_Nic.thy ===== *)
theory Eve_Nic
  imports Eve_Virtio_Init
begin

text \<open>
  The choice of the network card, \<open>kernel/src/nic/x86.rs\<close>: the probes in their order and the dispatch to the driver that was
  found, with the placeholder driver \<open>kernel/src/bge.rs\<close>. The VirtIO driver is the one of \<open>Eve_Virtio_Net\<close>; the five drivers that are
  not modelled are arguments. A card whose drivers drain is a card that drains, whichever is chosen.
\<close>

section \<open>Cards\<close>

record bge =
  bge_mac :: mac
  bge_rx_packets :: u64

definition bge_probe :: "'d \<Rightarrow> bge option \<times> 'd" where
  "bge_probe d = (None, d)"

definition bge_poll_rx_packet :: "usize \<Rightarrow> bge \<times> 'd \<Rightarrow> (usize \<times> bytes) option \<times> bge \<times> 'd" where
  "bge_poll_rx_packet room s = (None, s)"

definition bge_transmit :: "bytes \<Rightarrow> bge \<times> 'd \<Rightarrow> bool \<times> bge \<times> 'd" where
  "bge_transmit pkt s = (False, s)"

datatype 'o any_nic = Virtio virtio_net | Rtl8139 'o | Rtl8168 'o | E1000 'o | Vmxnet3 'o | Bge bge | Pcnet 'o

text \<open>A driver that is not modelled, with its state \<open>'o\<close>.\<close>

record ('o, 'd) card_driver =
  drv_probe :: "'d \<Rightarrow> 'o option \<times> 'd"
  drv_mac :: "'o \<Rightarrow> mac"
  drv_rx_packets :: "'o \<Rightarrow> u64"
  drv_poll :: "usize \<Rightarrow> 'o \<times> 'd \<Rightarrow> (usize \<times> bytes) option \<times> 'o \<times> 'd"
  drv_transmit :: "bytes \<Rightarrow> 'o \<times> 'd \<Rightarrow> bool \<times> 'o \<times> 'd"

record ('o, 'd) nic_drivers =
  drv_rtl8139 :: "('o, 'd) card_driver"
  drv_rtl8168 :: "('o, 'd) card_driver"
  drv_e1000 :: "('o, 'd) card_driver"
  drv_vmxnet3 :: "('o, 'd) card_driver"
  drv_pcnet :: "('o, 'd) card_driver"

section \<open>Probing and dispatch\<close>

text \<open>The next probe runs only when the earlier ones found nothing.\<close>

definition or_probe :: "('d \<Rightarrow> 'a option \<times> 'd) \<Rightarrow> ('a \<Rightarrow> 'b) \<Rightarrow> ('d \<Rightarrow> 'b option \<times> 'd) \<Rightarrow> 'd \<Rightarrow> 'b option \<times> 'd" where
  "or_probe p wrap rest d = (case p d of (Some a, d) \<Rightarrow> (Some (wrap a), d) | (None, d) \<Rightarrow> rest d)"

text \<open>\<open>virtio\<close> is \<open>VirtioNet::probe\<close>, which may panic.\<close>

definition any_probe :: "('d \<Rightarrow> (virtio_net option \<times> 'd) option) \<Rightarrow> ('o, 'd) nic_drivers \<Rightarrow> 'd \<Rightarrow> ('o any_nic option \<times> 'd) option" where
  "any_probe virtio drv d =
     (case virtio d of
        None \<Rightarrow> None
      | Some (Some v, d) \<Rightarrow> Some (Some (Virtio v), d)
      | Some (None, d) \<Rightarrow> Some
          (or_probe (drv_probe (drv_rtl8139 drv)) Rtl8139
            (or_probe (drv_probe (drv_rtl8168 drv)) Rtl8168
              (or_probe (drv_probe (drv_e1000 drv)) E1000
                (or_probe (drv_probe (drv_vmxnet3 drv)) Vmxnet3
                  (or_probe bge_probe Bge
                    (or_probe (drv_probe (drv_pcnet drv)) Pcnet (Pair None)))))) d))"

fun driver_tag :: "'o any_nic \<Rightarrow> bytes" where
  "driver_tag (Virtio _) = ascii ''virtio-net''"
| "driver_tag (Rtl8139 _) = ascii ''rtl8139''"
| "driver_tag (Rtl8168 _) = ascii ''rtl8168''"
| "driver_tag (E1000 _) = ascii ''e1000''"
| "driver_tag (Vmxnet3 _) = ascii ''vmxnet3''"
| "driver_tag (Bge _) = ascii ''bge''"
| "driver_tag (Pcnet _) = ascii ''pcnet''"

fun any_mac :: "('o, 'd) nic_drivers \<Rightarrow> 'o any_nic \<Rightarrow> mac" where
  "any_mac drv (Virtio n) = vn_mac n"
| "any_mac drv (Rtl8139 n) = drv_mac (drv_rtl8139 drv) n"
| "any_mac drv (Rtl8168 n) = drv_mac (drv_rtl8168 drv) n"
| "any_mac drv (E1000 n) = drv_mac (drv_e1000 drv) n"
| "any_mac drv (Vmxnet3 n) = drv_mac (drv_vmxnet3 drv) n"
| "any_mac drv (Bge n) = bge_mac n"
| "any_mac drv (Pcnet n) = drv_mac (drv_pcnet drv) n"

fun any_rx_packets :: "('o, 'd) nic_drivers \<Rightarrow> 'o any_nic \<Rightarrow> u64" where
  "any_rx_packets drv (Virtio n) = vn_packets n"
| "any_rx_packets drv (Rtl8139 n) = drv_rx_packets (drv_rtl8139 drv) n"
| "any_rx_packets drv (Rtl8168 n) = drv_rx_packets (drv_rtl8168 drv) n"
| "any_rx_packets drv (E1000 n) = drv_rx_packets (drv_e1000 drv) n"
| "any_rx_packets drv (Vmxnet3 n) = drv_rx_packets (drv_vmxnet3 drv) n"
| "any_rx_packets drv (Bge n) = bge_rx_packets n"
| "any_rx_packets drv (Pcnet n) = drv_rx_packets (drv_pcnet drv) n"

text \<open>The state of the driver is put back under its constructor.\<close>

definition rewrap :: "('a \<Rightarrow> 'b) \<Rightarrow> 'r \<times> 'a \<times> 'd \<Rightarrow> 'r \<times> 'b \<times> 'd" where
  "rewrap wrap = (\<lambda>(r, n, d). (r, wrap n, d))"

fun any_poll_rx_packet :: "'d net_hw \<Rightarrow> ('o, 'd) nic_drivers \<Rightarrow> usize \<Rightarrow> 'o any_nic \<times> 'd \<Rightarrow> (usize \<times> bytes) option \<times> 'o any_nic \<times> 'd" where
  "any_poll_rx_packet hw drv room (Virtio n, d) = rewrap Virtio (poll_rx_packet hw room (n, d))"
| "any_poll_rx_packet hw drv room (Rtl8139 n, d) = rewrap Rtl8139 (drv_poll (drv_rtl8139 drv) room (n, d))"
| "any_poll_rx_packet hw drv room (Rtl8168 n, d) = rewrap Rtl8168 (drv_poll (drv_rtl8168 drv) room (n, d))"
| "any_poll_rx_packet hw drv room (E1000 n, d) = rewrap E1000 (drv_poll (drv_e1000 drv) room (n, d))"
| "any_poll_rx_packet hw drv room (Vmxnet3 n, d) = rewrap Vmxnet3 (drv_poll (drv_vmxnet3 drv) room (n, d))"
| "any_poll_rx_packet hw drv room (Bge n, d) = rewrap Bge (bge_poll_rx_packet room (n, d))"
| "any_poll_rx_packet hw drv room (Pcnet n, d) = rewrap Pcnet (drv_poll (drv_pcnet drv) room (n, d))"

text \<open>The drivers other than VirtIO get the packet without its first twelve bytes, and only when it is longer.\<close>

definition without_header :: "(bytes \<Rightarrow> 's \<Rightarrow> bool \<times> 's) \<Rightarrow> bytes \<Rightarrow> 's \<Rightarrow> bool \<times> 's" where
  "without_header tx pkt s = (if length pkt \<le> 12 then (False, s) else tx (drop 12 pkt) s)"

fun any_transmit :: "'d net_hw \<Rightarrow> ('o, 'd) nic_drivers \<Rightarrow> bytes \<Rightarrow> 'o any_nic \<times> 'd \<Rightarrow> bool \<times> 'o any_nic \<times> 'd" where
  "any_transmit hw drv pkt (Virtio n, d) = rewrap Virtio (net_transmit hw pkt (n, d))"
| "any_transmit hw drv pkt (Rtl8139 n, d) = rewrap Rtl8139 (without_header (drv_transmit (drv_rtl8139 drv)) pkt (n, d))"
| "any_transmit hw drv pkt (Rtl8168 n, d) = rewrap Rtl8168 (without_header (drv_transmit (drv_rtl8168 drv)) pkt (n, d))"
| "any_transmit hw drv pkt (E1000 n, d) = rewrap E1000 (without_header (drv_transmit (drv_e1000 drv)) pkt (n, d))"
| "any_transmit hw drv pkt (Vmxnet3 n, d) = rewrap Vmxnet3 (without_header (drv_transmit (drv_vmxnet3 drv)) pkt (n, d))"
| "any_transmit hw drv pkt (Bge n, d) = rewrap Bge (without_header bge_transmit pkt (n, d))"
| "any_transmit hw drv pkt (Pcnet n, d) = rewrap Pcnet (without_header (drv_transmit (drv_pcnet drv)) pkt (n, d))"

definition any_card :: "'d net_hw \<Rightarrow> ('o, 'd) nic_drivers \<Rightarrow> ('o any_nic \<times> 'd) nic_ops" where
  "any_card hw drv = \<lparr> nic_transmit = any_transmit hw drv, nic_poll = any_poll_rx_packet hw drv 2048 \<rparr>"

section \<open>Draining\<close>

definition driver_card :: "('o, 'd) card_driver \<Rightarrow> ('o \<times> 'd) nic_ops" where
  "driver_card v = \<lparr> nic_transmit = drv_transmit v, nic_poll = drv_poll v 2048 \<rparr>"

text \<open>A rank for each driver makes a rank for the chosen card.\<close>

fun any_rank :: "(virtio_net \<times> 'd \<Rightarrow> nat) \<Rightarrow> (('o, 'd) card_driver \<Rightarrow> 'o \<times> 'd \<Rightarrow> nat) \<Rightarrow> ('o, 'd) nic_drivers \<Rightarrow> 'o any_nic \<times> 'd \<Rightarrow> nat" where
  "any_rank rv ro drv (Virtio n, d) = rv (n, d)"
| "any_rank rv ro drv (Rtl8139 n, d) = ro (drv_rtl8139 drv) (n, d)"
| "any_rank rv ro drv (Rtl8168 n, d) = ro (drv_rtl8168 drv) (n, d)"
| "any_rank rv ro drv (E1000 n, d) = ro (drv_e1000 drv) (n, d)"
| "any_rank rv ro drv (Vmxnet3 n, d) = ro (drv_vmxnet3 drv) (n, d)"
| "any_rank rv ro drv (Bge n, d) = 0"
| "any_rank rv ro drv (Pcnet n, d) = ro (drv_pcnet drv) (n, d)"

lemma drain_rank:
  assumes "card_drains vio rank"
  shows "nic_poll vio s = (Some r, s') \<Longrightarrow> rank s' < rank s" "nic_poll vio s = (None, s') \<Longrightarrow> rank s' \<le> rank s"
    "nic_transmit vio pkt s = (b, s') \<Longrightarrow> rank s' \<le> rank s"
  using assms unfolding card_drains_def by (metis surj_pair, metis, metis snd_conv)

lemma driver_rank:
  assumes "card_drains (driver_card v) rank"
  shows "drv_poll v 2048 s = (Some r, s') \<Longrightarrow> rank s' < rank s" "drv_poll v 2048 s = (None, s') \<Longrightarrow> rank s' \<le> rank s"
    "without_header (drv_transmit v) pkt s = (b, s') \<Longrightarrow> rank s' \<le> rank s"
  using drain_rank [OF assms] by (auto simp: driver_card_def without_header_def split: if_split_asm)

lemma any_card_drains:
  assumes virtio: "card_drains (virtio_card hw) rv"
    and others: "card_drains (driver_card (drv_rtl8139 drv)) (ro (drv_rtl8139 drv))" "card_drains (driver_card (drv_rtl8168 drv)) (ro (drv_rtl8168 drv))"
      "card_drains (driver_card (drv_e1000 drv)) (ro (drv_e1000 drv))" "card_drains (driver_card (drv_vmxnet3 drv)) (ro (drv_vmxnet3 drv))"
      "card_drains (driver_card (drv_pcnet drv)) (ro (drv_pcnet drv))"
  shows "card_drains (any_card hw drv) (any_rank rv ro drv)"
proof -
  note virtio_rank = drain_rank [OF virtio, unfolded virtio_card_def nic_ops.select_convs]
  note ranks = virtio_rank others [THEN driver_rank(1)] others [THEN driver_rank(2)] others [THEN driver_rank(3)]
  have poll: "any_rank rv ro drv s' \<le> any_rank rv ro drv s \<and> (r \<noteq> None \<longrightarrow> any_rank rv ro drv s' < any_rank rv ro drv s)"
    if "any_poll_rx_packet hw drv 2048 s = (r, s')" for s r s'
  proof (cases s)
    case (Pair n d)
    show ?thesis using that ranks unfolding Pair
      by (cases r; cases n) (auto simp: rewrap_def bge_poll_rx_packet_def less_imp_le split: prod.splits)
  qed
  have tx: "any_rank rv ro drv s' \<le> any_rank rv ro drv s" if "any_transmit hw drv pkt s = (b, s')" for pkt s b s'
  proof (cases s)
    case (Pair n d)
    show ?thesis using that ranks unfolding Pair
      by (cases n) (auto simp: rewrap_def without_header_def bge_transmit_def split: prod.splits)
  qed
  show ?thesis using poll tx by (auto simp: card_drains_def any_card_def) (metis surj_pair snd_conv)
qed

end
