(* ===== verification/Eve_Net_Card.thy ===== *)
theory Eve_Net_Card
  imports Eve_Main_Inv Eve_Nic
begin

text \<open>
  The kernel on a VirtIO network card: the driver of \<open>Eve_Virtio_Net\<close> on any conforming device is a card that drains, so
  that the guarantees of the main loop hold with the modelled driver in place of an assumed card.
\<close>

lemma virtio_platform_ok:
  assumes "net_device hw qm inbox sent" "p_vio pf = virtio_card hw" "pump_ends (p_dec pf) (p_tls pf)"
    "tls_over_bridge (p_dec pf) (p_vio pf) (p_tls pf)"
  shows "platform_ok pf (net_device.net_rank inbox)"
  using net_device.virtio_drains [OF assms(1)] assms(2-4) by (simp add: platform_ok_def)


definition virtio_platform :: "(virtio_net \<times> bytes list \<times> bytes list, unit) platform" where
  "virtio_platform = \<lparr> p_dec = no_decoders, p_vio = virtio_card ref_net, p_tls = refusing_tls, p_rx_packets = (\<lambda>(n, _). vn_packets n),
     p_nic_mac = (\<lambda>(n, _). vn_mac n) \<rparr>"

definition virtio_world :: "bytes list \<Rightarrow> (virtio_net \<times> bytes list \<times> bytes list, unit) net_world" where
  "virtio_world packets = \<lparr> w_net = static_initial, w_nic = (fresh_net, packets, []), w_scratch = replicate 1536 0, w_tls = () \<rparr>"


text \<open>The same with whichever card \<open>AnyNic::probe\<close> chose, when the drivers that are not modelled drain.\<close>

lemma kernel_on_any_card:
  assumes "net_device hw qm inbox sent" "p_vio pf = any_card hw drv"
    "card_drains (driver_card (drv_rtl8139 drv)) (ro (drv_rtl8139 drv))" "card_drains (driver_card (drv_rtl8168 drv)) (ro (drv_rtl8168 drv))"
    "card_drains (driver_card (drv_e1000 drv)) (ro (drv_e1000 drv))" "card_drains (driver_card (drv_vmxnet3 drv)) (ro (drv_vmxnet3 drv))"
    "card_drains (driver_card (drv_pcnet drv)) (ro (drv_pcnet drv))"
    "pump_ends (p_dec pf) (p_tls pf)" "tls_over_bridge (p_dec pf) (p_vio pf) (p_tls pf)" "kernel_reach pf ops info (k, d)" "info_ok info"
  shows "\<exists>r. main_round pf ops info inp (k, d) = Some r"
proof -
  have pf: "platform_ok pf (any_rank (net_device.net_rank inbox) ro drv)"
    using any_card_drains [where ro = ro, OF net_device.virtio_drains [OF assms(1)] assms(3-7)] assms(2,8,9) by (simp add: platform_ok_def)
  have "kernel_ok info k" "disks_ok d" using kernel_reach_ok [OF assms(10) pf assms(11)] by simp_all
  from main_round_ok [OF this pf assms(11)] show ?thesis by blast
qed

end
