(* ===== verification/Eve_Main_Laws.thy ===== *)
theory Eve_Main_Laws
  imports Eve_Main_Inv
begin

text \<open>
  What the user sees of the main loop: the notices come first, a typed URL is the one that is fetched, scrolling moves
  within the document, a page that was fetched is shown; and two faults, a page rendered in every round and settings saved
  through memory that was never written.
\<close>

section \<open>Notices\<close>

lemma notice_other_key: "in_notice (k_ui k) \<Longrightarrow> \<not> is_confirm (scancode_set1_to_ascii code shift) \<Longrightarrow>
    ps2_key inet_on paired ignored code shift k = Some k"
  by (auto simp: ps2_key_def Let_def notice_key_def on_ui_def)

lemma notice_other_usb_key: "in_notice (k_ui k) \<Longrightarrow> \<not> is_confirm (hid_usage_to_ascii usage shift) \<Longrightarrow>
    usb_key info inet_on paired usage shift k = Some k"
  by (auto simp: usb_key_def Let_def notice_key_def on_ui_def)

text \<open>A state in which a notice is shown and which differs from \<open>k\<close> only in its pointers.\<close>

definition same_but_pointers :: "('d, 't) kernel \<Rightarrow> ('d, 't) kernel \<Rightarrow> bool" where
  "same_but_pointers k k' \<longleftrightarrow> (\<exists>xs ys as bs. k' = k\<lparr> k_ui := (k_ui k)\<lparr> cursor_x := xs, cursor_y := ys, cursor_active := as, cursor_btn := bs \<rparr> \<rparr>)"

lemma same_but_pointers_ui:
  assumes "same_but_pointers k k1" "k_ui k2 = (k_ui k1)\<lparr> cursor_x := xs, cursor_y := ys, cursor_active := as, cursor_btn := bs \<rparr>"
    "k2 = k1\<lparr> k_ui := k_ui k2 \<rparr>"
  shows "same_but_pointers k k2"
proof -
  obtain xs1 ys1 as1 bs1 where 1: "k1 = k\<lparr> k_ui := (k_ui k)\<lparr> cursor_x := xs1, cursor_y := ys1, cursor_active := as1, cursor_btn := bs1 \<rparr> \<rparr>"
    using assms(1) by (auto simp: same_but_pointers_def)
  have "k2 = k1\<lparr> k_ui := (k_ui k1)\<lparr> cursor_x := xs, cursor_y := ys, cursor_active := as, cursor_btn := bs \<rparr> \<rparr>"
    using assms(2,3) by simp
  then have "k2 = k\<lparr> k_ui := (k_ui k)\<lparr> cursor_x := xs, cursor_y := ys, cursor_active := as, cursor_btn := bs \<rparr> \<rparr>" by (simp add: 1)
  then show ?thesis unfolding same_but_pointers_def by blast
qed

lemma same_but_pointers_refl: "same_but_pointers k k"
proof -
  have "k = k\<lparr> k_ui := (k_ui k)\<lparr> cursor_x := cursor_x (k_ui k), cursor_y := cursor_y (k_ui k), cursor_active := cursor_active (k_ui k),
      cursor_btn := cursor_btn (k_ui k) \<rparr> \<rparr>" by simp
  then show ?thesis unfolding same_but_pointers_def by blast
qed

lemma same_but_pointers_fields:
  assumes "same_but_pointers k k'"
  shows "screen (k_ui k') = screen (k_ui k)" "in_notice (k_ui k') = in_notice (k_ui k)" "k_world k' = k_world k"
    "url (k_ui k') = url (k_ui k)" "url_len (k_ui k') = url_len (k_ui k)" "settings (k_ui k') = settings (k_ui k)" "k_html k' = k_html k"
  using assms by (auto simp: same_but_pointers_def in_notice_def)

lemma moved_pointer:
  assumes "same_but_pointers k k1" "move_cursor info s b dx dy (k_ui k1) = Some st"
  shows "same_but_pointers k (k1\<lparr> k_ui := st \<rparr>)"
proof -
  have "k_ui (k1\<lparr> k_ui := st \<rparr>) = (k_ui k1)\<lparr> cursor_x := cursor_x st, cursor_y := cursor_y st, cursor_active := cursor_active st,
      cursor_btn := cursor_btn st \<rparr>"
    using assms(2) by (auto simp: move_cursor_def split: if_splits)
  from same_but_pointers_ui [OF assms(1) this] show ?thesis by simp
qed

lemma notice_scroll: "in_notice (k_ui k) \<Longrightarrow> ps2_scroll info n k = k"
  by (auto simp: ps2_scroll_def scroll_panel_def in_notice_def Let_def on_ui_def)

lemma fold_option_keeps:
  assumes "fold_option f xs s = Some s'" "P s" "\<And>x s s'. x \<in> set xs \<Longrightarrow> P s \<Longrightarrow> f x s = Some s' \<Longrightarrow> P s'"
  shows "P s'"
  using assms
proof (induction xs arbitrary: s)
  case (Cons x xs)
  then obtain s1 where "f x s = Some s1" "fold_option f xs s1 = Some s'" by (auto split: option.splits)
  with Cons show ?case by (metis list.set_intros)
qed simp

text \<open>The input of a round does not confirm a notice: no key of it is line feed or space.\<close>

definition confirms_nothing :: "round_input \<Rightarrow> bool" where
  "confirms_nothing inp \<longleftrightarrow>
     list_all (\<lambda>ev. case ev of Key code shift \<Rightarrow> \<not> is_confirm (scancode_set1_to_ascii code shift) | _ \<Rightarrow> True) (ps2_events inp)
     \<and> list_all (\<lambda>(usage, shift). \<not> is_confirm (hid_usage_to_ascii usage shift)) (usb_key_presses inp)"

lemma notice_event:
  assumes "same_but_pointers k k1" "in_notice (k_ui k)" "ps2_event_step info inet_on paired ignored place ev k1 = Some k2"
    "case ev of Key code shift \<Rightarrow> \<not> is_confirm (scancode_set1_to_ascii code shift) | _ \<Rightarrow> True"
  shows "same_but_pointers k k2"
proof -
  have n: "in_notice (k_ui k1)" using assms(1,2) same_but_pointers_fields(2) by blast
  show ?thesis
  proof (cases ev)
    case (Key code shift)
    then show ?thesis using assms(1,3,4) notice_other_key [OF n, of code shift inet_on paired ignored] by simp
  next
    case (Mouse b dx dy)
    then show ?thesis using assms(1,3) moved_pointer [OF assms(1)] by (auto split: option.splits)
  qed (use assms(1,3) notice_scroll [OF n] in simp)
qed

text \<open>
  C9. The notices come first: while one of the two notices is shown, input without a line feed or a space changes
  nothing but the pointers. No other key leaves the notice, nothing is typed, no setting changes and no fetch is started.
\<close>

theorem notice_must_be_confirmed:
  assumes "in_notice (k_ui k)" "confirms_nothing inp" "kernel_ok info k" "info_ok info"
  shows "\<exists>k'. read_input info inet_on paired inp k = Some k' \<and> same_but_pointers k k'"
proof -
  obtain k' where k': "read_input info inet_on paired inp k = Some k'" using read_input_ok [OF assms(3,4)] by blast
  define n where "n = usb_pointers inp (k_ui k)"
  have start: "same_but_pointers k (on_ui (activate_cursors n) k)"
  proof (rule same_but_pointers_ui [OF same_but_pointers_refl])
    show "k_ui (on_ui (activate_cursors n) k) = (k_ui k)\<lparr> cursor_x := cursor_x (k_ui k), cursor_y := cursor_y (k_ui k),
        cursor_active := cursor_active (activate_cursors n (k_ui k)), cursor_btn := cursor_btn (k_ui k) \<rparr>"
      by (simp add: on_ui_def activate_cursors_def)
  qed (simp add: on_ui_def)
  obtain k1 where 1: "fold_option (ps2_event_step info inet_on paired (ps2_kbd_ignored inp) (ps2_mouse_slot n)) (ps2_events inp)
      (on_ui (activate_cursors n) k) = Some k1"
    using k' by (auto simp: read_input_def Let_def n_def split: bind_splits)
  have s1: "same_but_pointers k k1"
    by (rule fold_option_keeps [where P = "same_but_pointers k", OF 1 start], rule notice_event [OF _ assms(1)])
      (use assms(2) in \<open>auto simp: confirms_nothing_def list_all_iff\<close>)
  show ?thesis
  proof (cases "usb_polling_enabled (settings (k_ui k1))")
    case True
    obtain st where 2: "fold_option (usb_mouse_step info inp n) [0..<min (usb_mouse_count inp) 12] (k_ui k1) = Some st"
      using k' 1 True by (auto simp: read_input_def Let_def n_def split: bind_splits)
    have "same_but_pointers k (k1\<lparr> k_ui := st \<rparr>)"
    proof (rule fold_option_keeps [where P = "\<lambda>st. same_but_pointers k (k1\<lparr> k_ui := st \<rparr>)", OF 2])
      fix i st st' assume "same_but_pointers k (k1\<lparr> k_ui := st \<rparr>)" "usb_mouse_step info inp n i st = Some st'"
      then show "same_but_pointers k (k1\<lparr> k_ui := st' \<rparr>)"
        using moved_pointer [of k "k1\<lparr> k_ui := st \<rparr>" info i _ _ _ st'] by (auto simp: usb_mouse_step_def split: option.splits if_splits)
    qed (use s1 in simp)
    moreover have "same_but_pointers k k3" if "fold_option (\<lambda>(usage, shift). usb_key info inet_on paired usage shift) (usb_key_presses inp)
        (k1\<lparr> k_ui := st \<rparr>) = Some k3" "same_but_pointers k (k1\<lparr> k_ui := st \<rparr>)" for k3
      by (rule fold_option_keeps [where P = "same_but_pointers k", OF that])
        (use assms(1,2) same_but_pointers_fields(2) notice_other_usb_key in \<open>fastforce simp: confirms_nothing_def list_all_iff\<close>)
    ultimately show ?thesis using k' 1 2 True by (auto simp: read_input_def Let_def n_def [symmetric] split: if_splits)
  qed (use k' 1 s1 in \<open>auto simp: read_input_def Let_def n_def\<close>)
qed

theorem notice_must_be_confirmed_witness:
  "\<exists>k'. read_input screen_info True False (quiet_round\<lparr> ps2_events := [Key 0x3B False, Mouse 1 5 (- 3)] \<rparr>) wire_kernel = Some k'
     \<and> same_but_pointers wire_kernel k'"
proof (rule notice_must_be_confirmed)
  show "in_notice (k_ui wire_kernel)"
    by (simp add: wire_kernel_def boot_kernel_def Let_def in_notice_def fresh_ui_ok)
  show "kernel_ok screen_info wire_kernel"
    using kernel_reach_ok [OF wire_kernel_reach wire_platform_ok screen_info_ok(1)] by simp
  show "confirms_nothing (quiet_round\<lparr> ps2_events := [Key 0x3B False, Mouse 1 5 (- 3)] \<rparr>)"
    by code_simp
qed (rule screen_info_ok(1))

section \<open>Typing a URL\<close>

lemma function_keys_type_nothing:
  "scancode_set1_to_ascii 0x3B s = None" "scancode_set1_to_ascii 0x3C s = None" "scancode_set1_to_ascii 0x3D s = None"
  "scancode_set1_to_ascii 0x3E s = None" "scancode_set1_to_ascii 0x3F s = None" "scancode_set1_to_ascii 0x40 s = None"
  by (simp_all add: scancode_set1_to_ascii_def set1_symbols_def set1_letters_def)

lemma typed_in_browser:
  assumes "screen (k_ui k) = Browser" "scancode_set1_to_ascii code shift = Some c"
  shows "ps2_key inet_on paired False code shift k = (if c = 0x0A then start_browser_fetch inet_on k else Some (on_ui (url_key c) k))"
proof -
  have "code \<noteq> 0x3B" "code \<noteq> 0x3C" "code \<noteq> 0x3D" "code \<noteq> 0x3E" "code \<noteq> 0x3F" "code \<noteq> 0x40"
    using assms(2) function_keys_type_nothing by (metis option.distinct(1))+
  with assms show ?thesis by (simp add: ps2_key_def Let_def in_notice_def typed_key_def)
qed

text \<open>The keys that type a text.\<close>

definition types :: "(u8 \<times> bool) list \<Rightarrow> bytes \<Rightarrow> bool" where
  "types ks cs \<longleftrightarrow> list_all2 (\<lambda>(code, shift) c. scancode_set1_to_ascii code shift = Some c) ks cs"

definition ps2_keys :: "bool \<Rightarrow> (u8 \<times> bool) list \<Rightarrow> ('d, 't) kernel \<Rightarrow> ('d, 't) kernel option" where
  "ps2_keys inet_on ks = fold_option (\<lambda>(code, shift). ps2_key inet_on False False code shift) ks"

lemma fold_option_append:
  "fold_option f (xs @ ys) s = (case fold_option f xs s of None \<Rightarrow> None | Some s \<Rightarrow> fold_option f ys s)"
  by (induction xs arbitrary: s) (auto split: option.splits)

lemma url_key_appends:
  assumes "ui_ok info st" "printable c" "url_len st < 191"
  shows "current_url (url_key c st) = current_url st @ [c]" "url_len (url_key c st) = url_len st + 1" "screen (url_key c st) = screen st"
proof -
  have "length (url st) = 192" "c \<noteq> 8" using assms by (auto simp: printable_def dest: ui_ok_fields(1))
  then show "current_url (url_key c st) = current_url st @ [c]" "url_len (url_key c st) = url_len st + 1" "screen (url_key c st) = screen st"
    using assms(2,3) by (simp_all add: url_key_def current_url_def take_Suc_conv_app_nth)
qed

lemma text_typed:
  assumes "kernel_ok info k" "screen (k_ui k) = Browser" "types ks cs" "list_all printable cs" "url_len (k_ui k) + length cs \<le> 191"
  shows "\<exists>k'. ps2_keys inet_on ks k = Some k' \<and> kernel_ok info k' \<and> screen (k_ui k') = Browser \<and> k_net k' = k_net k
    \<and> current_url (k_ui k') = current_url (k_ui k) @ cs \<and> url_len (k_ui k') = url_len (k_ui k) + length cs"
  using assms
proof (induction ks arbitrary: k cs)
  case Nil
  then show ?case by (simp add: types_def ps2_keys_def)
next
  case (Cons key ks)
  obtain code shift where key: "key = (code, shift)" by (cases key)
  obtain c cs' where cs: "cs = c # cs'" "scancode_set1_to_ascii code shift = Some c" "types ks cs'"
    using Cons.prems(3) by (auto simp: types_def key list_all2_Cons1)
  have c: "printable c" "c \<noteq> 0x0A" using Cons.prems(4) by (auto simp: cs(1) printable_def)
  let ?k = "on_ui (url_key c) k"
  have ok: "kernel_ok info ?k" using Cons.prems(1) by (simp add: kernel_ok_def kernel_simps url_key_ok)
  note app = url_key_appends [of info "k_ui k" c, OF _ c(1)]
  have "\<exists>k'. ps2_keys inet_on ks ?k = Some k' \<and> kernel_ok info k' \<and> screen (k_ui k') = Browser \<and> k_net k' = k_net ?k
    \<and> current_url (k_ui k') = current_url (k_ui ?k) @ cs' \<and> url_len (k_ui k') = url_len (k_ui ?k) + length cs'"
    using app Cons.prems by (intro Cons.IH [OF ok _ cs(3)]) (simp_all add: kernel_simps cs(1) kernel_ok_def)
  then show ?case using app Cons.prems typed_in_browser [OF Cons.prems(2) cs(2), of inet_on False] c(2)
    by (simp add: ps2_keys_def key cs(1) kernel_simps kernel_ok_def)
qed

text \<open>
  C8. A typed URL is the one that is fetched: in the browser with an empty URL bar and the network on, the keys
  of a text of at most 191 printable characters and then the enter key start the fetch of exactly this text on the
  network stack, and the URL bar shows it.
\<close>

theorem typed_url_fetched:
  assumes "kernel_ok info k" "screen (k_ui k) = Browser" "url_len (k_ui k) = 0"
    "types ks u" "list_all printable u" "u \<noteq> []" "length u \<le> 191"
  shows "\<exists>k'. ps2_keys True (ks @ [(0x1C, False)]) k = Some k' \<and> k_net k' = start_fetch u (k_net k) \<and> current_url (k_ui k') = u
    \<and> kernel_ok info k'"
proof -
  have empty: "current_url (k_ui k) = []" using assms(3) by (simp add: current_url_def)
  obtain k1 where 1: "ps2_keys True ks k = Some k1" "kernel_ok info k1" "screen (k_ui k1) = Browser" "k_net k1 = k_net k"
      "current_url (k_ui k1) = u" "url_len (k_ui k1) = length u"
    using text_typed [OF assms(1,2,4,5), of True, unfolded empty assms(3) append_Nil add_0] assms(7) by blast
  have ui: "ui_ok info (k_ui k1)" using 1(2) by (simp add: kernel_ok_def)
  obtain st where st: "(if history_skip_push (k_ui k1) then Some ((k_ui k1)\<lparr> history_skip_push := False \<rparr>)
      else history_push_current (k_ui k1)) = Some st" "url st = url (k_ui k1)" "url_len st = length u" "ui_ok info st"
  proof (cases "history_skip_push (k_ui k1)")
    case True
    then show thesis using that [of "(k_ui k1)\<lparr> history_skip_push := False \<rparr>"] ui 1(6) by simp
  next
    case False
    obtain st where "history_push_current (k_ui k1) = Some st" "ui_ok info st" using history_push_ok [OF ui] by blast
    with False show thesis using that [of st] history_push_fields(3,4) [of "k_ui k1" st] 1(6) by simp
  qed
  have len: "\<not> length (url st) < url_len st" "\<not> url_len st = 0" using ui_ok_fields(1,2) [OF st(4)] assms(6) st(3) by simp_all
  have u: "take (url_len st) (url st) = u" using 1(5,6) by (simp add: st(2,3) current_url_def)
  define k2 where "k2 = on_ui (\<lambda>st. st\<lparr> browser_line_count := 0, last_rendered_raw_len := None, page_scroll_line := 0,
                  browser_body_dirty := True, status_dirty := True \<rparr>) (on_stack (start_fetch u) (k1\<lparr> k_ui := st \<rparr>))"
  have net: "k_net k2 = start_fetch u (k_net k)" using 1(4) by (simp add: k2_def kernel_simps)
  have shown: "current_url (k_ui k2) = u" using u by (simp add: k2_def kernel_simps current_url_def)
  have go: "start_browser_fetch True k1 = Some k2"
    unfolding start_browser_fetch_def st(1) Option.bind.simps Let_def if_not_P [OF len(1)] if_not_P [OF len(2)] u k2_def
    by (simp only: not_True_eq_False if_False)
  have "scancode_set1_to_ascii 0x1C False = Some 0x0A" by (simp add: scancode_set1_to_ascii_def)
  from typed_in_browser [OF 1(3) this, of True False] go
  have run: "ps2_keys True (ks @ [(0x1C, False)]) k = Some k2" using 1(1) by (simp add: ps2_keys_def fold_option_append)
  have "kernel_ok info k2" using start_browser_fetch_ok [OF 1(2), of True] unfolding go by blast
  with run net shown show ?thesis by blast
qed

text \<open>The browser with an empty URL bar.\<close>

definition empty_bar :: "('d, 't) kernel \<Rightarrow> ('d, 't) kernel" where
  "empty_bar = on_ui (\<lambda>st. st\<lparr> screen := Browser, url_len := 0 \<rparr>)"

lemma wire_kernel_ok: "kernel_ok screen_info wire_kernel" "kernel_ok screen_info (empty_bar wire_kernel)"
proof -
  show ok: "kernel_ok screen_info wire_kernel"
    using kernel_reach_ok [OF wire_kernel_reach wire_platform_ok screen_info_ok(1)] by simp
  have "ui_ok info (st\<lparr> screen := Browser, url_len := 0 \<rparr>)" if "ui_ok info st" for info st
    using that by (simp add: ui_ok_def history_ok_def cursors_ok_def wifi_ok_def)
  with ok show "kernel_ok screen_info (empty_bar wire_kernel)" by (simp add: empty_bar_def kernel_ok_def kernel_simps)
qed

theorem typed_url_fetched_witness:
  "\<exists>k'. ps2_keys True ([(0x23, False), (0x17, False), (0x27, True)] @ [(0x1C, False)]) (empty_bar wire_kernel) = Some k'
     \<and> k_net k' = start_fetch (ascii ''hi:'') (k_net (empty_bar wire_kernel)) \<and> current_url (k_ui k') = ascii ''hi:''"
proof -
  have k: "screen (k_ui (empty_bar wire_kernel)) = Browser" "url_len (k_ui (empty_bar wire_kernel)) = 0"
    by (simp_all add: empty_bar_def kernel_simps)
  have "types [(0x23, False), (0x17, False), (0x27, True)] (ascii ''hi:'')" "list_all printable (ascii ''hi:'')"
    by code_simp+
  from typed_url_fetched [OF wire_kernel_ok(2) k this] show ?thesis by (simp add: ascii_def) blast
qed

section \<open>Showing a page\<close>

lemma show_page_fields:
  assumes "kernel_ok info k" "format_document (ns_page (k_net k)) (text_colour (k_ui k)) (k_html k) = Some (g, n, trunc, sc)"
    "show_page k = Some k'"
  defines "err \<equiv> ns_fetch_err (k_net k)"
  shows "last_rendered_raw_len (k_ui k') = Some (length (ns_page (k_net k)))" "last_inet_page_gen (k_ui k') = ns_page_gen (k_net k)"
    "fetch_err_len (k_ui k') = length err" "ns_fetch_err (k_net k') = err" "ns_page (k_net k') = ns_page (k_net k)"
    "ns_page_gen (k_net k') = ns_page_gen (k_net k)" "ns_page_truncated (k_net k') = ns_page_truncated (k_net k)"
    "page_truncated (k_ui k') \<longleftrightarrow> err = [] \<and> (ns_page_truncated (k_net k) \<or> trunc)"
    "take (length err) (fetch_err (k_ui k')) = err"
    "err = [] \<longrightarrow> k_html k' = g \<and> browser_line_count (k_ui k') = n" "err \<noteq> [] \<longrightarrow> browser_line_count (k_ui k') = 0"
proof -
  have ok: "ui_ok info (k_ui k)" "length err \<le> 80" using assms(1) by (simp_all add: kernel_ok_def err_def net_wf_defs)
  then have fe: "min (length err) (length (fetch_err (k_ui k))) = length err" by (simp add: ui_ok_fields(7))
  define k1 where "k1 = on_ui (\<lambda>st. st\<lparr> last_rendered_raw_len := Some (length (ns_page (k_net k))), last_inet_page_gen := ns_page_gen (k_net k),
                fetch_err := put_at (fetch_err st) 0 (take (length err) err), fetch_err_len := length err,
                browser_body_dirty := True \<rparr>) k"
  have k1: "text_colour (k_ui k1) = text_colour (k_ui k)" "k_html k1 = k_html k" by (simp_all add: k1_def kernel_simps text_colour_def)
  have k': "k' = (if err \<noteq> [] then on_ui (\<lambda>st. st\<lparr> browser_line_count := 0, page_truncated := False \<rparr>) k1
    else on_log (log_script (run_page_eve_script (ns_page (k_net k)) (browser_script_runtime_enabled (settings (k_ui k1)))))
           (on_ui (\<lambda>st. st\<lparr> browser_line_count := n, page_truncated := ns_page_truncated (k_net k) \<or> trunc \<rparr>) (k1\<lparr> k_html := g \<rparr>)))"
    using assms(3) unfolding show_page_def Let_def err_def [symmetric] fe k1_def [symmetric] k1 assms(2)
    by (simp split: if_splits)
  have ui: "length (fetch_err (k_ui k)) = 80" using ui_ok_fields(7) [OF ok(1)] .
  show "last_rendered_raw_len (k_ui k') = Some (length (ns_page (k_net k)))" "last_inet_page_gen (k_ui k') = ns_page_gen (k_net k)"
    "fetch_err_len (k_ui k') = length err" "ns_fetch_err (k_net k') = err" "ns_page (k_net k') = ns_page (k_net k)"
    "ns_page_gen (k_net k') = ns_page_gen (k_net k)" "ns_page_truncated (k_net k') = ns_page_truncated (k_net k)"
    "page_truncated (k_ui k') \<longleftrightarrow> err = [] \<and> (ns_page_truncated (k_net k) \<or> trunc)"
    "take (length err) (fetch_err (k_ui k')) = err"
    "err = [] \<longrightarrow> k_html k' = g \<and> browser_line_count (k_ui k') = n" "err \<noteq> [] \<longrightarrow> browser_line_count (k_ui k') = 0"
    unfolding k' using ok(2) ui by (simp_all add: k1_def kernel_simps err_def put_at_def)
qed

text \<open>
  C10. A fetched page is shown as \<open>format_document\<close> reads it, or its error message when the fetch failed; and
  whether the next round shows it again: exactly when the flag of the interface, which also records that
  the renderer cut the page, differs from the flag of the stack. So a page of more lines than the renderer keeps is rendered, and
  its script run, again and again.
\<close>

theorem page_shown:
  assumes "kernel_ok info k" "format_document (ns_page (k_net k)) (text_colour (k_ui k)) (k_html k) = Some (g, n, trunc, sc)"
  shows "\<exists>k'. show_page k = Some k' \<and> kernel_ok info k'
    \<and> (if ns_fetch_err (k_net k) = [] then k_html k' = g \<and> browser_line_count (k_ui k') = n
       else browser_line_count (k_ui k') = 0 \<and> take (fetch_err_len (k_ui k')) (fetch_err (k_ui k')) = ns_fetch_err (k_net k))
    \<and> (page_changed (k_net k') (k_ui k') \<longleftrightarrow>
        (if ns_fetch_err (k_net k) = [] then trunc \<and> \<not> ns_page_truncated (k_net k) else ns_page_truncated (k_net k)))"
proof -
  obtain k' where k': "show_page k = Some k'" "kernel_ok info k'" using show_page_ok [OF assms(1)] by blast
  note f = show_page_fields [OF assms k'(1)]
  have "page_changed (k_net k') (k_ui k') \<longleftrightarrow>
      (if ns_fetch_err (k_net k) = [] then trunc \<and> \<not> ns_page_truncated (k_net k) else ns_page_truncated (k_net k))"
    unfolding page_changed_def f(1-8) by auto
  then show ?thesis using k' f(3,9-11) by (intro exI [of _ k']) simp
qed

theorem page_shown_witness:
  "\<exists>k'. show_page wire_kernel = Some k' \<and> kernel_ok screen_info k'"
proof -
  have "browser_ok (k_html wire_kernel)" using wire_kernel_ok(1) by (simp add: kernel_ok_def)
  from format_document_ok [OF this] obtain g n trunc sc
    where "format_document (ns_page (k_net wire_kernel)) (text_colour (k_ui wire_kernel)) (k_html wire_kernel) = Some (g, n, trunc, sc)"
    by blast
  from page_shown [OF wire_kernel_ok(1) this] show ?thesis by blast
qed

section \<open>Saving\<close>

text \<open>
  C40. With two disks of which only the first answers at boot, the interface offers to save the settings, but the
  first save reads the memory of a disk that was never written: the flag of the first disk is set before the second is tried, the disk
  itself is stored only when both answer.
\<close>

theorem save_without_disk:
  assumes "boot_disks ops n (Some src) None cfg = (d, cfg', saved)" "2 \<le> n" "1 \<le> blk_cap ops src"
    "settings_save_requested (k_ui k)"
  shows "saved \<and> save_round ops (k, d) = None"
  using assms by (auto simp: boot_disks_def save_round_def save_to_def no_disks_def Let_def split: prod.splits)

theorem save_without_disk_witness:
  "\<exists>d cfg'. boot_disks ram_disk 2 (Some [replicate 512 0]) None device_settings_new = (d, cfg', True)
     \<and> save_round ram_disk (on_ui (\<lambda>st. st\<lparr> settings_save_requested := True \<rparr>) wire_kernel, d) = None"
proof -
  obtain d cfg' saved where b: "boot_disks ram_disk 2 (Some [replicate 512 0]) None device_settings_new = (d, cfg', saved)"
    using prod_cases3 by blast
  have "1 \<le> blk_cap ram_disk [replicate 512 0]" by (simp add: ram_disk_def)
  from save_without_disk [OF b _ this, of "on_ui (\<lambda>st. st\<lparr> settings_save_requested := True \<rparr>) wire_kernel"] b
  show ?thesis by (simp add: kernel_simps)
qed

section \<open>Scrolling\<close>

text \<open>The largest offset of the panel on the screen, and its offset; a log that sticks to the bottom is at the largest one.\<close>

definition max_offset :: "log_state \<Rightarrow> layout \<Rightarrow> ui_state \<Rightarrow> nat" where
  "max_offset log lay st =
     (case screen st of
        Browser \<Rightarrow> browser_line_count st - browser_scroll_slots lay st
      | Log \<Rightarrow> log_filtered_count log (log_subtab st = Serial) - log_viewport_rows lay
      | Settings \<Rightarrow> settings_content_height st lay - (lay_h lay - content_top lay - 48)
      | DiskInstall \<Rightarrow> 362 - (lay_h lay - content_top lay - 48)
      | _ \<Rightarrow> 0)"

definition panel_offset :: "log_state \<Rightarrow> layout \<Rightarrow> ui_state \<Rightarrow> nat" where
  "panel_offset log lay st =
     (case screen st of
        Browser \<Rightarrow> page_scroll_line st
      | Log \<Rightarrow> if log_stick_to_bottom st then max_offset log lay st else min (log_scroll_line st) (max_offset log lay st)
      | Settings \<Rightarrow> settings_scroll_px st
      | DiskInstall \<Rightarrow> disk_install_scroll_px st
      | _ \<Rightarrow> 0)"

text \<open>By how much a call of \<open>scroll_panel\<close> moves the panel on the screen.\<close>

definition scroll_amount :: "layout \<Rightarrow> (layout \<Rightarrow> ui_state \<Rightarrow> int) \<Rightarrow> int \<Rightarrow> int \<Rightarrow> int \<Rightarrow> ui_state \<Rightarrow> int" where
  "scroll_amount lay browser_lines log_amount settings_px install_px st =
     (case screen st of
        Browser \<Rightarrow> browser_lines lay st | Log \<Rightarrow> log_amount | Settings \<Rightarrow> settings_px | DiskInstall \<Rightarrow> install_px | _ \<Rightarrow> 0)"

text \<open>Moving an offset by a signed amount within its range, as the four panels do.\<close>

lemma amount_split:
  assumes "- (2 ^ 31) < d" "d < 2 ^ 31"
  shows "d < 0 \<Longrightarrow> usize_of_i32 (i32_of (- d)) = nat (- d)" "\<not> d < 0 \<Longrightarrow> usize_of_i32 d = nat d"
  using assms by (simp_all add: usize_of_i32_def i32_of_small USIZE_MAX_def)

lemma moved_down: "\<not> d < 0 \<Longrightarrow> n \<le> m \<Longrightarrow> int (min (n + nat d) m) = clamp 0 (int m) (int n + d)"
  by (auto simp: clamp_def min_def)

lemma moved_up: "d < 0 \<Longrightarrow> n \<le> m \<Longrightarrow> int (n - nat (- d)) = clamp 0 (int m) (int n + d)"
  by (auto simp: clamp_def)

text \<open>
  Scrolling is exact on every panel: an offset within the document is moved by the amount asked for and stops at the
  two ends of the document, whether by wheel, page key or arrow; nothing wraps around.
\<close>

theorem scroll_clamps:
  fixes st :: ui_state and info :: frame_buffer_info
  defines "lay \<equiv> ui_layout info st"
  assumes "panel_offset log lay st \<le> max_offset log lay st" "max_offset log lay st < 2 ^ 32"
    "d = scroll_amount lay f a b c st" "- (2 ^ 31) < d" "d < 2 ^ 31"
    "st' = scroll_panel info log f a b c st"
  shows "int (panel_offset log lay st') = clamp 0 (int (max_offset log lay st)) (int (panel_offset log lay st) + d)
    \<and> max_offset log lay st' = max_offset log lay st \<and> screen st' = screen st"
proof -
  note amt = amount_split [OF assms(5,6)]
  let ?n = "panel_offset log lay st" and ?m = "max_offset log lay st"
  note up = moved_up [of d ?n ?m, OF _ assms(2)] and down = moved_down [of d ?n ?m, OF _ assms(2)]
  have stay: "clamp 0 (int ?m) (int ?n) = int ?n" using assms(2) by (simp add: clamp_def)
  show ?thesis
  proof (cases "screen st")
    case Settings
    have slots: "settings_content_height (s\<lparr> settings_scroll_px := x \<rparr>) lay = settings_content_height s lay" 
        "settings_content_height (s\<lparr> disk_install := i \<rparr>) lay = settings_content_height s lay" for s x i
      by (simp_all add: settings_content_height_def settings_power_button_rects_def settings_y_after_all_rows_def mark_content_def
          Let_def split: settings_subtab.split)
    have d: "d = b" using Settings assms(4) by (simp add: scroll_amount_def)
    have st': "st' = settings_scroll_by_wheel lay b st" using Settings assms(7) by (simp add: scroll_panel_def lay_def)
    have "settings_scroll_px st' = (if d < 0 then ?n - nat (- d) else min (?n + nat d) ?m)" "screen st' = screen st"
      "settings_content_height st' lay = settings_content_height st lay"
      using Settings amt assms(2) unfolding st' d
      by (auto simp: settings_scroll_by_wheel_def Let_def panel_offset_def max_offset_def mark_content_def slots)
    then show ?thesis using Settings up down by (simp add: panel_offset_def max_offset_def)
  next
    case DiskInstall
    have d: "d = c" using DiskInstall assms(4) by (simp add: scroll_amount_def)
    have st': "st' = disk_install_scroll_by_wheel lay c st" using DiskInstall assms(7) by (simp add: scroll_panel_def lay_def)
    have "disk_install_scroll_px st' = (if d < 0 then ?n - nat (- d) else min (?n + nat d) ?m)" "screen st' = screen st"
      using DiskInstall amt assms(2) unfolding st' d
      by (auto simp: disk_install_scroll_by_wheel_def Let_def panel_offset_def max_offset_def mark_content_def)
    then show ?thesis using DiskInstall up down by (simp add: panel_offset_def max_offset_def)
  next
    case Browser
    have slots: "browser_scroll_slots lay (s\<lparr> page_scroll_line := x \<rparr>) = browser_scroll_slots lay s"
        "browser_scroll_slots lay (s\<lparr> browser_body_dirty := y \<rparr>) = browser_scroll_slots lay s" for s x y
      by (simp_all add: browser_scroll_slots_def browser_bios_fullpage_def)
    have d: "d = f lay st" using Browser assms(4) by (simp add: scroll_amount_def)
    have st': "st' = browser_scroll lay d st" using Browser assms(7) by (simp add: scroll_panel_def lay_def d Let_def)
    have sat: "saturating_add ?n (nat d) = ?n + nat d" if "\<not> d < 0"
      using assms(2,3,6) that by (simp add: saturating_add_def USIZE_MAX_def)
    have "d \<noteq> 0 \<Longrightarrow> page_scroll_line st' = (if d < 0 then ?n - nat (- d) else min (?n + nat d) ?m)" "d = 0 \<Longrightarrow> st' = st"
      "screen st' = screen st" "browser_line_count st' - browser_scroll_slots lay st' = browser_line_count st - browser_scroll_slots lay st"
      using Browser amt sat assms(2) unfolding st'
      by (auto simp: browser_scroll_def browser_clamp_scroll_def browser_max_scroll_line_def panel_offset_def max_offset_def slots)
    then show ?thesis using Browser up down stay by (cases "d = 0") (simp_all add: panel_offset_def max_offset_def)
  next
    case Log
    have d: "d = a" using Log assms(4) by (simp add: scroll_amount_def)
    have st': "st' = log_scroll_by_wheel log lay d st" using Log assms(7) by (simp add: scroll_panel_def lay_def d Let_def)
    have m: "?m = log_filtered_count log (log_subtab st = Serial) - log_viewport_rows lay" using Log by (simp add: max_offset_def)
    have same: "screen st' = screen st" "log_subtab st' = log_subtab st"
      unfolding st' by (simp_all add: log_scroll_by_wheel_def Let_def mark_content_def)
    then have m': "max_offset log lay st' = ?m" using Log by (simp add: max_offset_def)
    show ?thesis
    proof (cases "d = 0 \<or> log_filtered_count log (log_subtab st = Serial) = 0")
      case True
      then have "st' = st" unfolding st' by (auto simp: log_scroll_by_wheel_def)
      moreover have "d = 0 \<or> ?m = 0" using True m by auto
      ultimately show ?thesis using stay assms(2) by (auto simp: clamp_def)
    next
      case False
      have n: "?n = (if log_stick_to_bottom st then ?m else min (log_scroll_line st) ?m)" using Log by (simp add: panel_offset_def)
      have n': "panel_offset log lay st' = (if log_stick_to_bottom st' then ?m else min (log_scroll_line st') ?m)"
        using Log same m' by (simp add: panel_offset_def)
      have "panel_offset log lay st' = (if d < 0 then ?n - nat (- d) else min (?n + nat d) ?m)"
        using False amt unfolding n' n unfolding st'
        by (auto simp: log_scroll_by_wheel_def Let_def mark_content_def m [symmetric])
      then show ?thesis using up down same m' by simp
    qed
  qed (use assms stay in \<open>simp_all add: scroll_panel_def scroll_amount_def Let_def\<close>)
qed

theorem scroll_clamps_witness:
  "settings_scroll_px (scroll_panel screen_info log_init (\<lambda>_ _. 0) 0 120 0 (fresh_ui\<lparr> screen := Settings \<rparr>)) = 120"
proof -
  let ?st = "fresh_ui\<lparr> screen := Settings \<rparr>" and ?lay = "ui_layout screen_info (fresh_ui\<lparr> screen := Settings \<rparr>)"
  let ?st' = "scroll_panel screen_info log_init (\<lambda>_ _. 0) 0 120 0 ?st"
  have f: "settings_subtab ?st = General" "wifi_scan_demo ?st = False" "settings_scroll_px ?st = 0" "screen ?st = Settings"
    by (simp_all add: fresh_ui_def new_with_settings_def Let_def)
  have lay: "ui_layout screen_info ?st = \<lparr> lay_w = 1024, lay_h = 768, chrome_h = 56, tab_y = 60, tab_h = 36, bar_y = 102, bar_h = 40,
      content_top = 154 \<rparr>"
  proof -
    have "\<not> browser_bios_fullpage ?st" using f(4) by (simp add: browser_bios_fullpage_def)
    moreover have "fb_height screen_info = 768" "fb_width screen_info = 1024" by (simp_all add: screen_info_def)
    ultimately show ?thesis unfolding ui_layout_def Let_def f(4) by simp
  qed
  have y: "settings_y_after_all_rows ?st 154 = 1084"
    unfolding settings_y_after_all_rows_def f(1,2) Let_def settings_first_row_y_def by simp
  have m: "max_offset log_init ?lay ?st = 496" "panel_offset log_init ?lay ?st = 0" "scroll_amount ?lay (\<lambda>_ _. 0) 0 120 0 ?st = 120"
    unfolding max_offset_def panel_offset_def scroll_amount_def f(3,4) lay settings_content_height_def settings_power_button_rects_def Let_def
    by (simp_all add: y)
  define st' where "st' = ?st'"
  have "int (panel_offset log_init ?lay st') = clamp 0 (int 496) (int 0 + 120) \<and> max_offset log_init ?lay st' = 496 \<and> screen st' = screen ?st"
    unfolding m(1,2) [symmetric] by (rule scroll_clamps [OF _ _ m(3) [symmetric] _ _ st'_def]) (simp_all only: m, simp_all)
  then have "int (panel_offset log_init ?lay st') = 120" "screen st' = Settings" by (simp_all add: clamp_def)
  then show ?thesis unfolding panel_offset_def st'_def [symmetric] by simp
qed

end
