(* ===== verification/Eve_Input_Laws.thy ===== *)
theory Eve_Input_Laws
  imports Eve_Input
begin

text \<open>
  The properties of the PS/2 decoder and the key tables: interleaved streams, movement packets, the
  shift keys, the characters that can be typed.
\<close>

section \<open>Streams of bytes\<close>

text \<open>The events a decoder makes of a list of bytes, and its state after it.\<close>

fun decode_all :: "('b \<Rightarrow> 's \<Rightarrow> 'e option \<times> 's) \<Rightarrow> 'b list \<Rightarrow> 's \<Rightarrow> 'e list \<times> 's" where
  "decode_all f [] s = ([], s)"
| "decode_all f (b # bs) s =
     (case f b s of (ev, s) \<Rightarrow> case decode_all f bs s of (evs, s) \<Rightarrow> ((case ev of Some e \<Rightarrow> [e] | None \<Rightarrow> []) @ evs, s))"

lemma decode_all_append:
  "decode_all f (xs @ ys) s =
    (case decode_all f xs s of (es, s) \<Rightarrow> case decode_all f ys s of (es', s) \<Rightarrow> (es @ es', s))"
  by (induction xs arbitrary: s) (simp_all split: prod.split)

definition is_aux :: "u8 \<Rightarrow> bool" where
  "is_aux st \<longleftrightarrow> st AND 0x20 \<noteq> 0"

definition is_mouse_event :: "ps2_event \<Rightarrow> bool" where
  "is_mouse_event e \<longleftrightarrow> (case e of Mouse _ _ _ \<Rightarrow> True | _ \<Rightarrow> False)"

lemma kbd_byte_events: "kbd_byte b k = (Some e, k') \<Longrightarrow> \<not> is_mouse_event e"
  by (auto simp: kbd_byte_def is_mouse_event_def Let_def split: if_splits)

lemma mouse_byte_events: "mouse_byte b m = (Some e, m') \<Longrightarrow> is_mouse_event e"
  by (auto simp: mouse_byte_def is_mouse_event_def finish_ps2_mouse_packet_def Let_def split: if_splits)

definition ps2_stream :: "(u8 \<times> u8) list \<Rightarrow> kbd_state \<times> mouse_state \<Rightarrow> ps2_event list \<times> kbd_state \<times> mouse_state" where
  "ps2_stream xs km = decode_all (\<lambda>(st, b). ps2_byte st b) xs km"

abbreviation aux_bytes :: "(u8 \<times> u8) list \<Rightarrow> bytes" where
  "aux_bytes xs \<equiv> map snd (filter (\<lambda>(st, b). is_aux st) xs)"

abbreviation kbd_bytes :: "(u8 \<times> u8) list \<Rightarrow> bytes" where
  "kbd_bytes xs \<equiv> map snd (filter (\<lambda>(st, b). \<not> is_aux st) xs)"

lemma ps2_stream_split:
  assumes "ps2_stream xs (k, m) = (es, k', m')"
  shows "decode_all kbd_byte (kbd_bytes xs) k = (filter (Not \<circ> is_mouse_event) es, k')
    \<and> decode_all mouse_byte (aux_bytes xs) m = (filter is_mouse_event es, m')"
  using assms unfolding ps2_stream_def
proof (induction xs arbitrary: k m es)
  case (Cons x xs)
  obtain st b where x: "x = (st, b)" by (cases x)
  obtain ev k1 m1 where 1: "ps2_byte st b (k, m) = (ev, k1, m1)" by (metis prod_cases3)
  obtain es' where 2: "decode_all (\<lambda>(st, b). ps2_byte st b) xs (k1, m1) = (es', k', m')"
      "es = (case ev of Some e \<Rightarrow> [e] | None \<Rightarrow> []) @ es'"
    using Cons.prems 1 by (auto simp: x split: prod.splits)
  note IH = Cons.IH [OF 2(1)]
  show ?case
  proof (cases "is_aux st")
    case True
    then have "mouse_byte b m = (ev, m1)" "k1 = k"
      using 1 by (auto simp: ps2_byte_def is_aux_def split: prod.splits)
    then show ?thesis using IH True mouse_byte_events by (cases ev) (auto simp: x 2(2))
  next
    case False
    then have "kbd_byte b k = (ev, k1)" "m1 = m"
      using 1 by (auto simp: ps2_byte_def is_aux_def split: prod.splits)
    then show ?thesis using IH False kbd_byte_events by (cases ev) (auto simp: x 2(2))
  qed
qed simp

section \<open>Movement packets\<close>

text \<open>The movement of one axis: a sign bit in the flags and eight bits of magnitude.\<close>

definition nine_bit :: "bool \<Rightarrow> u8 \<Rightarrow> int" where
  "nine_bit neg b = (if neg then int (unat b) - 256 else int (unat b))"

lemma sint_of_int_small: "w = word_of_int x \<Longrightarrow> - 32768 \<le> x \<Longrightarrow> x < 32768 \<Longrightarrow> sint w = x" for w :: "16 word"
  by (simp add: sint_sbintrunc' signed_take_bit_int_eq_self)

lemma sint_axis: "sint (if neg then ucast b OR 0xFF00 else ucast b :: 16 word) = nine_bit neg b" for b :: u8
proof -
  obtain c where hi: "(0xFF00 :: 16 word) = push_bit 8 c" by (rule that [of "0xFF"]) simp
  have "(ucast b :: 16 word) OR 0xFF00 = ucast b + 0xFF00"
    unfolding hi by (rule disjunctive_add_eq_or [symmetric], rule bit_word_eqI) (auto simp: bit_simps bit_u8_high)
  moreover have u: "uint b < 256" using uint_lt2p [of b] by simp
  have v: "- 32768 \<le> uint b" using uint_ge_0 [of b] by linarith
  have "sint (ucast b + 0xFF00 :: 16 word) = int (unat b) - 256"
    by (rule sint_of_int_small) (use u v in simp_all)
  moreover have "sint (ucast b :: 16 word) = int (unat b)"
    by (rule sint_of_int_small) (use u v in simp_all)
  ultimately show ?thesis by (simp add: nine_bit_def)
qed


text \<open>A packet of three or four bytes and the event it stands for.\<close>

definition packet_ok :: "u8 \<Rightarrow> bytes \<Rightarrow> bool" where
  "packet_ok pkt_len p \<longleftrightarrow> length p = unat pkt_len \<and> p ! 0 AND 0x08 \<noteq> 0"

definition packet_event :: "bytes \<Rightarrow> ps2_event \<Rightarrow> bool" where
  "packet_event p e \<longleftrightarrow>
     (\<exists>dx dy. e = Mouse (p ! 0 AND 0x07) dx (- dy)
        \<and> sint dx = nine_bit (p ! 0 AND 0x10 \<noteq> 0) (p ! 1) \<and> sint dy = nine_bit (p ! 0 AND 0x20 \<noteq> 0) (p ! 2))"

definition mouse_ready :: "u8 \<Rightarrow> mouse_state \<Rightarrow> bool" where
  "mouse_ready pkt_len m \<longleftrightarrow> MOUSE_PHASE m = 0 \<and> length (MOUSE_BUF m) = 4 \<and> MOUSE_PKT_LEN m = pkt_len"

lemma list_of_3: "length xs = 3 \<Longrightarrow> \<exists>a b c. xs = [a, b, c]"
  by (auto simp: length_Suc_conv numeral_eq_Suc)

lemma list_of_4: "length xs = 4 \<Longrightarrow> \<exists>a b c d. xs = [a, b, c, d]"
  by (auto simp: length_Suc_conv numeral_eq_Suc)

lemma finish_packet_event:
  "p = [f, x, y] @ zs \<Longrightarrow> take 3 (MOUSE_BUF m) = [f, x, y] \<Longrightarrow> packet_event p (finish_ps2_mouse_packet m)"
  by (cases "MOUSE_BUF m" rule: list.exhaust; cases "tl (MOUSE_BUF m)"; cases "tl (tl (MOUSE_BUF m))")
    (auto simp: packet_event_def finish_ps2_mouse_packet_def Let_def sint_axis intro!: exI)

lemma packet_decoded:
  assumes "mouse_ready pkt_len m" "pkt_len = 3 \<or> pkt_len = 4" "packet_ok pkt_len p"
  shows "\<exists>e m'. decode_all mouse_byte p m = ([e], m') \<and> packet_event p e \<and> mouse_ready pkt_len m'"
proof -
  obtain a b c d where buf: "MOUSE_BUF m = [a, b, c, d]"
    using assms(1) list_of_4 [of "MOUSE_BUF m"] by (auto simp: mouse_ready_def)
  show ?thesis
  proof (cases "pkt_len = 3")
    case True
    then obtain f x y where p: "p = [f, x, y]" "f AND 8 \<noteq> 0"
      using assms(3) list_of_3 by (fastforce simp: packet_ok_def)
    then show ?thesis using assms(1) True finish_packet_event [of p f x y "[]"]
      by (auto simp: mouse_ready_def mouse_byte_def Let_def buf)
  next
    case False
    then have 4: "pkt_len = 4" using assms(2) by simp
    then obtain f x y z where p: "p = [f, x, y, z]" "f AND 8 \<noteq> 0"
      using assms(3) list_of_4 by (fastforce simp: packet_ok_def)
    then show ?thesis using assms(1) 4 finish_packet_event [of p f x y "[z]"]
      by (auto simp: mouse_ready_def mouse_byte_def Let_def buf)
  qed
qed

lemma packets_decoded:
  assumes "mouse_ready pkt_len m" "pkt_len = 3 \<or> pkt_len = 4" "list_all (packet_ok pkt_len) ps"
  shows "\<exists>es m'. decode_all mouse_byte (concat ps) m = (es, m') \<and> list_all2 packet_event ps es"
  using assms(1,3)
proof (induction ps arbitrary: m)
  case (Cons p ps)
  then obtain e m1 where "decode_all mouse_byte p m = ([e], m1)" "packet_event p e" "mouse_ready pkt_len m1"
    using packet_decoded [OF Cons.prems(1) assms(2), of p] by auto
  with Cons.IH [of m1] Cons.prems show ?case by (auto simp: decode_all_append)
qed simp

text \<open>
  C34. The mouse is tracked whatever is typed meanwhile: when the mouse bytes of a PS/2 stream are movement
  packets of the device's length (three bytes, or four with a wheel), interleaved in any way with keyboard
  bytes, the decoder makes exactly one mouse event of each packet, in order, with the
  three buttons, the horizontal movement as the nine bit number of the packet and the vertical one negated;
  and the keyboard events are those of the keyboard bytes alone.
\<close>

theorem ps2_mouse_tracked:
  assumes "mouse_ready pkt_len m" "pkt_len = 3 \<or> pkt_len = 4"
    "aux_bytes xs = concat ps" "list_all (packet_ok pkt_len) ps"
    "ps2_stream xs (k, m) = (es, k', m')"
  shows "list_all2 packet_event ps (filter is_mouse_event es)
    \<and> decode_all kbd_byte (kbd_bytes xs) k = (filter (Not \<circ> is_mouse_event) es, k')"
  using packets_decoded [OF assms(1,2,4)] ps2_stream_split [OF assms(5)] assms(3) by auto

theorem ps2_mouse_tracked_witness:
  "ps2_stream [(0x21, 0x08), (1, 0x1E), (0x21, 5), (0x21, 0xFF), (1, 0x10)] (kbd_init, mouse_init)
     = ([Key 0x1E False, Mouse 0 5 (- 0xFF), Key 0x10 False], kbd_init, mouse_init\<lparr> MOUSE_BUF := [8, 5, 0xFF, 0] \<rparr>)
   \<and> packet_event [0x08, 5, 0xFF] (Mouse 0 5 (- 0xFF))"
proof -
  let ?xs = "[(0x21, 0x08), (1, 0x1E), (0x21, 5), (0x21, 0xFF), (1, 0x10)] :: (u8 \<times> u8) list"
  have run: "ps2_stream ?xs (kbd_init, mouse_init)
     = ([Key 0x1E False, Mouse 0 5 (- 0xFF), Key 0x10 False], kbd_init, mouse_init\<lparr> MOUSE_BUF := [8, 5, 0xFF, 0] \<rparr>)"
    by code_simp
  have "list_all2 packet_event [[0x08, 5, 0xFF]]
      (filter is_mouse_event [Key 0x1E False, Mouse 0 5 (- 0xFF), Key 0x10 False])"
    using ps2_mouse_tracked [of 3 mouse_init ?xs "[[0x08, 5, 0xFF]]", OF _ _ _ _ run]
    by (simp add: mouse_ready_def mouse_init_def is_aux_def packet_ok_def)
  then show ?thesis using run by (simp add: is_mouse_event_def)
qed

section \<open>The shift keys\<close>

definition shift_held :: "kbd_state \<Rightarrow> bool" where
  "shift_held k \<longleftrightarrow> SHIFT_L k \<or> SHIFT_R k"

text \<open>No break prefix \<open>0xF0\<close> is pending.\<close>

definition no_release :: "kbd_state \<Rightarrow> bool" where
  "no_release k \<longleftrightarrow> \<not> KBD_RELEASE k \<and> \<not> KBD_EXT_RELEASE k"

lemma kbd_byte_set1:
  assumes "kbd_byte b k = (ev, k')" "b \<noteq> 0xF0" "no_release k" "shift_held k"
  shows "no_release k' \<and> shift_held k' \<and> (case ev of Some (Key c s) \<Rightarrow> s | _ \<Rightarrow> True)"
  using assms by (auto simp: kbd_byte_def no_release_def shift_held_def Let_def split: if_splits)

text \<open>
  C36. A pressed shift key is never released in scan code set 1, the set the driver expects: its release code is
  the make code with the top bit set and no \<open>0xF0\<close> prefix is sent. Once a shift key was pressed, every key decoded
  from a stream without \<open>0xF0\<close> is reported as shifted, also after the releases \<open>0xAA\<close> and \<open>0xB6\<close>.
\<close>

theorem shift_sticks:
  assumes "shift_held k" "no_release k" "0xF0 \<notin> set bs" "decode_all kbd_byte bs k = (es, k')"
  shows "shift_held k' \<and> (\<forall>c s. Key c s \<in> set es \<longrightarrow> s)"
  using assms
proof (induction bs arbitrary: k es)
  case (Cons b bs)
  obtain ev k1 where 1: "kbd_byte b k = (ev, k1)" by (cases "kbd_byte b k")
  obtain es1 where 2: "decode_all kbd_byte bs k1 = (es1, k')" "es = (case ev of Some e \<Rightarrow> [e] | None \<Rightarrow> []) @ es1"
    using Cons.prems(4) 1 by (auto split: prod.splits)
  have "no_release k1 \<and> shift_held k1 \<and> (case ev of Some (Key c s) \<Rightarrow> s | _ \<Rightarrow> True)"
    using kbd_byte_set1 [OF 1] Cons.prems by auto
  with Cons.IH [OF _ _ _ 2(1)] Cons.prems(3) show ?case
    unfolding 2(2) by (auto split: option.splits ps2_event.splits)
qed simp

theorem shift_sticks_witness:
  "decode_all kbd_byte [0x2A, 0xAA, 0x1E] kbd_init = ([Key 0xAA True, Key 0x1E True], kbd_init\<lparr> SHIFT_L := True \<rparr>)
   \<and> shift_held (kbd_init\<lparr> SHIFT_L := True \<rparr>)"
proof -
  have run: "decode_all kbd_byte [0xAA, 0x1E] (kbd_init\<lparr> SHIFT_L := True \<rparr>)
      = ([Key 0xAA True, Key 0x1E True], kbd_init\<lparr> SHIFT_L := True \<rparr>)"
    by code_simp
  have "shift_held (kbd_init\<lparr> SHIFT_L := True \<rparr>)"
    by (rule shift_sticks [OF _ _ _ run, THEN conjunct1]) (simp_all add: shift_held_def no_release_def kbd_init_def)
  then show ?thesis using run by (simp add: kbd_byte_def kbd_init_def)
qed

section \<open>Key tables\<close>

definition typeable :: "u8 \<Rightarrow> bool" where
  "typeable c \<longleftrightarrow> c = 8 \<or> c = 10 \<or> 32 \<le> c \<and> c < 127"

text \<open>The characters in the rows of a table, and those of the keys that no table lists.\<close>

definition row_chars :: "(u8 \<times> char \<times> char) list \<Rightarrow> bytes" where
  "row_chars t = map (\<lambda>(_, up, low). byte up) t @ map (\<lambda>(_, up, low). byte low) t"

definition plain_chars :: bytes where
  "plain_chars = [10, 8, 32] @ ascii ''!@#$%^&*('' @ ascii ''123456789''"

definition letter_chars :: bytes where
  "letter_chars = ascii ''ABCDEFGHIJKLMNOPQRSTUVWXYZ'' @ ascii ''abcdefghijklmnopqrstuvwxyz''"

lemma row_char:
  assumes "distinct (map fst t)" "c \<in> set (row_chars t)"
  shows "\<exists>k s. k \<in> fst ` set t \<and> map_option (\<lambda>(up, low). byte (if s then up else low)) (map_of t k) = Some c"
proof -
  from assms(2) obtain k up low s where r: "(k, up, low) \<in> set t" "c = byte (if s then up else low)"
    unfolding row_chars_def by (auto split: prod.splits) (metis (full_types))+
  then have "k \<in> fst ` set t" "map_option (\<lambda>(up, low). byte (if s then up else low)) (map_of t k) = Some c"
    using map_of_is_SomeI [OF assms(1) r(1)] by (auto intro: rev_image_eqI)
  then show ?thesis by blast
qed

lemma row_typed:
  assumes "list_all typeable (row_chars t)" "map_option (\<lambda>(up, low). byte (if s then up else low)) (map_of t k) = Some c"
  shows "typeable c"
proof -
  from assms(2) obtain up low where r: "(k, up, low) \<in> set t" "c = byte (if s then up else low)"
    by (auto dest!: map_of_SomeD)
  have "byte up \<in> set (row_chars t)" "byte low \<in> set (row_chars t)"
    using r(1) unfolding row_chars_def by (force simp: image_iff)+
  then show ?thesis using assms(1) r(2) unfolding list_all_iff by simp
qed

lemma set1_rows: "distinct (map fst (set1_symbols @ set1_letters))"
    "list_all (\<lambda>(k, _). k \<noteq> 0x1C \<and> k \<noteq> 0x0E \<and> k \<noteq> 0x39 \<and> \<not> (2 \<le> k \<and> k \<le> 10)) (set1_symbols @ set1_letters)"
  by (simp_all add: set1_symbols_def set1_letters_def)

lemma usage_rows: "distinct (map fst usage_symbols)"
    "list_all (\<lambda>(k, _). k \<noteq> 0x28 \<and> k \<noteq> 0x2A \<and> k \<noteq> 0x2C \<and> \<not> (4 \<le> k \<and> k \<le> 0x1D) \<and> \<not> (0x1E \<le> k \<and> k \<le> 0x26)) usage_symbols"
  by (simp_all add: usage_symbols_def)

lemma rows_typed: "list_all typeable (row_chars (set1_symbols @ set1_letters))" "list_all typeable (row_chars usage_symbols)"
  by (simp_all add: row_chars_def set1_symbols_def set1_letters_def usage_symbols_def typeable_def)

lemma shifted_digit_typed: "i < 9 \<Longrightarrow> typeable (shifted_digit i)"
proof -
  have "list_all typeable (ascii ''!@#$%^&*('')" by (simp add: ascii_def typeable_def)
  then show "i < 9 \<Longrightarrow> typeable (shifted_digit i)" by (simp add: shifted_digit_def list_all_length ascii_def)
qed

lemma offset_typed: "a \<le> k \<Longrightarrow> k \<le> b \<Longrightarrow> 32 \<le> unat base \<Longrightarrow> unat base + unat b < 127 + unat a \<Longrightarrow> typeable (base + (k - a))" for k :: u8
proof -
  assume a: "a \<le> k" "k \<le> b" "32 \<le> unat base" "unat base + unat b < 127 + unat a"
  have s: "unat (k - a) = unat k - unat a" "unat a \<le> unat k" "unat k \<le> unat b" using a(1,2) by (simp_all add: unat_sub word_le_nat_alt)
  then have "unat (base + (k - a)) = unat base + (unat k - unat a)" using a(4) by (simp add: unat_word_ariths(1))
  with a(3,4) s have "32 \<le> unat (base + (k - a)) \<and> unat (base + (k - a)) < 127" by linarith
  then show ?thesis unfolding typeable_def word_le_nat_alt word_less_nat_alt by simp
qed

lemma set1_typed: "scancode_set1_to_ascii k s = Some c \<Longrightarrow> typeable c"
proof -
  have d: "typeable (if s then shifted_digit (unat (k - 2)) else byte CHR ''1'' + (k - 2))" if "2 \<le> k" "k \<le> 0x0A"
  proof -
    have "unat (k - 2) < 9" using that by unat_arith
    then show ?thesis using offset_typed [OF that, of "byte CHR ''1''"] by (simp add: shifted_digit_typed)
  qed
  have "typeable 10" "typeable 8" "typeable (byte CHR '' '')" by (simp_all add: typeable_def)
  moreover assume "scancode_set1_to_ascii k s = Some c"
  ultimately show ?thesis using d row_typed [OF rows_typed(1), of s k c] unfolding scancode_set1_to_ascii_def
    by (auto split: if_split_asm simp del: map_of_append map_option_eq_Some)
qed

lemma usage_typed: "hid_usage_to_ascii k s = Some c \<Longrightarrow> typeable c"
proof -
  have d: "typeable (if s then shifted_digit (unat (k - 0x1E)) else byte CHR ''1'' + (k - 0x1E))" if "0x1E \<le> k" "k \<le> 0x26"
  proof -
    have "unat (k - 0x1E) < 9" using that by unat_arith
    then show ?thesis using offset_typed [OF that, of "byte CHR ''1''"] by (simp add: shifted_digit_typed)
  qed
  have l: "typeable (if s then byte CHR ''A'' + (k - 4) else byte CHR ''a'' + (k - 4))" if "4 \<le> k" "k \<le> 0x1D"
    using offset_typed [OF that, of "byte CHR ''A''"] offset_typed [OF that, of "byte CHR ''a''"] by simp
  have "typeable 10" "typeable 8" "typeable (byte CHR '' '')" by (simp_all add: typeable_def)
  moreover assume "hid_usage_to_ascii k s = Some c"
  ultimately show ?thesis using d l row_typed [OF rows_typed(2), of s k c] unfolding hid_usage_to_ascii_def
    by (auto split: if_split_asm simp del: map_option_eq_Some)
qed

lemma typed_listed:
  assumes "typeable c"
  shows "\<exists>n\<in>set (8 # 10 # [32..126]). c = word_of_int n"
proof -
  have "uint c = 8 \<or> uint c = 10 \<or> 32 \<le> uint c \<and> uint c \<le> 126"
    using assms unfolding typeable_def by (auto simp: word_le_def word_less_def)
  then have "uint c \<in> set (8 # 10 # [32..126])" unfolding list.set set_upto by auto
  then show ?thesis by (metis word_of_int_uint)
qed

lemma typed_covered:
  "list_all (\<lambda>n. word_of_int n \<in> set (plain_chars @ row_chars (set1_symbols @ set1_letters))) (8 # 10 # [32..126])"
  by (simp add: plain_chars_def ascii_def row_chars_def set1_symbols_def set1_letters_def)

lemma typed_covered_usage:
  "list_all (\<lambda>n. word_of_int n \<in> set (plain_chars @ letter_chars @ row_chars usage_symbols)) (8 # 10 # [32..126])"
  by (simp add: plain_chars_def letter_chars_def ascii_def row_chars_def usage_symbols_def)

lemma map_reaches: "map (\<lambda>(k, s). f k s) ks = map Some cs \<Longrightarrow> c \<in> set cs \<Longrightarrow> \<exists>k s. f k s = Some c"
  by (metis (mono_tags, lifting) image_iff list.set_map prod.case_eq_if)

lemma set1_plain: "map (\<lambda>(k, s). scancode_set1_to_ascii k s) ((0x1C, False) # (0x0E, False) # (0x39, False) #
    map (\<lambda>k. (k, True)) [2, 3, 4, 5, 6, 7, 8, 9, 10] @ map (\<lambda>k. (k, False)) [2, 3, 4, 5, 6, 7, 8, 9, 10]) = map Some plain_chars"
  by (simp add: scancode_set1_to_ascii_def shifted_digit_def plain_chars_def ascii_def)

lemma usage_plain: "map (\<lambda>(k, s). hid_usage_to_ascii k s) ((0x28, False) # (0x2A, False) # (0x2C, False) #
    map (\<lambda>k. (k, True)) [0x1E, 0x1F, 0x20, 0x21, 0x22, 0x23, 0x24, 0x25, 0x26] @
    map (\<lambda>k. (k, False)) [0x1E, 0x1F, 0x20, 0x21, 0x22, 0x23, 0x24, 0x25, 0x26]) = map Some plain_chars"
  by (simp add: hid_usage_to_ascii_def shifted_digit_def plain_chars_def ascii_def)

lemma usage_letters: "map (\<lambda>(k, s). hid_usage_to_ascii k s) (map (\<lambda>n. (word_of_int n, True)) [4..29] @ map (\<lambda>n. (word_of_int n, False)) [4..29])
    = map Some letter_chars"
  by (simp add: hid_usage_to_ascii_def letter_chars_def ascii_def)

lemma set1_row: "c \<in> set (row_chars (set1_symbols @ set1_letters)) \<Longrightarrow> \<exists>k s. scancode_set1_to_ascii k s = Some c"
proof -
  assume "c \<in> set (row_chars (set1_symbols @ set1_letters))"
  from row_char [OF set1_rows(1) this] obtain k s where k: "k \<in> fst ` set (set1_symbols @ set1_letters)"
    "map_option (\<lambda>(up, low). byte (if s then up else low)) (map_of (set1_symbols @ set1_letters) k) = Some c" by blast
  obtain r where r: "(k, r) \<in> set (set1_symbols @ set1_letters)" using k(1) by (metis imageE prod.collapse)
  have "k \<noteq> 0x1C \<and> k \<noteq> 0x0E \<and> k \<noteq> 0x39 \<and> \<not> (2 \<le> k \<and> k \<le> 10)"
    using bspec [OF set1_rows(2) [unfolded list_all_iff], of "(k, r)"] r by simp
  with k(2) have "scancode_set1_to_ascii k s = Some c" unfolding scancode_set1_to_ascii_def by (simp only: if_False if_not_P)
  then show ?thesis by blast
qed

lemma usage_row: "c \<in> set (row_chars usage_symbols) \<Longrightarrow> \<exists>k s. hid_usage_to_ascii k s = Some c"
proof -
  assume "c \<in> set (row_chars usage_symbols)"
  from row_char [OF usage_rows(1) this] obtain k s where k: "k \<in> fst ` set usage_symbols"
    "map_option (\<lambda>(up, low). byte (if s then up else low)) (map_of usage_symbols k) = Some c" by blast
  obtain r where r: "(k, r) \<in> set (usage_symbols)" using k(1) by (metis imageE prod.collapse)
  have "k \<noteq> 0x28 \<and> k \<noteq> 0x2A \<and> k \<noteq> 0x2C \<and> \<not> (4 \<le> k \<and> k \<le> 0x1D) \<and> \<not> (0x1E \<le> k \<and> k \<le> 0x26)"
    using bspec [OF usage_rows(2) [unfolded list_all_iff], of "(k, r)"] r by simp
  with k(2) have "hid_usage_to_ascii k s = Some c" unfolding hid_usage_to_ascii_def by (simp only: if_False if_not_P)
  then show ?thesis by blast
qed

lemma set1_typeable: "(\<exists>k s. scancode_set1_to_ascii k s = Some c) \<longleftrightarrow> typeable c"
proof
  assume "typeable c"
  then have "c \<in> set plain_chars \<or> c \<in> set (row_chars (set1_symbols @ set1_letters))"
    using typed_listed typed_covered unfolding list_all_iff set_append by blast
  then show "\<exists>k s. scancode_set1_to_ascii k s = Some c"
    by (elim disjE) (rule map_reaches [OF set1_plain] set1_row, assumption)+
qed (blast intro: set1_typed)

lemma usage_typeable: "(\<exists>k s. hid_usage_to_ascii k s = Some c) \<longleftrightarrow> typeable c"
proof
  assume "typeable c"
  then have "c \<in> set plain_chars \<or> c \<in> set letter_chars
      \<or> c \<in> set (row_chars usage_symbols)"
    using typed_listed typed_covered_usage unfolding list_all_iff set_append by blast
  then show "\<exists>k s. hid_usage_to_ascii k s = Some c"
    by (elim disjE) (rule map_reaches [OF usage_plain] map_reaches [OF usage_letters] usage_row, assumption)+
qed (blast intro: usage_typed)

text \<open>
  Both keyboards reach the same characters: through the PS/2 table as through the USB table, with
  and without shift, exactly the printable ASCII characters, line feed and backspace can be typed.
\<close>

theorem keys_complete:
  "((\<exists>code shift. scancode_set1_to_ascii code shift = Some c) \<longleftrightarrow> c = 8 \<or> c = 10 \<or> 32 \<le> c \<and> c < 127)
    \<and> ((\<exists>usage shift. hid_usage_to_ascii usage shift = Some c) \<longleftrightarrow> c = 8 \<or> c = 10 \<or> 32 \<le> c \<and> c < 127)"
  using set1_typeable [of c] usage_typeable [of c] unfolding typeable_def by (rule conjI)

end
