(* ===== verification/Eve_Input_Queue.thy ===== *)
theory Eve_Input_Queue
  imports Eve_Input
begin

text \<open>
  The two key queues as instances of one interface, the delivery of USB key presses, and the walk over
  configuration descriptors.
\<close>

section \<open>Key queues\<close>

text \<open>
  The interface of the two key queues: a queue of bounded capacity keeps what it holds and drops a
  key that does not fit. \<open>keys\<close> are the waiting keys, oldest first.
\<close>

locale key_queue =
  fixes push :: "'k \<Rightarrow> 'q \<Rightarrow> 'q" and keys :: "'q \<Rightarrow> 'k list" and inv :: "'q \<Rightarrow> bool" and cap :: nat
  assumes inv_push: "inv q \<Longrightarrow> inv (push k q)"
    and keys_push: "inv q \<Longrightarrow> keys (push k q) = (if length (keys q) < cap then keys q @ [k] else keys q)"
begin

lemma inv_pushes: "inv q \<Longrightarrow> inv (fold push ks q)"
  by (induction ks arbitrary: q) (simp_all add: inv_push)

lemma keys_pushes:
  assumes "inv q" "length (keys q) \<le> cap"
  shows "keys (fold push ks q) = take cap (keys q @ ks)"
  using assms
proof (induction ks arbitrary: q)
  case (Cons k ks)
  then show ?case using Cons.IH [of "push k q"] by (auto simp: keys_push inv_push take_Cons')
qed simp

lemma keys_pushes_fit:
  "inv q \<Longrightarrow> length (keys q) + length ks \<le> cap \<Longrightarrow> keys (fold push ks q) = keys q @ ks"
  by (simp add: keys_pushes)

end

text \<open>The ring of the USB keys: one slot stays free, so it holds seven.\<close>

definition usb_ok :: "usb_kbd \<Rightarrow> bool" where
  "usb_ok q \<longleftrightarrow> length (KBD_QUEUE q) = 8 \<and> KBD_Q_HEAD q < 8 \<and> KBD_Q_TAIL q < 8 \<and> length (PREV_KBD_REPORT q) = 8"

definition usb_held :: "usb_kbd \<Rightarrow> nat" where
  "usb_held q = (KBD_Q_TAIL q + 8 - KBD_Q_HEAD q) mod 8"

definition usb_keys :: "usb_kbd \<Rightarrow> (u8 \<times> bool) list" where
  "usb_keys q = map (\<lambda>i. KBD_QUEUE q ! ((KBD_Q_HEAD q + i) mod 8)) [0..<usb_held q]"

lemma usb_held_less: "usb_held q < 8"
  by (simp add: usb_held_def)

lemma mod_8: "x < 16 \<Longrightarrow> x mod 8 = (if x < 8 then x else x - 8)" for x :: nat
  by (simp add: mod_if)

lemma ring_held: "h < 8 \<Longrightarrow> t < 8 \<Longrightarrow> (t + 8 - h) mod 8 = (if h \<le> t then t - h else t + 8 - h)" for h t :: nat
  by (auto simp: mod_8)

lemma ring_full: "h < 8 \<Longrightarrow> t < 8 \<Longrightarrow> (t + 1) mod 8 = h \<longleftrightarrow> (t + 8 - h) mod 8 = 7" for h t :: nat
  by (auto simp: ring_held mod_8 split: if_splits)

lemma ring_next: "h < 8 \<Longrightarrow> t < 8 \<Longrightarrow> (t + 1) mod 8 \<noteq> h \<Longrightarrow> ((t + 1) mod 8 + 8 - h) mod 8 = Suc ((t + 8 - h) mod 8)"
  for h t :: nat
  by (auto simp: ring_held mod_8 split: if_splits)

lemma ring_slot: "h < 8 \<Longrightarrow> t < 8 \<Longrightarrow> i < (t + 8 - h) mod 8 \<Longrightarrow> (h + i) mod 8 \<noteq> t" for h t i :: nat
  by (auto simp: ring_held mod_8 split: if_splits)

lemma ring_last: "h < 8 \<Longrightarrow> t < 8 \<Longrightarrow> (h + (t + 8 - h) mod 8) mod 8 = t" for h t :: nat
  by (auto simp: ring_held mod_8)

interpretation usbq: key_queue kbd_q_push usb_keys usb_ok 7
proof
  fix q k
  assume q: "usb_ok q"
  then show "usb_ok (kbd_q_push k q)" by (simp add: usb_ok_def kbd_q_push_def Let_def)
  note b = q [unfolded usb_ok_def]
  show "usb_keys (kbd_q_push k q) = (if length (usb_keys q) < 7 then usb_keys q @ [k] else usb_keys q)"
  proof (cases "(KBD_Q_TAIL q + 1) mod 8 = KBD_Q_HEAD q")
    case True
    then have "usb_held q = 7" using ring_full b by (simp add: usb_held_def)
    then show ?thesis using True by (simp add: usb_keys_def kbd_q_push_def)
  next
    case False
    then have "usb_held q < 7" using ring_full [of "KBD_Q_HEAD q" "KBD_Q_TAIL q"] b usb_held_less [of q] by (auto simp: usb_held_def)
    moreover have "usb_held (kbd_q_push k q) = Suc (usb_held q)"
      using ring_next [OF _ _ False] b False by (simp add: usb_held_def kbd_q_push_def)
    moreover have "KBD_Q_TAIL q \<noteq> (KBD_Q_HEAD q + i) mod 8" if "i < usb_held q" for i
      using ring_slot [of "KBD_Q_HEAD q" "KBD_Q_TAIL q" i] b that by (auto simp: usb_held_def)
    moreover have "(KBD_Q_HEAD q + usb_held q) mod 8 = KBD_Q_TAIL q"
      using ring_last b by (simp add: usb_held_def)
    ultimately show ?thesis using b False by (simp add: usb_keys_def kbd_q_push_def)
  qed
qed

text \<open>The buffer of the ARM keys.\<close>

definition arm_ok :: "arm_keys \<Rightarrow> bool" where
  "arm_ok q \<longleftrightarrow> length (KEY_BUF q) = 32 \<and> KEY_LEN q \<le> 32"

interpretation armq: key_queue key_queue_push key_events arm_ok 32
  by unfold_locales (auto simp: arm_ok_def key_queue_push_def key_events_def take_Suc_conv_app_nth)

section \<open>Delivery of USB key presses\<close>

lemma usb_pop_Nil: "usb_ok q \<Longrightarrow> usb_keys q = [] \<Longrightarrow> kbd_q_pop q = (None, q)"
  using ring_last [of "KBD_Q_HEAD q" "KBD_Q_TAIL q"] by (auto simp: usb_ok_def usb_keys_def usb_held_def kbd_q_pop_def)

lemma usb_pop_Cons:
  assumes "usb_ok q" "usb_keys q = k # ks"
  shows "\<exists>q'. kbd_q_pop q = (Some k, q') \<and> usb_ok q' \<and> usb_keys q' = ks \<and> PREV_KBD_REPORT q' = PREV_KBD_REPORT q"
proof -
  let ?h = "KBD_Q_HEAD q" and ?t = "KBD_Q_TAIL q"
  let ?q = "q\<lparr> KBD_Q_HEAD := (?h + 1) mod 8 \<rparr>"
  have b: "?h < 8" "?t < 8" using assms(1) by (simp_all add: usb_ok_def)
  have n: "usb_held q = Suc (length ks)" using arg_cong [OF assms(2), of length] by (simp add: usb_keys_def)
  then have ne: "?h \<noteq> ?t" using b by (auto simp: usb_held_def)
  have n': "usb_held ?q = length ks" using n b by (auto simp: usb_held_def ring_held mod_8 split: if_splits)
  have eq: "map (\<lambda>i. KBD_QUEUE q ! ((?h + i) mod 8)) (0 # [Suc 0..<Suc (length ks)]) = k # ks"
    using assms(2) unfolding usb_keys_def n by (simp only: upt_conv_Cons)
  have "usb_keys ?q = map (\<lambda>i. KBD_QUEUE q ! ((?h + i) mod 8)) [Suc 0..<Suc (length ks)]"
    unfolding usb_keys_def n' map_Suc_upt [symmetric] map_map comp_def by (simp add: mod_add_left_eq)
  then have "usb_keys ?q = ks" using eq by simp
  moreover have "KBD_QUEUE q ! ?h = k" using eq b by simp
  ultimately show ?thesis using ne assms(1) by (simp add: kbd_q_pop_def usb_ok_def)
qed

lemma push_new_keys_eq:
  "push_new_keys old shift ks q = fold kbd_q_push (map (\<lambda>k. (k, shift)) (filter (\<lambda>k. k \<noteq> 0 \<and> k \<notin> set old) ks)) q"
  unfolding push_new_keys_def by (induction ks arbitrary: q) simp_all

lemma prev_pushes [simp]: "PREV_KBD_REPORT (fold kbd_q_push ks q) = PREV_KBD_REPORT q"
  by (induction ks arbitrary: q) (simp_all add: kbd_q_push_def Let_def)

text \<open>The keys of a report that the one before it did not have.\<close>

definition new_keys :: "bytes \<Rightarrow> bytes \<Rightarrow> (u8 \<times> bool) list" where
  "new_keys prev rep =
     map (\<lambda>k. (k, rep ! 0 AND 0x22 \<noteq> 0)) (filter (\<lambda>k. k \<noteq> 0 \<and> k \<notin> set (slice prev 2 8)) (slice rep 2 8))"

text \<open>A number of polls in a row.\<close>

fun poll_times :: "nat \<Rightarrow> ('h \<Rightarrow> bytes option \<times> 'h) \<Rightarrow> 'h \<Rightarrow> usb_kbd \<Rightarrow> (u8 \<times> bool) option list \<times> 'h \<times> usb_kbd" where
  "poll_times 0 poll_report h q = ([], h, q)"
| "poll_times (Suc n) poll_report h q =
     (case poll_usb_key_press True poll_report h q of
        (v, h, q) \<Rightarrow> case poll_times n poll_report h q of (vs, h, q) \<Rightarrow> (v # vs, h, q))"

lemma poll_waiting:
  assumes "usb_ok q" "usb_keys q = ks"
  shows "\<exists>q'. poll_times (length ks) poll_report h q = (map Some ks, h, q') \<and> usb_ok q' \<and> usb_keys q' = []
    \<and> PREV_KBD_REPORT q' = PREV_KBD_REPORT q"
  using assms
proof (induction ks arbitrary: q)
  case (Cons k ks)
  obtain q1 where "kbd_q_pop q = (Some k, q1)" "usb_ok q1" "usb_keys q1 = ks" "PREV_KBD_REPORT q1 = PREV_KBD_REPORT q"
    using usb_pop_Cons [OF Cons.prems] by blast
  with Cons.IH [of q1] show ?case by (auto simp: poll_usb_key_press_def)
qed simp

lemma poll_report_queued:
  assumes "usb_ok q" "usb_keys q = []" "length rep = 8"
  defines "q1 \<equiv> (push_new_keys (slice (PREV_KBD_REPORT q) 2 8) (rep ! 0 AND 0x22 \<noteq> 0) (slice rep 2 8) q)\<lparr> PREV_KBD_REPORT := rep \<rparr>"
  shows "usb_ok q1 \<and> usb_keys q1 = new_keys (PREV_KBD_REPORT q) rep"
proof -
  let ?ks = "new_keys (PREV_KBD_REPORT q) rep"
  have "length ?ks \<le> length (slice rep 2 8)" unfolding new_keys_def length_map by (rule length_filter_le)
  then have "length ?ks \<le> 7" using assms(3) by simp
  then have "usb_keys (fold kbd_q_push ?ks q) = ?ks" using usbq.keys_pushes_fit [of q ?ks] assms(1,2) by simp
  moreover have "usb_ok (fold kbd_q_push ?ks q)" using usbq.inv_pushes assms(1) by blast
  ultimately show ?thesis
    unfolding q1_def push_new_keys_eq new_keys_def [symmetric] using assms(3)
    by (simp add: usb_ok_def usb_keys_def usb_held_def)
qed

text \<open>
  C35. No USB key press is lost or repeated: when the queue is empty and the controller delivers a report with
  keys that were not down in the report before, then as many polls as there are such keys return
  exactly them, in the order of the report and with its shift state, reading only that report; afterwards the queue is
  empty again. A report without a new key yields nothing.
\<close>

theorem usb_keys_delivered:
  assumes "usb_ok q" "usb_keys q = []" "poll_report h = (Some rep, h')" "length rep = 8"
    "new_keys (PREV_KBD_REPORT q) rep = ks"
  shows "(ks = [] \<longrightarrow> (\<exists>q'. poll_usb_key_press True poll_report h q = (None, h', q') \<and> usb_ok q' \<and> usb_keys q' = []
            \<and> PREV_KBD_REPORT q' = rep))
    \<and> (ks \<noteq> [] \<longrightarrow> (\<exists>q'. poll_times (length ks) poll_report h q = (map Some ks, h', q') \<and> usb_ok q' \<and> usb_keys q' = []
            \<and> PREV_KBD_REPORT q' = rep))"
proof -
  define q1 where "q1 = (push_new_keys (slice (PREV_KBD_REPORT q) 2 8) (rep ! 0 AND 0x22 \<noteq> 0) (slice rep 2 8) q)
    \<lparr> PREV_KBD_REPORT := rep \<rparr>"
  have q1: "usb_ok q1" "usb_keys q1 = ks" using poll_report_queued [OF assms(1,2,4)] assms(5) by (simp_all add: q1_def)
  have poll: "poll_usb_key_press True poll_report h q = (case kbd_q_pop q1 of (v, q) \<Rightarrow> (v, h', q))"
    using usb_pop_Nil [OF assms(1,2)] assms(3) by (simp add: poll_usb_key_press_def q1_def Let_def)
  have prev: "PREV_KBD_REPORT q1 = rep" by (simp add: q1_def)
  show ?thesis
  proof (cases ks)
    case Nil
    then show ?thesis using poll usb_pop_Nil [OF q1(1)] q1 prev by auto
  next
    case (Cons k ks')
    obtain q2 where "kbd_q_pop q1 = (Some k, q2)" "usb_ok q2" "usb_keys q2 = ks'" "PREV_KBD_REPORT q2 = rep"
      using usb_pop_Cons [OF q1(1)] q1(2) Cons prev by auto
    with poll_waiting [of q2 ks' poll_report h'] poll Cons show ?thesis by auto
  qed
qed

theorem usb_keys_delivered_witness:
  "\<exists>q'. poll_times 2 (\<lambda>n. (Some [2, 0, 4, 5, 0, 0, 0, 0], n + 1 :: int)) 0 usb_kbd_init
     = ([Some (4, True), Some (5, True)], 1, q') \<and> usb_keys q' = []"
proof -
  have "new_keys (PREV_KBD_REPORT usb_kbd_init) [2, 0, 4, 5, 0, 0, 0, 0] = [(4, True), (5, True)]" by code_simp
  from usb_keys_delivered [OF _ _ _ _ this, of "\<lambda>n. (Some [2, 0, 4, 5, 0, 0, 0, 0], n + 1 :: int)" 0 1]
  show ?thesis by (auto simp: usb_ok_def usb_kbd_init_def usb_keys_def usb_held_def numeral_2_eq_2)
qed

section \<open>Configuration descriptors\<close>

text \<open>
  A configuration is a list of descriptors, each starting with its length and its type. The reference
  search goes over the list: an interface descriptor selects the interface, an interrupt endpoint
  towards the host of a selected one is the result.
\<close>

definition descriptor :: "bytes \<Rightarrow> bool" where
  "descriptor d \<longleftrightarrow> 2 \<le> length d \<and> d ! 0 = of_nat (length d) \<and> length d < 256"

definition selects :: "u8 \<Rightarrow> bytes \<Rightarrow> bool" where
  "selects protocol d \<longleftrightarrow> d ! 5 = 3 \<and> d ! 6 = 1 \<and> d ! 7 = protocol"

definition interrupt_in :: "bytes \<Rightarrow> bool" where
  "interrupt_in d \<longleftrightarrow> d ! 1 = 5 \<and> 7 \<le> length d \<and> d ! 2 AND 0x80 \<noteq> 0 \<and> d ! 3 AND 3 = 3"

fun boot_eps :: "u8 \<Rightarrow> u8 \<Rightarrow> bytes list \<Rightarrow> (u8 \<times> u8 \<times> u16) option" where
  "boot_eps protocol iface [] = None"
| "boot_eps protocol iface (d # ds) =
     (if d ! 1 = 4 \<and> 9 \<le> length d then boot_eps protocol (if selects protocol d then d ! 2 else 0xFF) ds
      else if iface \<noteq> 0xFF \<and> interrupt_in d then Some (iface, d ! 2, of_le16 (d ! 4) (d ! 5))
      else boot_eps protocol iface ds)"

lemma hid_walk_descriptors:
  assumes "list_all descriptor ds"
  shows "hid_walk (pre @ concat ds) protocol iface (length pre) = boot_eps protocol iface ds"
  using assms
proof (induction ds arbitrary: pre iface)
  case Nil
  then show ?case by (simp add: hid_walk.simps)
next
  case (Cons d ds)
  have d: "2 \<le> length d" "d ! 0 = of_nat (length d)" "length d < 256" using Cons.prems by (simp_all add: descriptor_def)
  define cfg n where "cfg = pre @ d @ concat ds" and "n = length pre"
  have at: "i < length d \<Longrightarrow> cfg ! (n + i) = d ! i" for i by (simp add: nth_append cfg_def n_def)
  have "d \<noteq> []" using d(1) by auto
  then have len: "unat (cfg ! n) = length d" using at [of 0] d by (simp add: unat_of_nat_small)
  have room: "n + length d \<le> length cfg" "n + 2 \<le> length cfg" using d by (simp_all add: cfg_def n_def)
  have IH: "hid_walk cfg protocol i (n + length d) = boot_eps protocol i ds" for i
    using Cons.IH [of "pre @ d" i] Cons.prems by (simp add: cfg_def n_def)
  have ty: "cfg ! (n + 1) = d ! 1" using at [of 1] d by simp
  have "hid_walk cfg protocol iface n = boot_eps protocol iface (d # ds)"
  proof (cases "d ! 1 = 4 \<and> 9 \<le> length d")
    case True
    then have "cfg ! (n + 2) = d ! 2" "cfg ! (n + 5) = d ! 5" "cfg ! (n + 6) = d ! 6" "cfg ! (n + 7) = d ! 7"
      using at [of 2] at [of 5] at [of 6] at [of 7] by auto
    with True show ?thesis
      using d room ty by (subst hid_walk.simps) (simp add: len IH Let_def selects_def)
  next
    case False
    then have "7 \<le> length d \<Longrightarrow> cfg ! (n + 2) = d ! 2 \<and> cfg ! (n + 3) = d ! 3 \<and> cfg ! (n + 4) = d ! 4 \<and> cfg ! (n + 5) = d ! 5"
      using at [of 2] at [of 3] at [of 4] at [of 5] by auto
    with False show ?thesis
      using d room ty by (subst hid_walk.simps) (cases "7 \<le> length d"; auto simp: len IH Let_def interrupt_in_def)
  qed
  then show ?case by (simp add: cfg_def n_def)
qed

text \<open>
  The endpoint search finds what the descriptors say: on every configuration, given as its descriptors
  with their lengths, \<open>find_hid_boot_eps\<close> returns what the search over the list of descriptors finds: the first interrupt
  endpoint towards the host whose last interface descriptor before it is a boot interface of the wanted protocol (an endpoint
  before every interface counts as one of interface 0), with interface number, address and packet size.
\<close>

theorem find_hid_boot_eps_spec:
  "list_all descriptor ds \<Longrightarrow> find_hid_boot_eps (concat ds) protocol = boot_eps protocol 0 ds"
  using hid_walk_descriptors [of ds "[]"] by (simp add: find_hid_boot_eps_def)

theorem find_hid_boot_eps_spec_witness:
  "find_hid_boot_eps (concat [[9, 4, 2, 0, 1, 3, 1, 1, 0], [7, 5, 0x81, 3, 8, 0, 10]]) 1 = Some (2, 0x81, 8)"
proof -
  have "list_all descriptor [[9, 4, 2, 0, 1, 3, 1, 1, 0], [7, 5, 0x81, 3, 8, 0, 10]]" by (simp add: descriptor_def)
  from find_hid_boot_eps_spec [OF this, of 1]
  have "find_hid_boot_eps (concat [[9, 4, 2, 0, 1, 3, 1, 1, 0], [7, 5, 0x81, 3, 8, 0, 10]]) 1
    = boot_eps 1 0 [[9, 4, 2, 0, 1, 3, 1, 1, 0], [7, 5, 0x81, 3, 8, 0, 10]]" .
  also have "\<dots> = Some (2, 0x81, 8)" by code_simp
  finally show ?thesis .
qed

end
