(* ===== verification/Eve_Response.thy ===== *)
theory Eve_Response
  imports Eve_Fetch
begin

text \<open>
  Whole responses: where the header block of a response ends, however it arrives, and a body with
  its \<open>Content-Length\<close> after it. The definitions are in \<open>Eve_Http\<close> and \<open>Eve_Net\<close>.
\<close>

section \<open>Where the header ends\<close>

abbreviation (input) "crlf2 \<equiv> [0x0D, 0x0A, 0x0D, 0x0A] :: bytes"

lemma find_window_Some: "find_window pat xs = Some i \<Longrightarrow> take (length pat) (drop i xs) = pat \<and> i < length xs"
  by (induction xs arbitrary: i) (auto split: if_splits)

lemma find_window_fits: "find_window pat xs = Some i \<Longrightarrow> i + length pat \<le> length xs"
proof -
  assume a: "find_window pat xs = Some i"
  from find_window_Some [OF this] have "length (take (length pat) (drop i xs)) = length pat" "i < length xs" by simp_all
  then show ?thesis by simp
qed

lemma find_window_prefix: "find_window pat (take k xs) = Some i \<Longrightarrow> find_window pat xs = Some i"
proof (induction xs arbitrary: k i)
  case (Cons x xs)
  obtain k' where k: "k = Suc k'" using Cons.prems by (cases k) auto
  show ?case
  proof (cases "take (length pat) (take k (x # xs)) = pat")
    case True
    then have "take (length pat) (x # xs) = pat"
      by (metis append_take_drop_id take_append take_take length_take min.absorb_iff1 min_def order_refl take_all_iff)
    then show ?thesis using True Cons.prems by (simp add: k)
  next
    case False
    then obtain j where j: "find_window pat (take k' xs) = Some j" "i = Suc j" using Cons.prems by (auto simp: k)
    have "i + length pat \<le> length (take k (x # xs))" by (rule find_window_fits [OF Cons.prems])
    then have "length pat \<le> k" by simp
    then have "take (length pat) (x # xs) = take (length pat) (take k (x # xs))" by (simp add: min_absorb1)
    with False Cons.IH [OF j(1)] j(2) show ?thesis by simp
  qed
qed simp

lemma find_crlf2_line:
  "0x0A \<notin> set l \<Longrightarrow> find_window crlf2 (l @ crlf @ X)
    = (if take 2 X = crlf then Some (length l) else map_option (\<lambda>n. n + length l + 2) (find_window crlf2 X))"
proof (induction l)
  case Nil
  have "find_window crlf2 (0x0A # X) = map_option Suc (find_window crlf2 X)" by simp
  then show ?case by (auto simp: numeral_2_eq_2 map_option.compositionality comp_def)
next
  case (Cons b l)
  have "take (length crlf2) (b # l @ crlf @ X) \<noteq> crlf2" using Cons.prems by (cases l) auto
  with Cons show ?case by (auto simp: map_option.compositionality comp_def)
qed

lemma find_lf2_line:
  "0x0A \<notin> set l \<Longrightarrow> take 1 X \<noteq> [0x0A] \<Longrightarrow> find_window [0x0A, 0x0A] (l @ crlf @ X)
    = map_option (\<lambda>n. n + length l + 2) (find_window [0x0A, 0x0A] X)"
proof (induction l)
  case Nil
  then show ?case by (cases X) (auto simp: map_option.compositionality comp_def)
next
  case (Cons b l)
  have "take 2 (b # l @ crlf @ X) \<noteq> [0x0A, 0x0A]" using Cons.prems(1) by (cases l) auto
  with Cons show ?case by (auto simp: map_option.compositionality comp_def)
qed

definition line_ok :: "bytes \<Rightarrow> bool" where
  "line_ok l \<longleftrightarrow> l \<noteq> [] \<and> 0x0A \<notin> set l"

definition lines_wire :: "bytes list \<Rightarrow> bytes" where
  "lines_wire ls = concat (map (\<lambda>l. l @ crlf) ls)"

lemma line_no_crlf: "line_ok l \<Longrightarrow> take 2 (l @ crlf @ X) \<noteq> crlf \<and> take 1 (l @ crlf @ X) \<noteq> [0x0A]"
  by (cases l; cases "tl l") (auto simp: line_ok_def)

lemma find_crlf2_lines:
  assumes "list_all line_ok ls" "ls \<noteq> []"
  shows "find_window crlf2 (lines_wire ls @ crlf @ rest) = Some (length (lines_wire ls) - 2)"
  using assms
proof (induction ls)
  case (Cons l ls)
  have nl: "0x0A \<notin> set l" using Cons.prems by (simp add: line_ok_def)
  have e: "lines_wire (l # ls) @ crlf @ rest = l @ crlf @ lines_wire ls @ crlf @ rest" by (simp add: lines_wire_def)
  show ?case
  proof (cases ls)
    case Nil
    then show ?thesis unfolding e find_crlf2_line [OF nl] by (simp add: lines_wire_def)
  next
    case (Cons l' ls')
    then have "take 2 (lines_wire ls @ crlf @ rest) \<noteq> crlf"
      using line_no_crlf [of l' "lines_wire ls' @ crlf @ rest"] Cons.prems by (simp add: lines_wire_def)
    moreover have "2 \<le> length (lines_wire ls)" using Cons by (simp add: lines_wire_def)
    ultimately show ?thesis
      unfolding e find_crlf2_line [OF nl] using Cons.IH Cons.prems Cons by (simp add: lines_wire_def)
  qed
qed simp

lemma find_lf2_lines:
  assumes "list_all line_ok ls"
  shows "find_window [0x0A, 0x0A] (lines_wire ls @ crlf) = None"
  using assms
proof (induction ls)
  case (Cons l ls)
  have nl: "0x0A \<notin> set l" using Cons.prems by (simp add: line_ok_def)
  have "take 1 (lines_wire ls @ crlf) \<noteq> [0x0A]"
    using Cons.prems line_no_crlf by (cases ls) (auto simp: lines_wire_def)
  from find_lf2_line [OF nl this] Cons show ?case by (simp add: lines_wire_def)
qed (simp add: lines_wire_def)

lemma response_head_lines:
  assumes "status_ok status" "list_all field_ok flds"
  obtains ls where "list_all line_ok ls" "ls \<noteq> []" "response_head status flds = lines_wire ls @ crlf"
proof -
  let ?ls = "status # map field_line flds"
  have "status \<noteq> []" using assms(1) by (auto simp: status_ok_def ascii_def)
  then have "list_all line_ok ?ls"
    using assms by (auto simp: status_ok_def line_ok_def list_all_iff field_ok_def field_line_def)
  moreover have "response_head status flds = lines_wire ?ls @ crlf" by (simp add: response_head_def lines_wire_def)
  ultimately show thesis using that by blast
qed

lemma header_end:
  assumes "status_ok status" "list_all field_ok flds"
  shows "find_http_header_end (response_head status flds @ rest) = Some (length (response_head status flds) - 4, 4)"
    and "4 \<le> length (response_head status flds)"
    and "k < length (response_head status flds) \<Longrightarrow> find_http_header_end (take k (response_head status flds)) = None"
proof -
  obtain ls where ls: "list_all line_ok ls" "ls \<noteq> []" "response_head status flds = lines_wire ls @ crlf"
    by (rule response_head_lines [OF assms])
  have len: "2 \<le> length (lines_wire ls)" using ls(2) by (cases ls) (simp_all add: lines_wire_def)
  have found: "find_window crlf2 (response_head status flds @ r) = Some (length (response_head status flds) - 4)" for r
    using find_crlf2_lines [OF ls(1,2), of r] ls(3) len by simp
  then show "find_http_header_end (response_head status flds @ rest) = Some (length (response_head status flds) - 4, 4)"
    by (simp add: find_http_header_end_def)
  show l4: "4 \<le> length (response_head status flds)" using ls(3) len by simp
  assume k: "k < length (response_head status flds)"
  have "find_window crlf2 (take k (response_head status flds)) = None"
  proof (rule ccontr)
    assume "\<not> ?thesis"
    then obtain i where i: "find_window crlf2 (take k (response_head status flds)) = Some i" by auto
    from find_window_prefix [OF this] found [of "[]"] have "i = length (response_head status flds) - 4" by simp
    with find_window_fits [OF i] k l4 show False by simp
  qed
  moreover have "find_window [0x0A, 0x0A] (take k (response_head status flds)) = None"
  proof (rule ccontr)
    assume "\<not> ?thesis"
    then obtain i where "find_window [0x0A, 0x0A] (take k (response_head status flds)) = Some i" by auto
    from find_window_prefix [OF this] find_lf2_lines [OF ls(1)] ls(3) show False by simp
  qed
  ultimately show "find_http_header_end (take k (response_head status flds)) = None" by (simp add: find_http_header_end_def)
qed

section \<open>A body with its length\<close>

lemma append_whole:
  assumes "length (ns_page s) + length data \<le> PAGE_CAP" "data \<noteq> []" "ns_http_body_remaining s = Some (length data + k)"
  shows "append_to_page dec data s = (let s' = s\<lparr> ns_page := ns_page s @ data, ns_http_body_remaining := Some k \<rparr>
    in if k = 0 then finish_fetch dec s' else s')"
  using assms by (simp add: append_to_page_def Let_def min_absorb1)

text \<open>A run of segments that finds the fetch armed at every segment.\<close>

fun armed_run :: "decoders \<Rightarrow> bytes list \<Rightarrow> net_stack \<Rightarrow> bool" where
  "armed_run dec [] s \<longleftrightarrow> True"
| "armed_run dec (p # ps) s \<longleftrightarrow> ns_fetch_armed s \<and> armed_run dec ps (ingest_tcp_payload dec p s)"

lemma armed_run_append: "armed_run dec (ps @ qs) s \<longleftrightarrow> armed_run dec ps s \<and> armed_run dec qs (fold (ingest_tcp_payload dec) ps s)"
  by (induction ps arbitrary: s) simp_all

lemma body_step:
  assumes "ns_header_found s" "\<not> ns_http_chunked s" "p \<noteq> []" "ns_http_body_remaining s = Some (length p + k)"
    "length (ns_page s) + length p \<le> PAGE_CAP"
  shows "ingest_tcp_payload dec p s = (let s' = s\<lparr> ns_page := ns_page s @ p, ns_http_body_remaining := Some k \<rparr>
    in if k = 0 then finish_fetch dec s' else s')"
  using append_whole [OF assms(5,3,4)] assms(1,2) by (simp add: ingest_tcp_payload_def)

lemma body_segments:
  assumes "ns_header_found s" "\<not> ns_http_chunked s" "segs \<noteq> []" "[] \<notin> set segs"
    "ns_http_body_remaining s = Some (length (concat segs))" "length (ns_page s) + length (concat segs) \<le> PAGE_CAP"
  shows "fold (ingest_tcp_payload dec) segs s
      = finish_fetch dec (s\<lparr> ns_page := ns_page s @ concat segs, ns_http_body_remaining := Some 0 \<rparr>)
    \<and> (ns_fetch_armed s \<longrightarrow> armed_run dec segs s)"
  using assms
proof (induction segs arbitrary: s)
  case (Cons p ps)
  let ?s = "s\<lparr> ns_page := ns_page s @ p, ns_http_body_remaining := Some (length (concat ps)) \<rparr>"
  have p: "ingest_tcp_payload dec p s = (if length (concat ps) = 0 then finish_fetch dec ?s else ?s)"
    using body_step [of s p "length (concat ps)" dec] Cons.prems by (auto simp: Let_def)
  show ?case
  proof (cases "ps = []")
    case True
    then show ?thesis using p by simp
  next
    case False
    then have "length (concat ps) \<noteq> 0" using Cons.prems(4) by (cases ps) auto
    then have "ingest_tcp_payload dec p s = ?s" using p by (simp only: if_False)
    then show ?thesis using Cons.IH [of ?s] Cons.prems False by simp
  qed
qed simp

lemma header_segments:
  assumes "\<not> ns_header_found s" "length (ns_stream s) + length (concat hs) < STREAM_CAP"
    "\<And>k. k \<le> length (ns_stream s) + length (concat hs) \<Longrightarrow> find_http_header_end (take k (ns_stream s @ concat hs)) = None"
  shows "fold (ingest_tcp_payload dec) hs s = s\<lparr> ns_stream := ns_stream s @ concat hs \<rparr> \<and> (ns_fetch_armed s \<longrightarrow> armed_run dec hs s)"
  using assms
proof (induction hs arbitrary: s)
  case (Cons h hs)
  let ?s = "s\<lparr> ns_stream := ns_stream s @ h \<rparr>"
  have n: "min (length h) (STREAM_CAP - length (ns_stream s)) = length h" using Cons.prems(2) by simp
  have "find_http_header_end (ns_stream s @ h) = None"
    using Cons.prems(3) [of "length (ns_stream s) + length h"] by simp
  then have "ingest_tcp_payload dec h s = ?s"
    using Cons.prems(1,2) n by (simp add: ingest_tcp_payload_def Let_def)
  moreover have "fold (ingest_tcp_payload dec) hs ?s = ?s\<lparr> ns_stream := ns_stream ?s @ concat hs \<rparr> \<and> (ns_fetch_armed ?s \<longrightarrow> armed_run dec hs ?s)"
    using Cons.prems by (intro Cons.IH) (simp_all add: add.assoc)
  ultimately show ?case by simp
qed simp

lemma finish_plain:
  assumes "\<not> ns_fetch_done s" "ns_body_layer_count s = 0" "take 2 (ns_page s) \<noteq> [0x1F, 0x8B]"
  shows "finish_fetch dec s = fetch_complete s"
proof -
  have "take 2 xs = [xs ! 0, xs ! 1]" if "2 \<le> length xs" for xs :: bytes
    using that by (cases xs; cases "tl xs") auto
  then show ?thesis using assms by (auto simp: finish_fetch_def)
qed

lemma plain_headers:
  assumes "status_ok status" "list_all field_ok flds"
    "field_values (ascii ''transfer-encoding'') flds = []" "field_values (ascii ''content-encoding'') flds = []"
    "field_values (ascii ''content-length'') flds = [dec_of n]" "n \<le> 65536"
  shows "\<not> response_headers_chunked (response_head status flds)"
    "parse_content_encoding_layers (response_head status flds) = Inr (replicate 4 Identity, 0)"
    "parse_content_length (response_head status flds) = Some n"
proof -
  have "parse_usize_decimal (dec_of n) = Some n"
    using parse_usize_decimal_dec_of [of n "[]"] assms(6) by (simp add: USIZE_MAX_def)
  then show "parse_content_length (response_head status flds) = Some n"
    by (simp add: parse_content_length_def first_content_length_values head_values [OF assms(1,2)] assms(5))
qed (simp_all add: response_headers_chunked_def list_ex_line_values parse_content_encoding_layers_def coding_lines_values
  head_values [OF assms(1,2)] assms(3,4))

text \<open>The state in which a response is awaited.\<close>

definition awaiting_response :: "net_stack \<Rightarrow> bool" where
  "awaiting_response s \<longleftrightarrow> \<not> ns_header_found s \<and> ns_stream s = [] \<and> ns_page s = [] \<and> \<not> ns_fetch_done s
     \<and> \<not> ns_http_chunked s \<and> ns_body_layer_count s = 0 \<and> \<not> ns_page_truncated s"

lemma begin_plain:
  assumes "\<not> response_headers_chunked h" "parse_content_encoding_layers h = Inr (replicate 4 Identity, 0)"
    "parse_content_length h = Some n" "length b0 \<le> n" "n \<le> 65536" "ns_page s = []"
  shows "begin_body dec h b0 s = (let s' = s\<lparr> ns_header_found := True, ns_body_layers := replicate 4 Identity,
      ns_body_layer_count := 0, ns_http_body_remaining := Some (n - length b0), ns_page := b0 \<rparr>;
      s' = (if n = length b0 then finish_fetch dec s' else s') in s'\<lparr> ns_stream := [], ns_page_gen := ns_page_gen s' + 1 \<rparr>)"
proof -
  let ?s = "s\<lparr> ns_header_found := True, ns_body_layers := replicate 4 Identity, ns_body_layer_count := 0,
    ns_http_body_remaining := Some (n - length b0) \<rparr>"
  have "fold page_push_byte b0 ?s = ?s\<lparr> ns_page := b0 \<rparr>"
    using fold_page_push [of ?s b0] assms(4-6) by (simp add: put_body_def)
  then show ?thesis using assms by (auto simp: begin_body_def Let_def min_absorb1)
qed

lemma plain_response:
  assumes "status_ok status" "list_all field_ok flds"
    "field_values (ascii ''transfer-encoding'') flds = []" "field_values (ascii ''content-encoding'') flds = []"
    "field_values (ascii ''content-length'') flds = [dec_of (length body)]" "length body \<le> 65536"
    "take 2 body \<noteq> [0x1F, 0x8B]"
    "concat hs @ seg @ concat bs = response_head status flds @ body" "[] \<notin> set bs"
    "length (concat hs) < length (response_head status flds)"
    "length (response_head status flds) \<le> length (concat hs @ seg)" "length (concat hs @ seg) \<le> 4096"
    "awaiting_response s"
  shows "let s' = fold (ingest_tcp_payload dec) (hs @ [seg] @ bs) s
    in ns_page s' = body \<and> ns_fetch_done s' \<and> \<not> ns_fetch_armed s' \<and> \<not> ns_page_truncated s' \<and> ns_fetch_err s' = ns_fetch_err s
      \<and> (ns_fetch_armed s \<longrightarrow> armed_run dec (hs @ [seg] @ bs) s)"
proof -
  let ?h = "response_head status flds" and ?c = "concat hs"
  note aw = assms(13) [unfolded awaiting_response_def]
  note he = header_end [OF assms(1,2)]
  define b0 where "b0 = drop (length ?h) (?c @ seg)"
  have pre: "?c = take (length ?c) ?h"
    using arg_cong [OF assms(8), of "take (length ?c)"] assms(10) by simp
  have cs: "?c @ seg = ?h @ b0"
    using arg_cong [OF assms(8), of "take (length ?h)"] assms(11) unfolding b0_def
    by (metis append_assoc append_eq_conv_conj append_take_drop_id take_append diff_is_0_eq take_0 append_Nil2)
  have body: "body = b0 @ concat bs"
    using assms(8) cs by (metis append_assoc same_append_eq)
  have stream: "fold (ingest_tcp_payload dec) hs s = s\<lparr> ns_stream := ?c \<rparr>" "ns_fetch_armed s \<longrightarrow> armed_run dec hs s"
  proof -
    have "find_http_header_end (take k (ns_stream s @ ?c)) = None" if "k \<le> length (ns_stream s) + length ?c" for k
      using that he(3) [of k] assms(10) aw pre by (metis append_Nil list.size(3) add_0 le_less_trans take_take min.absorb1)
    then show "fold (ingest_tcp_payload dec) hs s = s\<lparr> ns_stream := ?c \<rparr>" "ns_fetch_armed s \<longrightarrow> armed_run dec hs s"
      using header_segments [of s hs dec] assms(10,11,12) aw by simp_all
  qed
  let ?s2 = "s\<lparr> ns_stream := ?h @ b0 \<rparr>"
  have b0: "length b0 \<le> 65536" "length body - min (length b0) (length body) = length (concat bs)"
    using body assms(6) by simp_all
  have n: "take (min (length seg) (4096 - length ?c)) seg = seg" using assms(12) by simp
  have str: "ns_stream (s\<lparr> ns_stream := ?c \<rparr>) @ seg = ?h @ b0" using cs by simp
  have "ingest_tcp_payload dec seg (s\<lparr> ns_stream := ?c \<rparr>)
      = begin_body dec (take (length ?h - 4 + 4) (?h @ b0)) (drop (length ?h - 4 + 4) (?h @ b0)) ?s2"
    using aw unfolding ingest_tcp_payload_def Let_def
    by (simp add: n cs he(1) del: take_append drop_append)
  then have seg: "ingest_tcp_payload dec seg (s\<lparr> ns_stream := ?c \<rparr>) = begin_body dec ?h b0 ?s2"
    using he(2) by simp
  let ?s3 = "?s2\<lparr> ns_header_found := True, ns_body_layers := replicate 4 Identity, ns_body_layer_count := 0,
    ns_http_body_remaining := Some (length (concat bs)), ns_page := b0 \<rparr>"
  let ?rest = "\<lambda>s :: net_stack. s\<lparr> ns_stream := [], ns_page_gen := ns_page_gen s + 1 \<rparr>"
  have len: "length b0 \<le> length body" "length body - length b0 = length (concat bs)" using body by simp_all
  have first: "ingest_tcp_payload dec seg (s\<lparr> ns_stream := ?c \<rparr>)
      = ?rest (if length body = length b0 then finish_fetch dec ?s3 else ?s3)"
    using begin_plain [OF plain_headers [OF assms(1-6)] len(1) assms(6), of ?s2] aw unfolding seg len(2) by (simp add: Let_def)
  show ?thesis
  proof (cases "bs = []")
    case True
    then have "fold (ingest_tcp_payload dec) (hs @ [seg] @ bs) s = ?rest (fetch_complete ?s3)"
      using first stream(1) body finish_plain [of ?s3 dec] assms(7) aw by simp
    then show ?thesis using True body aw stream by (simp add: fetch_complete_def armed_run_append)
  next
    case False
    then have "concat bs \<noteq> []" using assms(9) by (cases bs) auto
    then have "length body \<noteq> length b0" using body by simp
    then have seg3: "ingest_tcp_payload dec seg (s\<lparr> ns_stream := ?c \<rparr>) = ?rest ?s3" using first by (simp only: if_False)
    have run: "fold (ingest_tcp_payload dec) bs (?rest ?s3)
        = finish_fetch dec ((?rest ?s3)\<lparr> ns_page := body, ns_http_body_remaining := Some 0 \<rparr>) \<and> (ns_fetch_armed s \<longrightarrow> armed_run dec bs (?rest ?s3))"
      using body_segments [of "?rest ?s3" bs dec] body b0 assms(6,9) aw False by simp
    then have armed: "ns_fetch_armed s \<longrightarrow> armed_run dec (hs @ [seg] @ bs) s" using stream seg3 by (simp add: armed_run_append)
    from run have "fold (ingest_tcp_payload dec) (hs @ [seg] @ bs) s
        = finish_fetch dec ((?rest ?s3)\<lparr> ns_page := body, ns_http_body_remaining := Some 0 \<rparr>)"
      using stream(1) seg3 by simp
    also have "\<dots> = fetch_complete ((?rest ?s3)\<lparr> ns_page := body, ns_http_body_remaining := Some 0 \<rparr>)"
      by (rule finish_plain) (use assms(7) aw in simp_all)
    finally show ?thesis using aw armed by (simp add: fetch_complete_def)
  qed
qed

text \<open>
  A plain response is read as sent, however TCP cuts it: with a header block of any fields, no
  transfer or content coding and the length of the body, a body that fits the page and is not
  itself a gzip member, and any cut into segments in which the segment that ends the header block
  stays within the first 4096 bytes, the page is exactly the body, complete and without error,
  and the fetch is done.
\<close>

theorem plain_response_read:
  assumes "status_ok status" "list_all field_ok flds"
    "field_values (ascii ''transfer-encoding'') flds = []" "field_values (ascii ''content-encoding'') flds = []"
    "field_values (ascii ''content-length'') flds = [dec_of (length body)]" "length body \<le> 65536"
    "take 2 body \<noteq> [0x1F, 0x8B]"
    "concat hs @ seg @ concat bs = response_head status flds @ body" "[] \<notin> set bs"
    "length (concat hs) < length (response_head status flds)"
    "length (response_head status flds) \<le> length (concat hs @ seg)" "length (concat hs @ seg) \<le> 4096"
    "awaiting_response s"
  shows "let s' = fold (ingest_tcp_payload dec) (hs @ [seg] @ bs) s
    in ns_page s' = body \<and> ns_fetch_done s' \<and> \<not> ns_fetch_armed s' \<and> \<not> ns_page_truncated s' \<and> ns_fetch_err s' = ns_fetch_err s"
  using plain_response [OF assms, of dec] by (simp add: Let_def)

theorem plain_response_read_witness:
  "ns_page (fold (ingest_tcp_payload no_decoders) ([ascii ''HTTP/1.1 200 OK''] @ [crlf @ ascii ''Content-Length: 3'' @ crlf @ crlf @ ascii ''a''] @ [ascii ''bc''])
      (start_fetch (ascii ''http://10.0.2.2/'') static_initial)) = ascii ''abc''"
proof -
  let ?s = "start_fetch (ascii ''http://10.0.2.2/'') static_initial"
  let ?f = "[(ascii ''Content-Length'', ascii ''3'')]" and ?st = "ascii ''HTTP/1.1 200 OK''"
  have d: "status_ok ?st" "list_all field_ok ?f" "field_values (ascii ''transfer-encoding'') ?f = []"
      "field_values (ascii ''content-encoding'') ?f = []" "field_values (ascii ''content-length'') ?f = [dec_of (length (ascii ''abc''))]"
    by code_simp+
  have aw: "awaiting_response ?s" by (simp add: awaiting_response_def sample_fetch)
  have h: "concat [?st] @ (crlf @ ascii ''Content-Length: 3'' @ crlf @ crlf @ ascii ''a'') @ concat [ascii ''bc'']
      = response_head ?st ?f @ ascii ''abc''" by code_simp
  show ?thesis
    using plain_response_read [OF d _ _ h _ _ _ _ aw, of no_decoders] by (simp add: Let_def ascii_def response_head_def field_line_def)
qed

end
