(* ===== verification/Eve_Net_Live.thy ===== *)
theory Eve_Net_Live
  imports Eve_Net_Reach
begin

text \<open>
  How a fetch ends when nothing answers. Each waiting phase has a counter that every step of the main loop
  increments and a limit at which the fetch fails with its message; the phase in which the gateway's
  address is sought has none.
\<close>

section \<open>Steps on a silent network\<close>

definition silent :: "'d nic_ops \<Rightarrow> bool" where
  "silent vio \<longleftrightarrow> (\<forall>d. fst (nic_poll vio d) = None)"

fun drives ::
  "decoders \<Rightarrow> 'd nic_ops \<Rightarrow> ('d, 't) tls_ops \<Rightarrow> mac \<Rightarrow> device_settings \<Rightarrow> nat \<Rightarrow> ('d, 't) net_world \<Rightarrow> ('d, 't) net_world option" where
  "drives dec vio tls our_mac cfg 0 w = Some w"
| "drives dec vio tls our_mac cfg (Suc k) w = drive dec vio tls our_mac cfg w \<bind> drives dec vio tls our_mac cfg k"

text \<open>The settings are in force and the stack has an address.\<close>

definition configured :: "device_settings \<Rightarrow> net_stack \<Rightarrow> bool" where
  "configured cfg s \<longleftrightarrow> ns_ip_settings_tag s = ip_settings_tag cfg \<and> \<not> dhcp_active s \<and> \<not> is_our_zero (ns_addrs s)"

definition tick_net :: "net_stack \<Rightarrow> net_stack" where
  "tick_net s = s\<lparr> ns_tick := ns_tick s + 1,
     ns_clock := wall_clock_note_net_tick (ns_tick s + 1) (note_main_loop_tick (ns_tick s + 1) (ns_clock s)) \<rparr>"

lemma tick_net_fields [simp]:
  "ns_tick (tick_net s) = ns_tick s + 1" "ns_addrs (tick_net s) = ns_addrs s" "ns_dhcp_phase (tick_net s) = ns_dhcp_phase s"
  "ns_ip_settings_tag (tick_net s) = ns_ip_settings_tag s" "ns_gw_known (tick_net s) = ns_gw_known s"
  "ns_fetch_armed (tick_net s) = ns_fetch_armed s" "ns_fetch_done (tick_net s) = ns_fetch_done s" "ns_needs_dns (tick_net s) = ns_needs_dns s"
  "ns_dns_done (tick_net s) = ns_dns_done s" "ns_get_sent (tick_net s) = ns_get_sent s" "ns_https_mode (tick_net s) = ns_https_mode s"
  "ns_syn_retries (tick_net s) = ns_syn_retries s" "ns_syn_sent (tick_net s) = ns_syn_sent s"
  "ns_tcp_connect_start_tick (tick_net s) = ns_tcp_connect_start_tick s" "ns_fetch_progress_tick (tick_net s) = ns_fetch_progress_tick s"
  "ns_dns_xmit_phase (tick_net s) = ns_dns_xmit_phase s" "dhcp_active (tick_net s) = dhcp_active s"
  by (simp_all add: tick_net_def dhcp_active_def)

lemma silent_drive:
  assumes "silent vio" "configured cfg (w_net w)"
  obtains d where "drive dec vio tls our_mac cfg w =
    (let w' = w\<lparr> w_nic := d, w_net := (tick_net (w_net w))\<lparr> ns_phase := next_phase (tick_net (w_net w)) \<rparr> \<rparr>; s = w_net w'
     in if \<not> ns_gw_known s then Some (arp_tick vio our_mac w')
        else if ns_fetch_armed s \<and> ns_needs_dns s \<and> \<not> ns_dns_done s then Some (dns_tick vio our_mac w')
        else if ns_fetch_armed s \<and> ns_dns_done s \<and> \<not> ns_fetch_done s then fetch_tick dec vio tls our_mac w'
        else Some w')"
proof -
  define d where "d = snd (nic_poll vio (w_nic w))"
  have "begin_tick cfg (w_net w) = tick_net (w_net w)"
    using assms(2) by (simp add: begin_tick_def sync_ip_from_settings_def configured_def tick_net_def Let_def)
  moreover have "nic_poll vio e = (None, snd (nic_poll vio e))" for e using assms(1) by (simp add: silent_def prod_eq_iff)
  ultimately have rx: "rx_loop dec vio our_mac (on_net (begin_tick cfg) w) = Some (w\<lparr> w_nic := d, w_net := tick_net (w_net w) \<rparr>)"
    by (subst rx_loop.simps) (simp add: d_def on_net_def split_beta assms(1) [unfolded silent_def])
  have nd: "\<not> dhcp_active (tick_net (w_net w))" using assms(2) by (simp add: configured_def)
  have "dhcp_tick vio our_mac (w\<lparr> w_nic := d, w_net := tick_net (w_net w) \<rparr>) = w\<lparr> w_nic := d, w_net := tick_net (w_net w) \<rparr>"
    using nd by (simp add: dhcp_tick_def)
  then show thesis using assms(2) nd
    by (intro that [of d]; unfold drive_def rx) (simp add: configured_def Let_def on_net_def)
qed

text \<open>A counter that grows with every step until the goal is reached.\<close>

lemma counter_reaches:
  fixes limit :: u32 and c :: "('d, 't) net_world \<Rightarrow> u32"
  assumes step: "\<And>w. P w \<Longrightarrow> \<exists>w'. drive dec vio tls our_mac cfg w = Some w' \<and> (goal w' \<or> P w' \<and> c w' = c w + 1 \<and> c w' \<le> limit)"
    and "limit < - 1" "P w"
  shows "\<exists>k w'. k \<le> unat limit + 2 \<and> drives dec vio tls our_mac cfg k w = Some w' \<and> goal w'"
proof -
  have within: "\<exists>k w'. k \<le> unat limit + 1 - unat (c w) \<and> drives dec vio tls our_mac cfg k w = Some w' \<and> goal w'"
    if "P w" "c w \<le> limit" for w
    using that
  proof (induction "unat limit - unat (c w)" arbitrary: w rule: less_induct)
    case less
    obtain w' where w': "drive dec vio tls our_mac cfg w = Some w'" "goal w' \<or> P w' \<and> c w' = c w + 1 \<and> c w' \<le> limit"
      using step [OF less.prems(1)] by blast
    show ?case
    proof (cases "goal w'")
      case True
      then show ?thesis using w' less.prems(2) by (intro exI [of _ 1] exI [of _ w']) (simp add: word_le_nat_alt)
    next
      case False
      then have n: "P w'" "c w' = c w + 1" "c w' \<le> limit" using w'(2) by blast+
      have "unat (c w) + 1 < 2 ^ 32"
        using less.prems(2) assms(2) by (simp add: word_le_nat_alt word_less_nat_alt unsigned_minus_1_eq_mask mask_eq_exp_minus_1)
      then have u: "unat (c w') = unat (c w) + 1" using n(2) by (simp add: unat_word_ariths)
      have "unat limit - unat (c w') < unat limit - unat (c w)" using u n(3) by (simp add: word_le_nat_alt)
      from less.hyps [OF this n(1,3)] obtain k w'' where "k \<le> unat limit + 1 - unat (c w')" "drives dec vio tls our_mac cfg k w' = Some w''" "goal w''"
        by blast
      then show ?thesis using w'(1) n(3) u by (intro exI [of _ "Suc k"] exI [of _ w'']) (simp add: word_le_nat_alt)
    qed
  qed
  obtain w' where w': "drive dec vio tls our_mac cfg w = Some w'" "goal w' \<or> P w' \<and> c w' = c w + 1 \<and> c w' \<le> limit"
    using step [OF assms(3)] by blast
  show ?thesis
  proof (cases "goal w'")
    case True
    then show ?thesis using w' by (intro exI [of _ 1] exI [of _ w']) simp
  next
    case False
    then obtain k w'' where "k \<le> unat limit + 1 - unat (c w')" "drives dec vio tls our_mac cfg k w' = Some w''" "goal w''"
      using within [of w'] w'(2) by blast
    then show ?thesis using w'(1) by (intro exI [of _ "Suc k"] exI [of _ w'']) simp
  qed
qed

section \<open>The phases\<close>

definition failed :: "bytes \<Rightarrow> ('d, 't) net_world \<Rightarrow> bool" where
  "failed msg w \<longleftrightarrow> ns_fetch_done (w_net w) \<and> \<not> ns_fetch_armed (w_net w) \<and> ns_fetch_err (w_net w) = msg"

lemma set_err_failed: "length msg \<le> 80 \<Longrightarrow> failed msg (on_net (set_err msg) w)"
  by (simp add: failed_def set_err_def)

text \<open>A plain fetch on a configured stack that knows its gateway.\<close>

definition waiting :: "device_settings \<Rightarrow> ('d, 't) net_world \<Rightarrow> bool" where
  "waiting cfg w \<longleftrightarrow> (let s = w_net w in configured cfg s \<and> ns_gw_known s \<and> ns_fetch_armed s \<and> \<not> ns_fetch_done s \<and> \<not> ns_https_mode s)"

lemma dns_step:
  assumes "silent vio" "waiting cfg w" "ns_needs_dns (w_net w)" "\<not> ns_dns_done (w_net w)"
  shows "\<exists>w'. drive dec vio tls our_mac cfg w = Some w' \<and> (failed (ascii ''DNS TIMEOUT'') w'
    \<or> (waiting cfg w' \<and> ns_needs_dns (w_net w') \<and> \<not> ns_dns_done (w_net w'))
      \<and> ns_dns_xmit_phase (w_net w') = ns_dns_xmit_phase (w_net w) + 1 \<and> ns_dns_xmit_phase (w_net w') \<le> 3072)"
proof -
  obtain d where d: "drive dec vio tls our_mac cfg w = Some (dns_tick vio our_mac
      (w\<lparr> w_nic := d, w_net := (tick_net (w_net w))\<lparr> ns_phase := next_phase (tick_net (w_net w)) \<rparr> \<rparr>))"
    using silent_drive [OF assms(1), of cfg w dec tls our_mac] assms by (auto simp: waiting_def Let_def)
  show ?thesis unfolding d using assms(2-4)
    by (auto simp: dns_tick_def Let_def waiting_def configured_def dhcp_active_def not_less set_err_failed)
qed

lemma syn_tick_fields:
  "w_net (syn_tick vio our_mac w) = w_net w
    \<or> w_net (syn_tick vio our_mac w) = (w_net w)\<lparr> ns_syn_sent := True, ns_syn_retries := sat_add (ns_syn_retries (w_net w)) 1 \<rparr>"
  by (simp add: syn_tick_def Let_def split_beta)

lemma plain_fetch_tick:
  assumes "\<not> ns_https_mode (w_net w)"
  shows "\<exists>w'. fetch_tick dec vio tls our_mac w = Some w' \<and>
    (if \<not> ns_get_sent (w_net w)
     then failed (ascii ''TCP NO CONNECT'') w' \<or> \<not> 16000 < ns_tick (w_net w) - ns_tcp_connect_start_tick (w_net w)
       \<and> w' = syn_tick vio our_mac w
     else failed (ascii ''HTTP TIMEOUT'') w' \<or> \<not> 12000 < ns_tick (w_net w) - ns_fetch_progress_tick (w_net w)
       \<and> w' = syn_tick vio our_mac w)"
  using syn_tick_fields [of vio our_mac w] assms
  by (auto simp: fetch_tick_def Let_def set_err_failed)

lemma tcp_step:
  assumes "silent vio" "waiting cfg w" "ns_dns_done (w_net w)" "\<not> ns_get_sent (w_net w)"
  shows "\<exists>w'. drive dec vio tls our_mac cfg w = Some w' \<and> (failed (ascii ''TCP NO CONNECT'') w'
    \<or> (waiting cfg w' \<and> ns_dns_done (w_net w') \<and> \<not> ns_get_sent (w_net w'))
      \<and> ns_tick (w_net w') - ns_tcp_connect_start_tick (w_net w') = ns_tick (w_net w) - ns_tcp_connect_start_tick (w_net w) + 1
      \<and> ns_tick (w_net w') - ns_tcp_connect_start_tick (w_net w') \<le> 16000)"
proof -
  obtain d where d: "drive dec vio tls our_mac cfg w = fetch_tick dec vio tls our_mac
      (w\<lparr> w_nic := d, w_net := (tick_net (w_net w))\<lparr> ns_phase := next_phase (tick_net (w_net w)) \<rparr> \<rparr>)"
    using silent_drive [OF assms(1), of cfg w dec tls our_mac] assms by (auto simp: waiting_def Let_def)
  let ?w = "w\<lparr> w_nic := d, w_net := (tick_net (w_net w))\<lparr> ns_phase := next_phase (tick_net (w_net w)) \<rparr> \<rparr>"
  have "\<not> ns_https_mode (w_net ?w)" using assms(2) by (simp add: waiting_def Let_def)
  from plain_fetch_tick [OF this, of dec vio tls our_mac] obtain w' where "fetch_tick dec vio tls our_mac ?w = Some w'"
    "failed (ascii ''TCP NO CONNECT'') w' \<or> \<not> 16000 < ns_tick (w_net ?w) - ns_tcp_connect_start_tick (w_net ?w) \<and> w' = syn_tick vio our_mac ?w"
    using assms(4) by auto
  then show ?thesis unfolding d using assms(2-4) syn_tick_fields [of vio our_mac ?w]
    by (auto simp: waiting_def Let_def configured_def dhcp_active_def not_less algebra_simps)
qed

lemma http_step:
  assumes "silent vio" "waiting cfg w" "ns_dns_done (w_net w)" "ns_get_sent (w_net w)"
  shows "\<exists>w'. drive dec vio tls our_mac cfg w = Some w' \<and> (failed (ascii ''HTTP TIMEOUT'') w'
    \<or> (waiting cfg w' \<and> ns_dns_done (w_net w') \<and> ns_get_sent (w_net w'))
      \<and> ns_tick (w_net w') - ns_fetch_progress_tick (w_net w') = ns_tick (w_net w) - ns_fetch_progress_tick (w_net w) + 1
      \<and> ns_tick (w_net w') - ns_fetch_progress_tick (w_net w') \<le> 12000)"
proof -
  obtain d where d: "drive dec vio tls our_mac cfg w = fetch_tick dec vio tls our_mac
      (w\<lparr> w_nic := d, w_net := (tick_net (w_net w))\<lparr> ns_phase := next_phase (tick_net (w_net w)) \<rparr> \<rparr>)"
    using silent_drive [OF assms(1), of cfg w dec tls our_mac] assms by (auto simp: waiting_def Let_def)
  let ?w = "w\<lparr> w_nic := d, w_net := (tick_net (w_net w))\<lparr> ns_phase := next_phase (tick_net (w_net w)) \<rparr> \<rparr>"
  have "\<not> ns_https_mode (w_net ?w)" using assms(2) by (simp add: waiting_def Let_def)
  from plain_fetch_tick [OF this, of dec vio tls our_mac] obtain w' where "fetch_tick dec vio tls our_mac ?w = Some w'"
    "failed (ascii ''HTTP TIMEOUT'') w' \<or> \<not> 12000 < ns_tick (w_net ?w) - ns_fetch_progress_tick (w_net ?w) \<and> w' = syn_tick vio our_mac ?w"
    using assms(4) by auto
  then show ?thesis unfolding d using assms(2-4) syn_tick_fields [of vio our_mac ?w]
    by (auto simp: waiting_def Let_def configured_def dhcp_active_def not_less algebra_simps)
qed

text \<open>
  C15. A fetch that gets no answer ends: on a silent network a plain fetch whose gateway is known fails within
  16,002 steps of the main loop, with \<open>DNS TIMEOUT\<close> while its name is unresolved (within 3,074 steps), \<open>TCP NO
  CONNECT\<close> while there is no connection, and \<open>HTTP TIMEOUT\<close> after the request (within 12,002 steps).
\<close>

theorem silent_fetch_fails:
  assumes "silent vio" "net_wf (w_net w)" "waiting cfg w"
  shows "\<exists>k w'. drives dec vio tls our_mac cfg k w = Some w' \<and>
    (if \<not> ns_dns_done (w_net w) then k \<le> 3074 \<and> failed (ascii ''DNS TIMEOUT'') w'
     else if \<not> ns_get_sent (w_net w) then k \<le> 16002 \<and> failed (ascii ''TCP NO CONNECT'') w'
     else k \<le> 12002 \<and> failed (ascii ''HTTP TIMEOUT'') w')"
proof (cases "ns_dns_done (w_net w)")
  case False
  then have "ns_needs_dns (w_net w)" using assms(2,3) by (simp add: net_wf_defs waiting_def Let_def)
  with False assms(3) show ?thesis
    using counter_reaches [where P = "\<lambda>w. waiting cfg w \<and> ns_needs_dns (w_net w) \<and> \<not> ns_dns_done (w_net w)"
      and c = "\<lambda>w. ns_dns_xmit_phase (w_net w)" and limit = 3072 and goal = "failed (ascii ''DNS TIMEOUT'')"
      and dec = dec and vio = vio and tls = tls and our_mac = our_mac and cfg = cfg and w = w] dns_step [OF assms(1)]
    by simp blast
next
  case dns: True
  show ?thesis
  proof (cases "ns_get_sent (w_net w)")
    case False
    with dns assms(3) show ?thesis
      using counter_reaches [where P = "\<lambda>w. waiting cfg w \<and> ns_dns_done (w_net w) \<and> \<not> ns_get_sent (w_net w)"
        and c = "\<lambda>w. ns_tick (w_net w) - ns_tcp_connect_start_tick (w_net w)" and limit = 16000 and goal = "failed (ascii ''TCP NO CONNECT'')"
        and dec = dec and vio = vio and tls = tls and our_mac = our_mac and cfg = cfg and w = w] tcp_step [OF assms(1)]
      by simp blast
  next
    case True
    with dns assms(3) show ?thesis
      using counter_reaches [where P = "\<lambda>w. waiting cfg w \<and> ns_dns_done (w_net w) \<and> ns_get_sent (w_net w)"
        and c = "\<lambda>w. ns_tick (w_net w) - ns_fetch_progress_tick (w_net w)" and limit = 12000 and goal = "failed (ascii ''HTTP TIMEOUT'')"
        and dec = dec and vio = vio and tls = tls and our_mac = our_mac and cfg = cfg and w = w] http_step [OF assms(1)]
      by simp blast
  qed
qed

text \<open>A booted stack that knows its gateway, with a fetch by address, on a cable with nothing at its end.\<close>

definition cut_cable :: "bytes list nic_ops" where
  "cut_cable = \<lparr> nic_transmit = (\<lambda>f sent. (True, sent @ [f])), nic_poll = (\<lambda>sent. (None, sent)) \<rparr>"

definition alone :: "bool \<Rightarrow> (bytes list, unit) net_world" where
  "alone gw = \<lparr> w_net = start_fetch (ascii ''http://10.0.2.2/'')
     (static_initial\<lparr> ns_gw_known := gw, ns_ip_settings_tag := ip_settings_tag device_settings_new \<rparr>),
     w_nic = [], w_scratch = replicate 1536 0, w_tls = () \<rparr>"

lemma alone_fields:
  "ns_gw_known (w_net (alone gw)) = gw" "ns_fetch_armed (w_net (alone gw))" "\<not> ns_fetch_done (w_net (alone gw))"
  "ns_dns_done (w_net (alone gw))" "\<not> ns_get_sent (w_net (alone gw))" "\<not> ns_https_mode (w_net (alone gw))"
  by (simp_all add: alone_def sample_fetch)

lemma alone_configured: "configured device_settings_new (w_net (alone gw))"
  by (simp add: alone_def configured_def sample_fetch dhcp_active_def is_our_zero_def static_initial_def SLIRP_def)

theorem silent_fetch_fails_witness:
  "\<exists>k w'. drives no_decoders cut_cable (plain_tls no_decoders cut_cable) (MAC 2 0 0 0 0 1) device_settings_new k (alone True) = Some w'
     \<and> k \<le> 16002 \<and> failed (ascii ''TCP NO CONNECT'') w'"
proof -
  have "net_wf (static_initial\<lparr> ns_gw_known := True, ns_ip_settings_tag := ip_settings_tag device_settings_new \<rparr>)"
    using static_initial_wf by (simp add: net_wf_defs)
  then have "net_wf (w_net (alone True))" by (simp add: alone_def start_fetch_wf)
  moreover have "silent cut_cable" by (simp add: silent_def cut_cable_def)
  moreover have "waiting device_settings_new (alone True)" by (simp add: waiting_def alone_configured alone_fields)
  moreover have "ns_dns_done (w_net (alone True))" by (simp add: alone_fields)
  moreover have "\<not> ns_get_sent (w_net (alone True))" by (simp add: alone_fields)
  ultimately show ?thesis using silent_fetch_fails [of cut_cable "alone True" device_settings_new] by simp
qed

text \<open>
  A fetch whose gateway does not answer never ends: while the gateway is unknown and nothing is received,
  the fetch stays armed in the ARP phase after any number of steps of the main loop, since only the
  later phases have a limit.
\<close>

theorem unknown_gateway_never_ends:
  assumes "silent vio" "configured cfg (w_net w)" "\<not> ns_gw_known (w_net w)" "ns_fetch_armed (w_net w)" "\<not> ns_fetch_done (w_net w)"
  shows "\<exists>w'. drives dec vio tls our_mac cfg (Suc k) w = Some w' \<and> ns_phase (w_net w') = Arp
    \<and> ns_fetch_armed (w_net w') \<and> \<not> ns_fetch_done (w_net w')"
  using assms(2-5)
proof (induction k arbitrary: w)
  case 0
  from silent_drive [OF assms(1) "0.prems"(1), of dec tls our_mac] obtain d where "drive dec vio tls our_mac cfg w
      = Some (arp_tick vio our_mac (w\<lparr> w_nic := d, w_net := (tick_net (w_net w))\<lparr> ns_phase := Arp \<rparr> \<rparr>))"
    using 0 by (auto simp: Let_def next_phase_def)
  then show ?case using 0 by (simp add: arp_tick_def)
next
  case (Suc k)
  from silent_drive [OF assms(1) Suc.prems(1), of dec tls our_mac] obtain d where d: "drive dec vio tls our_mac cfg w
      = Some (arp_tick vio our_mac (w\<lparr> w_nic := d, w_net := (tick_net (w_net w))\<lparr> ns_phase := Arp \<rparr> \<rparr>))"
    using Suc.prems by (auto simp: Let_def next_phase_def)
  show ?case unfolding drives.simps(2) [of _ _ _ _ _ "Suc k"] d
    using Suc.IH [of "arp_tick vio our_mac (w\<lparr> w_nic := d, w_net := (tick_net (w_net w))\<lparr> ns_phase := Arp \<rparr> \<rparr>)"] Suc.prems
    by (simp add: arp_tick_def configured_def dhcp_active_def del: drives.simps)
qed

theorem unknown_gateway_never_ends_witness:
  "\<exists>w'. drives no_decoders cut_cable (plain_tls no_decoders cut_cable) (MAC 2 0 0 0 0 1) device_settings_new (Suc 99999) (alone False) = Some w'
     \<and> ns_phase (w_net w') = Arp \<and> ns_fetch_armed (w_net w') \<and> \<not> ns_fetch_done (w_net w')"
proof (rule unknown_gateway_never_ends)
  show "silent cut_cable" by (simp add: silent_def cut_cable_def)
  show "configured device_settings_new (w_net (alone False))" by (rule alone_configured)
  show "\<not> ns_gw_known (w_net (alone False))" by (simp add: alone_fields)
  show "ns_fetch_armed (w_net (alone False))" by (simp add: alone_fields)
  show "\<not> ns_fetch_done (w_net (alone False))" by (simp add: alone_fields)
qed

end
