(* ===== verification/Eve_Net_Queue.thy ===== *)
theory Eve_Net_Queue
  imports Eve_Net_Reach
begin

text \<open>
  The queues between TCP and TLS. \<open>byte_queue\<close> states what TLS relies on: bytes are accepted as a whole or not
  at all, exactly when they fit, and come out in order. The ciphertext queue of the stack, with its read
  offset and its compaction, is shown to be such a queue. The queue of outgoing ciphertext is cut into
  TCP segments with consecutive sequence numbers.
\<close>

section \<open>The interface\<close>

datatype queue_op = Put bytes | Get usize

text \<open>A run of operations, with the bytes accepted and the bytes delivered.\<close>

fun queue_run ::
  "(bytes \<Rightarrow> 's \<Rightarrow> bool \<times> 's) \<Rightarrow> (usize \<Rightarrow> 's \<Rightarrow> bytes \<times> 's) \<Rightarrow> queue_op list \<Rightarrow> 's \<Rightarrow> bytes \<times> bytes \<times> 's" where
  "queue_run put get [] s = ([], [], s)"
| "queue_run put get (Put d # ops) s =
     (let (ok, s) = put d s; (acc, out, s) = queue_run put get ops s in (if ok then d @ acc else acc, out, s))"
| "queue_run put get (Get n # ops) s =
     (let (x, s) = get n s; (acc, out, s) = queue_run put get ops s in (acc, x @ out, s))"

locale byte_queue =
  fixes put :: "bytes \<Rightarrow> 's \<Rightarrow> bool \<times> 's"
    and get :: "usize \<Rightarrow> 's \<Rightarrow> bytes \<times> 's"
    and contents :: "'s \<Rightarrow> bytes"
    and valid :: "'s \<Rightarrow> bool"
    and cap :: nat
  assumes put_accepts: "valid s \<Longrightarrow> fst (put d s) \<longleftrightarrow> length (contents s) + length d \<le> cap"
    and put_contents: "valid s \<Longrightarrow> contents (snd (put d s)) = (if fst (put d s) then contents s @ d else contents s)"
    and get_front: "valid s \<Longrightarrow> fst (get n s) = take n (contents s)"
    and get_rest: "valid s \<Longrightarrow> contents (snd (get n s)) = drop n (contents s)"
    and put_valid: "valid s \<Longrightarrow> valid (snd (put d s))"
    and get_valid: "valid s \<Longrightarrow> valid (snd (get n s))"
    and fits: "valid s \<Longrightarrow> length (contents s) \<le> cap"
begin

lemma run_fifo:
  "valid s \<Longrightarrow> queue_run put get ops s = (acc, out, s') \<Longrightarrow> contents s @ acc = out @ contents s' \<and> valid s'"
proof (induction ops arbitrary: s acc out)
  case (Cons x ops)
  show ?case
  proof (cases x)
    case (Put d)
    obtain ok s1 where 1: "put d s = (ok, s1)" by fastforce
    obtain acc1 where "queue_run put get ops s1 = (acc1, out, s')" "acc = (if ok then d @ acc1 else acc1)"
      using Cons.prems(2) Put 1 by (auto split: prod.splits)
    with Cons.IH [of s1 acc1 out] put_contents [OF Cons.prems(1), of d] put_valid [OF Cons.prems(1), of d] 1
    show ?thesis by (cases ok) auto
  next
    case (Get n)
    obtain y s1 where 1: "get n s = (y, s1)" by fastforce
    obtain out1 where "queue_run put get ops s1 = (acc, out1, s')" "out = y @ out1"
      using Cons.prems(2) Get 1 by (auto split: prod.splits)
    with Cons.IH [of s1 acc out1] get_front [OF Cons.prems(1), of n] get_rest [OF Cons.prems(1), of n] get_valid [OF Cons.prems(1), of n] 1
    show ?thesis by (metis append.assoc append_take_drop_id fst_conv snd_conv)
  qed
qed simp

text \<open>While the bytes in flight fit, nothing is refused.\<close>

lemma put_fits: "valid s \<Longrightarrow> length (contents s) + length d \<le> cap \<Longrightarrow> fst (put d s) \<and> contents (snd (put d s)) = contents s @ d"
  using put_accepts [of s d] put_contents [of s d] by simp

lemma refused_not_lost: "valid s \<Longrightarrow> \<not> fst (put d s) \<Longrightarrow> contents (snd (put d s)) = contents s"
  using put_contents [of s d] by simp

end

section \<open>The ciphertext queue\<close>

definition cipher_contents :: "net_stack \<Rightarrow> bytes" where
  "cipher_contents s = drop (ns_tls_cipher_off s) (ns_tls_cipher_in s)"

definition cipher_valid :: "net_stack \<Rightarrow> bool" where
  "cipher_valid s \<longleftrightarrow> length (ns_tls_cipher_in s) \<le> TLS_CIPHER_RX_CAP \<and> ns_tls_cipher_off s \<le> length (ns_tls_cipher_in s)"

lemma compact_queue:
  "cipher_contents (tls_cipher_compact s) = cipher_contents s" "cipher_valid s \<Longrightarrow> cipher_valid (tls_cipher_compact s)"
  "ns_tls_cipher_in (tls_cipher_compact s) = cipher_contents s" "ns_tls_cipher_off (tls_cipher_compact s) = 0"
  by (auto simp: cipher_contents_def cipher_valid_def tls_cipher_compact_def)

lemma cipher_append_queue:
  assumes "cipher_valid s"
  shows "fst (tls_cipher_append d s) \<longleftrightarrow> length (cipher_contents s) + length d \<le> TLS_CIPHER_RX_CAP"
    and "cipher_contents (snd (tls_cipher_append d s)) = (if fst (tls_cipher_append d s) then cipher_contents s @ d else cipher_contents s)"
    and "cipher_valid (snd (tls_cipher_append d s))"
proof -
  define t where "t = (if TLS_CIPHER_RX_CAP < length (ns_tls_cipher_in s) + length d then tls_cipher_compact s else s)"
  have t: "cipher_valid t" "cipher_contents t = cipher_contents s" using assms by (simp_all add: t_def compact_queue)
  have app: "tls_cipher_append d s = (if TLS_CIPHER_RX_CAP < length (ns_tls_cipher_in t) + length d then (False, t)
      else (True, t\<lparr> ns_tls_cipher_in := ns_tls_cipher_in t @ d \<rparr>))"
    by (simp only: tls_cipher_append_def Let_def t_def)
  have len: "(length (ns_tls_cipher_in t) + length d \<le> TLS_CIPHER_RX_CAP) = (length (cipher_contents s) + length d \<le> TLS_CIPHER_RX_CAP)"
    by (auto simp: t_def compact_queue cipher_contents_def)
  show "fst (tls_cipher_append d s) \<longleftrightarrow> length (cipher_contents s) + length d \<le> TLS_CIPHER_RX_CAP"
    unfolding app len [symmetric] by auto
  show "cipher_contents (snd (tls_cipher_append d s)) = (if fst (tls_cipher_append d s) then cipher_contents s @ d else cipher_contents s)"
    using t unfolding app by (simp add: cipher_contents_def cipher_valid_def)
  show "cipher_valid (snd (tls_cipher_append d s))" using t unfolding app by (simp add: cipher_valid_def)
qed

lemma cipher_pop_queue:
  assumes "cipher_valid s"
  shows "fst (tls_cipher_pop n s) = take n (cipher_contents s)"
    and "cipher_contents (snd (tls_cipher_pop n s)) = drop n (cipher_contents s)"
    and "cipher_valid (snd (tls_cipher_pop n s))"
proof -
  let ?c = "cipher_contents s" and ?o = "ns_tls_cipher_off s"
  define k where "k = min (length ?c) n"
  define t where "t = s\<lparr> ns_tls_cipher_off := ?o + k \<rparr>"
  have len: "length ?c = length (ns_tls_cipher_in s) - ?o" by (simp add: cipher_contents_def)
  have t: "cipher_valid t" "cipher_contents t = drop n ?c"
    using assms unfolding t_def k_def cipher_valid_def cipher_contents_def by (auto simp: min_def add.commute)
  have pop: "tls_cipher_pop n s = (if length ?c = 0 then ([], s) else (slice (ns_tls_cipher_in s) ?o (?o + k),
      if length (ns_tls_cipher_in t) \<le> ns_tls_cipher_off t then t\<lparr> ns_tls_cipher_off := 0, ns_tls_cipher_in := [] \<rparr>
      else if 24576 < ns_tls_cipher_off t then tls_cipher_compact t else t))"
    unfolding tls_cipher_pop_def Let_def t_def k_def len by (simp only:)
  have "slice (ns_tls_cipher_in s) ?o (?o + k) = take n ?c" by (simp add: slice_def cipher_contents_def k_def min_def)
  then show "fst (tls_cipher_pop n s) = take n ?c" unfolding pop by simp
  have "drop n ?c = []" if "length (ns_tls_cipher_in t) \<le> ns_tls_cipher_off t" using t(2) that by (simp add: cipher_contents_def)
  then show "cipher_contents (snd (tls_cipher_pop n s)) = drop n ?c"
    using t(2) compact_queue(1) [of t] unfolding pop by (auto simp: cipher_contents_def)
  show "cipher_valid (snd (tls_cipher_pop n s))"
    using t(1) assms compact_queue(2) [OF t(1)] unfolding pop by (auto simp: cipher_valid_def)
qed

interpretation cipher: byte_queue tls_cipher_append tls_cipher_pop cipher_contents cipher_valid TLS_CIPHER_RX_CAP
  by unfold_locales
    (simp_all add: cipher_append_queue cipher_pop_queue, auto simp: cipher_valid_def cipher_contents_def)

text \<open>
  C18. The ciphertext queue between TCP and TLS is a queue: over any run of appends and pops, in any order and of
  any sizes, what was queued followed by what was accepted is what was delivered followed by what is
  queued, so that no byte is lost, repeated or reordered, also across compaction.
\<close>

theorem tls_cipher_fifo:
  assumes "net_wf s" "queue_run tls_cipher_append tls_cipher_pop ops s = (acc, out, s')"
  shows "drop (ns_tls_cipher_off s) (ns_tls_cipher_in s) @ acc = out @ drop (ns_tls_cipher_off s') (ns_tls_cipher_in s')"
proof -
  have "cipher_valid s" using net_wf_bounds [OF assms(1)] by (simp add: cipher_valid_def)
  from cipher.run_fifo [OF this assms(2)] show ?thesis by (simp add: cipher_contents_def)
qed

theorem tls_cipher_fifo_witness:
  "fst (snd (queue_run tls_cipher_append tls_cipher_pop [Put [1, 2], Get 1, Put [3], Get 8] static_initial)) = [1, 2, 3]"
proof -
  obtain acc out s' where r: "queue_run tls_cipher_append tls_cipher_pop [Put [1, 2], Get 1, Put [3], Get 8] static_initial = (acc, out, s')"
    by (metis prod.exhaust)
  then have "acc = [1, 2, 3]" "drop (ns_tls_cipher_off s') (ns_tls_cipher_in s') = []"
    by (auto simp: tls_cipher_append_def tls_cipher_pop_def static_initial_def Let_def slice_def)
  with tls_cipher_fifo [OF static_initial_wf r] r show ?thesis by (simp add: static_initial_def)
qed

section \<open>Outgoing ciphertext\<close>

text \<open>The segments of a byte sequence, each with its sequence number.\<close>

function tx_segments :: "u32 \<Rightarrow> bytes \<Rightarrow> (u32 \<times> bytes) list" where
  "tx_segments seq data = (if data = [] then [] else (seq, take 1400 data) # tx_segments (seq + of_nat (min (length data) 1400)) (drop 1400 data))"
  by pat_completeness auto
termination
  by (relation "measure (\<lambda>(seq, data). length data)") auto

declare tx_segments.simps [simp del]

lemma tx_segments_concat: "concat (map snd (tx_segments seq data)) = data"
  by (induction seq data rule: tx_segments.induct) (subst tx_segments.simps, simp)

text \<open>A card that accepts every frame; \<open>sent\<close> is what it has sent.\<close>

definition accepting :: "'d nic_ops \<Rightarrow> ('d \<Rightarrow> bytes list) \<Rightarrow> bool" where
  "accepting vio sent \<longleftrightarrow> (\<forall>f d. fst (nic_transmit vio f d) \<and> sent (snd (nic_transmit vio f d)) = sent d @ [f])"

definition segment_frame :: "net_stack \<Rightarrow> u32 \<times> bytes \<Rightarrow> bytes \<Rightarrow> bool" where
  "segment_frame s = (\<lambda>(seq, pay) f. tcp_frame_ok f (addr_our (ns_addrs s)) (ns_remote_ip s) LOCAL_PORT (ns_remote_port s) seq (ns_tcp_ack s) 0x18 pay)"

lemma w_scratch_on_net [simp]: "w_scratch (on_net f w) = w_scratch w"
  by (simp add: on_net_def)

lemma accepted_segment:
  assumes "accepting vio sent" "66 + length pay \<le> length (w_scratch w)" "length pay \<le> 1400"
    "r = send vio (build_tcp_ack_psh our_mac gw_mac addrs dst LOCAL_PORT dport seq ack pay ident) w"
  shows "0 < fst r \<and> fst (snd r) \<and> length (w_scratch (snd (snd r))) = length (w_scratch w) \<and> w_net (snd (snd r)) = w_net w
    \<and> (\<exists>f. sent (w_nic (snd (snd r))) = sent (w_nic w) @ [f] \<and> tcp_frame_ok f (addr_our addrs) dst LOCAL_PORT dport seq ack 0x18 pay)"
proof -
  obtain n out' where b: "build_tcp_ack_psh our_mac gw_mac addrs dst LOCAL_PORT dport seq ack pay ident (w_scratch w) = (n, out')" by fastforce
  have "n = 66 + length pay" "length out' = length (w_scratch w)"
    "tcp_frame_ok (take n out') (addr_our addrs) dst LOCAL_PORT dport seq ack 0x18 pay"
    using tcp_frame_valid [OF assms(2) _ b [unfolded build_tcp_ack_psh_def]] assms(3) by auto
  with assms(1,4) b show ?thesis by (auto simp: send_def Let_def split_beta accepting_def)
qed

lemma flush_loop_segments:
  assumes "accepting vio sent" "1466 \<le> length (w_scratch w)"
  shows "let w' = tls_tx_flush_loop vio our_mac w; s = w_net w; s' = w_net w'
    in ns_tls_tx_buf s' = [] \<and> ns_tcp_seq s' = ns_tcp_seq s + of_nat (length (ns_tls_tx_buf s))
      \<and> (\<exists>frames. sent (w_nic w') = sent (w_nic w) @ frames \<and> list_all2 (segment_frame s) (tx_segments (ns_tcp_seq s) (ns_tls_tx_buf s)) frames)"
  using assms(2)
proof (induction "length (ns_tls_tx_buf (w_net w))" arbitrary: w rule: less_induct)
  case less
  define s where "s = w_net w"
  define k where "k = min (length (ns_tls_tx_buf s)) 1400"
  define r where "r = send vio (build_tcp_ack_psh our_mac (ns_gw_mac s) (ns_addrs s) (ns_remote_ip s) LOCAL_PORT (ns_remote_port s)
    (ns_tcp_seq s) (ns_tcp_ack s) (take k (ns_tls_tx_buf s)) (ns_ip_id s + 1)) (on_net (\<lambda>s. s\<lparr> ns_ip_id := ns_ip_id s + 1 \<rparr>) w)"
  define w1 where "w1 = on_net (\<lambda>s. s\<lparr> ns_tcp_seq := ns_tcp_seq s + of_nat k, ns_tls_tx_buf := drop k (ns_tls_tx_buf s) \<rparr>) (snd (snd r))"
  note step = tls_tx_flush_loop.simps [of vio our_mac w, unfolded Let_def, folded s_def, folded k_def, folded r_def, folded w1_def]
  show ?case
  proof (cases "ns_tls_tx_buf s = []")
    case True
    then have "tls_tx_flush_loop vio our_mac w = w" using step by simp
    then show ?thesis using True by (simp add: s_def Let_def tx_segments.simps)
  next
    case False
    have tk: "take k (ns_tls_tx_buf s) = take 1400 (ns_tls_tx_buf s)" "drop k (ns_tls_tx_buf s) = drop 1400 (ns_tls_tx_buf s)"
      by (simp_all add: k_def min_def)
    have room: "66 + length (take k (ns_tls_tx_buf s)) \<le> length (w_scratch (on_net (\<lambda>s. s\<lparr> ns_ip_id := ns_ip_id s + 1 \<rparr>) w))"
      "length (take k (ns_tls_tx_buf s)) \<le> 1400" using less.prems by (simp_all add: k_def)
    have ok: "0 < fst r" "fst (snd r)" "length (w_scratch (snd (snd r))) = length (w_scratch w)"
        "w_net (snd (snd r)) = s\<lparr> ns_ip_id := ns_ip_id s + 1 \<rparr>"
      and "\<exists>f. sent (w_nic (snd (snd r))) = sent (w_nic w) @ [f] \<and> segment_frame s (ns_tcp_seq s, take k (ns_tls_tx_buf s)) f"
      using accepted_segment [OF assms(1) room r_def] by (auto simp: s_def segment_frame_def)
    then obtain f where f: "sent (w_nic w1) = sent (w_nic w) @ [f]" "segment_frame s (ns_tcp_seq s, take 1400 (ns_tls_tx_buf s)) f"
      by (auto simp: w1_def tk)
    have loop: "tls_tx_flush_loop vio our_mac w = tls_tx_flush_loop vio our_mac w1" using step False ok by simp
    have s1: "w_net w1 = s\<lparr> ns_ip_id := ns_ip_id s + 1, ns_tcp_seq := ns_tcp_seq s + of_nat k, ns_tls_tx_buf := drop 1400 (ns_tls_tx_buf s) \<rparr>"
      using ok by (simp add: w1_def tk)
    have sf: "segment_frame (w_net w1) = segment_frame s" by (simp add: segment_frame_def s1)
    have IH: "let w' = tls_tx_flush_loop vio our_mac w1; s = w_net w1; s' = w_net w'
      in ns_tls_tx_buf s' = [] \<and> ns_tcp_seq s' = ns_tcp_seq s + of_nat (length (ns_tls_tx_buf s))
        \<and> (\<exists>frames. sent (w_nic w') = sent (w_nic w1) @ frames \<and> list_all2 (segment_frame s) (tx_segments (ns_tcp_seq s) (ns_tls_tx_buf s)) frames)"
      by (rule less.hyps) (use False ok less.prems in \<open>auto simp: s1 s_def [symmetric] w1_def on_net_def k_def\<close>)
    have len: "of_nat k + of_nat (length (ns_tls_tx_buf s) - 1400) = (of_nat (length (ns_tls_tx_buf s)) :: u32)"
      by (simp add: k_def min_def flip: of_nat_add)
    have seg: "tx_segments (ns_tcp_seq s) (ns_tls_tx_buf s)
        = (ns_tcp_seq s, take 1400 (ns_tls_tx_buf s)) # tx_segments (ns_tcp_seq s + of_nat k) (drop 1400 (ns_tls_tx_buf s))"
      using False by (subst tx_segments.simps) (simp add: k_def)
    show ?thesis using IH f len unfolding loop seg s_def [symmetric] sf Let_def
      by (auto simp: s1 add.assoc)
  qed
qed

text \<open>
  Queued ciphertext is sent completely and in order: with a card that accepts every frame and room for a
  frame in the scratch buffer, a flush leaves the queue empty, advances the sequence number by its
  length, and sends valid TCP frames to the server whose payloads, of at most 1400 bytes, concatenate to the queued
  bytes and whose sequence numbers follow each other.
\<close>

theorem tls_flush_segments:
  assumes "accepting vio sent" "1466 \<le> length (w_scratch w)"
  shows "let w' = tls_tx_flush_all vio our_mac w; s = w_net w; s' = w_net w'; segs = tx_segments (ns_tcp_seq s) (ns_tls_tx_buf s)
    in ns_tls_tx_buf s' = [] \<and> ns_tcp_seq s' = ns_tcp_seq s + of_nat (length (ns_tls_tx_buf s))
      \<and> concat (map snd segs) = ns_tls_tx_buf s
      \<and> (\<exists>frames. sent (w_nic w') = sent (w_nic w) @ frames \<and> list_all2 (segment_frame s) segs frames)"
  using flush_loop_segments [OF assms, of our_mac] by (simp add: tls_tx_flush_all_def Let_def tx_segments_concat)

theorem tls_flush_segments_witness:
  "ns_tls_tx_buf (w_net (tls_tx_flush_all wire_nic (MAC 2 0 0 0 0 1)
     (on_net (\<lambda>s. s\<lparr> ns_tls_tx_buf := replicate 3000 0x17 \<rparr>) (boot_world [])))) = []"
proof -
  have "accepting wire_nic snd" by (simp add: accepting_def wire_nic_def split_beta)
  from tls_flush_segments [OF this, of "on_net (\<lambda>s. s\<lparr> ns_tls_tx_buf := replicate 3000 0x17 \<rparr>) (boot_world [])" "MAC 2 0 0 0 0 1"]
  show ?thesis by (simp add: Let_def boot_world_def on_net_def)
qed

end
