(* ===== verification/Eve_Net_Http.thy ===== *)
theory Eve_Net_Http
  imports Eve_Net_Reach Eve_Response
begin

text \<open>
  A response as it arrives: TCP frames from the server, each passed to the frame handler. A frame that
  passes the receiver's checks of \<open>Eve_Packets\<close> reaches the response reader with its payload and is
  acknowledged; the bookkeeping of the connection does not interfere with the reader. So what
  \<open>Eve_Response\<close> shows of segments holds of frames.
\<close>

section \<open>Frames from the server\<close>

text \<open>A received frame has no device header: the checks apply after twelve bytes in front of it.\<close>

definition tcp_from :: "bytes \<Rightarrow> ipv4 \<Rightarrow> ipv4 \<Rightarrow> u16 \<Rightarrow> u16 \<Rightarrow> u32 \<Rightarrow> u32 \<Rightarrow> u8 \<Rightarrow> bytes \<Rightarrow> bool" where
  "tcp_from frame src dst sport dport seq ack flags data \<longleftrightarrow> length frame = 54 + length data
     \<and> tcp_frame_ok (replicate 12 0 @ frame) src dst sport dport seq ack flags data"

lemma octets_IPv4: "octets a = [w, x, y, z] \<longleftrightarrow> a = IPv4 w x y z"
  by (cases a) simp

lemma slice4: "a + 3 < length xs \<Longrightarrow> b = a + 4 \<Longrightarrow> slice xs a b = [xs ! a, xs ! (a + 1), xs ! (a + 2), xs ! (a + 3)]"
  by (simp add: slice_def take_Suc_conv_app_nth numeral_eq_Suc Cons_nth_drop_Suc [symmetric])

lemma tcp_from_fields:
  assumes "tcp_from frame src dst sport dport seq ack flags data"
  shows "length frame = 54 + length data" "frame ! 12 = 0x08" "frame ! 13 = 0x00" "frame ! 14 = 0x45" "frame ! 23 = 6"
    "src = IPv4 (frame ! 26) (frame ! 27) (frame ! 28) (frame ! 29)" "dst = IPv4 (frame ! 30) (frame ! 31) (frame ! 32) (frame ! 33)"
    "of_be16 (frame ! 34) (frame ! 35) = sport" "of_be16 (frame ! 36) (frame ! 37) = dport"
    "of_be32 (frame ! 38) (frame ! 39) (frame ! 40) (frame ! 41) = seq" "frame ! 46 = 0x50" "frame ! 47 = flags" "drop 54 frame = data"
proof -
  let ?f = "replicate 12 0 @ frame"
  show len: "length frame = 54 + length data" using assms by (simp add: tcp_from_def)
  have nth: "?f ! (12 + k) = frame ! k" for k by (simp add: nth_append)
  note ok = assms [unfolded tcp_from_def tcp_frame_ok_def ip_frame_ok_def]
  have s: "slice ?f 24 26 = [frame ! 12, frame ! 13]" "slice ?f 38 42 = [frame ! 26, frame ! 27, frame ! 28, frame ! 29]"
      "slice ?f 42 46 = [frame ! 30, frame ! 31, frame ! 32, frame ! 33]"
    using len by (simp_all add: slice_shift slice4 slice_def take_Suc_conv_app_nth numeral_eq_Suc Cons_nth_drop_Suc [symmetric])
  show "frame ! 12 = 0x08" "frame ! 13 = 0x00" using ok s(1) by simp_all
  show "src = IPv4 (frame ! 26) (frame ! 27) (frame ! 28) (frame ! 29)" "dst = IPv4 (frame ! 30) (frame ! 31) (frame ! 32) (frame ! 33)"
    using ok s(2,3) octets_IPv4 by metis+
  show "frame ! 14 = 0x45" "frame ! 23 = 6" "frame ! 46 = 0x50" "frame ! 47 = flags"
    using ok nth [of 14] nth [of 23] nth [of 46] nth [of 47] by simp_all
  show "of_be16 (frame ! 34) (frame ! 35) = sport" "of_be16 (frame ! 36) (frame ! 37) = dport"
      "of_be32 (frame ! 38) (frame ! 39) (frame ! 40) (frame ! 41) = seq"
    using ok nth [of 34] nth [of 35] nth [of 36] nth [of 37] nth [of 38] nth [of 39] nth [of 40] nth [of 41]
    by (simp_all del: of_be16.simps of_be32.simps)
  show "drop 54 frame = data" using ok by simp
qed

text \<open>A data segment of the fetch reaches \<open>handle_data\<close>.\<close>

definition from_server :: "net_stack \<Rightarrow> bytes \<Rightarrow> u32 \<Rightarrow> u8 \<Rightarrow> bytes \<Rightarrow> bool" where
  "from_server s frame seq flags data \<longleftrightarrow>
     (\<exists>ack. tcp_from frame (ns_remote_ip s) (addr_our (ns_addrs s)) (ns_remote_port s) LOCAL_PORT seq ack flags data)"

lemma handle_rx_data:
  assumes "from_server (w_net w) frame seq flags data" "data \<noteq> []" "flags AND 0x04 = 0" "ns_get_sent (w_net w)"
    "ns_fetch_armed (w_net w)" "ns_dns_done (w_net w)"
  shows "handle_rx dec vio frame our_mac w = Some (handle_data dec vio data seq (flags AND 0x01 \<noteq> 0) (ns_remote_ip (w_net w)) our_mac w)"
proof -
  obtain ack where "tcp_from frame (ns_remote_ip (w_net w)) (addr_our (ns_addrs (w_net w))) (ns_remote_port (w_net w)) LOCAL_PORT seq ack flags data"
    using assms(1) by (auto simp: from_server_def)
  note f = tcp_from_fields [OF this]
  have pay: "subslice frame 54 (54 + length data) = Some data" using f(1,13) by (simp add: slice_def)
  have et: "of_be16 (frame ! 12) (frame ! 13) = ETH_P_IP" using f(2,3) by simp
  have "handle_rx dec vio frame our_mac w = handle_tcp_rx dec vio frame (ns_remote_ip (w_net w)) 20 our_mac w"
    using f(1,4-7) by (simp add: handle_rx_def et Let_def del: of_be16.simps)
  also have "\<dots> = Some (handle_data dec vio data seq (flags AND 0x01 \<noteq> 0) (ns_remote_ip (w_net w)) our_mac w)"
    using f(1) assms(2-6) pay unfolding handle_tcp_rx_def Let_def
    by (simp add: f(8,9,10,11,12) del: of_be16.simps of_be32.simps)
  finally show ?thesis .
qed

section \<open>What the reader does not look at\<close>

text \<open>
  An update of fields that the response reader neither reads nor writes. The reader commutes with it; an
  update that only writes back what a state has shows that the reader leaves those fields alone.
\<close>

locale bystander =
  fixes u :: "net_stack \<Rightarrow> net_stack"
  assumes fields [simp]:
    "ns_page (u s) = ns_page s" "ns_stream (u s) = ns_stream s" "ns_header_found (u s) = ns_header_found s"
    "ns_http_chunked (u s) = ns_http_chunked s" "ns_chunk_phase (u s) = ns_chunk_phase s" "ns_chunk_line (u s) = ns_chunk_line s"
    "ns_http_body_remaining (u s) = ns_http_body_remaining s" "ns_body_layers (u s) = ns_body_layers s"
    "ns_body_layer_count (u s) = ns_body_layer_count s" "ns_fetch_done (u s) = ns_fetch_done s" "ns_fetch_armed (u s) = ns_fetch_armed s"
    "ns_page_truncated (u s) = ns_page_truncated s" "ns_fetch_err (u s) = ns_fetch_err s" "ns_page_gen (u s) = ns_page_gen s" "ns_log (u s) = ns_log s"
    and updates:
    "(u s)\<lparr> ns_page := x1 \<rparr> = u (s\<lparr> ns_page := x1 \<rparr>)" "(u s)\<lparr> ns_stream := x1 \<rparr> = u (s\<lparr> ns_stream := x1 \<rparr>)"
    "(u s)\<lparr> ns_header_found := x2 \<rparr> = u (s\<lparr> ns_header_found := x2 \<rparr>)" "(u s)\<lparr> ns_http_chunked := x2 \<rparr> = u (s\<lparr> ns_http_chunked := x2 \<rparr>)"
    "(u s)\<lparr> ns_chunk_phase := x3 \<rparr> = u (s\<lparr> ns_chunk_phase := x3 \<rparr>)" "(u s)\<lparr> ns_chunk_line := x1 \<rparr> = u (s\<lparr> ns_chunk_line := x1 \<rparr>)"
    "(u s)\<lparr> ns_http_body_remaining := x4 \<rparr> = u (s\<lparr> ns_http_body_remaining := x4 \<rparr>)"
    "(u s)\<lparr> ns_body_layers := x5 \<rparr> = u (s\<lparr> ns_body_layers := x5 \<rparr>)" "(u s)\<lparr> ns_body_layer_count := x6 \<rparr> = u (s\<lparr> ns_body_layer_count := x6 \<rparr>)"
    "(u s)\<lparr> ns_fetch_done := x2 \<rparr> = u (s\<lparr> ns_fetch_done := x2 \<rparr>)" "(u s)\<lparr> ns_fetch_armed := x2 \<rparr> = u (s\<lparr> ns_fetch_armed := x2 \<rparr>)"
    "(u s)\<lparr> ns_page_truncated := x2 \<rparr> = u (s\<lparr> ns_page_truncated := x2 \<rparr>)" "(u s)\<lparr> ns_fetch_err := x1 \<rparr> = u (s\<lparr> ns_fetch_err := x1 \<rparr>)"
    "(u s)\<lparr> ns_page_gen := x7 \<rparr> = u (s\<lparr> ns_page_gen := x7 \<rparr>)" "(u s)\<lparr> ns_log := x8 \<rparr> = u (s\<lparr> ns_log := x8 \<rparr>)"
begin

lemma small_ops:
  "set_err msg (u s) = u (set_err msg s)" "fetch_complete (u s) = u (fetch_complete s)"
  "page_push_byte x (u s) = u (page_push_byte x s)" "chunk_line_push x (u s) = u (chunk_line_push x s)"
  by (simp_all add: set_err_def fetch_complete_def page_push_byte_def chunk_line_push_def updates)

lemma decode_layer: "decode_layer dec l (u s) = map_prod u id (decode_layer dec l s)"
  by (cases l) (auto simp: decompress_gzip_once_def decompress_zlib_once_def decompress_brotli_once_def put_page_def updates
    split: option.split sum.split inflate_error.split)

lemma decode_layers: "decode_layers dec ls (u s) = map_prod u id (decode_layers dec ls s)"
proof (induction ls arbitrary: s)
  case (Cons l ls)
  obtain s1 e where "decode_layer dec l s = (s1, e)" by fastforce
  with Cons.IH [of s1] show ?case by (cases e) (simp_all add: decode_layer)
qed simp

lemma finish: "finish_fetch dec (u s) = u (finish_fetch dec s)"
proof -
  obtain s1 e where 1: "decompress_body_layers dec s = (s1, e)" by fastforce
  obtain s2 f where 2: "decompress_gzip_once dec s = (s2, f)" by fastforce
  have "decompress_body_layers dec (u s) = (u s1, e)" "decompress_gzip_once dec (u s) = (u s2, f)"
    using 1 2 decode_layers [of dec _ s] decode_layer [of dec Gzip s] by (simp_all add: decompress_body_layers_def)
  then show ?thesis by (simp add: finish_fetch_def 1 2 small_ops updates split: option.split)
qed

lemma fold_push: "fold page_push_byte xs (u s) = u (fold page_push_byte xs s)"
  by (induction xs arbitrary: s) (simp_all add: small_ops)

lemma append_page: "append_to_page dec xs (u s) = u (append_to_page dec xs s)"
proof -
  define n where "n = min (length xs) (PAGE_CAP - length (ns_page s))"
  show ?thesis unfolding append_to_page_def Let_def fields n_def [symmetric]
    by (cases "0 < n"; cases "n < length xs"; cases "ns_http_body_remaining s") (simp_all add: updates finish)
qed

lemma chunk_byte: "chunk_byte dec x (u s) = map_prod id u (chunk_byte dec x s)"
  by (cases "ns_chunk_phase s") (simp_all add: chunk_byte_def small_ops updates finish split: option.split)

lemma chunk_run: "chunk_run dec xs (u s) = map_prod id u (chunk_run dec xs s)"
proof (induction xs arbitrary: s)
  case (Cons x xs)
  obtain c s1 where "chunk_byte dec x s = (c, s1)" by fastforce
  with Cons.IH [of s1] show ?case by (cases c) (simp_all add: chunk_byte)
qed simp

lemma chunks: "live_phase s \<Longrightarrow> ingest_chunked_bytes dec xs (u s) = u (ingest_chunked_bytes dec xs s)"
proof -
  assume s: "live_phase s"
  then have "live_phase (u s)" by (simp add: live_phase_def)
  with s show ?thesis by (simp add: ingest_run chunk_run)
qed

lemma pieces: "net_wf s \<Longrightarrow> ingest_pieces dec xs (u s) = u (ingest_pieces dec xs s)"
proof (induction dec xs s rule: ingest_pieces.induct)
  case (1 dec xs s)
  have "live_phase s" using 1 by (simp add: net_wf_defs live_phase_def)
  with 1 show ?case
    by (subst (1 2) ingest_pieces.simps) (simp add: chunks ingest_chunked_wf)
qed

lemma begin_reading: "net_wf s \<Longrightarrow> begin_body dec h xs (u s) = u (begin_body dec h xs s)"
proof -
  assume s: "net_wf s"
  have "net_wf (s\<lparr> ns_header_found := True, ns_http_chunked := True, ns_chunk_phase := SizeLine, ns_chunk_line := [] \<rparr>)"
    using s by (simp add: net_wf_defs)
  note pieces = pieces [OF this]
  show ?thesis unfolding begin_body_def Let_def
    by (simp add: updates small_ops finish fold_push pieces split: sum.split)
qed

lemma ingest: "net_wf s \<Longrightarrow> ingest_tcp_payload dec xs (u s) = u (ingest_tcp_payload dec xs s)"
proof -
  assume s: "net_wf s"
  let ?n = "min (length xs) (STREAM_CAP - length (ns_stream s))"
  define t where "t = s\<lparr> ns_stream := ns_stream s @ take ?n xs \<rparr>"
  have "length (ns_stream s) + ?n \<le> STREAM_CAP" using net_wf_bounds [OF s] by simp
  then have t: "net_wf t" using s by (simp add: net_wf_defs t_def)
  have bt: "(u s)\<lparr> ns_stream := ns_stream s @ take ?n xs \<rparr> = u t" by (simp add: t_def updates)
  have "live_phase s" using s by (simp add: net_wf_defs live_phase_def)
  then show ?thesis unfolding ingest_tcp_payload_def Let_def fields bt t_def [symmetric]
    using begin_reading [OF t] by (simp add: small_ops append_page chunks split: option.split)
qed

end

text \<open>The fields that \<open>handle_data\<close> changes beside the reader, and the fields that select the frames of a fetch.\<close>

definition book :: "u32 \<Rightarrow> u32 \<Rightarrow> u32 \<Rightarrow> u16 \<Rightarrow> net_stack \<Rightarrow> net_stack" where
  "book p b a i s = s\<lparr> ns_fetch_progress_tick := p, ns_http_bytes := b, ns_tcp_ack := a, ns_ip_id := i \<rparr>"

definition set_conn :: "net_stack \<Rightarrow> net_stack \<Rightarrow> net_stack" where
  "set_conn s' s = s\<lparr> ns_get_sent := ns_get_sent s', ns_dns_done := ns_dns_done s', ns_https_mode := ns_https_mode s',
     ns_remote_ip := ns_remote_ip s', ns_remote_port := ns_remote_port s', ns_addrs := ns_addrs s' \<rparr>"

interpretation book: bystander "book p b a i"
  by unfold_locales (simp_all add: book_def)

interpretation conn: bystander "set_conn t"
  by unfold_locales (simp_all add: set_conn_def)

definition same_conn :: "net_stack \<Rightarrow> net_stack \<Rightarrow> bool" where
  "same_conn s s' \<longleftrightarrow> ns_get_sent s' = ns_get_sent s \<and> ns_dns_done s' = ns_dns_done s \<and> ns_https_mode s' = ns_https_mode s
     \<and> ns_remote_ip s' = ns_remote_ip s \<and> ns_remote_port s' = ns_remote_port s \<and> ns_addrs s' = ns_addrs s"

lemma ingest_same_conn: "net_wf s \<Longrightarrow> same_conn s (ingest_tcp_payload dec data s)"
proof -
  assume s: "net_wf s"
  have "set_conn s s = s" by (simp add: set_conn_def)
  with conn.ingest [OF s, of dec data s] have "ingest_tcp_payload dec data s = set_conn s (ingest_tcp_payload dec data s)" by simp
  moreover have "same_conn s (set_conn s t)" for t by (simp add: same_conn_def set_conn_def)
  ultimately show ?thesis by metis
qed

section \<open>A run of frames\<close>

fun rx_frames :: "decoders \<Rightarrow> 'd nic_ops \<Rightarrow> mac \<Rightarrow> bytes list \<Rightarrow> ('d, 't) net_world \<Rightarrow> ('d, 't) net_world option" where
  "rx_frames dec vio our_mac [] w = Some w"
| "rx_frames dec vio our_mac (f # fs) w = handle_rx dec vio f our_mac w \<bind> rx_frames dec vio our_mac fs"

lemma plain_data:
  assumes "\<not> ns_https_mode (w_net w)" "net_wf (w_net w)"
  obtains p b i where "w_net (handle_data dec vio data seq False sip our_mac w)
    = book p b (seq + of_nat (length data)) i (ingest_tcp_payload dec data (w_net w))"
proof -
  let ?s = "w_net w"
  let ?p = "ns_tick ?s" and ?b = "ns_http_bytes ?s + of_nat (length data)"
  have 1: "?s\<lparr> ns_fetch_progress_tick := ?p, ns_http_bytes := ?b \<rparr> = book ?p ?b (ns_tcp_ack ?s) (ns_ip_id ?s) ?s" by (simp add: book_def)
  have "ingest_tcp_payload dec data (?s\<lparr> ns_fetch_progress_tick := ?p, ns_http_bytes := ?b \<rparr>)
      = book ?p ?b (ns_tcp_ack ?s) (ns_ip_id ?s) (ingest_tcp_payload dec data ?s)"
    unfolding 1 by (rule book.ingest [OF assms(2)])
  then have "w_net (handle_data dec vio data seq False sip our_mac w)
      = book ?p ?b (seq + of_nat (length data)) (ns_ip_id ?s + 1) (ingest_tcp_payload dec data ?s)"
    using assms(1) by (simp add: handle_data_def Let_def book_def)
  then show thesis by (rule that)
qed

definition serving :: "net_stack \<Rightarrow> bool" where
  "serving s \<longleftrightarrow> net_wf s \<and> \<not> ns_https_mode s \<and> ns_dns_done s \<and> ns_get_sent s"

definition data_frame :: "net_stack \<Rightarrow> bytes \<Rightarrow> bytes \<Rightarrow> bool" where
  "data_frame s f d \<longleftrightarrow> d \<noteq> [] \<and> (\<exists>seq. from_server s f seq 0x10 d \<or> from_server s f seq 0x18 d)"

lemma data_frame_conn: "same_conn s s' \<Longrightarrow> data_frame s' = data_frame s"
  by (intro ext) (simp add: data_frame_def from_server_def same_conn_def)

text \<open>What the frames of a response do to the stack is what their payloads do to the reader, apart from the bookkeeping.\<close>

lemma frames_read:
  assumes "serving (w_net w)" "list_all2 (data_frame (w_net w)) fs ds" "armed_run dec ds (w_net w)"
  shows "\<exists>w' p b a i. rx_frames dec vio our_mac fs w = Some w' \<and> w_net w' = book p b a i (fold (ingest_tcp_payload dec) ds (w_net w))"
  using assms
proof (induction fs arbitrary: w ds)
  case Nil
  have "w_net w = book (ns_fetch_progress_tick (w_net w)) (ns_http_bytes (w_net w)) (ns_tcp_ack (w_net w)) (ns_ip_id (w_net w)) (w_net w)"
    by (simp add: book_def)
  with Nil show ?case by auto
next
  case (Cons f fs)
  let ?s = "w_net w"
  obtain d ds' where ds: "ds = d # ds'" "data_frame ?s f d" "list_all2 (data_frame ?s) fs ds'" using Cons.prems(2) by (cases ds) auto
  then obtain seq flags where f: "from_server ?s f seq flags d" "d \<noteq> []" "flags = 0x10 \<or> flags = 0x18" by (auto simp: data_frame_def)
  let ?w1 = "handle_data dec vio d seq False (ns_remote_ip ?s) our_mac w" and ?t = "ingest_tcp_payload dec d ?s"
  have armed: "ns_fetch_armed ?s" "armed_run dec ds' ?t" using Cons.prems(3) ds(1) by simp_all
  have s: "net_wf ?s" "\<not> ns_https_mode ?s" "ns_dns_done ?s" "ns_get_sent ?s" using Cons.prems(1) by (simp_all add: serving_def)
  have "flags AND 0x04 = 0" "flags AND 0x01 = 0" using f(3) by auto
  with handle_rx_data [OF f(1,2) _ s(4) armed(1) s(3), of dec vio our_mac]
  have rx: "handle_rx dec vio f our_mac w = Some ?w1" by simp
  obtain p b i where w1: "w_net ?w1 = book p b (seq + of_nat (length d)) i ?t" using plain_data [OF s(2,1)] by blast
  have t: "net_wf ?t" "same_conn ?s ?t" using s by (simp_all add: net_wf_intros ingest_same_conn)
  have "net_wf (w_net ?w1)" unfolding w1 book_def using t(1) by simp
  moreover have conn: "same_conn ?s (w_net ?w1)" unfolding w1 using t(2) by (simp add: same_conn_def book_def)
  ultimately have "serving (w_net ?w1)" using s by (simp add: serving_def same_conn_def)
  moreover have "list_all2 (data_frame (w_net ?w1)) fs ds'" using ds(3) data_frame_conn [OF conn] by simp
  moreover have "armed_run dec ds' (book p b a i t) = armed_run dec ds' t" if "net_wf t" for t p b a i
    using that by (induction ds' arbitrary: t) (simp_all add: book.ingest net_wf_intros)
  then have "armed_run dec ds' (w_net ?w1)" unfolding w1 using t(1) armed(2) by simp
  ultimately obtain w' p' b' a' i' where w': "rx_frames dec vio our_mac fs ?w1 = Some w'"
      "w_net w' = book p' b' a' i' (fold (ingest_tcp_payload dec) ds' (w_net ?w1))"
    using Cons.IH [of ?w1 ds'] by blast
  have "fold (ingest_tcp_payload dec) ds' (book p b a i t) = book p b a i (fold (ingest_tcp_payload dec) ds' t)" if "net_wf t" for t p b a i
    using that by (induction ds' arbitrary: t) (simp_all add: book.ingest net_wf_intros)
  from this [OF t(1)] have "w_net w' = book p' b' a' i' (fold (ingest_tcp_payload dec) ds' ?t)"
    using w'(2) unfolding w1 by (simp add: book_def)
  with w'(1) rx ds(1) show ?case by (intro exI [of _ w']) auto
qed

end
