(* ===== verification/Eve_Net_Get.thy ===== *)
theory Eve_Net_Get
  imports Eve_Net_Http Eve_Net_Queue
begin

text \<open>
  The opening of a fetch: the state \<open>start_fetch\<close> leaves, the request it sends when the server accepts the
  connection, and what a repeated acceptance does.
\<close>

section \<open>A started fetch\<close>

definition get_request :: "bytes \<Rightarrow> bytes \<Rightarrow> bytes" where
  "get_request p h = concat (map (\<lambda>l. l @ crlf) [ascii ''GET '' @ p @ ascii '' HTTP/1.0'', ascii ''Host: '' @ h,
     ascii ''User-Agent: EveOS/0.1'', ascii ''Accept-Encoding: gzip, identity'', ascii ''Connection: close'']) @ crlf"

lemma http_get_fits:
  assumes "net_wf s"
  shows "http_get s = Some (get_request (ns_path s) (ns_host_header s))" "length (get_request (ns_path s) (ns_host_header s)) \<le> 356"
proof -
  let ?p = "ns_path s" and ?h = "ns_host_header s"
  have b: "length ?p \<le> 160" "length ?h \<le> 96" using assms by (simp_all add: net_wf_defs)
  have len: "length HTTP_P1 = 4" "length HTTP_P2 = 17" "length HTTP_P3 = 79"
    by (simp_all add: HTTP_P1_def HTTP_P2_def HTTP_P3_def)
  have r: "get_request ?p ?h = HTTP_P1 @ ?p @ HTTP_P2 @ ?h @ HTTP_P3" unfolding get_request_def http_pieces ..
  show "length (get_request ?p ?h) \<le> 356" using b by (simp add: r len)
  have "build_http_get ?p ?h (replicate 512 0) = Some (100 + length ?p + length ?h, get_request ?p ?h @ replicate (412 - (length ?p + length ?h)) 0)"
    using b put_fields_any [of "[]" "[(0, HTTP_P1), (4, ?p), (4 + length ?p, HTTP_P2), (21 + length ?p, ?h), (21 + length ?p + length ?h, HTTP_P3)]" "replicate 512 0"]
    by (simp add: build_http_get_def Let_def len r ac_simps)
  then show "http_get s = Some (get_request ?p ?h)" by (simp add: http_get_def r len)
qed

section \<open>The server accepts\<close>

text \<open>An acceptance with any TCP options.\<close>

definition syn_ack_from :: "bytes \<Rightarrow> ipv4 \<Rightarrow> ipv4 \<Rightarrow> u16 \<Rightarrow> u32 \<Rightarrow> bool" where
  "syn_ack_from frame src dst sport seq \<longleftrightarrow> 54 \<le> length frame \<and> slice frame 12 14 = [0x08, 0x00] \<and> frame ! 14 = 0x45 \<and> frame ! 23 = 6
     \<and> slice frame 26 30 = octets src \<and> slice frame 30 34 = octets dst
     \<and> of_be16 (frame ! 34) (frame ! 35) = sport \<and> of_be16 (frame ! 36) (frame ! 37) = LOCAL_PORT
     \<and> of_be32 (frame ! 38) (frame ! 39) (frame ! 40) (frame ! 41) = seq
     \<and> 34 + unat (drop_bit 4 (frame ! 46) AND 0x0F) * 4 \<le> length frame \<and> frame ! 47 = 0x12"

lemma handle_rx_syn_ack:
  assumes "syn_ack_from frame (ns_remote_ip (w_net w)) (addr_our (ns_addrs (w_net w))) (ns_remote_port (w_net w)) seq"
    "ns_fetch_armed (w_net w)" "ns_dns_done (w_net w)" "\<not> ns_get_sent (w_net w)"
  shows "handle_rx dec vio frame our_mac w = Some (handle_syn_ack vio seq (ns_remote_ip (w_net w)) our_mac w)"
proof -
  note f = assms(1) [unfolded syn_ack_from_def]
  have len: "54 \<le> length frame" using f by blast
  have s: "slice frame 12 14 = [frame ! 12, frame ! 13]" "slice frame 26 30 = [frame ! 26, frame ! 27, frame ! 28, frame ! 29]"
      "slice frame 30 34 = [frame ! 30, frame ! 31, frame ! 32, frame ! 33]"
    using len by (simp_all add: slice4 slice_def take_Suc_conv_app_nth numeral_eq_Suc Cons_nth_drop_Suc [symmetric])
  have et: "of_be16 (frame ! 12) (frame ! 13) = ETH_P_IP" using f s(1) by simp
  have sip: "ns_remote_ip (w_net w) = IPv4 (frame ! 26) (frame ! 27) (frame ! 28) (frame ! 29)"
      "addr_our (ns_addrs (w_net w)) = IPv4 (frame ! 30) (frame ! 31) (frame ! 32) (frame ! 33)"
    using f s(2,3) octets_IPv4 by metis+
  have "handle_rx dec vio frame our_mac w = handle_tcp_rx dec vio frame (ns_remote_ip (w_net w)) 20 our_mac w"
    using f len sip by (simp add: handle_rx_def et Let_def del: of_be16.simps)
  also have "\<dots> = Some (handle_syn_ack vio seq (ns_remote_ip (w_net w)) our_mac w)"
    using f len assms(2-4) unfolding handle_tcp_rx_def Let_def
    by (simp add: not_less del: of_be16.simps of_be32.simps)
  finally show ?thesis .
qed

lemma syn_ack_sends_get:
  fixes seq dst our_mac
  assumes "net_wf (w_net w)" "\<not> ns_https_mode (w_net w)" "accepting vio sent" "422 \<le> length (w_scratch w)"
  defines "w' \<equiv> handle_syn_ack vio seq dst our_mac w" and "s \<equiv> w_net w"
  shows "\<exists>g i. sent (w_nic w') = sent (w_nic w) @ [g]
      \<and> tcp_frame_ok g (addr_our (ns_addrs s)) dst LOCAL_PORT (ns_remote_port s) (ns_tcp_seq s + 1) (seq + 1) 0x18 (get_request (ns_path s) (ns_host_header s))
      \<and> w_net w' = s\<lparr> ns_tcp_ack := seq + 1, ns_ip_id := i, ns_get_sent := True,
          ns_tcp_seq := ns_tcp_seq s + 1 + of_nat (length (get_request (ns_path s) (ns_host_header s))) \<rparr>"
proof -
  define w1 where "w1 = on_net (\<lambda>s. s\<lparr> ns_tcp_ack := seq + 1, ns_tcp_seq := ns_tcp_seq s + 1 \<rparr>) w"
  let ?g = "get_request (ns_path s) (ns_host_header s)"
  have w1: "net_wf (w_net w1)" "w_net w1 = s\<lparr> ns_tcp_ack := seq + 1, ns_tcp_seq := ns_tcp_seq s + 1 \<rparr>" using assms(1) by (simp_all add: w1_def s_def)
  have get: "http_get (w_net w1) = Some ?g" "length ?g \<le> 356" using http_get_fits [OF w1(1)] by (simp_all add: w1(2))
  define r where "r = send vio (build_tcp_ack_psh our_mac (ns_gw_mac (w_net w1)) (ns_addrs (w_net w1)) dst LOCAL_PORT (ns_remote_port (w_net w1))
    (ns_tcp_seq (w_net w1)) (ns_tcp_ack (w_net w1)) ?g (ns_ip_id (w_net w1) + 1)) (on_net (\<lambda>s. s\<lparr> ns_ip_id := ns_ip_id s + 1 \<rparr>) w1)"
  have room: "66 + length ?g \<le> length (w_scratch (on_net (\<lambda>s. s\<lparr> ns_ip_id := ns_ip_id s + 1 \<rparr>) w1))" "length ?g \<le> 1400"
    using get(2) assms(4) by (simp_all add: w1_def)
  note a = accepted_segment [OF assms(3) room r_def]
  have "w' = on_net (\<lambda>s. s\<lparr> ns_get_sent := True, ns_tcp_seq := ns_tcp_seq s + of_nat (length ?g) \<rparr>) (snd (snd r))"
    using assms(2) get(1) a unfolding w'_def handle_syn_ack_def Let_def w1_def [symmetric] by (simp add: w1(2) s_def r_def split_beta)
  with a show ?thesis by (auto simp: w1(2)) (auto simp: w1_def)
qed

text \<open>
  A server that repeats its acceptance of an HTTPS connection, as it does when the acknowledgement was lost,
  is answered with a wrong sequence number: each acceptance received before the request was sent advances the sequence
  number again, although the SYN takes one number only, so the ciphertext that follows
  starts one byte too far.
\<close>

theorem repeated_syn_ack_skews:
  assumes "syn_ack_from frame (ns_remote_ip (w_net w)) (addr_our (ns_addrs (w_net w))) (ns_remote_port (w_net w)) seq"
    "ns_fetch_armed (w_net w)" "ns_dns_done (w_net w)" "\<not> ns_get_sent (w_net w)" "ns_https_mode (w_net w)"
  shows "\<exists>w'. rx_frames dec vio our_mac (replicate n frame) w = Some w' \<and> ns_tcp_seq (w_net w') = ns_tcp_seq (w_net w) + of_nat n"
  using assms
proof (induction n arbitrary: w)
  case (Suc n)
  let ?w = "handle_syn_ack vio seq (ns_remote_ip (w_net w)) our_mac w"
  have rx: "handle_rx dec vio frame our_mac w = Some ?w" by (rule handle_rx_syn_ack) (use Suc.prems in simp_all)
  have "ns_tcp_seq (w_net ?w) = ns_tcp_seq (w_net w) + 1" "ns_remote_ip (w_net ?w) = ns_remote_ip (w_net w)"
      "ns_addrs (w_net ?w) = ns_addrs (w_net w)" "ns_remote_port (w_net ?w) = ns_remote_port (w_net w)"
      "ns_fetch_armed (w_net ?w) = ns_fetch_armed (w_net w)" "ns_dns_done (w_net ?w) = ns_dns_done (w_net w)"
      "ns_get_sent (w_net ?w) = ns_get_sent (w_net w)" "ns_https_mode (w_net ?w) = ns_https_mode (w_net w)"
    using Suc.prems(5) by (simp_all add: handle_syn_ack_def Let_def)
  with Suc.IH [of ?w] Suc.prems rx show ?case by (auto simp: algebra_simps)
qed simp

definition sample_syn_ack :: bytes where
  "sample_syn_ack = [0, 0, 0, 0, 0, 0, 0, 0, 0, 0, 0, 0] @ [0x08, 0x00] @ [0x45, 0, 0, 44, 0, 1, 0, 0, 64, 6, 0, 0] @ [1, 1, 1, 1] @ [10, 0, 2, 15]
     @ [0x01, 0xBB] @ [0xC0, 0x00] @ [0, 0, 0, 9] @ [0, 0, 0, 1] @ [0x60, 0x12, 0xFF, 0xFF, 0, 0, 0, 0] @ [2, 4, 5, 0xB4]"

theorem repeated_syn_ack_skews_witness:
  "\<exists>w'. rx_frames no_decoders wire_nic (MAC 2 0 0 0 0 1) (replicate 2 sample_syn_ack)
     (on_net (start_fetch (ascii ''https://1.1.1.1/'')) (boot_world [])) = Some w' \<and> ns_tcp_seq (w_net w') = 2"
proof -
  let ?w = "on_net (start_fetch (ascii ''https://1.1.1.1/'')) (boot_world [])"
  have "url_target (ascii ''https://1.1.1.1/'') = Some (IPv4 1 1 1 1, 443, False, True)" by code_simp
  note f = started_fetch [OF this, of static_initial]
  have w: "w_net (boot_world []) = static_initial" by (simp add: boot_world_def)
  have init: "addr_our (ns_addrs static_initial) = IPv4 10 0 2 15" "ns_tcp_seq static_initial = 0" by (simp_all add: static_initial_def SLIRP_def)
  have "syn_ack_from sample_syn_ack (IPv4 1 1 1 1) (IPv4 10 0 2 15) 443 9"
    by (simp add: syn_ack_from_def sample_syn_ack_def slice_def)
  then have "\<exists>w'. rx_frames no_decoders wire_nic (MAC 2 0 0 0 0 1) (replicate 2 sample_syn_ack) ?w = Some w'
      \<and> ns_tcp_seq (w_net w') = ns_tcp_seq (w_net ?w) + of_nat 2"
    by (intro repeated_syn_ack_skews [where seq = 9]) (simp_all add: w f init)
  then show ?thesis by (simp add: w f init)
qed

section \<open>Frames of an example server\<close>

definition server_frame :: "ipv4 \<Rightarrow> ipv4 \<Rightarrow> u16 \<Rightarrow> u32 \<Rightarrow> u8 \<Rightarrow> bytes \<Rightarrow> bytes" where
  "server_frame src dst sport seq flags d = drop 12 (take (66 + length d) (snd (tcp_frame (MAC 2 0 0 0 0 2) (MAC 2 0 0 0 0 1) src dst sport LOCAL_PORT
     seq 1 flags 0xFFFF 7 d (replicate (66 + length d) 0))))"

lemma server_frame_valid:
  assumes "length d \<le> 65495"
  shows "tcp_from (server_frame src dst sport seq flags d) src dst sport LOCAL_PORT seq 1 flags d"
proof -
  let ?b = "replicate (66 + length d) (0 :: u8)"
  obtain n out where b: "tcp_frame (MAC 2 0 0 0 0 2) (MAC 2 0 0 0 0 1) src dst sport LOCAL_PORT seq 1 flags 0xFFFF 7 d ?b = (n, out)" by fastforce
  have ok: "n = 66 + length d" "length out = length ?b" "tcp_frame_ok (take n out) src dst sport LOCAL_PORT seq 1 flags d"
    using tcp_frame_valid [OF _ assms b] by auto
  have room: "66 + length d \<le> length ?b" by simp
  have "take 12 out = replicate 12 0" using b unfolding tcp_frame_layout [OF room] by auto
  then have "replicate 12 0 @ drop 12 (take n out) = take n out"
    using append_take_drop_id [of 12 "take n out"] ok(1) by (simp add: min_def)
  then show ?thesis using ok by (simp add: tcp_from_def server_frame_def b)
qed

lemma syn_ack_of_tcp:
  assumes "tcp_from f src dst sport LOCAL_PORT seq ack 0x12 []"
  shows "syn_ack_from f src dst sport seq"
proof -
  note fl = tcp_from_fields [OF assms]
  have "slice f 12 14 = [f ! 12, f ! 13]" "slice f 26 30 = [f ! 26, f ! 27, f ! 28, f ! 29]" "slice f 30 34 = [f ! 30, f ! 31, f ! 32, f ! 33]"
    using fl(1) by (simp_all add: slice4 slice_def take_Suc_conv_app_nth numeral_eq_Suc Cons_nth_drop_Suc [symmetric])
  then show ?thesis using fl by (simp add: syn_ack_from_def del: of_be16.simps of_be32.simps)
qed

lemma syn_ack_server_frame: "syn_ack_from (server_frame src dst sport seq 0x12 []) src dst sport seq"
  by (rule syn_ack_of_tcp [OF server_frame_valid]) simp

lemma data_server_frame:
  "d \<noteq> [] \<Longrightarrow> length d \<le> 65495 \<Longrightarrow>
    data_frame s (server_frame (ns_remote_ip s) (addr_our (ns_addrs s)) (ns_remote_port s) seq 0x18 d) d"
  unfolding data_frame_def from_server_def using server_frame_valid by blast

end
