(* ===== verification/Eve_Net_Dhcp.thy ===== *)
theory Eve_Net_Dhcp
  imports Eve_Net_Http Eve_Net_Queue
begin

text \<open>
  DHCP: how the options of a reply are read, and the exchange of offer, request and acknowledgement that gives
  the stack its addresses.
\<close>

section \<open>Options\<close>

text \<open>Options on the wire: tag, length, value; a pad is a single zero byte.\<close>

datatype dhcp_item = Pad | Opt u8 bytes

fun item_wire :: "dhcp_item \<Rightarrow> bytes" where
  "item_wire Pad = [0]"
| "item_wire (Opt tag v) = tag # of_nat (length v) # v"

fun item_ok :: "dhcp_item \<Rightarrow> bool" where
  "item_ok Pad \<longleftrightarrow> True"
| "item_ok (Opt tag v) \<longleftrightarrow> tag \<noteq> 0 \<and> tag \<noteq> 255 \<and> length v < 256"

definition addr_of :: "bytes \<Rightarrow> ipv4" where
  "addr_of v = IPv4 (v ! 0) (v ! 1) (v ! 2) (v ! 3)"

text \<open>The meaning of an item: a later one of a kind replaces an earlier one, one that is too short is ignored.\<close>

fun item_effect :: "dhcp_item \<Rightarrow> dhcp_opts \<Rightarrow> dhcp_opts" where
  "item_effect Pad os = os"
| "item_effect (Opt tag v) os =
     (if tag = 53 \<and> 1 \<le> length v then os\<lparr> dhcp_msg := v ! 0 \<rparr>
      else if tag = 54 \<and> 4 \<le> length v then os\<lparr> dhcp_sid := Some (addr_of v) \<rparr>
      else if tag = 3 \<and> 4 \<le> length v then os\<lparr> dhcp_router := Some (addr_of v) \<rparr>
      else if tag = 6 \<and> 4 \<le> length v then os\<lparr> dhcp_dns := Some (addr_of v) \<rparr>
      else os)"

lemma dhcp_option_effect:
  assumes "bootp = pre @ [tag, ln] @ v @ rest"
  shows "dhcp_option bootp tag (length v) (length pre + 2) os = Some (item_effect (Opt tag v) os)"
proof -
  have nth: "bootp ! (length pre + 2 + k) = v ! k" if "k < length v" for k
    using that by (simp add: assms nth_append)
  have len: "length bootp = length pre + 2 + length v + length rest" by (simp add: assms)
  have addr: "read_addr bootp (length pre + 2) = Some (addr_of v)" if "4 \<le> length v" "v \<noteq> []"
    using that len nth [of 0] nth [of 1] nth [of 2] nth [of 3] by (simp add: addr_of_def add.assoc)
  have "index bootp (length pre + 2) = Some (v ! 0)" if "v \<noteq> []"
    using that len nth [of 0] by simp
  with addr show ?thesis by (cases "v = []") (simp_all add: dhcp_option_def)
qed

lemma dhcp_options_items:
  assumes "list_all item_ok items" "bootp = pre @ concat (map item_wire items) @ 255 # rest" "int (length bootp) < USIZE_MAX"
  shows "dhcp_options bootp (length pre) os = Some (fold item_effect items os)"
  using assms
proof (induction items arbitrary: pre os)
  case Nil
  then show ?case by (subst dhcp_options.simps) simp
next
  case (Cons x items)
  show ?case
  proof (cases x)
    case Pad
    have "dhcp_options bootp (length pre) os = dhcp_options bootp (length (pre @ [0])) os"
      using Cons.prems(2) Pad by (subst dhcp_options.simps) simp
    also have "\<dots> = Some (fold item_effect items os)"
      by (rule Cons.IH) (use Cons.prems Pad in simp_all)
    finally show ?thesis using Pad by simp
  next
    case (Opt tag v)
    have ok: "tag \<noteq> 0" "tag \<noteq> 255" "length v < 256" using Cons.prems(1) Opt by simp_all
    have b: "bootp = pre @ [tag, of_nat (length v)] @ v @ concat (map item_wire items) @ 255 # rest" using Cons.prems(2) Opt by simp
    have ln: "unat (of_nat (length v) :: u8) = length v" using ok(3) by (simp add: unat_of_nat take_bit_eq_mod)
    have at: "bootp ! length pre = tag" "bootp ! (length pre + 1) = of_nat (length v)" by (simp_all add: b nth_append)
    have len: "length pre + 2 + length v < length bootp" "length pre < length bootp" "length pre + 1 < length bootp" by (simp_all add: b)
    have "dhcp_options bootp (length pre) os = dhcp_options bootp (length pre + 2 + length v) (item_effect (Opt tag v) os)"
      using len ok less_saturating_add [OF Cons.prems(3), of "length pre + 2" "length v"] dhcp_option_effect [OF b, of os] at ln
      by (subst dhcp_options.simps) (simp add: Let_def del: item_effect.simps)
    also have "length pre + 2 + length v = length (pre @ [tag, of_nat (length v)] @ v)" by simp
    also have "dhcp_options bootp \<dots> (item_effect (Opt tag v) os) = Some (fold item_effect items (item_effect (Opt tag v) os))"
      by (rule Cons.IH) (use Cons.prems b in simp_all)
    finally show ?thesis using Opt by simp
  qed
qed

section \<open>Replies\<close>

text \<open>A reply of a server; \<open>x\<close>, \<open>y\<close>, \<open>z\<close> and \<open>t\<close> are fields the stack does not read.\<close>

definition bootp_reply :: "u32 \<Rightarrow> mac \<Rightarrow> ipv4 \<Rightarrow> ipv4 \<Rightarrow> bytes \<Rightarrow> bytes \<Rightarrow> bytes \<Rightarrow> bytes \<Rightarrow> bytes \<Rightarrow> dhcp_item list \<Rightarrow> bytes" where
  "bootp_reply xid m yi si x y z t rest items = 2 # x @ to_be32 xid @ y @ octets yi @ octets si @ z @ mac_bytes m @ t
     @ [99, 130, 83, 99] @ concat (map item_wire items) @ 255 # rest"

definition reply_ok :: "bytes \<Rightarrow> bytes \<Rightarrow> bytes \<Rightarrow> bytes \<Rightarrow> bool" where
  "reply_ok x y z t \<longleftrightarrow> length x = 3 \<and> length y = 8 \<and> length z = 4 \<and> length t = 202"

lemma read_addr_middle: "length pre = k \<Longrightarrow> read_addr (pre @ octets a @ rest) k = Some a"
  by (cases a) (simp add: nth_append)

lemma handle_reply:
  assumes "reply_ok x y z t" "list_all item_ok items" "bootp = bootp_reply (ns_dhcp_xid (w_net w)) our_mac yi si x y z t rest items"
    "3 \<le> length (concat (map item_wire items))" "int (length bootp) < USIZE_MAX"
  shows "handle_dhcp_reply vio bootp our_mac w = (let os = fold item_effect items no_opts
    in case ns_dhcp_phase (w_net w) of
         WaitOffer \<Rightarrow>
           if dhcp_msg os = 2 then
             (case dhcp_sid os of
                None \<Rightarrow> Some w
              | Some sid \<Rightarrow> Some (dhcp_send_request vio our_mac (on_net (\<lambda>s. s\<lparr> ns_dhcp_server_id := sid,
                  ns_dhcp_offer_yi := yi, ns_dhcp_phase := WaitAck, ns_dhcp_phase_start_tick := ns_tick s,
                  ns_dhcp_last_tx_tick := ns_tick s \<rparr>) w)))
           else Some w
       | WaitAck \<Rightarrow> if dhcp_msg os = 5 then Some (on_net (dhcp_bind yi si os) w) else Some w
       | _ \<Rightarrow> Some w)"
proof -
  let ?i = "concat (map item_wire items) @ 255 # rest" and ?m = "[99, 130, 83, 99] :: bytes"
  let ?xid = "to_be32 (ns_dhcp_xid (w_net w))"
  note b = assms(3) [unfolded bootp_reply_def]
  have l: "length x = 3" "length y = 8" "length z = 4" "length t = 202" using assms(1) by (simp_all add: reply_ok_def)
  have len: "244 \<le> length bootp" "bootp \<noteq> []" using l assms(4) by (simp_all add: b)
  have "bootp = (2 # x) @ ?xid @ (y @ octets yi @ octets si @ z @ mac_bytes our_mac @ t @ ?m @ ?i)" by (simp add: b)
  then have xid: "of_be32 (bootp ! 4) (bootp ! 5) (bootp ! 6) (bootp ! 7) = ns_dhcp_xid (w_net w)"
    using l(1) by (simp add: nth_append to_be32_def del: of_be32.simps)
  have yi: "read_addr bootp 16 = Some yi"
    using read_addr_middle [of "2 # x @ ?xid @ y" 16 yi "octets si @ z @ mac_bytes our_mac @ t @ ?m @ ?i"] l by (simp add: b)
  have si: "read_addr bootp 20 = Some si"
    using read_addr_middle [of "2 # x @ ?xid @ y @ octets yi" 20 si "z @ mac_bytes our_mac @ t @ ?m @ ?i"] l by (simp add: b)
  have hw: "slice bootp 28 34 = mac_bytes our_mac"
    using slice_middle [of "2 # x @ ?xid @ y @ octets yi @ octets si @ z" 28 34 "mac_bytes our_mac" "t @ ?m @ ?i"] l by (simp add: b)
  have mg: "slice bootp 236 240 = ?m"
    using slice_middle [of "2 # x @ ?xid @ y @ octets yi @ octets si @ z @ mac_bytes our_mac @ t" 236 240 ?m ?i] l by (simp add: b)
  have os: "dhcp_options bootp 240 no_opts = Some (fold item_effect items no_opts)"
    using dhcp_options_items [OF assms(2), of bootp "2 # x @ ?xid @ y @ octets yi @ octets si @ z @ mac_bytes our_mac @ t @ ?m" rest no_opts] assms(5) l
    by (simp add: b)
  have op: "bootp ! 0 = 2" by (simp add: b)
  show ?thesis unfolding handle_dhcp_reply_def Let_def
    using len by (simp add: op xid yi si hw mg os del: of_be32.simps split: dhcp_phase.split)
qed

section \<open>Frames from the server\<close>

definition udp_from :: "bytes \<Rightarrow> ipv4 \<Rightarrow> ipv4 \<Rightarrow> u16 \<Rightarrow> u16 \<Rightarrow> bytes \<Rightarrow> bool" where
  "udp_from frame src dst sport dport data \<longleftrightarrow> length frame = 42 + length data
     \<and> udp_frame_ok (replicate 12 0 @ frame) src dst sport dport data"

lemma handle_rx_dhcp:
  assumes "udp_from frame src dst 67 68 data" "dhcp_active (w_net w)"
  shows "handle_rx dec vio frame our_mac w = handle_dhcp_reply vio data our_mac w"
proof -
  let ?f = "replicate 12 0 @ frame"
  have len: "length frame = 42 + length data" using assms(1) by (simp add: udp_from_def)
  have nth: "?f ! (12 + k) = frame ! k" for k by (simp add: nth_append)
  note ok = assms(1) [unfolded udp_from_def udp_frame_ok_def ip_frame_ok_def]
  have "slice ?f 24 26 = [frame ! 12, frame ! 13]"
    using len by (simp add: slice_shift slice_def take_Suc_conv_app_nth numeral_eq_Suc Cons_nth_drop_Suc [symmetric])
  then have et: "of_be16 (frame ! 12) (frame ! 13) = ETH_P_IP" using ok by simp
  have b: "frame ! 14 = 0x45" "frame ! 23 = 17" using ok nth [of 14] nth [of 23] by simp_all
  have ports: "of_be16 (frame ! 34) (frame ! 35) = 67" "of_be16 (frame ! 36) (frame ! 37) = 68"
      "unat (of_be16 (frame ! 38) (frame ! 39)) = 8 + length data"
    using ok len nth [of 34] nth [of 35] nth [of 36] nth [of 37] nth [of 38] nth [of 39] by (simp_all del: of_be16.simps)
  have "drop 42 frame = data" using ok by simp
  then have "slice frame 42 (42 + length data) = data" using len by (simp add: slice_def)
  then show ?thesis using len assms(2)
    by (simp add: handle_rx_def et b Let_def dhcp_frame_def ports del: of_be16.simps)
qed

lemma request_sent:
  assumes "accepting vio sent" "310 \<le> length (w_scratch w)"
  shows "\<exists>r. sent (w_nic (dhcp_send_request vio our_mac w)) = sent (w_nic w) @ [r]
    \<and> udp_frame_ok r (IPv4 0 0 0 0) (IPv4 255 255 255 255) 68 67 (dhcp_message (ns_dhcp_xid (w_net w)) our_mac 3
        (Some (ns_dhcp_server_id (w_net w))) (Some (ns_dhcp_offer_yi (w_net w))))"
proof -
  let ?m = "dhcp_message (ns_dhcp_xid (w_net w)) our_mac 3 (Some (ns_dhcp_server_id (w_net w))) (Some (ns_dhcp_offer_yi (w_net w)))"
  have len: "length ?m \<le> 256" by (simp add: dhcp_message_def length_dhcp_opt)
  obtain n out where b: "build_dhcp_packet our_mac ZERO_ADDRS (ns_dhcp_xid (w_net w)) our_mac 3 (Some (ns_dhcp_server_id (w_net w)))
      (Some (ns_dhcp_offer_yi (w_net w))) (w_scratch w) = (n, out)" by fastforce
  then have "udp_frame our_mac (MAC 0xFF 0xFF 0xFF 0xFF 0xFF 0xFF) (IPv4 0 0 0 0) (IPv4 255 255 255 255) 68 67 0 ?m (w_scratch w) = (n, out)"
    by (simp add: build_dhcp_packet_def dhcp_body_eq ZERO_ADDRS_def)
  with udp_frame_total [of ?m "54 + length ?m" our_mac "MAC 0xFF 0xFF 0xFF 0xFF 0xFF 0xFF" "IPv4 0 0 0 0" "IPv4 255 255 255 255" 68 67 0 "w_scratch w"] len assms(2)
  have "n = 54 + length ?m" "udp_frame_ok (take n out) (IPv4 0 0 0 0) (IPv4 255 255 255 255) 68 67 ?m" by (auto simp: Let_def)
  with assms(1) b show ?thesis
    by (auto simp: dhcp_send_request_def send_ignore_def send_def Let_def split_beta accepting_def)
qed

text \<open>
  C16. DHCP gives the stack its addresses: while it waits for an offer, an offer of a server, with any further
  options and paddings, makes it ask that server for the offered address with one valid request, and
  the server's acknowledgement then binds the stack to the acknowledged address, with the gateway of its
  options and their DNS server, or the gateway for DNS where they name none.
\<close>

theorem dhcp_lease:
  assumes "ns_dhcp_phase (w_net w) = WaitOffer" "accepting vio sent" "310 \<le> length (w_scratch w)"
    "udp_from f1 src1 dst1 67 68 (bootp_reply (ns_dhcp_xid (w_net w)) our_mac yi si1 x y z t rest1 offer)"
    "udp_from f2 src2 dst2 67 68 (bootp_reply (ns_dhcp_xid (w_net w)) our_mac yi2 si2 x y z t rest2 ack)"
    "reply_ok x y z t" "list_all item_ok offer" "list_all item_ok ack" "length f1 \<le> 2048" "length f2 \<le> 2048"
    "dhcp_msg (fold item_effect offer no_opts) = 2" "dhcp_sid (fold item_effect offer no_opts) = Some sid"
    "dhcp_msg (fold item_effect ack no_opts) = 5"
    "dhcp_router (fold item_effect ack no_opts) = Some gw" "gw \<noteq> IPv4 0 0 0 0"
  shows "\<exists>w1 r w2. handle_rx dec vio f1 our_mac w = Some w1 \<and> sent (w_nic w1) = sent (w_nic w) @ [r]
    \<and> udp_frame_ok r (IPv4 0 0 0 0) (IPv4 255 255 255 255) 68 67 (dhcp_message (ns_dhcp_xid (w_net w)) our_mac 3 (Some sid) (Some yi))
    \<and> handle_rx dec vio f2 our_mac w1 = Some w2 \<and> ns_dhcp_phase (w_net w2) = Bound \<and> ns_fetch_err (w_net w2) = [] \<and> \<not> ns_gw_known (w_net w2)
    \<and> ns_addrs (w_net w2) = \<lparr> addr_our = yi2, addr_gw = gw,
        addr_dns = (case dhcp_dns (fold item_effect ack no_opts) of Some a \<Rightarrow> a | None \<Rightarrow> gw) \<rparr>"
proof -
  have three: "3 \<le> length (concat (map item_wire items))" if "dhcp_msg (fold item_effect items no_opts) \<noteq> 0" for items
  proof (rule ccontr)
    have none: "dhcp_msg (fold item_effect items os) = dhcp_msg os" if "length (concat (map item_wire items)) < 3" for os
      using that
    proof (induction items arbitrary: os)
      case (Cons x items)
      then have "length (concat (map item_wire items)) < 3" by simp
      moreover have "dhcp_msg (item_effect x os) = dhcp_msg os" using Cons.prems by (cases x) auto
      ultimately show ?case using Cons.IH [of "item_effect x os"] by simp
    qed simp
    assume "\<not> ?thesis"
    with none [of no_opts] that show False by (simp add: no_opts_def)
  qed
  have sz: "int (length b) < USIZE_MAX" if "udp_from f s d 67 68 b" "length f \<le> 2048" for f s d b
    using that by (simp add: udp_from_def USIZE_MAX_def)
  let ?upd = "\<lambda>s. s\<lparr> ns_dhcp_server_id := sid, ns_dhcp_offer_yi := yi, ns_dhcp_phase := WaitAck, ns_dhcp_phase_start_tick := ns_tick s,
    ns_dhcp_last_tx_tick := ns_tick s \<rparr>"
  define w1 where "w1 = dhcp_send_request vio our_mac (on_net ?upd w)"
  have w1: "w_net w1 = ?upd (w_net w)" by (simp add: w1_def dhcp_send_request_def)
  have "dhcp_active (w_net w)" using assms(1) by (simp add: dhcp_active_def)
  from handle_rx_dhcp [OF assms(4) this] have 1: "handle_rx dec vio f1 our_mac w = Some w1"
    using handle_reply [OF assms(6,7), of _ w our_mac yi si1 rest1 vio] three [of offer] sz [OF assms(4,9)] assms(1,11,12)
    by (simp add: Let_def w1_def)
  obtain r where r: "sent (w_nic w1) = sent (w_nic w) @ [r]"
      "udp_frame_ok r (IPv4 0 0 0 0) (IPv4 255 255 255 255) 68 67 (dhcp_message (ns_dhcp_xid (w_net w)) our_mac 3 (Some sid) (Some yi))"
    using request_sent [OF assms(2), of "on_net ?upd w" our_mac] assms(3) by (auto simp: w1_def)
  have "dhcp_active (w_net w1)" by (simp add: dhcp_active_def w1)
  from handle_rx_dhcp [OF assms(5) this]
  have "handle_rx dec vio f2 our_mac w1 = Some (on_net (dhcp_bind yi2 si2 (fold item_effect ack no_opts)) w1)"
    using handle_reply [OF assms(6,8), of _ w1 our_mac yi2 si2 rest2 vio] three [of ack] sz [OF assms(5,10)] assms(13) by (simp add: w1 Let_def)
  then show ?thesis using 1 r assms(14,15)
    by (intro exI [of _ w1] exI [of _ r] exI [of _ "on_net (dhcp_bind yi2 si2 (fold item_effect ack no_opts)) w1"])
      (simp add: dhcp_bind_def Let_def w1)
qed

text \<open>Frames of an example server.\<close>

definition server_datagram :: "bytes \<Rightarrow> bytes" where
  "server_datagram d = drop 12 (take (54 + length d) (snd (udp_frame (MAC 2 0 0 0 0 2) (MAC 2 0 0 0 0 1) (IPv4 10 0 2 2) (IPv4 255 255 255 255) 67 68 7 d
     (replicate (54 + length d) 0))))"

lemma server_datagram_valid:
  assumes "length d \<le> 65507"
  shows "udp_from (server_datagram d) (IPv4 10 0 2 2) (IPv4 255 255 255 255) 67 68 d"
proof -
  let ?b = "replicate (54 + length d) (0 :: u8)"
  obtain n out where b: "udp_frame (MAC 2 0 0 0 0 2) (MAC 2 0 0 0 0 1) (IPv4 10 0 2 2) (IPv4 255 255 255 255) 67 68 7 d ?b = (n, out)" by fastforce
  have room: "54 + length d \<le> length ?b" by simp
  have ok: "n = 54 + length d" "length out = length ?b" "udp_frame_ok (take n out) (IPv4 10 0 2 2) (IPv4 255 255 255 255) 67 68 d"
    using udp_frame_valid [OF room assms b] by auto
  have "take 12 out = replicate 12 0" using b unfolding udp_frame_layout [OF room] by auto
  then have "replicate 12 0 @ drop 12 (take n out) = take n out"
    using append_take_drop_id [of 12 "take n out"] ok(1) by (simp add: min_def)
  then show ?thesis using ok by (simp add: udp_from_def server_datagram_def b)
qed

theorem dhcp_lease_witness:
  "\<exists>w1 w2. handle_rx no_decoders wire_nic (server_datagram (bootp_reply 5 (MAC 2 0 0 0 0 1) (IPv4 10 0 2 40) (IPv4 0 0 0 0) (replicate 3 0) (replicate 8 0)
      (replicate 4 0) (replicate 202 0) [] [Opt 53 [2], Opt 54 [10, 0, 2, 2]])) (MAC 2 0 0 0 0 1)
      (on_net (\<lambda>s. s\<lparr> ns_dhcp_phase := WaitOffer, ns_dhcp_xid := 5 \<rparr>) (boot_world [])) = Some w1
    \<and> handle_rx no_decoders wire_nic (server_datagram (bootp_reply 5 (MAC 2 0 0 0 0 1) (IPv4 10 0 2 40) (IPv4 0 0 0 0) (replicate 3 0) (replicate 8 0)
      (replicate 4 0) (replicate 202 0) [] [Opt 53 [5], Pad, Opt 3 [10, 0, 2, 1]])) (MAC 2 0 0 0 0 1) w1 = Some w2
    \<and> ns_addrs (w_net w2) = \<lparr> addr_our = IPv4 10 0 2 40, addr_gw = IPv4 10 0 2 1, addr_dns = IPv4 10 0 2 1 \<rparr>"
proof -
  let ?w = "on_net (\<lambda>s. s\<lparr> ns_dhcp_phase := WaitOffer, ns_dhcp_xid := 5 \<rparr>) (boot_world [])"
  let ?b = "bootp_reply 5 (MAC 2 0 0 0 0 1) (IPv4 10 0 2 40) (IPv4 0 0 0 0) (replicate 3 0) (replicate 8 0) (replicate 4 0) (replicate 202 0) []"
  let ?o = "[Opt 53 [2], Opt 54 [10, 0, 2, 2]]" and ?a = "[Opt 53 [5], Pad, Opt 3 [10, 0, 2, 1]]"
  have acc: "accepting wire_nic snd" by (simp add: accepting_def wire_nic_def split_beta)
  have len: "length (?b ?o) \<le> 300" "length (?b ?a) \<le> 300" by (simp_all add: bootp_reply_def)
  have 1: "udp_from (server_datagram (?b ?o)) (IPv4 10 0 2 2) (IPv4 255 255 255 255) 67 68 (?b ?o)"
    by (rule server_datagram_valid) (use len in simp)
  have 2: "udp_from (server_datagram (?b ?a)) (IPv4 10 0 2 2) (IPv4 255 255 255 255) 67 68 (?b ?a)"
    by (rule server_datagram_valid) (use len in simp)
  have sz: "length (server_datagram (?b ?o)) \<le> 2048" "length (server_datagram (?b ?a)) \<le> 2048"
    using 1 2 len by (simp_all add: udp_from_def)
  have xid: "ns_dhcp_xid (w_net ?w) = 5" by simp
  have ok: "reply_ok (replicate 3 0) (replicate 8 0) (replicate 4 0) (replicate 202 0)" by (simp add: reply_ok_def)
  from dhcp_lease [of ?w wire_nic snd, unfolded xid, OF _ acc _ 1 2 ok _ _ sz, of "IPv4 10 0 2 2" "IPv4 10 0 2 1" no_decoders]
  show ?thesis by (auto simp: addr_of_def no_opts_def boot_world_def)
qed

end
