(* ===== verification/Spec2Isabelle.thy ===== *)
theory Spec2Isabelle
  imports Eve_Install Eve_Log Eve_Script Eve_Dom Eve_Dns Eve_Http Eve_Url Eve_Clock
    Eve_Net_Card Eve_Main_Laws Eve_Input_Laws Eve_Input_Queue Eve_Response Eve_Net_Live Eve_Net_Queue Eve_Net_Get Eve_Net_Dhcp
begin

text \<open>
  Verification of the Eve kernel (\<open>src/kernel/src\<close>), a bare-metal x86 and ARM system with a frame buffer
  user interface, a small browser, settings on disk and a disk installer. The development models the parts that
  carry the logic: settings and their persistence, the VirtIO block and network drivers with PCI, the installer, the log, the script machine, the
  text tree, URLs, packets, DNS, HTTP, the network stack with its TLS bridge, the HTML reader, keyboards and mice, the state of the
  user interface and the main loop that connects them.

  \<^bold>\<open>How the parts interact.\<close> A round of the main loop (\<open>main.rs\<close>, and \<open>arm_run.rs\<close> on ARM)
  reads the keyboards and mice, delivers clicks to the interface (\<open>gfx.rs\<close>), carries out what they asked for (power, a fetch, an installation),
  steps the network stack with \<open>NetStack::drive\<close>, shows a page that has arrived, and saves the settings when asked to.
  \<open>drive\<close> applies changed settings, drains the card through \<open>handle_rx\<close>, and advances DHCP, ARP, DNS, TCP and the
  fetch. \<open>start_fetch\<close> parses a URL (\<open>url.rs\<close>) and arms a fetch; received segments reach the response reader, directly or,
  for HTTPS, through queues and the TLS library. The page it leaves is read by \<open>format_document\<close> (\<open>html.rs\<close>) into the lines the browser
  shows. Every error is logged (\<open>diag_log.rs\<close>, \<open>log_buffer.rs\<close>). The settings are encoded in a
  512 byte blob (\<open>settings_persist.rs\<close>) stored in a sector of a VirtIO disk (\<open>virtio_blk.rs\<close>); the installer clones one disk to
  another sector by sector and then patches the boot flags (\<open>gpt_boot_patch.rs\<close>).

  \<^bold>\<open>Theories and sources.\<close>
  \<^item> \<open>Eve_Prelude\<close>: machine types, slices and in-place writes with the panic as \<open>None\<close>, endian conversion, decimal texts.
  \<^item> \<open>Eve_Url\<close> (\<open>url.rs\<close>): the parser of fetch URLs; accepted URLs are well formed, every well-formed URL is accepted
    with its parts, dotted addresses are exactly the accepted ones.
  \<^item> \<open>Eve_Settings\<close> (\<open>settings.rs\<close>, \<open>cursor_emoji.rs\<close>): the settings record, its enumerations and cycling controls, an invariant of reachable settings.
  \<^item> \<open>Eve_Persist\<close> (\<open>settings_persist.rs\<close>): encoder and decoders of the blob; round trip, detection of a changed byte, invariant on any input.
  \<^item> \<open>Eve_Virtio_Blk\<close> (\<open>virtio_blk.rs\<close>): requests over the ring shared with the device. The locale of block devices is interpreted
    on the driver; a conforming device is a hypothesis with the behaviour of the VirtIO standard.
  \<^item> \<open>Eve_Gpt\<close> (\<open>settings_persist_disk.rs\<close>, \<open>gpt_boot_patch.rs\<close>): settings on disk and the boot patch with its checksums.
  \<^item> \<open>Eve_Install\<close> (\<open>main.rs\<close>, the disk install block): the install state machine clones every sector and ends.
  \<^item> \<open>Eve_Log\<close> (\<open>log_buffer.rs\<close>, \<open>diag_log.rs\<close>): the ring refines the list of the last 512 lines; each logging call adds one line.
  \<^item> \<open>Eve_Script\<close> (\<open>script_runtime.rs\<close>): the stack machine over instructions and over bytecode, equal on assembled programs.
  \<^item> \<open>Eve_Dom\<close> (\<open>dom.rs\<close>): the text tree holds the lines of the page.
  \<^item> \<open>Eve_Packets\<close>, \<open>Eve_Dns\<close>, \<open>Eve_Http\<close> (the free functions of \<open>net.rs\<close>): checksums, frame builders, DNS names, queries and
    answers, DHCP messages, requests, header fields, chunk sizes, content codings, gzip members.
  \<^item> \<open>Eve_Clock\<close> (\<open>hal/timer.rs\<close>, \<open>eve_tls.rs\<close>): tick counters, the certificate clock, the random generator.
  \<^item> \<open>Eve_Net\<close>, \<open>Eve_Net_Rx\<close> (\<open>impl NetStack\<close> of \<open>net.rs\<close>, \<open>net_ipv4.rs\<close>, the bridge of \<open>eve_tls.rs\<close>): the state of the stack and every method.
  \<^item> \<open>Eve_Fetch\<close>, \<open>Eve_Response\<close>: the response reader decodes chunked and plain responses however they are cut.
  \<^item> \<open>Eve_Net_Inv\<close>, \<open>Eve_Net_Reach\<close>: the invariant of the stack, no panic on any frame, reachable states, termination of \<open>drive\<close>.
  \<^item> \<open>Eve_Net_Live\<close>: time-outs on a silent network, and the phase that has none.
  \<^item> \<open>Eve_Net_Queue\<close>: the locale \<open>byte_queue\<close>, interpreted on the ciphertext queue; segments of outgoing ciphertext.
  \<^item> \<open>Eve_Net_Http\<close>, \<open>Eve_Net_Get\<close>, \<open>Eve_Net_Dhcp\<close>: frames from conforming peers: responses, the opening of a connection, a lease. The locale
    \<open>bystander\<close> states which updates the reader does not notice; it is interpreted on the bookkeeping of a connection.
  \<^item> \<open>Eve_Html_Css\<close>, \<open>Eve_Html_Lines\<close>, \<open>Eve_Html\<close> (\<open>html.rs\<close>): colours, inline styles, rules and attributes; line buffers, plain text and
    character references; \<open>format_document\<close> as a loop of turns over its local state. \<open>Eve_Html_Doc\<close> holds the properties: every document
    is formatted within all bounds, text is wrapped, paragraphs are shown, hidden elements and scripts are not, style sheets have no effect.
  \<^item> \<open>Eve_Input\<close> (\<open>ps2.rs\<close>, \<open>usb_hid\<close>, \<open>usb_common.rs\<close>, \<open>arm_input.rs\<close>): the PS/2 controller and its byte decoders, the key tables, the queue
    of USB key presses, the walks over USB descriptors. \<open>Eve_Input_Laws\<close>: mouse packets and keyboard bytes do not disturb each other, both
    keyboards reach all characters, shift sticks in scan code set 1. \<open>Eve_Input_Queue\<close>: the locale \<open>key_queue\<close>, interpreted on the USB
    ring and on the ARM buffer; no key press is lost or repeated.
  \<^item> \<open>Eve_Ui\<close>, \<open>Eve_Ui_Click\<close> (\<open>gfx.rs\<close>): the record of the interface, its history, layout, notices and scroll offsets; \<open>handle_click_at\<close>
    as a walk over the rows of a panel. \<open>Eve_Ui_Inv\<close>: the invariant, no click panics; the locale \<open>browsing\<close>, interpreted on the
    history: back and forward are inverse to a visit that is recorded, and which visits are not.
  \<^item> \<open>Eve_Main\<close> (\<open>main.rs\<close>, \<open>arm_run.rs\<close>, \<open>theme.rs\<close>): text entry, function keys, pointers, clicks, requests, the page, the status line, the disks at boot, a
    round on x86 and a step on ARM. \<open>Eve_Main_Inv\<close>: the invariant of the whole kernel holds in every state reachable from boot, and no
    round panics or runs on. \<open>Eve_Main_Laws\<close>: notices first, a typed URL is fetched, pages are shown, scrolling is exact, and a save without a disk.
  \<^item> \<open>Eve_Virtio_Net\<close> (\<open>virtio_net.rs\<close>): the receive and the transmit queue of the network driver. The locale \<open>network_card\<close> is what the
    stack relies on; the driver on any conforming device (\<open>net_device\<close>) provides it: no frame is lost, repeated, reordered or changed.
    \<open>Eve_Net_Card\<close>: the kernel of \<open>Eve_Main_Inv\<close> on this driver never panics or hangs.
  \<^item> \<open>Eve_Pci\<close> (\<open>pci.rs\<close>): configuration space and its scans; the locale \<open>pci_bus\<close>: a scan finds exactly the matching functions in order.
  \<^item> \<open>Eve_Virtio_Init\<close> (\<open>VirtioNet::probe\<close>, \<open>VirtioBlk::init\<close>): capabilities, BARs, negotiation and queues of both drivers. The locale
    \<open>register_log\<close> records the register writes, which an automaton for the steps of the VirtIO standard accepts; a started driver has its invariant.
  \<^item> \<open>Eve_Nic\<close> (\<open>nic/x86.rs\<close>, \<open>bge.rs\<close>): the choice of the card and the dispatch to its driver; a card drains when its driver does.
  \<^item> This theory: a fetch from its URL to its page.

  \<^bold>\<open>Conventions.\<close> Words of 8 to 64 bits are machine words; \<open>usize\<close> is a natural number with its limit written out where
  the source checks or saturates. \<open>None\<close> is a panic (an index out of range) unless the type says otherwise. A fixed array with a
  fill count is the list of its filled part. Global state that the methods write (log, clock) is a field of the state they
  belong to. Hardware and libraries are arguments: the device side of the VirtIO ring, the network card (\<open>nic_ops\<close>), the
  decoders (\<open>decoders\<close>), the TLS library (\<open>tls_ops\<close>, assumed to act on the stack only through its bridge), the script's host.

  \<^bold>\<open>Bounds.\<close> Polling the block device stops after the source's 2,000,000 rounds, polling the transmit queue after 500,000, a bridge read after
  2,000,000 spins and the walk over PCI capabilities after 64 steps: these are the loop counters of the source, counting
  down. The script machine stops at its step limit, 4096 by default, as in the source. The receive loop and the TLS pump
  are partial functions; \<open>drive\<close> is shown to return when the card delivers finitely many frames.

  \<^bold>\<open>Not modelled.\<close> Drawing (\<open>render_frame\<close> and the draw functions of \<open>gfx.rs\<close>, \<open>font.rs\<close>, \<open>emoji_glyph.rs\<close>): it writes pixels from the
  state of the interface, and no modelled part reads them. The drivers of the other network cards and of USB host controllers, serial and power, which program
  hardware registers: the card and what the controllers deliver are arguments. Boot code and entry points. The TLS library,
  inflate and brotli are not part of the repository. The copies of \<open>settings_text_key\<close>, \<open>start_browser_fetch\<close> and \<open>browser_scroll\<close> in \<open>arm_run.rs\<close> are
  those of \<open>main.rs\<close> and are modelled once.
\<close>

section \<open>A fetch, from its URL to its page\<close>



end
